(* ===== verification/Prelude.thy ===== *)
theory Prelude
  imports Main "HOL-Library.Word"
begin

text \<open>
  Shared base of the library: the names of the machine integers, byte order
  helpers, and the generic facts on words, lists and options that the component
  theories use. A memory area of the C code is a list of bytes; an array of the
  code is read with \<open>xs ! i\<close> at indices the code keeps inside its bounds, and
  a read the code does not keep inside the bounds is a \<open>None\<close> of the model.
\<close>

unbundle bit_operations_syntax

type_synonym u8 = "8 word"
type_synonym u16 = "16 word"
type_synonym u32 = "32 word"
type_synonym u64 = "64 word"

text \<open>Flags of mbufs that several components use.\<close>

abbreviation "M_ENCAP \<equiv> (0x00001000 :: u32)"
abbreviation "M_MORE_DATA \<equiv> (0x00010000 :: u32)"

named_theorems byte_simps \<open>splitting and joining bytes of machine words\<close>

section \<open>Little-endian words out of bytes\<close>

definition le16 :: "u8 \<Rightarrow> u8 \<Rightarrow> u16" where
  "le16 lo hi = ucast lo OR push_bit 8 (ucast hi)"

definition le32 :: "u8 \<Rightarrow> u8 \<Rightarrow> u8 \<Rightarrow> u8 \<Rightarrow> u32" where
  "le32 b0 b1 b2 b3 =
     ucast b0 OR push_bit 8 (ucast b1) OR push_bit 16 (ucast b2) OR push_bit 24 (ucast b3)"

definition bytes_le32 :: "u32 \<Rightarrow> u8 list" where
  "bytes_le32 v = [ucast v, ucast (drop_bit 8 v), ucast (drop_bit 16 v), ucast (drop_bit 24 v)]"

definition lo8 :: "u16 \<Rightarrow> u8" where "lo8 v = ucast v"
definition hi8 :: "u16 \<Rightarrow> u8" where "hi8 v = ucast (drop_bit 8 v)"
definition bswap16 :: "u16 \<Rightarrow> u16" where "bswap16 v = push_bit 8 v OR drop_bit 8 v"

lemma length_bytes_le32 [simp]: "length (bytes_le32 v) = 4"
  by (simp add: bytes_le32_def)

lemma less_8_cases: "(n::nat) < 8 \<Longrightarrow> n = 0 \<or> n = 1 \<or> n = 2 \<or> n = 3 \<or> n = 4 \<or> n = 5 \<or> n = 6 \<or> n = 7"
  by arith

lemma bit_u8_bound: "bit (x :: u8) n \<Longrightarrow> n < 8"
  by (drule bit_imp_le_length) simp

lemma bit_u16_bound: "bit (x :: u16) n \<Longrightarrow> n < 16"
  by (drule bit_imp_le_length) simp

lemma bit_u32_bound: "bit (x :: u32) n \<Longrightarrow> n < 32"
  by (drule bit_imp_le_length) simp

lemma not_bit_u8 [byte_simps]: "8 \<le> n \<Longrightarrow> \<not> bit (x :: u8) n"
  by (auto dest: bit_u8_bound)

lemmas bit_bounds = bit_u8_bound bit_u16_bound bit_u32_bound

lemma not_less_add_diff: "\<not> n < k \<Longrightarrow> k + (n - k) = (n :: nat)"
  by simp

lemma lo8_le16 [byte_simps]: "lo8 (le16 lo hi) = lo"
  unfolding lo8_def le16_def
  by (rule bit_word_eqI) (auto simp: bit_simps not_less_add_diff dest: bit_bounds)

lemma hi8_le16 [byte_simps]: "hi8 (le16 lo hi) = hi"
  unfolding hi8_def le16_def
  by (rule bit_word_eqI) (auto simp: bit_simps not_less_add_diff dest: bit_bounds)

lemma le16_lo8_hi8 [byte_simps]: "le16 (lo8 v) (hi8 v) = v"
  unfolding lo8_def hi8_def le16_def
  by (rule bit_word_eqI) (auto simp: bit_simps not_less_add_diff dest: bit_bounds)

lemma bswap16_le16 [byte_simps]: "bswap16 (le16 lo hi) = le16 hi lo"
  unfolding bswap16_def le16_def
  by (rule bit_word_eqI) (auto simp: bit_simps not_less_add_diff dest: bit_bounds)

lemma lo8_bswap16 [byte_simps]: "lo8 (bswap16 v) = hi8 v"
  unfolding bswap16_def lo8_def hi8_def
  by (rule bit_word_eqI) (auto simp: bit_simps not_less_add_diff dest: bit_bounds)

lemma hi8_bswap16 [byte_simps]: "hi8 (bswap16 v) = lo8 v"
  unfolding bswap16_def lo8_def hi8_def
  by (rule bit_word_eqI) (auto simp: bit_simps not_less_add_diff dest: bit_bounds)

lemma le16_inject [byte_simps]: "le16 a b = le16 c d \<longleftrightarrow> a = c \<and> b = d"
  by (metis lo8_le16 hi8_le16)

lemma le32_bytes_le32 [byte_simps]:
  "le32 (bytes_le32 v ! 0) (bytes_le32 v ! Suc 0) (bytes_le32 v ! 2) (bytes_le32 v ! 3) = v"
  unfolding bytes_le32_def le32_def
proof (rule bit_word_eqI)
  fix n assume "n < LENGTH(32)"
  then consider "n < 8" | "8 \<le> n \<and> n < 16" | "16 \<le> n \<and> n < 24" | "24 \<le> n \<and> n < 32"
    by fastforce
  then show "bit (ucast ([ucast v, ucast (drop_bit 8 v), ucast (drop_bit 16 v),
        ucast (drop_bit 24 v)] ! 0 :: u8) OR
      push_bit 8 (ucast ([ucast v, ucast (drop_bit 8 v), ucast (drop_bit 16 v),
        ucast (drop_bit 24 v)] ! Suc 0 :: u8)) OR
      push_bit 16 (ucast ([ucast v, ucast (drop_bit 8 v), ucast (drop_bit 16 v),
        ucast (drop_bit 24 v)] ! 2 :: u8)) OR
      push_bit 24 (ucast ([ucast v, ucast (drop_bit 8 v), ucast (drop_bit 16 v),
        ucast (drop_bit 24 v)] ! 3 :: u8)) :: u32) n = bit v n"
    by cases (auto simp: bit_simps)
qed

lemma bytes_le32_le32 [byte_simps]: "bytes_le32 (le32 a b c d) = [a, b, c, d]"
  unfolding bytes_le32_def le32_def
  by (auto intro!: bit_word_eqI simp: bit_simps not_bit_u8 dest: bit_bounds)

section \<open>Words and lists\<close>

lemma xor_cancel [simp]: "(x XOR k) XOR k = (x :: 'a::len word)"
  by (simp add: xor.assoc)

lemma unat_and_mask_less: "unat (x AND 255 :: 'a::len word) < 256"
proof -
  have "x AND 255 \<le> (255 :: 'a word)" by (rule word_and_le1)
  then have "unat (x AND 255) \<le> unat (255 :: 'a word)" by (simp add: word_le_nat_alt)
  also have "\<dots> \<le> 255" by (simp add: unat_numeral take_bit_nat_less_eq_self)
  finally show ?thesis by simp
qed

lemma unat_ucast_8_less [simp]: "unat (ucast (x :: 'a::len word) :: u8) < 256"
  using unsigned_less [of "ucast x :: u8"] by simp

lemma concat_take_drop: "concat (xs @ ys) = concat xs @ concat ys"
  by simp

lemma take_sum_append: "take (length xs + n) (xs @ ys) = xs @ take n ys"
  by simp

end
