(* ===== verification/Rc4.thy ===== *)
theory Rc4
  imports Crc32
begin

text \<open>
  The RC4 stream that the software WEP and TKIP ciphers of net80211 share
  (ieee80211_crypto_wep.c and ieee80211_crypto_tkip.c have the same loops): the key
  schedule, one step of the generator, the byte loops that encrypt and decrypt the data
  part of one mbuf, and the loops over an mbuf chain. The locale \<open>chain_stream\<close>
  states what a loop over a chain relies on (a stream that splits at any point and inverts
  itself); it is interpreted on the two byte loops of the code.
\<close>

section \<open>RC4\<close>

record rc4 =
  rc4_S :: "u8 list"
  rc4_i :: u32
  rc4_j :: u32

definition S_SWAP :: "u8 list \<Rightarrow> nat \<Rightarrow> nat \<Rightarrow> u8 list" where
  "S_SWAP S a b = (let t = S ! a; S = S[a := S ! b] in S[b := t])"

text \<open>One round of the key schedule: \<open>key i\<close> is the key byte the round uses.\<close>

definition rc4_ksa_step :: "(nat \<Rightarrow> u8) \<Rightarrow> nat \<Rightarrow> u8 list \<times> u32 \<Rightarrow> u8 list \<times> u32" where
  "rc4_ksa_step key i Sj = (case Sj of (S, j) \<Rightarrow>
     let j = (j + ucast (S ! i) + ucast (key i)) AND 0xff in (S_SWAP S i (unat j), j))"

definition rc4_setup :: "(nat \<Rightarrow> u8) \<Rightarrow> rc4" where
  "rc4_setup key =
     (case fold (rc4_ksa_step key) [0..<256] (map word_of_nat [0..<256], 0) of
        (S, j) \<Rightarrow> \<lparr>rc4_S = S, rc4_i = 0, rc4_j = 0\<rparr>)"

definition rc4_next :: "rc4 \<Rightarrow> rc4 \<times> u8" where
  "rc4_next st =
     (let i = (rc4_i st + 1) AND 0xff;
          j = (rc4_j st + ucast (rc4_S st ! unat i)) AND 0xff;
          S = S_SWAP (rc4_S st) (unat i) (unat j);
          k = S ! unat ((ucast (S ! unat i) + ucast (S ! unat j) :: u32) AND 0xff)
      in (\<lparr>rc4_S = S, rc4_i = i, rc4_j = j\<rparr>, k))"

fun rc4_xor :: "rc4 \<Rightarrow> u8 list \<Rightarrow> rc4 \<times> u8 list" where
  "rc4_xor st [] = (st, [])"
| "rc4_xor st (b # bs) =
     (let (st1, k) = rc4_next st; (st2, out) = rc4_xor st1 bs in (st2, (b XOR k) # out))"

section \<open>The byte loops over one mbuf\<close>

fun encrypt_bytes :: "rc4 \<Rightarrow> u32 \<Rightarrow> u8 list \<Rightarrow> rc4 \<times> u32 \<times> u8 list" where
  "encrypt_bytes st crc [] = (st, crc, [])"
| "encrypt_bytes st crc (b # bs) =
     (let crc = crc32_step crc b;
          (st, k) = rc4_next st;
          (st, crc, out) = encrypt_bytes st crc bs
      in (st, crc, (b XOR k) # out))"

fun decrypt_bytes :: "rc4 \<Rightarrow> u32 \<Rightarrow> u8 list \<Rightarrow> rc4 \<times> u32 \<times> u8 list" where
  "decrypt_bytes st crc [] = (st, crc, [])"
| "decrypt_bytes st crc (b # bs) =
     (let (st, k) = rc4_next st;
          p = b XOR k;
          crc = crc32_step crc p;
          (st, crc, out) = decrypt_bytes st crc bs
      in (st, crc, p # out))"

text \<open>
  The outer loops walk the chain: \<open>segs\<close> are the data of the mbufs from the current
  position on. The encryption loop leaves the number of bytes that were not found
  (\<open>data_len\<close> at its end); the decryption loop also leaves what follows the position
  \<open>pos\<close> at its end in the last mbuf, where the code reads the ICV.
\<close>

fun encrypt_chain :: "rc4 \<Rightarrow> u32 \<Rightarrow> nat \<Rightarrow> u8 list list \<Rightarrow> rc4 \<times> u32 \<times> nat \<times> u8 list list" where
  "encrypt_chain st crc data_len [] = (st, crc, data_len, [])"
| "encrypt_chain st crc data_len (m # ms) =
     (let buflen = (if length m > data_len then data_len else length m);
          (st, crc, out) = encrypt_bytes st crc (take buflen m);
          (st, crc, rest, ms') = encrypt_chain st crc (data_len - buflen) ms
      in (st, crc, rest, (out @ drop buflen m) # ms'))"

fun decrypt_chain ::
  "rc4 \<Rightarrow> u32 \<Rightarrow> nat \<Rightarrow> u8 list \<Rightarrow> u8 list list \<Rightarrow> rc4 \<times> u32 \<times> nat \<times> u8 list \<times> u8 list list" where
  "decrypt_chain st crc data_len pos [] = (st, crc, data_len, pos, [])"
| "decrypt_chain st crc data_len pos (m # ms) =
     (let buflen = (if length m > data_len then data_len else length m);
          (st, crc, out) = decrypt_bytes st crc (take buflen m);
          (st, crc, rest, pos', ms') = decrypt_chain st crc (data_len - buflen) (drop buflen m) ms
      in (st, crc, rest, pos', (out @ drop buflen m) # ms'))"

lemmas crypt_loop_simps = Let_def split_beta

subsection \<open>The byte loops are the RC4 stream and the CRC of the plain bytes\<close>

lemma rc4_xor_append:
  "rc4_xor st (xs @ ys) =
     (let (st1, a) = rc4_xor st xs; (st2, b) = rc4_xor st1 ys in (st2, a @ b))"
  by (induction xs arbitrary: st) (simp_all add: crypt_loop_simps)

lemma length_rc4_xor [simp]: "length (snd (rc4_xor st bs)) = length bs"
  by (induction bs arbitrary: st) (simp_all add: crypt_loop_simps)

lemma rc4_xor_invol: "rc4_xor st (snd (rc4_xor st bs)) = (fst (rc4_xor st bs), bs)"
  by (induction bs arbitrary: st) (simp_all add: crypt_loop_simps)

lemma encrypt_bytes_eq:
  "encrypt_bytes st crc bs =
     (fst (rc4_xor st bs), foldl crc32_step crc bs, snd (rc4_xor st bs))"
  by (induction bs arbitrary: st crc) (simp_all add: crypt_loop_simps)

lemma decrypt_bytes_eq:
  "decrypt_bytes st crc bs =
     (fst (rc4_xor st bs), foldl crc32_step crc (snd (rc4_xor st bs)), snd (rc4_xor st bs))"
  by (induction bs arbitrary: st crc) (simp_all add: crypt_loop_simps)

subsection \<open>Loops over an mbuf chain\<close>

text \<open>
  What the chain loops rely on: the byte loop splits at any point (the state after the
  first part is the state the second part starts from) and keeps the length of the data.
\<close>

locale chain_stream =
  fixes crypt :: "rc4 \<Rightarrow> u32 \<Rightarrow> u8 list \<Rightarrow> rc4 \<times> u32 \<times> u8 list"
    and loop :: "rc4 \<Rightarrow> u32 \<Rightarrow> nat \<Rightarrow> u8 list list \<Rightarrow> rc4 \<times> u32 \<times> nat \<times> u8 list list"
  assumes crypt_append: "crypt st crc (xs @ ys) =
      (let (st1, crc1, a) = crypt st crc xs; (st2, crc2, b) = crypt st1 crc1 ys
       in (st2, crc2, a @ b))"
    and crypt_length: "length (snd (snd (crypt st crc xs))) = length xs"
    and crypt_nil: "crypt st crc [] = (st, crc, [])"
    and loop_nil: "loop st crc n [] = (st, crc, n, [])"
    and loop_cons: "loop st crc n (m # ms) =
      (let buflen = min (length m) n;
           (st, crc, out) = crypt st crc (take buflen m);
           (st, crc, rest, ms') = loop st crc (n - buflen) ms
       in (st, crc, rest, (out @ drop buflen m) # ms'))"
begin

lemma loop_flat:
  "loop st crc n ms = (st', crc', rest, ms') \<Longrightarrow>
     crypt st crc (take n (concat ms)) = (st', crc', take n (concat ms')) \<and>
     drop n (concat ms') = drop n (concat ms) \<and>
     rest = n - length (concat ms) \<and> map length ms' = map length ms"
proof (induction ms arbitrary: st crc n st' crc' rest ms')
  case Nil
  then show ?case by (simp add: loop_nil crypt_nil)
next
  case (Cons m ms)
  define b where "b = min (length m) n"
  obtain st1 crc1 out where c: "crypt st crc (take b m) = (st1, crc1, out)"
    by (metis prod_cases3)
  obtain st2 crc2 rest2 ms2 where l: "loop st1 crc1 (n - b) ms = (st2, crc2, rest2, ms2)"
    by (metis prod_cases4)
  have res: "st' = st2" "crc' = crc2" "rest = rest2" "ms' = (out @ drop b m) # ms2"
    using Cons.prems c l by (auto simp: loop_cons Let_def b_def)
  have lo: "length out = b"
    using crypt_length [of st crc "take b m"] c by (simp add: b_def)
  have IH: "crypt st1 crc1 (take (n - b) (concat ms)) = (st2, crc2, take (n - b) (concat ms2))"
    "drop (n - b) (concat ms2) = drop (n - b) (concat ms)"
    "rest2 = n - b - length (concat ms)" "map length ms2 = map length ms"
    using Cons.IH [OF l] by auto
  show ?case
  proof (cases "length m \<le> n")
    case True
    then have b: "b = length m" by (simp add: b_def)
    have "crypt st crc (m @ take (n - length m) (concat ms)) =
        (st2, crc2, out @ take (n - length m) (concat ms2))"
      using c IH(1) by (simp add: crypt_append Let_def b)
    with True show ?thesis
      using IH lo by (simp add: res b)
  next
    case False
    then have b: "b = n" by (simp add: b_def)
    have "st2 = st1" "crc2 = crc1" using IH(1) by (auto simp: b crypt_nil)
    with False c show ?thesis
      using IH lo by (simp add: res b)
  qed
qed

end

interpretation enc: chain_stream encrypt_bytes encrypt_chain
  by unfold_locales (simp_all add: encrypt_bytes_eq rc4_xor_append crypt_loop_simps min_def)

text \<open>The decryption loop with the position it ends at taken apart from the rest.\<close>

definition decrypt_loop ::
  "rc4 \<Rightarrow> u32 \<Rightarrow> nat \<Rightarrow> u8 list list \<Rightarrow> rc4 \<times> u32 \<times> nat \<times> u8 list list" where
  "decrypt_loop st crc n ms =
     (case decrypt_chain st crc n [] ms of (st, crc, rest, pos, ms) \<Rightarrow> (st, crc, rest, ms))"

lemma decrypt_chain_cons:
  "decrypt_chain st crc n pos (m # ms) =
     (case decrypt_bytes st crc (take (min (length m) n) m) of (st1, crc1, out) \<Rightarrow>
        case decrypt_chain st1 crc1 (n - min (length m) n) (drop (min (length m) n) m) ms of
          (st2, crc2, rest, pos', ms') \<Rightarrow> (st2, crc2, rest, pos', (out @ drop (min (length m) n) m) # ms'))"
proof -
  have "(if length m > n then n else length m) = min (length m) n" by simp
  then show ?thesis by (simp add: Let_def)
qed

lemma decrypt_chain_pos:
  "decrypt_chain st crc n pos ms = (st', crc', rest, pos', ms') \<Longrightarrow>
     decrypt_chain st crc n p ms = (st', crc', rest, if ms = [] then p else pos', ms') \<and>
     pos' = (if ms = [] then pos else drop (n - length (concat (butlast ms))) (last ms))"
proof (induction ms arbitrary: st crc n pos p st' crc' rest pos' ms')
  case Nil
  then show ?case by simp
next
  case (Cons m ms)
  define b where "b = min (length m) n"
  obtain st1 crc1 out where c: "decrypt_bytes st crc (take b m) = (st1, crc1, out)"
    by (metis prod_cases3)
  obtain st2 crc2 rest2 pos2 ms2 where
    d: "decrypt_chain st1 crc1 (n - b) (drop b m) ms = (st2, crc2, rest2, pos2, ms2)"
    by (metis prod_cases5)
  have dr: "drop b m = drop n m" by (simp add: b_def min_def)
  have nb: "n - (b + l) = n - (length m + l)" for l by (simp add: b_def min_def)
  from Cons.prems c d have eq: "st' = st2" "crc' = crc2" "rest = rest2" "pos' = pos2"
    "ms' = (out @ drop b m) # ms2"
    by (auto simp: decrypt_chain_cons b_def simp del: decrypt_chain.simps)
  have p2: "pos2 = (if ms = [] then drop b m else drop (n - b - length (concat (butlast ms))) (last ms))"
    using Cons.IH [OF d] by blast
  have "decrypt_chain st crc n p (m # ms) = (st', crc', rest, pos', ms')"
    using c d by (simp add: decrypt_chain_cons eq b_def del: decrypt_chain.simps)
  then show ?case
    using p2 by (simp add: eq dr nb)
qed

lemma decrypt_loop_chain:
  assumes "decrypt_loop st crc n ms = (st', crc', rest, ms')" "ms \<noteq> []"
  shows "decrypt_chain st crc n pos ms =
    (st', crc', rest, drop (n - length (concat (butlast ms))) (last ms), ms')"
proof -
  obtain pos' where "decrypt_chain st crc n [] ms = (st', crc', rest, pos', ms')"
    using assms(1) by (auto simp: decrypt_loop_def split: prod.splits)
  from decrypt_chain_pos [OF this, of pos] assms(2) show ?thesis by simp
qed

interpretation dec: chain_stream decrypt_bytes decrypt_loop
proof unfold_locales
  fix st crc n and m :: "u8 list" and ms
  define b where "b = min (length m) n"
  obtain st1 crc1 out where c: "decrypt_bytes st crc (take b m) = (st1, crc1, out)"
    by (metis prod_cases3)
  obtain st2 crc2 rest2 pos2 ms2 where
    d: "decrypt_chain st1 crc1 (n - b) (drop b m) ms = (st2, crc2, rest2, pos2, ms2)"
    by (metis prod_cases5)
  from decrypt_chain_pos [OF d, of "[]"] c d
  show "decrypt_loop st crc n (m # ms) =
      (let buflen = min (length m) n; (st, crc, out) = decrypt_bytes st crc (take buflen m);
           (st, crc, rest, ms') = decrypt_loop st crc (n - buflen) ms
       in (st, crc, rest, (out @ drop buflen m) # ms'))"
    by (simp add: decrypt_loop_def decrypt_chain_cons b_def del: decrypt_chain.simps)
qed (simp_all add: decrypt_bytes_eq rc4_xor_append crypt_loop_simps decrypt_loop_def)

end
