(* ===== verification/Net80211.thy ===== *)
theory Net80211
  imports Prelude
begin

text \<open>
  What the net80211 components share: the fixed part of an 802.11 header
  (net80211/ieee80211.h), the mbuf chain a frame is kept in, the crypto key
  (net80211/ieee80211_crypto.h), and the part of the vap the crypto code touches: its
  flags, its statistics and the events it sends to user space.

  A frame is an mbuf chain, the list of the data of its mbufs, together with the packet
  flags of the receive parameters a driver may have attached and the flags of the mbuf. \<open>m_pkthdr.len\<close> is the sum of
  the lengths of the mbufs. The header accessors read the first mbuf, as \<open>mtod\<close> does.
\<close>

section \<open>The 802.11 header\<close>

type_synonym macaddr = "u8 list"

definition i_addr1 :: "u8 list \<Rightarrow> macaddr" where "i_addr1 wh = take 6 (drop 4 wh)"
definition i_addr2 :: "u8 list \<Rightarrow> macaddr" where "i_addr2 wh = take 6 (drop 10 wh)"
definition i_addr3 :: "u8 list \<Rightarrow> macaddr" where "i_addr3 wh = take 6 (drop 16 wh)"
definition i_addr4 :: "u8 list \<Rightarrow> macaddr" where "i_addr4 wh = take 6 (drop 24 wh)"

definition IEEE80211_IS_MGMT :: "u8 list \<Rightarrow> bool" where
  "IEEE80211_IS_MGMT wh \<longleftrightarrow> (wh ! 0) AND 0x0c = 0"

definition IEEE80211_IS_DSTODS :: "u8 list \<Rightarrow> bool" where
  "IEEE80211_IS_DSTODS wh \<longleftrightarrow> (wh ! 1) AND 0x03 = 0x03"

definition IEEE80211_QOS_HAS_SEQ :: "u8 list \<Rightarrow> bool" where
  "IEEE80211_QOS_HAS_SEQ wh \<longleftrightarrow> (wh ! 0) AND (0x0c OR 0x80) = (0x08 OR 0x80)"

definition IEEE80211_ADDR_EQ :: "macaddr \<Rightarrow> macaddr \<Rightarrow> bool" where
  "IEEE80211_ADDR_EQ a b \<longleftrightarrow> take 6 a = take 6 b"

definition IEEE80211_IS_MULTICAST :: "macaddr \<Rightarrow> bool" where
  "IEEE80211_IS_MULTICAST a \<longleftrightarrow> (a ! 0) AND 0x01 \<noteq> 0"

text \<open>\<open>i_qos[0]\<close> sits behind the third address, or behind the fourth if there is one.\<close>

definition ieee80211_gettid :: "u8 list \<Rightarrow> nat" where
  "ieee80211_gettid wh =
     (if IEEE80211_QOS_HAS_SEQ wh then
        unat ((if IEEE80211_IS_DSTODS wh then wh ! 30 else wh ! 24) AND 0x0f)
      else 16)"

definition ieee80211_hdrsize :: "u8 list \<Rightarrow> nat" where
  "ieee80211_hdrsize wh =
     24 + (if IEEE80211_IS_DSTODS wh then 6 else 0) + (if IEEE80211_QOS_HAS_SEQ wh then 2 else 0)"

definition roundup :: "nat \<Rightarrow> nat \<Rightarrow> nat" where
  "roundup x y = (x + (y - 1)) div y * y"

definition ieee80211_hdrspace :: "u32 \<Rightarrow> u8 list \<Rightarrow> nat" where
  "ieee80211_hdrspace ic_flags wh =
     (let size = ieee80211_hdrsize wh
      in if ic_flags AND 0x00080000 \<noteq> 0 then roundup size 4 else size)"

lemma and_mask_less_nat: "unat (x AND 15 :: u8) \<le> 15"
proof -
  have "x AND 15 \<le> (15 :: u8)" by (rule word_and_le1)
  then show ?thesis by (simp add: word_le_nat_alt)
qed

lemma and_0x80: "x AND 0x80 = (if bit x 7 then 0x80 else (0 :: u8))"
  by (rule bit_word_eqI) (auto simp: bit_and_iff dest!: less_8_cases)

lemma and_3_cases: "x AND 3 = 0 \<or> x AND 3 = 1 \<or> x AND 3 = 2 \<or> x AND 3 = (3 :: u8)"
proof -
  have "x AND 3 \<le> (3 :: u8)" by (rule word_and_le1)
  then have "unat (x AND 3) \<le> 3" by (simp add: word_le_nat_alt)
  then have "unat (x AND 3) = 0 \<or> unat (x AND 3) = 1 \<or> unat (x AND 3) = 2 \<or> unat (x AND 3) = 3"
    by arith
  then show ?thesis by (auto simp: word_unat_eq_iff)
qed

lemma ieee80211_gettid_less: "ieee80211_gettid wh < 17"
  using and_mask_less_nat [of "wh ! 30"] and_mask_less_nat [of "wh ! 24"]
  by (auto simp: ieee80211_gettid_def)

lemma hdrspace_bounds:
  "24 \<le> ieee80211_hdrspace f wh" "ieee80211_hdrspace f wh \<le> 32"
  "ieee80211_hdrsize wh \<le> ieee80211_hdrspace f wh"
  by (auto simp: ieee80211_hdrspace_def ieee80211_hdrsize_def roundup_def Let_def)

section \<open>mbuf chains\<close>

record mbuf =
  m_segs :: "u8 list list"
  m_rxs :: "u32 option"
  m_flags :: u32

abbreviation mtod :: "mbuf \<Rightarrow> u8 list" where "mtod m \<equiv> hd (m_segs m)"

definition pktlen :: "u8 list list \<Rightarrow> nat" where "pktlen segs = length (concat segs)"

definition rx_flag :: "mbuf \<Rightarrow> u32 \<Rightarrow> bool" where
  "rx_flag m f \<longleftrightarrow> (case m_rxs m of None \<Rightarrow> False | Some c_pktflags \<Rightarrow> c_pktflags AND f \<noteq> 0)"

text \<open>Overwriting part of a buffer (\<open>memcpy\<close>, \<open>memmove\<close>).\<close>

definition splice :: "'a list \<Rightarrow> nat \<Rightarrow> 'a list \<Rightarrow> 'a list" where
  "splice xs k ys = take k xs @ ys @ drop (k + length ys) xs"

text \<open>\<open>m_adj(m, n)\<close> trims from the front, \<open>m_adj(m, -n)\<close> from the back.\<close>

fun m_adj_front :: "nat \<Rightarrow> u8 list list \<Rightarrow> u8 list list" where
  "m_adj_front n [] = []"
| "m_adj_front n (s # ss) =
     (if length s \<le> n then [] # m_adj_front (n - length s) ss else drop n s # ss)"

fun m_keep :: "nat \<Rightarrow> u8 list list \<Rightarrow> u8 list list" where
  "m_keep n [] = []"
| "m_keep n (s # ss) = take n s # m_keep (n - length s) ss"

definition m_adj_back :: "nat \<Rightarrow> u8 list list \<Rightarrow> u8 list list" where
  "m_adj_back n segs = m_keep (pktlen segs - n) segs"

definition m_copydata :: "u8 list list \<Rightarrow> nat \<Rightarrow> nat \<Rightarrow> u8 list option" where
  "m_copydata segs off len =
     (if off + len \<le> pktlen segs then Some (take len (drop off (concat segs))) else None)"

text \<open>
  \<open>m_append\<close> and \<open>M_PREPEND\<close> may allocate and fail, and where they put the bytes depends on
  the room in the mbufs; they are arguments of the operations that call them. What their
  callers rely on: an append that succeeds adds the bytes at the end, and a prepend that
  succeeds puts them in front of the first mbuf's data, contiguous with it.
\<close>

type_synonym m_append = "u8 list list \<Rightarrow> u8 list \<Rightarrow> u8 list list option"
type_synonym m_prepend = "u8 list list \<Rightarrow> nat \<Rightarrow> u8 list list option"

definition appends :: "m_append \<Rightarrow> bool" where
  "appends app \<longleftrightarrow> (\<forall>segs bs segs'. segs \<noteq> [] \<longrightarrow> app segs bs = Some segs' \<longrightarrow>
     concat segs' = concat segs @ bs \<and> (\<exists>t. segs' = butlast segs @ t \<and> t \<noteq> [] \<and>
       length (hd t) \<ge> length (last segs) \<and> take (length (last segs)) (hd t) = last segs))"

definition prepends :: "m_prepend \<Rightarrow> bool" where
  "prepends pre \<longleftrightarrow> (\<forall>segs n segs'. segs \<noteq> [] \<longrightarrow> pre segs n = Some segs' \<longrightarrow>
     (\<exists>junk. length junk = n \<and> segs' = (junk @ hd segs) # tl segs))"

lemma length_splice [simp]: "k + length ys \<le> length xs \<Longrightarrow> length (splice xs k ys) = length xs"
  by (simp add: splice_def)

lemma concat_m_adj_front [simp]: "concat (m_adj_front n segs) = drop n (concat segs)"
  by (induction n segs rule: m_adj_front.induct) auto

lemma concat_m_keep [simp]: "concat (m_keep n segs) = take n (concat segs)"
  by (induction n segs rule: m_keep.induct) auto

lemma concat_m_adj_back [simp]:
  "concat (m_adj_back n segs) = take (length (concat segs) - n) (concat segs)"
  by (simp add: m_adj_back_def pktlen_def)

lemma m_adj_front_ne [simp]: "m_adj_front n segs = [] \<longleftrightarrow> segs = []"
  by (cases segs) auto

lemma concat_hd_tl: "segs \<noteq> [] \<Longrightarrow> concat segs = hd segs @ concat (tl segs)"
  by (cases segs) auto

text \<open>
  How the ciphers insert their header between the 802.11 header and the body: the 802.11
  header moves to the front of the prepended bytes and the cipher's header takes its place;
  and how they take it out again: the 802.11 header moves up and the front is trimmed.
\<close>

lemma insert_bytes:
  assumes "length junk = length iv" "hl \<le> length s"
  shows "splice (splice (junk @ s) 0 (take hl s)) hl iv = take hl s @ iv @ drop hl s"
proof -
  have "a + (hl - a) - (a - hl) = hl" for a by arith
  with assms show ?thesis by (simp add: splice_def)
qed

lemma strip_bytes:
  assumes "h + c \<le> length s" "0 < h"
  shows "m_adj_front c (splice s c (take h s) # ss) = (take h s @ drop (h + c) s) # ss"
  using assms by (simp add: splice_def add.commute)

lemma strip_trim:
  assumes "segs \<noteq> []" "h + c \<le> length (hd segs)" "0 < h" "h + c + t \<le> pktlen segs"
  shows "concat (m_adj_back t (m_adj_front c (splice (hd segs) c (take h (hd segs)) # tl segs))) =
    take h (concat segs) @ take (pktlen segs - (h + c + t)) (drop (h + c) (concat segs))"
proof -
  have l: "length (concat segs) - (c + t) = h + (length (concat segs) - (h + c + t))"
    using assms(4) by (simp add: pktlen_def)
  have "concat (m_adj_front c (splice (hd segs) c (take h (hd segs)) # tl segs)) =
      take h (concat segs) @ drop (h + c) (concat segs)"
    using assms(1,2,3) by (simp only: strip_bytes) (simp add: concat_hd_tl)
  moreover have "length (take h (concat segs) @ drop (h + c) (concat segs)) = length (concat segs) - c"
    using assms(4) by (simp add: pktlen_def)
  moreover have e: "n - (c + t + h) = n - (h + c + t)" for n by (simp add: ac_simps)
  ultimately show ?thesis
    unfolding concat_m_adj_back using l assms(4) by (simp add: pktlen_def e del: m_adj_front.simps)
qed

text \<open>\<open>a - b\<close> in \<open>u_int\<close>, then converted to \<open>size_t\<close>.\<close>

definition u_int_diff :: "nat \<Rightarrow> nat \<Rightarrow> nat" where
  "u_int_diff a b = unat (word_of_nat a - word_of_nat b :: u32)"

lemma u_int_diff_eq: "b \<le> a \<Longrightarrow> a < 2 ^ 32 \<Longrightarrow> u_int_diff a b = a - b"
  unfolding u_int_diff_def
  by (subst unat_sub) (simp_all add: word_le_nat_alt unsigned_of_nat take_bit_nat_eq_self)

lemma appends_at_end: "appends (\<lambda>segs bs. Some (segs @ [bs]))"
proof -
  have "segs @ [bs] = butlast segs @ [last segs, bs]" if "segs \<noteq> []" for segs :: "u8 list list" and bs
    using that by simp
  then show ?thesis unfolding appends_def
    by (metis append_Nil2 concat.simps(1,2) concat_append list.distinct(1) list.sel(1) option.inject
        order.refl take_all)
qed

lemma prepends_front: "prepends (\<lambda>segs n. Some ((replicate n 0 @ hd segs) # tl segs))"
  by (auto simp: prepends_def)

section \<open>Keys, statistics, events\<close>

record ieee80211_key =
  wk_keylen :: nat
  wk_flags :: u32
  wk_keyix :: u16
  wk_rxkeyix :: u16
  wk_key :: "u8 list"
  wk_keyrsc :: "u64 list"
  wk_keytsc :: u64
  wk_cipher :: u32  \<comment> \<open>the cipher, by its \<open>ic_cipher\<close>\<close>
  wk_nwidx :: "nat option"  \<comment> \<open>\<open>Some i\<close> for the key \<open>&vap->iv_nw_keys[i]\<close>\<close>

abbreviation wk_txmic :: "ieee80211_key \<Rightarrow> u8 list" where "wk_txmic k \<equiv> drop 16 (wk_key k)"
abbreviation wk_rxmic :: "ieee80211_key \<Rightarrow> u8 list" where "wk_rxmic k \<equiv> drop 24 (wk_key k)"

text \<open>\<open>IEEE80211_KEY_NOREPLAY\<close> and its companions of ieee80211_crypto.h.\<close>

definition KEY_NOREPLAY :: u32 where "KEY_NOREPLAY = 0x00000008"
definition KEY_SWENCRYPT :: u32 where "KEY_SWENCRYPT = 0x00000010"
definition KEY_SWDECRYPT :: u32 where "KEY_SWDECRYPT = 0x00000020"
definition KEY_SWENMIC :: u32 where "KEY_SWENMIC = 0x00000040"
definition KEY_SWDEMIC :: u32 where "KEY_SWDEMIC = 0x00000080"
definition KEY_NOIV :: u32 where "KEY_NOIV = 0x00004000"
definition KEY_NOIVMGT :: u32 where "KEY_NOIVMGT = 0x00008000"
definition KEY_NOMIC :: u32 where "KEY_NOMIC = 0x00010000"
definition KEY_NOMICMGT :: u32 where "KEY_NOMICMGT = 0x00020000"

definition KEY_XMIT :: u32 where "KEY_XMIT = 0x00000001"
definition KEY_RECV :: u32 where "KEY_RECV = 0x00000002"
definition KEY_GROUP :: u32 where "KEY_GROUP = 0x00000004"
definition KEY_DEVKEY :: u32 where "KEY_DEVKEY = 0x00000100"
definition KEY_COMMON :: u32 where "KEY_COMMON = 0x0000000f"
definition KEY_SWCRYPT :: u32 where "KEY_SWCRYPT = 0x00000030"
definition KEY_SWMIC :: u32 where "KEY_SWMIC = 0x000000c0"
definition KEY_DEVICE :: u32 where "KEY_DEVICE = 0x0003f1f0"

definition has_flag :: "u32 \<Rightarrow> u32 \<Rightarrow> bool" where
  "has_flag w f \<longleftrightarrow> w AND f \<noteq> 0"

definition ieee80211_crypto_get_keyid :: "ieee80211_key \<Rightarrow> u8" where
  "ieee80211_crypto_get_keyid k = (case wk_nwidx k of Some i \<Rightarrow> word_of_nat i | None \<Rightarrow> 0)"

record crypto_stats =
  is_crypto_nomem :: u32
  is_crypto_wep :: u32
  is_crypto_tkip :: u32
  is_crypto_tkipenmic :: u32
  is_crypto_tkipdemic :: u32
  is_crypto_tkipcm :: u32
  is_crypto_ccmp :: u32
  is_rx_wepfail :: u32
  is_rx_tkipformat :: u32
  is_rx_tkipreplay :: u32
  is_rx_tkipicv :: u32
  is_rx_tkipmic :: u32
  is_rx_ccmpformat :: u32
  is_rx_ccmpreplay :: u32
  is_rx_ccmpmic :: u32
  is_rx_tooshort :: u32
  is_tx_nodefkey :: u32
  is_tx_badcipher :: u32
  is_rx_badkeyid :: u32
  is_crypto_badcipher :: u32
  is_crypto_nocipher :: u32
  is_crypto_attachfail :: u32
  is_crypto_keyfail :: u32
  is_crypto_delkey :: u32
  is_crypto_setkey_nokey :: u32
  is_crypto_setkey_cipher :: u32

datatype crypto_event =
    ReplayEvent macaddr macaddr u32 u16 u64 u64
  | MichaelEvent macaddr macaddr u32

record vap =
  ic_flags :: u32
  iv_flags :: u32
  iv_ifp :: bool
  iv_stats :: crypto_stats
  iv_events :: "crypto_event list"

definition stat :: "(crypto_stats \<Rightarrow> crypto_stats) \<Rightarrow> vap \<Rightarrow> vap" where
  "stat f v = v\<lparr>iv_stats := f (iv_stats v)\<rparr>"

definition event_keyix :: "ieee80211_key \<Rightarrow> u16" where
  "event_keyix k = (if wk_rxkeyix k \<noteq> 0xffff then wk_rxkeyix k else wk_keyix k)"

definition ieee80211_notify_replay_failure ::
  "u8 list \<Rightarrow> ieee80211_key \<Rightarrow> u64 \<Rightarrow> nat \<Rightarrow> vap \<Rightarrow> vap" where
  "ieee80211_notify_replay_failure wh k rsc tid v =
     (if iv_ifp v then
        v\<lparr>iv_events := iv_events v @
            [ReplayEvent (i_addr1 wh) (i_addr2 wh) (wk_cipher k) (event_keyix k) (wk_keyrsc k ! tid) rsc]\<rparr>
      else v)"

definition ieee80211_notify_michael_failure :: "u8 list \<Rightarrow> u32 \<Rightarrow> vap \<Rightarrow> vap" where
  "ieee80211_notify_michael_failure wh keyix v =
     (let v = stat (\<lambda>s. s\<lparr>is_rx_tkipmic := is_rx_tkipmic s + 1\<rparr>) v
      in if iv_ifp v then
           v\<lparr>iv_events := iv_events v @ [MichaelEvent (i_addr1 wh) (i_addr2 wh) keyix]\<rparr>
         else v)"

text \<open>
  \<open>READ_6\<close> joins the six octets of a packet number, least significant first, as the
  code does: an \<open>iv32\<close> from the first four and an \<open>iv16\<close> from the last two.
\<close>

definition READ_6 :: "u8 \<Rightarrow> u8 \<Rightarrow> u8 \<Rightarrow> u8 \<Rightarrow> u8 \<Rightarrow> u8 \<Rightarrow> u64" where
  "READ_6 b0 b1 b2 b3 b4 b5 =
     (let iv32 = le32 b0 b1 b2 b3; iv16 = le16 b4 b5
      in push_bit 32 (ucast iv16) OR ucast iv32)"

lemma READ_6_bytes:
  assumes "tsc < 2 ^ 48"
  shows "READ_6 (ucast tsc) (ucast (drop_bit 8 tsc)) (ucast (drop_bit 16 tsc))
    (ucast (drop_bit 24 tsc)) (ucast (drop_bit 32 tsc)) (ucast (drop_bit 40 tsc)) = tsc"
proof (rule bit_word_eqI)
  fix n assume "n < LENGTH(64)"
  have hi: "\<not> bit tsc n" if "48 \<le> n"
  proof -
    have "take_bit 48 tsc = tsc"
    proof -
      have "unat tsc < 2 ^ 48" using assms by (simp add: word_less_nat_alt)
      then show ?thesis
        by (simp add: word_unat_eq_iff unsigned_take_bit_eq take_bit_nat_eq_self)
    qed
    then show ?thesis using that by (metis bit_take_bit_iff leD)
  qed
  from \<open>n < LENGTH(64)\<close> consider "n < 8" | "8 \<le> n \<and> n < 16" | "16 \<le> n \<and> n < 24"
    | "24 \<le> n \<and> n < 32" | "32 \<le> n \<and> n < 40" | "40 \<le> n \<and> n < 48" | "48 \<le> n \<and> n < 64"
    by fastforce
  then show "bit (READ_6 (ucast tsc) (ucast (drop_bit 8 tsc)) (ucast (drop_bit 16 tsc))
      (ucast (drop_bit 24 tsc)) (ucast (drop_bit 32 tsc)) (ucast (drop_bit 40 tsc))) n
    = bit tsc n"
    by cases (auto simp: READ_6_def le32_def le16_def Let_def bit_simps hi)
qed

end
