(* ===== verification/Tkip.thy ===== *)
theory Tkip
  imports Rc4 Net80211
begin

text \<open>
  The TKIP cipher of net80211 (freebsd/sys/net80211/ieee80211_crypto_tkip.c): the two key
  mixing phases, the Michael MIC over an mbuf chain, the WEP encapsulation under the mixed
  key, and the operations of the cipher module (attach, setkey, encap, decap, enmic, demic)
  with the per key state \<open>tkip_ctx\<close>. A result \<open>None\<close> is an access the C code would make
  outside the buffers of the chain; everything else is a value.
\<close>

section \<open>Key mixing\<close>

definition RotR1 :: "u16 \<Rightarrow> u16" where
  "RotR1 val = drop_bit 1 val OR push_bit 15 val"

definition Lo16 :: "u32 \<Rightarrow> u16" where "Lo16 val = ucast (val AND 0xffff)"
definition Hi16 :: "u32 \<Rightarrow> u16" where "Hi16 val = ucast (drop_bit 16 val)"
definition Mk16 :: "u8 \<Rightarrow> u8 \<Rightarrow> u16" where "Mk16 hi lo = ucast lo OR push_bit 8 (ucast hi)"

definition Sbox :: "u16 list" where
  "Sbox =
  [0xC6A5, 0xF884, 0xEE99, 0xF68D, 0xFF0D, 0xD6BD, 0xDEB1, 0x9154,
   0x6050, 0x0203, 0xCEA9, 0x567D, 0xE719, 0xB562, 0x4DE6, 0xEC9A,
   0x8F45, 0x1F9D, 0x8940, 0xFA87, 0xEF15, 0xB2EB, 0x8EC9, 0xFB0B,
   0x41EC, 0xB367, 0x5FFD, 0x45EA, 0x23BF, 0x53F7, 0xE496, 0x9B5B,
   0x75C2, 0xE11C, 0x3DAE, 0x4C6A, 0x6C5A, 0x7E41, 0xF502, 0x834F,
   0x685C, 0x51F4, 0xD134, 0xF908, 0xE293, 0xAB73, 0x6253, 0x2A3F,
   0x080C, 0x9552, 0x4665, 0x9D5E, 0x3028, 0x37A1, 0x0A0F, 0x2FB5,
   0x0E09, 0x2436, 0x1B9B, 0xDF3D, 0xCD26, 0x4E69, 0x7FCD, 0xEA9F,
   0x121B, 0x1D9E, 0x5874, 0x342E, 0x362D, 0xDCB2, 0xB4EE, 0x5BFB,
   0xA4F6, 0x764D, 0xB761, 0x7DCE, 0x527B, 0xDD3E, 0x5E71, 0x1397,
   0xA6F5, 0xB968, 0x0000, 0xC12C, 0x4060, 0xE31F, 0x79C8, 0xB6ED,
   0xD4BE, 0x8D46, 0x67D9, 0x724B, 0x94DE, 0x98D4, 0xB0E8, 0x854A,
   0xBB6B, 0xC52A, 0x4FE5, 0xED16, 0x86C5, 0x9AD7, 0x6655, 0x1194,
   0x8ACF, 0xE910, 0x0406, 0xFE81, 0xA0F0, 0x7844, 0x25BA, 0x4BE3,
   0xA2F3, 0x5DFE, 0x80C0, 0x058A, 0x3FAD, 0x21BC, 0x7048, 0xF104,
   0x63DF, 0x77C1, 0xAF75, 0x4263, 0x2030, 0xE51A, 0xFD0E, 0xBF6D,
   0x814C, 0x1814, 0x2635, 0xC32F, 0xBEE1, 0x35A2, 0x88CC, 0x2E39,
   0x9357, 0x55F2, 0xFC82, 0x7A47, 0xC8AC, 0xBAE7, 0x322B, 0xE695,
   0xC0A0, 0x1998, 0x9ED1, 0xA37F, 0x4466, 0x547E, 0x3BAB, 0x0B83,
   0x8CCA, 0xC729, 0x6BD3, 0x283C, 0xA779, 0xBCE2, 0x161D, 0xAD76,
   0xDB3B, 0x6456, 0x744E, 0x141E, 0x92DB, 0x0C0A, 0x486C, 0xB8E4,
   0x9F5D, 0xBD6E, 0x43EF, 0xC4A6, 0x39A8, 0x31A4, 0xD337, 0xF28B,
   0xD532, 0x8B43, 0x6E59, 0xDAB7, 0x018C, 0xB164, 0x9CD2, 0x49E0,
   0xD8B4, 0xACFA, 0xF307, 0xCF25, 0xCAAF, 0xF48E, 0x47E9, 0x1018,
   0x6FD5, 0xF088, 0x4A6F, 0x5C72, 0x3824, 0x57F1, 0x73C7, 0x9751,
   0xCB23, 0xA17C, 0xE89C, 0x3E21, 0x96DD, 0x61DC, 0x0D86, 0x0F85,
   0xE090, 0x7C42, 0x71C4, 0xCCAA, 0x90D8, 0x0605, 0xF701, 0x1C12,
   0xC2A3, 0x6A5F, 0xAEF9, 0x69D0, 0x1791, 0x9958, 0x3A27, 0x27B9,
   0xD938, 0xEB13, 0x2BB3, 0x2233, 0xD2BB, 0xA970, 0x0789, 0x33A7,
   0x2DB6, 0x3C22, 0x1592, 0xC920, 0x8749, 0xAAFF, 0x5078, 0xA57A,
   0x038F, 0x59F8, 0x0980, 0x1A17, 0x65DA, 0xD731, 0x84C6, 0xD0B8,
   0x82C3, 0x29B0, 0x5A77, 0x1E11, 0x7BCB, 0xA8FC, 0x6DD6, 0x2C3A]"

definition tkip_S :: "u16 \<Rightarrow> u16" where
  "tkip_S v = (let t = Sbox ! unat (hi8 v)
           in Sbox ! unat (lo8 v) XOR (push_bit 8 t OR drop_bit 8 t))"

definition phase1_round :: "u8 list \<Rightarrow> nat \<Rightarrow> u16 list \<Rightarrow> u16 list" where
  "phase1_round TK i TTAK =
     (let j = 2 * (i mod 2);
          TTAK = TTAK[0 := TTAK ! 0 + tkip_S (TTAK ! 4 XOR Mk16 (TK ! (1 + j)) (TK ! (0 + j)))];
          TTAK = TTAK[1 := TTAK ! 1 + tkip_S (TTAK ! 0 XOR Mk16 (TK ! (5 + j)) (TK ! (4 + j)))];
          TTAK = TTAK[2 := TTAK ! 2 + tkip_S (TTAK ! 1 XOR Mk16 (TK ! (9 + j)) (TK ! (8 + j)))];
          TTAK = TTAK[3 := TTAK ! 3 + tkip_S (TTAK ! 2 XOR Mk16 (TK ! (13 + j)) (TK ! (12 + j)))];
          TTAK = TTAK[4 := TTAK ! 4 + tkip_S (TTAK ! 3 XOR Mk16 (TK ! (1 + j)) (TK ! (0 + j)))
                             + word_of_nat i]
      in TTAK)"

definition tkip_mixing_phase1 :: "u8 list \<Rightarrow> u8 list \<Rightarrow> u32 \<Rightarrow> u16 list" where
  "tkip_mixing_phase1 TK TA IV32 =
     fold (phase1_round TK) [0..<8]
       [Lo16 IV32, Hi16 IV32,
        Mk16 (TA ! 1) (TA ! 0), Mk16 (TA ! 3) (TA ! 2), Mk16 (TA ! 5) (TA ! 4)]"

text \<open>
  Phase 2 keeps the 96-bit \<open>PPK\<close> in the last twelve bytes of the seed, through a
  \<open>u16 *\<close>: \<open>be\<close> is the byte order of the host (\<open>_BYTE_ORDER == _BIG_ENDIAN\<close>), which the
  loads \<open>Mk16_le\<close> and the final swap compensate.
\<close>

definition load16 :: "bool \<Rightarrow> u8 \<Rightarrow> u8 \<Rightarrow> u16" where
  "load16 be b0 b1 = (if be then le16 b1 b0 else le16 b0 b1)"

definition store16 :: "bool \<Rightarrow> u16 \<Rightarrow> u8 list" where
  "store16 be v = (if be then [hi8 v, lo8 v] else [lo8 v, hi8 v])"

definition le16toh :: "bool \<Rightarrow> u16 \<Rightarrow> u16" where
  "le16toh be v = (if be then bswap16 v else v)"

definition Mk16_le :: "bool \<Rightarrow> u8 list \<Rightarrow> nat \<Rightarrow> u16" where
  "Mk16_le be TK k = le16toh be (load16 be (TK ! k) (TK ! (k + 1)))"

text \<open>The 96-bit mix of the phase; \<open>ld k\<close> is \<open>Mk16_le\<close> of the key word at octet \<open>k\<close>.\<close>

definition phase2_ppk :: "(nat \<Rightarrow> u16) \<Rightarrow> u16 list \<Rightarrow> u16 \<Rightarrow> u16 list" where
  "phase2_ppk ld TTAK IV16 =
     (let PPK = [TTAK ! 0, TTAK ! 1, TTAK ! 2, TTAK ! 3, TTAK ! 4, TTAK ! 4 + IV16];
          PPK = PPK[0 := PPK ! 0 + tkip_S (PPK ! 5 XOR ld 0)];
          PPK = PPK[1 := PPK ! 1 + tkip_S (PPK ! 0 XOR ld 2)];
          PPK = PPK[2 := PPK ! 2 + tkip_S (PPK ! 1 XOR ld 4)];
          PPK = PPK[3 := PPK ! 3 + tkip_S (PPK ! 2 XOR ld 6)];
          PPK = PPK[4 := PPK ! 4 + tkip_S (PPK ! 3 XOR ld 8)];
          PPK = PPK[5 := PPK ! 5 + tkip_S (PPK ! 4 XOR ld 10)];
          PPK = PPK[0 := PPK ! 0 + RotR1 (PPK ! 5 XOR ld 12)];
          PPK = PPK[1 := PPK ! 1 + RotR1 (PPK ! 0 XOR ld 14)];
          PPK = PPK[2 := PPK ! 2 + RotR1 (PPK ! 1)];
          PPK = PPK[3 := PPK ! 3 + RotR1 (PPK ! 2)];
          PPK = PPK[4 := PPK ! 4 + RotR1 (PPK ! 3)];
          PPK = PPK[5 := PPK ! 5 + RotR1 (PPK ! 4)]
      in PPK)"

definition tkip_mixing_phase2 :: "bool \<Rightarrow> u8 list \<Rightarrow> u16 list \<Rightarrow> u16 \<Rightarrow> u8 list" where
  "tkip_mixing_phase2 be TK TTAK IV16 =
     (let PPK = phase2_ppk (Mk16_le be TK) TTAK IV16;
          seed = [hi8 IV16, (hi8 IV16 OR 0x20) AND 0x7F, lo8 IV16,
                  lo8 (drop_bit 1 (PPK ! 5 XOR Mk16_le be TK 0))];
          PPK = (if be then map bswap16 PPK else PPK)
      in seed @ concat (map (store16 be) PPK))"

section \<open>The Michael MIC\<close>

definition rotl :: "u32 \<Rightarrow> nat \<Rightarrow> u32" where
  "rotl val bits = push_bit bits val OR drop_bit (32 - bits) val"

definition rotr :: "u32 \<Rightarrow> nat \<Rightarrow> u32" where
  "rotr val bits = drop_bit bits val OR push_bit (32 - bits) val"

definition xswap :: "u32 \<Rightarrow> u32" where
  "xswap val = push_bit 8 (val AND 0x00ff00ff) OR drop_bit 8 (val AND 0xff00ff00)"

definition michael_block :: "u32 \<times> u32 \<Rightarrow> u32 \<times> u32" where
  "michael_block lr = (case lr of (l, r) \<Rightarrow>
     let r = r XOR rotl l 17; l = l + r;
         r = r XOR xswap l;   l = l + r;
         r = r XOR rotl l 3;  l = l + r;
         r = r XOR rotr l 2;  l = l + r
     in (l, r))"

text \<open>\<open>l ^= v; michael_block(l, r)\<close>\<close>

definition michael_word :: "u32 \<times> u32 \<Rightarrow> u32 \<Rightarrow> u32 \<times> u32" where
  "michael_word lr v = michael_block (fst lr XOR v, snd lr)"

definition get_le32 :: "u8 list \<Rightarrow> nat \<Rightarrow> u32" where
  "get_le32 p k = le32 (p ! k) (p ! (k + 1)) (p ! (k + 2)) (p ! (k + 3))"

definition michael_mic_hdr :: "u8 list \<Rightarrow> u8 list" where
  "michael_mic_hdr wh =
     (let dir = (wh ! 1) AND 0x03;
          dasa = (if dir = 0x00 then i_addr1 wh @ i_addr2 wh
                  else if dir = 0x01 then i_addr3 wh @ i_addr2 wh
                  else if dir = 0x02 then i_addr1 wh @ i_addr3 wh
                  else i_addr3 wh @ i_addr4 wh);
          prio = (if (wh ! 0) AND 0x80 \<noteq> 0 then (wh ! 24) AND 0x0f else 0)
      in dasa @ [prio, 0, 0, 0])"

definition michael_init :: "u8 list \<Rightarrow> u8 list \<Rightarrow> u32 \<times> u32" where
  "michael_init key hdr =
     (let lr = (get_le32 key 0, get_le32 key 4);
          lr = michael_word lr (get_le32 hdr 0);
          lr = michael_word lr (get_le32 hdr 4);
          lr = michael_word lr (get_le32 hdr 8);
          lr = michael_word lr (get_le32 hdr 12)
      in lr)"

text \<open>The inner \<open>while (space >= sizeof(uint32_t))\<close>; \<open>data\<close> is what follows the pointer.\<close>

fun michael_words ::
  "u32 \<times> u32 \<Rightarrow> u8 list \<Rightarrow> nat \<Rightarrow> nat \<Rightarrow> (u32 \<times> u32) \<times> u8 list \<times> nat \<times> nat" where
  "michael_words lr (b0 # b1 # b2 # b3 # data) space data_len =
     (if space \<ge> 4
      then michael_words (michael_word lr (le32 b0 b1 b2 b3)) data (space - 4) (data_len - 4)
      else (lr, b0 # b1 # b2 # b3 # data, space, data_len))"
| "michael_words lr data space data_len = (lr, data, space, data_len)"

text \<open>A block that straddles two buffers: \<open>space\<close> bytes of this one, the rest of the next.\<close>

definition straddle :: "nat \<Rightarrow> u8 list \<Rightarrow> u8 list \<Rightarrow> u32" where
  "straddle space data data_next =
     (if space = 1 then le32 (data ! 0) (data_next ! 0) (data_next ! 1) (data_next ! 2)
      else if space = 2 then le32 (data ! 0) (data ! 1) (data_next ! 0) (data_next ! 1)
      else le32 (data ! 0) (data ! 1) (data ! 2) (data_next ! 0))"

fun michael_segs ::
  "u32 \<times> u32 \<Rightarrow> u8 list \<Rightarrow> nat \<Rightarrow> nat \<Rightarrow> u8 list list
     \<Rightarrow> ((u32 \<times> u32) \<times> u8 list \<times> nat) option" where
  "michael_segs lr data space data_len [] =
     (case michael_words lr data (min space data_len) data_len of
        (lr, data, space, data_len) \<Rightarrow> Some (lr, data, data_len))"
| "michael_segs lr data space data_len (m # ms) =
     (case michael_words lr data (min space data_len) data_len of
        (lr, data, space, data_len) \<Rightarrow>
          if data_len = 0 \<or> (data_len < 4 \<and> space \<noteq> 0) then Some (lr, data, data_len)
          else if space \<noteq> 0 then
            (if length m < 4 - space then None
             else michael_segs (michael_word lr (straddle space data m))
                    (drop (4 - space) m) (length m - (4 - space)) (data_len - 4) ms)
          else michael_segs lr m (length m) data_len ms)"

text \<open>Last block and padding.\<close>

definition michael_final :: "u32 \<times> u32 \<Rightarrow> u8 list \<Rightarrow> nat \<Rightarrow> (u32 \<times> u32) option" where
  "michael_final lr data data_len =
     (if data_len \<le> 3 \<and> length data < data_len then None
      else let l = (if data_len = 0 then le32 0x5a 0 0 0
                    else if data_len = 1 then le32 (data ! 0) 0x5a 0 0
                    else if data_len = 2 then le32 (data ! 0) (data ! 1) 0x5a 0
                    else if data_len = 3 then le32 (data ! 0) (data ! 1) (data ! 2) 0x5a
                    else 0)
           in Some (michael_block (michael_word lr l)))"

definition michael_mic ::
  "u8 list \<Rightarrow> u8 list list \<Rightarrow> nat \<Rightarrow> nat \<Rightarrow> u8 list option" where
  "michael_mic key segs off data_len =
     (if segs = [] \<or> length (hd segs) < off then None
      else case michael_segs (michael_init key (michael_mic_hdr (hd segs)))
                  (drop off (hd segs)) (length (hd segs) - off) data_len (tl segs) of
             None \<Rightarrow> None
           | Some (lr, data, left) \<Rightarrow>
               (case michael_final lr data left of
                  None \<Rightarrow> None
                | Some (l, r) \<Rightarrow> Some (bytes_le32 l @ bytes_le32 r)))"

text \<open>The MIC of a flat buffer: the words, then the padded rest.\<close>

fun michael_ref :: "u32 \<times> u32 \<Rightarrow> u8 list \<Rightarrow> u32 \<times> u32" where
  "michael_ref lr (b0 # b1 # b2 # b3 # bs) = michael_ref (michael_word lr (le32 b0 b1 b2 b3)) bs"
| "michael_ref lr [b0, b1, b2] = michael_block (michael_word lr (le32 b0 b1 b2 0x5a))"
| "michael_ref lr [b0, b1] = michael_block (michael_word lr (le32 b0 b1 0x5a 0))"
| "michael_ref lr [b0] = michael_block (michael_word lr (le32 b0 0x5a 0 0))"
| "michael_ref lr [] = michael_block (michael_word lr (le32 0x5a 0 0 0))"

subsection \<open>The chain computes the MIC of the flat data\<close>

lemma michael_words_inv:
  "michael_words lr data space n = (lr', data', space', n') \<Longrightarrow>
     space \<le> length data \<Longrightarrow> space \<le> n \<Longrightarrow>
     space' < 4 \<and> n' - space' = n - space \<and> space' \<le> n' \<and>
     length data' - space' = length data - space \<and> space' \<le> length data' \<and>
     michael_ref lr (take n (data @ rest)) = michael_ref lr' (take n' (data' @ rest))"
proof (induction lr data space n arbitrary: lr' data' space' n' rule: michael_words.induct)
  case (1 lr b0 b1 b2 b3 data space n)
  show ?case
  proof (cases "space \<ge> 4")
    case True
    with 1(3) have n: "4 \<le> n" and sp: "space - 4 \<le> length data" "space - 4 \<le> n - 4"
      using 1(4) by auto
    then have "n = Suc (Suc (Suc (Suc (n - 4))))" by simp
    then have tk: "take n (b0 # b1 # b2 # b3 # data @ rest) =
        b0 # b1 # b2 # b3 # take (n - 4) (data @ rest)"
      by (metis take_Suc_Cons)
    have "michael_words (michael_word lr (le32 b0 b1 b2 b3)) data (space - 4) (n - 4)
        = (lr', data', space', n')"
      using 1(2) True by simp
    from 1(1) [OF True this sp] show ?thesis
      using True n by (auto simp: tk)
  next
    case False
    with 1 show ?thesis by auto
  qed
qed auto

lemma michael_unclipped:
  assumes "michael_words lr data (min (length data) n) n = (lr1, d1, s1, n1)"
    and "\<not> (n1 = 0 \<or> (n1 < 4 \<and> s1 \<noteq> 0))"
  shows "length data \<le> n \<and> length d1 = s1"
proof -
  have "s1 < 4 \<and> n1 - s1 = n - min (length data) n \<and> s1 \<le> n1 \<and>
      length d1 - s1 = length data - min (length data) n \<and> s1 \<le> length d1"
    using michael_words_inv [OF assms(1), of "[]"] by simp
  with assms(2) show ?thesis by linarith
qed

lemma take_straddle:
  assumes "length data = k" "k < 4" "k \<noteq> 0" "4 - k \<le> length m" "4 \<le> n"
  shows "michael_ref lr (take n (data @ m @ rest)) =
    michael_ref (michael_word lr (straddle k data m)) (take (n - 4) (drop (4 - k) m @ rest))"
proof -
  from assms(2,3) consider "k = 1" | "k = 2" | "k = 3" by fastforce
  then show ?thesis
  proof cases
    case 1
    then obtain a b c d m' where "data = [a]" "m = b # c # d # m'"
      using assms by (auto simp: length_Suc_conv Suc_le_length_iff numeral_eq_Suc)
    then show ?thesis using assms 1 by (simp add: straddle_def take_Cons' numeral_eq_Suc)
  next
    case 2
    then obtain a b c d m' where "data = [a, b]" "m = c # d # m'"
      using assms by (auto simp: length_Suc_conv Suc_le_length_iff numeral_eq_Suc)
    then show ?thesis using assms 2 by (simp add: straddle_def take_Cons' numeral_eq_Suc)
  next
    case 3
    then obtain a b c d m' where "data = [a, b, c]" "m = d # m'"
      using assms by (auto simp: length_Suc_conv Suc_le_length_iff numeral_eq_Suc)
    then show ?thesis using assms 3 by (simp add: straddle_def take_Cons' numeral_eq_Suc)
  qed
qed

lemma michael_segs_flat:
  "michael_segs lr data (length data) n ms = Some (lr', data', n') \<Longrightarrow>
     n \<le> length data + length (concat ms) \<Longrightarrow>
     n' < 4 \<and>
     (n' \<le> length data' \<longrightarrow>
        michael_ref lr (take n (data @ concat ms)) = michael_ref lr' (take n' data'))"
proof (induction ms arbitrary: lr data n lr' data' n')
  case Nil
  obtain space' where w: "michael_words lr data (min (length data) n) n = (lr', data', space', n')"
    using Nil by (auto split: prod.splits)
  from michael_words_inv [OF w, of "[]"] Nil(2) show ?case by auto
next
  case (Cons m ms)
  obtain lr1 d1 s1 n1 where w:
    "michael_words lr data (min (length data) n) n = (lr1, d1, s1, n1)"
    by (metis prod_cases4)
  note inv = michael_words_inv [OF w, of "concat (m # ms)"]
  show ?case
  proof (cases "n1 = 0 \<or> (n1 < 4 \<and> s1 \<noteq> 0)")
    case True
    with Cons.prems w have "lr' = lr1" "data' = d1" "n' = n1" by auto
    with True inv show ?thesis by auto
  next
    case more: False
    have unclipped: "length data \<le> n" "length d1 = s1"
      using michael_unclipped [OF w] more by auto
    have len: "n1 \<le> length d1 + length (concat (m # ms))"
      using inv Cons.prems(2) unclipped by auto
    show ?thesis
    proof (cases "s1 = 0")
      case True
      with Cons.prems w more have "michael_segs lr1 m (length m) n1 ms = Some (lr', data', n')"
        by auto
      from Cons.IH [OF this] len True unclipped inv show ?thesis by auto
    next
      case False
      with Cons.prems w more have nx: "4 - s1 \<le> length m"
        and r: "michael_segs (michael_word lr1 (straddle s1 d1 m)) (drop (4 - s1) m)
          (length (drop (4 - s1) m)) (n1 - 4) ms = Some (lr', data', n')"
        by (auto split: if_splits)
      have "michael_ref lr1 (take n1 (d1 @ m @ concat ms)) =
          michael_ref (michael_word lr1 (straddle s1 d1 m))
            (take (n1 - 4) (drop (4 - s1) m @ concat ms))"
        by (rule take_straddle) (use unclipped inv False more nx in auto)
      moreover have "michael_ref lr (take n (data @ concat (m # ms))) =
          michael_ref lr1 (take n1 (d1 @ m @ concat ms))"
        using inv by (simp only: concat.simps min.cobounded1 min.cobounded2)
      moreover have "n1 - 4 \<le> length (drop (4 - s1) m) + length (concat ms)"
        using len nx unclipped(2) False inv by auto
      ultimately show ?thesis
        using Cons.IH [OF r] by simp
    qed
  qed
qed

lemma michael_final_ref:
  assumes "n < 4" "michael_final lr data n = Some lr'"
  shows "n \<le> length data \<and> lr' = michael_ref lr (take n data)"
proof -
  from assms have le: "n \<le> length data" by (auto simp: michael_final_def split: if_splits)
  from assms(1) consider "n = 0" | "n = 1" | "n = 2" | "n = 3" by fastforce
  then show ?thesis
  proof cases
    case 1 with assms show ?thesis by (simp add: michael_final_def)
  next
    case 2
    with le obtain a d where "data = a # d" by (cases data) auto
    with 2 assms show ?thesis by (simp add: michael_final_def)
  next
    case 3
    with le obtain a b d where "data = a # b # d"
      by (auto simp: Suc_le_length_iff numeral_eq_Suc)
    with 3 assms show ?thesis by (simp add: michael_final_def)
  next
    case 4
    with le obtain a b c d where "data = a # b # c # d"
      by (auto simp: Suc_le_length_iff numeral_eq_Suc)
    with 4 assms show ?thesis by (simp add: michael_final_def numeral_eq_Suc)
  qed
qed

definition michael_flat :: "u8 list \<Rightarrow> u8 list \<Rightarrow> u8 list \<Rightarrow> u8 list" where
  "michael_flat key wh bs =
     (let lr = michael_ref (michael_init key (michael_mic_hdr wh)) bs
      in bytes_le32 (fst lr) @ bytes_le32 (snd lr))"

lemma length_michael_flat [simp]: "length (michael_flat key wh bs) = 8"
  by (simp add: michael_flat_def Let_def)

lemma michael_mic_flat:
  assumes mic: "michael_mic key segs off n = Some mic"
    and len: "off + n \<le> pktlen segs"
  shows "mic = michael_flat key (hd segs) (take n (drop off (concat segs)))"
proof -
  obtain lr data left where ne: "segs \<noteq> []" and off: "off \<le> length (hd segs)"
    and s: "michael_segs (michael_init key (michael_mic_hdr (hd segs))) (drop off (hd segs))
        (length (drop off (hd segs))) n (tl segs) = Some (lr, data, left)"
    and f: "\<exists>l r. michael_final lr data left = Some (l, r) \<and> mic = bytes_le32 l @ bytes_le32 r"
    using mic by (auto simp: michael_mic_def split: if_splits option.splits)
  have cc: "drop off (concat segs) = drop off (hd segs) @ concat (tl segs)"
    using ne off by (simp add: concat_hd_tl)
  have "n \<le> length (drop off (hd segs)) + length (concat (tl segs))"
    using len cc by (simp add: pktlen_def concat_hd_tl [OF ne])
  from michael_segs_flat [OF s this] have l4: "left < 4"
    and eq: "left \<le> length data \<longrightarrow> michael_ref (michael_init key (michael_mic_hdr (hd segs)))
        (take n (drop off (hd segs) @ concat (tl segs))) = michael_ref lr (take left data)"
    by auto
  from f obtain l r where fin: "michael_final lr data left = Some (l, r)"
    and m: "mic = bytes_le32 l @ bytes_le32 r"
    by blast
  from michael_final_ref [OF l4 fin] eq have
    "michael_ref (michael_init key (michael_mic_hdr (hd segs)))
        (take n (drop off (hd segs) @ concat (tl segs))) = (l, r)"
    by simp
  then show ?thesis
    by (simp only: michael_flat_def Let_def cc m fst_conv snd_conv)
qed

text \<open>
  No byte is missed and none is read outside the chain when no mbuf behind the first is
  shorter than a word and the data reaches at least a word into the last one: the code's
  KASSERTs ask for the first, and the degenerate cases it warns of are those without the second.
\<close>

lemma michael_segs_total:
  assumes "\<forall>m \<in> set ms. 4 \<le> length m" "n \<le> length data + length (concat ms)"
    and "ms \<noteq> [] \<longrightarrow> length data + length (concat (butlast ms)) + 4 \<le> n"
  shows "\<exists>lr' data' n'. michael_segs lr data (length data) n ms = Some (lr', data', n')
           \<and> n' < 4 \<and> n' \<le> length data'"
  using assms
proof (induction ms arbitrary: lr data n)
  case Nil
  obtain lr1 d1 s1 n1 where w:
    "michael_words lr data (min (length data) n) n = (lr1, d1, s1, n1)"
    by (metis prod_cases4)
  from michael_words_inv [OF w, of "[]"] Nil w show ?case by auto
next
  case (Cons m ms)
  obtain lr1 d1 s1 n1 where w:
    "michael_words lr data (min (length data) n) n = (lr1, d1, s1, n1)"
    by (metis prod_cases4)
  have le: "length data + length (concat (butlast (m # ms))) + 4 \<le> n"
    and mn: "length data \<le> n"
    using Cons.prems(3) by auto
  from michael_words_inv [OF w, of "[]"] mn
  have inv: "s1 < 4" "n1 - s1 = n - length data" "s1 \<le> n1" "length d1 = s1"
    by auto
  then have n4: "4 \<le> n1" using le by linarith
  have nle: "n1 \<le> length d1 + length (concat (m # ms))"
    using inv Cons.prems(2) by auto
  have rest: "ms \<noteq> [] \<longrightarrow> s1 + length m + length (concat (butlast ms)) + 4 \<le> n1"
    using le inv by auto
  show ?case
  proof (cases "s1 = 0")
    case True
    have "\<exists>lr' data' n'. michael_segs lr1 m (length m) n1 ms = Some (lr', data', n')
        \<and> n' < 4 \<and> n' \<le> length data'"
      by (rule Cons.IH) (use Cons.prems nle rest inv True in auto)
    with True w n4 show ?thesis by auto
  next
    case False
    have "4 \<le> length m" using Cons.prems(1) by simp
    then have "\<exists>lr' data' n'. michael_segs (michael_word lr1 (straddle s1 d1 m))
        (drop (4 - s1) m) (length (drop (4 - s1) m)) (n1 - 4) ms = Some (lr', data', n')
        \<and> n' < 4 \<and> n' \<le> length data'"
      by (intro Cons.IH) (use Cons.prems nle rest inv False n4 in auto)
    with False w n4 \<open>4 \<le> length m\<close> inv show ?thesis by auto
  qed
qed

lemma michael_mic_total:
  assumes "segs \<noteq> []" "off \<le> length (hd segs)" "\<forall>m \<in> set (tl segs). 4 \<le> length m"
    and "off + n \<le> pktlen segs"
    and "tl segs \<noteq> [] \<longrightarrow> pktlen (butlast segs) + 4 \<le> off + n"
  shows "\<exists>mic. michael_mic key segs off n = Some mic"
proof -
  obtain s ss where segs: "segs = s # ss" using assms(1) by (cases segs) auto
  have "n \<le> length (drop off s) + length (concat ss)"
    "ss \<noteq> [] \<longrightarrow> length (drop off s) + length (concat (butlast ss)) + 4 \<le> n"
    using assms(2,4,5) by (auto simp: pktlen_def segs)
  from michael_segs_total [OF _ this, of "michael_init key (michael_mic_hdr (hd segs))"] assms(3)
  obtain lr data left where
    "michael_segs (michael_init key (michael_mic_hdr s)) (drop off s)
        (length s - off) n ss = Some (lr, data, left)" "left \<le> length data"
    by (auto simp: segs)
  then show ?thesis
    using assms(1,2) by (auto simp: segs michael_mic_def michael_final_def Let_def split: prod.splits)
qed

end
