(* ===== verification/WepData.thy ===== *)
theory WepData
  imports Rc4 Net80211
begin

text \<open>
  The data part of a WEP encapsulated frame, as the WEP and the TKIP module of net80211 both
  code it (\<open>wep_encrypt\<close> and \<open>wep_decrypt\<close> of ieee80211_crypto_wep.c and
  ieee80211_crypto_tkip.c): data and ICV under an RC4 stream, over an mbuf chain whose first
  \<open>off\<close> octets are left alone. The lemmas give the flat meaning of both directions.
\<close>

section \<open>Both directions over a chain\<close>

text \<open>The bytes not found in the chain, the chain, and the encrypted ICV.\<close>

definition encrypt_data ::
  "rc4 \<Rightarrow> u8 list list \<Rightarrow> nat \<Rightarrow> nat \<Rightarrow> (nat \<times> u8 list list \<times> u8 list) option" where
  "encrypt_data st segs off data_len =
     (if segs = [] \<or> length (hd segs) < off then None
      else case encrypt_chain st (NOT 0) data_len (drop off (hd segs) # tl segs) of
             (st, crc, rest, ms) \<Rightarrow>
               Some (rest, (take off (hd segs) @ hd ms) # tl ms,
                     snd (rc4_xor st (bytes_le32 (NOT crc)))))"

text \<open>The bytes not found, the chain, and what the ICV check starts from.\<close>

definition decrypt_data ::
  "rc4 \<Rightarrow> u8 list list \<Rightarrow> nat \<Rightarrow> nat \<Rightarrow> (nat \<times> u8 list list \<times> rc4 \<times> u32 \<times> u8 list) option" where
  "decrypt_data st segs off data_len =
     (if segs = [] \<or> length (hd segs) < off then None
      else case decrypt_chain st (NOT 0) data_len [] (drop off (hd segs) # tl segs) of
             (st, crc, rest, pos, ms) \<Rightarrow>
               Some (rest, (take off (hd segs) @ hd ms) # tl ms, st, crc, pos))"

fun icv_check :: "rc4 \<Rightarrow> u8 list \<Rightarrow> u8 list \<Rightarrow> bool option" where
  "icv_check st [] pos = Some True"
| "icv_check st (c # icv) [] = None"
| "icv_check st (c # icv) (p # pos) =
     (let (st, k) = rc4_next st
      in if c XOR k \<noteq> p then Some False else icv_check st icv pos)"

section \<open>Flat meaning\<close>

definition wep_icv :: "u8 list \<Rightarrow> u8 list" where
  "wep_icv bs = bytes_le32 (NOT (foldl crc32_step (NOT 0) bs))"

text \<open>Data and ICV under the key stream, and the plain bytes of a received body.\<close>

definition wep_seal :: "rc4 \<Rightarrow> u8 list \<Rightarrow> u8 list" where
  "wep_seal st bs = snd (rc4_xor st (bs @ wep_icv bs))"

definition wep_open :: "rc4 \<Rightarrow> u8 list \<Rightarrow> u8 list" where
  "wep_open st cs = snd (rc4_xor st cs)"

definition wep_ok :: "u8 list \<Rightarrow> bool" where
  "wep_ok ps \<longleftrightarrow> drop (length ps - 4) ps = wep_icv (take (length ps - 4) ps)"

lemma length_wep_icv [simp]: "length (wep_icv bs) = 4"
  by (simp add: wep_icv_def)

lemma length_wep_seal [simp]: "length (wep_seal st0 bs) = length bs + 4"
  by (simp add: wep_seal_def)

lemma length_wep_open [simp]: "length (wep_open st0 bs) = length bs"
  by (simp add: wep_open_def)

lemma wep_open_seal [simp]: "wep_open st0 (wep_seal st0 bs) = bs @ wep_icv bs"
  by (simp add: wep_open_def wep_seal_def rc4_xor_invol)

lemma wep_ok_seal [simp]: "wep_ok (bs @ wep_icv bs)"
  by (simp add: wep_ok_def)

lemma encrypt_data_flat:
  assumes "segs \<noteq> []" "off \<le> length (hd segs)"
  shows "\<exists>segs' icv. encrypt_data st0 segs off (pktlen segs - off) = Some (0, segs', icv) \<and>
    take off (concat segs') = take off (concat segs) \<and>
    drop off (concat segs') @ icv = wep_seal st0 (drop off (concat segs)) \<and>
    map length segs' = map length segs \<and> length icv = 4 \<and>
    take off (hd segs') = take off (hd segs)"
proof -
  let ?ms = "drop off (hd segs) # tl segs"
  have cc: "concat segs = take off (hd segs) @ concat ?ms"
    using assms(1) by (simp add: concat_hd_tl flip: append_assoc)
  have n: "pktlen segs - off = length (concat ?ms)"
    using assms by (simp add: pktlen_def concat_hd_tl)
  obtain st crc rest ms where l:
    "encrypt_chain st0 (NOT 0) (pktlen segs - off) ?ms = (st, crc, rest, ms)"
    by (metis prod_cases4)
  have fl: "encrypt_bytes st0 (NOT 0) (concat ?ms) = (st, crc, take (pktlen segs - off) (concat ms))"
    "drop (pktlen segs - off) (concat ms) = []" "map length ms = map length ?ms"
    using enc.loop_flat [OF l] n by auto
  have r0: "rest = 0" using enc.loop_flat [OF l] n by simp
  have c: "concat ms = snd (rc4_xor st0 (concat ?ms))"
      "st = fst (rc4_xor st0 (concat ?ms))" "crc = foldl crc32_step (NOT 0) (concat ?ms)"
    using fl by (auto simp: encrypt_bytes_eq)
  have ne: "ms \<noteq> []" using fl(3) by auto
  have lh: "length (hd ms) = length (hd segs) - off" "map length (tl ms) = map length (tl segs)"
    using fl(3) ne by (cases ms; auto)+
  define icv where "icv = snd (rc4_xor st (bytes_le32 (NOT crc)))"
  have w: "encrypt_data st0 segs off (pktlen segs - off) =
      Some (0, (take off (hd segs) @ hd ms) # tl ms, icv)"
    using assms l r0 by (simp add: encrypt_data_def icv_def)
  have "concat ms @ icv = wep_seal st0 (concat ?ms)"
    by (simp add: wep_seal_def rc4_xor_append icv_def c wep_icv_def split_beta Let_def)
  moreover have "drop off (concat segs) = concat ?ms"
    using assms by (simp add: concat_hd_tl)
  moreover have "concat ((take off (hd segs) @ hd ms) # tl ms) = take off (hd segs) @ concat ms"
    using ne by (simp add: concat_hd_tl)
  moreover have "map length ((take off (hd segs) @ hd ms) # tl ms) = map length segs"
    using assms lh by (cases segs) auto
  ultimately show ?thesis
    using assms w by (auto simp: concat_hd_tl icv_def)
qed

lemma icv_check_eq:
  "length icv \<le> length pos \<Longrightarrow>
     icv_check st icv pos = Some (snd (rc4_xor st icv) = take (length icv) pos)"
proof (induction icv arbitrary: st pos)
  case (Cons c icv)
  then obtain p pos' where "pos = p # pos'" by (cases pos) auto
  with Cons show ?case by (auto simp: split_beta Let_def)
qed simp

lemma last_drop_hd:
  "segs \<noteq> [] \<Longrightarrow> length (last (drop off (hd segs) # tl segs)) \<le> length (last segs)"
  by (cases segs) auto

lemma decrypt_data_flat:
  assumes "segs \<noteq> []" "off \<le> length (hd segs)"
    and four: "4 \<le> length (last (drop off (hd segs) # tl segs))"
  shows "\<exists>segs' st crc pos. decrypt_data st0 segs off (pktlen segs - (off + 4)) =
      Some (0, segs', st, crc, pos) \<and>
    icv_check st (bytes_le32 (NOT crc)) pos = Some (wep_ok (wep_open st0 (drop off (concat segs)))) \<and>
    take off (hd segs') = take off (hd segs) \<and>
    take (length (concat segs) - 4) (concat segs') =
      take off (concat segs) @
      take (length (concat segs) - off - 4) (wep_open st0 (drop off (concat segs))) \<and>
    map length segs' = map length segs"
proof -
  let ?ms = "drop off (hd segs) # tl segs"
  let ?n = "pktlen segs - (off + 4)"
  define C where "C = concat ?ms"
  have C: "C = drop off (concat segs)" using assms by (simp add: C_def concat_hd_tl)
  have tail: "C = concat (butlast ?ms) @ last ?ms"
    unfolding C_def by (metis append_butlast_last_id concat_append concat.simps append_Nil2 list.distinct(1))
  have n4: "4 \<le> length C" using tail four by simp
  have n: "?n = length C - 4" "4 \<le> length C"
    using n4 by (simp_all add: C pktlen_def)
  obtain st crc rest ms where l: "decrypt_loop st0 (NOT 0) ?n ?ms = (st, crc, rest, ms)"
    by (metis prod_cases4)
  have fl: "decrypt_bytes st0 (NOT 0) (take ?n C) = (st, crc, take ?n (concat ms))"
    "map length ms = map length ?ms"
    using dec.loop_flat [OF l] by (auto simp: C_def)
  have r0: "rest = 0" using dec.loop_flat [OF l] n by (simp add: C_def)
  have st: "st = fst (rc4_xor st0 (take ?n C))"
    and cm: "take ?n (concat ms) = snd (rc4_xor st0 (take ?n C))"
    and crc: "crc = foldl crc32_step (NOT 0) (take ?n (concat ms))"
    using fl by (auto simp: decrypt_bytes_eq)
  define pos where "pos = drop (?n - length (concat (butlast ?ms))) (last ?ms)"
  have pos: "pos = drop ?n C"
    using tail n four by (auto simp: pos_def)
  have chain: "decrypt_chain st0 (NOT 0) ?n [] ?ms = (st, crc, rest, pos, ms)"
    using decrypt_loop_chain [OF l] by (simp add: pos_def)
  have op: "wep_open st0 C = take ?n (concat ms) @ snd (rc4_xor st pos)"
  proof -
    have "C = take ?n C @ pos" by (simp add: pos)
    then have "wep_open st0 C = snd (rc4_xor st0 (take ?n C @ pos))"
      by (simp add: wep_open_def)
    then show ?thesis by (simp add: rc4_xor_append split_beta Let_def st cm)
  qed
  have lP: "length (take ?n (concat ms)) = ?n"
    unfolding cm by (simp add: n)
  have lp: "length pos = 4" using n by (simp add: pos)
  have chk: "icv_check st (bytes_le32 (NOT crc)) pos = Some (wep_ok (wep_open st0 C))"
  proof -
    have "snd (rc4_xor st (bytes_le32 (NOT crc))) = pos \<longleftrightarrow>
        snd (rc4_xor st pos) = bytes_le32 (NOT crc)"
      by (metis rc4_xor_invol snd_conv)
    moreover note lP
    ultimately show ?thesis
      using lp by (simp add: icv_check_eq wep_ok_def op wep_icv_def crc)
  qed
  have ne: "ms \<noteq> []" using fl(2) by auto
  have lh: "length (hd ms) = length (hd segs) - off" "map length (tl ms) = map length (tl segs)"
    using fl(2) ne by (cases ms; auto)+
  have w: "decrypt_data st0 segs off ?n = Some (0, (take off (hd segs) @ hd ms) # tl ms, st, crc, pos)"
    using assms chain r0 by (simp add: decrypt_data_def)
  have cs: "concat ((take off (hd segs) @ hd ms) # tl ms) = take off (hd segs) @ concat ms"
    using ne by (simp add: concat_hd_tl)
  have ls: "length (concat segs) - 4 = off + ?n" "length (concat segs) - off - 4 = ?n"
    using n4 assms by (auto simp: pktlen_def C)
  have tk: "take ?n (wep_open st0 C) = take ?n (concat ms)"
    unfolding op using lP by (metis append_eq_conv_conj)
  have th: "take off (concat segs) = take off (hd segs)"
    using assms by (simp add: concat_hd_tl)
  show ?thesis
  proof (intro exI conjI)
    show "decrypt_data st0 segs off ?n = Some (0, (take off (hd segs) @ hd ms) # tl ms, st, crc, pos)"
      by (rule w)
    show "icv_check st (bytes_le32 (NOT crc)) pos =
        Some (wep_ok (wep_open st0 (drop off (concat segs))))"
      using chk by (simp add: C)
    show "take off (hd ((take off (hd segs) @ hd ms) # tl ms)) = take off (hd segs)"
      using assms by simp
    show "take (length (concat segs) - 4) (concat ((take off (hd segs) @ hd ms) # tl ms)) =
        take off (concat segs) @ take (length (concat segs) - off - 4)
          (wep_open st0 (drop off (concat segs)))"
      using assms by (simp only: cs ls th flip: C) (simp add: tk)
    show "map length ((take off (hd segs) @ hd ms) # tl ms) = map length segs"
      using assms lh by (cases segs) auto
  qed
qed

lemma decrypt_data_hd:
  assumes "decrypt_data st0 segs off n = Some (rest, segs', st, crc, pos)" "off \<le> length (hd segs)"
  shows "segs' \<noteq> []" "take off (hd segs') = take off (hd segs)"
    "length (hd segs') = length (hd segs)" "map length segs' = map length segs"
proof -
  obtain st' crc' rest' pos' ms where
    d: "decrypt_chain st0 (NOT 0) n [] (drop off (hd segs) # tl segs) = (st', crc', rest', pos', ms)"
    by (metis prod_cases5)
  then have l: "decrypt_loop st0 (NOT 0) n (drop off (hd segs) # tl segs) = (st', crc', rest', ms)"
    by (simp add: decrypt_loop_def)
  have ml: "map length ms = map length (drop off (hd segs) # tl segs)"
    using dec.loop_flat [OF l] by simp
  then obtain x xs where ms: "ms = x # xs" by (cases ms) auto
  have ne: "segs \<noteq> []" and s': "segs' = (take off (hd segs) @ hd ms) # tl ms"
    using assms d by (auto simp: decrypt_data_def split: if_splits)
  show "segs' \<noteq> []" "take off (hd segs') = take off (hd segs)"
    "length (hd segs') = length (hd segs)" "map length segs' = map length segs"
    using ml ms assms(2) ne by (auto simp: s') (cases segs; auto)
qed

end
