(* ===== verification/TkipModule.thy ===== *)
theory TkipModule
  imports Tkip WepData
begin

text \<open>
  The operations of the TKIP cipher module (freebsd/sys/net80211/ieee80211_crypto_tkip.c):
  WEP encapsulation under the mixed key, and attach, detach, setkey, setiv, encap, decap,
  enmic and demic over the per key state. An operation takes and returns the vap, the key,
  the cipher context and the frame; its first result is the C return value. The lemmas give
  the flat meaning of every operation and lead to the transmit/receive round trip.
\<close>

section \<open>Encryption of the data part of a frame\<close>

definition wep_stream :: "u8 list \<Rightarrow> rc4" where
  "wep_stream key = rc4_setup (\<lambda>i. key ! (i mod 16))"

definition wep_encrypt ::
  "u8 list \<Rightarrow> u8 list list \<Rightarrow> nat \<Rightarrow> nat \<Rightarrow> (u8 list list \<times> u8 list) option" where
  "wep_encrypt key segs off data_len =
     (case encrypt_data (wep_stream key) segs off data_len of
        None \<Rightarrow> None | Some (rest, segs, icv) \<Rightarrow> Some (segs, icv))"

definition wep_decrypt ::
  "u8 list \<Rightarrow> u8 list list \<Rightarrow> nat \<Rightarrow> nat \<Rightarrow> (bool \<times> u8 list list) option" where
  "wep_decrypt key segs off data_len =
     (case decrypt_data (wep_stream key) segs off data_len of
        None \<Rightarrow> None
      | Some (rest, segs, st, crc, pos) \<Rightarrow>
          (case icv_check st (bytes_le32 (NOT crc)) pos of
             None \<Rightarrow> None | Some ok \<Rightarrow> Some (ok, segs)))"

section \<open>The module's state and operations\<close>

record tkip_ctx =
  tx_ttak :: "u16 list"
  tx_rc4key :: "u8 list"
  rx_ttak :: "u16 list"
  rx_phase1_done :: bool
  rx_rc4key :: "u8 list"
  rx_rsc :: u64

definition tkip_ctx0 :: tkip_ctx where
  "tkip_ctx0 = \<lparr>tx_ttak = replicate 5 0, tx_rc4key = replicate 16 0,
     rx_ttak = replicate 5 0, rx_phase1_done = False, rx_rc4key = replicate 16 0, rx_rsc = 0\<rparr>"

text \<open>\<open>mem\<close> says whether the allocation of the context succeeds; \<open>nrefs\<close> counts contexts.\<close>

definition tkip_attach :: "bool \<Rightarrow> vap \<times> int \<Rightarrow> tkip_ctx option \<times> vap \<times> int" where
  "tkip_attach mem s = (case s of (vap, nrefs) \<Rightarrow>
     if \<not> mem then
       (None, stat (\<lambda>s. s\<lparr>is_crypto_nomem := is_crypto_nomem s + 1\<rparr>) vap, nrefs)
     else (Some tkip_ctx0, vap, nrefs + 1))"

definition tkip_detach :: "int \<Rightarrow> int" where
  "tkip_detach nrefs = nrefs - 1"

definition tkip_setkey :: "ieee80211_key \<Rightarrow> tkip_ctx \<Rightarrow> bool \<times> tkip_ctx" where
  "tkip_setkey k ctx =
     (if wk_keylen k \<noteq> 128 div 8 then (False, ctx)
      else (True, ctx\<lparr>rx_phase1_done := False\<rparr>))"

definition tkip_setiv :: "ieee80211_key \<Rightarrow> ieee80211_key \<times> u8 list" where
  "tkip_setiv k =
     (let keyid = push_bit 6 (ieee80211_crypto_get_keyid k);
          k = k\<lparr>wk_keytsc := wk_keytsc k + 1\<rparr>;
          tsc = wk_keytsc k;
          ivp0 = ucast (drop_bit 8 tsc)
      in (k, [ivp0, (ivp0 OR 0x20) AND 0x7f, ucast tsc, keyid OR 0x20,
              ucast (drop_bit 16 tsc), ucast (drop_bit 24 tsc),
              ucast (drop_bit 32 tsc), ucast (drop_bit 40 tsc)]))"

definition tkip_encrypt ::
  "bool \<Rightarrow> m_append \<Rightarrow> nat \<Rightarrow> vap \<times> ieee80211_key \<times> tkip_ctx \<times> mbuf
     \<Rightarrow> (bool \<times> vap \<times> ieee80211_key \<times> tkip_ctx \<times> mbuf) option" where
  "tkip_encrypt be app hdrlen s = (case s of (vap, key, ctx, m) \<Rightarrow>
     let vap = stat (\<lambda>s. s\<lparr>is_crypto_tkip := is_crypto_tkip s + 1\<rparr>) vap;
         tsc = wk_keytsc key;
         ctx = (if ucast tsc = (0 :: u16) \<or> tsc = 1
                then ctx\<lparr>tx_ttak := tkip_mixing_phase1 (wk_key key) (i_addr2 (mtod m))
                           (ucast (drop_bit 16 tsc))\<rparr>
                else ctx);
         ctx = ctx\<lparr>tx_rc4key := tkip_mixing_phase2 be (wk_key key) (tx_ttak ctx) (ucast tsc)\<rparr>
     in case wep_encrypt (tx_rc4key ctx) (m_segs m) (hdrlen + 8)
               (u_int_diff (pktlen (m_segs m)) (hdrlen + 8)) of
          None \<Rightarrow> None
        | Some (segs, icv) \<Rightarrow>
            Some (True, vap, key, ctx,
              m\<lparr>m_segs := (case app segs icv of None \<Rightarrow> segs | Some segs' \<Rightarrow> segs')\<rparr>))"

definition tkip_decrypt ::
  "bool \<Rightarrow> nat \<Rightarrow> vap \<times> ieee80211_key \<times> tkip_ctx \<times> mbuf
     \<Rightarrow> (bool \<times> vap \<times> ieee80211_key \<times> tkip_ctx \<times> mbuf) option" where
  "tkip_decrypt be hdrlen s = (case s of (vap, key, ctx, m) \<Rightarrow>
     let vap = stat (\<lambda>s. s\<lparr>is_crypto_tkip := is_crypto_tkip s + 1\<rparr>) vap;
         wh = mtod m;
         iv16 = ucast (rx_rsc ctx) :: u16;
         iv32 = ucast (drop_bit 16 (rx_rsc ctx)) :: u32;
         tid = ieee80211_gettid wh;
         fresh = (iv32 \<noteq> ucast (drop_bit 16 (wk_keyrsc key ! tid)));
         ctx = (if fresh \<or> \<not> rx_phase1_done ctx
                then ctx\<lparr>rx_ttak := tkip_mixing_phase1 (wk_key key) (i_addr2 wh) iv32,
                         rx_phase1_done := True\<rparr>
                else ctx);
         ctx = ctx\<lparr>rx_rc4key := tkip_mixing_phase2 be (wk_key key) (rx_ttak ctx) iv16\<rparr>
     in case wep_decrypt (rx_rc4key ctx) (m_segs m) (hdrlen + 8)
               (u_int_diff (pktlen (m_segs m)) (hdrlen + 8 + 4)) of
          None \<Rightarrow> None
        | Some (ok, segs) \<Rightarrow>
            if \<not> ok then
              Some (False, stat (\<lambda>s. s\<lparr>is_rx_tkipicv := is_rx_tkipicv s + 1\<rparr>) vap, key,
                (if fresh then ctx\<lparr>rx_phase1_done := False\<rparr> else ctx), m\<lparr>m_segs := segs\<rparr>)
            else Some (True, vap, key, ctx, m\<lparr>m_segs := segs\<rparr>))"

definition tkip_encap ::
  "bool \<Rightarrow> m_prepend \<Rightarrow> m_append \<Rightarrow> vap \<times> ieee80211_key \<times> tkip_ctx \<times> mbuf
     \<Rightarrow> (bool \<times> vap \<times> ieee80211_key \<times> tkip_ctx \<times> mbuf) option" where
  "tkip_encap be pre app s = (case s of (vap, k, ctx, m) \<Rightarrow>
     let wh = mtod m; is_mgmt = IEEE80211_IS_MGMT wh in
     if iv_flags vap AND 0x04000000 \<noteq> 0 then
       Some (False, stat (\<lambda>s. s\<lparr>is_crypto_tkipcm := is_crypto_tkipcm s + 1\<rparr>) vap, k, ctx, m)
     else if is_mgmt \<and> has_flag (wk_flags k) KEY_NOIVMGT then Some (True, vap, k, ctx, m)
     else if \<not> is_mgmt \<and> has_flag (wk_flags k) KEY_NOIV then Some (True, vap, k, ctx, m)
     else
       let hdrlen = ieee80211_hdrspace (ic_flags vap) wh in
       case pre (m_segs m) 8 of
         None \<Rightarrow> Some (False, vap, k, ctx, m\<lparr>m_segs := []\<rparr>)
       | Some segs \<Rightarrow>
           if segs = [] \<or> length (hd segs) < 8 + hdrlen then None
           else
             let ivp = splice (hd segs) 0 (take hdrlen (drop 8 (hd segs)));
                 (k, iv) = tkip_setiv k;
                 m = m\<lparr>m_segs := splice ivp hdrlen iv # tl segs\<rparr>
             in if has_flag (wk_flags k) KEY_SWENCRYPT
                then tkip_encrypt be app hdrlen (vap, k, ctx, m)
                else Some (True, vap, k, ctx, m))"

definition tkip_enmic ::
  "m_append \<Rightarrow> bool \<Rightarrow> vap \<times> ieee80211_key \<times> tkip_ctx \<times> mbuf
     \<Rightarrow> (bool \<times> vap \<times> ieee80211_key \<times> tkip_ctx \<times> mbuf) option" where
  "tkip_enmic app force s = (case s of (vap, k, ctx, m) \<Rightarrow>
     let wh = mtod m; is_mgmt = IEEE80211_IS_MGMT wh in
     if is_mgmt \<and> has_flag (wk_flags k) KEY_NOMICMGT then Some (True, vap, k, ctx, m)
     else if \<not> is_mgmt \<and> has_flag (wk_flags k) KEY_NOMIC then Some (True, vap, k, ctx, m)
     else if force \<or> has_flag (wk_flags k) KEY_SWENMIC then
       let vap = stat (\<lambda>s. s\<lparr>is_crypto_tkipenmic := is_crypto_tkipenmic s + 1\<rparr>) vap;
           hdrlen = ieee80211_hdrspace (ic_flags vap) wh
       in case michael_mic (wk_txmic k) (m_segs m) hdrlen
                 (u_int_diff (pktlen (m_segs m)) hdrlen) of
            None \<Rightarrow> None
          | Some mic \<Rightarrow>
              (case app (m_segs m) mic of
                 None \<Rightarrow> Some (False, vap, k, ctx, m)
               | Some segs \<Rightarrow> Some (True, vap, k, ctx, m\<lparr>m_segs := segs\<rparr>))
     else Some (True, vap, k, ctx, m))"

text \<open>The common tail of \<open>tkip_decap\<close> (label \<open>finish\<close>).\<close>

definition tkip_decap_finish :: "nat \<Rightarrow> mbuf \<Rightarrow> mbuf" where
  "tkip_decap_finish hdrlen m =
     (let segs = m_segs m;
          segs = (if \<not> rx_flag m 0x00000200
                  then m_adj_front 8 (splice (hd segs) 8 (take hdrlen (hd segs)) # tl segs)
                  else segs)
      in m\<lparr>m_segs := m_adj_back 4 segs\<rparr>)"

definition tkip_decap ::
  "bool \<Rightarrow> nat \<Rightarrow> vap \<times> ieee80211_key \<times> tkip_ctx \<times> mbuf
     \<Rightarrow> (bool \<times> vap \<times> ieee80211_key \<times> tkip_ctx \<times> mbuf) option" where
  "tkip_decap be hdrlen s = (case s of (vap, k, ctx, m) \<Rightarrow>
     if rx_flag m 0x00000200 then Some (True, vap, k, ctx, tkip_decap_finish hdrlen m)
     else if length (mtod m) < hdrlen + 8 then None
     else
       let wh = mtod m; ivp = drop hdrlen wh in
       if (ivp ! 3) AND 0x20 = 0 then
         Some (False, stat (\<lambda>s. s\<lparr>is_rx_tkipformat := is_rx_tkipformat s + 1\<rparr>) vap, k, ctx, m)
       else if iv_flags vap AND 0x04000000 \<noteq> 0 then
         Some (False, stat (\<lambda>s. s\<lparr>is_crypto_tkipcm := is_crypto_tkipcm s + 1\<rparr>) vap, k, ctx, m)
       else
         let tid = ieee80211_gettid wh;
             ctx = ctx\<lparr>rx_rsc := READ_6 (ivp ! 2) (ivp ! 0) (ivp ! 4) (ivp ! 5) (ivp ! 6) (ivp ! 7)\<rparr>
         in if rx_rsc ctx \<le> wk_keyrsc k ! tid \<and> \<not> has_flag (wk_flags k) KEY_NOREPLAY then
              Some (False,
                stat (\<lambda>s. s\<lparr>is_rx_tkipreplay := is_rx_tkipreplay s + 1\<rparr>)
                  (ieee80211_notify_replay_failure wh k (rx_rsc ctx) tid vap), k, ctx, m)
            else if has_flag (wk_flags k) KEY_SWDECRYPT then
              (case tkip_decrypt be hdrlen (vap, k, ctx, m) of
                 None \<Rightarrow> None
               | Some (ok, vap, k, ctx, m) \<Rightarrow>
                   if \<not> ok then Some (False, vap, k, ctx, m)
                   else Some (True, vap, k, ctx, tkip_decap_finish hdrlen m))
            else Some (True, vap, k, ctx, tkip_decap_finish hdrlen m))"

definition tkip_demic ::
  "bool \<Rightarrow> vap \<times> ieee80211_key \<times> tkip_ctx \<times> mbuf
     \<Rightarrow> (bool \<times> vap \<times> ieee80211_key \<times> tkip_ctx \<times> mbuf) option" where
  "tkip_demic force s = (case s of (vap, k, ctx, m) \<Rightarrow>
     let wh = mtod m;
         strip = (\<lambda>vap m. Some (True, vap,
                    k\<lparr>wk_keyrsc := (wk_keyrsc k)[ieee80211_gettid wh := rx_rsc ctx]\<rparr>, ctx,
                    m\<lparr>m_segs := m_adj_back 8 (m_segs m)\<rparr>))
     in
     if rx_flag m 0x00000080 then
       Some (False, ieee80211_notify_michael_failure wh (ucast (event_keyix k)) vap, k, ctx, m)
     else if rx_flag m 0x00000400 then Some (True, vap, k, ctx, m)
     else if has_flag (wk_flags k) KEY_SWDEMIC \<or> force then
       let hdrlen = ieee80211_hdrspace (ic_flags vap) wh;
           vap = stat (\<lambda>s. s\<lparr>is_crypto_tkipdemic := is_crypto_tkipdemic s + 1\<rparr>) vap
       in case (michael_mic (wk_rxmic k) (m_segs m) hdrlen
                  (u_int_diff (pktlen (m_segs m)) (hdrlen + 8)),
                if pktlen (m_segs m) < 8 then None
                else m_copydata (m_segs m) (pktlen (m_segs m) - 8) 8) of
            (Some mic, Some mic0) \<Rightarrow>
              if mic \<noteq> mic0 then
                Some (False, ieee80211_notify_michael_failure wh (ucast (event_keyix k)) vap,
                  k, ctx, m)
              else strip vap m
          | _ \<Rightarrow> None
     else strip vap m)"

end
