(* ===== verification/FrameHdr.thy ===== *)
theory FrameHdr
  imports Net80211
begin

text \<open>
  Facts on 802.11 headers that the ciphers share: what the accessors read depends on the
  header only, so a frame whose body was changed, or whose mbufs were cut elsewhere, has
  the same addresses, TID and header length.
\<close>

section \<open>What the operations read of the header\<close>

definition same_hdr :: "u8 list \<Rightarrow> u8 list \<Rightarrow> bool" where
  "same_hdr a b \<longleftrightarrow> ieee80211_hdrsize a \<le> length a \<and> ieee80211_hdrsize a \<le> length b \<and>
     take (ieee80211_hdrsize a) a = take (ieee80211_hdrsize a) b"

definition is_data :: "u8 list \<Rightarrow> bool" where
  "is_data wh \<longleftrightarrow> (wh ! 0) AND 0x0c = 0x08"

lemma same_hdr_nth: "same_hdr a b \<Longrightarrow> i < ieee80211_hdrsize a \<Longrightarrow> a ! i = b ! i"
  unfolding same_hdr_def by (metis nth_take)

lemma same_hdr_nth24: "same_hdr a b \<Longrightarrow> i < 24 \<Longrightarrow> a ! i = b ! i"
  by (rule same_hdr_nth) (auto simp: ieee80211_hdrsize_def)

lemma same_hdr_take_drop:
  assumes "same_hdr a b" "k + n \<le> ieee80211_hdrsize a"
  shows "take n (drop k a) = take n (drop k b)"
proof -
  have "take n (drop k x) = take n (drop k (take (ieee80211_hdrsize a) x))" for x :: "u8 list"
    using assms(2) by (simp add: drop_take)
  then show ?thesis using assms(1) unfolding same_hdr_def by metis
qed

lemma same_hdr_bits:
  assumes "same_hdr a b"
  shows "IEEE80211_IS_MGMT a = IEEE80211_IS_MGMT b" "IEEE80211_IS_DSTODS a = IEEE80211_IS_DSTODS b"
    "IEEE80211_QOS_HAS_SEQ a = IEEE80211_QOS_HAS_SEQ b" "is_data a = is_data b"
  using same_hdr_nth24 [OF assms, of 0] same_hdr_nth24 [OF assms, of 1]
  by (simp_all add: IEEE80211_IS_MGMT_def IEEE80211_IS_DSTODS_def IEEE80211_QOS_HAS_SEQ_def
      is_data_def)

lemma same_hdr_addr:
  assumes "same_hdr a b"
  shows "i_addr1 a = i_addr1 b" "i_addr2 a = i_addr2 b" "i_addr3 a = i_addr3 b"
    "IEEE80211_IS_DSTODS a \<Longrightarrow> i_addr4 a = i_addr4 b"
  unfolding i_addr1_def i_addr2_def i_addr3_def i_addr4_def
  by (rule same_hdr_take_drop [OF assms]; simp add: ieee80211_hdrsize_def)+

lemma same_hdr_hdrsize: "same_hdr a b \<Longrightarrow> ieee80211_hdrsize a = ieee80211_hdrsize b"
  by (simp add: ieee80211_hdrsize_def same_hdr_bits)

lemma same_hdr_hdrspace: "same_hdr a b \<Longrightarrow> ieee80211_hdrspace f a = ieee80211_hdrspace f b"
  by (simp add: ieee80211_hdrspace_def same_hdr_hdrsize)

lemma same_hdr_gettid: "same_hdr a b \<Longrightarrow> ieee80211_gettid a = ieee80211_gettid b"
  using same_hdr_nth [of a b 24] same_hdr_nth [of a b 30]
  by (auto simp: ieee80211_gettid_def same_hdr_bits ieee80211_hdrsize_def)

lemma data_qos: "is_data wh \<Longrightarrow> (wh ! 0) AND 0x80 \<noteq> 0 \<longleftrightarrow> IEEE80211_QOS_HAS_SEQ wh"
proof -
  assume d: "is_data wh"
  have "(wh ! 0) AND (0x0c OR 0x80) = ((wh ! 0) AND 0x0c) OR ((wh ! 0) AND 0x80)"
    by (rule bit.conj_disj_distrib)
  then have "(wh ! 0) AND (0x0c OR 0x80) = 0x08 OR ((wh ! 0) AND 0x80)"
    using d by (simp add: is_data_def)
  moreover have "(wh ! 0) AND 0x80 = 0 \<or> (wh ! 0) AND 0x80 = 0x80"
    by (simp add: and_0x80)
  ultimately show ?thesis by (auto simp: IEEE80211_QOS_HAS_SEQ_def)
qed

lemma same_hdr_append:
  assumes "ieee80211_hdrsize a \<le> h" "h \<le> length a"
  shows "same_hdr a (take h a @ xs)"
  using assms by (simp add: same_hdr_def min_def)

lemma length_last_concat: "xs \<noteq> [] \<Longrightarrow> length (last xs) \<le> length (concat xs)"
  by (cases xs rule: rev_cases) auto

lemma same_lengths:
  assumes "map length a = map length b" "b \<noteq> []"
  shows "a \<noteq> []" "length (hd a) = length (hd b)" "length (concat a) = length (concat b)"
proof -
  show ne: "a \<noteq> []" using assms by auto
  show "length (hd a) = length (hd b)" using assms ne by (cases a; cases b; simp)
  show "length (concat a) = length (concat b)" by (simp add: length_concat assms(1))
qed

lemma is_data_not_mgmt: "is_data wh \<Longrightarrow> \<not> IEEE80211_IS_MGMT wh"
  by (simp add: is_data_def IEEE80211_IS_MGMT_def)

lemma take_hd_concat: "segs \<noteq> [] \<Longrightarrow> n \<le> length (hd segs) \<Longrightarrow> take n (concat segs) = take n (hd segs)"
  by (simp add: concat_hd_tl)

lemma appends_hd:
  assumes "appends app" "app segs bs = Some segs'" "segs \<noteq> []"
  shows "concat segs' = concat segs @ bs" "segs' \<noteq> []" "take (length (hd segs)) (hd segs') = hd segs"
    "length (hd segs) \<le> length (hd segs')"
proof -
  obtain t where a: "concat segs' = concat segs @ bs" "segs' = butlast segs @ t" "t \<noteq> []"
    "length (last segs) \<le> length (hd t)" "take (length (last segs)) (hd t) = last segs"
    using assms unfolding appends_def by blast
  then show "concat segs' = concat segs @ bs" "segs' \<noteq> []" by auto
  show "take (length (hd segs)) (hd segs') = hd segs" "length (hd segs) \<le> length (hd segs')"
    using a assms(3) by (cases segs rule: rev_cases; auto simp: hd_append)+
qed

section \<open>An example for the witnesses\<close>

definition ex_vap :: vap where
  "ex_vap = \<lparr>ic_flags = 0, iv_flags = 0, iv_ifp = True, iv_stats = \<lparr>is_crypto_nomem = 0,
     is_crypto_wep = 0, is_crypto_tkip = 0, is_crypto_tkipenmic = 0, is_crypto_tkipdemic = 0,
     is_crypto_tkipcm = 0, is_crypto_ccmp = 0, is_rx_wepfail = 0, is_rx_tkipformat = 0,
     is_rx_tkipreplay = 0, is_rx_tkipicv = 0, is_rx_tkipmic = 0, is_rx_ccmpformat = 0,
     is_rx_ccmpreplay = 0, is_rx_ccmpmic = 0, is_rx_tooshort = 0, is_tx_nodefkey = 0,
     is_tx_badcipher = 0, is_rx_badkeyid = 0, is_crypto_badcipher = 0, is_crypto_nocipher = 0,
     is_crypto_attachfail = 0, is_crypto_keyfail = 0, is_crypto_delkey = 0,
     is_crypto_setkey_nokey = 0, is_crypto_setkey_cipher = 0\<rparr>,
     iv_events = []\<rparr>"

definition ex_key :: "u64 \<Rightarrow> ieee80211_key" where
  "ex_key tsc = \<lparr>wk_keylen = 16, wk_flags = 0xf0, wk_keyix = 0, wk_rxkeyix = 0xffff,
     wk_key = replicate 32 7, wk_keyrsc = replicate 17 5, wk_keytsc = tsc, wk_cipher = 1, wk_nwidx = Some 1\<rparr>"

text \<open>A QoS data frame in two mbufs.\<close>

definition ex_frame :: mbuf where
  "ex_frame = \<lparr>m_segs = [[0x88, 0x01, 0, 0, 2, 2, 2, 2, 2, 2, 4, 4, 4, 4, 4, 4,
     6, 6, 6, 6, 6, 6, 0, 0, 3, 0], [1, 2, 3, 4, 5]], m_rxs = None, m_flags = 0\<rparr>"

lemma ex_frame_hdr:
  "ieee80211_hdrsize (mtod ex_frame) = 26" "ieee80211_gettid (mtod ex_frame) = 3"
  by (simp_all add: ex_frame_def ieee80211_hdrsize_def ieee80211_gettid_def IEEE80211_IS_DSTODS_def
      IEEE80211_QOS_HAS_SEQ_def)

lemma ex_frame_hdrspace: "ieee80211_hdrspace (ic_flags ex_vap) (mtod ex_frame) = 26"
  by (simp add: ieee80211_hdrspace_def ex_frame_hdr ex_vap_def)

end
