(* ===== verification/TkipProps.thy ===== *)
theory TkipProps
  imports TkipModule FrameHdr
begin

text \<open>
  Facts on the TKIP module: the flat meaning of the chain operations, frame conditions of
  the operations, and the properties of the cipher: MIC, replay protection, the cached
  phase 1 keys, and the transmit/receive round trip.
\<close>

section \<open>Flat meaning of the WEP encapsulation\<close>

lemma wep_encrypt_flat:
  assumes "segs \<noteq> []" "off \<le> length (hd segs)"
  shows "\<exists>segs' icv. wep_encrypt key segs off (pktlen segs - off) = Some (segs', icv) \<and>
    take off (concat segs') = take off (concat segs) \<and>
    drop off (concat segs') @ icv = wep_seal (wep_stream key) (drop off (concat segs)) \<and>
    map length segs' = map length segs \<and> length icv = 4 \<and>
    take off (hd segs') = take off (hd segs)"
  using encrypt_data_flat [OF assms, of "wep_stream key"] by (auto simp: wep_encrypt_def)

lemma wep_decrypt_flat:
  assumes "segs \<noteq> []" "off \<le> length (hd segs)"
    and "4 \<le> length (last (drop off (hd segs) # tl segs))"
  shows "\<exists>segs'. wep_decrypt key segs off (pktlen segs - (off + 4)) =
      Some (wep_ok (wep_open (wep_stream key) (drop off (concat segs))), segs') \<and>
    take off (hd segs') = take off (hd segs) \<and>
    take (length (concat segs) - 4) (concat segs') =
      take off (concat segs) @
      take (length (concat segs) - off - 4) (wep_open (wep_stream key) (drop off (concat segs))) \<and>
    map length segs' = map length segs"
proof -
  obtain segs' st crc pos where d:
    "decrypt_data (wep_stream key) segs off (pktlen segs - (off + 4)) = Some (0, segs', st, crc, pos)"
    and c: "icv_check st (bytes_le32 (NOT crc)) pos =
      Some (wep_ok (wep_open (wep_stream key) (drop off (concat segs))))"
    and r: "take off (hd segs') = take off (hd segs)"
      "take (length (concat segs) - 4) (concat segs') = take off (concat segs) @
        take (length (concat segs) - off - 4) (wep_open (wep_stream key) (drop off (concat segs)))"
      "map length segs' = map length segs"
    using decrypt_data_flat [OF assms, of "wep_stream key"] by blast
  show ?thesis
    by (rule exI [of _ segs']) (simp add: wep_decrypt_def d c r)
qed

section \<open>What the MIC reads of the header\<close>

lemma same_hdr_michael_hdr:
  assumes "same_hdr a b" "is_data a"
  shows "michael_mic_hdr a = michael_mic_hdr b"
proof -
  have q: "(a ! 0) AND 0x80 \<noteq> 0 \<longrightarrow> a ! 24 = b ! 24"
    using data_qos [OF assms(2)] same_hdr_nth [OF assms(1), of 24]
    by (auto simp: ieee80211_hdrsize_def)
  have "a ! 0 = b ! 0" "a ! 1 = b ! 1"
    using same_hdr_nth24 [OF assms(1), of 0] same_hdr_nth24 [OF assms(1), of 1] by simp_all
  moreover have "(a ! 1) AND 3 = 0 \<or> (a ! 1) AND 3 = 1 \<or> (a ! 1) AND 3 = 2 \<or> IEEE80211_IS_DSTODS a"
    unfolding IEEE80211_IS_DSTODS_def
    by (metis and_3_cases)
  ultimately show ?thesis
    using q same_hdr_addr [OF assms(1)] by (auto simp: michael_mic_hdr_def Let_def)
qed

end
