(* ===== verification/TkipRoundtrip.thy ===== *)
theory TkipRoundtrip
  imports TkipProps
begin

text \<open>
  The transmit/receive round trip of the TKIP module: the flat effect of each operation on
  a frame (\<open>tkip_enmic_flat\<close>, \<open>tkip_encap_flat\<close>, \<open>tkip_decap_flat\<close>, \<open>tkip_demic_flat\<close>),
  the independence of the key mixing from the host's byte order, and their composition.
\<close>

section \<open>Lengths and flags\<close>

lemma length_michael_mic: "michael_mic key segs off n = Some mic \<Longrightarrow> length mic = 8"
  by (auto simp: michael_mic_def split: if_splits option.splits prod.splits)

section \<open>The flat effect of the operations\<close>

text \<open>A frame that no flag of the key exempts from the MIC or the IV.\<close>

definition plain_key :: "ieee80211_key \<Rightarrow> bool" where
  "plain_key k \<longleftrightarrow> \<not> has_flag (wk_flags k) KEY_NOIV \<and> \<not> has_flag (wk_flags k) KEY_NOMIC"

lemma tkip_enmic_flat:
  assumes mic: "tkip_enmic app force (vap, k, ctx, m) = Some (True, vap', k', ctx', m')"
    and app: "appends app" and ne: "m_segs m \<noteq> []"
    and data: "is_data (mtod m)" "plain_key k" "has_flag (wk_flags k) KEY_SWENMIC"
    and len: "ieee80211_hdrspace (ic_flags vap) (mtod m) \<le> length (mtod m)" "pktlen (m_segs m) < 2 ^ 32"
  defines "h \<equiv> ieee80211_hdrspace (ic_flags vap) (mtod m)"
  shows "concat (m_segs m') = concat (m_segs m) @
      michael_flat (wk_txmic k) (mtod m) (drop h (concat (m_segs m)))"
    "k' = k" "ctx' = ctx" "iv_flags vap' = iv_flags vap" "ic_flags vap' = ic_flags vap"
    "m_segs m' \<noteq> []" "take (length (mtod m)) (mtod m') = mtod m"
    "length (mtod m) \<le> length (mtod m')"
proof -
  let ?n = "u_int_diff (pktlen (m_segs m)) h"
  have n: "?n = length (concat (m_segs m)) - h" "h + ?n \<le> pktlen (m_segs m)"
    using len ne by (auto simp: u_int_diff_eq h_def pktlen_def concat_hd_tl)
  obtain bs segs where m: "michael_mic (wk_txmic k) (m_segs m) h ?n = Some bs"
    and a: "app (m_segs m) bs = Some segs"
    and r: "m' = m\<lparr>m_segs := segs\<rparr>" "k' = k" "ctx' = ctx"
      "iv_flags vap' = iv_flags vap" "ic_flags vap' = ic_flags vap"
    using mic data is_data_not_mgmt [OF data(1)]
    by (auto simp: tkip_enmic_def plain_key_def h_def stat_def Let_def split: option.splits)
  have "bs = michael_flat (wk_txmic k) (mtod m) (drop h (concat (m_segs m)))"
    using michael_mic_flat [OF m n(2)] n(1) by simp
  with r appends_hd [OF app a ne]
  show "concat (m_segs m') = concat (m_segs m) @
      michael_flat (wk_txmic k) (mtod m) (drop h (concat (m_segs m)))"
    "k' = k" "ctx' = ctx" "iv_flags vap' = iv_flags vap" "ic_flags vap' = ic_flags vap"
    "m_segs m' \<noteq> []" "take (length (mtod m)) (mtod m') = mtod m"
    "length (mtod m) \<le> length (mtod m')"
    by auto
qed


lemma length_tkip_setiv: "length (snd (tkip_setiv k)) = 8"
  by (simp add: tkip_setiv_def Let_def)

lemma fst_tkip_setiv: "fst (tkip_setiv k) = k\<lparr>wk_keytsc := wk_keytsc k + 1\<rparr>"
  by (simp add: tkip_setiv_def Let_def)

text \<open>The phase 1 key that \<open>tkip_encrypt\<close> uses, when its cache is valid.\<close>

definition tx_cache_ok :: "ieee80211_key \<Rightarrow> tkip_ctx \<Rightarrow> u8 list \<Rightarrow> u64 \<Rightarrow> bool" where
  "tx_cache_ok k ctx ta tsc \<longleftrightarrow> (ucast tsc = (0 :: u16) \<or> tsc = 1 \<or>
     tx_ttak ctx = tkip_mixing_phase1 (wk_key k) ta (ucast (drop_bit 16 tsc)))"

lemma tkip_encrypt_step:
  assumes cache: "tx_cache_ok k ctx (i_addr2 (mtod m)) (wk_keytsc k)"
    and K: "K = tkip_mixing_phase2 be (wk_key k) (tkip_mixing_phase1 (wk_key k)
      (i_addr2 (mtod m)) (ucast (drop_bit 16 (wk_keytsc k)))) (ucast (wk_keytsc k))"
    and w: "wep_encrypt K (m_segs m) (h + 8) (u_int_diff (pktlen (m_segs m)) (h + 8)) = Some (segs, icv)"
    and a: "app segs icv = Some segs'"
  shows "\<exists>vap' ctx'. tkip_encrypt be app h (vap, k, ctx, m) =
    Some (True, vap', k, ctx', m\<lparr>m_segs := segs'\<rparr>)"
proof (cases "ucast (wk_keytsc k) = (0 :: u16) \<or> wk_keytsc k = 1")
  case True
  with w a show ?thesis by (simp add: tkip_encrypt_def Let_def flip: K)
next
  case False
  with cache have "tx_ttak ctx = tkip_mixing_phase1 (wk_key k) (i_addr2 (mtod m))
      (ucast (drop_bit 16 (wk_keytsc k)))"
    by (simp add: tx_cache_ok_def)
  with False w a show ?thesis by (simp add: tkip_encrypt_def Let_def flip: K)
qed

lemma tkip_encap_flat:
  assumes enc: "tkip_encap be pre app (vap, k, ctx, m) = Some (True, vap', k', ctx', m')"
    and pre: "prepends pre" and app: "appends app" and total: "\<forall>segs bs. app segs bs \<noteq> None"
    and ne: "m_segs m \<noteq> []"
    and data: "is_data (mtod m)" "plain_key k" "has_flag (wk_flags k) KEY_SWENCRYPT"
    and len: "ieee80211_hdrspace (ic_flags vap) (mtod m) \<le> length (mtod m)"
      "pktlen (m_segs m) + 8 < 2 ^ 32"
  defines "h \<equiv> ieee80211_hdrspace (ic_flags vap) (mtod m)" and "tsc \<equiv> wk_keytsc k + 1"
  assumes cache: "tx_cache_ok k ctx (i_addr2 (mtod m)) tsc"
  shows "concat (m_segs m') = take h (mtod m) @ snd (tkip_setiv k) @
      wep_seal (wep_stream (tkip_mixing_phase2 be (wk_key k)
        (tkip_mixing_phase1 (wk_key k) (i_addr2 (mtod m)) (ucast (drop_bit 16 tsc))) (ucast tsc)))
        (drop h (concat (m_segs m)))"
    "k' = k\<lparr>wk_keytsc := tsc\<rparr>"
proof -
  obtain segs0 where p: "pre (m_segs m) 8 = Some segs0"
    and rest: "segs0 \<noteq> []" "8 + h \<le> length (hd segs0)"
    using enc data is_data_not_mgmt [OF data(1)]
    by (auto simp: tkip_encap_def plain_key_def h_def Let_def split: option.splits if_splits)
  obtain junk where j: "length junk = 8" "segs0 = (junk @ mtod m) # tl (m_segs m)"
    using pre p ne unfolding prepends_def by blast
  define ivp where "ivp = take h (mtod m) @ snd (tkip_setiv k) @ drop h (mtod m)"
  have hl: "h \<le> length (mtod m)" using len by (simp add: h_def)
  have h24: "24 \<le> h" by (simp add: h_def hdrspace_bounds)
  have ivp_eq: "splice (splice (hd segs0) 0 (take h (drop 8 (hd segs0)))) h (snd (tkip_setiv k)) = ivp"
    using insert_bytes [of junk "snd (tkip_setiv k)"] hl j by (simp add: ivp_def length_tkip_setiv)
  define segs where "segs = ivp # tl (m_segs m)"
  have ta: "i_addr2 ivp = i_addr2 (mtod m)"
  proof -
    have "take 16 ivp = take 16 (mtod m)" using h24 hl by (simp add: ivp_def min_def)
    then have "drop 10 (take 16 ivp) = drop 10 (take 16 (mtod m))" by simp
    then show ?thesis by (simp add: i_addr2_def take_drop)
  qed
  define K where "K = tkip_mixing_phase2 be (wk_key k)
    (tkip_mixing_phase1 (wk_key k) (i_addr2 (mtod m)) (ucast (drop_bit 16 tsc))) (ucast tsc)"
  have cs: "concat segs = take h (mtod m) @ snd (tkip_setiv k) @ drop h (concat (m_segs m))"
    using hl ne by (simp add: segs_def ivp_def concat_hd_tl)
  have n: "u_int_diff (pktlen segs) (h + 8) = pktlen segs - (h + 8)"
  proof (rule u_int_diff_eq)
    have "h \<le> length (concat (m_segs m))" using ne hl by (simp add: concat_hd_tl)
    then show "h + 8 \<le> pktlen segs" "pktlen segs < 2 ^ 32"
      using len hl by (auto simp: pktlen_def cs length_tkip_setiv)
  qed
  obtain segs' icv where w: "wep_encrypt K segs (h + 8) (pktlen segs - (h + 8)) = Some (segs', icv)"
    and f: "take (h + 8) (concat segs') = take (h + 8) (concat segs)"
      "drop (h + 8) (concat segs') @ icv = wep_seal (wep_stream K) (drop (h + 8) (concat segs))" "segs' \<noteq> []"
    using wep_encrypt_flat [of segs "h + 8" K] hl
    by (auto simp: segs_def ivp_def length_tkip_setiv)
  obtain segs'' where a: "app segs' icv = Some segs''" using total by fastforce
  have c2: "concat segs'' = concat segs' @ icv" using app a f(3) unfolding appends_def by blast
  obtain k2 iv where si: "tkip_setiv k = (k2, iv)" by (cases "tkip_setiv k")
  have k2: "k2 = k\<lparr>wk_keytsc := tsc\<rparr>" using fst_tkip_setiv [of k] by (simp add: si tsc_def)
  have e: "tkip_encrypt be app h (vap, k2, ctx, m\<lparr>m_segs := segs\<rparr>) = Some (True, vap', k', ctx', m')"
    using enc data is_data_not_mgmt [OF data(1)] p rest ivp_eq
    by (simp add: tkip_encap_def plain_key_def h_def Let_def si segs_def j k2 split: if_splits)
  have "\<exists>vap' ctx'. tkip_encrypt be app h (vap, k2, ctx, m\<lparr>m_segs := segs\<rparr>) =
      Some (True, vap', k2, ctx', m\<lparr>m_segs := segs, m_segs := segs''\<rparr>)"
    by (rule tkip_encrypt_step [where app = app and segs = segs' and icv = icv and K = K])
      (use cache w n in \<open>simp_all add: a k2 segs_def ta K_def tx_cache_ok_def\<close>)
  with e have r: "m_segs m' = segs''" "k' = k2" by auto
  have "concat (m_segs m') = take (h + 8) (concat segs) @ wep_seal (wep_stream K) (drop (h + 8) (concat segs))"
    unfolding r c2 using f by (metis append.assoc append_take_drop_id)
  then show "concat (m_segs m') = take h (mtod m) @ snd (tkip_setiv k) @
      wep_seal (wep_stream K) (drop h (concat (m_segs m)))"
    using hl by (simp add: cs length_tkip_setiv)
  show "k' = k\<lparr>wk_keytsc := tsc\<rparr>" by (simp add: r k2)
qed


text \<open>The receiver's phase 1 key is computed for this frame, or the cached one is its own.\<close>

definition rx_cache_ok :: "ieee80211_key \<Rightarrow> tkip_ctx \<Rightarrow> u8 list \<Rightarrow> nat \<Rightarrow> u64 \<Rightarrow> bool" where
  "rx_cache_ok k ctx ta tid tsc \<longleftrightarrow>
     (ucast (drop_bit 16 tsc) :: u32) \<noteq> ucast (drop_bit 16 (wk_keyrsc k ! tid)) \<or>
     \<not> rx_phase1_done ctx \<or>
     rx_ttak ctx = tkip_mixing_phase1 (wk_key k) ta (ucast (drop_bit 16 tsc))"

lemma tkip_setiv_bytes:
  assumes "wk_keytsc k + 1 = tsc" "tsc < 2 ^ 48"
  defines "iv \<equiv> snd (tkip_setiv k)"
  shows "READ_6 (iv ! 2) (iv ! 0) (iv ! 4) (iv ! 5) (iv ! 6) (iv ! 7) = tsc"
    "(iv ! 3) AND 0x20 \<noteq> 0"
proof -
  show "READ_6 (iv ! 2) (iv ! 0) (iv ! 4) (iv ! 5) (iv ! 6) (iv ! 7) = tsc"
    using READ_6_bytes [OF assms(2)] assms(1) by (simp add: iv_def tkip_setiv_def Let_def)
  have "bit ((iv ! 3) AND 0x20) 5" by (simp add: iv_def tkip_setiv_def Let_def bit_simps)
  then show "(iv ! 3) AND 0x20 \<noteq> 0" by auto
qed

lemma tkip_decap_flat:
  assumes m: "m_segs m = [hdr @ iv @ wep_seal (wep_stream K) body]" and lens: "length hdr = h" "length iv = 8"
    and wf: "ieee80211_hdrsize hdr \<le> h" "24 \<le> h"
    and iv: "READ_6 (iv ! 2) (iv ! 0) (iv ! 4) (iv ! 5) (iv ! 6) (iv ! 7) = tsc"
      "(iv ! 3) AND 0x20 \<noteq> 0"
    and K: "K = tkip_mixing_phase2 be (wk_key k)
      (tkip_mixing_phase1 (wk_key k) (i_addr2 hdr) (ucast (drop_bit 16 tsc))) (ucast tsc)"
    and fresh: "wk_keyrsc k ! ieee80211_gettid hdr < tsc"
    and cache: "rx_cache_ok k ctx (i_addr2 hdr) (ieee80211_gettid hdr) tsc"
    and flags: "\<not> rx_flag m 0x200" "iv_flags vap AND 0x04000000 = 0"
      "has_flag (wk_flags k) KEY_SWDECRYPT"
    and size: "h + 12 + length body < 2 ^ 32"
  shows "\<exists>vap' ctx'. tkip_decap be h (vap, k, ctx, m) =
      Some (True, vap', k, ctx', m\<lparr>m_segs := [hdr @ body]\<rparr>) \<and> rx_rsc ctx' = tsc \<and>
      ic_flags vap' = ic_flags vap"
proof -
  let ?wh = "hdr @ iv @ wep_seal (wep_stream K) body"
  have sh: "same_hdr hdr ?wh" using wf lens by (simp add: same_hdr_def)
  have tid: "ieee80211_gettid ?wh = ieee80211_gettid hdr"
    and ta: "i_addr2 ?wh = i_addr2 hdr"
    using same_hdr_gettid [OF sh] same_hdr_addr [OF sh] by simp_all
  have n: "u_int_diff (pktlen (m_segs m)) (h + 8 + 4) = pktlen (m_segs m) - (h + 8 + 4)"
    using size lens by (intro u_int_diff_eq) (auto simp: m pktlen_def)
  obtain segs where d: "wep_decrypt K (m_segs m) (h + 8) (pktlen (m_segs m) - (h + 8 + 4)) =
      Some (wep_ok (body @ wep_icv body), segs)"
    "take (h + 8) (hd segs) = take (h + 8) ?wh"
    "take (length ?wh - 4) (concat segs) = take (h + 8) ?wh @ take (length ?wh - (h + 8) - 4)
       (wep_open (wep_stream K) (wep_seal (wep_stream K) body))"
    "map length segs = [length ?wh]"
    using wep_decrypt_flat [of "m_segs m" "h + 8" K] lens by (auto simp: m)
  obtain s where s: "segs = [s]" "length s = length ?wh" using d(4) by auto
  have s_eq: "take (length ?wh - 4) s = hdr @ iv @ body"
    using d(3) lens by (simp add: s)
  have s_hd: "take h s = hdr" 
  proof -
    have "take h (take (length ?wh - 4) s) = take h (hdr @ iv @ body)" by (simp only: s_eq)
    then show ?thesis using lens by (simp add: min_def split: if_splits)
  qed
  have fin: "tkip_decap_finish h (m\<lparr>m_segs := segs\<rparr>) = m\<lparr>m_segs := [hdr @ body]\<rparr>"
  proof -
    have "drop (h + 8) (take (length ?wh - 4) s) = body" using s_eq lens by simp
    then have "take (length body) (drop (h + 8) s) = body"
      using lens by (simp add: drop_take)
    moreover have "splice s 8 hdr = take 8 s @ hdr @ drop (h + 8) s"
      using lens by (simp add: splice_def add.commute)
    ultimately show ?thesis
      using flags s s_hd lens wf
      by (simp add: tkip_decap_finish_def rx_flag_def m_adj_back_def pktlen_def Let_def)
  qed
  define ctx1 where "ctx1 = ctx\<lparr>rx_rsc := tsc\<rparr>"
  have dec: "\<exists>vap' ctx'. tkip_decrypt be h (vap, k, ctx1, m) =
      Some (True, vap', k, ctx', m\<lparr>m_segs := segs\<rparr>) \<and> rx_rsc ctx' = tsc \<and>
      ic_flags vap' = ic_flags vap"
    using d(1) n K cache tid ta
    by (auto simp: tkip_decrypt_def Let_def m ctx1_def rx_cache_ok_def stat_def)
  have ivs: "?wh ! (h + i) = iv ! i" if "i < 8" for i
    using lens that by (simp add: nth_append)
  obtain vap' ctx' where x: "tkip_decrypt be h (vap, k, ctx1, m) =
      Some (True, vap', k, ctx', m\<lparr>m_segs := segs\<rparr>)" "rx_rsc ctx' = tsc" "ic_flags vap' = ic_flags vap"
    using dec by blast
  have "tkip_decap be h (vap, k, ctx, m) =
      Some (True, vap', k, ctx', tkip_decap_finish h (m\<lparr>m_segs := segs\<rparr>))"
    using flags lens iv fresh tid x(1) ivs
    by (auto simp: tkip_decap_def Let_def m ctx1_def nth_append linorder_not_le)
  then show ?thesis using x fin by auto
qed


lemma tkip_demic_accept:
  assumes "\<not> rx_flag m 0x80" "\<not> rx_flag m 0x400" "has_flag (wk_flags k) KEY_SWDEMIC"
    and "h = ieee80211_hdrspace (ic_flags vap) (mtod m)" "8 \<le> pktlen (m_segs m)"
    and "michael_mic (wk_rxmic k) (m_segs m) h (u_int_diff (pktlen (m_segs m)) (h + 8)) = Some bs"
    and "m_copydata (m_segs m) (pktlen (m_segs m) - 8) 8 = Some bs"
  shows "\<exists>vap'. tkip_demic force (vap, k, ctx, m) = Some (True, vap',
    k\<lparr>wk_keyrsc := (wk_keyrsc k)[ieee80211_gettid (mtod m) := rx_rsc ctx]\<rparr>, ctx,
    m\<lparr>m_segs := m_adj_back 8 (m_segs m)\<rparr>)"
  using assms by (simp add: tkip_demic_def Let_def stat_def)

lemma tkip_demic_flat:
  assumes m: "m_segs m = [body @ mic]" "length mic = 8"
    and h: "h = ieee80211_hdrspace (ic_flags vap) (body @ mic)" "h \<le> length body"
    and mic: "mic = michael_flat (wk_rxmic k) (body @ mic) (drop h body)"
    and flags: "\<not> rx_flag m 0x80" "\<not> rx_flag m 0x400" "has_flag (wk_flags k) KEY_SWDEMIC"
    and size: "length body + 8 < 2 ^ 32"
  shows "\<exists>vap'. tkip_demic force (vap, k, ctx, m) = Some (True, vap',
    k\<lparr>wk_keyrsc := (wk_keyrsc k)[ieee80211_gettid (body @ mic) := rx_rsc ctx]\<rparr>, ctx,
    m\<lparr>m_segs := [body]\<rparr>)"
proof -
  have n: "u_int_diff (pktlen (m_segs m)) (h + 8) = length body - h"
    using size h m by (subst u_int_diff_eq) (auto simp: pktlen_def)
  obtain bs where bs: "michael_mic (wk_rxmic k) (m_segs m) h (length body - h) = Some bs"
    using michael_mic_total [of "m_segs m" h "length body - h" "wk_rxmic k"] h m
    by (auto simp: pktlen_def)
  have "bs = michael_flat (wk_rxmic k) (body @ mic) (take (length body - h) (drop h (body @ mic)))"
    using michael_mic_flat [OF bs] h m by (simp add: pktlen_def)
  then have "bs = mic" using mic h m by simp
  moreover have "m_adj_back 8 (m_segs m) = [body]" using m by (simp add: m_adj_back_def pktlen_def)
  moreover have "m_copydata (m_segs m) (pktlen (m_segs m) - 8) 8 = Some mic"
    using m by (simp add: m_copydata_def pktlen_def)
  moreover have "8 \<le> pktlen (m_segs m)" using m by (simp add: pktlen_def)
  ultimately show ?thesis
    using tkip_demic_accept [OF flags, of h vap bs] bs n h m by simp
qed

section \<open>Mixing reads the first sixteen key octets\<close>

lemma take_eq_nth: "take n a = take n b \<Longrightarrow> i < n \<Longrightarrow> a ! i = b ! i"
  by (metis nth_take)

lemma phase1_round_cong: "take 16 a = take 16 b \<Longrightarrow> phase1_round a i = phase1_round b i"
proof -
  assume t: "take 16 a = take 16 b"
  have n: "a ! (c + 2 * (i mod 2)) = b ! (c + 2 * (i mod 2))" if "c \<le> 13" for c
    by (rule take_eq_nth [OF t]) (use that in linarith)
  show ?thesis
    by (rule ext) (simp only: phase1_round_def Let_def n [OF zero_le] n [of 1] n [of 4] n [of 5] n [of 8] n [of 9] n [of 12] n [of 13])
qed

lemma tkip_mixing_phase1_cong:
  "take 16 a = take 16 b \<Longrightarrow> tkip_mixing_phase1 a ta iv = tkip_mixing_phase1 b ta iv"
  by (simp add: tkip_mixing_phase1_def phase1_round_cong [of a b] cong: fold_cong)

lemma Mk16_le_eq: "Mk16_le be TK k = le16 (TK ! k) (TK ! (k + 1))"
  by (simp add: Mk16_le_def le16toh_def load16_def byte_simps)

lemma store16_bswap: "concat (map (store16 True) (map bswap16 P)) = concat (map (store16 False) P)"
  by (induction P) (simp_all add: store16_def byte_simps)

lemma Mk16_le_host: "Mk16_le be TK = Mk16_le False TK"
  by (rule ext) (simp add: Mk16_le_eq)

lemma tkip_mixing_phase2_eq:
  "tkip_mixing_phase2 be a T iv = tkip_mixing_phase2 False a T iv"
  using store16_bswap by (cases be) (simp_all add: tkip_mixing_phase2_def Let_def Mk16_le_host [of True])

lemma phase2_ppk_cong:
  assumes "\<And>k. k < 15 \<Longrightarrow> ld k = ld' k"
  shows "phase2_ppk ld T iv = phase2_ppk ld' T iv"
proof -
  have "ld 0 = ld' 0" "ld 2 = ld' 2" "ld 4 = ld' 4" "ld 6 = ld' 6" "ld 8 = ld' 8"
    "ld 10 = ld' 10" "ld 12 = ld' 12" "ld 14 = ld' 14"
    using assms by simp_all
  then show ?thesis by (simp only: phase2_ppk_def)
qed

lemma tkip_mixing_phase2_cong:
  assumes "take 16 a = take 16 b"
  shows "tkip_mixing_phase2 be a T iv = tkip_mixing_phase2 be' b T iv"
proof -
  have ld: "Mk16_le False a k = Mk16_le False b k" if "k < 15" for k
    using that assms by (simp add: Mk16_le_eq take_eq_nth [of 16 a b])
  have "phase2_ppk (Mk16_le False a) T iv = phase2_ppk (Mk16_le False b) T iv"
    by (rule phase2_ppk_cong) (rule ld)
  with ld [of 0] have "tkip_mixing_phase2 False a T iv = tkip_mixing_phase2 False b T iv"
    by (simp only: tkip_mixing_phase2_def)
  then show ?thesis by (metis tkip_mixing_phase2_eq)
qed

lemma michael_flat_cong:
  assumes "take 8 a = take 8 b" "same_hdr h h'" "is_data h"
  shows "michael_flat a h bs = michael_flat b h' bs"
  using same_hdr_michael_hdr [OF assms(2,3)] take_eq_nth [OF assms(1)]
  by (simp add: michael_flat_def michael_init_def get_le32_def)


section \<open>The round trip\<close>

lemma tkip_roundtrip_flat:
  fixes fr :: "u8 list"
  assumes snd: "tkip_enmic app force (vs, ks, cs, m) = Some (True, vs1, ks1, cs1, m1)"
      "tkip_encap be pre app (vs1, ks1, cs1, m1) = Some (True, vs2, ks2, cs2, m2)"
    and env: "prepends pre" "appends app" "\<forall>segs bs. app segs bs \<noteq> None"
    and frame: "m_segs m \<noteq> []" "is_data (mtod m)" "h \<le> length (mtod m)"
      "pktlen (m_segs m) + 28 < 2 ^ 32"
    and h: "h = ieee80211_hdrspace (ic_flags vs) (mtod m)" "ic_flags vr = ic_flags vs"
    and sk: "plain_key ks" "has_flag (wk_flags ks) KEY_SWENMIC" "has_flag (wk_flags ks) KEY_SWENCRYPT"
      "tx_cache_ok ks cs (i_addr2 (mtod m)) tsc" "wk_keytsc ks + 1 = tsc" "tsc < 2 ^ 48"
    and rk: "has_flag (wk_flags kr) KEY_SWDECRYPT" "has_flag (wk_flags kr) KEY_SWDEMIC"
      "rx_cache_ok kr cr (i_addr2 (mtod m)) (ieee80211_gettid (mtod m)) tsc"
      "wk_keyrsc kr ! ieee80211_gettid (mtod m) < tsc" "iv_flags vr AND 0x04000000 = 0"
    and keys: "take 16 (wk_key kr) = take 16 (wk_key ks)"
      "take 8 (wk_rxmic kr) = take 8 (wk_txmic ks)"
    and mr: "m_segs mr = [concat (m_segs m2)]" "m_rxs mr = None"
  shows "\<exists>vr1 cr1 mr1 vr2. tkip_decap be' h (vr, kr, cr, mr) = Some (True, vr1, kr, cr1, mr1) \<and>
    tkip_demic force' (vr1, kr, cr1, mr1) = Some (True, vr2,
      kr\<lparr>wk_keyrsc := (wk_keyrsc kr)[ieee80211_gettid (mtod m) := tsc]\<rparr>, cr1,
      mr\<lparr>m_segs := [concat (m_segs m)]\<rparr>)"
proof -
  define D where "D = concat (m_segs m)"
  define hdr where "hdr = take h (mtod m)"
  define mic where "mic = michael_flat (wk_txmic ks) (mtod m) (drop h D)"
  define iv where "iv = snd (tkip_setiv ks)"
  define K where "K = tkip_mixing_phase2 be (wk_key ks)
    (tkip_mixing_phase1 (wk_key ks) (i_addr2 (mtod m)) (ucast (drop_bit 16 tsc))) (ucast tsc)"
  have hs: "ieee80211_hdrsize (mtod m) \<le> h" "24 \<le> h" using h hdrspace_bounds by simp_all
  have hdr: "take h D = hdr" "length hdr = h" "h \<le> length D"
    using frame(1,3) by (auto simp: D_def hdr_def take_hd_concat concat_hd_tl)
  note e = tkip_enmic_flat [OF snd(1) env(2) frame(1,2) sk(1,2)]
  have e: "concat (m_segs m1) = D @ mic" "ks1 = ks" "cs1 = cs" "ic_flags vs1 = ic_flags vs"
    "m_segs m1 \<noteq> []" "take (length (mtod m)) (mtod m1) = mtod m" "length (mtod m) \<le> length (mtod m1)"
    using e frame(3,4) h by (auto simp: D_def mic_def)
  have hd1: "take h (mtod m1) = hdr"
    using e(6) frame(3) unfolding hdr_def by (metis min.absorb1 take_take)
  have sh: "same_hdr (mtod m) (take h (mtod m) @ xs)" for xs
    using same_hdr_append [OF hs(1) frame(3)] .
  have sh1: "same_hdr (mtod m) (mtod m1)"
    using sh [of "drop h (mtod m1)"] hd1 by (metis append_take_drop_id hdr_def)
  have h1: "ieee80211_hdrspace (ic_flags vs1) (mtod m1) = h"
    using same_hdr_hdrspace [OF sh1] e(4) h by simp
  have l1: "ieee80211_hdrspace (ic_flags vs1) (mtod m1) \<le> length (mtod m1)"
    "pktlen (m_segs m1) + 8 < 2 ^ 32"
    using e(1,7) frame(3,4) h1 by (simp_all add: pktlen_def D_def mic_def)
  have d1: "is_data (mtod m1)" using same_hdr_bits(4) [OF sh1] frame(2) by simp
  have ta1: "i_addr2 (mtod m1) = i_addr2 (mtod m)" using same_hdr_addr(2) [OF sh1] by simp
  have m2: "concat (m_segs m2) = hdr @ iv @ wep_seal (wep_stream K) (drop h D @ mic)"
    using tkip_encap_flat [OF snd(2) env(1,2,3) e(5) d1 _ _ l1] sk e h1 ta1 hdr(3) hd1
    by (simp add: iv_def K_def)
  have tid: "ieee80211_gettid hdr = ieee80211_gettid (mtod m)" "i_addr2 hdr = i_addr2 (mtod m)"
    "ieee80211_hdrsize hdr = ieee80211_hdrsize (mtod m)"
    using sh [of "[]"] same_hdr_gettid same_hdr_addr(2) same_hdr_hdrsize by (simp_all add: hdr_def)
  have K': "K = tkip_mixing_phase2 be' (wk_key kr)
      (tkip_mixing_phase1 (wk_key kr) (i_addr2 hdr) (ucast (drop_bit 16 tsc))) (ucast tsc)"
    using tkip_mixing_phase2_cong [OF keys(1), where be = be' and be' = be]
      tkip_mixing_phase1_cong [OF keys(1)] tid by (simp add: K_def)
  have sz: "h + 12 + length (drop h D @ mic) < 2 ^ 32"
    using frame(4) hdr(3) by (simp add: pktlen_def mic_def D_def)
  obtain vr1 cr1 where dec: "tkip_decap be' h (vr, kr, cr, mr) =
      Some (True, vr1, kr, cr1, mr\<lparr>m_segs := [hdr @ drop h D @ mic]\<rparr>)"
    "rx_rsc cr1 = tsc" "ic_flags vr1 = ic_flags vr"
  proof -
    have "\<exists>vr1 cr1. tkip_decap be' h (vr, kr, cr, mr) =
        Some (True, vr1, kr, cr1, mr\<lparr>m_segs := [hdr @ drop h D @ mic]\<rparr>) \<and> rx_rsc cr1 = tsc \<and>
        ic_flags vr1 = ic_flags vr"
    proof (rule tkip_decap_flat [OF _ hdr(2) _ _ hs(2) _ _ K' _ _ _ rk(5) rk(1) sz])
      show "m_segs mr = [hdr @ iv @ wep_seal (wep_stream K) (drop h D @ mic)]" by (simp only: mr m2)
      show "length iv = 8" by (simp only: iv_def length_tkip_setiv)
      show "ieee80211_hdrsize hdr \<le> h" by (simp only: tid hs)
      show "READ_6 (iv ! 2) (iv ! 0) (iv ! 4) (iv ! 5) (iv ! 6) (iv ! 7) = tsc"
        "(iv ! 3) AND 0x20 \<noteq> 0"
        unfolding iv_def by (rule tkip_setiv_bytes [OF sk(5,6)])+
      show "wk_keyrsc kr ! ieee80211_gettid hdr < tsc" by (simp only: tid rk)
      show "rx_cache_ok kr cr (i_addr2 hdr) (ieee80211_gettid hdr) tsc" by (simp only: tid rk)
      show "\<not> rx_flag mr 0x200" by (simp add: rx_flag_def mr)
    qed
    then show ?thesis using that by blast
  qed
  have Dm: "hdr @ drop h D @ mic = D @ mic" using hdr(1) by (metis append.assoc append_take_drop_id)
  have shD: "same_hdr (mtod m) (D @ mic)" using sh Dm unfolding hdr_def by metis
  have mic': "mic = michael_flat (wk_rxmic kr) (D @ mic) (drop h D)"
    by (rule trans [OF mic_def michael_flat_cong [OF keys(2)[symmetric] shD frame(2)]])
  have hD: "h = ieee80211_hdrspace (ic_flags vr1) (D @ mic)"
    using same_hdr_hdrspace [OF shD, of "ic_flags vs"] h dec(3) by simp
  have sD: "length D + 8 < 2 ^ 32" using frame(4) by (simp add: pktlen_def D_def)
  obtain vr2 where "tkip_demic force' (vr1, kr, cr1, mr\<lparr>m_segs := [D @ mic]\<rparr>) = Some (True, vr2,
      kr\<lparr>wk_keyrsc := (wk_keyrsc kr)[ieee80211_gettid (D @ mic) := rx_rsc cr1]\<rparr>, cr1,
      mr\<lparr>m_segs := [D @ mic], m_segs := [D]\<rparr>)"
    using tkip_demic_flat [OF _ _ hD hdr(3) mic' _ _ rk(2) sD, of "mr\<lparr>m_segs := [D @ mic]\<rparr>" force' cr1]
    by (auto simp: rx_flag_def mic_def mr)
  then show ?thesis
    unfolding D_def [symmetric] using dec(1,2) same_hdr_gettid [OF shD] by (auto simp: Dm)
qed


lemma tkip_enmic_total:
  assumes "m_segs m \<noteq> []" "is_data (mtod m)" "plain_key k" "has_flag (wk_flags k) KEY_SWENMIC"
    and len: "ieee80211_hdrspace (ic_flags vap) (mtod m) \<le> length (mtod m)" "pktlen (m_segs m) < 2 ^ 32"
      "\<forall>s \<in> set (tl (m_segs m)). 4 \<le> length s"
    and total: "\<forall>segs bs. app segs bs \<noteq> None"
  shows "\<exists>vap' m'. tkip_enmic app force (vap, k, ctx, m) = Some (True, vap', k, ctx, m')"
proof -
  let ?h = "ieee80211_hdrspace (ic_flags vap) (mtod m)"
  have pl: "?h \<le> pktlen (m_segs m)" using assms(1) len(1) by (simp add: pktlen_def concat_hd_tl)
  have n: "u_int_diff (pktlen (m_segs m)) ?h = pktlen (m_segs m) - ?h"
    using len pl by (intro u_int_diff_eq)
  have "tl (m_segs m) \<noteq> [] \<longrightarrow> pktlen (butlast (m_segs m)) + 4 \<le> pktlen (m_segs m)"
  proof
    assume t: "tl (m_segs m) \<noteq> []"
    then have "4 \<le> length (last (m_segs m))"
      using len(3) by (metis last_in_set last_tl)
    moreover have "pktlen (m_segs m) = pktlen (butlast (m_segs m)) + length (last (m_segs m))"
      using append_butlast_last_id [OF assms(1)]
      by (metis concat.simps append_Nil2 concat_append length_append pktlen_def)
    ultimately show "pktlen (butlast (m_segs m)) + 4 \<le> pktlen (m_segs m)" by simp
  qed
  then obtain mic where "michael_mic (wk_txmic k) (m_segs m) ?h (pktlen (m_segs m) - ?h) = Some mic"
    using michael_mic_total [of "m_segs m" ?h "pktlen (m_segs m) - ?h" "wk_txmic k"] assms pl by auto
  moreover obtain segs where "app (m_segs m) mic = Some segs"
    using total by fastforce
  ultimately show ?thesis
    using assms n is_data_not_mgmt by (simp add: tkip_enmic_def Let_def stat_def plain_key_def)
qed

lemma tkip_encap_total:
  assumes ne: "m_segs m \<noteq> []"
    and d: "is_data (mtod m)" "plain_key k" "iv_flags vap AND 0x04000000 = 0"
    and hl: "h = ieee80211_hdrspace (ic_flags vap) (mtod m)" "h \<le> length (mtod m)"
    and pre: "prepends pre" "\<forall>segs n. pre segs n \<noteq> None"
    and sw: "has_flag (wk_flags k) KEY_SWENCRYPT"
  shows "\<exists>vap' k' ctx' m'. tkip_encap be pre app (vap, k, ctx, m) = Some (True, vap', k', ctx', m')"
proof -
  obtain segs0 where p: "pre (m_segs m) 8 = Some segs0"
    using pre(2) by fastforce
  then obtain junk where j: "length junk = 8" "segs0 = (junk @ mtod m) # tl (m_segs m)"
    using pre(1) ne unfolding prepends_def by blast
  have h24: "24 \<le> h" by (simp add: hl hdrspace_bounds)
  define segs where "segs = (take h (mtod m) @ snd (tkip_setiv k) @ drop h (mtod m)) # tl (m_segs m)"
  have ivp: "splice (splice (hd segs0) 0 (take h (drop 8 (hd segs0)))) h (snd (tkip_setiv k)) # tl segs0 = segs"
    using insert_bytes [of junk "snd (tkip_setiv k)"] hl(2) j by (simp add: segs_def length_tkip_setiv)
  obtain k2 iv where si: "tkip_setiv k = (k2, iv)" by (cases "tkip_setiv k")
  have k2: "wk_flags k2 = wk_flags k" using fst_tkip_setiv [of k] by (simp add: si)
  have "\<exists>r. wep_encrypt K segs (h + 8) n = Some r" for K n
    using hl(2) by (auto simp: wep_encrypt_def encrypt_data_def segs_def length_tkip_setiv split: prod.split)
  then obtain g where g: "\<And>K n. wep_encrypt K segs (h + 8) n = Some (g K n)" by metis
  have "\<exists>vap' k' ctx' m'. tkip_encrypt be app h (vap, k2, ctx, m\<lparr>m_segs := segs\<rparr>) =
      Some (True, vap', k', ctx', m')"
    by (simp add: tkip_encrypt_def Let_def g split_beta)
  then show ?thesis
    using p j ivp d sw hl is_data_not_mgmt [OF d(1)]
    by (simp add: tkip_encap_def Let_def plain_key_def si k2)
qed




end
