(* ===== verification/Replay.thy ===== *)
theory Replay
  imports FrameHdr
begin

text \<open>
  Replay protection as an interface: a receive step that accepts a frame with a counter on
  a traffic identifier only if the counter is beyond the one it remembers, and remembers it
  then. The locale proves once that the accepted counters of a TID increase strictly; the
  TKIP and the CCMP module interpret it on their receive paths.
\<close>

section \<open>Runs of a receive step\<close>

text \<open>The (TID, counter) pairs of the accepted frames; \<open>None\<close> of the step ends the run.\<close>

fun rx_run ::
  "('s \<Rightarrow> mbuf \<Rightarrow> ((nat \<times> u64) option \<times> 's) option) \<Rightarrow> 's \<Rightarrow> mbuf list \<Rightarrow> (nat \<times> u64) list" where
  "rx_run step s [] = []"
| "rx_run step s (m # ms) =
     (case step s m of
        None \<Rightarrow> []
      | Some (r, s') \<Rightarrow> (case r of None \<Rightarrow> [] | Some p \<Rightarrow> [p]) @ rx_run step s' ms)"

definition accepted_on :: "nat \<Rightarrow> (nat \<times> u64) list \<Rightarrow> u64 list" where
  "accepted_on tid ps = map snd (filter (\<lambda>p. fst p = tid) ps)"

lemma accepted_on_simps [simp]:
  "accepted_on tid [] = []"
  "accepted_on tid (p # ps) = (if fst p = tid then [snd p] else []) @ accepted_on tid ps"
  by (simp_all add: accepted_on_def)

section \<open>The interface\<close>

locale replay_receiver =
  fixes step :: "'s \<Rightarrow> mbuf \<Rightarrow> ((nat \<times> u64) option \<times> 's) option"
    and rsc :: "'s \<Rightarrow> nat \<Rightarrow> u64"
    and inv :: "'s \<Rightarrow> bool"
    and frame_ok :: "'s \<Rightarrow> mbuf \<Rightarrow> bool"
  assumes step_keeps: "inv s \<Longrightarrow> frame_ok s m \<Longrightarrow> step s m = Some (r, s') \<Longrightarrow>
      inv s' \<and> frame_ok s' = frame_ok s"
    and step_rejects: "inv s \<Longrightarrow> frame_ok s m \<Longrightarrow> step s m = Some (None, s') \<Longrightarrow> rsc s' = rsc s"
    and step_accepts: "inv s \<Longrightarrow> frame_ok s m \<Longrightarrow> step s m = Some (Some (t, c), s') \<Longrightarrow>
      rsc s t < c \<and> rsc s' = (rsc s)(t := c)"
begin

lemma run_increasing:
  "inv s \<Longrightarrow> \<forall>m \<in> set ms. frame_ok s m \<Longrightarrow>
     sorted_wrt (<) (rsc s tid # accepted_on tid (rx_run step s ms))"
proof (induction ms arbitrary: s)
  case (Cons m ms)
  show ?case
  proof (cases "step s m")
    case (Some q)
    obtain r s' where q: "step s m = Some (r, s')" using Some by (cases q) auto
    have ok: "frame_ok s m" using Cons.prems(2) by simp
    have k: "inv s'" "\<forall>m \<in> set ms. frame_ok s' m"
      using step_keeps [OF Cons.prems(1) ok q] Cons.prems(2) by auto
    note ih = Cons.IH [OF k]
    show ?thesis
    proof (cases r)
      case None
      then show ?thesis using ih step_rejects [OF Cons.prems(1) ok] q by simp
    next
      case (Some p)
      obtain t c where p: "p = (t, c)" by (cases p)
      from step_accepts [OF Cons.prems(1) ok] have "rsc s t < c" "rsc s' = (rsc s)(t := c)"
        using q Some p by blast+
      then show ?thesis using ih q Some p by (auto split: if_splits)
    qed
  qed simp
qed simp

end

end
