(* ===== verification/TkipReplay.thy ===== *)
theory TkipReplay
  imports TkipRoundtrip Replay
begin

text \<open>
  Safety of the TKIP module: replay protection over a stream of frames, the freshness of the
  transmitter's cached phase 1 key, the MIC check, and the countermeasures.
\<close>

section \<open>Decapsulation keeps the header\<close>

lemma wep_decrypt_hd:
  assumes "wep_decrypt key segs off n = Some (ok, segs')" "off \<le> length (hd segs)"
  shows "segs' \<noteq> []" "take off (hd segs') = take off (hd segs)"
    "length (hd segs') = length (hd segs)" "map length segs' = map length segs"
proof -
  obtain rest st crc pos where
    d: "decrypt_data (wep_stream key) segs off n = Some (rest, segs', st, crc, pos)"
    using assms(1) by (auto simp: wep_decrypt_def split: option.splits)
  from decrypt_data_hd [OF this assms(2)] show "segs' \<noteq> []" "take off (hd segs') = take off (hd segs)"
    "length (hd segs') = length (hd segs)" "map length segs' = map length segs" by auto
qed

text \<open>A received frame whose header, IV and ICV are there, header and IV contiguous.\<close>

definition rx_frame :: "u32 \<Rightarrow> mbuf \<Rightarrow> bool" where
  "rx_frame f m \<longleftrightarrow> m_segs m \<noteq> [] \<and> m_rxs m = None \<and>
     ieee80211_hdrspace f (mtod m) + 8 \<le> length (mtod m) \<and>
     ieee80211_hdrspace f (mtod m) + 12 \<le> pktlen (m_segs m)"

lemma hd_m_keep: "segs \<noteq> [] \<Longrightarrow> hd (m_keep n segs) = take n (hd segs)"
  by (cases segs) auto

lemma finish_same_hdr:
  assumes "h = ieee80211_hdrspace f (mtod m)" "segs \<noteq> []" "take h (hd segs) = take h (mtod m)"
    and "h + 8 \<le> length (hd segs)" "h + 8 \<le> length (mtod m)" "h + 12 \<le> pktlen segs"
    and "m_rxs m = None"
  shows "same_hdr (mtod m) (mtod (tkip_decap_finish h (m\<lparr>m_segs := segs\<rparr>)))"
proof -
  let ?b = "splice (hd segs) 8 (take h (mtod m))"
  have h: "24 \<le> h" "ieee80211_hdrsize (mtod m) \<le> h" using assms(1) hdrspace_bounds by auto
  have s: "drop 8 ?b = take h (mtod m) @ drop (8 + h) (hd segs)"
    using assms(4,5) by (simp add: splice_def)
  have l: "length ?b = length (hd segs)" using assms(4,5) by (simp add: min_def)
  have hd1: "mtod (tkip_decap_finish h (m\<lparr>m_segs := segs\<rparr>)) =
      take (pktlen (drop 8 ?b # tl segs) - 4) (drop 8 ?b)"
    using assms h l by (simp add: tkip_decap_finish_def rx_flag_def m_adj_back_def hd_m_keep Let_def)
  have "h + 8 \<le> pktlen (?b # tl segs) - 4"
    using assms(2,6) l by (simp add: pktlen_def concat_hd_tl)
  then have "h \<le> pktlen (drop 8 ?b # tl segs) - 4"
    using l assms(4) by (auto simp: pktlen_def)
  then show ?thesis
    unfolding hd1 s using same_hdr_append [OF h(2)] assms(5) by (simp add: take_append)
qed


lemma tkip_decrypt_true:
  assumes "tkip_decrypt be h (vap, k, ctx, m) = Some (ok, vap', k', ctx', m')"
  shows "k' = k" "rx_rsc ctx' = rx_rsc ctx" "ic_flags vap' = ic_flags vap"
    "\<exists>K n segs. wep_decrypt K (m_segs m) (h + 8) n = Some (ok, segs) \<and> m' = m\<lparr>m_segs := segs\<rparr>"
  using assms
  by (auto simp: tkip_decrypt_def Let_def stat_def split: option.splits prod.splits if_splits)

text \<open>An accepted frame is fresh, its counter is in the context and the key is unchanged.\<close>

lemma tkip_decap_true:
  assumes d: "tkip_decap be h (vap, k, ctx, m) = Some (True, vap', k', ctx', m')"
    and m: "rx_frame (ic_flags vap) m" and h: "h = ieee80211_hdrspace (ic_flags vap) (mtod m)"
    and nr: "\<not> has_flag (wk_flags k) KEY_NOREPLAY"
  shows "wk_keyrsc k ! ieee80211_gettid (mtod m) < rx_rsc ctx'" "k' = k"
    "same_hdr (mtod m) (mtod m')" "ic_flags vap' = ic_flags vap" "m_rxs m' = None"
proof -
  define rsc where "rsc = (let ivp = drop h (mtod m) in
    READ_6 (ivp ! 2) (ivp ! 0) (ivp ! 4) (ivp ! 5) (ivp ! 6) (ivp ! 7))"
  have rxs: "m_rxs m = None" "h + 8 \<le> length (mtod m)" "h + 12 \<le> pktlen (m_segs m)" "m_segs m \<noteq> []"
    using m by (auto simp: rx_frame_def h)
  then have f: "\<not> rx_flag m 0x200" by (simp add: rx_flag_def)
  have fresh: "wk_keyrsc k ! ieee80211_gettid (mtod m) < rsc"
    using d f nr rxs by (auto simp: tkip_decap_def Let_def rsc_def linorder_not_le split: if_splits)
  have all: "wk_keyrsc k ! ieee80211_gettid (mtod m) < rx_rsc ctx' \<and> k' = k \<and>
        same_hdr (mtod m) (mtod m') \<and> ic_flags vap' = ic_flags vap \<and> m_rxs m' = None"
  proof (cases "has_flag (wk_flags k) KEY_SWDECRYPT")
    case False
    then have "m' = tkip_decap_finish h (m\<lparr>m_segs := m_segs m\<rparr>)" "ctx' = ctx\<lparr>rx_rsc := rsc\<rparr>"
      "k' = k" "vap' = vap"
      using d f nr rxs by (auto simp: tkip_decap_def Let_def rsc_def split: if_splits)
    then show ?thesis
      using fresh finish_same_hdr [OF h, of "m_segs m"] rxs by (simp add: tkip_decap_finish_def Let_def)
  next
    case True
    then obtain m1 where t: "tkip_decrypt be h (vap, k, ctx\<lparr>rx_rsc := rsc\<rparr>, m) = Some (True, vap', k', ctx', m1)"
      and m': "m' = tkip_decap_finish h m1"
      using d f nr rxs by (auto simp: tkip_decap_def Let_def rsc_def split: if_splits option.splits)
    from tkip_decrypt_true [OF t] obtain K n segs where
      w: "wep_decrypt K (m_segs m) (h + 8) n = Some (True, segs)" "m1 = m\<lparr>m_segs := segs\<rparr>"
      and r: "k' = k" "rx_rsc ctx' = rsc" "ic_flags vap' = ic_flags vap"
      by auto
    note wd = wep_decrypt_hd [OF w(1) rxs(2)]
    have "pktlen segs = pktlen (m_segs m)" using wd(4) by (simp add: pktlen_def length_concat)
    moreover have "take h (hd segs) = take h (mtod m)"
      using arg_cong [OF wd(2), of "take h"] by simp
    ultimately have "same_hdr (mtod m) (mtod m')"
      using finish_same_hdr [OF h wd(1)] wd(3) rxs by (simp add: m' w(2))
    then show ?thesis
      using fresh r rxs by (simp add: m' w(2) tkip_decap_finish_def Let_def)
  qed
  then show "wk_keyrsc k ! ieee80211_gettid (mtod m) < rx_rsc ctx'" "k' = k"
    "same_hdr (mtod m) (mtod m')" "ic_flags vap' = ic_flags vap" "m_rxs m' = None"
    by simp_all
qed

lemma tkip_decap_false:
  assumes "tkip_decap be h (vap, k, ctx, m) = Some (False, vap', k', ctx', m')"
  shows "k' = k" "ic_flags vap' = ic_flags vap"
  using assms tkip_decrypt_true
  by (auto simp: tkip_decap_def Let_def stat_def ieee80211_notify_replay_failure_def
      split: if_splits option.splits)

lemma tkip_demic_cases:
  assumes "tkip_demic force (vap, k, ctx, m) = Some (ok, vap', k', ctx', m')" "m_rxs m = None"
  shows "k' = (if ok then k\<lparr>wk_keyrsc := (wk_keyrsc k)[ieee80211_gettid (mtod m) := rx_rsc ctx]\<rparr> else k)"
    "ic_flags vap' = ic_flags vap" "ctx' = ctx"
  using assms
  by (auto simp: tkip_demic_def Let_def stat_def rx_flag_def ieee80211_notify_michael_failure_def
      split: if_splits option.splits)


section \<open>Replay protection over a stream of frames\<close>

text \<open>
  The receive path of one key (\<open>ieee80211_crypto_decap\<close> and \<open>ieee80211_crypto_demic\<close>) on
  one frame, and over the frames in the order they arrive.
\<close>

definition tkip_rx_step ::
  "bool \<Rightarrow> vap \<times> ieee80211_key \<times> tkip_ctx \<Rightarrow> mbuf
     \<Rightarrow> ((nat \<times> u64) option \<times> vap \<times> ieee80211_key \<times> tkip_ctx) option" where
  "tkip_rx_step be s m = (case s of (vap, k, ctx) \<Rightarrow>
     case tkip_decap be (ieee80211_hdrspace (ic_flags vap) (mtod m)) (vap, k, ctx, m) of
       None \<Rightarrow> None
     | Some (ok, vap, k, ctx, m1) \<Rightarrow>
         if \<not> ok then Some (None, vap, k, ctx)
         else (case tkip_demic False (vap, k, ctx, m1) of
                 None \<Rightarrow> None
               | Some (ok, vap, k, ctx, m2) \<Rightarrow>
                   Some (if ok then Some (ieee80211_gettid (mtod m), rx_rsc ctx) else None,
                     vap, k, ctx)))"

definition tkip_rx :: "bool \<Rightarrow> vap \<times> ieee80211_key \<times> tkip_ctx \<Rightarrow> mbuf list \<Rightarrow> (nat \<times> u64) list" where
  "tkip_rx be = rx_run (tkip_rx_step be)"

definition tkip_rsc :: "vap \<times> ieee80211_key \<times> tkip_ctx \<Rightarrow> nat \<Rightarrow> u64" where
  "tkip_rsc s t = (case s of (vap, k, ctx) \<Rightarrow> wk_keyrsc k ! t)"

definition tkip_rx_inv :: "vap \<times> ieee80211_key \<times> tkip_ctx \<Rightarrow> bool" where
  "tkip_rx_inv s = (case s of (vap, k, ctx) \<Rightarrow>
     \<not> has_flag (wk_flags k) KEY_NOREPLAY \<and> length (wk_keyrsc k) = 17)"

definition tkip_frame_ok :: "vap \<times> ieee80211_key \<times> tkip_ctx \<Rightarrow> mbuf \<Rightarrow> bool" where
  "tkip_frame_ok s = (case s of (vap, k, ctx) \<Rightarrow> rx_frame (ic_flags vap))"

lemma tkip_rx_step_facts:
  assumes "tkip_rx_inv (vap, k, ctx)" "tkip_frame_ok (vap, k, ctx) m"
    and step: "tkip_rx_step be (vap, k, ctx) m = Some (r, vap', k', ctx')"
  shows "ic_flags vap' = ic_flags vap \<and>
    (case r of None \<Rightarrow> k' = k
     | Some (t, c) \<Rightarrow> t < 17 \<and> wk_keyrsc k ! t < c \<and> k' = k\<lparr>wk_keyrsc := (wk_keyrsc k)[t := c]\<rparr>)"
proof -
  let ?h = "ieee80211_hdrspace (ic_flags vap) (mtod m)"
  have nr: "\<not> has_flag (wk_flags k) KEY_NOREPLAY" and fr: "rx_frame (ic_flags vap) m"
    using assms(1,2) by (simp_all add: tkip_rx_inv_def tkip_frame_ok_def)
  obtain ok v1 k1 c1 m1 where d: "tkip_decap be ?h (vap, k, ctx, m) = Some (ok, v1, k1, c1, m1)"
    using step by (auto simp: tkip_rx_step_def split: option.splits)
  show ?thesis
  proof (cases ok)
    case False
    then have F: "ok = False" by simp
    have "r = None \<and> vap' = v1 \<and> k' = k1"
      using step False by (simp add: tkip_rx_step_def d)
    then show ?thesis using tkip_decap_false [OF d [unfolded F]] by simp
  next
    case True
    then have T: "ok = True" by simp
    note t = tkip_decap_true [OF d [unfolded T] fr refl nr]
    have tid: "ieee80211_gettid (mtod m1) = ieee80211_gettid (mtod m)"
      using same_hdr_gettid [OF t(3)] by simp
    obtain ok2 v2 k2 c2 m2 where q: "tkip_demic False (v1, k1, c1, m1) = Some (ok2, v2, k2, c2, m2)"
      using step d True by (auto simp: tkip_rx_step_def split: option.splits)
    note dc = tkip_demic_cases [OF q t(5)]
    have r: "r = (if ok2 then Some (ieee80211_gettid (mtod m), rx_rsc c2) else None)"
      "vap' = v2" "k' = k2"
      using step True by (simp_all add: tkip_rx_step_def d q)
    show ?thesis
      using dc t(1,2,4) tid ieee80211_gettid_less [of "mtod m"] by (simp add: r)
  qed
qed

interpretation tkip_rx: replay_receiver "tkip_rx_step be" tkip_rsc tkip_rx_inv tkip_frame_ok for be
proof unfold_locales
  fix s s' :: "vap \<times> ieee80211_key \<times> tkip_ctx" and m r
  assume a: "tkip_rx_inv s" "tkip_frame_ok s m"
  obtain vap k ctx where s: "s = (vap, k, ctx)" by (cases s)
  obtain vap' k' ctx' where s': "s' = (vap', k', ctx')" by (cases s')
  note f = tkip_rx_step_facts [OF a [unfolded s]]
  show "tkip_rx_inv s' \<and> tkip_frame_ok s' = tkip_frame_ok s" if "tkip_rx_step be s m = Some (r, s')"
    using f [OF that [unfolded s s']] a
    by (cases r) (auto simp: s s' tkip_rx_inv_def tkip_frame_ok_def)
  show "tkip_rsc s' = tkip_rsc s" if "tkip_rx_step be s m = Some (None, s')"
    using f [OF that [unfolded s s']] by (simp add: s s' tkip_rsc_def fun_eq_iff)
  show "tkip_rsc s t < c \<and> tkip_rsc s' = (tkip_rsc s)(t := c)"
    if "tkip_rx_step be s m = Some (Some (t, c), s')" for t c
    using f [OF that [unfolded s s']] a(1)
    by (auto simp: s s' tkip_rsc_def tkip_rx_inv_def fun_eq_iff nth_list_update)
qed


text \<open>
  C22. Replay protection: whatever frames arrive for a key, the counters of the frames the
  receive path accepts on one TID are strictly increasing and all beyond the counter the key
  had; so no frame is accepted twice. This is for a key without the flag that turns the check
  off.
\<close>

theorem tkip_replay_protection:
  assumes "\<forall>m \<in> set ms. rx_frame (ic_flags vap) m" "\<not> has_flag (wk_flags k) KEY_NOREPLAY"
    and "length (wk_keyrsc k) = 17"
  shows "sorted_wrt (<) (wk_keyrsc k ! tid # accepted_on tid (tkip_rx be (vap, k, ctx) ms))"
  using tkip_rx.run_increasing [of "(vap, k, ctx)" ms tid be] assms
  by (simp add: tkip_rx_def tkip_rsc_def tkip_rx_inv_def tkip_frame_ok_def)

definition ex_rx :: mbuf where
  "ex_rx = \<lparr>m_segs = [[0x08, 0x01] @ replicate 50 0x20], m_rxs = None, m_flags = 0\<rparr>"

theorem tkip_replay_protection_witness:
  "sorted_wrt (<) (5 # accepted_on 16 (tkip_rx False (ex_vap, ex_key 0, tkip_ctx0) [ex_rx, ex_rx]))"
proof -
  have h: "ieee80211_hdrspace (ic_flags ex_vap) (mtod ex_rx) = 24"
    by (simp add: ex_rx_def ex_vap_def ieee80211_hdrspace_def ieee80211_hdrsize_def
        IEEE80211_IS_DSTODS_def IEEE80211_QOS_HAS_SEQ_def)
  have "rx_frame (ic_flags ex_vap) ex_rx"
    unfolding rx_frame_def h by (simp add: ex_rx_def pktlen_def)
  moreover have "\<not> has_flag (wk_flags (ex_key 0)) KEY_NOREPLAY" "length (wk_keyrsc (ex_key 0)) = 17"
    "wk_keyrsc (ex_key 0) ! 16 = 5"
    by (simp_all add: has_flag_def ex_key_def KEY_NOREPLAY_def)
  ultimately show ?thesis
    using tkip_replay_protection [of "[ex_rx, ex_rx]" ex_vap "ex_key 0" 16 False tkip_ctx0] by simp
qed

section \<open>The transmitter's phase 1 key\<close>

definition tx_inv :: "ieee80211_key \<Rightarrow> tkip_ctx \<Rightarrow> u8 list \<Rightarrow> bool" where
  "tx_inv k ctx ta \<longleftrightarrow> wk_keytsc k = 0 \<or>
     tx_ttak ctx = tkip_mixing_phase1 (wk_key k) ta (ucast (drop_bit 16 (wk_keytsc k)))"

lemma drop_16_Suc:
  assumes "ucast (w + 1 :: u64) \<noteq> (0 :: u16)"
  shows "drop_bit 16 (w + 1) = drop_bit 16 w"
proof -
  have nz: "w + 1 \<noteq> 0" using assms by auto
  then have u: "unat (w + 1) = unat w + 1" 
    using unatSuc [of w] by (simp add: add.commute)
  have "unat (ucast (w + 1) :: u16) = (unat w + 1) mod 65536"
    by (simp add: unsigned_ucast_eq take_bit_eq_mod u)
  moreover have "unat (ucast (w + 1) :: u16) \<noteq> 0"
    using assms by (simp only: unsigned_eq_0_iff not_False_eq_True)
  ultimately have "Suc (unat w) mod 65536 \<noteq> 0" by simp
  then have "(unat w + 1) div 65536 = unat w div 65536" by (simp only: Suc_eq_plus1 [symmetric] div_Suc if_False)
  moreover have "unat (drop_bit 16 v) = unat v div 65536" for v :: u64
    using unsigned_less [of v, where 'a = nat]
    by (simp add: unsigned_drop_bit_eq) (simp add: drop_bit_eq_div take_bit_nat_eq_self)
  ultimately have "unat (drop_bit 16 (w + 1)) = unat (drop_bit 16 w)" by (simp only: u)
  then show ?thesis by (simp only: word_unat_eq_iff)
qed

lemma tx_inv_cache: "tx_inv k ctx ta \<Longrightarrow> tx_cache_ok k ctx ta (wk_keytsc k + 1)"
  by (auto simp: tx_inv_def tx_cache_ok_def drop_16_Suc)

lemma tkip_encrypt_ctx:
  assumes "tkip_encrypt be app h (vap, k, ctx, m) = Some (ok, vap', k', ctx', m')"
    and "tx_cache_ok k ctx (i_addr2 (mtod m)) (wk_keytsc k)"
  defines "T \<equiv> tkip_mixing_phase1 (wk_key k) (i_addr2 (mtod m)) (ucast (drop_bit 16 (wk_keytsc k)))"
  shows "k' = k \<and> tx_ttak ctx' = T \<and>
    tx_rc4key ctx' = tkip_mixing_phase2 be (wk_key k) T (ucast (wk_keytsc k))"
proof (cases "ucast (wk_keytsc k) = (0 :: u16) \<or> wk_keytsc k = 1")
  case True
  then show ?thesis using assms(1)
    by (auto simp: tkip_encrypt_def Let_def T_def split: option.splits prod.splits)
next
  case False
  then have "tx_ttak ctx = T" using assms(2) by (auto simp: tx_cache_ok_def T_def)
  with False show ?thesis using assms(1)
    by (auto simp: tkip_encrypt_def Let_def split: option.splits prod.splits)
qed


lemma i_addr2_take: "take 16 a = take 16 b \<Longrightarrow> i_addr2 a = i_addr2 b"
proof -
  have "i_addr2 x = drop 10 (take 16 x)" for x by (simp add: i_addr2_def take_drop)
  then show "take 16 a = take 16 b \<Longrightarrow> i_addr2 a = i_addr2 b" by simp
qed

text \<open>
  C31. The cached phase 1 key never goes stale on the sender: \<open>tkip_encap\<close> either leaves key
  and context as they were, or it consumes the next sequence counter and encrypts under the
  phase 1 and phase 2 keys of exactly that counter, and the invariant holds again.
\<close>

theorem tkip_encap_keys:
  assumes enc: "tkip_encap be pre app (vap, k, ctx, m) = Some (ok, vap', k', ctx', m')"
    and inv: "tx_inv k ctx ta" and ta: "ta = i_addr2 (mtod m)"
    and sw: "has_flag (wk_flags k) KEY_SWENCRYPT" and pre: "prepends pre" and ne: "m_segs m \<noteq> []"
  shows "tx_inv k' ctx' ta \<and>
    (k' = k \<and> ctx' = ctx \<or>
     k' = k\<lparr>wk_keytsc := wk_keytsc k + 1\<rparr> \<and>
     tx_rc4key ctx' = tkip_mixing_phase2 be (wk_key k)
       (tkip_mixing_phase1 (wk_key k) ta (ucast (drop_bit 16 (wk_keytsc k')))) (ucast (wk_keytsc k')))"
proof (cases "k' = k \<and> ctx' = ctx")
  case True
  then show ?thesis using inv by simp
next
  case False
  let ?h = "ieee80211_hdrspace (ic_flags vap) (mtod m)"
  obtain segs where p: "pre (m_segs m) 8 = Some segs"
    and rest: "segs \<noteq> []" "8 + ?h \<le> length (hd segs)"
    using enc False by (auto simp: tkip_encap_def Let_def split: option.splits if_splits)
  obtain junk where j: "length junk = 8" "segs = (junk @ mtod m) # tl (m_segs m)"
    using pre p ne unfolding prepends_def by blast
  have h: "24 \<le> ?h" "?h \<le> length (mtod m)" using rest j hdrspace_bounds by auto
  let ?ivp = "take ?h (mtod m) @ snd (tkip_setiv k) @ drop ?h (mtod m)"
  let ?k = "k\<lparr>wk_keytsc := wk_keytsc k + 1\<rparr>"
  have ivp_eq: "splice (splice (hd segs) 0 (take ?h (drop 8 (hd segs)))) ?h (snd (tkip_setiv k)) = ?ivp"
    using insert_bytes [of junk "snd (tkip_setiv k)"] h(2) j by (simp add: length_tkip_setiv)
  have "take 16 ?ivp = take 16 (mtod m)" using h by (simp add: min_def)
  then have ta': "i_addr2 ?ivp = ta" unfolding ta by (rule i_addr2_take)
  obtain iv where si: "tkip_setiv k = (?k, iv)"
    using fst_tkip_setiv [of k] by (cases "tkip_setiv k") auto
  have e: "tkip_encrypt be app ?h (vap, ?k, ctx, m\<lparr>m_segs := ?ivp # tl (m_segs m)\<rparr>) =
      Some (ok, vap', k', ctx', m')"
    using enc False p rest ivp_eq sw
    by (simp add: tkip_encap_def Let_def si j split: if_splits)
  have "tx_cache_ok ?k ctx ta (wk_keytsc ?k)"
    using tx_inv_cache [OF inv] by (simp add: tx_cache_ok_def)
  with tkip_encrypt_ctx [OF e] ta' show ?thesis
    by (simp add: tx_inv_def)
qed

theorem tkip_encap_keys_witness:
  "\<exists>k' ctx' vap' m'. tkip_encap False (\<lambda>segs n. Some ((replicate n 0 @ hd segs) # tl segs))
      (\<lambda>segs bs. Some (segs @ [bs])) (ex_vap, ex_key 0, tkip_ctx0, ex_frame) =
        Some (True, vap', k', ctx', m') \<and>
    tx_inv k' ctx' [4, 4, 4, 4, 4, 4]"
proof -
  have f: "plain_key (ex_key 0)" "has_flag (wk_flags (ex_key 0)) KEY_SWENCRYPT"
    "is_data (mtod ex_frame)" "iv_flags ex_vap AND 0x04000000 = 0" "m_segs ex_frame \<noteq> []"
    "i_addr2 (mtod ex_frame) = [4, 4, 4, 4, 4, 4]"
    by (simp_all add: plain_key_def has_flag_def ex_key_def KEY_SWENCRYPT_def KEY_NOIV_def
        KEY_NOMIC_def is_data_def ex_frame_def ex_vap_def i_addr2_def)
  have h: "ieee80211_hdrspace (ic_flags ex_vap) (mtod ex_frame) \<le> length (mtod ex_frame)"
    by (simp add: ex_frame_def ex_vap_def ieee80211_hdrspace_def ieee80211_hdrsize_def
        IEEE80211_IS_DSTODS_def)
  obtain vap' k' ctx' m' where
    r: "tkip_encap False (\<lambda>segs n. Some ((replicate n 0 @ hd segs) # tl segs))
      (\<lambda>segs bs. Some (segs @ [bs])) (ex_vap, ex_key 0, tkip_ctx0, ex_frame) =
        Some (True, vap', k', ctx', m')"
    using tkip_encap_total [OF f(5,3,1,4) refl h prepends_front _ f(2), of False
      "\<lambda>segs bs. Some (segs @ [bs])" tkip_ctx0] by blast
  have "tx_inv (ex_key 0) tkip_ctx0 ta" for ta by (simp add: tx_inv_def ex_key_def)
  with tkip_encap_keys [OF r _ f(6)[symmetric] f(2) prepends_front f(5)] r show ?thesis by blast
qed


section \<open>The MIC check and the countermeasures\<close>

text \<open>
  C32. Integrity: on a frame no hardware has looked at, \<open>tkip_demic\<close> accepts exactly when the
  last eight octets are the Michael MIC, over header and flat payload, under the receive MIC
  key. An accepted frame loses the MIC and advances the replay counter of its TID; a refused
  one leaves the key alone and reports a MIC failure.
\<close>

theorem tkip_demic_integrity:
  assumes "m_rxs m = None" "m_segs m \<noteq> []" "has_flag (wk_flags k) KEY_SWDEMIC"
    and h: "h = ieee80211_hdrspace (ic_flags vap) (mtod m)" "h \<le> length (mtod m)"
    and len: "h + 8 \<le> pktlen (m_segs m)" "pktlen (m_segs m) < 2 ^ 32"
    and d: "tkip_demic force (vap, k, ctx, m) = Some (ok, vap', k', ctx', m')"
  defines "bs \<equiv> concat (m_segs m)"
  defines "n \<equiv> length bs - 8"
  shows "(ok \<longleftrightarrow> drop n bs = michael_flat (wk_rxmic k) (mtod m) (drop h (take n bs))) \<and>
    concat (m_segs m') = (if ok then take n bs else bs) \<and>
    k' = (if ok then k\<lparr>wk_keyrsc := (wk_keyrsc k)[ieee80211_gettid (mtod m) := rx_rsc ctx]\<rparr> else k) \<and>
    (iv_ifp vap \<longrightarrow> iv_events vap' = iv_events vap @ (if ok then [] else
      [MichaelEvent (i_addr1 (mtod m)) (i_addr2 (mtod m)) (ucast (event_keyix k))]))"
proof -
  have u: "u_int_diff (pktlen (m_segs m)) (h + 8) = n - h"
    using len by (simp add: u_int_diff_eq n_def bs_def pktlen_def)
  have nf: "\<not> rx_flag m f" for f using assms(1) by (simp add: rx_flag_def)
  have c: "m_copydata (m_segs m) (pktlen (m_segs m) - 8) 8 = Some (drop n bs)"
    using len by (simp add: m_copydata_def bs_def n_def pktlen_def)
  obtain mic where mic: "michael_mic (wk_rxmic k) (m_segs m) h (n - h) = Some mic"
    using d nf assms(3) h(1) len u
    by (cases "michael_mic (wk_rxmic k) (m_segs m) h (n - h)") (auto simp: tkip_demic_def Let_def)
  have "mic = michael_flat (wk_rxmic k) (mtod m) (take (n - h) (drop h bs))"
    unfolding bs_def by (rule michael_mic_flat [OF mic]) (use len in \<open>simp add: n_def bs_def pktlen_def\<close>)
  then have mf: "mic = michael_flat (wk_rxmic k) (mtod m) (drop h (take n bs))"
    by (simp add: drop_take)
  have r: "ok \<longleftrightarrow> mic = drop n bs"
    "m' = (if ok then m\<lparr>m_segs := m_adj_back 8 (m_segs m)\<rparr> else m)"
    "k' = (if ok then k\<lparr>wk_keyrsc := (wk_keyrsc k)[ieee80211_gettid (mtod m) := rx_rsc ctx]\<rparr> else k)"
    "iv_ifp vap \<longrightarrow> iv_events vap' = iv_events vap @ (if ok then [] else
      [MichaelEvent (i_addr1 (mtod m)) (i_addr2 (mtod m)) (ucast (event_keyix k))])"
    using d nf assms(3) h(1) len u mic c
    by (auto simp: tkip_demic_def Let_def ieee80211_notify_michael_failure_def stat_def split: if_splits)
  have "ok \<longleftrightarrow> drop n bs = michael_flat (wk_rxmic k) (mtod m) (drop h (take n bs))"
    using r(1) mf by auto
  moreover have "concat (m_segs m') = (if ok then take n bs else bs)"
    by (simp add: r(2) bs_def n_def)
  ultimately show ?thesis using r(3,4) by blast
qed


lemma tkip_demic_single:
  assumes "m_segs m = [bs]" "m_rxs m = None" "has_flag (wk_flags k) KEY_SWDEMIC"
    and "ieee80211_hdrspace (ic_flags vap) bs + 8 \<le> length bs" "length bs < 2 ^ 32"
  shows "\<exists>r. tkip_demic force (vap, k, ctx, m) = Some r"
proof -
  let ?h = "ieee80211_hdrspace (ic_flags vap) bs"
  have u: "u_int_diff (length bs) (?h + 8) = length bs - (?h + 8)"
    using assms by (intro u_int_diff_eq) auto
  obtain mic where "michael_mic (wk_rxmic k) [bs] ?h (length bs - (?h + 8)) = Some mic"
    using michael_mic_total [of "[bs]" ?h "length bs - (?h + 8)" "wk_rxmic k"] assms
    by (auto simp: pktlen_def)
  then show ?thesis
    using assms u by (auto simp: tkip_demic_def Let_def rx_flag_def pktlen_def m_copydata_def)
qed

theorem tkip_demic_integrity_witness:
  "\<exists>ok vap' k' ctx' m'. tkip_demic False (ex_vap, ex_key 0, tkip_ctx0, ex_rx) =
      Some (ok, vap', k', ctx', m') \<and>
    ok = (replicate 8 0x20 = michael_flat (replicate 8 7) (mtod ex_rx) (replicate 20 0x20))"
proof -
  have h: "24 = ieee80211_hdrspace (ic_flags ex_vap) (mtod ex_rx)"
    by (simp add: ex_rx_def ex_vap_def ieee80211_hdrspace_def ieee80211_hdrsize_def
        IEEE80211_IS_DSTODS_def IEEE80211_QOS_HAS_SEQ_def)
  have f: "m_rxs ex_rx = None" "m_segs ex_rx \<noteq> []" "has_flag (wk_flags (ex_key 0)) KEY_SWDEMIC"
    "24 \<le> length (mtod ex_rx)" "24 + 8 \<le> pktlen (m_segs ex_rx)" "pktlen (m_segs ex_rx) < 2 ^ 32"
    by (simp_all add: ex_rx_def has_flag_def ex_key_def KEY_SWDEMIC_def pktlen_def)
  have e: "drop 44 (concat (m_segs ex_rx)) = replicate 8 0x20"
    "drop 24 (take 44 (concat (m_segs ex_rx))) = replicate 20 0x20" "wk_rxmic (ex_key 0) = replicate 8 7"
    "length (concat (m_segs ex_rx)) - 8 = 44"
    by (simp_all add: ex_rx_def ex_key_def take_Cons' drop_Cons')
  have sg: "m_segs ex_rx = [mtod ex_rx]" "length (mtod ex_rx) = 52" by (simp_all add: ex_rx_def)
  have "ieee80211_hdrspace (ic_flags ex_vap) (mtod ex_rx) + 8 \<le> length (mtod ex_rx)"
    "length (mtod ex_rx) < 2 ^ 32"
    unfolding h [symmetric] sg(2) by simp_all
  then obtain r where r: "tkip_demic False (ex_vap, ex_key 0, tkip_ctx0, ex_rx) = Some r"
    using tkip_demic_single [OF sg(1) f(1,3)] by blast
  obtain ok vap' k' ctx' m' where r': "r = (ok, vap', k', ctx', m')" by (cases r)
  from tkip_demic_integrity [OF f(1,2,3) h f(4,5,6) r [unfolded r']] r r' show ?thesis
    unfolding e by blast
qed

text \<open>
  Under TKIP countermeasures nothing goes out or comes in: \<open>tkip_encap\<close> and, for a frame
  with its IV, \<open>tkip_decap\<close> refuse it and change neither key, context nor frame.
\<close>

theorem tkip_countermeasures:
  assumes "iv_flags vap AND 0x04000000 \<noteq> 0" "\<not> rx_flag m 0x200" "h + 8 \<le> length (mtod m)"
  shows "(\<exists>vap'. tkip_encap be pre app (vap, k, ctx, m) = Some (False, vap', k, ctx, m)) \<and>
    (\<exists>vap'. tkip_decap be h (vap, k, ctx, m) = Some (False, vap', k, ctx, m))"
  using assms by (simp add: tkip_encap_def tkip_decap_def Let_def)

theorem tkip_countermeasures_witness:
  "(\<exists>vap'. tkip_encap True (\<lambda>s n. None) (\<lambda>s b. None)
      (ex_vap\<lparr>iv_flags := 0x04000000\<rparr>, ex_key 0, tkip_ctx0, ex_rx) = Some (False, vap', ex_key 0, tkip_ctx0, ex_rx)) \<and>
    (\<exists>vap'. tkip_decap True 24 (ex_vap\<lparr>iv_flags := 0x04000000\<rparr>, ex_key 0, tkip_ctx0, ex_rx) =
      Some (False, vap', ex_key 0, tkip_ctx0, ex_rx))"
  by (rule tkip_countermeasures) (simp_all add: rx_flag_def ex_rx_def)

section \<open>Two weaknesses of the code\<close>

text \<open>
  The phase 1 key is cached per key, but \<open>tkip_decrypt\<close> decides whether it is still good by
  the counter of the frame's own TID: a frame whose upper counter bits agree with its TID's
  is opened under whatever phase 1 key the context holds, also one of another TID's frame.
\<close>

lemma tkip_decrypt_stale_ttak:
  assumes "rx_phase1_done ctx"
    and "(ucast (drop_bit 16 (rx_rsc ctx)) :: u32) =
      ucast (drop_bit 16 (wk_keyrsc key ! ieee80211_gettid (mtod m)))"
    and "tkip_decrypt be h (vap, key, ctx, m) = Some (ok, vap', key', ctx', m')"
  shows "rx_ttak ctx' = rx_ttak ctx"
  using assms by (auto simp: tkip_decrypt_def Let_def split: option.splits prod.splits if_splits)

end
