(* ===== verification/Wep.thy ===== *)
theory Wep
  imports WepData FrameHdr
begin

text \<open>
  The WEP cipher module (freebsd/sys/net80211/ieee80211_crypto_wep.c): the initial vector
  sequence with its skip of the weak vectors, and attach, detach, setkey, setiv, encap,
  enmic, decap and demic. The two software routines are named \<open>wep_encrypt_frame\<close> and
  \<open>wep_decrypt_frame\<close> here, because the TKIP module has a \<open>wep_encrypt\<close> and a
  \<open>wep_decrypt\<close> of its own.
\<close>

section \<open>The module's state and operations\<close>

record wep_ctx =
  wc_iv :: u32

text \<open>\<open>mem\<close>: the allocation succeeds; \<open>rnd\<close>: what \<open>net80211_get_random_bytes\<close> leaves.\<close>

definition wep_attach :: "bool \<Rightarrow> u32 \<Rightarrow> vap \<times> int \<Rightarrow> wep_ctx option \<times> vap \<times> int" where
  "wep_attach mem rnd s = (case s of (vap, nrefs) \<Rightarrow>
     if \<not> mem then
       (None, stat (\<lambda>s. s\<lparr>is_crypto_nomem := is_crypto_nomem s + 1\<rparr>) vap, nrefs)
     else (Some \<lparr>wc_iv = rnd\<rparr>, vap, nrefs + 1))"

definition wep_detach :: "int \<Rightarrow> int" where
  "wep_detach nrefs = nrefs - 1"

definition wep_setkey :: "ieee80211_key \<Rightarrow> bool" where
  "wep_setkey k \<longleftrightarrow> wk_keylen k \<ge> 40 div 8"

text \<open>The skip of the weak vectors of Fluhrer, Mantin and Shamir.\<close>

definition skip_weak_iv :: "u32 \<Rightarrow> u32" where
  "skip_weak_iv iv =
     (if iv AND 0xff00 = 0xff00 then
        let B = drop_bit 16 (iv AND 0xff0000)
        in if 3 \<le> B \<and> B < 16 then iv + 0x0100 else iv
      else iv)"

text \<open>\<open>be\<close>: the host is big-endian (\<open>_BYTE_ORDER\<close>).\<close>

definition wep_setiv :: "bool \<Rightarrow> ieee80211_key \<Rightarrow> wep_ctx \<Rightarrow> wep_ctx \<times> u8 list" where
  "wep_setiv be k ctx =
     (let keyid = push_bit 6 (ieee80211_crypto_get_keyid k);
          iv = skip_weak_iv (wc_iv ctx)
      in (ctx\<lparr>wc_iv := iv + 1\<rparr>,
          if be then [ucast iv, ucast (drop_bit 8 iv), ucast (drop_bit 16 iv), keyid]
          else [ucast (drop_bit 16 iv), ucast (drop_bit 8 iv), ucast iv, keyid]))"

text \<open>
  The RC4 key is the vector in the frame followed by the key; the buffer it is put together
  in has room for a key of 16 octets, and a longer one is written past its end.
\<close>

definition wep_rc4key :: "ieee80211_key \<Rightarrow> nat \<Rightarrow> u8 list \<Rightarrow> u8 list option" where
  "wep_rc4key key hdrlen wh =
     (if length wh < hdrlen + 3 \<or> wk_keylen key > 16 then None
      else Some (take 3 (drop hdrlen wh) @ take (wk_keylen key) (wk_key key)))"

definition wep_key_stream :: "nat \<Rightarrow> u8 list \<Rightarrow> rc4" where
  "wep_key_stream keylen rc4key = rc4_setup (\<lambda>i. rc4key ! (i mod (keylen + 3)))"

definition wep_encrypt_frame ::
  "m_append \<Rightarrow> nat \<Rightarrow> vap \<times> ieee80211_key \<times> mbuf \<Rightarrow> (bool \<times> vap \<times> mbuf) option" where
  "wep_encrypt_frame app hdrlen s = (case s of (vap, key, m) \<Rightarrow>
     let vap = stat (\<lambda>s. s\<lparr>is_crypto_wep := is_crypto_wep s + 1\<rparr>) vap; off = hdrlen + 4
     in case wep_rc4key key hdrlen (mtod m) of
          None \<Rightarrow> None
        | Some rc4key \<Rightarrow>
            (case encrypt_data (wep_key_stream (wk_keylen key) rc4key) (m_segs m) off
                    (u_int_diff (pktlen (m_segs m)) off) of
               None \<Rightarrow> None
             | Some (data_len, segs, icv) \<Rightarrow>
                 if data_len \<noteq> 0 then Some (False, vap, m\<lparr>m_segs := segs\<rparr>)
                 else (case app segs icv of
                         None \<Rightarrow> Some (False, vap, m\<lparr>m_segs := segs\<rparr>)
                       | Some segs \<Rightarrow> Some (True, vap, m\<lparr>m_segs := segs\<rparr>))))"

definition wep_decrypt_frame ::
  "nat \<Rightarrow> vap \<times> ieee80211_key \<times> mbuf \<Rightarrow> (bool \<times> vap \<times> mbuf) option" where
  "wep_decrypt_frame hdrlen s = (case s of (vap, key, m) \<Rightarrow>
     let vap = stat (\<lambda>s. s\<lparr>is_crypto_wep := is_crypto_wep s + 1\<rparr>) vap; off = hdrlen + 4
     in case wep_rc4key key hdrlen (mtod m) of
          None \<Rightarrow> None
        | Some rc4key \<Rightarrow>
            (case decrypt_data (wep_key_stream (wk_keylen key) rc4key) (m_segs m) off
                    (u_int_diff (pktlen (m_segs m)) (off + 4)) of
               None \<Rightarrow> None
             | Some (data_len, segs, st, crc, pos) \<Rightarrow>
                 if data_len \<noteq> 0 then Some (False, vap, m\<lparr>m_segs := segs\<rparr>)
                 else (case icv_check st (bytes_le32 (NOT crc)) pos of
                         None \<Rightarrow> None
                       | Some ok \<Rightarrow> Some (ok, vap, m\<lparr>m_segs := segs\<rparr>))))"

definition wep_encap ::
  "bool \<Rightarrow> m_prepend \<Rightarrow> m_append \<Rightarrow> vap \<times> ieee80211_key \<times> wep_ctx \<times> mbuf
     \<Rightarrow> (bool \<times> vap \<times> wep_ctx \<times> mbuf) option" where
  "wep_encap be pre app s = (case s of (vap, k, ctx, m) \<Rightarrow>
     let wh = mtod m; hdrlen = ieee80211_hdrspace (ic_flags vap) wh;
         is_mgmt = IEEE80211_IS_MGMT wh in
     if is_mgmt \<and> has_flag (wk_flags k) KEY_NOIVMGT then Some (True, vap, ctx, m)
     else if \<not> is_mgmt \<and> has_flag (wk_flags k) KEY_NOIV then Some (True, vap, ctx, m)
     else
       case pre (m_segs m) 4 of
         None \<Rightarrow> Some (False, vap, ctx, m\<lparr>m_segs := []\<rparr>)
       | Some segs \<Rightarrow>
           if segs = [] \<or> length (hd segs) < 4 + hdrlen then None
           else
             let ivp = splice (hd segs) 0 (take hdrlen (drop 4 (hd segs)));
                 (ctx, iv) = wep_setiv be k ctx;
                 m = m\<lparr>m_segs := splice ivp hdrlen iv # tl segs\<rparr>
             in if has_flag (wk_flags k) KEY_SWENCRYPT
                then (case wep_encrypt_frame app hdrlen (vap, k, m) of
                        None \<Rightarrow> None | Some (ok, vap, m) \<Rightarrow> Some (ok, vap, ctx, m))
                else Some (True, vap, ctx, m))"

definition wep_enmic :: "mbuf \<Rightarrow> bool \<times> mbuf" where
  "wep_enmic m = (True, m)"

definition wep_demic :: "mbuf \<Rightarrow> bool \<times> mbuf" where
  "wep_demic m = (True, m)"

definition wep_decap ::
  "nat \<Rightarrow> vap \<times> ieee80211_key \<times> mbuf \<Rightarrow> (bool \<times> vap \<times> mbuf) option" where
  "wep_decap hdrlen s = (case s of (vap, k, m) \<Rightarrow>
     let finish = (\<lambda>m. m\<lparr>m_segs := m_adj_back 4 (m_segs m)\<rparr>);
         strip = (\<lambda>m. let segs = m_segs m
                       in if length (hd segs) < hdrlen + 4 then None
                          else Some (m\<lparr>m_segs :=
                            m_adj_front 4 (splice (hd segs) 4 (take hdrlen (hd segs)) # tl segs)\<rparr>))
     in if rx_flag m 0x00000200 then Some (True, vap, finish m)
        else
          case (if has_flag (wk_flags k) KEY_SWDECRYPT then wep_decrypt_frame hdrlen (vap, k, m)
                else Some (True, vap, m)) of
            None \<Rightarrow> None
          | Some (ok, vap, m) \<Rightarrow>
              if \<not> ok then
                Some (False, stat (\<lambda>s. s\<lparr>is_rx_wepfail := is_rx_wepfail s + 1\<rparr>) vap, m)
              else (case strip m of None \<Rightarrow> None | Some m \<Rightarrow> Some (True, vap, finish m)))"

end
