(* ===== verification/WepProps.thy ===== *)
theory WepProps
  imports Wep
begin

text \<open>
  Properties of the WEP module: the flat effect of encapsulation and decapsulation and the
  round trip they give, the integrity check, and the initial vectors (none of the weak
  classes on a little-endian host, no vector used twice for a bounded number of frames).
\<close>

section \<open>The flat effect of the operations\<close>

definition wep_body_stream :: "ieee80211_key \<Rightarrow> u8 list \<Rightarrow> rc4" where
  "wep_body_stream k iv = wep_key_stream (wk_keylen k) (take 3 iv @ take (wk_keylen k) (wk_key k))"

definition wep_exempt :: "ieee80211_key \<Rightarrow> u8 list \<Rightarrow> bool" where
  "wep_exempt k wh \<longleftrightarrow>
     (if IEEE80211_IS_MGMT wh then has_flag (wk_flags k) KEY_NOIVMGT else has_flag (wk_flags k) KEY_NOIV)"

lemma length_wep_setiv [simp]: "length (snd (wep_setiv be k ctx)) = 4"
  by (simp add: wep_setiv_def Let_def)

lemma wep_rc4key_iv:
  assumes "take (h + 4) wh = hdr @ iv" "length hdr = h" "length iv = 4" "wk_keylen k \<le> 16"
  shows "wep_rc4key k h wh = Some (take 3 iv @ take (wk_keylen k) (wk_key k))"
proof -
  have l: "h + 4 \<le> length wh"
    using arg_cong [OF assms(1), of length] assms(2,3) by simp
  have "take 3 (drop h (take (h + 4) wh)) = take 3 iv"
    by (simp only: assms(1)) (simp add: assms(2))
  then have "take 3 (drop h wh) = take 3 iv" by (simp add: drop_take)
  with l assms(4) show ?thesis by (simp add: wep_rc4key_def)
qed

lemma wep_encap_flat:
  assumes env: "prepends pre" "appends app" "\<forall>segs n. pre segs n \<noteq> None"
      "\<forall>segs bs. app segs bs \<noteq> None"
    and m: "m_segs m \<noteq> []" "h = ieee80211_hdrspace (ic_flags vap) (mtod m)" "h \<le> length (mtod m)"
      "pktlen (m_segs m) + 4 < 2 ^ 32"
    and k: "\<not> wep_exempt k (mtod m)" "has_flag (wk_flags k) KEY_SWENCRYPT" "wk_keylen k \<le> 16"
    and iv_def: "iv = snd (wep_setiv be k ctx)"
  shows "\<exists>vap' m'. wep_encap be pre app (vap, k, ctx, m) =
      Some (True, vap', fst (wep_setiv be k ctx), m') \<and>
    concat (m_segs m') = take h (concat (m_segs m)) @ iv @
      wep_seal (wep_body_stream k iv) (drop h (concat (m_segs m)))"
proof -
  obtain segs0 where p: "pre (m_segs m) 4 = Some segs0" using env(3) by fastforce
  obtain junk where j: "length junk = 4" "segs0 = (junk @ mtod m) # tl (m_segs m)"
    using env(1) p m(1) unfolding prepends_def by blast
  have iv4: "length iv = 4" by (simp add: iv_def)
  define first where "first = take h (mtod m) @ iv @ drop h (mtod m)"
  define segs where "segs = first # tl (m_segs m)"
  have ins: "splice (splice (hd segs0) 0 (take h (drop 4 (hd segs0)))) h iv = first"
    using insert_bytes [of junk iv h "mtod m"] m(3) j iv4 by (simp add: first_def)
  have cs: "concat segs = take h (concat (m_segs m)) @ iv @ drop h (concat (m_segs m))"
    using m(1,3) by (simp add: segs_def first_def concat_hd_tl)
  have hl: "h \<le> length (concat (m_segs m))" using m(1,3) by (simp add: concat_hd_tl)
  have n: "u_int_diff (pktlen segs) (h + 4) = pktlen segs - (h + 4)"
    by (rule u_int_diff_eq) (use m(4) hl iv4 in \<open>simp_all add: pktlen_def cs\<close>)
  have key: "wep_rc4key k h first = Some (take 3 iv @ take (wk_keylen k) (wk_key k))"
    by (rule wep_rc4key_iv [of _ _ "take h (mtod m)"]) (use m(3) iv4 k(3) in \<open>simp_all add: first_def\<close>)
  obtain segs1 icv where e: "encrypt_data (wep_body_stream k iv) segs (h + 4) (pktlen segs - (h + 4)) =
      Some (0, segs1, icv)"
    "take (h + 4) (concat segs1) = take (h + 4) (concat segs)"
    "drop (h + 4) (concat segs1) @ icv = wep_seal (wep_body_stream k iv) (drop (h + 4) (concat segs))"
    "map length segs1 = map length segs"
    using encrypt_data_flat [of segs "h + 4" "wep_body_stream k iv"] m(3) iv4
    by (auto simp: segs_def first_def)
  obtain segs2 where a: "app segs1 icv = Some segs2" using env(4) by fastforce
  have "segs1 \<noteq> []" using e(4) by (auto simp: segs_def)
  with env(2) a have c2: "concat segs2 = concat segs1 @ icv" unfolding appends_def by blast
  have "concat segs2 = take (h + 4) (concat segs) @
      wep_seal (wep_body_stream k iv) (drop (h + 4) (concat segs))"
    unfolding c2 e(2,3) [symmetric] by simp
  then have flat: "concat segs2 = take h (concat (m_segs m)) @ iv @
      wep_seal (wep_body_stream k iv) (drop h (concat (m_segs m)))"
    using hl iv4 by (simp add: cs)
  obtain ctx' where si: "wep_setiv be k ctx = (ctx', iv)" by (metis iv_def prod.collapse)
  define vap' where "vap' = stat (\<lambda>s. s\<lparr>is_crypto_wep := is_crypto_wep s + 1\<rparr>) vap"
  have enc: "wep_encrypt_frame app h (vap, k, m\<lparr>m_segs := segs\<rparr>) =
      Some (True, vap', m\<lparr>m_segs := segs2\<rparr>)"
    using key n e(1) a
    by (simp add: wep_encrypt_frame_def Let_def wep_body_stream_def vap'_def) (simp add: segs_def)
  have ex: "\<not> (IEEE80211_IS_MGMT (mtod m) \<and> has_flag (wk_flags k) KEY_NOIVMGT)"
    "\<not> (\<not> IEEE80211_IS_MGMT (mtod m) \<and> has_flag (wk_flags k) KEY_NOIV)"
    using k(1) by (auto simp: wep_exempt_def)
  have len0: "\<not> (segs0 = [] \<or> length (hd segs0) < 4 + h)" "tl segs0 = tl (m_segs m)"
    using j m(3) by simp_all
  have w: "wep_encap be pre app (vap, k, ctx, m) = Some (True, vap', ctx', m\<lparr>m_segs := segs2\<rparr>)"
    unfolding wep_encap_def prod.case Let_def m(2) [symmetric] p option.case si ins len0(2)
      segs_def [symmetric] if_not_P [OF ex(1)] if_not_P [OF ex(2)] if_not_P [OF len0(1)]
    by (simp add: k(2) enc)
  show ?thesis
    by (rule exI [of _ vap'], rule exI [of _ "m\<lparr>m_segs := segs2\<rparr>"]) (simp add: w flat si)
qed

lemma wep_decap_flat:
  assumes m: "m_segs m \<noteq> []" "h + 4 \<le> length (mtod m)" "0 < h" "\<not> rx_flag m 0x200"
      "pktlen (m_segs m) < 2 ^ 32"
      "4 \<le> length (last (drop (h + 4) (mtod m) # tl (m_segs m)))"
    and k: "has_flag (wk_flags k) KEY_SWDECRYPT" "wk_keylen k \<le> 16"
  defines "C \<equiv> concat (m_segs m)"
  defines "plain \<equiv> wep_open (wep_body_stream k (take 4 (drop h C))) (drop (h + 4) C)"
  shows "\<exists>vap' m'. wep_decap h (vap, k, m) = Some (wep_ok plain, vap', m') \<and>
    (wep_ok plain \<longrightarrow> concat (m_segs m') = take h C @ take (length C - h - 8) plain) \<and>
    is_rx_wepfail (iv_stats vap') = is_rx_wepfail (iv_stats vap) + (if wep_ok plain then 0 else 1)"
proof -
  have h1: "take (h + 4) (mtod m) = take h (mtod m) @ take 4 (drop h C)"
    using m(1,2) by (simp add: C_def concat_hd_tl take_add)
  have key: "wep_rc4key k h (mtod m) = Some (take 3 (take 4 (drop h C)) @ take (wk_keylen k) (wk_key k))"
    by (rule wep_rc4key_iv [OF h1]) (use m(1,2) k(2) in \<open>simp_all add: C_def concat_hd_tl\<close>)
  obtain segs st crc pos where
    d: "decrypt_data (wep_body_stream k (take 4 (drop h C))) (m_segs m) (h + 4)
        (pktlen (m_segs m) - (h + 4 + 4)) = Some (0, segs, st, crc, pos)"
    and c: "icv_check st (bytes_le32 (NOT crc)) pos = Some (wep_ok plain)"
    and r: "take (h + 4) (hd segs) = take (h + 4) (mtod m)"
      "take (length C - 4) (concat segs) =
        take (h + 4) C @ take (length C - (h + 4) - 4) plain"
      "map length segs = map length (m_segs m)"
    using decrypt_data_flat [OF m(1,2,6), of "wep_body_stream k (take 4 (drop h C))"]
    unfolding C_def [symmetric] plain_def [symmetric] by blast
  have C8: "h + 4 + 4 \<le> length C"
  proof -
    have "C = take (h + 4) (mtod m) @ concat (drop (h + 4) (mtod m) # tl (m_segs m))"
      using m(1) by (simp add: C_def concat_hd_tl flip: append_assoc)
    moreover have "4 \<le> length (concat (drop (h + 4) (mtod m) # tl (m_segs m)))"
      by (rule order.trans [OF m(6)], rule length_last_concat) simp
    ultimately show ?thesis using m(2) by simp
  qed
  have n: "u_int_diff (pktlen (m_segs m)) (h + 4 + 4) = pktlen (m_segs m) - (h + 4 + 4)"
    by (rule u_int_diff_eq) (use m(5) C8 in \<open>simp_all add: pktlen_def C_def\<close>)
  have dec: "wep_decrypt_frame h (vap, k, m) =
      Some (wep_ok plain, stat (\<lambda>s. s\<lparr>is_crypto_wep := is_crypto_wep s + 1\<rparr>) vap, m\<lparr>m_segs := segs\<rparr>)"
    using key d c n by (simp add: wep_decrypt_frame_def Let_def wep_body_stream_def)
  have segs: "segs \<noteq> []" "length (hd segs) = length (mtod m)" "length (concat segs) = length C"
    unfolding C_def using same_lengths [OF r(3) m(1)] by blast+
  have ss: "h + 4 \<le> length (hd segs)" "h + 4 + 4 \<le> pktlen segs"
    using segs m(2) C8 by (simp_all add: pktlen_def)
  have p1: "take h (concat segs) = take h C"
  proof -
    have "take h (take (length C - 4) (concat segs)) = take h C" using C8 by (simp add: r(2))
    then show ?thesis using C8 by (simp add: min_def split: if_splits)
  qed
  have p2: "take (pktlen segs - (h + 4 + 4)) (drop (h + 4) (concat segs)) = take (length C - h - 8) plain"
  proof -
    have "drop (h + 4) (take (length C - 4) (concat segs)) = take (length C - (h + 4) - 4) plain"
      using C8 by (simp add: r(2))
    then show ?thesis using C8 segs(3) by (simp add: drop_take pktlen_def add.commute [of h 8])
  qed
  note st = strip_trim [OF segs(1) ss(1) m(3) ss(2), unfolded p1 p2]
  show ?thesis
    using dec m(4) k(1) ss(1) st
    by (cases "wep_ok plain") (auto simp: wep_decap_def Let_def stat_def not_less simp del: m_adj_front.simps)
qed

section \<open>Round trip and integrity\<close>

text \<open>
  C23. What \<open>wep_encap\<close> protects \<open>wep_decap\<close> gives back, byte for byte: a frame the key does not
  exempt, however the sender's mbufs are cut, is accepted by a receiver with the same key,
  however its mbufs are cut as long as header and vector are in the first mbuf and the
  check value in the last one.
\<close>

theorem wep_roundtrip:
  assumes env: "prepends pre" "appends app" "\<forall>segs n. pre segs n \<noteq> None"
      "\<forall>segs bs. app segs bs \<noteq> None"
    and m: "m_segs m \<noteq> []" "h = ieee80211_hdrspace (ic_flags vs) (mtod m)" "h \<le> length (mtod m)"
      "pktlen (m_segs m) + 8 < 2 ^ 32"
    and ks: "\<not> wep_exempt ks (mtod m)" "has_flag (wk_flags ks) KEY_SWENCRYPT" "wk_keylen ks \<le> 16"
    and kr: "has_flag (wk_flags kr) KEY_SWDECRYPT" "wk_keylen kr = wk_keylen ks"
      "take (wk_keylen ks) (wk_key kr) = take (wk_keylen ks) (wk_key ks)"
  shows "\<exists>vs' ctx' m'. wep_encap be pre app (vs, ks, ctx, m) = Some (True, vs', ctx', m') \<and>
    (\<forall>mr. concat (m_segs mr) = concat (m_segs m') \<longrightarrow> m_segs mr \<noteq> [] \<longrightarrow> \<not> rx_flag mr 0x200 \<longrightarrow>
       h + 4 \<le> length (mtod mr) \<longrightarrow> 4 \<le> length (last (drop (h + 4) (mtod mr) # tl (m_segs mr))) \<longrightarrow>
       (\<exists>vr' mr'. wep_decap h (vr, kr, mr) = Some (True, vr', mr') \<and>
          concat (m_segs mr') = concat (m_segs m)))"
proof -
  define D where "D = concat (m_segs m)"
  define iv where "iv = snd (wep_setiv be ks ctx)"
  have hD: "h \<le> length D" using m(1,3) by (simp add: D_def concat_hd_tl)
  have "pktlen (m_segs m) + 4 < 2 ^ 32" using m(4) by simp
  from wep_encap_flat [OF env m(1,2,3) this ks iv_def]
  obtain vs' m' where e: "wep_encap be pre app (vs, ks, ctx, m) =
      Some (True, vs', fst (wep_setiv be ks ctx), m')"
    and c: "concat (m_segs m') = take h D @ iv @ wep_seal (wep_body_stream ks iv) (drop h D)"
    unfolding D_def by blast
  have st: "wep_body_stream kr iv = wep_body_stream ks iv"
    using kr by (simp add: wep_body_stream_def)
  have recv: "\<exists>vr' mr'. wep_decap h (vr, kr, mr) = Some (True, vr', mr') \<and>
      concat (m_segs mr') = concat (m_segs m)"
    if r: "concat (m_segs mr) = concat (m_segs m')" "m_segs mr \<noteq> []" "\<not> rx_flag mr 0x200"
      "h + 4 \<le> length (mtod mr)" "4 \<le> length (last (drop (h + 4) (mtod mr) # tl (m_segs mr)))"
    for mr
  proof -
    define C where "C = concat (m_segs mr)"
    have C: "C = take h D @ iv @ wep_seal (wep_body_stream ks iv) (drop h D)"
      by (simp only: C_def r(1) c)
    have lh: "length (take h D) = h" and liv: "length iv = 4" using hD by (simp_all add: iv_def)
    have parts: "take h C = take h D" "take 4 (drop h C) = iv"
      "drop (h + 4) C = wep_seal (wep_body_stream ks iv) (drop h D)" "length C - h - 8 = length D - h"
      using lh liv by (simp_all add: C)
    have pl: "pktlen (m_segs mr) < 2 ^ 32" "0 < h"
      using m(2,4) hD hdrspace_bounds(1) [of "ic_flags vs" "mtod m"]
      by (simp_all add: pktlen_def C_def [symmetric] C liv D_def)
    have kl: "wk_keylen kr \<le> 16" using kr(2) ks(3) by simp
    from wep_decap_flat [OF r(2,4) pl(2) r(3) pl(1) r(5) kr(1) kl, of vr]
    show ?thesis
      unfolding C_def [symmetric] parts st D_def [symmetric] by auto
  qed
  show ?thesis
    by (rule exI, rule exI, rule exI, rule conjI, rule e) (intro allI impI, rule recv)
qed

text \<open>The hypotheses hold for a frame of two mbufs, received in one.\<close>

theorem wep_roundtrip_witness:
  "\<exists>vs' ctx' m' vr' mr'.
    wep_encap True (\<lambda>segs n. Some ((replicate n 0 @ hd segs) # tl segs)) (\<lambda>segs bs. Some (segs @ [bs]))
      (ex_vap, ex_key 0, \<lparr>wc_iv = 0x03ff00\<rparr>, ex_frame) = Some (True, vs', ctx', m') \<and>
    wep_decap 26 (ex_vap, ex_key 9, \<lparr>m_segs = [concat (m_segs m')], m_rxs = None, m_flags = 0\<rparr>) =
      Some (True, vr', mr') \<and> concat (m_segs mr') = concat (m_segs ex_frame)"
proof -
  have k: "\<not> wep_exempt (ex_key 0) (mtod ex_frame)" "has_flag (wk_flags (ex_key 0)) KEY_SWENCRYPT"
    "wk_keylen (ex_key 0) \<le> 16" "has_flag (wk_flags (ex_key 9)) KEY_SWDECRYPT"
    "wk_keylen (ex_key 9) = wk_keylen (ex_key 0)"
    "take (wk_keylen (ex_key 0)) (wk_key (ex_key 9)) = take (wk_keylen (ex_key 0)) (wk_key (ex_key 0))"
    by (simp_all add: wep_exempt_def has_flag_def ex_key_def KEY_NOIV_def KEY_NOIVMGT_def
        KEY_SWENCRYPT_def KEY_SWDECRYPT_def)
  have f: "m_segs ex_frame \<noteq> []" "26 \<le> length (mtod ex_frame)"
    "pktlen (m_segs ex_frame) + 8 < 2 ^ 32"
    by (simp_all add: ex_frame_def pktlen_def)
  have p: "\<forall>segs n. (\<lambda>segs n. Some ((replicate n 0 @ hd segs) # tl segs)) segs n \<noteq> (None :: u8 list list option)"
    "\<forall>segs bs. (\<lambda>segs bs. Some (segs @ [bs])) segs bs \<noteq> (None :: u8 list list option)" by simp_all
  obtain vs' ctx' m' where e:
    "wep_encap True (\<lambda>segs n. Some ((replicate n 0 @ hd segs) # tl segs)) (\<lambda>segs bs. Some (segs @ [bs]))
      (ex_vap, ex_key 0, \<lparr>wc_iv = 0x03ff00\<rparr>, ex_frame) = Some (True, vs', ctx', m')"
    and r: "\<And>mr. concat (m_segs mr) = concat (m_segs m') \<Longrightarrow> m_segs mr \<noteq> [] \<Longrightarrow> \<not> rx_flag mr 0x200 \<Longrightarrow>
       26 + 4 \<le> length (mtod mr) \<Longrightarrow> 4 \<le> length (last (drop (26 + 4) (mtod mr) # tl (m_segs mr))) \<Longrightarrow>
       \<exists>vr' mr'. wep_decap 26 (ex_vap, ex_key 9, mr) = Some (True, vr', mr') \<and>
          concat (m_segs mr') = concat (m_segs ex_frame)"
    using wep_roundtrip [OF prepends_front appends_at_end p f(1) ex_frame_hdrspace [symmetric] f(2,3)
        k(1-6), of True "\<lparr>wc_iv = 0x03ff00\<rparr>" ex_vap] by blast
  have "length (concat (m_segs m')) = 39"
    using wep_encap_flat [OF prepends_front appends_at_end p f(1) ex_frame_hdrspace [symmetric] f(2) _
        k(1-3) refl, of True "\<lparr>wc_iv = 0x03ff00\<rparr>"] e
    by (auto simp: ex_frame_def pktlen_def)
  with r [of "\<lparr>m_segs = [concat (m_segs m')], m_rxs = None, m_flags = 0\<rparr>"] e show ?thesis
    by (auto simp: rx_flag_def)
qed

text \<open>
  C34. The integrity check: \<open>wep_decap\<close> accepts a frame exactly if the last four octets of the
  decrypted body are the complement of the CRC-32 of the rest, computed bit by bit; the
  failures are counted, and an accepted frame is the header followed by the plain body.
\<close>

theorem wep_decap_integrity:
  assumes m: "m_segs m \<noteq> []" "h + 4 \<le> length (mtod m)" "0 < h" "\<not> rx_flag m 0x200"
      "pktlen (m_segs m) < 2 ^ 32"
      "4 \<le> length (last (drop (h + 4) (mtod m) # tl (m_segs m)))"
    and k: "has_flag (wk_flags k) KEY_SWDECRYPT" "wk_keylen k \<le> 16"
    and plain: "plain @ icv = snd (rc4_xor (wep_key_stream (wk_keylen k)
      (take 3 (drop h (mtod m)) @ take (wk_keylen k) (wk_key k))) (drop (h + 4) (concat (m_segs m))))"
      "length icv = 4"
  shows "\<exists>ok vap' m'. wep_decap h (vap, k, m) = Some (ok, vap', m') \<and>
    ok = (icv = bytes_le32 (NOT (crc_ref (NOT 0) plain))) \<and>
    (ok \<longrightarrow> concat (m_segs m') = take h (mtod m) @ plain) \<and>
    is_rx_wepfail (iv_stats vap') = is_rx_wepfail (iv_stats vap) + (if ok then 0 else 1)"
proof -
  define C where "C = concat (m_segs m)"
  have hd: "take 3 (take 4 (drop h C)) = take 3 (drop h (mtod m))" "take h C = take h (mtod m)"
    using m(1,2) by (simp_all add: C_def concat_hd_tl)
  have op: "wep_open (wep_body_stream k (take 4 (drop h C))) (drop (h + 4) C) = plain @ icv"
    by (simp only: wep_open_def wep_body_stream_def hd plain(1) C_def [symmetric])
  have "length (plain @ icv) = length C - (h + 4)"
    unfolding op [symmetric] by simp
  then have len: "length C - h - 8 = length plain" using plain(2) by simp
  have "wep_ok (plain @ icv) = (icv = bytes_le32 (NOT (crc_ref (NOT 0) plain)))"
    using plain(2) by (simp add: wep_ok_def wep_icv_def crc32_ref)
  then show ?thesis
    using wep_decap_flat [OF m k, of vap] unfolding C_def [symmetric] op len hd by auto
qed

text \<open>The hypotheses hold for an eleven octet body under an arbitrary key.\<close>

definition ex_wep_rx :: mbuf where
  "ex_wep_rx = \<lparr>m_segs = [replicate 24 8 @ [1, 2, 3, 0] @ replicate 15 9], m_rxs = None, m_flags = 0\<rparr>"

theorem wep_decap_integrity_witness:
  "\<exists>plain icv ok vap' m'. length icv = 4 \<and> length plain = 11 \<and>
    wep_decap 24 (ex_vap, ex_key 0, ex_wep_rx) = Some (ok, vap', m') \<and>
    ok = (icv = bytes_le32 (NOT (crc_ref (NOT 0) plain))) \<and>
    is_rx_wepfail (iv_stats vap') = (if ok then 0 else 1)"
proof -
  define X where "X = snd (rc4_xor (wep_key_stream (wk_keylen (ex_key 0))
    (take 3 (drop 24 (mtod ex_wep_rx)) @ take (wk_keylen (ex_key 0)) (wk_key (ex_key 0))))
    (drop (24 + 4) (concat (m_segs ex_wep_rx))))"
  have lX: "length X = 15" by (simp add: X_def ex_wep_rx_def)
  have sp: "take 11 X @ drop 11 X = X" "length (drop 11 X) = 4" "length (take 11 X) = 11"
    using lX by simp_all
  have m: "m_segs ex_wep_rx \<noteq> []" "24 + 4 \<le> length (mtod ex_wep_rx)" "(0 :: nat) < 24"
    "\<not> rx_flag ex_wep_rx 0x200" "pktlen (m_segs ex_wep_rx) < 2 ^ 32"
    "4 \<le> length (last (drop (24 + 4) (mtod ex_wep_rx) # tl (m_segs ex_wep_rx)))"
    "has_flag (wk_flags (ex_key 0)) KEY_SWDECRYPT" "wk_keylen (ex_key 0) \<le> 16"
    by (simp_all add: ex_wep_rx_def rx_flag_def pktlen_def has_flag_def ex_key_def KEY_SWDECRYPT_def)
  have st: "is_rx_wepfail (iv_stats ex_vap) = 0" by (simp add: ex_vap_def)
  obtain ok vap' m' where r: "wep_decap 24 (ex_vap, ex_key 0, ex_wep_rx) = Some (ok, vap', m')"
    "ok = (drop 11 X = bytes_le32 (NOT (crc_ref (NOT 0) (take 11 X))))"
    "is_rx_wepfail (iv_stats vap') = is_rx_wepfail (iv_stats ex_vap) + (if ok then 0 else 1)"
    using wep_decap_integrity [OF m sp(1) [unfolded X_def] sp(2) [unfolded X_def], of ex_vap]
    unfolding X_def [symmetric] by blast
  show ?thesis
    by (rule exI [of _ "take 11 X"], rule exI [of _ "drop 11 X"], rule exI [of _ ok],
        rule exI [of _ vap'], rule exI [of _ m'])
      (intro conjI sp(2,3) r(1,2) trans [OF r(3)], simp add: st)
qed

section \<open>The initial vectors\<close>

text \<open>The vectors of \<open>n\<close> frames in a row.\<close>

fun wep_iv_run :: "bool \<Rightarrow> ieee80211_key \<Rightarrow> wep_ctx \<Rightarrow> nat \<Rightarrow> u8 list list" where
  "wep_iv_run be k ctx 0 = []"
| "wep_iv_run be k ctx (Suc n) = (case wep_setiv be k ctx of (ctx, iv) \<Rightarrow> iv # wep_iv_run be k ctx n)"

definition weak_iv :: "u8 list \<Rightarrow> bool" where
  "weak_iv iv \<longleftrightarrow> 3 \<le> iv ! 0 \<and> iv ! 0 < 16 \<and> iv ! 1 = 0xff"

lemma unat_ucast_u8: "unat (ucast (x :: u8) :: u32) = unat x"
proof -
  have "unat x < 2 ^ 32" by (rule order.strict_trans [OF unsigned_less]) simp
  then show ?thesis by (simp add: unsigned_ucast_eq take_bit_nat_eq_self)
qed

lemma iv_second_byte: "iv AND 0xff00 = (0xff00 :: u32) \<longleftrightarrow> ucast (drop_bit 8 iv) = (0xff :: u8)"
proof -
  have "iv AND 0xff00 = push_bit 8 (ucast (ucast (drop_bit 8 iv) :: u8))"
  proof (rule bit_word_eqI)
    fix n assume "n < LENGTH(32)"
    have m: "(0xff00 :: u32) = push_bit 8 (mask 8)" by (simp add: mask_eq_exp_minus_1 push_bit_eq_mult)
    show "bit (iv AND 0xff00) n = bit (push_bit 8 (ucast (ucast (drop_bit 8 iv) :: u8)) :: u32) n"
      by (auto simp: m bit_simps)
  qed
  moreover have "push_bit 8 (ucast x) = (0xff00 :: u32) \<longleftrightarrow> x = 0xff" for x :: u8
  proof
    assume "push_bit 8 (ucast x) = (0xff00 :: u32)"
    then have "drop_bit 8 (push_bit 8 (ucast x)) = drop_bit 8 (0xff00 :: u32)" by simp
    moreover have "drop_bit 8 (push_bit 8 (ucast x)) = (ucast x :: u32)"
      by (rule bit_word_eqI) (auto simp: bit_simps dest: bit_bounds)
    ultimately have "(ucast x :: u32) = 0xff" by simp
    then have "unat (ucast x :: u32) = 255" by simp
    moreover have "unat (ucast x :: u32) = unat x"
      by (rule unat_ucast_u8)
    ultimately have "unat x = unat (0xff :: u8)" by simp
    then show "x = 0xff" by (rule unsigned_word_eqI)
  qed simp
  ultimately show ?thesis by simp
qed

lemma iv_first_byte: "drop_bit 16 (iv AND 0xff0000) = (ucast (ucast (drop_bit 16 iv) :: u8) :: u32)"
proof (rule bit_word_eqI)
  fix n assume "n < LENGTH(32)"
  have m: "(0xff0000 :: u32) = push_bit 16 (mask 8)" by (simp add: mask_eq_exp_minus_1 push_bit_eq_mult)
  show "bit (drop_bit 16 (iv AND 0xff0000)) n = bit (ucast (ucast (drop_bit 16 iv) :: u8) :: u32) n"
    by (auto simp: m bit_simps)
qed

lemma iv_weak_skip:
  "3 \<le> drop_bit 16 (iv AND 0xff0000) \<and> drop_bit 16 (iv AND 0xff0000) < (16 :: u32) \<longleftrightarrow>
     3 \<le> (ucast (drop_bit 16 iv) :: u8) \<and> (ucast (drop_bit 16 iv) :: u8) < 16"
  by (simp only: iv_first_byte word_le_nat_alt word_less_nat_alt unat_ucast_u8) simp

lemma next_second_byte: "(ucast (drop_bit 8 (iv + 0x100 :: u32)) :: u8) = ucast (drop_bit 8 iv) + 1"
proof (rule unsigned_word_eqI)
  have byte: "unat (ucast (drop_bit 8 x) :: u8) = take_bit 8 (drop_bit 8 (unat x))" for x :: u32
    by (simp add: unsigned_ucast_eq unsigned_drop_bit_eq drop_bit_take_bit)
  have d: "drop_bit 8 (n + 256) = drop_bit 8 n + (1 :: nat)" for n
    by (simp add: drop_bit_eq_div)
  have "unat (iv + 0x100) = take_bit 32 (unat iv + 256)"
    by (simp add: unat_word_ariths take_bit_eq_mod)
  then have "unat (ucast (drop_bit 8 (iv + 0x100)) :: u8) = take_bit 8 (drop_bit 8 (unat iv) + 1)"
    by (simp add: byte drop_bit_take_bit d)
  also have "\<dots> = take_bit 8 (unat (ucast (drop_bit 8 iv) :: u8) + 1)"
    by (simp only: byte take_bit_eq_mod mod_add_left_eq)
  also have "\<dots> = unat (ucast (drop_bit 8 iv) + 1 :: u8)"
    by (simp add: unat_word_ariths take_bit_eq_mod)
  finally show "unat (ucast (drop_bit 8 (iv + 0x100)) :: u8) = unat (ucast (drop_bit 8 iv) + 1 :: u8)" .
qed

lemma skip_weak_iv_strong:
  "\<not> (3 \<le> (ucast (drop_bit 16 (skip_weak_iv iv)) :: u8) \<and> (ucast (drop_bit 16 (skip_weak_iv iv)) :: u8) < 16 \<and>
     (ucast (drop_bit 8 (skip_weak_iv iv)) :: u8) = 0xff)"
proof (cases "skip_weak_iv iv = iv + 0x100")
  case True
  then have "iv AND 0xff00 = 0xff00" by (auto simp: skip_weak_iv_def split: if_splits)
  then have "ucast (drop_bit 8 iv) = (0xff :: u8)" by (simp only: iv_second_byte)
  then have "(ucast (drop_bit 8 (skip_weak_iv iv)) :: u8) = 0xff + 1" by (simp only: True next_second_byte)
  then show ?thesis by simp
next
  case False
  then have "skip_weak_iv iv = iv" by (auto simp: skip_weak_iv_def Let_def split: if_splits)
  with False show ?thesis
    using iv_weak_skip [of iv] iv_second_byte [of iv]
    by (auto simp: skip_weak_iv_def Let_def split: if_splits)
qed

lemma wep_setiv_not_weak: "\<not> weak_iv (snd (wep_setiv False k ctx))"
  using skip_weak_iv_strong [of "wc_iv ctx"] by (simp add: weak_iv_def wep_setiv_def Let_def)

text \<open>The vectors of a run, as offsets from the counter the run starts at.\<close>

definition iv_bytes :: "bool \<Rightarrow> u8 \<Rightarrow> u32 \<Rightarrow> u8 list" where
  "iv_bytes be keyid iv =
     (if be then [ucast iv, ucast (drop_bit 8 iv), ucast (drop_bit 16 iv), keyid]
      else [ucast (drop_bit 16 iv), ucast (drop_bit 8 iv), ucast iv, keyid])"

lemma wep_iv_run_offsets:
  "\<exists>ds. wep_iv_run be k ctx n =
      map (\<lambda>d. iv_bytes be (push_bit 6 (ieee80211_crypto_get_keyid k)) (wc_iv ctx + word_of_nat d)) ds \<and>
    sorted_wrt (<) ds \<and> (\<forall>d\<in>set ds. d < 257 * n) \<and> length ds = n"
proof (induction n arbitrary: ctx)
  case 0
  show ?case by (rule exI [of _ "[]"]) simp
next
  case (Suc n)
  define e :: nat where "e = (if skip_weak_iv (wc_iv ctx) = wc_iv ctx then 0 else 256)"
  have e: "skip_weak_iv (wc_iv ctx) = wc_iv ctx + word_of_nat e" "e \<le> 256"
    by (auto simp: e_def skip_weak_iv_def Let_def split: if_splits)
  define ctx1 where "ctx1 = fst (wep_setiv be k ctx)"
  have c1: "wc_iv ctx1 = wc_iv ctx + word_of_nat (e + 1)"
    by (simp add: ctx1_def wep_setiv_def Let_def e(1))
  have iv: "snd (wep_setiv be k ctx) =
      iv_bytes be (push_bit 6 (ieee80211_crypto_get_keyid k)) (wc_iv ctx + word_of_nat e)"
    by (simp add: wep_setiv_def iv_bytes_def Let_def e(1))
  obtain ds where ds: "wep_iv_run be k ctx1 n =
      map (\<lambda>d. iv_bytes be (push_bit 6 (ieee80211_crypto_get_keyid k)) (wc_iv ctx1 + word_of_nat d)) ds"
    "sorted_wrt (<) ds" "\<forall>d\<in>set ds. d < 257 * n" "length ds = n"
    using Suc.IH by blast
  have "wep_iv_run be k ctx (Suc n) = snd (wep_setiv be k ctx) # wep_iv_run be k ctx1 n"
    by (simp add: ctx1_def split_beta)
  then have "wep_iv_run be k ctx (Suc n) =
      map (\<lambda>d. iv_bytes be (push_bit 6 (ieee80211_crypto_get_keyid k)) (wc_iv ctx + word_of_nat d))
        (e # map (\<lambda>d. e + 1 + d) ds)"
    by (simp add: iv ds(1) c1 add.assoc)
  moreover have "sorted_wrt (<) (e # map (\<lambda>d. e + 1 + d) ds)"
    using ds(2) by (auto simp: sorted_wrt_map)
  moreover have "\<forall>d\<in>set (e # map (\<lambda>d. e + 1 + d) ds). d < 257 * Suc n"
    using ds(3) e(2) by fastforce
  ultimately show ?case
    using ds(4) by (intro exI [of _ "e # map (\<lambda>d. e + 1 + d) ds"]) simp
qed

lemma iv_bytes_inj:
  assumes "iv_bytes be keyid a = iv_bytes be keyid b"
  shows "take_bit 24 a = take_bit 24 b"
proof (rule bit_word_eqI)
  have e: "(ucast a :: u8) = ucast b" "(ucast (drop_bit 8 a) :: u8) = ucast (drop_bit 8 b)"
    "(ucast (drop_bit 16 a) :: u8) = ucast (drop_bit 16 b)"
    using assms by (auto simp: iv_bytes_def split: if_splits)
  have byte: "bit a n = bit b n"
    if "(ucast (drop_bit k a) :: u8) = ucast (drop_bit k b)" "k \<le> n" "n < k + 8" for k n
    using arg_cong [OF that(1), of "\<lambda>w. bit w (n - k)"] that(2,3)
    by (simp add: bit_simps less_diff_conv2)
  fix n assume "n < LENGTH(32)"
  consider "n < 8" | "8 \<le> n \<and> n < 16" | "16 \<le> n \<and> n < 24" | "24 \<le> n" by arith
  then show "bit (take_bit 24 a) n = bit (take_bit 24 b) n"
    using byte [of 0 n] byte [of 8 n] byte [of 16 n] e
    by cases (simp_all add: bit_take_bit_iff)
qed

lemma mod_add_inj:
  assumes "(u + a) mod m = (u + b) mod m" "a < m" "b < m"
  shows "a = (b :: nat)"
proof -
  have "int m dvd int a - int b"
    using arg_cong [OF assms(1), of int] by (simp add: zmod_int mod_eq_dvd_iff)
  moreover have "\<bar>int a - int b\<bar> < int m" using assms(2,3) by linarith
  ultimately show ?thesis using dvd_imp_le_int [of "int a - int b" "int m"] by fastforce
qed

lemma iv_bytes_offset_inj:
  assumes "iv_bytes be keyid (x + word_of_nat a) = iv_bytes be keyid (x + word_of_nat b)"
    and "a < 2 ^ 24" "b < 2 ^ 24"
  shows "a = b"
proof -
  have t: "unat (take_bit 24 (x + word_of_nat d)) = (unat x + d) mod 2 ^ 24" for d
  proof -
    have "unat (x + word_of_nat d) = take_bit 32 (unat x + d)"
      by (simp add: unat_word_ariths take_bit_eq_mod unsigned_of_nat mod_add_right_eq)
    then show ?thesis by (simp add: unsigned_take_bit_eq) (simp add: take_bit_eq_mod)
  qed
  have m: "(unat x + a) mod 2 ^ 24 = (unat x + b) mod 2 ^ 24"
    unfolding t [symmetric] iv_bytes_inj [OF assms(1)] ..
  show ?thesis by (rule mod_add_inj [OF m assms(2,3)])
qed

text \<open>
  C33. The initial vectors of the frames a key encrypts are pairwise distinct for as many
  frames as the skips leave room for in the 24 bits of the vector, and on a little-endian
  host none of them is in the class of weak vectors the code means to avoid.
\<close>

theorem wep_iv_sequence:
  assumes "257 * n \<le> 2 ^ 24"
  shows "distinct (wep_iv_run be k ctx n) \<and> length (wep_iv_run be k ctx n) = n \<and>
    (\<forall>iv \<in> set (wep_iv_run False k ctx n). \<not> weak_iv iv)"
proof -
  obtain ds where ds: "wep_iv_run be k ctx n =
      map (\<lambda>d. iv_bytes be (push_bit 6 (ieee80211_crypto_get_keyid k)) (wc_iv ctx + word_of_nat d)) ds"
    "sorted_wrt (<) ds" "\<forall>d\<in>set ds. d < 257 * n" "length ds = n"
    using wep_iv_run_offsets by blast
  have "inj_on (\<lambda>d. iv_bytes be (push_bit 6 (ieee80211_crypto_get_keyid k)) (wc_iv ctx + word_of_nat d)) (set ds)"
    using ds(3) assms by (intro inj_onI iv_bytes_offset_inj) auto
  moreover have "distinct ds" using ds(2) strict_sorted_iff by blast
  ultimately have "distinct (wep_iv_run be k ctx n)" by (simp add: ds(1) distinct_map)
  moreover have "\<forall>iv \<in> set (wep_iv_run False k ctx n). \<not> weak_iv iv"
  proof (induction n arbitrary: ctx)
    case (Suc n)
    have "snd (wep_setiv False k ctx) = iv \<Longrightarrow> \<not> weak_iv iv" for iv
      using wep_setiv_not_weak by blast
    with Suc.IH show ?case by (auto simp: split_beta)
  qed simp
  ultimately show ?thesis using ds(1,4) by simp
qed

text \<open>The hypothesis holds for three frames across the skip at 03:ff.\<close>

theorem wep_iv_sequence_witness:
  "wep_iv_run False (ex_key 0) \<lparr>wc_iv = 0x03feff\<rparr> 3 =
     [[0x03, 0xfe, 0xff, 0x40], [0x04, 0x00, 0x00, 0x40], [0x04, 0x00, 0x01, 0x40]] \<and>
   distinct (wep_iv_run False (ex_key 0) \<lparr>wc_iv = 0x03feff\<rparr> 3)"
proof -
  have "257 * (3 :: nat) \<le> 2 ^ 24" by simp
  from wep_iv_sequence [OF this, of False "ex_key 0" "\<lparr>wc_iv = 0x03feff\<rparr>"]
  moreover have "wep_iv_run False (ex_key 0) \<lparr>wc_iv = 0x03feff\<rparr> (Suc (Suc (Suc 0))) =
     [[0x03, 0xfe, 0xff, 0x40], [0x04, 0x00, 0x00, 0x40], [0x04, 0x00, 0x01, 0x40]]"
    by (simp add: wep_setiv_def skip_weak_iv_def ieee80211_crypto_get_keyid_def ex_key_def)
  ultimately show ?thesis by (simp only: numeral_3_eq_3)
qed

text \<open>
  On a big-endian host the vector goes out in the other byte order, and the check, which
  looks at the first byte of the little-endian order, skips the wrong vectors.
\<close>

lemma wep_setiv_weak_be: "weak_iv (snd (wep_setiv True k \<lparr>wc_iv = 0x20ff05\<rparr>))"
  by (simp add: wep_setiv_def skip_weak_iv_def weak_iv_def)

end
