(* ===== verification/Ccmp.thy ===== *)
theory Ccmp
  imports FrameHdr
begin

text \<open>
  The CCMP cipher module (freebsd/sys/net80211/ieee80211_crypto_ccmp.c): the CCM blocks of a
  frame, the software encryption and decryption loops over an mbuf chain, with their
  treatment of blocks that straddle mbufs, and the operations of the module. AES is not part
  of the repository: \<open>set_key\<close> (\<open>rijndael_set_key\<close>) and the block function \<open>E\<close>
  (\<open>rijndael_encrypt\<close> under the context's key) are arguments. What the code relies on is that
  a block goes to a block, \<open>block_cipher\<close>.
\<close>

section \<open>Blocks\<close>

definition block_cipher :: "(u8 list \<Rightarrow> u8 list) \<Rightarrow> bool" where
  "block_cipher E \<longleftrightarrow> (\<forall>b. length b = 16 \<longrightarrow> length (E b) = 16)"

text \<open>\<open>xor_block(b + k, a, length a)\<close>\<close>

definition xor_block :: "nat \<Rightarrow> u8 list \<Rightarrow> u8 list \<Rightarrow> u8 list" where
  "xor_block k b a = splice b k (map2 (XOR) (take (length a) (drop k b)) a)"

text \<open>The counter block: octets 14 and 15 of \<open>b0\<close> are the block number.\<close>

definition ccmp_counter :: "u8 list \<Rightarrow> nat \<Rightarrow> u8 list" where
  "ccmp_counter b0 i = take 14 b0 @ [word_of_nat (i div 256), word_of_nat i]"

definition ccmp_aad :: "u8 list \<Rightarrow> u8 list" where
  "ccmp_aad wh =
     (let qos = IEEE80211_QOS_HAS_SEQ wh;
          var = (if IEEE80211_IS_DSTODS wh then
                   i_addr4 wh @ (if qos then [(wh ! 30) AND 0x0f, 0] else [0, 0])
                 else
                   (if qos then [(wh ! 24) AND 0x0f, 0] else [0, 0]) @ replicate 6 0);
          len = (22 + (if IEEE80211_IS_DSTODS wh then 6 else 0) + (if qos then 2 else 0) :: u8)
      in [0, len, (wh ! 0) AND 0x8f, (wh ! 1) AND 0xc7] @ take 18 (drop 4 wh) @
         [(wh ! 22) AND 0x0f, 0] @ var)"

definition ccmp_nonce :: "u8 list \<Rightarrow> u64 \<Rightarrow> u8 list" where
  "ccmp_nonce wh pn =
     (if IEEE80211_QOS_HAS_SEQ wh then
        (if IEEE80211_IS_DSTODS wh then wh ! 30 else wh ! 24) AND 0x0f
      else 0)
     # i_addr2 wh @ [ucast (drop_bit 40 pn), ucast (drop_bit 32 pn), ucast (drop_bit 24 pn),
          ucast (drop_bit 16 pn), ucast (drop_bit 8 pn), ucast pn]"

text \<open>The initial counter block, the authentication state and the key stream of the MIC.\<close>

definition ccmp_init_blocks ::
  "(u8 list \<Rightarrow> u8 list) \<Rightarrow> u8 list \<Rightarrow> u64 \<Rightarrow> int \<Rightarrow> u8 list \<times> u8 list \<times> u8 list" where
  "ccmp_init_blocks E wh pn dlen =
     (let b0 = 0x59 # ccmp_nonce wh pn @ [word_of_int (dlen div 256), word_of_int dlen];
          aad = ccmp_aad wh;
          auth = E b0;
          auth = xor_block 0 auth (take 16 aad);
          auth = E auth;
          auth = xor_block 0 auth (drop 16 aad);
          auth = E auth;
          b0 = ((b0 ! 0) AND 0x07) # take 13 (tl b0) @ [0, 0];
          s0 = E b0
      in (b0, auth, s0))"

section \<open>Encryption over a chain\<close>

text \<open>\<open>CCMP_ENCRYPT\<close>: the authentication state, the key stream block and the cipher text.\<close>

definition ccmp_encrypt_block ::
  "(u8 list \<Rightarrow> u8 list) \<Rightarrow> u8 list \<Rightarrow> nat \<Rightarrow> u8 list \<Rightarrow> u8 list \<Rightarrow> u8 list \<times> u8 list \<times> u8 list" where
  "ccmp_encrypt_block E b0 i b pos =
     (let b = E (xor_block 0 b pos); e = E (ccmp_counter b0 i)
      in (b, e, xor_block 0 pos (take (length pos) e)))"

text \<open>The full blocks at the current position; what is left is shorter than a block.\<close>

function ccmp_encrypt_full ::
  "(u8 list \<Rightarrow> u8 list) \<Rightarrow> u8 list \<Rightarrow> nat \<Rightarrow> u8 list \<Rightarrow> u8 list \<Rightarrow> nat \<times> u8 list \<times> u8 list \<times> u8 list" where
  "ccmp_encrypt_full E b0 i b pos =
     (if length pos < 16 then (i, b, [], pos)
      else case ccmp_encrypt_block E b0 i b (take 16 pos) of
             (b, e, c) \<Rightarrow>
               (case ccmp_encrypt_full E b0 (i + 1) b (drop 16 pos) of
                  (i, b, out, rest) \<Rightarrow> (i, b, c @ out, rest)))"
  by pat_completeness auto
termination by (relation "measure (\<lambda>(E, b0, i, b, pos). length pos)") auto

declare ccmp_encrypt_full.simps [simp del]

text \<open>
  A block that straddles mbufs: its further bytes are gathered into the block buffer from
  the next mbufs, and the key stream is scattered back over the same mbufs. The second
  result of \<open>ccmp_scatter\<close> is the mbuf the block ends in, the number of its bytes the block
  took and the mbufs after it; \<open>None\<close> is the end of the chain (\<open>goto done\<close>).
\<close>

definition space_next :: "nat \<Rightarrow> nat \<Rightarrow> nat" where
  "space_next dl sp = (let len = min dl 16 in if len > sp then len - sp else 0)"

fun ccmp_gather :: "u8 list \<Rightarrow> nat \<Rightarrow> nat \<Rightarrow> u8 list list \<Rightarrow> u8 list" where
  "ccmp_gather b sp dl [] = b"
| "ccmp_gather b sp dl (n # ns) =
     (if length n \<ge> space_next dl sp then xor_block sp b (take (space_next dl sp) n)
      else ccmp_gather (xor_block sp b n) (sp + length n) (dl - length n) ns)"

fun ccmp_scatter ::
  "u8 list \<Rightarrow> nat \<Rightarrow> nat \<Rightarrow> u8 list list \<Rightarrow> u8 list list \<times> (u8 list \<times> nat \<times> u8 list list) option" where
  "ccmp_scatter e sp dl [] = ([], None)"
| "ccmp_scatter e sp dl (m # ms) =
     (let sn = space_next dl sp
      in if length m \<ge> sn then ([], Some (xor_block 0 m (take sn (drop sp e)), sn, ms))
         else case ccmp_scatter e (sp + length m) (dl - length m) ms of
                (ds, r) \<Rightarrow> (xor_block 0 m (take (length m) (drop sp e)) # ds, r))"

lemma ccmp_scatter_length:
  "ccmp_scatter e sp dl ms = (ds, Some (m, sn, ms')) \<Longrightarrow> length ms' < length ms"
  by (induction e sp dl ms arbitrary: ds rule: ccmp_scatter.induct)
    (fastforce simp: Let_def split: if_splits prod.splits)+

text \<open>
  The loop over the chain: \<open>cur\<close> is the current mbuf from the current position on, \<open>rest\<close>
  the mbufs after it; the results are the authentication state and the mbufs.
\<close>

function ccmp_encrypt_loop ::
  "(u8 list \<Rightarrow> u8 list) \<Rightarrow> u8 list \<Rightarrow> nat \<Rightarrow> u8 list \<Rightarrow> int \<Rightarrow> u8 list \<Rightarrow> u8 list list \<Rightarrow> u8 list \<times> u8 list list"
where
  "ccmp_encrypt_loop E b0 i b data_len cur rest =
     (let space = (if int (length cur) > data_len then nat data_len else length cur)
      in case ccmp_encrypt_full E b0 i b (take space cur) of
           (i, b, out, part) \<Rightarrow>
             let data_len = data_len - int (length out); left = drop space cur
             in if data_len \<le> 0 then (b, (out @ part @ left) # rest)
                else case rest of
                  [] \<Rightarrow>
                    if part \<noteq> [] then
                      (case ccmp_encrypt_block E b0 i b part of (b, e, c) \<Rightarrow> (b, [out @ c @ left]))
                    else (b, [out @ left])
                | m # ms \<Rightarrow>
                    if part \<noteq> [] then
                      (case ccmp_encrypt_block E b0 i
                              (ccmp_gather b (length part) (nat data_len) (m # ms)) part of
                         (b, e, c) \<Rightarrow>
                           (case ccmp_scatter e (length part) (nat data_len) (m # ms) of
                              (ds, None) \<Rightarrow> (b, (out @ c @ left) # ds)
                            | (ds, Some (m, sn, ms)) \<Rightarrow>
                                (case ccmp_encrypt_loop E b0 (i + 1) b (data_len - 16) (drop sn m) ms of
                                   (b, segs) \<Rightarrow>
                                     (b, (out @ c @ left) # ds @ (take sn m @ hd segs) # tl segs))))
                    else
                      (case ccmp_encrypt_loop E b0 i b data_len m ms of
                         (b, segs) \<Rightarrow> (b, (out @ left) # segs)))"
  by pat_completeness auto
termination
  by (relation "measure (\<lambda>(E, b0, i, b, data_len, cur, rest). length rest)")
    (auto dest: ccmp_scatter_length [OF sym] simp del: ccmp_scatter.simps)

declare ccmp_encrypt_loop.simps [simp del]

section \<open>Decryption over a chain\<close>

text \<open>\<open>CCMP_DECRYPT\<close>: the key stream block, the plain text and the authentication state.\<close>

definition ccmp_decrypt_block ::
  "(u8 list \<Rightarrow> u8 list) \<Rightarrow> u8 list \<Rightarrow> nat \<Rightarrow> u8 list \<Rightarrow> u8 list \<Rightarrow> u8 list \<times> u8 list \<times> u8 list" where
  "ccmp_decrypt_block E b0 i a pos =
     (let b = E (ccmp_counter b0 i); pos = xor_block 0 pos (take (length pos) b)
      in (b, pos, E (xor_block 0 a pos)))"

function ccmp_decrypt_full ::
  "(u8 list \<Rightarrow> u8 list) \<Rightarrow> u8 list \<Rightarrow> nat \<Rightarrow> u8 list \<Rightarrow> u8 list \<Rightarrow> nat \<times> u8 list \<times> u8 list \<times> u8 list" where
  "ccmp_decrypt_full E b0 i a pos =
     (if length pos < 16 then (i, a, [], pos)
      else case ccmp_decrypt_block E b0 i a (take 16 pos) of
             (b, c, a) \<Rightarrow>
               (case ccmp_decrypt_full E b0 (i + 1) a (drop 16 pos) of
                  (i, a, out, rest) \<Rightarrow> (i, a, c @ out, rest)))"
  by pat_completeness auto
termination by (relation "measure (\<lambda>(E, b0, i, a, pos). length pos)") auto

declare ccmp_decrypt_full.simps [simp del]

text \<open>
  The loop over the chain. At a block that straddles two mbufs the bytes of the second mbuf
  are first mixed into the key stream buffer, which \<open>CCMP_DECRYPT\<close> then overwrites: they are
  decrypted afterwards, and never reach the authentication state. \<open>None\<close>: the second mbuf
  is too short, and the code runs past its end.
\<close>

function ccmp_decrypt_loop ::
  "(u8 list \<Rightarrow> u8 list) \<Rightarrow> u8 list \<Rightarrow> nat \<Rightarrow> u8 list \<Rightarrow> nat \<Rightarrow> u8 list \<Rightarrow> u8 list list
     \<Rightarrow> (u8 list \<times> u8 list list) option"
where
  "ccmp_decrypt_loop E b0 i a data_len cur rest =
     (let space = (if length cur > data_len then data_len else length cur)
      in case ccmp_decrypt_full E b0 i a (take space cur) of
           (i, a, out, part) \<Rightarrow>
             let data_len = data_len - length out; left = drop space cur
             in if data_len = 0 then Some (a, (out @ part @ left) # rest)
                else case rest of
                  [] \<Rightarrow>
                    if part \<noteq> [] then
                      (case ccmp_decrypt_block E b0 i a part of (b, c, a) \<Rightarrow> Some (a, [out @ c @ left]))
                    else Some (a, [out @ left])
                | m # ms \<Rightarrow>
                    if part \<noteq> [] then
                      let len = min data_len 16;
                          sn = (if len > length part then len - length part else 0)
                      in if length m < sn then None
                         else
                           (case ccmp_decrypt_block E b0 i a part of
                              (b, c, a) \<Rightarrow>
                                (case ccmp_decrypt_loop E b0 (i + 1) a (data_len - len) (drop sn m) ms of
                                   None \<Rightarrow> None
                                 | Some (a, segs) \<Rightarrow>
                                     Some (a, (out @ c @ left) #
                                       (map2 (XOR) (take sn m) (take sn (drop (length part) b)) @ hd segs)
                                         # tl segs)))
                    else
                      (case ccmp_decrypt_loop E b0 i a data_len m ms of
                         None \<Rightarrow> None
                       | Some (a, segs) \<Rightarrow> Some (a, (out @ left) # segs)))"
  by pat_completeness auto
termination by (relation "measure (\<lambda>(E, b0, i, a, data_len, cur, rest). length rest)") auto

declare ccmp_decrypt_loop.simps [simp del]

section \<open>The module's state and operations\<close>

record 'c ccmp_ctx =
  cc_aes :: 'c

text \<open>\<open>zero\<close>: the zeroed context of the cipher.\<close>

definition ccmp_attach :: "'c \<Rightarrow> bool \<Rightarrow> vap \<times> int \<Rightarrow> 'c ccmp_ctx option \<times> vap \<times> int" where
  "ccmp_attach zero mem s = (case s of (vap, nrefs) \<Rightarrow>
     if \<not> mem then
       (None, stat (\<lambda>s. s\<lparr>is_crypto_nomem := is_crypto_nomem s + 1\<rparr>) vap, nrefs)
     else (Some \<lparr>cc_aes = zero\<rparr>, vap, nrefs + 1))"

definition ccmp_detach :: "int \<Rightarrow> int" where
  "ccmp_detach nrefs = nrefs - 1"

definition ccmp_setkey ::
  "(u8 list \<Rightarrow> 'c) \<Rightarrow> ieee80211_key \<Rightarrow> 'c ccmp_ctx \<Rightarrow> bool \<times> 'c ccmp_ctx" where
  "ccmp_setkey set_key k ctx =
     (if wk_keylen k \<noteq> 128 div 8 then (False, ctx)
      else if has_flag (wk_flags k) KEY_SWENCRYPT
      then (True, ctx\<lparr>cc_aes := set_key (take (wk_keylen k) (wk_key k))\<rparr>)
      else (True, ctx))"

definition ccmp_setiv :: "ieee80211_key \<Rightarrow> ieee80211_key \<times> u8 list" where
  "ccmp_setiv k =
     (let keyid = push_bit 6 (ieee80211_crypto_get_keyid k);
          k = k\<lparr>wk_keytsc := wk_keytsc k + 1\<rparr>;
          tsc = wk_keytsc k
      in (k, [ucast tsc, ucast (drop_bit 8 tsc), 0, keyid OR 0x20,
              ucast (drop_bit 16 tsc), ucast (drop_bit 24 tsc),
              ucast (drop_bit 32 tsc), ucast (drop_bit 40 tsc)]))"

definition ccmp_encrypt ::
  "(u8 list \<Rightarrow> u8 list) \<Rightarrow> m_append \<Rightarrow> nat \<Rightarrow> vap \<times> ieee80211_key \<times> mbuf \<Rightarrow> (bool \<times> vap \<times> mbuf) option" where
  "ccmp_encrypt E app hdrlen s = (case s of (vap, key, m) \<Rightarrow>
     let vap = stat (\<lambda>s. s\<lparr>is_crypto_ccmp := is_crypto_ccmp s + 1\<rparr>) vap; off = hdrlen + 8;
         wh = mtod m; data_len = int (pktlen (m_segs m)) - int off
     in if m_segs m = [] \<or> length wh < off then None
        else case ccmp_init_blocks E wh (wk_keytsc key) data_len of
          (b0, b, s0) \<Rightarrow>
            (case ccmp_encrypt_loop E b0 1 b data_len (drop off wh) (tl (m_segs m)) of
               (b, segs) \<Rightarrow>
                 let segs = (take off wh @ hd segs) # tl segs
                 in case app segs (take 8 (xor_block 0 b (take 8 s0))) of
                      None \<Rightarrow> Some (False, vap, m\<lparr>m_segs := segs\<rparr>)
                    | Some segs \<Rightarrow> Some (True, vap, m\<lparr>m_segs := segs\<rparr>)))"

definition ccmp_decrypt ::
  "(u8 list \<Rightarrow> u8 list) \<Rightarrow> u64 \<Rightarrow> nat \<Rightarrow> vap \<times> ieee80211_key \<times> mbuf \<Rightarrow> (bool \<times> vap \<times> mbuf) option" where
  "ccmp_decrypt E pn hdrlen s = (case s of (vap, key, m) \<Rightarrow>
     let vap = stat (\<lambda>s. s\<lparr>is_crypto_ccmp := is_crypto_ccmp s + 1\<rparr>) vap; off = hdrlen + 8;
         wh = mtod m; len = pktlen (m_segs m); data_len = u_int_diff len (off + 8)
     in if m_segs m = [] \<or> length wh < off \<or> len < 8 then None
        else case ccmp_init_blocks E wh pn (int data_len) of
          (b0, a, b) \<Rightarrow>
            (case m_copydata (m_segs m) (len - 8) 8 of
               None \<Rightarrow> None
             | Some mic \<Rightarrow>
                 let mic = xor_block 0 mic (take 8 b)
                 in case ccmp_decrypt_loop E b0 1 a data_len (drop off wh) (tl (m_segs m)) of
                      None \<Rightarrow> None
                    | Some (a, segs) \<Rightarrow>
                        let m = m\<lparr>m_segs := (take off wh @ hd segs) # tl segs\<rparr>
                        in if mic \<noteq> take 8 a then
                             Some (False, stat (\<lambda>s. s\<lparr>is_rx_ccmpmic := is_rx_ccmpmic s + 1\<rparr>) vap, m)
                           else Some (True, vap, m)))"

definition ccmp_encap ::
  "('c \<Rightarrow> u8 list \<Rightarrow> u8 list) \<Rightarrow> m_prepend \<Rightarrow> m_append \<Rightarrow> vap \<times> ieee80211_key \<times> 'c ccmp_ctx \<times> mbuf
     \<Rightarrow> (bool \<times> vap \<times> ieee80211_key \<times> mbuf) option" where
  "ccmp_encap aes pre app s = (case s of (vap, k, ctx, m) \<Rightarrow>
     let wh = mtod m; hdrlen = ieee80211_hdrspace (ic_flags vap) wh;
         is_mgmt = IEEE80211_IS_MGMT wh in
     if is_mgmt \<and> has_flag (wk_flags k) KEY_NOIVMGT then Some (True, vap, k, m)
     else if \<not> is_mgmt \<and> has_flag (wk_flags k) KEY_NOIV then Some (True, vap, k, m)
     else
       case pre (m_segs m) 8 of
         None \<Rightarrow> Some (False, vap, k, m\<lparr>m_segs := []\<rparr>)
       | Some segs \<Rightarrow>
           if segs = [] \<or> length (hd segs) < 8 + hdrlen then None
           else
             let ivp = splice (hd segs) 0 (take hdrlen (drop 8 (hd segs)));
                 (k, iv) = ccmp_setiv k;
                 m = m\<lparr>m_segs := splice ivp hdrlen iv # tl segs\<rparr>
             in if has_flag (wk_flags k) KEY_SWENCRYPT
                then (case ccmp_encrypt (aes (cc_aes ctx)) app hdrlen (vap, k, m) of
                        None \<Rightarrow> None | Some (ok, vap, m) \<Rightarrow> Some (ok, vap, k, m))
                else Some (True, vap, k, m))"

definition ccmp_enmic :: "mbuf \<Rightarrow> bool \<times> mbuf" where
  "ccmp_enmic m = (True, m)"

definition ccmp_demic :: "mbuf \<Rightarrow> bool \<times> mbuf" where
  "ccmp_demic m = (True, m)"

text \<open>The common tail of \<open>ccmp_decap\<close> (label \<open>finish\<close>) for the frame.\<close>

definition ccmp_decap_finish :: "nat \<Rightarrow> mbuf \<Rightarrow> mbuf" where
  "ccmp_decap_finish hdrlen m =
     (let segs = m_segs m;
          segs = (if \<not> rx_flag m 0x00000200
                  then m_adj_front 8 (splice (hd segs) 8 (take hdrlen (hd segs)) # tl segs)
                  else segs);
          segs = (if \<not> rx_flag m 0x00000400 then m_adj_back 8 segs else segs)
      in m\<lparr>m_segs := segs\<rparr>)"

definition ccmp_decap ::
  "('c \<Rightarrow> u8 list \<Rightarrow> u8 list) \<Rightarrow> nat \<Rightarrow> vap \<times> ieee80211_key \<times> 'c ccmp_ctx \<times> mbuf
     \<Rightarrow> (bool \<times> vap \<times> ieee80211_key \<times> mbuf) option" where
  "ccmp_decap aes hdrlen s = (case s of (vap, k, ctx, m) \<Rightarrow>
     if rx_flag m 0x00000200 then Some (True, vap, k, ccmp_decap_finish hdrlen m)
     else if length (mtod m) < hdrlen + 8 then None
     else
       let wh = mtod m; ivp = drop hdrlen wh in
       if (ivp ! 3) AND 0x20 = 0 then
         Some (False, stat (\<lambda>s. s\<lparr>is_rx_ccmpformat := is_rx_ccmpformat s + 1\<rparr>) vap, k, m)
       else
         let tid = ieee80211_gettid wh;
             pn = READ_6 (ivp ! 0) (ivp ! 1) (ivp ! 4) (ivp ! 5) (ivp ! 6) (ivp ! 7);
             accept = (\<lambda>vap m. Some (True, vap, k\<lparr>wk_keyrsc := (wk_keyrsc k)[tid := pn]\<rparr>,
                         ccmp_decap_finish hdrlen m))
         in if pn \<le> wk_keyrsc k ! tid \<and> \<not> has_flag (wk_flags k) KEY_NOREPLAY then
              Some (False,
                stat (\<lambda>s. s\<lparr>is_rx_ccmpreplay := is_rx_ccmpreplay s + 1\<rparr>)
                  (ieee80211_notify_replay_failure wh k pn tid vap), k, m)
            else if has_flag (wk_flags k) KEY_SWDECRYPT then
              (case ccmp_decrypt (aes (cc_aes ctx)) pn hdrlen (vap, k, m) of
                 None \<Rightarrow> None
               | Some (ok, vap, m) \<Rightarrow> if \<not> ok then Some (False, vap, k, m) else accept vap m)
            else accept vap m)"

end
