(* ===== verification/Crypto.thy ===== *)
theory Crypto
  imports TkipModule Wep Ccmp
begin

text \<open>
  The crypto core of net80211 (freebsd/sys/net80211/ieee80211_crypto.c): the table of cipher
  modules, the life of a key (newkey, setkey, delkey, the global key table), the null cipher
  (ieee80211_crypto_none.c), and the dispatch of encapsulation, decapsulation and MIC
  processing to the module of the key. A module is called through its template; here the
  call is a case distinction over the modules this repository has, WEP, TKIP, CCMP and the
  null cipher. What a key's \<open>wk_private\<close> points to is a value of \<open>cipher_ctx\<close>, and a call
  with the context of another module is \<open>None\<close>, since the C code would misread it.
\<close>

section \<open>Templates and contexts\<close>

definition CIPHER_WEP :: u32 where "CIPHER_WEP = 0"
definition CIPHER_TKIP :: u32 where "CIPHER_TKIP = 1"
definition CIPHER_AES_CCM :: u32 where "CIPHER_AES_CCM = 3"
definition CIPHER_NONE :: u32 where "CIPHER_NONE = 6"

lemmas cipher_ids = CIPHER_WEP_def CIPHER_TKIP_def CIPHER_AES_CCM_def CIPHER_NONE_def

record cipher_template =
  ic_cipher :: u32
  ic_header :: nat
  ic_trailer :: nat
  ic_miclen :: nat

definition wep_template :: cipher_template where
  "wep_template = \<lparr>ic_cipher = CIPHER_WEP, ic_header = 3 + 1, ic_trailer = 4, ic_miclen = 0\<rparr>"

definition tkip_template :: cipher_template where
  "tkip_template = \<lparr>ic_cipher = CIPHER_TKIP, ic_header = 3 + 1 + 4, ic_trailer = 4, ic_miclen = 8\<rparr>"

definition ccmp_template :: cipher_template where
  "ccmp_template = \<lparr>ic_cipher = CIPHER_AES_CCM, ic_header = 3 + 1 + 4, ic_trailer = 8, ic_miclen = 0\<rparr>"

definition ieee80211_cipher_none :: cipher_template where
  "ieee80211_cipher_none = \<lparr>ic_cipher = CIPHER_NONE, ic_header = 0, ic_trailer = 0, ic_miclen = 0\<rparr>"

definition key_template :: "ieee80211_key \<Rightarrow> cipher_template option" where
  "key_template k =
     (if wk_cipher k = CIPHER_WEP then Some wep_template
      else if wk_cipher k = CIPHER_TKIP then Some tkip_template
      else if wk_cipher k = CIPHER_AES_CCM then Some ccmp_template
      else if wk_cipher k = CIPHER_NONE then Some ieee80211_cipher_none
      else None)"

datatype 'c cipher_ctx = NoneCtx | WepCtx wep_ctx | TkipCtx tkip_ctx | CcmpCtx "'c ccmp_ctx"

type_synonym 'c keyslot = "ieee80211_key \<times> 'c cipher_ctx"

text \<open>What the operations depend on: the host's byte order, the mbuf allocator, and AES.\<close>

record 'c crypto_env =
  env_be :: bool
  env_pre :: m_prepend
  env_app :: m_append
  env_aes :: "'c \<Rightarrow> u8 list \<Rightarrow> u8 list"
  env_set_key :: "u8 list \<Rightarrow> 'c"
  env_zero :: 'c

section \<open>The table of modules\<close>

text \<open>The entries of \<open>ciphers\<close>, by cipher number.\<close>

type_synonym cipher_table = "nat \<Rightarrow> cipher_template option"

definition CIPHER_MAX :: nat where "CIPHER_MAX = 7"

definition ieee80211_crypto_attach :: "cipher_table \<Rightarrow> cipher_table" where
  "ieee80211_crypto_attach ciphers = ciphers(6 := Some ieee80211_cipher_none)"

definition ieee80211_crypto_register :: "cipher_template \<Rightarrow> cipher_table \<Rightarrow> cipher_table" where
  "ieee80211_crypto_register cip ciphers =
     (let c = unat (ic_cipher cip) in
      if c \<ge> CIPHER_MAX then ciphers
      else if ciphers c \<noteq> None \<and> ciphers c \<noteq> Some cip then ciphers
      else ciphers(c := Some cip))"

definition ieee80211_crypto_unregister :: "cipher_template \<Rightarrow> cipher_table \<Rightarrow> cipher_table" where
  "ieee80211_crypto_unregister cip ciphers =
     (let c = unat (ic_cipher cip) in
      if c \<ge> CIPHER_MAX then ciphers
      else if ciphers c \<noteq> None \<and> ciphers c \<noteq> Some cip then ciphers
      else ciphers(c := None))"

definition ieee80211_crypto_available :: "nat \<Rightarrow> cipher_table \<Rightarrow> bool" where
  "ieee80211_crypto_available cipher ciphers \<longleftrightarrow> cipher < CIPHER_MAX \<and> ciphers cipher \<noteq> None"

section \<open>The null cipher\<close>

definition none_attach :: "vap \<Rightarrow> 'c cipher_ctx \<times> vap" where
  "none_attach v = (NoneCtx, v)"

definition none_setkey :: "ieee80211_key \<Rightarrow> bool" where
  "none_setkey k = True"

definition none_encap :: "vap \<times> mbuf \<Rightarrow> bool \<times> vap \<times> mbuf" where
  "none_encap s = (case s of (v, m) \<Rightarrow>
     (False, stat (\<lambda>s. s\<lparr>is_tx_badcipher := is_tx_badcipher s + 1\<rparr>) v, m))"

definition none_decap :: "vap \<times> mbuf \<Rightarrow> bool \<times> vap \<times> mbuf" where
  "none_decap s = (case s of (v, m) \<Rightarrow>
     (False, stat (\<lambda>s. s\<lparr>is_rx_badkeyid := is_rx_badkeyid s + 1\<rparr>) v, m))"

definition none_enmic :: "vap \<times> mbuf \<Rightarrow> bool \<times> vap \<times> mbuf" where
  "none_enmic s = none_encap s"

definition none_demic :: "vap \<times> mbuf \<Rightarrow> bool \<times> vap \<times> mbuf" where
  "none_demic s = none_decap s"

section \<open>Calls through a key's template\<close>

definition cip_encap ::
  "'c crypto_env \<Rightarrow> vap \<times> 'c keyslot \<times> mbuf \<Rightarrow> (bool \<times> vap \<times> 'c keyslot \<times> mbuf) option" where
  "cip_encap env s = (case s of (v, (k, ctx), m) \<Rightarrow>
     if wk_cipher k = CIPHER_WEP then
       (case ctx of WepCtx c \<Rightarrow>
          (case wep_encap (env_be env) (env_pre env) (env_app env) (v, k, c, m) of
             None \<Rightarrow> None | Some (ok, v, c, m) \<Rightarrow> Some (ok, v, (k, WepCtx c), m))
        | _ \<Rightarrow> None)
     else if wk_cipher k = CIPHER_TKIP then
       (case ctx of TkipCtx c \<Rightarrow>
          (case tkip_encap (env_be env) (env_pre env) (env_app env) (v, k, c, m) of
             None \<Rightarrow> None | Some (ok, v, k, c, m) \<Rightarrow> Some (ok, v, (k, TkipCtx c), m))
        | _ \<Rightarrow> None)
     else if wk_cipher k = CIPHER_AES_CCM then
       (case ctx of CcmpCtx c \<Rightarrow>
          (case ccmp_encap (env_aes env) (env_pre env) (env_app env) (v, k, c, m) of
             None \<Rightarrow> None | Some (ok, v, k, m) \<Rightarrow> Some (ok, v, (k, CcmpCtx c), m))
        | _ \<Rightarrow> None)
     else if wk_cipher k = CIPHER_NONE then
       (case none_encap (v, m) of (ok, v, m) \<Rightarrow> Some (ok, v, (k, ctx), m))
     else None)"

definition cip_decap ::
  "'c crypto_env \<Rightarrow> nat \<Rightarrow> vap \<times> 'c keyslot \<times> mbuf \<Rightarrow> (bool \<times> vap \<times> 'c keyslot \<times> mbuf) option" where
  "cip_decap env hdrlen s = (case s of (v, (k, ctx), m) \<Rightarrow>
     if wk_cipher k = CIPHER_WEP then
       (case wep_decap hdrlen (v, k, m) of
          None \<Rightarrow> None | Some (ok, v, m) \<Rightarrow> Some (ok, v, (k, ctx), m))
     else if wk_cipher k = CIPHER_TKIP then
       (case ctx of TkipCtx c \<Rightarrow>
          (case tkip_decap (env_be env) hdrlen (v, k, c, m) of
             None \<Rightarrow> None | Some (ok, v, k, c, m) \<Rightarrow> Some (ok, v, (k, TkipCtx c), m))
        | _ \<Rightarrow> None)
     else if wk_cipher k = CIPHER_AES_CCM then
       (case ctx of CcmpCtx c \<Rightarrow>
          (case ccmp_decap (env_aes env) hdrlen (v, k, c, m) of
             None \<Rightarrow> None | Some (ok, v, k, m) \<Rightarrow> Some (ok, v, (k, CcmpCtx c), m))
        | _ \<Rightarrow> None)
     else if wk_cipher k = CIPHER_NONE then
       (case none_decap (v, m) of (ok, v, m) \<Rightarrow> Some (ok, v, (k, ctx), m))
     else None)"

text \<open>\<open>ieee80211_crypto_enmic\<close>: only TKIP has a MIC of its own (\<open>ic_miclen\<close>).\<close>

definition ieee80211_crypto_enmic ::
  "'c crypto_env \<Rightarrow> bool \<Rightarrow> vap \<times> 'c keyslot \<times> mbuf \<Rightarrow> (bool \<times> vap \<times> 'c keyslot \<times> mbuf) option" where
  "ieee80211_crypto_enmic env force s = (case s of (v, (k, ctx), m) \<Rightarrow>
     case key_template k of
       None \<Rightarrow> None
     | Some cip \<Rightarrow>
         if ic_miclen cip > 0 then
           (case ctx of TkipCtx c \<Rightarrow>
              (case tkip_enmic (env_app env) force (v, k, c, m) of
                 None \<Rightarrow> None | Some (ok, v, k, c, m) \<Rightarrow> Some (ok, v, (k, TkipCtx c), m))
            | _ \<Rightarrow> None)
         else Some (True, v, (k, ctx), m))"

section \<open>Choosing a key\<close>

text \<open>
  The keys a station's frames can use: the global keys of the vap, its default transmit
  key, and the unicast key of the station. A pointer to a key is a \<open>keyref\<close>.
\<close>

record 'c crypto_node =
  cn_vap :: vap
  iv_nw_keys :: "'c keyslot list"
  iv_def_txkey :: u16
  ni_ucastkey :: "'c keyslot"

datatype keyref = NwKey nat | UcastKey

fun key_of :: "'c crypto_node \<Rightarrow> keyref \<Rightarrow> 'c keyslot" where
  "key_of n (NwKey i) = iv_nw_keys n ! i"
| "key_of n UcastKey = ni_ucastkey n"

text \<open>The pointer is into the table of the global keys, or to the station's key.\<close>

fun key_valid :: "'c crypto_node \<Rightarrow> keyref \<Rightarrow> bool" where
  "key_valid n (NwKey i) \<longleftrightarrow> i < length (iv_nw_keys n)"
| "key_valid n UcastKey \<longleftrightarrow> True"

fun key_set :: "keyref \<Rightarrow> 'c keyslot \<Rightarrow> 'c crypto_node \<Rightarrow> 'c crypto_node" where
  "key_set (NwKey i) ks n = n\<lparr>iv_nw_keys := (iv_nw_keys n)[i := ks]\<rparr>"
| "key_set UcastKey ks n = n\<lparr>ni_ucastkey := ks\<rparr>"

definition KEY_UNDEFINED :: "'c keyslot \<Rightarrow> bool" where
  "KEY_UNDEFINED ks \<longleftrightarrow> wk_cipher (fst ks) = CIPHER_NONE"

definition ieee80211_crypto_get_key_wepidx :: "ieee80211_key \<Rightarrow> int" where
  "ieee80211_crypto_get_key_wepidx k = (case wk_nwidx k of Some i \<Rightarrow> int i | None \<Rightarrow> -1)"

definition ieee80211_crypto_get_txkey ::
  "'c crypto_node \<Rightarrow> mbuf \<Rightarrow> keyref option \<times> 'c crypto_node" where
  "ieee80211_crypto_get_txkey n m =
     (if IEEE80211_IS_MULTICAST (i_addr1 (mtod m)) then
        (if iv_def_txkey n = 0xffff then
           (None, n\<lparr>cn_vap := stat (\<lambda>s. s\<lparr>is_tx_nodefkey := is_tx_nodefkey s + 1\<rparr>) (cn_vap n)\<rparr>)
         else (Some (NwKey (unat (iv_def_txkey n))), n))
      else if KEY_UNDEFINED (ni_ucastkey n) then (None, n)
      else (Some UcastKey, n))"

definition ieee80211_crypto_encap ::
  "'c crypto_env \<Rightarrow> 'c crypto_node \<Rightarrow> mbuf \<Rightarrow> (keyref option \<times> 'c crypto_node \<times> mbuf) option" where
  "ieee80211_crypto_encap env n m =
     (case ieee80211_crypto_get_txkey n m of
        (None, n) \<Rightarrow> Some (None, n, m)
      | (Some r, n) \<Rightarrow>
          if \<not> key_valid n r then None
          else
            (case cip_encap env (cn_vap n, key_of n r, m) of
               None \<Rightarrow> None
             | Some (ok, v, ks, m) \<Rightarrow>
                 Some (if ok then Some r else None, key_set r ks (n\<lparr>cn_vap := v\<rparr>), m)))"

text \<open>
  \<open>m_copydata\<close> of the key id octet fails hard (\<open>None\<close>) if the frame ends before it; the
  result is the C return value with the key, if there is one.
\<close>

definition ieee80211_crypto_decap ::
  "'c crypto_env \<Rightarrow> 'c crypto_node \<Rightarrow> mbuf \<Rightarrow> nat
     \<Rightarrow> (bool \<times> keyref option \<times> 'c crypto_node \<times> mbuf) option" where
  "ieee80211_crypto_decap env n m hdrlen =
     (let tooshort = (\<lambda>n. n\<lparr>cn_vap := stat (\<lambda>s. s\<lparr>is_rx_tooshort := is_rx_tooshort s + 1\<rparr>) (cn_vap n)\<rparr>)
      in if rx_flag m 0x00000100 \<and> rx_flag m 0x00000200 then Some (True, None, n, m)
         else if pktlen (m_segs m) < 24 + 4 + 4 then Some (False, None, tooshort n, m)
         else
           case m_copydata (m_segs m) (hdrlen + 3) 1 of
             None \<Rightarrow> None
           | Some keyid \<Rightarrow>
               let r = (if IEEE80211_IS_MULTICAST (i_addr1 (mtod m)) \<or> KEY_UNDEFINED (ni_ucastkey n)
                        then NwKey (unat (drop_bit 6 (keyid ! 0))) else UcastKey)
               in case (if key_valid n r then key_template (fst (key_of n r)) else None) of
                    None \<Rightarrow> None
                  | Some cip \<Rightarrow>
                      if length (mtod m) < hdrlen + ic_header cip then
                        Some (False, None, tooshort n, m)
                      else
                        (case cip_decap env hdrlen (cn_vap n, key_of n r, m) of
                           None \<Rightarrow> None
                         | Some (ok, v, ks, m) \<Rightarrow>
                             Some (ok, if ok then Some r else None, key_set r ks (n\<lparr>cn_vap := v\<rparr>), m)))"

definition ieee80211_crypto_demic ::
  "'c crypto_env \<Rightarrow> bool \<Rightarrow> 'c crypto_node \<Rightarrow> keyref option \<Rightarrow> mbuf
     \<Rightarrow> (bool \<times> 'c crypto_node \<times> mbuf) option" where
  "ieee80211_crypto_demic env force n r m =
     (if rx_flag m 0x00000100 \<and> rx_flag m 0x00000080 then
        Some (False,
          n\<lparr>cn_vap := ieee80211_notify_michael_failure (mtod m) (-1) (cn_vap n)\<rparr>, m)
      else if rx_flag m 0x00000100 \<and> rx_flag m 0x00000400 then Some (True, n, m)
      else
        case r of
          None \<Rightarrow> Some (True, n, m)
        | Some r \<Rightarrow>
            (case key_template (fst (key_of n r)) of
               None \<Rightarrow> None
             | Some cip \<Rightarrow>
                 if ic_miclen cip > 0 then
                   (case key_of n r of
                      (k, TkipCtx c) \<Rightarrow>
                        (case tkip_demic force (cn_vap n, k, c, m) of
                           None \<Rightarrow> None
                         | Some (ok, v, k, c, m) \<Rightarrow>
                             Some (ok, key_set r (k, TkipCtx c) (n\<lparr>cn_vap := v\<rparr>), m))
                    | _ \<Rightarrow> None)
                 else Some (True, n, m)))"

end
