(* ===== verification/CryptoKeys.thy ===== *)
theory CryptoKeys
  imports Crypto
begin

text \<open>
  The life of a key (freebsd/sys/net80211/ieee80211_crypto.c): \<open>ieee80211_crypto_newkey\<close> binds
  a key to a cipher and asks the driver for a slot, \<open>ieee80211_crypto_setkey\<close> hands the
  contents to cipher and driver, \<open>ieee80211_crypto_delkey\<close> gives slot and context back. The
  driver's methods are arguments (\<open>'d\<close> is its state); the null methods that
  \<open>ieee80211_crypto_vattach\<close> installs are defined. The properties: contexts are attached and
  detached in balance, a key's context is always one of its cipher, and what a successful
  \<open>newkey\<close> leaves.
\<close>

section \<open>State\<close>

text \<open>
  \<open>nrefs\<close> are the reference counts of the modules, by cipher number. A driver may override
  the flags of a key when it allocates a slot; it returns success, its state, the flags and
  the two indices.
\<close>

record 'd key_driver =
  iv_key_alloc :: "'d \<Rightarrow> ieee80211_key \<Rightarrow> bool \<times> 'd \<times> u32 \<times> u16 \<times> u16"
  iv_key_delete :: "'d \<Rightarrow> ieee80211_key \<Rightarrow> bool \<times> 'd"
  iv_key_set :: "'d \<Rightarrow> ieee80211_key \<Rightarrow> bool \<times> 'd"

record 'd key_state =
  ks_vap :: vap
  ks_nrefs :: "u32 \<Rightarrow> int"
  ks_dev :: 'd

abbreviation ks_stat :: "(crypto_stats \<Rightarrow> crypto_stats) \<Rightarrow> 'd key_state \<Rightarrow> 'd key_state" where
  "ks_stat f s \<equiv> s\<lparr>ks_vap := stat f (ks_vap s)\<rparr>"

section \<open>The null key management methods\<close>

definition null_key_alloc :: "'d \<Rightarrow> ieee80211_key \<Rightarrow> bool \<times> 'd \<times> u32 \<times> u16 \<times> u16" where
  "null_key_alloc d k =
     (case wk_nwidx k of
        None \<Rightarrow>
          if has_flag (wk_flags k) KEY_GROUP then (False, d, wk_flags k, 0, 0)
          else (True, d, wk_flags k, 0, 0xffff)
      | Some i \<Rightarrow> (True, d, wk_flags k, word_of_int (ieee80211_crypto_get_key_wepidx k), 0xffff))"

definition null_key_delete :: "'d \<Rightarrow> ieee80211_key \<Rightarrow> bool \<times> 'd" where
  "null_key_delete d k = (True, d)"

definition null_key_set :: "'d \<Rightarrow> ieee80211_key \<Rightarrow> bool \<times> 'd" where
  "null_key_set d k = (True, d)"

definition null_driver :: "'d key_driver" where
  "null_driver = \<lparr>iv_key_alloc = null_key_alloc, iv_key_delete = null_key_delete,
     iv_key_set = null_key_set\<rparr>"

section \<open>Attaching and detaching a context\<close>

text \<open>\<open>mem\<close>: the allocation succeeds; \<open>rnd\<close>: the random octets \<open>wep_attach\<close> draws.\<close>

definition cip_attach ::
  "'c crypto_env \<Rightarrow> bool \<Rightarrow> u32 \<Rightarrow> u32 \<Rightarrow> 'd key_state \<Rightarrow> 'c cipher_ctx option \<times> 'd key_state" where
  "cip_attach env mem rnd c s =
     (let ret = (\<lambda>r v n. (r, s\<lparr>ks_vap := v, ks_nrefs := (ks_nrefs s)(c := n)\<rparr>)) in
      if c = CIPHER_WEP then
        (case wep_attach mem rnd (ks_vap s, ks_nrefs s c) of (r, v, n) \<Rightarrow> ret (map_option WepCtx r) v n)
      else if c = CIPHER_TKIP then
        (case tkip_attach mem (ks_vap s, ks_nrefs s c) of (r, v, n) \<Rightarrow> ret (map_option TkipCtx r) v n)
      else if c = CIPHER_AES_CCM then
        (case ccmp_attach (env_zero env) mem (ks_vap s, ks_nrefs s c) of
           (r, v, n) \<Rightarrow> ret (map_option CcmpCtx r) v n)
      else if c = CIPHER_NONE then
        (case none_attach (ks_vap s) of (r, v) \<Rightarrow> (Some r, s\<lparr>ks_vap := v\<rparr>))
      else (None, s))"

definition cipher_detach :: "u32 \<Rightarrow> 'd key_state \<Rightarrow> 'd key_state" where
  "cipher_detach c s =
     (let n = ks_nrefs s c in
      if c = CIPHER_WEP then s\<lparr>ks_nrefs := (ks_nrefs s)(c := wep_detach n)\<rparr>
      else if c = CIPHER_TKIP then s\<lparr>ks_nrefs := (ks_nrefs s)(c := tkip_detach n)\<rparr>
      else if c = CIPHER_AES_CCM then s\<lparr>ks_nrefs := (ks_nrefs s)(c := ccmp_detach n)\<rparr>
      else s)"

text \<open>
  The step \<open>newkey\<close> has twice: attach the new context, detach the old one, or restore the
  old flags if the attach fails.
\<close>

definition cip_rebind ::
  "'c crypto_env \<Rightarrow> bool \<Rightarrow> u32 \<Rightarrow> u32 \<Rightarrow> u32 \<Rightarrow> 'c keyslot \<Rightarrow> 'd key_state
     \<Rightarrow> bool \<times> 'c keyslot \<times> 'd key_state" where
  "cip_rebind env mem rnd cip oflags ks s = (case ks of (k, ctx) \<Rightarrow>
     case cip_attach env mem rnd cip s of
       (None, s) \<Rightarrow>
         (False, (k\<lparr>wk_flags := oflags\<rparr>, ctx),
          ks_stat (\<lambda>s. s\<lparr>is_crypto_attachfail := is_crypto_attachfail s + 1\<rparr>) s)
     | (Some ctx', s) \<Rightarrow> (True, (k\<lparr>wk_cipher := cip\<rparr>, ctx'), cipher_detach (wk_cipher k) s))"

section \<open>newkey, setkey, delkey\<close>

text \<open>
  The flags a key gets: the application's common flags, the device's flags it had, and
  software encryption and MIC where the hardware lacks them.
\<close>

definition newkey_flags :: "u32 \<Rightarrow> u32 \<Rightarrow> u32 \<Rightarrow> u32 \<Rightarrow> u32" where
  "newkey_flags caps cipher flags oflags =
     (let flags = flags AND KEY_COMMON;
          flags = flags OR (oflags AND KEY_DEVICE);
          flags = (if caps AND push_bit (unat cipher) 1 = 0 then flags OR KEY_SWCRYPT else flags)
      in if cipher = CIPHER_TKIP \<and> caps AND push_bit 4 1 = 0 then flags OR KEY_SWMIC else flags)"

text \<open>
  The part of \<open>newkey\<close> after the cipher's template \<open>cip\<close> was found, in the order of the code.
  \<open>mem1\<close> and \<open>mem2\<close> are the outcomes of the two allocations.
\<close>

definition newkey_bind ::
  "'c crypto_env \<Rightarrow> 'd key_driver \<Rightarrow> bool \<times> bool \<times> u32 \<Rightarrow> u32 \<Rightarrow> u32 \<Rightarrow> u32 \<Rightarrow> u32 \<Rightarrow> 'c keyslot
     \<Rightarrow> 'd key_state \<Rightarrow> bool \<times> 'c keyslot \<times> 'd key_state" where
  "newkey_bind env drv mr caps cipher cip flags ks s = (case (ks, mr) of ((k, ctx), (mem1, mem2, rnd)) \<Rightarrow>
     let oflags = wk_flags k; flags = newkey_flags caps cipher flags oflags
     in case (if wk_cipher k \<noteq> cip \<or> wk_flags k \<noteq> flags
              then cip_rebind env mem1 rnd cip oflags (k\<lparr>wk_flags := flags\<rparr>, ctx) s
              else (True, (k, ctx), s)) of
          (False, ks, s) \<Rightarrow> (False, ks, s)
        | (True, (k, ctx), s) \<Rightarrow>
            if has_flag (wk_flags k) KEY_DEVKEY then (True, (k, ctx), s)
            else
              (case iv_key_alloc drv (ks_dev s) k of
                 (ok, d, dflags, keyix, rxkeyix) \<Rightarrow>
                   let k = k\<lparr>wk_flags := dflags\<rparr>; s = s\<lparr>ks_dev := d\<rparr>
                   in if \<not> ok then
                        (False, (k, ctx),
                         ks_stat (\<lambda>s. s\<lparr>is_crypto_keyfail := is_crypto_keyfail s + 1\<rparr>) s)
                      else
                        (case (if wk_flags k \<noteq> flags
                               then cip_rebind env mem2 rnd cip oflags (k, ctx) s
                               else (True, (k, ctx), s)) of
                           (False, ks, s) \<Rightarrow> (False, ks, s)
                         | (True, (k, ctx), s) \<Rightarrow>
                             (True,
                              (k\<lparr>wk_keyix := keyix, wk_rxkeyix := rxkeyix,
                                 wk_flags := wk_flags k OR KEY_DEVKEY\<rparr>, ctx), s))))"

text \<open>
  \<open>load\<close> is \<open>ieee80211_load_module\<close>: the table after the module, if there is one, has
  registered itself. A negative cipher number passes the check and indexes the table out of
  its bounds (\<open>None\<close>).
\<close>

definition ieee80211_crypto_newkey ::
  "'c crypto_env \<Rightarrow> 'd key_driver \<Rightarrow> (nat \<Rightarrow> cipher_table \<Rightarrow> cipher_table) \<Rightarrow> bool \<times> bool \<times> u32 \<Rightarrow> u32
     \<Rightarrow> int \<Rightarrow> u32 \<Rightarrow> 'c keyslot \<Rightarrow> cipher_table \<times> 'd key_state
     \<Rightarrow> (bool \<times> 'c keyslot \<times> cipher_table \<times> 'd key_state) option" where
  "ieee80211_crypto_newkey env drv load mr caps cipher flags ks st = (case st of (ciphers, s) \<Rightarrow>
     if cipher \<ge> int CIPHER_MAX then
       Some (False, ks, ciphers, ks_stat (\<lambda>s. s\<lparr>is_crypto_badcipher := is_crypto_badcipher s + 1\<rparr>) s)
     else if cipher < 0 then None
     else
       let c = nat cipher;
           ciphers = (if ciphers c = None then load c ciphers else ciphers)
       in case ciphers c of
            None \<Rightarrow>
              Some (False, ks, ciphers,
                ks_stat (\<lambda>s. s\<lparr>is_crypto_nocipher := is_crypto_nocipher s + 1\<rparr>) s)
          | Some cip \<Rightarrow>
              (case newkey_bind env drv mr caps (word_of_int cipher) (ic_cipher cip) flags ks s of
                 (ok, ks, s) \<Rightarrow> Some (ok, ks, ciphers, s)))"

definition ieee80211_crypto_resetkey :: "u16 \<Rightarrow> 'c keyslot \<Rightarrow> 'd key_state \<Rightarrow> 'c keyslot \<times> 'd key_state" where
  "ieee80211_crypto_resetkey ix ks s = (case ks of (k, ctx) \<Rightarrow>
     case none_attach (ks_vap s) of (ctx, v) \<Rightarrow>
       ((k\<lparr>wk_cipher := CIPHER_NONE, wk_keyix := ix, wk_rxkeyix := ix,
           wk_flags := KEY_XMIT OR KEY_RECV\<rparr>, ctx), s\<lparr>ks_vap := v\<rparr>))"

text \<open>\<open>memset(key, 0)\<close>; where the key lies (\<open>wk_nwidx\<close>) is not a field of the C structure.\<close>

definition zero_key :: "ieee80211_key \<Rightarrow> ieee80211_key" where
  "zero_key k = k\<lparr>wk_keylen := 0, wk_flags := 0, wk_keyix := 0, wk_rxkeyix := 0,
     wk_key := replicate 32 0, wk_keyrsc := replicate 17 0, wk_keytsc := 0, wk_cipher := 0\<rparr>"

definition ieee80211_crypto_delkey ::
  "'d key_driver \<Rightarrow> 'c keyslot \<Rightarrow> 'd key_state \<Rightarrow> bool \<times> 'c keyslot \<times> 'd key_state" where
  "ieee80211_crypto_delkey drv ks s = (case ks of (k, ctx) \<Rightarrow>
     let s = (if has_flag (wk_flags k) KEY_DEVKEY then
                (case iv_key_delete drv (ks_dev s) k of
                   (ok, d) \<Rightarrow>
                     let s = s\<lparr>ks_dev := d\<rparr>
                     in if ok then s
                        else ks_stat (\<lambda>s. s\<lparr>is_crypto_delkey := is_crypto_delkey s + 1\<rparr>) s)
              else s);
         s = cipher_detach (wk_cipher k) s
     in case ieee80211_crypto_resetkey 0xffff (zero_key k, NoneCtx) s of (ks, s) \<Rightarrow> (True, ks, s))"

fun ieee80211_crypto_delglobalkeys ::
  "'d key_driver \<Rightarrow> 'c keyslot list \<Rightarrow> 'd key_state \<Rightarrow> 'c keyslot list \<times> 'd key_state" where
  "ieee80211_crypto_delglobalkeys drv [] s = ([], s)"
| "ieee80211_crypto_delglobalkeys drv (ks # rest) s =
     (case ieee80211_crypto_delkey drv ks s of
        (_, ks, s) \<Rightarrow>
          (case ieee80211_crypto_delglobalkeys drv rest s of (rest, s) \<Rightarrow> (ks # rest, s)))"

definition cip_setkey ::
  "'c crypto_env \<Rightarrow> 'c keyslot \<Rightarrow> (bool \<times> 'c keyslot) option" where
  "cip_setkey env ks = (case ks of (k, ctx) \<Rightarrow>
     if wk_cipher k = CIPHER_WEP then Some (wep_setkey k, ks)
     else if wk_cipher k = CIPHER_TKIP then
       (case ctx of TkipCtx c \<Rightarrow>
          (case tkip_setkey k c of (ok, c) \<Rightarrow> Some (ok, (k, TkipCtx c))) | _ \<Rightarrow> None)
     else if wk_cipher k = CIPHER_AES_CCM then
       (case ctx of CcmpCtx c \<Rightarrow>
          (case ccmp_setkey (env_set_key env) k c of (ok, c) \<Rightarrow> Some (ok, (k, CcmpCtx c))) | _ \<Rightarrow> None)
     else if wk_cipher k = CIPHER_NONE then Some (none_setkey k, ks)
     else None)"

definition ieee80211_crypto_setkey ::
  "'c crypto_env \<Rightarrow> 'd key_driver \<Rightarrow> 'c keyslot \<Rightarrow> 'd key_state
     \<Rightarrow> (bool \<times> 'c keyslot \<times> 'd key_state) option" where
  "ieee80211_crypto_setkey env drv ks s =
     (if \<not> has_flag (wk_flags (fst ks)) KEY_DEVKEY then
        Some (False, ks, ks_stat (\<lambda>s. s\<lparr>is_crypto_setkey_nokey := is_crypto_setkey_nokey s + 1\<rparr>) s)
      else
        case cip_setkey env ks of
          None \<Rightarrow> None
        | Some (False, ks) \<Rightarrow>
            Some (False, ks,
              ks_stat (\<lambda>s. s\<lparr>is_crypto_setkey_cipher := is_crypto_setkey_cipher s + 1\<rparr>) s)
        | Some (True, ks) \<Rightarrow>
            (case iv_key_set drv (ks_dev s) (fst ks) of
               (ok, d) \<Rightarrow> Some (ok, ks, s\<lparr>ks_dev := d\<rparr>)))"

text \<open>\<open>ieee80211_crypto_vattach\<close>: the global keys of a new vap, unbound.\<close>

fun crypto_vattach_keys ::
  "'c keyslot list \<Rightarrow> 'd key_state \<Rightarrow> 'c keyslot list \<times> 'd key_state" where
  "crypto_vattach_keys [] s = ([], s)"
| "crypto_vattach_keys (ks # rest) s =
     (case ieee80211_crypto_resetkey 0xffff ks s of
        (ks, s) \<Rightarrow> (case crypto_vattach_keys rest s of (rest, s) \<Rightarrow> (ks # rest, s)))"

text \<open>
  \<open>ieee80211_crypto_reload_keys\<close>, on resume: every key with a device slot is set again, the
  global keys in order, then the unicast keys of the stations, for a vap in the run state.
\<close>

fun crypto_reload_keys ::
  "'d key_driver \<Rightarrow> bool \<Rightarrow> 'c keyslot list \<Rightarrow> 'd key_state \<Rightarrow> 'd key_state" where
  "crypto_reload_keys drv run [] s = s"
| "crypto_reload_keys drv run (ks # rest) s =
     crypto_reload_keys drv run rest
       (if run \<and> has_flag (wk_flags (fst ks)) KEY_DEVKEY
        then s\<lparr>ks_dev := snd (iv_key_set drv (ks_dev s) (fst ks))\<rparr> else s)"

end
