(* ===== verification/CcmpLoops.thy ===== *)
theory CcmpLoops
  imports Ccmp
begin

text \<open>
  The CCM reference on flat byte lists (CBC-MAC and counter mode block by block), and the
  equivalence of the chain loops of the CCMP module with it, where they are equivalent: the
  encryption loop when every mbuf between the first and the last has at least a block, the
  decryption loop when the data is in the first mbuf.
\<close>

section \<open>CCM on byte lists\<close>

function ccm_mac :: "(u8 list \<Rightarrow> u8 list) \<Rightarrow> u8 list \<Rightarrow> u8 list \<Rightarrow> u8 list" where
  "ccm_mac E a xs = (if xs = [] then a else ccm_mac E (E (xor_block 0 a (take 16 xs))) (drop 16 xs))"
  by pat_completeness auto
termination by (relation "measure (\<lambda>(E, a, xs). length xs)") auto

function ccm_ctr :: "(u8 list \<Rightarrow> u8 list) \<Rightarrow> u8 list \<Rightarrow> nat \<Rightarrow> u8 list \<Rightarrow> u8 list" where
  "ccm_ctr E b0 i xs =
     (if xs = [] then []
      else map2 (XOR) (take 16 xs) (E (ccmp_counter b0 i)) @ ccm_ctr E b0 (i + 1) (drop 16 xs))"
  by pat_completeness auto
termination by (relation "measure (\<lambda>(E, b0, i, xs). length xs)") auto

declare ccm_mac.simps [simp del] ccm_ctr.simps [simp del]

lemma ccm_nil [simp]: "ccm_mac E a [] = a" "ccm_ctr E b0 i [] = []"
  by (simp_all add: ccm_mac.simps [of _ _ "[]"] ccm_ctr.simps [of _ _ _ "[]"])

lemma ccm_block:
  assumes "length x = 16"
  shows "ccm_mac E a (x @ ys) = ccm_mac E (E (xor_block 0 a x)) ys"
    "ccm_ctr E b0 i (x @ ys) = map2 (XOR) x (E (ccmp_counter b0 i)) @ ccm_ctr E b0 (i + 1) ys"
proof -
  have "x \<noteq> []" using assms by auto
  then show "ccm_mac E a (x @ ys) = ccm_mac E (E (xor_block 0 a x)) ys"
    "ccm_ctr E b0 i (x @ ys) = map2 (XOR) x (E (ccmp_counter b0 i)) @ ccm_ctr E b0 (i + 1) ys"
    using assms by (simp_all add: ccm_mac.simps [of _ _ "x @ ys"] ccm_ctr.simps [of _ _ _ "x @ ys"])
qed

lemma ccm_short:
  assumes "0 < length x" "length x \<le> 16"
  shows "ccm_mac E a x = E (xor_block 0 a x)"
    "ccm_ctr E b0 i x = map2 (XOR) x (E (ccmp_counter b0 i))"
  using assms by (simp_all add: ccm_mac.simps [of _ _ x] ccm_ctr.simps [of _ _ _ x])

lemma map2_xor_cancel:
  "length x \<le> length k \<Longrightarrow> map2 (XOR) (map2 (XOR) x k) k = (x :: u8 list)"
proof (induction x arbitrary: k)
  case (Cons a x)
  then obtain b k' where "k = b # k'" by (cases k) auto
  with Cons show ?case by simp
qed simp

lemma length_ccmp_counter: "length b0 = 16 \<Longrightarrow> length (ccmp_counter b0 i) = 16"
  by (simp add: ccmp_counter_def)

lemma length_stream: "block_cipher E \<Longrightarrow> length b0 = 16 \<Longrightarrow> length (E (ccmp_counter b0 i)) = 16"
  by (simp add: block_cipher_def length_ccmp_counter)

lemma length_ccm_ctr:
  assumes "block_cipher E" "length b0 = 16"
  shows "length (ccm_ctr E b0 i xs) = length xs"
proof (induction xs arbitrary: i rule: length_induct)
  case (1 xs)
  show ?case
  proof (cases "xs = []")
    case False
    then have "length (drop 16 xs) < length xs" by simp
    then have "length (ccm_ctr E b0 (i + 1) (drop 16 xs)) = length xs - 16" using 1 by simp
    with False show ?thesis
      using length_stream [OF assms] by (simp add: ccm_ctr.simps [of _ _ _ xs])
  qed simp
qed

lemma ccm_ctr_invol:
  assumes "block_cipher E" "length b0 = 16"
  shows "ccm_ctr E b0 i (ccm_ctr E b0 i xs) = xs"
proof (induction xs arbitrary: i rule: length_induct)
  case (1 xs)
  let ?k = "E (ccmp_counter b0 i)"
  have lk: "length ?k = 16" by (rule length_stream [OF assms])
  consider "xs = []" | "0 < length xs" "length xs \<le> 16" | "16 < length xs" by fastforce
  then show ?case
  proof cases
    case 2
    then have "ccm_ctr E b0 i xs = map2 (XOR) xs ?k" "0 < length (map2 (XOR) xs ?k)"
      "length (map2 (XOR) xs ?k) \<le> 16"
      using lk by (simp_all add: ccm_short)
    then show ?thesis using 2 lk by (simp only: ccm_short) (simp add: map2_xor_cancel)
  next
    case 3
    define x where "x = take 16 xs"
    have x: "xs = x @ drop 16 xs" "length x = 16" using 3 by (simp_all add: x_def)
    have "length (drop 16 xs) < length xs" using 3 by simp
    then have ih: "ccm_ctr E b0 (i + 1) (ccm_ctr E b0 (i + 1) (drop 16 xs)) = drop 16 xs" using 1 by blast
    have "length (map2 (XOR) x ?k) = 16" using x lk by simp
    then have "ccm_ctr E b0 i (ccm_ctr E b0 i (x @ drop 16 xs)) = x @ drop 16 xs"
      using x(2) lk ih by (simp only: ccm_block) (simp add: map2_xor_cancel)
    then show ?thesis using x(1) by simp
  qed simp
qed

section \<open>The block macros\<close>

lemma xor_block_0: "length a \<le> length b \<Longrightarrow> xor_block 0 b a = map2 (XOR) (take (length a) b) a @ drop (length a) b"
  by (simp add: xor_block_def splice_def)

lemma length_xor_block [simp]: "k + length a \<le> length b \<Longrightarrow> length (xor_block k b a) = length b"
  by (simp add: xor_block_def splice_def)

lemma xor_block_append:
  assumes "length x + length y \<le> length b"
  shows "xor_block 0 (xor_block (length x) b y) x = xor_block 0 b (x @ y)"
proof -
  let ?b = "take (length x) b @ map2 (XOR) (take (length y) (drop (length x) b)) y @
    drop (length x + length y) b"
  have "xor_block (length x) b y = ?b"
    using assms by (simp add: xor_block_def splice_def min_def)
  moreover have "take (length x + length y) b = take (length x) b @ take (length y) (drop (length x) b)"
    by (rule take_add)
  ultimately show ?thesis
    using assms by (simp add: xor_block_0)
qed

lemma xor_stream:
  assumes "length pos \<le> length e"
  shows "xor_block 0 pos (take (length pos) e) = map2 (XOR) pos e"
proof -
  have "map2 (XOR) pos (take (length pos) e) = map2 (XOR) pos e"
    by (rule nth_equalityI) (use assms in simp_all)
  then show ?thesis using assms by (simp add: xor_block_0)
qed

lemma encrypt_block_eq:
  assumes "block_cipher E" "length b0 = 16" "length pos \<le> 16"
  shows "ccmp_encrypt_block E b0 i b pos =
    (E (xor_block 0 b pos), E (ccmp_counter b0 i), map2 (XOR) pos (E (ccmp_counter b0 i)))"
  using assms length_stream [OF assms(1,2)] by (simp add: ccmp_encrypt_block_def xor_stream Let_def)

lemma decrypt_block_eq:
  assumes "block_cipher E" "length b0 = 16" "length pos \<le> 16"
  shows "ccmp_decrypt_block E b0 i a pos =
    (E (ccmp_counter b0 i), map2 (XOR) pos (E (ccmp_counter b0 i)),
     E (xor_block 0 a (map2 (XOR) pos (E (ccmp_counter b0 i)))))"
  using assms length_stream [OF assms(1,2)] by (simp add: ccmp_decrypt_block_def xor_stream Let_def)

section \<open>The loops over the full blocks\<close>

lemma encrypt_full_eq:
  assumes "block_cipher E" "length b0 = 16"
  shows "ccmp_encrypt_full E b0 i b pos = (i', b', out, part) \<Longrightarrow> length b = 16 \<Longrightarrow>
    length b' = 16 \<and> length part < 16 \<and> length out + length part = length pos \<and>
    (\<forall>ys. ccm_mac E b (pos @ ys) = ccm_mac E b' (part @ ys)) \<and>
    (\<forall>ys. ccm_ctr E b0 i (pos @ ys) = out @ ccm_ctr E b0 i' (part @ ys))"
proof (induction pos arbitrary: i b out rule: length_induct)
  case (1 pos)
  show ?case
  proof (cases "length pos < 16")
    case True
    then show ?thesis using 1(2,3) by (simp add: ccmp_encrypt_full.simps [of _ _ _ _ pos])
  next
    case False
    let ?x = "take 16 pos" and ?k = "E (ccmp_counter b0 i)"
    define b1 where "b1 = E (xor_block 0 b ?x)"
    have x: "length ?x = 16" "?x @ drop 16 pos @ ys = pos @ ys" for ys
      using False by (simp_all flip: append_assoc)
    have l1: "length b1 = 16"
      using assms(1) 1(3) x by (simp add: b1_def block_cipher_def)
    obtain out1 where r: "ccmp_encrypt_full E b0 (i + 1) b1 (drop 16 pos) = (i', b', out1, part)"
      and o: "out = map2 (XOR) ?x ?k @ out1"
      using 1(2) False x(1) encrypt_block_eq [OF assms, of ?x i b]
      by (auto simp: ccmp_encrypt_full.simps [of _ _ _ _ pos] b1_def split: prod.splits)
    have "length (drop 16 pos) < length pos" using False by simp
    then have ih: "length b' = 16 \<and> length part < 16 \<and> length out1 + length part = length (drop 16 pos) \<and>
        (\<forall>ys. ccm_mac E b1 (drop 16 pos @ ys) = ccm_mac E b' (part @ ys)) \<and>
        (\<forall>ys. ccm_ctr E b0 (i + 1) (drop 16 pos @ ys) = out1 @ ccm_ctr E b0 i' (part @ ys))"
      using 1(1) r l1 by blast
    have m: "ccm_mac E b (pos @ ys) = ccm_mac E b1 (drop 16 pos @ ys)" for ys
      using ccm_block(1) [OF x(1), of E b "drop 16 pos @ ys"] by (simp only: x(2) b1_def)
    have c: "ccm_ctr E b0 i (pos @ ys) = map2 (XOR) ?x ?k @ ccm_ctr E b0 (i + 1) (drop 16 pos @ ys)" for ys
      using ccm_block(2) [OF x(1), of E b0 i "drop 16 pos @ ys"] by (simp only: x(2))
    have "length out1 + length part = length pos - 16" using ih by simp
    then have "16 + length out1 + length part = length pos" using False by linarith
    then show ?thesis
      using ih length_stream [OF assms, of i] by (simp add: m c o)
  qed
qed

lemma decrypt_full_eq:
  assumes "block_cipher E" "length b0 = 16"
  shows "ccmp_decrypt_full E b0 i a pos = (i', a', out, part) \<Longrightarrow> length a = 16 \<Longrightarrow>
    length a' = 16 \<and> length part < 16 \<and> length out + length part = length pos \<and>
    (\<forall>ys. ccm_mac E a (out @ ys) = ccm_mac E a' ys) \<and>
    (\<forall>ys. ccm_ctr E b0 i (pos @ ys) = out @ ccm_ctr E b0 i' (part @ ys))"
proof (induction pos arbitrary: i a out rule: length_induct)
  case (1 pos)
  show ?case
  proof (cases "length pos < 16")
    case True
    then show ?thesis using 1(2,3) by (simp add: ccmp_decrypt_full.simps [of _ _ _ _ pos])
  next
    case False
    let ?x = "take 16 pos" and ?k = "E (ccmp_counter b0 i)"
    define p where "p = map2 (XOR) ?x ?k"
    define a1 where "a1 = E (xor_block 0 a p)"
    have x: "length ?x = 16" "?x @ drop 16 pos @ ys = pos @ ys" for ys
      using False by (simp_all flip: append_assoc)
    have lp: "length p = 16" using x(1) length_stream [OF assms, of i] by (simp add: p_def)
    have l1: "length a1 = 16"
      using assms(1) 1(3) lp by (simp add: a1_def block_cipher_def)
    obtain out1 where r: "ccmp_decrypt_full E b0 (i + 1) a1 (drop 16 pos) = (i', a', out1, part)"
      and o: "out = p @ out1"
      using 1(2) False x(1) decrypt_block_eq [OF assms, of ?x i a]
      by (auto simp: ccmp_decrypt_full.simps [of _ _ _ _ pos] a1_def p_def split: prod.splits)
    have "length (drop 16 pos) < length pos" using False by simp
    then have ih: "length a' = 16 \<and> length part < 16 \<and> length out1 + length part = length (drop 16 pos) \<and>
        (\<forall>ys. ccm_mac E a1 (out1 @ ys) = ccm_mac E a' ys) \<and>
        (\<forall>ys. ccm_ctr E b0 (i + 1) (drop 16 pos @ ys) = out1 @ ccm_ctr E b0 i' (part @ ys))"
      using 1(1) r l1 by blast
    have m: "ccm_mac E a (p @ out1 @ ys) = ccm_mac E a1 (out1 @ ys)" for ys
      using ccm_block(1) [OF lp] by (simp add: a1_def)
    have c: "ccm_ctr E b0 i (pos @ ys) = p @ ccm_ctr E b0 (i + 1) (drop 16 pos @ ys)" for ys
      using ccm_block(2) [OF x(1), of E b0 i "drop 16 pos @ ys"] by (simp only: x(2) p_def)
    have "length out1 + length part = length pos - 16" using ih by simp
    then have "16 + length out1 + length part = length pos" using False by linarith
    then show ?thesis
      using ih lp by (simp add: m c o)
  qed
qed

section \<open>The decryption loop\<close>

lemma ccmp_decrypt_loop_0:
  "ccmp_decrypt_loop E b0 i a 0 cur rest = Some (a, cur # rest)"
  by (simp add: ccmp_decrypt_loop.simps [of _ _ _ _ 0] ccmp_decrypt_full.simps [of _ _ _ _ "[]"] Let_def)

text \<open>The data lies in the current mbuf; what follows it, there or in later mbufs, stays.\<close>

lemma ccmp_decrypt_loop_flat:
  assumes E: "block_cipher E" "length b0 = 16" and a: "length a = 16" and n: "n \<le> length cur"
    and plain_def: "plain = ccm_ctr E b0 i (take n cur)"
  shows "ccmp_decrypt_loop E b0 i a n cur rest = Some (ccm_mac E a plain, (plain @ drop n cur) # rest)"
proof -
  have sp: "(if length cur > n then n else length cur) = n" using n by simp
  obtain i' a' out part where f: "ccmp_decrypt_full E b0 i a (take n cur) = (i', a', out, part)"
    by (metis prod_cases4)
  note d = decrypt_full_eq [OF E f a]
  have lens: "length out + length part = n" "length part < 16" using d n by auto
  have plain: "plain = out @ ccm_ctr E b0 i' part"
    using d [THEN conjunct2, THEN conjunct2, THEN conjunct2, THEN conjunct2, rule_format, of "[]"]
    by (simp add: plain_def)
  have mac: "ccm_mac E a (out @ ys) = ccm_mac E a' ys" for ys using d by blast
  show ?thesis
  proof (cases "part = []")
    case True
    then show ?thesis
      using lens mac [of "[]"] by (simp add: ccmp_decrypt_loop.simps [of _ _ _ _ n] sp f Let_def plain)
  next
    case False
    define p where "p = ccm_ctr E b0 i' part"
    have pl: "0 < length part" "length part \<le> 16" using False lens by auto
    have blk: "ccmp_decrypt_block E b0 i' a' part = (E (ccmp_counter b0 i'), p, ccm_mac E a' p)"
      using decrypt_block_eq [OF E pl(2)] pl length_ccm_ctr [OF E, of i' part]
      by (simp add: p_def ccm_short)
    have nd: "n - length out = length part" "\<not> n \<le> length out" using lens(1) pl(1) by linarith+
    show ?thesis
    proof (cases rest)
      case Nil
      then show ?thesis
        using False pl by (simp add: ccmp_decrypt_loop.simps [of _ _ _ _ n] sp f Let_def nd blk plain mac p_def)
    next
      case (Cons m ms)
      then show ?thesis
        using False pl
        by (simp add: ccmp_decrypt_loop.simps [of _ _ _ _ n] sp f Let_def nd blk plain mac
            ccmp_decrypt_loop_0 flip: p_def)
    qed
  qed
qed

section \<open>The encryption loop\<close>

lemma ccmp_encrypt_loop_0:
  "d \<le> 0 \<Longrightarrow> ccmp_encrypt_loop E b0 i b d cur rest = (b, cur # rest)"
  by (cases cur) (simp_all add: ccmp_encrypt_loop.simps [of _ _ _ _ d] ccmp_encrypt_full.simps [of _ _ _ _ "[]"] Let_def)

text \<open>A block that ends in the next mbuf.\<close>

lemma straddle_two:
  assumes "length part + sn = min dl 16" "sn \<le> length m" "length part < dl \<or> sn = 0" "length part < 16"
  shows "ccmp_gather b (length part) dl (m # ms) = xor_block (length part) b (take sn m)"
    "ccmp_scatter e (length part) dl (m # ms) =
      ([], Some (xor_block 0 m (take sn (drop (length part) e)), sn, ms))"
proof -
  have "space_next dl (length part) = sn" using assms by (auto simp: space_next_def Let_def)
  with assms(2) show "ccmp_gather b (length part) dl (m # ms) = xor_block (length part) b (take sn m)"
    "ccmp_scatter e (length part) dl (m # ms) =
      ([], Some (xor_block 0 m (take sn (drop (length part) e)), sn, ms))"
    by simp_all
qed

lemma map2_xor_append:
  assumes "length x + length y \<le> length k"
  shows "map2 (XOR) (x @ y) k = map2 (XOR) x k @ map2 (XOR) y (take (length y) (drop (length x) k))"
proof -
  have "map2 (XOR) (x @ y) k = map2 (XOR) x k @ map2 (XOR) y (drop (length x) k)"
    by (rule nth_equalityI) (use assms in \<open>auto simp: nth_append\<close>)
  moreover have "map2 (XOR) y (drop (length x) k) = map2 (XOR) y (take (length y) (drop (length x) k))"
    by (rule nth_equalityI) (use assms in auto)
  ultimately show ?thesis by simp
qed

lemma xor_block_prefix:
  assumes "sn \<le> length m" "length a = sn"
  shows "take sn (xor_block 0 m a) = map2 (XOR) (take sn m) a" "drop sn (xor_block 0 m a) = drop sn m"
  using assms by (simp_all add: xor_block_0)

text \<open>Every mbuf of the rest but the last has at least a block.\<close>

definition wide :: "u8 list list \<Rightarrow> bool" where
  "wide rest \<longleftrightarrow> (\<forall>m \<in> set (butlast rest). 16 \<le> length m)"

lemma wide_tl: "wide (m # ms) \<Longrightarrow> wide ms"
  by (auto simp: wide_def split: if_splits)

lemma ccmp_encrypt_loop_flat:
  assumes E: "block_cipher E" "length b0 = 16"
  shows "length b = 16 \<Longrightarrow> wide rest \<Longrightarrow> int (length (cur @ concat rest)) = d \<Longrightarrow>
    \<exists>segs. ccmp_encrypt_loop E b0 i b d cur rest = (ccm_mac E b (cur @ concat rest), segs) \<and>
      concat segs = ccm_ctr E b0 i (cur @ concat rest) \<and>
      map length segs = map length (cur # rest)"
proof (induction rest arbitrary: i b d cur rule: length_induct)
  case (1 rest)
  have sp: "take (if int (length cur) > d then nat d else length cur) cur = cur"
    "drop (if int (length cur) > d then nat d else length cur) cur = []"
    using 1(4) by auto
  obtain i' b' out part where f: "ccmp_encrypt_full E b0 i b cur = (i', b', out, part)"
    by (metis prod_cases4)
  note fe = encrypt_full_eq [OF E f 1(2)]
  have lens: "length b' = 16" "length part < 16" "length out + length part = length cur" using fe by auto
  have mac: "ccm_mac E b (cur @ ys) = ccm_mac E b' (part @ ys)"
    and ctr: "ccm_ctr E b0 i (cur @ ys) = out @ ccm_ctr E b0 i' (part @ ys)" for ys
    using fe by blast+
  have d': "d - int (length out) = int (length part + length (concat rest))"
    using 1(4) lens(3) by simp
  note loop = ccmp_encrypt_loop.simps [of E b0 i b d cur rest, unfolded Let_def sp f prod.case d']
  show ?case
  proof (cases "part = [] \<and> concat rest = []")
    case True
    then have z: "ccmp_encrypt_loop E b0 i b d cur rest = (b', out # rest)"
      using loop by simp
    show ?thesis
      using True lens mac [of "[]"] ctr [of "[]"] z by (simp del: concat_eq_Nil_conv)
  next
    case ne: False
    then have pos: "\<not> int (length part + length (concat rest)) \<le> 0"
      by (metis length_0_conv of_nat_le_0_iff add_is_0)
    show ?thesis
    proof (cases rest)
      case Nil
      with ne have p: "part \<noteq> []" "0 < length part" "length part \<le> 16" using lens by auto
      show ?thesis
        using p lens loop encrypt_block_eq [OF E p(3), of i' b'] mac [of "[]"] ctr [of "[]"]
          ccm_short [OF p(2,3)] length_stream [OF E, of i'] pos
        by (simp add: Nil)
    next
      case (Cons m ms)
      show ?thesis
      proof (cases "part = []")
        case True
        have "length ms < length rest" by (simp add: Cons)
        then obtain segs where s: "ccmp_encrypt_loop E b0 i' b' (int (length (m @ concat ms))) m ms =
            (ccm_mac E b' (m @ concat ms), segs)"
          "concat segs = ccm_ctr E b0 i' (m @ concat ms)" "map length segs = map length (m # ms)"
          using 1(1) lens(1) wide_tl 1(3) Cons by blast
        have z: "ccmp_encrypt_loop E b0 i b d cur rest = (ccm_mac E b' (m @ concat ms), out # segs)"
          using loop pos s(1) by (simp add: Cons True)
        show ?thesis
          using z s lens True by (simp add: Cons mac ctr)
      next
        case False
        define dl where "dl = length part + length (concat rest)"
        define sn where "sn = min dl 16 - length part"
        define k where "k = E (ccmp_counter b0 i')"
        have snm: "sn \<le> length m"
        proof (cases "ms = []")
          case False
          then have "16 \<le> length m" using 1(3) Cons by (simp add: wide_def)
          then show ?thesis by (simp add: sn_def)
        qed (simp add: sn_def dl_def Cons)
        have psn: "length part + sn = min dl 16" using lens(2) by (simp add: sn_def dl_def)
        have c3: "length part < dl \<or> sn = 0" 
          by (cases "concat rest = []") (simp_all add: dl_def sn_def del: concat_eq_Nil_conv)
        note st = straddle_two [OF psn snm c3 lens(2)]
        have lk: "length k = 16" by (simp add: k_def length_stream [OF E])
        define blk where "blk = part @ take sn m"
        have lb: "length blk = min dl 16" using psn snm by (simp add: blk_def)
        define b2 where "b2 = E (xor_block 0 b' blk)"
        have b2: "b2 = E (xor_block 0 (xor_block (length part) b' (take sn m)) part)"
          using xor_block_append [of part "take sn m" b'] psn snm lens(1) by (simp add: b2_def blk_def)
        have lb2: "length b2 = 16" using E(1) lens(1) lb by (simp add: b2_def block_cipher_def)
        have rest_eq: "part @ concat rest = blk @ drop sn m @ concat ms"
          by (simp add: blk_def Cons)
        have pl: "length part \<le> 16" using lens(2) by simp
        define X where "X = drop sn m @ concat ms"
        define ks where "ks = take sn (drop (length part) k)"
        have lks: "length ks = sn" using psn lk by (simp add: ks_def)
        have nz: "\<not> int dl \<le> 0" using pos by (simp add: dl_def)
        have z: "ccmp_encrypt_loop E b0 i b d cur rest =
          (case ccmp_encrypt_loop E b0 (i' + 1) b2 (int dl - 16) (drop sn m) ms of
             (b, segs) \<Rightarrow> (b, (out @ map2 (XOR) part k) # (map2 (XOR) (take sn m) ks @ hd segs) # tl segs))"
          unfolding loop unfolding dl_def [symmetric] if_not_P [OF nz] unfolding Cons
          using False by (simp add: st encrypt_block_eq [OF E pl] nat_int
              xor_block_prefix [OF snm lks] flip: k_def b2 ks_def
              del: ccmp_gather.simps ccmp_scatter.simps)
        have X: "length blk + length X = dl"
          using snm by (simp add: X_def blk_def dl_def Cons)
        have "\<exists>segs. ccmp_encrypt_loop E b0 (i' + 1) b2 (int dl - 16) (drop sn m) ms =
            (ccm_mac E b2 X, segs) \<and> concat segs = ccm_ctr E b0 (i' + 1) X \<and>
            map length segs = map length (drop sn m # ms)"
        proof (cases "16 \<le> dl")
          case True
          then have "int (length (drop sn m @ concat ms)) = int dl - 16"
            using X lb by (simp add: X_def)
          moreover have "length ms < length rest" by (simp add: Cons)
          ultimately show ?thesis
            using 1(1) lb2 wide_tl 1(3) Cons unfolding X_def by blast
        next
          case False
          then have x0: "X = []" using X lb by simp
          then have "concat (drop sn m # ms) = []" by (simp add: X_def)
          with False show ?thesis by (simp add: x0 ccmp_encrypt_loop_0 del: concat_eq_Nil_conv)
        qed
        then obtain segs where s: "ccmp_encrypt_loop E b0 (i' + 1) b2 (int dl - 16) (drop sn m) ms =
            (ccm_mac E b2 X, segs)" "concat segs = ccm_ctr E b0 (i' + 1) X"
          "map length segs = map length (drop sn m # ms)" by blast
        have fin: "ccm_mac E b' (blk @ X) = ccm_mac E b2 X"
          "ccm_ctr E b0 i' (blk @ X) = map2 (XOR) blk k @ ccm_ctr E b0 (i' + 1) X"
        proof -
          consider "length blk = 16" | "X = []" "0 < length blk" "length blk \<le> 16"
            using X lb nz by (cases "16 \<le> dl") auto
          then have "ccm_mac E b' (blk @ X) = ccm_mac E b2 X \<and>
            ccm_ctr E b0 i' (blk @ X) = map2 (XOR) blk k @ ccm_ctr E b0 (i' + 1) X"
            by cases (simp_all add: ccm_block ccm_short b2_def k_def)
          then show "ccm_mac E b' (blk @ X) = ccm_mac E b2 X"
            "ccm_ctr E b0 i' (blk @ X) = map2 (XOR) blk k @ ccm_ctr E b0 (i' + 1) X" by auto
        qed
        have mb: "map2 (XOR) blk k = map2 (XOR) part k @ map2 (XOR) (take sn m) ks"
          using map2_xor_append [of part "take sn m" k] psn snm lk by (simp add: blk_def ks_def)
        have ne2: "segs \<noteq> []" using s(3) by auto
        have hs: "length (hd segs) = length m - sn" "map length (tl segs) = map length ms"
          using s(3) ne2 by (cases segs; simp)+
        show ?thesis
        proof (intro exI conjI)
          show "ccmp_encrypt_loop E b0 i b d cur rest = (ccm_mac E b (cur @ concat rest),
            (out @ map2 (XOR) part k) # (map2 (XOR) (take sn m) ks @ hd segs) # tl segs)"
            unfolding z mac rest_eq X_def [symmetric] fin s(1) by simp
          show "concat ((out @ map2 (XOR) part k) # (map2 (XOR) (take sn m) ks @ hd segs) # tl segs) =
            ccm_ctr E b0 i (cur @ concat rest)"
            unfolding ctr rest_eq X_def [symmetric] fin mb using concat_hd_tl [OF ne2] s(2) by simp
          show "map length ((out @ map2 (XOR) part k) # (map2 (XOR) (take sn m) ks @ hd segs) # tl segs) =
            map length (cur # rest)"
            using hs lens lk snm lks by (simp add: Cons)
        qed
      qed
    qed
  qed
qed

end
