(* ===== verification/CcmpProps.thy ===== *)
theory CcmpProps
  imports CcmpLoops Replay
begin

text \<open>
  Properties of the CCMP module: what encapsulation sends is the CCM encryption of the frame,
  what decapsulation accepts is exactly such frames, and the two compose to a round trip;
  replay protection; and no counter block is used twice.
\<close>

section \<open>The blocks of a frame\<close>

lemma ccmp_nonce_same_hdr: "same_hdr a b \<Longrightarrow> ccmp_nonce a pn = ccmp_nonce b pn"
  using same_hdr_nth [of a b 24] same_hdr_nth [of a b 30]
  by (auto simp: ccmp_nonce_def same_hdr_bits same_hdr_addr ieee80211_hdrsize_def)

lemma ccmp_aad_same_hdr:
  assumes "same_hdr a b"
  shows "ccmp_aad a = ccmp_aad b"
proof -
  have "take 18 (drop 4 a) = take 18 (drop 4 b)"
    by (rule same_hdr_take_drop [OF assms]) (simp add: ieee80211_hdrsize_def)
  moreover have "a ! 0 = b ! 0" "a ! 1 = b ! 1" "a ! 22 = b ! 22"
    using same_hdr_nth24 [OF assms] by simp_all
  ultimately show ?thesis
    using same_hdr_nth [OF assms, of 24] same_hdr_nth [OF assms, of 30] same_hdr_addr(4) [OF assms]
    by (auto simp: ccmp_aad_def Let_def same_hdr_bits [OF assms] ieee80211_hdrsize_def)
qed

lemma ccmp_init_same_hdr: "same_hdr a b \<Longrightarrow> ccmp_init_blocks E a pn n = ccmp_init_blocks E b pn n"
  by (simp add: ccmp_init_blocks_def ccmp_nonce_same_hdr ccmp_aad_same_hdr)

lemma length_ccmp_nonce: "16 \<le> length wh \<Longrightarrow> length (ccmp_nonce wh pn) = 13"
  by (simp add: ccmp_nonce_def i_addr2_def)

lemma length_ccmp_aad:
  assumes "ieee80211_hdrsize wh \<le> length wh"
  shows "length (ccmp_aad wh) = 32"
  using assms by (auto simp: ccmp_aad_def i_addr4_def ieee80211_hdrsize_def Let_def split: if_splits)

lemma ccmp_init_lengths:
  assumes "block_cipher E" "ieee80211_hdrsize wh \<le> length wh"
    and "ccmp_init_blocks E wh pn n = (b0, auth, s0)"
  shows "length b0 = 16" "length auth = 16" "length s0 = 16"
    "b0 = 1 # ccmp_nonce wh pn @ [0, 0]"
proof -
  have l: "length (ccmp_nonce wh pn) = 13" "length (ccmp_aad wh) = 32"
    using assms(2) length_ccmp_nonce [of wh pn] length_ccmp_aad [of wh]
    by (simp_all add: ieee80211_hdrsize_def)
  have a: "(0x59 :: u8) AND 7 = 1" by simp
  show b: "b0 = 1 # ccmp_nonce wh pn @ [0, 0]"
    using assms(3) l by (auto simp: ccmp_init_blocks_def Let_def a)
  show "length b0 = 16" "length auth = 16" "length s0 = 16"
    using assms(1,3) l b by (auto simp: ccmp_init_blocks_def Let_def block_cipher_def)
qed

text \<open>A frame body and its MIC, encrypted.\<close>

definition ccmp_seal :: "(u8 list \<Rightarrow> u8 list) \<Rightarrow> u8 list \<Rightarrow> u64 \<Rightarrow> u8 list \<Rightarrow> u8 list" where
  "ccmp_seal E wh pn body =
     (case ccmp_init_blocks E wh pn (int (length body)) of
        (b0, auth, s0) \<Rightarrow>
          ccm_ctr E b0 1 body @ map2 (XOR) (take 8 (ccm_mac E auth body)) (take 8 s0))"

lemma ccmp_seal_same_hdr: "same_hdr a b \<Longrightarrow> ccmp_seal E a pn body = ccmp_seal E b pn body"
  by (simp add: ccmp_seal_def ccmp_init_same_hdr)

lemma length_ccm_mac:
  assumes "block_cipher E"
  shows "length a = 16 \<Longrightarrow> length (ccm_mac E a xs) = 16"
proof (induction xs arbitrary: a rule: length_induct)
  case (1 xs)
  then show ?case
    using assms by (cases "xs = []") (simp_all add: ccm_mac.simps [of _ _ xs] block_cipher_def)
qed

lemma length_ccmp_seal:
  assumes "block_cipher E" "ieee80211_hdrsize wh \<le> length wh"
  shows "length (ccmp_seal E wh pn body) = length body + 8"
proof -
  obtain b0 auth s0 where i: "ccmp_init_blocks E wh pn (int (length body)) = (b0, auth, s0)"
    by (metis prod_cases3)
  note l = ccmp_init_lengths [OF assms i]
  show ?thesis
    using length_ccm_ctr [OF assms(1) l(1)] length_ccm_mac [OF assms(1) l(2)] l(3)
    by (simp add: ccmp_seal_def i)
qed

section \<open>Encapsulation\<close>

definition ccmp_exempt :: "ieee80211_key \<Rightarrow> u8 list \<Rightarrow> bool" where
  "ccmp_exempt k wh \<longleftrightarrow>
     (if IEEE80211_IS_MGMT wh then has_flag (wk_flags k) KEY_NOIVMGT else has_flag (wk_flags k) KEY_NOIV)"

lemma length_ccmp_setiv [simp]: "length (snd (ccmp_setiv k)) = 8"
  by (simp add: ccmp_setiv_def Let_def)

lemma fst_ccmp_setiv: "fst (ccmp_setiv k) = k\<lparr>wk_keytsc := wk_keytsc k + 1\<rparr>"
  by (simp add: ccmp_setiv_def Let_def)

lemma ccmp_encrypt_flat:
  assumes E: "block_cipher E" and app: "appends app" "\<forall>segs bs. app segs bs \<noteq> None"
    and m: "m_segs m \<noteq> []" "h + 8 \<le> length (mtod m)" "wide (tl (m_segs m))"
      "ieee80211_hdrsize (mtod m) \<le> h"
  shows "\<exists>vap' segs. ccmp_encrypt E app h (vap, k, m) = Some (True, vap', m\<lparr>m_segs := segs\<rparr>) \<and>
    concat segs = take (h + 8) (concat (m_segs m)) @
      ccmp_seal E (mtod m) (wk_keytsc k) (drop (h + 8) (concat (m_segs m)))"
proof -
  define cur where "cur = drop (h + 8) (mtod m)"
  define body where "body = cur @ concat (tl (m_segs m))"
  have body: "drop (h + 8) (concat (m_segs m)) = body" "take (h + 8) (concat (m_segs m)) = take (h + 8) (mtod m)"
    using m(1,2) by (simp_all add: body_def cur_def concat_hd_tl)
  have dl: "int (pktlen (m_segs m)) - (int h + 8) = int (length body)"
    using m(1,2) by (simp add: pktlen_def body_def cur_def concat_hd_tl)
  obtain b0 auth s0 where i: "ccmp_init_blocks E (mtod m) (wk_keytsc k) (int (length body)) = (b0, auth, s0)"
    by (metis prod_cases3)
  have hz: "ieee80211_hdrsize (mtod m) \<le> length (mtod m)" using m(2,4) by simp
  note l = ccmp_init_lengths [OF E hz i]
  obtain segs where s: "ccmp_encrypt_loop E b0 1 auth (int (length body)) cur (tl (m_segs m)) =
      (ccm_mac E auth body, segs)"
    "concat segs = ccm_ctr E b0 1 body" "map length segs = map length (cur # tl (m_segs m))"
    using ccmp_encrypt_loop_flat [OF E l(1,2) m(3), of cur _ 1] unfolding body_def [symmetric] by blast
  define mic where "mic = take 8 (xor_block 0 (ccm_mac E auth body) (take 8 s0))"
  define segs1 where "segs1 = (take (h + 8) (mtod m) @ hd segs) # tl segs"
  have ne: "segs \<noteq> []" using s(3) by auto
  obtain segs2 where a: "app segs1 mic = Some segs2" using app(2) by fastforce
  have c2: "concat segs2 = concat segs1 @ mic"
    using app(1) a unfolding appends_def segs1_def by blast
  have c1: "concat segs1 = take (h + 8) (mtod m) @ ccm_ctr E b0 1 body"
    using s(2) concat_hd_tl [OF ne] by (simp add: segs1_def)
  have lm: "length (ccm_mac E auth body) = 16" by (rule length_ccm_mac [OF E l(2)])
  have mic: "mic = map2 (XOR) (take 8 (ccm_mac E auth body)) (take 8 s0)"
    using lm l(3) by (simp add: mic_def xor_block_0)
  have "ccmp_encrypt E app h (vap, k, m) =
      Some (True, stat (\<lambda>s. s\<lparr>is_crypto_ccmp := is_crypto_ccmp s + 1\<rparr>) vap, m\<lparr>m_segs := segs2\<rparr>)"
    using m(1,2) by (simp add: ccmp_encrypt_def Let_def dl i s(1) a
        del: One_nat_def flip: cur_def mic_def segs1_def)
  then show ?thesis
    by (intro exI conjI, assumption) (simp add: c2 c1 mic body ccmp_seal_def i)
qed

lemma ccmp_encap_flat:
  assumes env: "block_cipher (aes (cc_aes ctx))" "prepends pre" "appends app"
      "\<forall>segs n. pre segs n \<noteq> None" "\<forall>segs bs. app segs bs \<noteq> None"
    and m: "m_segs m \<noteq> []" "h = ieee80211_hdrspace (ic_flags vap) (mtod m)" "h \<le> length (mtod m)"
      "wide (tl (m_segs m))"
    and k: "\<not> ccmp_exempt k (mtod m)" "has_flag (wk_flags k) KEY_SWENCRYPT"
  shows "\<exists>vap' m'. ccmp_encap aes pre app (vap, k, ctx, m) =
      Some (True, vap', k\<lparr>wk_keytsc := wk_keytsc k + 1\<rparr>, m') \<and>
    concat (m_segs m') = take h (concat (m_segs m)) @ snd (ccmp_setiv k) @
      ccmp_seal (aes (cc_aes ctx)) (mtod m) (wk_keytsc k + 1) (drop h (concat (m_segs m)))"
proof -
  define iv where "iv = snd (ccmp_setiv k)"
  define k1 where "k1 = k\<lparr>wk_keytsc := wk_keytsc k + 1\<rparr>"
  have si: "ccmp_setiv k = (k1, iv)" unfolding iv_def k1_def fst_ccmp_setiv [symmetric] by simp
  have liv: "length iv = 8" by (simp add: iv_def)
  obtain segs0 where p: "pre (m_segs m) 8 = Some segs0" using env(4) by fastforce
  obtain junk where j: "length junk = 8" "segs0 = (junk @ mtod m) # tl (m_segs m)"
    using env(2) p m(1) unfolding prepends_def by blast
  define first where "first = take h (mtod m) @ iv @ drop h (mtod m)"
  define m1 where "m1 = m\<lparr>m_segs := first # tl (m_segs m)\<rparr>"
  have ins: "splice (splice (hd segs0) 0 (take h (drop 8 (hd segs0)))) h iv = first"
    using insert_bytes [of junk iv h "mtod m"] m(3) j liv by (simp add: first_def)
  have hz: "ieee80211_hdrsize (mtod m) \<le> h" unfolding m(2) by (rule hdrspace_bounds)
  have sh: "same_hdr (mtod m) first" unfolding first_def by (rule same_hdr_append [OF hz m(3)])
  have hz1: "ieee80211_hdrsize (mtod m1) \<le> h"
    using hz same_hdr_hdrsize [OF sh] by (simp add: m1_def)
  have m1: "m_segs m1 \<noteq> []" "h + 8 \<le> length (mtod m1)" "wide (tl (m_segs m1))"
    using m(3,4) liv by (simp_all add: m1_def first_def)
  have cs: "take (h + 8) (concat (m_segs m1)) = take h (concat (m_segs m)) @ iv"
    "drop (h + 8) (concat (m_segs m1)) = drop h (concat (m_segs m))"
    using m(1,3) liv by (simp_all add: m1_def first_def concat_hd_tl)
  obtain vap' segs where e: "ccmp_encrypt (aes (cc_aes ctx)) app h (vap, k1, m1) =
      Some (True, vap', m1\<lparr>m_segs := segs\<rparr>)"
    and c: "concat segs = take (h + 8) (concat (m_segs m1)) @
      ccmp_seal (aes (cc_aes ctx)) (mtod m1) (wk_keytsc k1) (drop (h + 8) (concat (m_segs m1)))"
    using ccmp_encrypt_flat [OF env(1,3,5) m1 hz1, of vap k1] by blast
  have ex: "\<not> (IEEE80211_IS_MGMT (mtod m) \<and> has_flag (wk_flags k) KEY_NOIVMGT)"
    "\<not> (\<not> IEEE80211_IS_MGMT (mtod m) \<and> has_flag (wk_flags k) KEY_NOIV)"
    using k(1) by (auto simp: ccmp_exempt_def)
  have len0: "\<not> (segs0 = [] \<or> length (hd segs0) < 8 + h)" "tl segs0 = tl (m_segs m)"
    using j m(3) by simp_all
  have fl: "has_flag (wk_flags k1) KEY_SWENCRYPT" using k(2) by (simp add: k1_def)
  have w: "ccmp_encap aes pre app (vap, k, ctx, m) = Some (True, vap', k1, m1\<lparr>m_segs := segs\<rparr>)"
    unfolding ccmp_encap_def prod.case Let_def m(2) [symmetric] p option.case si ins len0(2)
      m1_def [symmetric] if_not_P [OF ex(1)] if_not_P [OF ex(2)] if_not_P [OF len0(1)]
    by (simp add: fl e)
  have sl: "ccmp_seal (aes (cc_aes ctx)) (mtod m1) pn b = ccmp_seal (aes (cc_aes ctx)) (mtod m) pn b" for pn b
    using ccmp_seal_same_hdr [OF sh] by (simp add: m1_def)
  have fin: "concat segs = take h (concat (m_segs m)) @ snd (ccmp_setiv k) @
      ccmp_seal (aes (cc_aes ctx)) (mtod m) (wk_keytsc k + 1) (drop h (concat (m_segs m)))"
    by (simp add: c cs sl iv_def) (simp add: k1_def)
  show ?thesis
    by (rule exI [of _ vap'], rule exI [of _ "m1\<lparr>m_segs := segs\<rparr>"]) (simp add: w fin flip: k1_def)
qed

text \<open>
  C27. What \<open>ccmp_encap\<close> sends is the CCM encryption of the frame: however the frame is cut
  into mbufs, as long as the header is in the first one and no mbuf in the middle is
  shorter than a block, header, IV, cipher text and MIC are those of the block by block
  definition on the flat bytes, under the next packet number.
\<close>

theorem ccmp_encap_ccm:
  assumes env: "block_cipher (aes (cc_aes ctx))" "prepends pre" "appends app"
      "\<forall>segs n. pre segs n \<noteq> None" "\<forall>segs bs. app segs bs \<noteq> None"
    and m: "m_segs m \<noteq> []" "h = ieee80211_hdrspace (ic_flags vap) (mtod m)" "h \<le> length (mtod m)"
      "wide (tl (m_segs m))"
    and k: "\<not> ccmp_exempt k (mtod m)" "has_flag (wk_flags k) KEY_SWENCRYPT"
  shows "\<exists>vap' m'. ccmp_encap aes pre app (vap, k, ctx, m) =
      Some (True, vap', k\<lparr>wk_keytsc := wk_keytsc k + 1\<rparr>, m') \<and>
    concat (m_segs m') = take h (concat (m_segs m)) @ snd (ccmp_setiv k) @
      ccmp_seal (aes (cc_aes ctx)) (mtod m) (wk_keytsc k + 1) (drop h (concat (m_segs m)))"
  by (rule ccmp_encap_flat [where aes = aes and ctx = ctx, OF assms])

section \<open>Decapsulation\<close>

text \<open>A received frame: header, IV and data in the first mbuf, the MIC anywhere behind.\<close>

definition ccmp_rx_frame :: "nat \<Rightarrow> mbuf \<Rightarrow> bool" where
  "ccmp_rx_frame h m \<longleftrightarrow> m_segs m \<noteq> [] \<and> m_rxs m = None \<and> h + 8 \<le> length (mtod m) \<and>
     pktlen (m_segs m) \<le> length (mtod m) + 8 \<and> h + 16 \<le> pktlen (m_segs m) \<and> pktlen (m_segs m) < 2 ^ 32"

definition ccmp_rx_pn :: "nat \<Rightarrow> u8 list \<Rightarrow> u64" where
  "ccmp_rx_pn h wh = (let ivp = drop h wh in
     READ_6 (ivp ! 0) (ivp ! 1) (ivp ! 4) (ivp ! 5) (ivp ! 6) (ivp ! 7))"

lemma map2_xor_swap:
  assumes "length x = length y" "length z = length y"
  shows "map2 (XOR) x y = z \<longleftrightarrow> x = map2 (XOR) z (y :: u8 list)"
  using assms map2_xor_cancel [of x y] map2_xor_cancel [of z y] by auto

lemma m_copydata_tail:
  assumes "8 \<le> pktlen segs"
  shows "m_copydata segs (pktlen segs - 8) 8 = Some (drop (pktlen segs - 8) (concat segs))"
  using assms by (simp add: m_copydata_def pktlen_def)

lemma ccmp_decrypt_flat:
  assumes E: "block_cipher E" and m: "ccmp_rx_frame h m" "ieee80211_hdrsize (mtod m) \<le> h"
    and plain: "length plain = pktlen (m_segs m) - (h + 16)"
    and ok: "ok \<longleftrightarrow> drop (h + 8) (concat (m_segs m)) = ccmp_seal E (mtod m) pn plain"
    and dec: "\<exists>b0 auth s0. ccmp_init_blocks E (mtod m) pn (int (length plain)) = (b0, auth, s0) \<and>
      plain = ccm_ctr E b0 1 (take (length plain) (drop (h + 8) (mtod m)))"
  shows "\<exists>vap' segs. ccmp_decrypt E pn h (vap, k, m) = Some (ok, vap', m\<lparr>m_segs := segs\<rparr>) \<and>
    ic_flags vap' = ic_flags vap \<and> map length segs = map length (m_segs m) \<and>
    take (pktlen (m_segs m) - 8) (concat segs) = take (h + 8) (mtod m) @ plain"
proof -
  define wh where "wh = mtod m"
  define C where "C = concat (m_segs m)"
  define cur where "cur = drop (h + 8) wh"
  have r: "m_segs m \<noteq> []" "h + 8 \<le> length wh" "length C \<le> length wh + 8" "h + 16 \<le> length C"
    "length C < 2 ^ 32"
    using m(1) by (simp_all add: ccmp_rx_frame_def wh_def C_def pktlen_def)
  have pl: "length plain = length C - (h + 16)" using plain by (simp add: C_def pktlen_def)
  have n: "u_int_diff (pktlen (m_segs m)) (h + 8 + 8) = length plain"
    using u_int_diff_eq [of "h + 8 + 8" "pktlen (m_segs m)"] r pl by (simp add: C_def pktlen_def)
  have cut: "length plain \<le> length cur" using r pl by (simp add: cur_def)
  obtain b0 auth s0 where i: "ccmp_init_blocks E wh pn (int (length plain)) = (b0, auth, s0)"
    and pc: "plain = ccm_ctr E b0 1 (take (length plain) cur)"
    using dec unfolding wh_def cur_def by blast
  have hz: "ieee80211_hdrsize wh \<le> length wh" using m(2) r(2) by (simp add: wh_def)
  note l = ccmp_init_lengths [OF E hz i]
  have loop: "ccmp_decrypt_loop E b0 1 auth (length plain) cur (tl (m_segs m)) =
      Some (ccm_mac E auth plain, (plain @ drop (length plain) cur) # tl (m_segs m))"
    by (rule ccmp_decrypt_loop_flat [OF E l(1,2) cut pc])
  define mic where "mic = drop (length C - 8) C"
  have lm: "length mic = 8" "length (take 8 (ccm_mac E auth plain)) = 8" "length (take 8 s0) = 8"
    using r l(3) length_ccm_mac [OF E l(2)] by (simp_all add: mic_def)
  have tail: "C = wh @ concat (tl (m_segs m))" using r(1) by (simp add: C_def wh_def concat_hd_tl)
  have body: "drop (h + 8) C = take (length plain) cur @ mic"
  proof -
    have "take (length plain) (drop (h + 8) C) = take (length plain) cur"
      using r(2) cut by (simp add: tail cur_def)
    moreover have "drop (length plain) (drop (h + 8) C) = mic"
      using r pl by (simp add: mic_def)
    ultimately show ?thesis by (metis append_take_drop_id)
  qed
  have ct: "ccm_ctr E b0 1 plain = take (length plain) cur"
    using pc ccm_ctr_invol [OF E l(1)] by metis
  have ok': "ok \<longleftrightarrow> xor_block 0 mic (take 8 s0) = take 8 (ccm_mac E auth plain)"
    unfolding ok C_def [symmetric] wh_def [symmetric] body ccmp_seal_def i prod.case ct
    using lm map2_xor_swap [of mic "take 8 s0" "take 8 (ccm_mac E auth plain)"] by (simp add: xor_block_0)
  define segs where "segs = (take (h + 8) wh @ plain @ drop (length plain) cur) # tl (m_segs m)"
  have cd: "m_copydata (m_segs m) (pktlen (m_segs m) - 8) 8 = Some mic"
    using m_copydata_tail [of "m_segs m"] r by (simp add: mic_def C_def pktlen_def)
  have len8: "\<not> (m_segs m = [] \<or> length wh < h + 8 \<or> pktlen (m_segs m) < 8)"
    using r by (simp add: C_def pktlen_def)
  have "\<exists>vap'. ccmp_decrypt E pn h (vap, k, m) = Some (ok, vap', m\<lparr>m_segs := segs\<rparr>) \<and>
      ic_flags vap' = ic_flags vap"
    unfolding ccmp_decrypt_def prod.case Let_def n wh_def [symmetric] if_not_P [OF len8] i cd option.case
      cur_def [symmetric] loop list.sel segs_def [symmetric]
    using ok' by (cases ok) (simp_all add: stat_def)
  moreover have "map length segs = map length (m_segs m)"
    using r(1,2) cut by (cases "m_segs m") (simp_all add: segs_def wh_def cur_def)
  moreover have "take (pktlen (m_segs m) - 8) (concat segs) = take (h + 8) (mtod m) @ plain"
    using r pl by (simp add: segs_def wh_def C_def pktlen_def)
  ultimately show ?thesis by blast
qed

text \<open>A sealed body determines the plain text.\<close>

lemma ccmp_seal_plain:
  assumes E: "block_cipher E" and wh: "ieee80211_hdrsize wh \<le> length wh"
    and s: "D = ccmp_seal E wh pn plain"
    and i: "ccmp_init_blocks E wh pn (int (length D - 8)) = (b0, auth, s0)"
  shows "length plain = length D - 8" "plain = ccm_ctr E b0 1 (take (length D - 8) D)"
proof -
  show l: "length plain = length D - 8" using length_ccmp_seal [OF E wh] s by simp
  note b = ccmp_init_lengths [OF E wh i]
  have "D = ccm_ctr E b0 1 plain @ map2 (XOR) (take 8 (ccm_mac E auth plain)) (take 8 s0)"
    by (rule trans [OF s]) (simp only: ccmp_seal_def l i prod.case)
  then have "take (length plain) D = ccm_ctr E b0 1 plain"
    using length_ccm_ctr [OF E b(1), of 1 plain] by (metis append_eq_conv_conj)
  then have "take (length D - 8) D = ccm_ctr E b0 1 plain" by (simp only: l)
  then show "plain = ccm_ctr E b0 1 (take (length D - 8) D)"
    using ccm_ctr_invol [OF E b(1)] by simp
qed

lemma ccmp_decap_flat:
  assumes E: "block_cipher (aes (cc_aes ctx))"
    and m: "ccmp_rx_frame h m" "h = ieee80211_hdrspace f (mtod m)"
    and k: "has_flag (wk_flags k) KEY_SWDECRYPT"
    and iv: "(mtod m ! (h + 3)) AND 0x20 \<noteq> 0"
    and pn: "wk_keyrsc k ! ieee80211_gettid (mtod m) < ccmp_rx_pn h (mtod m) \<or> has_flag (wk_flags k) KEY_NOREPLAY"
  defines "D \<equiv> drop (h + 8) (concat (m_segs m))"
  shows "\<exists>ok vap' k' m'. ccmp_decap aes h (vap, k, ctx, m) = Some (ok, vap', k', m') \<and>
    ic_flags vap' = ic_flags vap \<and>
    (ok \<longleftrightarrow> (\<exists>plain. D = ccmp_seal (aes (cc_aes ctx)) (mtod m) (ccmp_rx_pn h (mtod m)) plain)) \<and>
    (\<forall>plain. D = ccmp_seal (aes (cc_aes ctx)) (mtod m) (ccmp_rx_pn h (mtod m)) plain \<longrightarrow>
       concat (m_segs m') = take h (mtod m) @ plain) \<and>
    k' = (if ok then k\<lparr>wk_keyrsc := (wk_keyrsc k)[ieee80211_gettid (mtod m) := ccmp_rx_pn h (mtod m)]\<rparr> else k)"
proof -
  define P where "P = ccmp_rx_pn h (mtod m)"
  let ?E = "aes (cc_aes ctx)" and ?wh = "mtod m"
  have hz: "ieee80211_hdrsize ?wh \<le> h" "0 < h"
    using hdrspace_bounds(3) [of ?wh f] hdrspace_bounds(1) [of f ?wh] m(2) by simp_all
  have r: "m_segs m \<noteq> []" "m_rxs m = None" "h + 8 \<le> length ?wh" "h + 16 \<le> pktlen (m_segs m)"
    "pktlen (m_segs m) \<le> length ?wh + 8"
    using m(1) by (simp_all add: ccmp_rx_frame_def)
  have hl: "ieee80211_hdrsize ?wh \<le> length ?wh" using hz r by simp
  have lD: "length D - 8 = pktlen (m_segs m) - (h + 16)" by (simp add: D_def pktlen_def)
  obtain b0 auth s0 where i: "ccmp_init_blocks ?E ?wh P (int (length D - 8)) = (b0, auth, s0)"
    by (metis prod_cases3)
  note bl = ccmp_init_lengths [OF E hl i]
  define plain where "plain = ccm_ctr ?E b0 1 (take (length D - 8) (drop (h + 8) ?wh))"
  have Dt: "take (length D - 8) D = take (length D - 8) (drop (h + 8) ?wh)"
    using r by (simp add: D_def concat_hd_tl pktlen_def)
  have lp: "length plain = length D - 8"
    using r length_ccm_ctr [OF E bl(1)] by (simp add: plain_def D_def pktlen_def)
  define ok where "ok \<longleftrightarrow> D = ccmp_seal ?E ?wh P plain"
  have uniq: "D = ccmp_seal ?E ?wh P p \<Longrightarrow> p = plain" for p
    unfolding plain_def Dt [symmetric] by (rule ccmp_seal_plain(2) [OF E hl _ i])
  have "\<exists>b0 auth s0. ccmp_init_blocks ?E ?wh P (int (length plain)) = (b0, auth, s0) \<and>
      plain = ccm_ctr ?E b0 1 (take (length plain) (drop (h + 8) ?wh))"
    unfolding lp using i plain_def by blast
  from ccmp_decrypt_flat [OF E m(1) hz(1) lp [unfolded lD] ok_def [unfolded D_def] this, of vap k]
  obtain vap' segs where d: "ccmp_decrypt ?E P h (vap, k, m) = Some (ok, vap', m\<lparr>m_segs := segs\<rparr>)"
    and v: "ic_flags vap' = ic_flags vap" and ls: "map length segs = map length (m_segs m)"
    and c: "take (pktlen (m_segs m) - 8) (concat segs) = take (h + 8) ?wh @ plain" by blast
  note sl = same_lengths [OF ls r(1)]
  have ss: "h + 8 \<le> length (hd segs)" "h + 8 + 8 \<le> pktlen segs"
    using sl r by (simp_all add: pktlen_def)
  have p1: "take h (concat segs) = take h ?wh"
  proof -
    have "take h (take (pktlen (m_segs m) - 8) (concat segs)) = take h ?wh" using r(3) by (simp add: c)
    then show ?thesis using r(4) by (simp add: min_def split: if_splits)
  qed
  have p2: "take (pktlen segs - (h + 8 + 8)) (drop (h + 8) (concat segs)) = plain"
  proof -
    have "drop (h + 8) (take (pktlen (m_segs m) - 8) (concat segs)) = plain" using r(3) by (simp add: c)
    then show ?thesis using sl(3) by (simp add: drop_take pktlen_def)
  qed
  define m' where "m' = ccmp_decap_finish h (m\<lparr>m_segs := segs\<rparr>)"
  have fin: "concat (m_segs m') = take h ?wh @ plain"
    using strip_trim [OF sl(1) ss(1) hz(2) ss(2), unfolded p1 p2] r(2)
    by (simp add: m'_def ccmp_decap_finish_def rx_flag_def Let_def)
  have P_eq: "READ_6 (drop h ?wh ! 0) (drop h ?wh ! 1) (drop h ?wh ! 4) (drop h ?wh ! 5)
      (drop h ?wh ! 6) (drop h ?wh ! 7) = P"
    by (simp add: P_def ccmp_rx_pn_def Let_def)
  have guard: "\<not> rx_flag m 0x200" "\<not> length ?wh < h + 8" "\<not> (drop h ?wh ! 3) AND 0x20 = 0"
    "\<not> (P \<le> wk_keyrsc k ! ieee80211_gettid ?wh \<and> \<not> has_flag (wk_flags k) KEY_NOREPLAY)"
    using r(2,3) iv pn by (auto simp: rx_flag_def P_def)
  have "ccmp_decap aes h (vap, k, ctx, m) = Some (ok, vap',
      if ok then k\<lparr>wk_keyrsc := (wk_keyrsc k)[ieee80211_gettid ?wh := P]\<rparr> else k,
      if ok then m' else m\<lparr>m_segs := segs\<rparr>)"
    unfolding ccmp_decap_def prod.case Let_def P_eq if_not_P [OF guard(1)] if_not_P [OF guard(2)]
      if_not_P [OF guard(3)] if_not_P [OF guard(4)] if_P [OF k] d option.case
    by (simp add: m'_def)
  moreover have "ok \<longleftrightarrow> (\<exists>p. D = ccmp_seal ?E ?wh P p)" using uniq by (auto simp: ok_def)
  moreover have "D = ccmp_seal ?E ?wh P p \<longrightarrow> concat (m_segs (if ok then m' else m\<lparr>m_segs := segs\<rparr>)) = take h ?wh @ p" for p
    using uniq fin by (auto simp: ok_def)
  ultimately show ?thesis using v unfolding P_def by blast
qed


section \<open>The round trip\<close>

lemma ccmp_setiv_bytes:
  assumes "wk_keytsc k + 1 = tsc" "tsc < 2 ^ 48"
  defines "iv \<equiv> snd (ccmp_setiv k)"
  shows "READ_6 (iv ! 0) (iv ! 1) (iv ! 4) (iv ! 5) (iv ! 6) (iv ! 7) = tsc"
    "(iv ! 3) AND 0x20 \<noteq> 0"
proof -
  show "READ_6 (iv ! 0) (iv ! 1) (iv ! 4) (iv ! 5) (iv ! 6) (iv ! 7) = tsc"
    using READ_6_bytes [OF assms(2)] assms(1) by (simp add: iv_def ccmp_setiv_def Let_def)
  have "bit ((iv ! 3) AND 0x20) 5" by (simp add: iv_def ccmp_setiv_def Let_def bit_simps)
  then show "(iv ! 3) AND 0x20 \<noteq> 0" by auto
qed

lemma ccmp_setkey_aes:
  assumes "ccmp_setkey set_key k c = (True, ctx)" "has_flag (wk_flags k) KEY_SWENCRYPT"
  shows "cc_aes ctx = set_key (take 16 (wk_key k))"
  using assms by (auto simp: ccmp_setkey_def split: if_splits)

lemma ccmp_receive_sealed:
  assumes E: "block_cipher (aes (cc_aes cr))"
    and h: "ieee80211_hdrsize wh \<le> h" "h \<le> length wh" "h = ieee80211_hdrspace f wh"
    and C: "concat (m_segs mr) = take h wh @ iv @ ccmp_seal (aes (cc_aes cr)) wh tsc body"
      "length iv = 8" "ccmp_rx_frame h mr"
    and iv: "READ_6 (iv ! 0) (iv ! 1) (iv ! 4) (iv ! 5) (iv ! 6) (iv ! 7) = tsc" "(iv ! 3) AND 0x20 \<noteq> 0"
    and kr: "has_flag (wk_flags kr) KEY_SWDECRYPT" "wk_keyrsc kr ! ieee80211_gettid wh < tsc"
  shows "\<exists>vr' mr'. ccmp_decap aes h (vr, kr, cr, mr) =
      Some (True, vr', kr\<lparr>wk_keyrsc := (wk_keyrsc kr)[ieee80211_gettid wh := tsc]\<rparr>, mr') \<and>
    concat (m_segs mr') = take h wh @ body"
proof -
  have r: "m_segs mr \<noteq> []" "h + 8 \<le> length (mtod mr)"
    using C(3) by (simp_all add: ccmp_rx_frame_def)
  have first: "take (h + 8) (mtod mr) = take h wh @ iv"
    using arg_cong [OF C(1), of "take (h + 8)"] r h(2) C(2) by (simp add: concat_hd_tl)
  have hd: "mtod mr = take h wh @ iv @ drop (h + 8) (mtod mr)"
    using first by (metis append.assoc append_take_drop_id)
  have sh: "same_hdr wh (mtod mr)"
    by (subst hd) (rule same_hdr_append [OF h(1,2)])
  have tk: "take h (mtod mr) = take h wh" by (subst hd) (simp add: h(2))
  have nth: "drop h (mtod mr) ! i = iv ! i" if "i < 8" for i
    by (subst hd) (use that h(2) C(2) in \<open>simp add: nth_append\<close>)
  have pn: "ccmp_rx_pn h (mtod mr) = tsc"
    by (simp add: ccmp_rx_pn_def Let_def nth iv(1) del: nth_drop One_nat_def)
  have ext: "(mtod mr ! (h + 3)) AND 0x20 \<noteq> 0" using nth [of 3] iv(2) r(2) by simp
  have tid: "ieee80211_gettid (mtod mr) = ieee80211_gettid wh" using same_hdr_gettid [OF sh] by simp
  have h2: "h = ieee80211_hdrspace f (mtod mr)" using h(3) same_hdr_hdrspace [OF sh] by simp
  have fresh: "wk_keyrsc kr ! ieee80211_gettid (mtod mr) < ccmp_rx_pn h (mtod mr) \<or>
      has_flag (wk_flags kr) KEY_NOREPLAY"
    using kr(2) by (simp add: tid pn)
  have D: "drop (h + 8) (concat (m_segs mr)) = ccmp_seal (aes (cc_aes cr)) (mtod mr) tsc body"
    using h(2) C(2) by (simp add: C(1) ccmp_seal_same_hdr [OF sh])
  from ccmp_decap_flat [where aes = aes and ctx = cr, OF E C(3) h2 kr(1) ext fresh, of vr]
  obtain ok vr' k' mr' where d: "ccmp_decap aes h (vr, kr, cr, mr) = Some (ok, vr', k', mr')"
    and ok: "ok \<longleftrightarrow> (\<exists>plain. drop (h + 8) (concat (m_segs mr)) = ccmp_seal (aes (cc_aes cr)) (mtod mr) tsc plain)"
    and c: "\<forall>plain. drop (h + 8) (concat (m_segs mr)) = ccmp_seal (aes (cc_aes cr)) (mtod mr) tsc plain \<longrightarrow>
       concat (m_segs mr') = take h (mtod mr) @ plain"
    and k': "k' = (if ok then kr\<lparr>wk_keyrsc := (wk_keyrsc kr)[ieee80211_gettid wh := tsc]\<rparr> else kr)"
    unfolding pn tid by blast
  have "ok" using ok D by blast
  then show ?thesis using d k' c D tk by auto
qed

text \<open>
  C24. What \<open>ccmp_encap\<close> protects \<open>ccmp_decap\<close> gives back, byte for byte, under the same
  sixteen key octets: the frame is accepted, and the replay counter of its TID becomes its
  packet number. The sender's mbufs behind the first have a whole cipher block each (all but
  the last), and the receiver has header, IV and data in the first mbuf.
\<close>

theorem ccmp_roundtrip:
  assumes env: "\<forall>c. block_cipher (aes c)" "prepends pre" "appends app"
      "\<forall>segs n. pre segs n \<noteq> None" "\<forall>segs bs. app segs bs \<noteq> None"
    and m: "m_segs m \<noteq> []" "h = ieee80211_hdrspace (ic_flags vs) (mtod m)" "h \<le> length (mtod m)"
      "wide (tl (m_segs m))"
    and ks: "\<not> ccmp_exempt ks (mtod m)" "has_flag (wk_flags ks) KEY_SWENCRYPT"
      "wk_keytsc ks + 1 = tsc" "tsc < 2 ^ 48"
    and kr: "has_flag (wk_flags kr) KEY_SWDECRYPT" "has_flag (wk_flags kr) KEY_SWENCRYPT"
      "wk_keyrsc kr ! ieee80211_gettid (mtod m) < tsc"
    and keys: "ccmp_setkey set_key ks c1 = (True, cs)" "ccmp_setkey set_key kr c2 = (True, cr)"
      "take 16 (wk_key kr) = take 16 (wk_key ks)"
  shows "\<exists>vs' m'. ccmp_encap aes pre app (vs, ks, cs, m) = Some (True, vs', ks\<lparr>wk_keytsc := tsc\<rparr>, m') \<and>
    (\<forall>mr. concat (m_segs mr) = concat (m_segs m') \<longrightarrow> ccmp_rx_frame h mr \<longrightarrow>
      (\<exists>vr' mr'. ccmp_decap aes h (vr, kr, cr, mr) =
         Some (True, vr', kr\<lparr>wk_keyrsc := (wk_keyrsc kr)[ieee80211_gettid (mtod m) := tsc]\<rparr>, mr') \<and>
       concat (m_segs mr') = concat (m_segs m)))"
proof -
  have aes: "cc_aes cr = cc_aes cs"
    using ccmp_setkey_aes [OF keys(1) ks(2)] ccmp_setkey_aes [OF keys(2) kr(2)] keys(3) by simp
  have Es: "block_cipher (aes (cc_aes cs))" and Er: "block_cipher (aes (cc_aes cr))"
    using env(1) by simp_all
  obtain vs' m' where e: "ccmp_encap aes pre app (vs, ks, cs, m) = Some (True, vs', ks\<lparr>wk_keytsc := tsc\<rparr>, m')"
    and c: "concat (m_segs m') = take h (concat (m_segs m)) @ snd (ccmp_setiv ks) @
      ccmp_seal (aes (cc_aes cr)) (mtod m) tsc (drop h (concat (m_segs m)))"
    using ccmp_encap_flat [where aes = aes and ctx = cs, OF Es env(2-5) m ks(1,2)]
    unfolding ks(3) aes by blast
  have th: "take h (concat (m_segs m)) = take h (mtod m)" using m(1,3) by (simp add: take_hd_concat)
  have hz: "ieee80211_hdrsize (mtod m) \<le> h" unfolding m(2) by (rule hdrspace_bounds)
  have recv: "\<exists>vr' mr'. ccmp_decap aes h (vr, kr, cr, mr) =
      Some (True, vr', kr\<lparr>wk_keyrsc := (wk_keyrsc kr)[ieee80211_gettid (mtod m) := tsc]\<rparr>, mr') \<and>
    concat (m_segs mr') = concat (m_segs m)"
    if r: "concat (m_segs mr) = concat (m_segs m')" "ccmp_rx_frame h mr" for mr
    using ccmp_receive_sealed [where aes = aes and cr = cr, OF Er hz m(3,2) r(1) [unfolded c th]
        length_ccmp_setiv r(2) ccmp_setiv_bytes [OF ks(3,4)] kr(1,3), of vr]
    by (simp flip: th)
  show ?thesis
    by (rule exI, rule exI, rule conjI, rule e) (intro allI impI, rule recv)
qed

text \<open>The hypotheses hold, with a toy block function in the place of AES.\<close>

definition toy_aes :: "u8 list \<Rightarrow> u8 list \<Rightarrow> u8 list" where
  "toy_aes key b = map (\<lambda>i. b ! ((5 * i + 3) mod 16) * 7 + key ! (i mod 16) + word_of_nat i) [0..<16]"

lemma toy_aes_block: "block_cipher (toy_aes key)"
  by (simp add: block_cipher_def toy_aes_def)

abbreviation ex_pre :: m_prepend where
  "ex_pre \<equiv> \<lambda>segs n. Some ((replicate n 0 @ hd segs) # tl segs)"

abbreviation ex_app :: m_append where
  "ex_app \<equiv> \<lambda>segs bs. Some (segs @ [bs])"

lemma ex_key_ccmp:
  "\<not> ccmp_exempt (ex_key n) (mtod ex_frame)" "has_flag (wk_flags (ex_key n)) KEY_SWENCRYPT"
  "has_flag (wk_flags (ex_key n)) KEY_SWDECRYPT"
  "ccmp_setkey id (ex_key n) \<lparr>cc_aes = []\<rparr> = (True, \<lparr>cc_aes = replicate 16 7\<rparr>)"
  by (simp_all add: ccmp_exempt_def ccmp_setkey_def has_flag_def ex_key_def KEY_NOIV_def
      KEY_NOIVMGT_def KEY_SWENCRYPT_def KEY_SWDECRYPT_def)

lemma ex_frame_facts:
  "m_segs ex_frame \<noteq> []" "26 \<le> length (mtod ex_frame)" "wide (tl (m_segs ex_frame))"
  "length (concat (m_segs ex_frame)) = 31"
  by (simp_all add: ex_frame_def wide_def)

theorem ccmp_roundtrip_witness:
  "\<exists>vs' m' vr' mr'. ccmp_encap toy_aes ex_pre ex_app (ex_vap, ex_key 8, \<lparr>cc_aes = replicate 16 7\<rparr>, ex_frame) =
      Some (True, vs', ex_key 9, m') \<and>
    ccmp_decap toy_aes 26 (ex_vap, ex_key 0, \<lparr>cc_aes = replicate 16 7\<rparr>,
        \<lparr>m_segs = [concat (m_segs m')], m_rxs = None, m_flags = 0\<rparr>) =
      Some (True, vr', (ex_key 0)\<lparr>wk_keyrsc := (replicate 17 5)[3 := 9]\<rparr>, mr') \<and>
    concat (m_segs mr') = concat (m_segs ex_frame)"
proof -
  have p: "\<forall>segs n. ex_pre segs n \<noteq> None" "\<forall>segs bs. ex_app segs bs \<noteq> None" by simp_all
  have n: "wk_keytsc (ex_key 8) + 1 = 9" "(9 :: u64) < 2 ^ 48" "(ex_key 8)\<lparr>wk_keytsc := 9\<rparr> = ex_key 9"
    "wk_keyrsc (ex_key 0) ! ieee80211_gettid (mtod ex_frame) < 9" "wk_keyrsc (ex_key 0) = replicate 17 5"
    "take 16 (wk_key (ex_key 0)) = take 16 (wk_key (ex_key 8))"
    by (simp_all add: ex_key_def ex_frame_hdr)
  have aes: "\<forall>c. block_cipher (toy_aes c)" by (simp add: toy_aes_block)
  note t = ccmp_roundtrip [where aes = toy_aes and vr = ex_vap, OF aes prepends_front appends_at_end p
      ex_frame_facts(1) ex_frame_hdrspace [symmetric] ex_frame_facts(2,3) ex_key_ccmp(1,2) n(1,2)
      ex_key_ccmp(3,2) n(4) ex_key_ccmp(4,4) n(6)]
  obtain vs' m' where e: "ccmp_encap toy_aes ex_pre ex_app (ex_vap, ex_key 8, \<lparr>cc_aes = replicate 16 7\<rparr>, ex_frame) =
      Some (True, vs', ex_key 9, m')"
    and r: "\<forall>mr. concat (m_segs mr) = concat (m_segs m') \<longrightarrow> ccmp_rx_frame 26 mr \<longrightarrow>
      (\<exists>vr' mr'. ccmp_decap toy_aes 26 (ex_vap, ex_key 0, \<lparr>cc_aes = replicate 16 7\<rparr>, mr) =
        Some (True, vr', (ex_key 0)\<lparr>wk_keyrsc := (replicate 17 5)[3 := 9]\<rparr>, mr') \<and>
      concat (m_segs mr') = concat (m_segs ex_frame))"
    using t unfolding n(3,5) ex_frame_hdr by blast
  have l: "length (concat (m_segs m')) = 47"
  proof -
    have "length (ccmp_seal (toy_aes (replicate 16 7)) (mtod ex_frame) pn b) = length b + 8" for pn b
      by (rule length_ccmp_seal [OF toy_aes_block]) (use ex_frame_hdr ex_frame_facts in simp)
    then show ?thesis
      using ccmp_encap_flat [where aes = toy_aes and ctx = "\<lparr>cc_aes = replicate 16 7\<rparr>",
          OF _ prepends_front appends_at_end p ex_frame_facts(1) ex_frame_hdrspace [symmetric]
          ex_frame_facts(2,3) ex_key_ccmp(1,2), of 8] toy_aes_block ex_frame_facts(4) e
      by auto
  qed
  have "ccmp_rx_frame 26 \<lparr>m_segs = [concat (m_segs m')], m_rxs = None, m_flags = 0\<rparr>"
    by (simp add: ccmp_rx_frame_def pktlen_def l)
  with r [rule_format, of "\<lparr>m_segs = [concat (m_segs m')], m_rxs = None, m_flags = 0\<rparr>"] e show ?thesis by auto
qed

theorem ccmp_encap_ccm_witness:
  "\<exists>vap' m'. ccmp_encap toy_aes ex_pre ex_app (ex_vap, ex_key 8, \<lparr>cc_aes = replicate 16 7\<rparr>, ex_frame) =
      Some (True, vap', ex_key 9, m') \<and>
    concat (m_segs m') = take 26 (concat (m_segs ex_frame)) @ [9, 0, 0, 0x60, 0, 0, 0, 0] @
      ccmp_seal (toy_aes (replicate 16 7)) (mtod ex_frame) 9 [1, 2, 3, 4, 5]"
proof -
  have p: "\<forall>segs n. ex_pre segs n \<noteq> None" "\<forall>segs bs. ex_app segs bs \<noteq> None" by simp_all
  have E: "block_cipher (toy_aes (cc_aes \<lparr>cc_aes = replicate 16 7\<rparr>))" by (rule toy_aes_block)
  have v: "snd (ccmp_setiv (ex_key 8)) = [9, 0, 0, 0x60, 0, 0, 0, 0]"
    "drop 26 (concat (m_segs ex_frame)) = [1, 2, 3, 4, 5]" "wk_keytsc (ex_key 8) + 1 = 9"
    "(ex_key 8)\<lparr>wk_keytsc := 9\<rparr> = ex_key 9"
    by (simp_all add: ccmp_setiv_def ieee80211_crypto_get_keyid_def ex_key_def ex_frame_def)
  show ?thesis
    using ccmp_encap_ccm [where aes = toy_aes and ctx = "\<lparr>cc_aes = replicate 16 7\<rparr>",
        OF E prepends_front appends_at_end p ex_frame_facts(1) ex_frame_hdrspace [symmetric]
        ex_frame_facts(2,3) ex_key_ccmp(1,2), of 8]
    unfolding v by simp
qed

text \<open>Forty octets behind the IV: with this key the frame passes the first checks.\<close>

definition ex_ccmp_rx :: mbuf where
  "ex_ccmp_rx = \<lparr>m_segs = [[0x08, 0x01] @ replicate 62 0x20], m_rxs = None, m_flags = 0\<rparr>"

lemma ex_ccmp_rx_facts:
  "ieee80211_hdrspace 0 (mtod ex_ccmp_rx) = 24" "ccmp_rx_frame 24 ex_ccmp_rx"
  "ieee80211_gettid (mtod ex_ccmp_rx) = 16" "ccmp_rx_pn 24 (mtod ex_ccmp_rx) = 0x202020202020"
  by (simp_all add: ex_ccmp_rx_def ieee80211_hdrspace_def ieee80211_hdrsize_def ieee80211_gettid_def
      IEEE80211_IS_DSTODS_def IEEE80211_QOS_HAS_SEQ_def ccmp_rx_frame_def pktlen_def ccmp_rx_pn_def
      READ_6_def le32_def le16_def)


section \<open>Replay protection\<close>

definition ccmp_rx_step ::
  "('c \<Rightarrow> u8 list \<Rightarrow> u8 list) \<Rightarrow> vap \<times> ieee80211_key \<times> 'c ccmp_ctx \<Rightarrow> mbuf
     \<Rightarrow> ((nat \<times> u64) option \<times> vap \<times> ieee80211_key \<times> 'c ccmp_ctx) option" where
  "ccmp_rx_step aes s m = (case s of (vap, k, ctx) \<Rightarrow>
     let h = ieee80211_hdrspace (ic_flags vap) (mtod m)
     in case ccmp_decap aes h (vap, k, ctx, m) of
          None \<Rightarrow> None
        | Some (ok, vap, k, m') \<Rightarrow>
            Some (if ok then Some (ieee80211_gettid (mtod m), ccmp_rx_pn h (mtod m)) else None,
              vap, k, ctx))"

definition ccmp_rsc :: "vap \<times> ieee80211_key \<times> 'c ccmp_ctx \<Rightarrow> nat \<Rightarrow> u64" where
  "ccmp_rsc s t = (case s of (vap, k, ctx) \<Rightarrow> wk_keyrsc k ! t)"

definition ccmp_rx_inv :: "vap \<times> ieee80211_key \<times> 'c ccmp_ctx \<Rightarrow> bool" where
  "ccmp_rx_inv s = (case s of (vap, k, ctx) \<Rightarrow>
     \<not> has_flag (wk_flags k) KEY_NOREPLAY \<and> length (wk_keyrsc k) = 17)"

definition ccmp_frame_ok :: "vap \<times> ieee80211_key \<times> 'c ccmp_ctx \<Rightarrow> mbuf \<Rightarrow> bool" where
  "ccmp_frame_ok s m \<longleftrightarrow> \<not> rx_flag m 0x200"

lemma ccmp_decrypt_state:
  "ccmp_decrypt E pn h (vap, k, m) = Some (ok, vap', m') \<Longrightarrow> ic_flags vap' = ic_flags vap"
  by (auto simp: ccmp_decrypt_def Let_def stat_def split: if_splits option.splits prod.splits)

lemma ccmp_decap_counter:
  assumes "ccmp_decap aes h (vap, k, ctx, m) = Some (ok, vap', k', m')"
    and "\<not> rx_flag m 0x200" "\<not> has_flag (wk_flags k) KEY_NOREPLAY"
  shows "if ok then wk_keyrsc k ! ieee80211_gettid (mtod m) < ccmp_rx_pn h (mtod m) \<and>
      k' = k\<lparr>wk_keyrsc := (wk_keyrsc k)[ieee80211_gettid (mtod m) := ccmp_rx_pn h (mtod m)]\<rparr>
    else k' = k"
  using assms
  by (auto simp: ccmp_decap_def ccmp_rx_pn_def Let_def not_le simp del: nth_drop
      split: if_splits option.splits)

lemma ccmp_rx_step_facts:
  assumes "ccmp_rx_inv (vap, k, ctx)" "ccmp_frame_ok (vap, k, ctx) m"
    and step: "ccmp_rx_step aes (vap, k, ctx) m = Some (r, vap', k', ctx')"
  shows "case r of None \<Rightarrow> k' = k
     | Some (t, c) \<Rightarrow> t < 17 \<and> wk_keyrsc k ! t < c \<and> k' = k\<lparr>wk_keyrsc := (wk_keyrsc k)[t := c]\<rparr>"
proof -
  let ?h = "ieee80211_hdrspace (ic_flags vap) (mtod m)"
  obtain ok m' where d: "ccmp_decap aes ?h (vap, k, ctx, m) = Some (ok, vap', k', m')"
    and r: "r = (if ok then Some (ieee80211_gettid (mtod m), ccmp_rx_pn ?h (mtod m)) else None)"
    using step by (auto simp: ccmp_rx_step_def Let_def split: option.splits)
  from ccmp_decap_counter [OF d] assms(1,2) show ?thesis
    using ieee80211_gettid_less [of "mtod m"]
    by (cases ok) (simp_all add: r ccmp_rx_inv_def ccmp_frame_ok_def)
qed

interpretation ccmp_rx: replay_receiver "ccmp_rx_step aes" ccmp_rsc ccmp_rx_inv ccmp_frame_ok
  for aes :: "'c \<Rightarrow> u8 list \<Rightarrow> u8 list"
proof unfold_locales
  fix s s' :: "vap \<times> ieee80211_key \<times> 'c ccmp_ctx" and m r
  assume a: "ccmp_rx_inv s" "ccmp_frame_ok s m"
  obtain vap k ctx where s: "s = (vap, k, ctx)" by (cases s)
  obtain vap' k' ctx' where s': "s' = (vap', k', ctx')" by (cases s')
  note f = ccmp_rx_step_facts [OF a [unfolded s]]
  show "ccmp_rx_inv s' \<and> ccmp_frame_ok s' = ccmp_frame_ok s" if "ccmp_rx_step aes s m = Some (r, s')"
    using f [OF that [unfolded s s']] a
    by (cases r) (auto simp: s s' ccmp_rx_inv_def ccmp_frame_ok_def fun_eq_iff)
  show "ccmp_rsc s' = ccmp_rsc s" if "ccmp_rx_step aes s m = Some (None, s')"
    using f [OF that [unfolded s s']] by (simp add: s s' ccmp_rsc_def fun_eq_iff)
  show "ccmp_rsc s t < c \<and> ccmp_rsc s' = (ccmp_rsc s)(t := c)"
    if "ccmp_rx_step aes s m = Some (Some (t, c), s')" for t c
    using f [OF that [unfolded s s']] a(1)
    by (auto simp: s s' ccmp_rsc_def ccmp_rx_inv_def fun_eq_iff nth_list_update)
qed

text \<open>
  C25. Replay protection: whatever frames arrive for a key, in whatever mbufs, the packet
  numbers of the frames \<open>ccmp_decap\<close> accepts on one TID increase strictly, beyond the
  counter the key had: no frame is accepted twice. This is for a key without the flag that
  turns the check off, and for frames whose IV the hardware has not stripped.
\<close>

theorem ccmp_replay_protection:
  assumes "\<forall>m \<in> set ms. \<not> rx_flag m 0x200" "\<not> has_flag (wk_flags k) KEY_NOREPLAY"
    and "length (wk_keyrsc k) = 17"
  shows "sorted_wrt (<) (wk_keyrsc k ! tid #
    accepted_on tid (rx_run (ccmp_rx_step aes) (vap, k, ctx) ms))"
  using ccmp_rx.run_increasing [of "(vap, k, ctx)" ms tid aes] assms
  by (simp add: ccmp_rsc_def ccmp_rx_inv_def ccmp_frame_ok_def)

theorem ccmp_replay_protection_witness:
  "sorted_wrt (<) (5 # accepted_on 16 (rx_run (ccmp_rx_step toy_aes)
     (ex_vap, ex_key 0, \<lparr>cc_aes = replicate 16 7\<rparr>) [ex_ccmp_rx, ex_ccmp_rx]))"
proof -
  have h: "\<forall>m \<in> set [ex_ccmp_rx, ex_ccmp_rx]. \<not> rx_flag m 0x200"
    "\<not> has_flag (wk_flags (ex_key 0)) KEY_NOREPLAY" "length (wk_keyrsc (ex_key 0)) = 17"
    by (simp_all add: rx_flag_def ex_ccmp_rx_def has_flag_def ex_key_def KEY_NOREPLAY_def)
  have "wk_keyrsc (ex_key 0) ! 16 = 5" by (simp add: ex_key_def)
  then show ?thesis
    using ccmp_replay_protection [OF h, of 16 toy_aes ex_vap "\<lparr>cc_aes = replicate 16 7\<rparr>"] by simp
qed

section \<open>No counter block twice\<close>

lemma pn_bytes_inject:
  assumes "[ucast (drop_bit 40 p), ucast (drop_bit 32 p), ucast (drop_bit 24 p),
      ucast (drop_bit 16 p), ucast (drop_bit 8 p), ucast p] =
    [ucast (drop_bit 40 q), ucast (drop_bit 32 q), ucast (drop_bit 24 q),
      ucast (drop_bit 16 q), ucast (drop_bit 8 q), ucast q :: u8]"
    and "p < 2 ^ 48" "q < (2 ^ 48 :: u64)"
  shows "p = q"
  by (rule trans [OF READ_6_bytes [OF assms(2), symmetric] trans [OF _ READ_6_bytes [OF assms(3)]]])
    (simp only: assms(1) [unfolded list.inject])

lemma counter_bytes_inject:
  assumes "i < 2 ^ 16" "j < 2 ^ 16"
    and "[word_of_nat (i div 256), word_of_nat i] = [word_of_nat (j div 256), word_of_nat j :: u8]"
  shows "i = j"
proof -
  have w: "unat (word_of_nat n :: u8) = n mod 256" for n by (simp add: unsigned_of_nat take_bit_eq_mod)
  have "i div 256 mod 256 = j div 256 mod 256" "i mod 256 = j mod 256"
    using assms(3) w by (metis list.inject)+
  moreover have "i div 256 < 256" "j div 256 < 256" using assms(1,2) by simp_all
  ultimately have "i div 256 = j div 256" "i mod 256 = j mod 256" by simp_all
  then show ?thesis by (metis div_mult_mod_eq)
qed

text \<open>
  C28. No counter block is used twice under a key: the blocks that AES encrypts for the key
  stream of two frames with different packet numbers, or of two positions of one frame, are
  different, and none of them is the first block of an authentication.
\<close>

theorem ccmp_counters_distinct:
  assumes "block_cipher E" "ieee80211_hdrsize wh \<le> length wh" "ieee80211_hdrsize wh' \<le> length wh'"
    and b: "ccmp_init_blocks E wh pn n = (b0, auth, s0)" "ccmp_init_blocks E wh' pn' n' = (b0', auth', s0')"
    and "pn < 2 ^ 48" "pn' < 2 ^ 48" "i < 2 ^ 16" "j < 2 ^ 16"
  shows "(ccmp_counter b0 i = ccmp_counter b0' j \<longrightarrow> pn = pn' \<and> i = j) \<and>
    ccmp_counter b0 i \<noteq> 0x59 # ccmp_nonce wh' pn' @ [word_of_int (n' div 256), word_of_int n']"
proof -
  note f = ccmp_init_lengths [OF assms(1,2) b(1)] and f' = ccmp_init_lengths [OF assms(1,3) b(2)]
  have l: "length (ccmp_nonce wh pn) = 13" "length (ccmp_nonce wh' pn') = 13"
    using assms(2,3) length_ccmp_nonce by (simp_all add: ieee80211_hdrsize_def)
  have c: "ccmp_counter b0 i = 1 # ccmp_nonce wh pn @ [word_of_nat (i div 256), word_of_nat i]"
    "ccmp_counter b0' j = 1 # ccmp_nonce wh' pn' @ [word_of_nat (j div 256), word_of_nat j]"
    using l by (simp_all add: ccmp_counter_def f(4) f'(4))
  have "pn = pn' \<and> i = j" if eq: "ccmp_counter b0 i = ccmp_counter b0' j"
  proof
    have n: "ccmp_nonce wh pn = ccmp_nonce wh' pn'"
      and ij: "[word_of_nat (i div 256), word_of_nat i] = [word_of_nat (j div 256), word_of_nat j :: u8]"
      using eq l by (simp_all add: c)
    have "length (i_addr2 wh) = 6" "length (i_addr2 wh') = 6"
      using assms(2,3) by (simp_all add: i_addr2_def ieee80211_hdrsize_def)
    then show "pn = pn'"
      using n pn_bytes_inject [OF _ assms(6,7)] by (simp add: ccmp_nonce_def)
    show "i = j" by (rule counter_bytes_inject [OF assms(8,9) ij])
  qed
  moreover have "ccmp_counter b0 i \<noteq> 0x59 # x" for x by (simp add: c)
  ultimately show ?thesis by blast
qed

theorem ccmp_counters_distinct_witness:
  "\<exists>b0 auth s0 b0' auth' s0'. ccmp_init_blocks (toy_aes (replicate 16 7)) (mtod ex_frame) 1 16 = (b0, auth, s0) \<and>
    ccmp_init_blocks (toy_aes (replicate 16 7)) (mtod ex_frame) 2 16 = (b0', auth', s0') \<and>
    ccmp_counter b0 1 \<noteq> ccmp_counter b0' 1"
proof -
  obtain b0 auth s0 where b: "ccmp_init_blocks (toy_aes (replicate 16 7)) (mtod ex_frame) 1 16 = (b0, auth, s0)"
    by (metis prod_cases3)
  obtain b0' auth' s0' where b': "ccmp_init_blocks (toy_aes (replicate 16 7)) (mtod ex_frame) 2 16 = (b0', auth', s0')"
    by (metis prod_cases3)
  have h: "ieee80211_hdrsize (mtod ex_frame) \<le> length (mtod ex_frame)"
    using ex_frame_hdr ex_frame_facts by simp
  have n: "(1 :: u64) < 2 ^ 48" "(2 :: u64) < 2 ^ 48" "(1 :: nat) < 2 ^ 16" "(1 :: u64) \<noteq> 2" by simp_all
  from ccmp_counters_distinct [OF toy_aes_block h h b b' n(1,2,3,3)] n(4)
  have "ccmp_counter b0 1 \<noteq> ccmp_counter b0' 1" by blast
  with b b' show ?thesis by blast
qed

section \<open>What the straddle code does not do\<close>

text \<open>
  On receive the bytes of a block that lie in the second mbuf do not reach the
  authentication state: whatever they are, the state after the block is the same.
\<close>

lemma ccmp_decrypt_straddle_unauthenticated:
  assumes "part \<noteq> []" "length part < 16" "length part + length x \<le> 16" "length y = length x" "x \<noteq> []"
  shows "\<exists>a' sx sy.
    ccmp_decrypt_loop E b0 i a (length part + length x) part [x] = Some (a', sx) \<and>
    ccmp_decrypt_loop E b0 i a (length part + length y) part [y] = Some (a', sy)"
proof -
  have z: "\<exists>segs. ccmp_decrypt_loop E b0 i a (length part + length z) part [z] =
      Some (snd (snd (ccmp_decrypt_block E b0 i a part)), segs)"
    if "length z = length x" for z
    using assms that
    by (simp add: ccmp_decrypt_loop.simps [of _ _ _ _ "length part + length x"]
        ccmp_decrypt_full.simps [of _ _ _ _ part] ccmp_decrypt_loop_0 Let_def min_def split: prod.split)
  show ?thesis using z [of x] z [of y] assms(4) by auto
qed

text \<open>
  On transmit a last block in three mbufs, of four, four and eight bytes: the last four
  bytes are sent in the clear and are not authenticated.
\<close>

lemma ccmp_encrypt_straddle_in_the_clear:
  assumes "length x = 4" "length y = 4" "length z = 8" "block_cipher E" "length b0 = 16"
  shows "\<exists>b' s1 s2 s3. ccmp_encrypt_loop E b0 i b 16 x [y, z] = (b', [s1, s2, s3 @ drop 4 z]) \<and>
    b' = E (xor_block 0 (xor_block 8 (xor_block 4 b y) (take 4 z)) x)"
proof -
  have "x \<noteq> []" using assms(1) by auto
  moreover have "xor_block 0 z (take 4 (drop 8 (E (ccmp_counter b0 i)))) =
      map2 (XOR) (take 4 z) (take 4 (drop 8 (E (ccmp_counter b0 i)))) @ drop 4 z"
    using assms(3) length_stream [OF assms(4,5), of i] by (simp add: xor_block_0)
  ultimately show ?thesis
    using assms(1,2,3)
    by (simp add: ccmp_encrypt_loop.simps [of _ _ _ _ 16] ccmp_encrypt_full.simps [of _ _ _ _ x]
        ccmp_encrypt_loop_0 space_next_def ccmp_encrypt_block_def Let_def xor_block_prefix)
qed

end
