(* ===== verification/CryptoProps.thy ===== *)
theory CryptoProps
  imports CryptoKeys CcmpProps
begin

text \<open>
  Properties of the crypto core: over any sequence of key operations the reference count of
  each module is the number of keys bound to it and every key's context is one of its
  cipher; what a successful \<open>newkey\<close> leaves; and a group key frame that goes through the
  core of one side and the core of the other.
\<close>

section \<open>Contexts and reference counts\<close>

definition ctx_matches :: "'c keyslot \<Rightarrow> bool" where
  "ctx_matches ks \<longleftrightarrow> (case ks of (k, ctx) \<Rightarrow>
     (case ctx of NoneCtx \<Rightarrow> wk_cipher k = CIPHER_NONE | WepCtx c \<Rightarrow> wk_cipher k = CIPHER_WEP
      | TkipCtx c \<Rightarrow> wk_cipher k = CIPHER_TKIP | CcmpCtx c \<Rightarrow> wk_cipher k = CIPHER_AES_CCM))"

definition bound :: "u32 \<Rightarrow> 'c keyslot \<Rightarrow> int" where
  "bound c ks = (if wk_cipher (fst ks) = c then 1 else 0)"

text \<open>The ciphers whose modules count references.\<close>

definition counted :: "u32 \<Rightarrow> bool" where
  "counted c \<longleftrightarrow> c \<in> {CIPHER_WEP, CIPHER_TKIP, CIPHER_AES_CCM}"

text \<open>The references a module has beyond those of the key \<open>ks\<close>.\<close>

definition others :: "u32 \<Rightarrow> 'c keyslot \<Rightarrow> 'd key_state \<Rightarrow> int" where
  "others c ks s = ks_nrefs s c - bound c ks"

lemma cip_attach_cases:
  assumes "cip_attach env mem rnd c s = (r, s')"
  obtains (known) x where "counted c" "mem" "r = Some x" "ctx_matches (k\<lparr>wk_cipher := c\<rparr>, x)"
      "ks_nrefs s' = (ks_nrefs s)(c := ks_nrefs s c + 1)" "ks_dev s' = ks_dev s"
  | (nomem) "counted c" "\<not> mem" "r = None" "ks_nrefs s' = ks_nrefs s" "ks_dev s' = ks_dev s"
  | (none) "c = CIPHER_NONE" "r = Some NoneCtx" "ks_nrefs s' = ks_nrefs s" "ks_dev s' = ks_dev s"
  | (other) "\<not> counted c" "c \<noteq> CIPHER_NONE" "r = None" "s' = s"
proof -
  have n: "CIPHER_TKIP \<noteq> CIPHER_WEP" "CIPHER_AES_CCM \<noteq> CIPHER_WEP" "CIPHER_AES_CCM \<noteq> CIPHER_TKIP"
    "CIPHER_NONE \<noteq> CIPHER_WEP" "CIPHER_NONE \<noteq> CIPHER_TKIP" "CIPHER_NONE \<noteq> CIPHER_AES_CCM"
    by (simp_all add: cipher_ids)
  consider "c = CIPHER_WEP" | "c = CIPHER_TKIP" | "c = CIPHER_AES_CCM" | "c = CIPHER_NONE"
    | "\<not> counted c" "c \<noteq> CIPHER_NONE" by (auto simp: counted_def)
  then show thesis
  proof cases
    case 1
    show thesis
    proof (cases mem)
      case True
      show thesis by (rule known [of "WepCtx \<lparr>wc_iv = rnd\<rparr>"])
          (use assms 1 True in \<open>auto simp: cip_attach_def wep_attach_def ctx_matches_def counted_def\<close>)
    next
      case False
      show thesis by (rule nomem)
          (use assms 1 False in \<open>auto simp: cip_attach_def wep_attach_def counted_def\<close>)
    qed
  next
    case 2
    show thesis
    proof (cases mem)
      case True
      show thesis by (rule known [of "TkipCtx tkip_ctx0"])
          (use assms 2 True n in \<open>auto simp: cip_attach_def tkip_attach_def ctx_matches_def counted_def\<close>)
    next
      case False
      show thesis by (rule nomem)
          (use assms 2 False n in \<open>auto simp: cip_attach_def tkip_attach_def counted_def\<close>)
    qed
  next
    case 3
    show thesis
    proof (cases mem)
      case True
      show thesis by (rule known [of "CcmpCtx \<lparr>cc_aes = env_zero env\<rparr>"])
          (use assms 3 True n in \<open>auto simp: cip_attach_def ccmp_attach_def ctx_matches_def counted_def\<close>)
    next
      case False
      show thesis by (rule nomem)
          (use assms 3 False n in \<open>auto simp: cip_attach_def ccmp_attach_def counted_def\<close>)
    qed
  next
    case 4
    show thesis by (rule none) (use assms 4 n in \<open>auto simp: cip_attach_def none_attach_def\<close>)
  next
    case 5
    show thesis by (rule other) (use assms 5 in \<open>auto simp: cip_attach_def counted_def\<close>)
  qed
qed

lemma not_counted_none: "\<not> counted CIPHER_NONE"
  by (simp add: counted_def cipher_ids)

lemma cip_attach_some:
  assumes "cip_attach env mem rnd c s = (Some ctx, s')"
  shows "ctx_matches (k\<lparr>wk_cipher := c\<rparr>, ctx)" "ks_dev s' = ks_dev s"
    "counted b \<Longrightarrow> ks_nrefs s' b = ks_nrefs s b + (if b = c then 1 else 0)"
proof -
  have "ctx_matches (k\<lparr>wk_cipher := c\<rparr>, ctx) \<and> ks_dev s' = ks_dev s \<and>
      (counted b \<longrightarrow> ks_nrefs s' b = ks_nrefs s b + (if b = c then 1 else 0))"
    using assms
    by (cases rule: cip_attach_cases [where k = k])
      (auto simp: not_counted_none ctx_matches_def)
  then show "ctx_matches (k\<lparr>wk_cipher := c\<rparr>, ctx)" "ks_dev s' = ks_dev s"
    "counted b \<Longrightarrow> ks_nrefs s' b = ks_nrefs s b + (if b = c then 1 else 0)" by blast+
qed

lemma cip_attach_none:
  assumes "cip_attach env mem rnd c s = (None, s')"
  shows "ks_nrefs s' b = ks_nrefs s b" "ks_dev s' = ks_dev s"
  using assms by (auto elim: cip_attach_cases)

lemma cipher_detach_refs:
  "counted b \<Longrightarrow> ks_nrefs (cipher_detach c s) b = ks_nrefs s b - (if b = c then 1 else 0)"
  "ks_dev (cipher_detach c s) = ks_dev s"
  by (auto simp: cipher_detach_def wep_detach_def tkip_detach_def ccmp_detach_def
      counted_def Let_def)

lemma others_flags [simp]:
  "others c (k\<lparr>wk_flags := f\<rparr>, ctx) s = others c (k, ctx) s"
  "others c (k\<lparr>wk_keyix := i\<rparr>, ctx) s = others c (k, ctx) s"
  "others c (k\<lparr>wk_rxkeyix := i\<rparr>, ctx) s = others c (k, ctx) s"
  "others c ks (s\<lparr>ks_dev := d\<rparr>) = others c ks s"
  "others c ks (s\<lparr>ks_vap := v\<rparr>) = others c ks s"
  by (simp_all add: others_def bound_def)

lemma ctx_matches_flags [simp]:
  "ctx_matches (k\<lparr>wk_flags := f\<rparr>, ctx) = ctx_matches (k, ctx)"
  "ctx_matches (k\<lparr>wk_keyix := i\<rparr>, ctx) = ctx_matches (k, ctx)"
  "ctx_matches (k\<lparr>wk_rxkeyix := i\<rparr>, ctx) = ctx_matches (k, ctx)"
  by (simp_all add: ctx_matches_def)

lemma cip_rebind_facts:
  assumes r: "cip_rebind env mem rnd cip oflags (k, ctx) s = (ok, (k', ctx'), s')"
    and m: "ctx_matches (k, ctx)"
  shows "ctx_matches (k', ctx')" "counted b \<Longrightarrow> others b (k', ctx') s' = others b (k, ctx) s"
    "ok \<Longrightarrow> k' = k\<lparr>wk_cipher := cip\<rparr>" "\<not> ok \<Longrightarrow> k' = k\<lparr>wk_flags := oflags\<rparr>"
    "ks_dev s' = ks_dev s"
proof -
  consider s1 where "cip_attach env mem rnd cip s = (None, s1)"
    | c1 s1 where "cip_attach env mem rnd cip s = (Some c1, s1)"
    by (metis option.exhaust prod.exhaust)
  then have "ctx_matches (k', ctx') \<and> (counted b \<longrightarrow> others b (k', ctx') s' = others b (k, ctx) s) \<and>
      (ok \<longrightarrow> k' = k\<lparr>wk_cipher := cip\<rparr>) \<and> (\<not> ok \<longrightarrow> k' = k\<lparr>wk_flags := oflags\<rparr>) \<and>
      ks_dev s' = ks_dev s"
  proof cases
    case 1
    then have e: "ok = False" "k' = k\<lparr>wk_flags := oflags\<rparr>" "ctx' = ctx"
      "s' = ks_stat (\<lambda>s. s\<lparr>is_crypto_attachfail := is_crypto_attachfail s + 1\<rparr>) s1"
      using r unfolding cip_rebind_def by simp_all
    have "ks_nrefs s1 b = ks_nrefs s b" "ks_dev s1 = ks_dev s" by (rule cip_attach_none [OF 1])+
    then show ?thesis using m unfolding e by (simp add: others_def bound_def)
  next
    case 2
    then have e: "ok = True" "k' = k\<lparr>wk_cipher := cip\<rparr>" "ctx' = c1" "s' = cipher_detach (wk_cipher k) s1"
      using r unfolding cip_rebind_def by simp_all
    note a = cip_attach_some(1) [OF 2, of k] cip_attach_some(2) [OF 2] cip_attach_some(3) [OF 2, where b = b]
    have "others b (k', ctx') s' = others b (k, ctx) s" if "counted b"
      using a(3) [OF that] cipher_detach_refs(1) [OF that, of "wk_cipher k" s1]
      unfolding e others_def bound_def by (simp split: if_splits)
    then show ?thesis using a(1,2) unfolding e by (simp add: cipher_detach_refs(2))
  qed
  then show "ctx_matches (k', ctx')" "counted b \<Longrightarrow> others b (k', ctx') s' = others b (k, ctx) s"
    "ok \<Longrightarrow> k' = k\<lparr>wk_cipher := cip\<rparr>" "\<not> ok \<Longrightarrow> k' = k\<lparr>wk_flags := oflags\<rparr>"
    "ks_dev s' = ks_dev s" by blast+
qed

text \<open>The step as \<open>newkey\<close> takes it, only if something changed.\<close>

lemma opt_rebind_facts:
  assumes r: "(if p then cip_rebind env mem rnd cip oflags (k, ctx) s else (True, (k, ctx), s)) =
      (ok, (k', ctx'), s')"
    and m: "ctx_matches (k, ctx)" and p: "\<not> p \<Longrightarrow> wk_cipher k = cip"
  shows "ctx_matches (k', ctx')" "counted b \<Longrightarrow> others b (k', ctx') s' = others b (k, ctx) s"
    "ok \<Longrightarrow> k' = k\<lparr>wk_cipher := cip\<rparr>" "\<not> ok \<Longrightarrow> k' = k\<lparr>wk_flags := oflags\<rparr>"
    "ks_dev s' = ks_dev s"
proof -
  have "ctx_matches (k', ctx') \<and> (counted b \<longrightarrow> others b (k', ctx') s' = others b (k, ctx) s) \<and>
      (ok \<longrightarrow> k' = k\<lparr>wk_cipher := cip\<rparr>) \<and> (\<not> ok \<longrightarrow> k' = k\<lparr>wk_flags := oflags\<rparr>) \<and>
      ks_dev s' = ks_dev s"
  proof (cases p)
    case True
    then have "cip_rebind env mem rnd cip oflags (k, ctx) s = (ok, (k', ctx'), s')" using r by simp
    from cip_rebind_facts [OF this m] show ?thesis by blast
  next
    case False
    then have e: "ok" "k' = k" "ctx' = ctx" "s' = s" using r by auto
    have "k\<lparr>wk_cipher := cip\<rparr> = k" using p [OF False] by simp
    then show ?thesis using m e(1) unfolding e(2-4) by simp
  qed
  then show "ctx_matches (k', ctx')" "counted b \<Longrightarrow> others b (k', ctx') s' = others b (k, ctx) s"
    "ok \<Longrightarrow> k' = k\<lparr>wk_cipher := cip\<rparr>" "\<not> ok \<Longrightarrow> k' = k\<lparr>wk_flags := oflags\<rparr>"
    "ks_dev s' = ks_dev s" by blast+
qed

lemma newkey_flags_device:
  "has_flag (newkey_flags caps cipher flags oflags) KEY_DEVKEY = has_flag oflags KEY_DEVKEY"
proof -
  have b: "x AND 256 = (if bit x 8 then 256 else (0 :: u32))" for x
  proof (rule bit_word_eqI)
    fix n
    have "bit (push_bit 8 (1 :: int)) n \<longleftrightarrow> n = 8"
      unfolding bit_push_bit_iff bit_1_iff by auto
    then have "bit (256 :: int) n \<longleftrightarrow> n = 8" by simp
    then show "bit (x AND 256) n = bit (if bit x 8 then 256 else (0 :: u32)) n" if "n < LENGTH(32)"
      using that by (auto simp: bit_and_iff)
  qed
  show ?thesis
    by (simp add: has_flag_def newkey_flags_def KEY_DEVKEY_def KEY_COMMON_def KEY_DEVICE_def
        KEY_SWCRYPT_def KEY_SWMIC_def Let_def b bit_or_iff bit_and_iff)
qed


text \<open>
  \<open>newkey\<close> after the cipher was found: whatever the outcome the context fits the key and no
  reference is lost; on success the key is bound to the cipher, with the flags the driver
  left and the slot it gave, or with the slot it had.
\<close>

lemma newkey_bind_facts:
  assumes nb: "newkey_bind env drv (mem1, mem2, rnd) caps cipher cip flags (k, ctx) s =
      (ok, (k', ctx'), s')"
    and m: "ctx_matches (k, ctx)"
    and fl_def: "fl = newkey_flags caps cipher flags (wk_flags k)"
  shows "ctx_matches (k', ctx')" "counted b \<Longrightarrow> others b (k', ctx') s' = others b (k, ctx) s"
    "ok \<Longrightarrow> has_flag (wk_flags k) KEY_DEVKEY \<Longrightarrow> k' = k\<lparr>wk_flags := fl, wk_cipher := cip\<rparr>"
    "ok \<Longrightarrow> \<not> has_flag (wk_flags k) KEY_DEVKEY \<Longrightarrow>
      \<exists>d dfl ix rix. iv_key_alloc drv (ks_dev s) (k\<lparr>wk_flags := fl, wk_cipher := cip\<rparr>) = (True, d, dfl, ix, rix) \<and>
        k' = k\<lparr>wk_flags := dfl OR KEY_DEVKEY, wk_cipher := cip, wk_keyix := ix, wk_rxkeyix := rix\<rparr> \<and>
        ks_dev s' = d"
proof -
  let ?G = "ctx_matches (k', ctx') \<and> (counted b \<longrightarrow> others b (k', ctx') s' = others b (k, ctx) s) \<and>
    (ok \<longrightarrow> has_flag (wk_flags k) KEY_DEVKEY \<longrightarrow> k' = k\<lparr>wk_flags := fl, wk_cipher := cip\<rparr>) \<and>
    (ok \<longrightarrow> \<not> has_flag (wk_flags k) KEY_DEVKEY \<longrightarrow>
      (\<exists>d dfl ix rix. iv_key_alloc drv (ks_dev s) (k\<lparr>wk_flags := fl, wk_cipher := cip\<rparr>) = (True, d, dfl, ix, rix) \<and>
        k' = k\<lparr>wk_flags := dfl OR KEY_DEVKEY, wk_cipher := cip, wk_keyix := ix, wk_rxkeyix := rix\<rparr> \<and>
        ks_dev s' = d))"
  obtain ok1 k1 c1 s1 where r1: "(if wk_cipher k \<noteq> cip \<or> wk_flags k \<noteq> fl
      then cip_rebind env mem1 rnd cip (wk_flags k) (k\<lparr>wk_flags := fl\<rparr>, ctx) s
      else (True, (k, ctx), s)) = (ok1, (k1, c1), s1)" by (metis prod.collapse)
  then have r1': "(if wk_cipher k \<noteq> cip \<or> wk_flags k \<noteq> fl
      then cip_rebind env mem1 rnd cip (wk_flags k) (k\<lparr>wk_flags := fl\<rparr>, ctx) s
      else (True, (k\<lparr>wk_flags := fl\<rparr>, ctx), s)) = (ok1, (k1, c1), s1)" by (auto split: if_splits)
  have f1: "ctx_matches (k1, c1)" "counted b \<Longrightarrow> others b (k1, c1) s1 = others b (k, ctx) s"
    "ok1 \<Longrightarrow> k1 = k\<lparr>wk_flags := fl, wk_cipher := cip\<rparr>" "ks_dev s1 = ks_dev s"
    using opt_rebind_facts [OF r1'] m by auto
  have dev: "has_flag fl KEY_DEVKEY = has_flag (wk_flags k) KEY_DEVKEY"
    by (simp add: fl_def newkey_flags_device)
  note nb1 = nb [unfolded newkey_bind_def prod.case Let_def fl_def [symmetric] r1]
  consider "\<not> ok1" | "ok1" "has_flag (wk_flags k1) KEY_DEVKEY" | "ok1" "\<not> has_flag (wk_flags k1) KEY_DEVKEY"
    by blast
  then have ?G
  proof cases
    case 1
    with nb1 have "ok = False" "k' = k1" "ctx' = c1" "s' = s1" by simp_all
    with f1 show ?thesis by simp
  next
    case 2
    with nb1 have e: "ok = True" "k' = k1" "ctx' = c1" "s' = s1" by simp_all
    have "has_flag (wk_flags k) KEY_DEVKEY" using 2 f1(3) dev by simp
    with f1 2 show ?thesis unfolding e by simp
  next
    case 3
    obtain aok d dfl ix rix where a: "iv_key_alloc drv (ks_dev s1) k1 = (aok, d, dfl, ix, rix)"
      by (metis prod.collapse)
    have k1: "k1 = k\<lparr>wk_flags := fl, wk_cipher := cip\<rparr>" using 3 f1(3) by simp
    have nodev: "\<not> has_flag (wk_flags k) KEY_DEVKEY" using 3 k1 dev by simp
    let ?k = "k1\<lparr>wk_flags := dfl\<rparr>" and ?s = "s1\<lparr>ks_dev := d\<rparr>"
    obtain ok2 k2 c2 s2 where r2: "(if wk_flags ?k \<noteq> fl
        then cip_rebind env mem2 rnd cip (wk_flags k) (?k, c1) ?s
        else (True, (?k, c1), ?s)) = (ok2, (k2, c2), s2)" by (metis prod.collapse)
    have "ctx_matches (?k, c1)" using f1(1) by simp
    moreover have "wk_cipher ?k = cip" using k1 by simp
    ultimately have m2: "ctx_matches (?k, c1)" "wk_cipher ?k = cip" by blast+
    note f2 = opt_rebind_facts [OF r2 m2]
    have o: "counted b \<Longrightarrow> others b (?k, c1) ?s = others b (k, ctx) s" using f1(2) by simp
    consider "\<not> aok" | "aok" "\<not> ok2" | "aok" "ok2" by blast
    then show ?thesis
    proof cases
      case 1
      with nb1 3 have "ok = False" "k' = ?k" "ctx' = c1"
        "s' = ks_stat (\<lambda>s. s\<lparr>is_crypto_keyfail := is_crypto_keyfail s + 1\<rparr>) ?s"
        by (simp_all add: a)
      with f1 o show ?thesis by simp
    next
      case 2
      with nb1 3 have "ok = False" "k' = k2" "ctx' = c2" "s' = s2"
        using r2 by (simp_all add: a)
      with f2 o show ?thesis by simp
    next
      case 3
      have k2: "k2 = ?k\<lparr>wk_cipher := cip\<rparr>" using f2(3) 3 by blast
      from nb1 3 \<open>ok1\<close> \<open>\<not> has_flag (wk_flags k1) KEY_DEVKEY\<close>
      have e: "ok = True" "ctx' = c2" "s' = s2"
        "k' = k2\<lparr>wk_keyix := ix, wk_rxkeyix := rix, wk_flags := wk_flags k2 OR KEY_DEVKEY\<rparr>"
        using r2 by (simp_all add: a)
      have k': "k' = k\<lparr>wk_flags := dfl OR KEY_DEVKEY, wk_cipher := cip, wk_keyix := ix, wk_rxkeyix := rix\<rparr>"
        unfolding e k2 k1 by simp
      have "iv_key_alloc drv (ks_dev s) (k\<lparr>wk_flags := fl, wk_cipher := cip\<rparr>) = (True, d, dfl, ix, rix)"
        using a 3 f1(4) k1 by simp
      moreover have "ks_dev s' = d" using f2(5) e by simp
      moreover have "ctx_matches (k', ctx')" using f2(1) unfolding e by simp
      moreover have "counted b \<Longrightarrow> others b (k', ctx') s' = others b (k, ctx) s"
        using f2(2) o unfolding e by simp
      ultimately show ?thesis using nodev k' by blast
    qed
  qed
  then show "ctx_matches (k', ctx')" "counted b \<Longrightarrow> others b (k', ctx') s' = others b (k, ctx) s"
    "ok \<Longrightarrow> has_flag (wk_flags k) KEY_DEVKEY \<Longrightarrow> k' = k\<lparr>wk_flags := fl, wk_cipher := cip\<rparr>"
    "ok \<Longrightarrow> \<not> has_flag (wk_flags k) KEY_DEVKEY \<Longrightarrow>
      \<exists>d dfl ix rix. iv_key_alloc drv (ks_dev s) (k\<lparr>wk_flags := fl, wk_cipher := cip\<rparr>) = (True, d, dfl, ix, rix) \<and>
        k' = k\<lparr>wk_flags := dfl OR KEY_DEVKEY, wk_cipher := cip, wk_keyix := ix, wk_rxkeyix := rix\<rparr> \<and>
        ks_dev s' = d" by blast+
qed


section \<open>The keys of a vap\<close>

text \<open>
  A vap's keys as a list of slots, the four global keys first, then the unicast keys of its
  stations; the module table; and the state the modules and the driver keep. A step is one
  call of the core. The application may fill in the contents of a key before it calls
  \<open>setkey\<close>. The initial states are those \<open>ieee80211_crypto_vattach\<close> leaves, before any key
  is bound.
\<close>

type_synonym ('c, 'd) key_sys = "'c keyslot list \<times> cipher_table \<times> 'd key_state"

inductive key_step ::
  "'c crypto_env \<Rightarrow> 'd key_driver \<Rightarrow> (nat \<Rightarrow> cipher_table \<Rightarrow> cipher_table) \<Rightarrow> u32
     \<Rightarrow> ('c, 'd) key_sys \<Rightarrow> ('c, 'd) key_sys \<Rightarrow> bool"
  for env drv load caps where
  New: "i < length slots \<Longrightarrow>
    ieee80211_crypto_newkey env drv load mr caps cipher flags (slots ! i) (tbl, s) = Some (ok, ks, tbl', s') \<Longrightarrow>
    key_step env drv load caps (slots, tbl, s) (slots[i := ks], tbl', s')"
| Fill: "i < length slots \<Longrightarrow> slots ! i = (k, ctx) \<Longrightarrow>
    key_step env drv load caps (slots, tbl, s)
      (slots[i := (k\<lparr>wk_keylen := n, wk_key := bs, wk_keyrsc := rsc, wk_keytsc := tsc\<rparr>, ctx)], tbl, s)"
| Set: "i < length slots \<Longrightarrow> ieee80211_crypto_setkey env drv (slots ! i) s = Some (ok, ks, s') \<Longrightarrow>
    key_step env drv load caps (slots, tbl, s) (slots[i := ks], tbl, s')"
| Del: "i < length slots \<Longrightarrow> ieee80211_crypto_delkey drv (slots ! i) s = (ok, ks, s') \<Longrightarrow>
    key_step env drv load caps (slots, tbl, s) (slots[i := ks], tbl, s')"
| DelGlobal: "ieee80211_crypto_delglobalkeys drv (take 4 slots) s = (ks, s') \<Longrightarrow>
    key_step env drv load caps (slots, tbl, s) (ks @ drop 4 slots, tbl, s')"
| Reload: "key_step env drv load caps (slots, tbl, s) (slots, tbl, crypto_reload_keys drv run slots s)"

inductive key_reach ::
  "'c crypto_env \<Rightarrow> 'd key_driver \<Rightarrow> (nat \<Rightarrow> cipher_table \<Rightarrow> cipher_table) \<Rightarrow> u32
     \<Rightarrow> ('c, 'd) key_sys \<Rightarrow> bool"
  for env drv load caps where
  Init: "crypto_vattach_keys mem s0 = (slots, s) \<Longrightarrow> ks_nrefs s0 = (\<lambda>c. 0) \<Longrightarrow>
    key_reach env drv load caps (slots, tbl, s)"
| Step: "key_reach env drv load caps st \<Longrightarrow> key_step env drv load caps st st' \<Longrightarrow>
    key_reach env drv load caps st'"

text \<open>References a module has beyond those of the slots; the invariant is that there are none.\<close>

definition excess :: "u32 \<Rightarrow> 'c keyslot list \<Rightarrow> 'd key_state \<Rightarrow> int" where
  "excess c slots s = ks_nrefs s c - sum_list (map (bound c) slots)"

fun key_inv :: "('c, 'd) key_sys \<Rightarrow> bool" where
  "key_inv (slots, tbl, s) \<longleftrightarrow>
     (\<forall>ks \<in> set slots. ctx_matches ks) \<and> (\<forall>c. counted c \<longrightarrow> excess c slots s = 0)"

lemma sum_list_bound_update:
  "i < length slots \<Longrightarrow>
   sum_list (map (bound c) (slots[i := ks])) = sum_list (map (bound c) slots) - bound c (slots ! i) + bound c ks"
  by (induction slots arbitrary: i) (auto split: nat.splits)

lemma excess_update:
  assumes "i < length slots"
  shows "excess c (slots[i := ks]) s' = excess c slots s + (others c ks s' - others c (slots ! i) s)"
  by (simp add: excess_def others_def sum_list_bound_update [OF assms])

text \<open>The invariant carries over if one slot is replaced and keeps its account.\<close>

lemma key_inv_update:
  assumes "key_inv (slots, tbl, s)" "i < length slots" "ctx_matches ks"
    "\<And>c. counted c \<Longrightarrow> others c ks s' = others c (slots ! i) s"
  shows "key_inv (slots[i := ks], tbl', s')"
  using assms set_update_subset_insert [of slots i ks]
  by (auto simp: excess_update [OF assms(2), of _ ks s' s])


lemma newkey_facts:
  assumes n: "ieee80211_crypto_newkey env drv load mr caps cipher flags ks (tbl, s) = Some (ok, ks', tbl', s')"
    and m: "ctx_matches ks"
  shows "ctx_matches ks'" "counted b \<Longrightarrow> others b ks' s' = others b ks s"
proof -
  obtain k ctx where ks: "ks = (k, ctx)" by (cases ks)
  obtain mem1 mem2 rnd where mr: "mr = (mem1, mem2, rnd)" by (cases mr)
  define tbl1 where "tbl1 = (if tbl (nat cipher) = None then load (nat cipher) tbl else tbl)"
  have n': "(if cipher \<ge> int CIPHER_MAX then
        Some (False, ks, tbl, ks_stat (\<lambda>s. s\<lparr>is_crypto_badcipher := is_crypto_badcipher s + 1\<rparr>) s)
      else if cipher < 0 then None
      else case tbl1 (nat cipher) of
          None \<Rightarrow> Some (False, ks, tbl1, ks_stat (\<lambda>s. s\<lparr>is_crypto_nocipher := is_crypto_nocipher s + 1\<rparr>) s)
        | Some cip \<Rightarrow>
            (case newkey_bind env drv mr caps (word_of_int cipher) (ic_cipher cip) flags ks s of
               (ok, ks, s) \<Rightarrow> Some (ok, ks, tbl1, s))) = Some (ok, ks', tbl', s')"
    unfolding tbl1_def using n by (simp only: ieee80211_crypto_newkey_def Let_def prod.case)
  have o: "others b ks (ks_stat f s) = others b ks s" for b f by (simp add: others_def)
  consider "cipher \<ge> int CIPHER_MAX" | "\<not> cipher \<ge> int CIPHER_MAX" "0 \<le> cipher" "tbl1 (nat cipher) = None"
    | cip where "\<not> cipher \<ge> int CIPHER_MAX" "0 \<le> cipher" "tbl1 (nat cipher) = Some cip"
    using n' by (cases "cipher < 0"; cases "tbl1 (nat cipher)") (auto split: if_splits)
  then have "ctx_matches ks' \<and> (counted b \<longrightarrow> others b ks' s' = others b ks s)"
  proof cases
    case 1 with n' m o show ?thesis by auto
  next
    case 2 with n' m o show ?thesis by auto
  next
    case 3
    obtain ok2 k2 c2 s2 where b: "newkey_bind env drv (mem1, mem2, rnd) caps (word_of_int cipher)
        (ic_cipher cip) flags (k, ctx) s = (ok2, (k2, c2), s2)" by (metis prod.collapse)
    from n' 3 b have "ks' = (k2, c2)" "s' = s2" by (simp_all add: mr ks)
    with newkey_bind_facts(1,2) [OF b m [unfolded ks] refl] show ?thesis by (simp add: ks)
  qed
  then show "ctx_matches ks'" "counted b \<Longrightarrow> others b ks' s' = others b ks s" by blast+
qed

lemma setkey_facts:
  assumes n: "ieee80211_crypto_setkey env drv ks s = Some (ok, ks', s')" and m: "ctx_matches ks"
  shows "ctx_matches ks'" "others b ks' s' = others b ks s"
proof -
  obtain k ctx where ks: "ks = (k, ctx)" by (cases ks)
  have c: "ctx_matches ks2 \<and> fst ks2 = k" if "cip_setkey env ks = Some (ok2, ks2)" for ok2 ks2
    using that m
    by (auto simp: cip_setkey_def ks ctx_matches_def split: if_splits cipher_ctx.splits prod.splits)
  have "ctx_matches ks' \<and> fst ks' = k \<and> ks_nrefs s' = ks_nrefs s"
    using n m c by (auto simp: ieee80211_crypto_setkey_def ks split: if_splits option.splits bool.splits prod.splits)
  then show "ctx_matches ks'" "others b ks' s' = others b ks s"
    by (simp_all add: others_def bound_def ks)
qed

lemma resetkey_facts:
  assumes "ieee80211_crypto_resetkey ix ks s = (ks', s')"
  shows "ctx_matches ks' \<and> wk_cipher (fst ks') = CIPHER_NONE \<and> ks_nrefs s' = ks_nrefs s"
  using assms by (auto simp: ieee80211_crypto_resetkey_def none_attach_def ctx_matches_def split: prod.splits)

lemma delkey_facts:
  assumes n: "ieee80211_crypto_delkey drv ks s = (ok, ks', s')"
  shows "ctx_matches ks'" "counted b \<Longrightarrow> others b ks' s' = others b ks s"
proof -
  obtain k ctx where ks: "ks = (k, ctx)" by (cases ks)
  define s1 where "s1 = (if has_flag (wk_flags k) KEY_DEVKEY then
      (case iv_key_delete drv (ks_dev s) k of
         (ok, d) \<Rightarrow> if ok then s\<lparr>ks_dev := d\<rparr>
           else ks_stat (\<lambda>s. s\<lparr>is_crypto_delkey := is_crypto_delkey s + 1\<rparr>) (s\<lparr>ks_dev := d\<rparr>)) else s)"
  have "ks_nrefs s1 = ks_nrefs s" by (simp add: s1_def split: prod.splits)
  moreover have "ieee80211_crypto_resetkey 0xffff (zero_key k, NoneCtx) (cipher_detach (wk_cipher k) s1) = (ks', s')"
    using n unfolding ieee80211_crypto_delkey_def ks Let_def prod.case s1_def [symmetric]
    by (auto split: prod.splits)
  note resetkey_facts [OF this]
  ultimately show "ctx_matches ks'" "counted b \<Longrightarrow> others b ks' s' = others b ks s"
    using not_counted_none by (auto simp: others_def bound_def ks cipher_detach_refs)
qed

lemma delglobalkeys_facts:
  assumes "ieee80211_crypto_delglobalkeys drv slots s = (slots', s')"
  shows "(\<forall>ks \<in> set slots'. ctx_matches ks) \<and> (counted b \<longrightarrow> excess b slots' s' = excess b slots s)"
  using assms
proof (induction slots arbitrary: slots' s s')
  case (Cons ks rest)
  obtain ok ks1 s1 where d: "ieee80211_crypto_delkey drv ks s = (ok, ks1, s1)" by (metis prod.collapse)
  obtain rest1 where r: "ieee80211_crypto_delglobalkeys drv rest s1 = (rest1, s')" and e: "slots' = ks1 # rest1"
    using Cons.prems d by (auto split: prod.splits)
  show ?case using delkey_facts(1) [OF d] delkey_facts(2) [OF d, where b = b] Cons.IH [OF r] e
    by (auto simp: excess_def others_def)
qed (auto simp: excess_def)

lemma vattach_facts:
  assumes "crypto_vattach_keys mem s = (slots, s')"
  shows "(\<forall>ks \<in> set slots. ctx_matches ks \<and> wk_cipher (fst ks) = CIPHER_NONE) \<and> ks_nrefs s' = ks_nrefs s"
  using assms
proof (induction mem arbitrary: slots s s')
  case (Cons ks rest)
  obtain ks1 s1 where d: "ieee80211_crypto_resetkey 0xffff ks s = (ks1, s1)" by (metis prod.collapse)
  obtain rest1 where r: "crypto_vattach_keys rest s1 = (rest1, s')" and e: "slots = ks1 # rest1"
    using Cons.prems d by (auto split: prod.splits)
  show ?case using resetkey_facts [OF d] Cons.IH [OF r] e by auto
qed simp

lemma reload_nrefs [simp]: "ks_nrefs (crypto_reload_keys drv run slots s) = ks_nrefs s"
  by (induction drv run slots s rule: crypto_reload_keys.induct) auto


lemma key_inv_step:
  assumes "key_step env drv load caps st st'" "key_inv st"
  shows "key_inv st'"
  using assms
proof (induction rule: key_step.induct)
  case (New i slots mr cipher flags tbl s ok ks tbl' s')
  then have "ctx_matches (slots ! i)" by simp
  then show ?case
    using key_inv_update [OF New.prems New.hyps(1)] newkey_facts [OF New.hyps(2)] by metis
next
  case (Fill i slots k ctx n bs rsc tsc tbl s)
  then have "ctx_matches (k, ctx)" using nth_mem by fastforce
  then show ?case
    by (intro key_inv_update [OF Fill.prems Fill.hyps(1)])
      (simp_all add: Fill.hyps(2) ctx_matches_def others_def bound_def)
next
  case (Set i slots s ok ks s' tbl)
  then have "ctx_matches (slots ! i)" by simp
  then show ?case
    using key_inv_update [OF Set.prems Set.hyps(1)] setkey_facts [OF Set.hyps(2)] by metis
next
  case (Del i slots s ok ks s' tbl)
  then show ?case
    using key_inv_update [OF Del.prems Del.hyps(1)] delkey_facts [OF Del.hyps(2)] by metis
next
  case (DelGlobal slots s ks s' tbl)
  have sum: "sum_list (map (bound c) (take 4 slots)) + sum_list (map (bound c) (drop 4 slots)) =
      sum_list (map (bound c) slots)" for c
    by (metis append_take_drop_id map_append sum_list_append)
  have "excess c (ks @ drop 4 slots) s' = 0" if "counted c" for c
  proof -
    have "excess c ks s' = excess c (take 4 slots) s" "excess c slots s = 0"
      using delglobalkeys_facts [OF DelGlobal.hyps, of c] DelGlobal.prems that by simp_all
    then show ?thesis using sum [of c] by (simp add: excess_def)
  qed
  moreover have "\<forall>ks \<in> set (drop 4 slots). ctx_matches ks" using DelGlobal.prems
    by (auto dest: in_set_dropD)
  ultimately show ?case using delglobalkeys_facts [OF DelGlobal.hyps] by auto
next
  case (Reload slots tbl s run)
  then show ?case by (simp add: excess_def)
qed

lemma key_inv_reach:
  assumes "key_reach env drv load caps st"
  shows "key_inv st"
  using assms
proof (induction rule: key_reach.induct)
  case (Init mem s0 slots s tbl)
  have "sum_list (map (bound c) slots) = 0" if "counted c" for c
    using vattach_facts [OF Init.hyps(1)] that not_counted_none
    by (auto intro!: sum_list_0 simp: bound_def cong: map_cong)
  then show ?case using vattach_facts [OF Init.hyps(1)] Init.hyps(2) by (auto simp: excess_def)
qed (rule key_inv_step)

lemma refs_count: "sum_list (map (bound c) slots) = int (length (filter (\<lambda>ks. wk_cipher (fst ks) = c) slots))"
  by (induction slots) (auto simp: bound_def)

lemma ctx_matches_setkey: "ctx_matches ks \<Longrightarrow> cip_setkey env ks \<noteq> None"
  by (cases ks; cases "snd ks")
    (auto simp: ctx_matches_def cip_setkey_def cipher_ids split: prod.split)

text \<open>
  C13. Whatever keys are created, filled in, set, deleted, cleared and reloaded on a vap, with
  whatever driver, memory and modules: the references a cipher module counts are exactly the
  keys bound to it, so a module with none is safe to unload and no count runs negative; and
  the context of every key is one of its cipher, so no operation reads a context of another
  module.
\<close>

theorem crypto_refs_balanced:
  assumes "key_reach env drv load caps (slots, tbl, s)"
  shows "(counted c \<longrightarrow> ks_nrefs s c = int (length (filter (\<lambda>ks. wk_cipher (fst ks) = c) slots))) \<and>
    (\<forall>ks \<in> set slots. ctx_matches ks \<and> cip_setkey env ks \<noteq> None)"
proof -
  have "key_inv (slots, tbl, s)" by (rule key_inv_reach [OF assms])
  then have "counted c \<Longrightarrow> excess c slots s = 0" and m: "\<forall>ks \<in> set slots. ctx_matches ks" by simp_all
  moreover have "\<forall>ks \<in> set slots. cip_setkey env ks \<noteq> None" using m ctx_matches_setkey by blast
  ultimately show ?thesis by (simp add: excess_def refs_count)
qed

text \<open>Five keys, CCMP loaded; the second global key is created and a station's key too.\<close>

definition ex_ks :: "unit key_state" where
  "ex_ks = \<lparr>ks_vap = ex_vap, ks_nrefs = (\<lambda>c. 0), ks_dev = ()\<rparr>"

definition ex_env0 :: "u8 list crypto_env" where
  "ex_env0 = \<lparr>env_be = False, env_pre = ex_pre, env_app = ex_app, env_aes = toy_aes, env_set_key = id, env_zero = []\<rparr>"

definition ex_tbl :: cipher_table where
  "ex_tbl = ieee80211_crypto_register ccmp_template (ieee80211_crypto_attach (\<lambda>c. None))"

lemma ex_new:
  fixes k :: ieee80211_key
  assumes "wk_cipher k = CIPHER_NONE" "wk_flags k = KEY_XMIT OR KEY_RECV" "wk_nwidx k = Some i"
  shows "\<exists>s' k'. ieee80211_crypto_newkey ex_env0 null_driver (\<lambda>c t. t) (True, True, 0) 0 3 3 (k, ctx) (ex_tbl, s) =
      Some (True, (k', CcmpCtx \<lparr>cc_aes = []\<rparr>), ex_tbl, s') \<and> wk_cipher k' = CIPHER_AES_CCM"
  using assms
  by (simp add: ieee80211_crypto_newkey_def newkey_bind_def ex_tbl_def ieee80211_crypto_register_def
      ieee80211_crypto_attach_def ccmp_template_def CIPHER_MAX_def cipher_ids cip_rebind_def cip_attach_def
      ccmp_attach_def ex_env0_def newkey_flags_def null_driver_def null_key_alloc_def has_flag_def
      KEY_COMMON_def KEY_DEVICE_def KEY_SWCRYPT_def KEY_SWMIC_def KEY_DEVKEY_def KEY_XMIT_def KEY_RECV_def
      KEY_GROUP_def Let_def)

theorem crypto_refs_balanced_witness:
  "\<exists>slots tbl s. key_reach ex_env0 null_driver (\<lambda>c t. t) 0 (slots, tbl, s :: unit key_state) \<and>
     wk_cipher (fst (slots ! 1)) = CIPHER_AES_CCM \<and> ks_nrefs s CIPHER_AES_CCM = 1"
proof -
  let ?k = "\<lambda>i. (ex_key 0)\<lparr>wk_nwidx := i\<rparr>"
  let ?z = "\<lambda>i. (?k i)\<lparr>wk_cipher := CIPHER_NONE, wk_keyix := 0xffff, wk_rxkeyix := 0xffff, wk_flags := KEY_XMIT OR KEY_RECV\<rparr>"
  let ?m = "[(?k (Some 0), NoneCtx), (?k (Some 1), NoneCtx), (?k None, NoneCtx)]"
  let ?slots = "[(?z (Some 0), NoneCtx), (?z (Some 1), NoneCtx), (?z None, NoneCtx)]"
  have v: "crypto_vattach_keys ?m ex_ks = (?slots, ex_ks)"
    by (simp add: ieee80211_crypto_resetkey_def none_attach_def)
  have r0: "key_reach ex_env0 null_driver (\<lambda>c t. t) 0 (?slots, ex_tbl, ex_ks)"
    by (rule key_reach.Init [OF v]) (simp add: ex_ks_def)
  obtain s' k' where n: "ieee80211_crypto_newkey ex_env0 null_driver (\<lambda>c t. t) (True, True, 0) 0 3 3 (?slots ! 1) (ex_tbl, ex_ks) =
      Some (True, (k', CcmpCtx \<lparr>cc_aes = []\<rparr>), ex_tbl, s')" and k': "wk_cipher k' = CIPHER_AES_CCM"
    using ex_new [of "?z (Some 1)" 1 NoneCtx ex_ks] by auto
  have r1: "key_reach ex_env0 null_driver (\<lambda>c t. t) 0
      (?slots[1 := (k', CcmpCtx \<lparr>cc_aes = []\<rparr>)], ex_tbl, s')"
    by (rule key_reach.Step [OF r0 key_step.New [OF _ n]]) simp
  have c: "counted CIPHER_AES_CCM" by (simp add: counted_def)
  have ne: "CIPHER_NONE \<noteq> CIPHER_AES_CCM" by (simp add: cipher_ids)
  show ?thesis
    using crypto_refs_balanced [OF r1, of CIPHER_AES_CCM] c r1 k' ne
    by (intro exI [of _ "?slots[1 := (k', CcmpCtx \<lparr>cc_aes = []\<rparr>)]"] exI [of _ ex_tbl] exI [of _ s']) simp
qed


section \<open>What a successful newkey leaves\<close>

lemma has_flag_or: "has_flag (a OR b) f \<longleftrightarrow> has_flag a f \<or> has_flag b f"
proof -
  have "(a OR b) AND f = (a AND f) OR (b AND f)" by (simp add: bit.conj_disj_distrib2)
  then show ?thesis by (simp add: has_flag_def or_eq_0_iff)
qed

lemma newkey_flags_common: "newkey_flags caps cipher flags oflags AND KEY_COMMON = flags AND KEY_COMMON"
proof -
  have "KEY_DEVICE AND KEY_COMMON = 0" "KEY_SWCRYPT AND KEY_COMMON = 0" "KEY_SWMIC AND KEY_COMMON = 0"
    by (simp_all add: KEY_COMMON_def KEY_DEVICE_def KEY_SWCRYPT_def KEY_SWMIC_def)
  then show ?thesis by (simp add: newkey_flags_def Let_def bit.conj_disj_distrib2 and.assoc)
qed

lemma newkey_flags_sw:
  "caps AND push_bit (unat cipher) 1 = 0 \<Longrightarrow> has_flag (newkey_flags caps cipher flags oflags) KEY_SWENCRYPT"
  "caps AND push_bit (unat cipher) 1 = 0 \<Longrightarrow> has_flag (newkey_flags caps cipher flags oflags) KEY_SWDECRYPT"
  "cipher = CIPHER_TKIP \<Longrightarrow> caps AND push_bit 4 1 = 0 \<Longrightarrow>
    has_flag (newkey_flags caps cipher flags oflags) KEY_SWENMIC \<and>
    has_flag (newkey_flags caps cipher flags oflags) KEY_SWDEMIC"
  by (simp_all add: newkey_flags_def Let_def has_flag_or)
    (simp_all add: has_flag_def KEY_SWENCRYPT_def KEY_SWDECRYPT_def KEY_SWCRYPT_def KEY_SWENMIC_def
      KEY_SWDEMIC_def KEY_SWMIC_def)


text \<open>The common case: enough memory, the driver's null methods, a module that is loaded.\<close>

lemma cip_attach_mem:
  assumes "counted c \<or> c = CIPHER_NONE"
  shows "\<exists>ctx s'. cip_attach env True rnd c s = (Some ctx, s')"
proof -
  obtain r s' where a: "cip_attach env True rnd c s = (r, s')" by (metis prod.exhaust)
  then have "r \<noteq> None" using assms
    by (cases rule: cip_attach_cases) auto
  with a show ?thesis by auto
qed

lemma has_flag_common:
  assumes "a AND KEY_COMMON = b AND KEY_COMMON" "f AND KEY_COMMON = f"
  shows "has_flag a f = has_flag b f"
proof -
  have "a AND f = (a AND KEY_COMMON) AND f" "b AND f = (b AND KEY_COMMON) AND f"
    using assms(2) by (metis and.assoc and.commute)+
  then show ?thesis using assms(1) by (simp add: has_flag_def)
qed

lemma ks_vap_detach [simp]: "ks_vap (cipher_detach c s) = ks_vap s"
  by (simp add: cipher_detach_def Let_def)

lemma rebind_mem:
  assumes "counted c \<or> c = CIPHER_NONE"
  shows "\<exists>ctx' s'. cip_rebind env True rnd c ofl (k, ctx) s = (True, (k\<lparr>wk_cipher := c\<rparr>, ctx'), s') \<and>
    ks_dev s' = ks_dev s \<and> ks_vap s' = ks_vap s"
proof -
  obtain ctx1 s1 where a: "cip_attach env True rnd c s = (Some ctx1, s1)" using cip_attach_mem [OF assms] by blast
  have "ks_vap s1 = ks_vap s" using a assms
    by (auto simp: cip_attach_def counted_def wep_attach_def tkip_attach_def ccmp_attach_def none_attach_def
        Let_def split: if_splits)
  then show ?thesis using cip_attach_some(2) [OF a] a
    by (simp add: cip_rebind_def cipher_detach_refs(2))
qed

lemma opt_rebind_mem:
  assumes "counted c \<or> c = CIPHER_NONE" "\<not> p \<Longrightarrow> wk_cipher k = c" "p \<Longrightarrow> mem"
  shows "\<exists>ctx' s'. (if p then cip_rebind env mem rnd c ofl (k, ctx) s else (True, (k, ctx), s)) =
      (True, (k\<lparr>wk_cipher := c\<rparr>, ctx'), s') \<and> ks_dev s' = ks_dev s \<and> ks_vap s' = ks_vap s"
proof (cases p)
  case True
  then show ?thesis using rebind_mem [OF assms(1)] assms(3) by simp
next
  case False
  then have "k = k\<lparr>wk_cipher := c\<rparr>" using assms(2) by simp
  then show ?thesis using False by auto
qed

text \<open>With the memory it needs, \<open>newkey\<close> answers what the driver answers.\<close>

lemma newkey_bind_mem:
  assumes c: "counted c \<or> c = CIPHER_NONE"
    and fl: "fl = newkey_flags caps cipher flags (wk_flags k)"
    and al: "iv_key_alloc drv (ks_dev s) (k\<lparr>wk_flags := fl, wk_cipher := c\<rparr>) = (ok, d, dfl, ix, rix)"
    and mem: "mem2 \<or> dfl = fl"
  shows "\<exists>k' ctx' s'. newkey_bind env drv (True, mem2, rnd) caps cipher c flags (k, ctx) s =
      (has_flag (wk_flags k) KEY_DEVKEY \<or> ok, (k', ctx'), s') \<and>
    (has_flag (wk_flags k) KEY_DEVKEY \<longrightarrow> ks_dev s' = ks_dev s \<and> ks_vap s' = ks_vap s) \<and>
    (\<not> has_flag (wk_flags k) KEY_DEVKEY \<and> ok \<longrightarrow> ks_vap s' = ks_vap s) \<and>
    (\<not> has_flag (wk_flags k) KEY_DEVKEY \<and> \<not> ok \<longrightarrow>
       k' = k\<lparr>wk_flags := dfl, wk_cipher := c\<rparr> \<and> ks_dev s' = d \<and>
       ks_vap s' = stat (\<lambda>s. s\<lparr>is_crypto_keyfail := is_crypto_keyfail s + 1\<rparr>) (ks_vap s))"
proof -
  obtain c1 s1 where r1: "(if wk_cipher k \<noteq> c \<or> wk_flags k \<noteq> fl
      then cip_rebind env True rnd c (wk_flags k) (k\<lparr>wk_flags := fl\<rparr>, ctx) s
      else (True, (k\<lparr>wk_flags := fl\<rparr>, ctx), s)) = (True, (k\<lparr>wk_flags := fl, wk_cipher := c\<rparr>, c1), s1)"
    and s1: "ks_dev s1 = ks_dev s" "ks_vap s1 = ks_vap s"
    using opt_rebind_mem [OF c, of "wk_cipher k \<noteq> c \<or> wk_flags k \<noteq> fl" "k\<lparr>wk_flags := fl\<rparr>" True
        env rnd "wk_flags k" ctx s] by auto
  then have r1': "(if wk_cipher k \<noteq> c \<or> wk_flags k \<noteq> fl
      then cip_rebind env True rnd c (wk_flags k) (k\<lparr>wk_flags := fl\<rparr>, ctx) s
      else (True, (k, ctx), s)) = (True, (k\<lparr>wk_flags := fl, wk_cipher := c\<rparr>, c1), s1)" by (auto split: if_splits)
  let ?k = "k\<lparr>wk_cipher := c, wk_flags := dfl\<rparr>" and ?s = "s1\<lparr>ks_dev := d\<rparr>"
  obtain c2 s2 where r2: "(if dfl \<noteq> fl then cip_rebind env mem2 rnd c (wk_flags k) (?k, c1) ?s
      else (True, (?k, c1), ?s)) = (True, (?k, c2), s2)" and s2: "ks_vap s2 = ks_vap s"
    using opt_rebind_mem [OF c, of "dfl \<noteq> fl" ?k mem2 env rnd "wk_flags k" c1 ?s] mem s1(2) by auto
  have dev: "has_flag fl KEY_DEVKEY = has_flag (wk_flags k) KEY_DEVKEY"
    by (simp add: fl newkey_flags_device)
  note n = newkey_bind_def prod.case Let_def fl [symmetric] r1' bool.case
  consider "has_flag (wk_flags k) KEY_DEVKEY" | "\<not> has_flag (wk_flags k) KEY_DEVKEY" "\<not> ok"
    | "\<not> has_flag (wk_flags k) KEY_DEVKEY" "ok" by blast
  then show ?thesis
  proof cases
    case 1
    then show ?thesis unfolding n by (simp add: dev s1)
  next
    case 2
    then show ?thesis unfolding n by (simp add: dev s1 al)
  next
    case 3
    then show ?thesis unfolding n using r2 s2
      by (cases "dfl = fl") (simp_all add: dev s1 al)
  qed
qed

lemma null_alloc_iff:
  assumes fl: "fl = newkey_flags caps cipher flags oflags"
    and al: "iv_key_alloc null_driver d (k\<lparr>wk_flags := fl, wk_cipher := c\<rparr>) = (ok, d', dfl, ix, rix)"
  shows "ok \<longleftrightarrow> wk_nwidx k \<noteq> None \<or> \<not> has_flag flags KEY_GROUP" "dfl = fl"
proof -
  have "KEY_GROUP AND KEY_COMMON = KEY_GROUP" by (simp add: KEY_GROUP_def KEY_COMMON_def)
  then have "has_flag fl KEY_GROUP = has_flag flags KEY_GROUP"
    using has_flag_common [OF newkey_flags_common] unfolding fl by blast
  then show "ok \<longleftrightarrow> wk_nwidx k \<noteq> None \<or> \<not> has_flag flags KEY_GROUP" "dfl = fl"
    using al by (auto simp: null_driver_def null_key_alloc_def split: option.splits if_splits)
qed

text \<open>
  C35. \<open>newkey\<close> with any driver, for a cipher whose module is loaded and registered under its
  number and with memory for the context (for a second one only if the driver changes the
  key's flags). It succeeds if and only if the key has a device slot already or the driver,
  asked with the key bound to the cipher under its new flags, accepts it. The key is then
  bound to the cipher; it keeps its slot and has the new flags, or it has the slot and the
  flags the driver gave and the mark of a device slot. A refused key is counted and gets no
  slot. The new flags have the application's common flags, software encryption if the hardware does not do
  the cipher and software MIC if it does not do the MIC. The contents and the counters of
  the key are as before. The null driver accepts every key but a group key outside the
  global table.
\<close>

theorem crypto_newkey_ok:
  assumes c: "c < CIPHER_MAX" "tbl c = Some cip" "ic_cipher cip = word_of_nat c" "c \<in> {0, 1, 3, 6}"
    and m: "ctx_matches (k, ctx)"
    and fl: "fl = newkey_flags caps (word_of_nat c) flags (wk_flags k)"
    and al: "iv_key_alloc drv (ks_dev s) (k\<lparr>wk_flags := fl, wk_cipher := word_of_nat c\<rparr>) = (ok, d, dfl, ix, rix)"
    and mem: "mem2 \<or> dfl = fl"
  shows "\<exists>k' ctx' s'. ieee80211_crypto_newkey env drv load (True, mem2, rnd) caps (int c) flags (k, ctx) (tbl, s) =
      Some (has_flag (wk_flags k) KEY_DEVKEY \<or> ok, (k', ctx'), tbl, s') \<and> ctx_matches (k', ctx') \<and>
    (has_flag (wk_flags k) KEY_DEVKEY \<longrightarrow>
       k' = k\<lparr>wk_cipher := word_of_nat c, wk_flags := fl\<rparr> \<and> ks_dev s' = ks_dev s \<and> ks_vap s' = ks_vap s) \<and>
    (\<not> has_flag (wk_flags k) KEY_DEVKEY \<and> ok \<longrightarrow>
       k' = k\<lparr>wk_cipher := word_of_nat c, wk_flags := dfl OR KEY_DEVKEY, wk_keyix := ix, wk_rxkeyix := rix\<rparr> \<and>
       ks_dev s' = d \<and> ks_vap s' = ks_vap s) \<and>
    (\<not> has_flag (wk_flags k) KEY_DEVKEY \<and> \<not> ok \<longrightarrow>
       k' = k\<lparr>wk_cipher := word_of_nat c, wk_flags := dfl\<rparr> \<and> ks_dev s' = d \<and>
       ks_vap s' = stat (\<lambda>s. s\<lparr>is_crypto_keyfail := is_crypto_keyfail s + 1\<rparr>) (ks_vap s)) \<and>
    fl AND KEY_COMMON = flags AND KEY_COMMON \<and>
    (caps AND push_bit c 1 = 0 \<longrightarrow> has_flag fl KEY_SWENCRYPT \<and> has_flag fl KEY_SWDECRYPT) \<and>
    (c = 1 \<and> caps AND push_bit 4 1 = 0 \<longrightarrow> has_flag fl KEY_SWENMIC \<and> has_flag fl KEY_SWDEMIC) \<and>
    (drv = null_driver \<longrightarrow> dfl = fl \<and> (ok \<longleftrightarrow> wk_nwidx k \<noteq> None \<or> \<not> has_flag flags KEY_GROUP))"
proof -
  let ?c = "word_of_nat c :: u32"
  have cc: "counted ?c \<or> ?c = CIPHER_NONE" "unat ?c = c" "?c = CIPHER_TKIP \<longleftrightarrow> c = 1"
    using c(4) by (auto simp: counted_def cipher_ids)
  obtain k' ctx' s' where nb: "newkey_bind env drv (True, mem2, rnd) caps ?c ?c flags (k, ctx) s =
      (has_flag (wk_flags k) KEY_DEVKEY \<or> ok, (k', ctx'), s')"
    and f: "has_flag (wk_flags k) KEY_DEVKEY \<longrightarrow> ks_dev s' = ks_dev s \<and> ks_vap s' = ks_vap s"
      "\<not> has_flag (wk_flags k) KEY_DEVKEY \<and> ok \<longrightarrow> ks_vap s' = ks_vap s"
      "\<not> has_flag (wk_flags k) KEY_DEVKEY \<and> \<not> ok \<longrightarrow>
       k' = k\<lparr>wk_flags := dfl, wk_cipher := ?c\<rparr> \<and> ks_dev s' = d \<and>
       ks_vap s' = stat (\<lambda>s. s\<lparr>is_crypto_keyfail := is_crypto_keyfail s + 1\<rparr>) (ks_vap s)"
    using newkey_bind_mem [OF cc(1) fl al mem] by blast
  note b = newkey_bind_facts [OF nb m fl]
  have new: "ieee80211_crypto_newkey env drv load (True, mem2, rnd) caps (int c) flags (k, ctx) (tbl, s) =
      Some (has_flag (wk_flags k) KEY_DEVKEY \<or> ok, (k', ctx'), tbl, s')"
    using c(1-3) nb by (simp add: ieee80211_crypto_newkey_def)
  have com: "fl AND KEY_COMMON = flags AND KEY_COMMON" by (simp add: fl newkey_flags_common)
  have sw: "caps AND push_bit c 1 = 0 \<longrightarrow> has_flag fl KEY_SWENCRYPT \<and> has_flag fl KEY_SWDECRYPT"
    "c = 1 \<and> caps AND push_bit 4 1 = 0 \<longrightarrow> has_flag fl KEY_SWENMIC \<and> has_flag fl KEY_SWDEMIC"
    using newkey_flags_sw [where caps = caps and cipher = ?c and flags = flags and oflags = "wk_flags k"] cc(2,3)
    unfolding fl by auto
  have nul: "drv = null_driver \<longrightarrow> dfl = fl \<and> (ok \<longleftrightarrow> wk_nwidx k \<noteq> None \<or> \<not> has_flag flags KEY_GROUP)"
  proof
    assume "drv = null_driver"
    from null_alloc_iff [OF fl al [unfolded this]]
    show "dfl = fl \<and> (ok \<longleftrightarrow> wk_nwidx k \<noteq> None \<or> \<not> has_flag flags KEY_GROUP)" by simp
  qed
  have acc: "k' = k\<lparr>wk_cipher := ?c, wk_flags := dfl OR KEY_DEVKEY, wk_keyix := ix, wk_rxkeyix := rix\<rparr> \<and> ks_dev s' = d"
    if "\<not> has_flag (wk_flags k) KEY_DEVKEY" "ok"
    using b(4) that al by auto
  have kept: "k' = k\<lparr>wk_cipher := ?c, wk_flags := fl\<rparr>" if "has_flag (wk_flags k) KEY_DEVKEY"
    using b(3) that by simp
  show ?thesis
    by (rule exI [of _ k'], rule exI [of _ ctx'], rule exI [of _ s'])
      (use new b(1) f com sw nul acc kept in simp)
qed

theorem crypto_newkey_ok_witness:
  "\<exists>k' ctx' s'. ieee80211_crypto_newkey ex_env0 null_driver (\<lambda>c t. t) (True, False, 0) 0 (int 3) 3
      ((ex_key 7)\<lparr>wk_cipher := CIPHER_NONE, wk_flags := 3\<rparr>, NoneCtx) (ex_tbl, ex_ks) =
      Some (True, (k', ctx'), ex_tbl, s') \<and>
    wk_cipher k' = 3 \<and> has_flag (wk_flags k') KEY_SWDECRYPT \<and> wk_keytsc k' = 7 \<and> wk_keyix k' = 1"
proof -
  let ?k = "(ex_key 7)\<lparr>wk_cipher := CIPHER_NONE, wk_flags := 3\<rparr>"
  define fl where "fl = newkey_flags 0 (word_of_nat 3) 3 (wk_flags ?k)"
  have c: "3 < CIPHER_MAX" "ex_tbl 3 = Some ccmp_template" "ic_cipher ccmp_template = word_of_nat 3"
    "(3 :: nat) \<in> {0, 1, 3, 6}"
    by (simp_all add: CIPHER_MAX_def ex_tbl_def ieee80211_crypto_register_def ieee80211_crypto_attach_def
        ccmp_template_def cipher_ids)
  have k: "ctx_matches (?k, NoneCtx :: u8 list cipher_ctx)" "\<not> has_flag (wk_flags ?k) KEY_DEVKEY"
    by (simp_all add: ctx_matches_def has_flag_def KEY_DEVKEY_def)
  have al: "iv_key_alloc null_driver (ks_dev ex_ks) (?k\<lparr>wk_flags := fl, wk_cipher := word_of_nat 3\<rparr>) =
      (True, ks_dev ex_ks, fl, 1, 0xffff)"
    by (simp add: null_driver_def null_key_alloc_def ex_key_def ieee80211_crypto_get_key_wepidx_def)
  note n = crypto_newkey_ok [where k = ?k and fl = fl and dfl = fl and flags = 3 and c = 3 and tbl = ex_tbl and
      ?mem2.0 = False and caps = 0 and drv = null_driver and d = "ks_dev ex_ks" and s = ex_ks and ok = True and ix = 1 and
      rix = "0xffff" and cip = ccmp_template, OF c k(1) fl_def al disjI2 [OF refl], of ex_env0 "\<lambda>c t. t" 0]
  from n obtain k' ctx' s' where r0: "ieee80211_crypto_newkey ex_env0 null_driver (\<lambda>c t. t) (True, False, 0) 0 (int 3) 3
      (?k, NoneCtx) (ex_tbl, ex_ks) = Some (has_flag (wk_flags ?k) KEY_DEVKEY \<or> True, (k', ctx'), ex_tbl, s')"
    and e0: "\<not> has_flag (wk_flags ?k) KEY_DEVKEY \<and> True \<longrightarrow>
      k' = ?k\<lparr>wk_cipher := word_of_nat 3, wk_flags := fl OR KEY_DEVKEY, wk_keyix := 1, wk_rxkeyix := 0xffff\<rparr> \<and>
      ks_dev s' = ks_dev ex_ks \<and> ks_vap s' = ks_vap ex_ks"
    and sw0: "0 AND push_bit 3 1 = (0 :: u32) \<longrightarrow> has_flag fl KEY_SWENCRYPT \<and> has_flag fl KEY_SWDECRYPT"
    by (elim exE conjE) (rule that; assumption)
  have r: "ieee80211_crypto_newkey ex_env0 null_driver (\<lambda>c t. t) (True, False, 0) 0 (int 3) 3
      (?k, NoneCtx) (ex_tbl, ex_ks) = Some (True, (k', ctx'), ex_tbl, s')" using r0 by simp
  have e: "k' = ?k\<lparr>wk_cipher := word_of_nat 3, wk_flags := fl OR KEY_DEVKEY, wk_keyix := 1, wk_rxkeyix := 0xffff\<rparr>"
    using e0 k(2) by blast
  have sw: "has_flag fl KEY_SWDECRYPT" using sw0 by simp
  have "wk_cipher k' = 3" "wk_keytsc k' = 7" "wk_keyix k' = 1" "wk_flags k' = fl OR KEY_DEVKEY"
    by (subst e, simp add: ex_key_def)+
  with r sw show ?thesis by (auto simp: has_flag_or)
qed

text \<open>
  A slot the core loses: the driver gives a slot but changes the flags, and there is no memory
  for the second context. \<open>newkey\<close> fails without having noted the slot in the key, so
  deleting the key does not give it back to the driver: its state stays what the allocation
  made it.
\<close>

lemma crypto_newkey_slot_leak:
  assumes k: "wk_cipher k = cip" "counted cip" "\<not> has_flag (wk_flags k) KEY_DEVKEY"
    and fl: "wk_flags k = newkey_flags caps cipher flags (wk_flags k)"
    and al: "iv_key_alloc drv (ks_dev s) k = (True, d, dfl, ix, rix)" "dfl \<noteq> wk_flags k"
  shows "\<exists>ks' s' ks'' s''. newkey_bind env drv (mem1, False, rnd) caps cipher cip flags (k, ctx) s = (False, ks', s') \<and>
    ieee80211_crypto_delkey drv ks' s' = (True, ks'', s'') \<and> ks_dev s'' = d"
proof -
  obtain r s1 where a: "cip_attach env False rnd cip (s\<lparr>ks_dev := d\<rparr>) = (r, s1)" by (metis prod.exhaust)
  have a': "r = None" "ks_dev s1 = d"
    using a k(2) by (cases rule: cip_attach_cases; auto simp: not_counted_none)+
  have n: "newkey_bind env drv (mem1, False, rnd) caps cipher cip flags (k, ctx) s =
      (False, (k, ctx), ks_stat (\<lambda>s. s\<lparr>is_crypto_attachfail := is_crypto_attachfail s + 1\<rparr>) s1)"
    unfolding newkey_bind_def prod.case Let_def fl [symmetric]
    using k al a a' by (simp add: cip_rebind_def)
  show ?thesis unfolding n using k a'
    by (simp add: cipher_detach_refs(2) ieee80211_crypto_delkey_def ieee80211_crypto_resetkey_def none_attach_def Let_def)
qed

end
