(* ===== verification/CryptoPath.thy ===== *)
theory CryptoPath
  imports CryptoProps
begin

text \<open>
  The data path through the crypto core: the key a frame is protected with, the key the
  receiver finds for it by the key id octet, and what the two sides do together. The module
  used is CCMP; the facts about it come from CcmpProps.
\<close>

lemma setiv_keyid:
  assumes "wk_nwidx k = Some i" "i < 4"
  shows "unat (drop_bit 6 (snd (ccmp_setiv k) ! 3)) = i"
proof -
  consider "i = 0" | "i = 1" | "i = 2" | "i = 3" using assms(2) by arith
  then show ?thesis
    by cases (simp_all add: ccmp_setiv_def ieee80211_crypto_get_keyid_def assms(1) Let_def)
qed

lemma keyid_octet:
  assumes "concat segs = x @ iv @ y" "length x = h" "length iv = 8"
  shows "m_copydata segs (h + 3) 1 = Some [iv ! 3]"
proof -
  have "take 1 (drop (h + 3) (concat segs)) = [iv ! 3]"
    using assms by (cases iv rule: rev_cases) (auto simp: take_Suc_conv_app_nth hd_drop_conv_nth take_Suc drop_Suc nth_append)
  then show ?thesis using assms by (simp add: m_copydata_def pktlen_def)
qed

text \<open>Receiving a frame that was sealed with the group key \<open>i\<close>.\<close>

lemma group_receive:
  assumes E: "block_cipher (env_aes env (cc_aes cr))"
    and h: "ieee80211_hdrsize wh \<le> h" "h \<le> length wh" "h = ieee80211_hdrspace f wh"
    and mc: "IEEE80211_IS_MULTICAST (i_addr1 wh)"
    and C: "concat (m_segs mr) = take h wh @ iv @ ccmp_seal (env_aes env (cc_aes cr)) wh tsc body"
      "length iv = 8" "ccmp_rx_frame h mr"
    and iv: "READ_6 (iv ! 0) (iv ! 1) (iv ! 4) (iv ! 5) (iv ! 6) (iv ! 7) = tsc" "(iv ! 3) AND 0x20 \<noteq> 0"
      "unat (drop_bit 6 (iv ! 3)) = i"
    and n: "i < length (iv_nw_keys n)" "iv_nw_keys n ! i = (kr, CcmpCtx cr)" "wk_cipher kr = CIPHER_AES_CCM"
    and kr: "has_flag (wk_flags kr) KEY_SWDECRYPT" "wk_keyrsc kr ! ieee80211_gettid wh < tsc"
  shows "\<exists>n' mr'. ieee80211_crypto_decap env n mr h = Some (True, Some (NwKey i), n', mr') \<and>
    iv_nw_keys n' = (iv_nw_keys n)[i := (kr\<lparr>wk_keyrsc := (wk_keyrsc kr)[ieee80211_gettid wh := tsc]\<rparr>, CcmpCtx cr)] \<and>
    concat (m_segs mr') = take h wh @ body"
proof -
  have r: "m_segs mr \<noteq> []" "h + 8 \<le> length (mtod mr)" "\<not> rx_flag mr 0x100" "24 + 4 + 4 \<le> pktlen (m_segs mr)"
    using C(3) hdrspace_bounds(1) [of f wh] h(3) by (simp_all add: ccmp_rx_frame_def rx_flag_def)
  have "take h (mtod mr) = take h wh"
    using arg_cong [OF C(1), of "take h"] r h(2) by (simp add: concat_hd_tl)
  then have "mtod mr = take h wh @ drop h (mtod mr)" by (metis append_take_drop_id)
  then have "same_hdr wh (mtod mr)" using same_hdr_append [OF h(1,2)] by metis
  then have mc': "IEEE80211_IS_MULTICAST (i_addr1 (mtod mr))" using mc same_hdr_addr(1) by metis
  have kid: "m_copydata (m_segs mr) (h + 3) 1 = Some [iv ! 3]"
    by (rule keyid_octet [OF C(1) _ C(2)]) (simp add: h(2))
  obtain vr' mr' where d: "ccmp_decap (env_aes env) h (cn_vap n, kr, cr, mr) =
      Some (True, vr', kr\<lparr>wk_keyrsc := (wk_keyrsc kr)[ieee80211_gettid wh := tsc]\<rparr>, mr')"
    and c: "concat (m_segs mr') = take h wh @ body"
    using ccmp_receive_sealed [where aes = "env_aes env" and cr = cr, OF E h C iv(1,2) kr, of "cn_vap n"] by blast
  have cip: "key_template kr = Some ccmp_template"
    by (simp add: key_template_def n(3) cipher_ids)
  have dec: "cip_decap env h (cn_vap n, (kr, CcmpCtx cr), mr) =
      Some (True, vr', (kr\<lparr>wk_keyrsc := (wk_keyrsc kr)[ieee80211_gettid wh := tsc]\<rparr>, CcmpCtx cr), mr')"
    by (simp add: cip_decap_def n(3) d) (simp add: cipher_ids)
  show ?thesis
    using r mc' kid iv(3) n cip dec c
    by (simp add: ieee80211_crypto_decap_def ccmp_template_def)
qed

text \<open>Sending a multicast frame with the default transmit key.\<close>

lemma group_encap:
  assumes env: "block_cipher (env_aes env (cc_aes c))" "prepends (env_pre env)" "appends (env_app env)"
      "\<forall>segs n. env_pre env segs n \<noteq> None" "\<forall>segs bs. env_app env segs bs \<noteq> None"
    and m: "m_segs m \<noteq> []" "h = ieee80211_hdrspace (ic_flags (cn_vap ns)) (mtod m)" "h \<le> length (mtod m)"
      "wide (tl (m_segs m))" "IEEE80211_IS_MULTICAST (i_addr1 (mtod m))"
    and ns: "unat (iv_def_txkey ns) = i" "i < 4" "i < length (iv_nw_keys ns)"
      "iv_nw_keys ns ! i = (ks, CcmpCtx c)" "wk_cipher ks = CIPHER_AES_CCM"
      "\<not> ccmp_exempt ks (mtod m)" "has_flag (wk_flags ks) KEY_SWENCRYPT"
  shows "\<exists>ns' m'. ieee80211_crypto_encap env ns m = Some (Some (NwKey i), ns', m') \<and>
    concat (m_segs m') = take h (concat (m_segs m)) @ snd (ccmp_setiv ks) @
      ccmp_seal (env_aes env (cc_aes c)) (mtod m) (wk_keytsc ks + 1) (drop h (concat (m_segs m)))"
proof -
  obtain v' m' where e: "ccmp_encap (env_aes env) (env_pre env) (env_app env) (cn_vap ns, ks, c, m) =
      Some (True, v', ks\<lparr>wk_keytsc := wk_keytsc ks + 1\<rparr>, m')"
    and cm: "concat (m_segs m') = take h (concat (m_segs m)) @ snd (ccmp_setiv ks) @
      ccmp_seal (env_aes env (cc_aes c)) (mtod m) (wk_keytsc ks + 1) (drop h (concat (m_segs m)))"
    using ccmp_encap_flat [where aes = "env_aes env" and ctx = c, OF env m(1-4) ns(6,7)] by blast
  have "iv_def_txkey ns \<noteq> 0xffff" using ns(1,2) by (auto simp: unsigned_of_nat)
  then have tx: "ieee80211_crypto_get_txkey ns m = (Some (NwKey i), ns)"
    using m(5) ns(1) by (simp add: ieee80211_crypto_get_txkey_def)
  have "cip_encap env (cn_vap ns, (ks, CcmpCtx c), m) =
      Some (True, v', (ks\<lparr>wk_keytsc := wk_keytsc ks + 1\<rparr>, CcmpCtx c), m')"
    by (simp add: cip_encap_def ns(5) e) (simp add: cipher_ids)
  then have "ieee80211_crypto_encap env ns m = Some (Some (NwKey i),
      key_set (NwKey i) (ks\<lparr>wk_keytsc := wk_keytsc ks + 1\<rparr>, CcmpCtx c) (ns\<lparr>cn_vap := v'\<rparr>), m')"
    by (simp add: ieee80211_crypto_encap_def tx ns(3,4) del: key_set.simps)
  with cm show ?thesis by blast
qed

text \<open>
  C12. A group key frame through both crypto cores: the sender picks the default transmit key
  for a multicast frame, its module protects it, and a receiver that has the same key in the
  same place of its table finds it by the key id octet, gives back the frame byte for byte
  and moves the replay counter of that key and of no other. This is for CCMP in software, with
  the sender's mbufs behind the first a whole cipher block each (all but the last) and the
  body in the first mbuf of the receiver.
\<close>

theorem crypto_group_key_roundtrip:
  assumes env: "\<forall>c. block_cipher (env_aes env c)" "prepends (env_pre env)" "appends (env_app env)"
      "\<forall>segs n. env_pre env segs n \<noteq> None" "\<forall>segs bs. env_app env segs bs \<noteq> None"
    and m: "m_segs m \<noteq> []" "h = ieee80211_hdrspace (ic_flags (cn_vap ns)) (mtod m)" "h \<le> length (mtod m)"
      "wide (tl (m_segs m))" "IEEE80211_IS_MULTICAST (i_addr1 (mtod m))"
    and ns: "unat (iv_def_txkey ns) = i" "i < 4" "i < length (iv_nw_keys ns)"
      "iv_nw_keys ns ! i = (ks, CcmpCtx c)" "wk_cipher ks = CIPHER_AES_CCM" "wk_nwidx ks = Some i"
      "\<not> ccmp_exempt ks (mtod m)" "has_flag (wk_flags ks) KEY_SWENCRYPT"
      "wk_keytsc ks + 1 = tsc" "tsc < 2 ^ 48"
    and nr: "i < length (iv_nw_keys nr)" "iv_nw_keys nr ! i = (kr, CcmpCtx c)"
      "wk_cipher kr = CIPHER_AES_CCM" "has_flag (wk_flags kr) KEY_SWDECRYPT"
      "wk_keyrsc kr ! ieee80211_gettid (mtod m) < tsc"
  shows "\<exists>ns' m'. ieee80211_crypto_encap env ns m = Some (Some (NwKey i), ns', m') \<and>
    (\<forall>mr. concat (m_segs mr) = concat (m_segs m') \<longrightarrow> ccmp_rx_frame h mr \<longrightarrow>
      (\<exists>nr' mr'. ieee80211_crypto_decap env nr mr h = Some (True, Some (NwKey i), nr', mr') \<and>
        iv_nw_keys nr' = (iv_nw_keys nr)
          [i := (kr\<lparr>wk_keyrsc := (wk_keyrsc kr)[ieee80211_gettid (mtod m) := tsc]\<rparr>, CcmpCtx c)] \<and>
        concat (m_segs mr') = concat (m_segs m)))"
proof -
  have E: "block_cipher (env_aes env (cc_aes c))" using env(1) by blast
  obtain ns' m' where enc: "ieee80211_crypto_encap env ns m = Some (Some (NwKey i), ns', m')"
    and cm: "concat (m_segs m') = take h (concat (m_segs m)) @ snd (ccmp_setiv ks) @
      ccmp_seal (env_aes env (cc_aes c)) (mtod m) tsc (drop h (concat (m_segs m)))"
    using group_encap [OF E env(2-5) m ns(1-5,7,8)] unfolding ns(9) by blast
  have th: "take h (concat (m_segs m)) = take h (mtod m)" using m(1,3) by (simp add: take_hd_concat)
  have hz: "ieee80211_hdrsize (mtod m) \<le> h" unfolding m(2) by (rule hdrspace_bounds)
  have "\<exists>nr' mr'. ieee80211_crypto_decap env nr mr h = Some (True, Some (NwKey i), nr', mr') \<and>
      iv_nw_keys nr' = (iv_nw_keys nr)
        [i := (kr\<lparr>wk_keyrsc := (wk_keyrsc kr)[ieee80211_gettid (mtod m) := tsc]\<rparr>, CcmpCtx c)] \<and>
      concat (m_segs mr') = concat (m_segs m)"
    if r: "concat (m_segs mr) = concat (m_segs m')" "ccmp_rx_frame h mr" for mr
    using group_receive [OF E hz m(3,2,5) r(1) [unfolded cm th] length_ccmp_setiv r(2)
        ccmp_setiv_bytes [OF ns(9,10)] setiv_keyid [OF ns(6,2)] nr(1-3) nr(4,5)]
    by (simp flip: th)
  with enc show ?thesis by blast
qed

text \<open>The hypotheses hold for a group frame under the second of four keys.\<close>

definition ex_env :: "u8 list crypto_env" where
  "ex_env = \<lparr>env_be = False, env_pre = ex_pre, env_app = ex_app, env_aes = toy_aes, env_set_key = id, env_zero = []\<rparr>"

definition ex_group_frame :: mbuf where
  "ex_group_frame = \<lparr>m_segs = [[0x88, 0x02, 0, 0, 255, 255, 255, 255, 255, 255, 4, 4, 4, 4, 4, 4,
     6, 6, 6, 6, 6, 6, 0, 0, 3, 0], [1, 2, 3, 4, 5]], m_rxs = None, m_flags = 0\<rparr>"

definition ex_node :: "u64 \<Rightarrow> u8 list crypto_node" where
  "ex_node tsc = \<lparr>cn_vap = ex_vap,
     iv_nw_keys = replicate 4 ((ex_key tsc)\<lparr>wk_cipher := CIPHER_AES_CCM\<rparr>, CcmpCtx \<lparr>cc_aes = replicate 16 7\<rparr>),
     iv_def_txkey = 1, ni_ucastkey = ((ex_key 0)\<lparr>wk_cipher := CIPHER_NONE\<rparr>, NoneCtx)\<rparr>"

lemma ex_group_hdr:
  "ieee80211_hdrspace (ic_flags (cn_vap (ex_node n))) (mtod ex_group_frame) = 26"
  "ieee80211_gettid (mtod ex_group_frame) = 3" "m_segs ex_group_frame \<noteq> []"
  "26 \<le> length (mtod ex_group_frame)" "wide (tl (m_segs ex_group_frame))"
  "IEEE80211_IS_MULTICAST (i_addr1 (mtod ex_group_frame))" "length (concat (m_segs ex_group_frame)) = 31"
  by (simp_all add: ex_group_frame_def ex_node_def ex_vap_def ieee80211_hdrspace_def ieee80211_hdrsize_def
      ieee80211_gettid_def IEEE80211_IS_DSTODS_def IEEE80211_QOS_HAS_SEQ_def IEEE80211_IS_MULTICAST_def
      i_addr1_def wide_def)

lemma ex_node_facts:
  defines "k n \<equiv> (ex_key n)\<lparr>wk_cipher := CIPHER_AES_CCM\<rparr>"
  shows "unat (iv_def_txkey (ex_node n)) = 1" "1 < length (iv_nw_keys (ex_node n))"
    "iv_nw_keys (ex_node n) ! 1 = (k n, CcmpCtx \<lparr>cc_aes = replicate 16 7\<rparr>)"
    "wk_cipher (k n) = CIPHER_AES_CCM" "wk_nwidx (k n) = Some 1"
    "\<not> ccmp_exempt (k n) (mtod ex_group_frame)" "has_flag (wk_flags (k n)) KEY_SWENCRYPT"
    "has_flag (wk_flags (k n)) KEY_SWDECRYPT" "wk_keytsc (k n) = n"
    "wk_keyrsc (k n) ! ieee80211_gettid (mtod ex_group_frame) < 9" "wk_keyrsc (k n) = replicate 17 5"
  by (simp_all add: ex_node_def k_def ex_key_def ccmp_exempt_def has_flag_def KEY_NOIV_def
      KEY_NOIVMGT_def KEY_SWENCRYPT_def KEY_SWDECRYPT_def ex_group_hdr)

theorem crypto_group_key_roundtrip_witness:
  "\<exists>ns' m' nr' mr'. ieee80211_crypto_encap ex_env (ex_node 8) ex_group_frame = Some (Some (NwKey 1), ns', m') \<and>
    ieee80211_crypto_decap ex_env (ex_node 0) \<lparr>m_segs = [concat (m_segs m')], m_rxs = None, m_flags = 0\<rparr> 26 =
      Some (True, Some (NwKey 1), nr', mr') \<and>
    wk_keyrsc (fst (iv_nw_keys nr' ! 1)) ! 3 = 9 \<and> concat (m_segs mr') = concat (m_segs ex_group_frame)"
proof -
  let ?c = "\<lparr>cc_aes = replicate 16 7\<rparr>"
  have e: "\<forall>c. block_cipher (env_aes ex_env c)" "prepends (env_pre ex_env)" "appends (env_app ex_env)"
    "\<forall>segs n. env_pre ex_env segs n \<noteq> None" "\<forall>segs bs. env_app ex_env segs bs \<noteq> None"
    by (simp_all add: ex_env_def toy_aes_block prepends_front appends_at_end)
  have n: "(1 :: nat) < 4" "(9 :: u64) < 2 ^ 48" by simp_all
  have t: "wk_keytsc ((ex_key 8)\<lparr>wk_cipher := CIPHER_AES_CCM\<rparr>) + 1 = 9" by (simp add: ex_key_def)
  note h = ex_group_hdr(3) ex_group_hdr(1) [of 8, symmetric] ex_group_hdr(4-6)
  note f8 = ex_node_facts [of 8] and f0 = ex_node_facts [of 0]
  obtain ns' m' where enc: "ieee80211_crypto_encap ex_env (ex_node 8) ex_group_frame = Some (Some (NwKey 1), ns', m')"
    and r: "\<forall>mr. concat (m_segs mr) = concat (m_segs m') \<longrightarrow> ccmp_rx_frame 26 mr \<longrightarrow>
      (\<exists>nr' mr'. ieee80211_crypto_decap ex_env (ex_node 0) mr 26 = Some (True, Some (NwKey 1), nr', mr') \<and>
        iv_nw_keys nr' = (iv_nw_keys (ex_node 0))
          [1 := ((ex_key 0)\<lparr>wk_cipher := CIPHER_AES_CCM, wk_keyrsc := (replicate 17 5)[3 := 9]\<rparr>, CcmpCtx ?c)] \<and>
        concat (m_segs mr') = concat (m_segs ex_group_frame))"
    using crypto_group_key_roundtrip [OF e h f8(1) n(1) f8(2-7) t n(2) f0(2-4,8,10)]
    unfolding f0(11) ex_group_hdr(2) by auto
  have "block_cipher (env_aes ex_env (cc_aes ?c))" using e(1) by blast
  note g = group_encap [OF this e(2-5) h f8(1) n(1) f8(2-4,6,7)]
  have "length (ccmp_seal (toy_aes k) (mtod ex_group_frame) pn b) = length b + 8" for k pn b
    by (rule length_ccmp_seal [OF toy_aes_block])
      (use ex_group_hdr in \<open>simp add: ieee80211_hdrspace_def ex_node_def ex_vap_def\<close>)
  then have "length (concat (m_segs m')) = 47"
    using g enc ex_group_hdr(7) by (auto simp: ex_env_def)
  then have "ccmp_rx_frame 26 \<lparr>m_segs = [concat (m_segs m')], m_rxs = None, m_flags = 0\<rparr>"
    by (simp add: ccmp_rx_frame_def pktlen_def)
  then obtain nr' mr' where "ieee80211_crypto_decap ex_env (ex_node 0) \<lparr>m_segs = [concat (m_segs m')], m_rxs = None, m_flags = 0\<rparr> 26 =
      Some (True, Some (NwKey 1), nr', mr')"
    "iv_nw_keys nr' = (iv_nw_keys (ex_node 0))
      [1 := ((ex_key 0)\<lparr>wk_cipher := CIPHER_AES_CCM, wk_keyrsc := (replicate 17 5)[3 := 9]\<rparr>, CcmpCtx ?c)]"
    "concat (m_segs mr') = concat (m_segs ex_group_frame)"
    using r [rule_format, of "\<lparr>m_segs = [concat (m_segs m')], m_rxs = None, m_flags = 0\<rparr>"] by auto
  with enc show ?thesis by (auto simp: ex_node_def)
qed

section \<open>Frames the core refuses\<close>

lemma key_set_same: "key_set r (key_of n r) (n\<lparr>cn_vap := v\<rparr>) = n\<lparr>cn_vap := v\<rparr>"
  by (cases r) simp_all

text \<open>
  Frames the core refuses (a frame the hardware has decrypted and stripped does not get
  here). Too short: a frame with fewer octets than a header, an IV and a trailer, whatever
  keys are set; and a frame whose first mbuf ends before the header and the IV of the cipher
  of its key. No key: a frame whose key id octet names a key that is not set. In each case
  the frame is left as it is, no key or counter changes, and exactly the statistic of the
  reason goes up.
\<close>

theorem crypto_decap_refused:
  assumes rx: "\<not> (rx_flag m 0x00000100 \<and> rx_flag m 0x00000200)"
  shows "(pktlen (m_segs m) < 32 \<longrightarrow> ieee80211_crypto_decap env n m h =
      Some (False, None, n\<lparr>cn_vap := stat (\<lambda>s. s\<lparr>is_rx_tooshort := is_rx_tooshort s + 1\<rparr>) (cn_vap n)\<rparr>, m)) \<and>
    (\<forall>kid r. 32 \<le> pktlen (m_segs m) \<and> m_copydata (m_segs m) (h + 3) 1 = Some [kid] \<and>
        r = (if IEEE80211_IS_MULTICAST (i_addr1 (mtod m)) \<or> KEY_UNDEFINED (ni_ucastkey n)
             then NwKey (unat (drop_bit 6 kid)) else UcastKey) \<and> key_valid n r \<longrightarrow>
      (\<forall>cip. key_template (fst (key_of n r)) = Some cip \<and> length (mtod m) < h + ic_header cip \<longrightarrow>
        ieee80211_crypto_decap env n m h =
          Some (False, None, n\<lparr>cn_vap := stat (\<lambda>s. s\<lparr>is_rx_tooshort := is_rx_tooshort s + 1\<rparr>) (cn_vap n)\<rparr>, m)) \<and>
      (KEY_UNDEFINED (key_of n r) \<and> h \<le> length (mtod m) \<longrightarrow>
        ieee80211_crypto_decap env n m h =
          Some (False, None, n\<lparr>cn_vap := stat (\<lambda>s. s\<lparr>is_rx_badkeyid := is_rx_badkeyid s + 1\<rparr>) (cn_vap n)\<rparr>, m)))"
proof (intro conjI impI allI)
  show "ieee80211_crypto_decap env n m h =
      Some (False, None, n\<lparr>cn_vap := stat (\<lambda>s. s\<lparr>is_rx_tooshort := is_rx_tooshort s + 1\<rparr>) (cn_vap n)\<rparr>, m)"
    if "pktlen (m_segs m) < 32"
    using that rx by (simp add: ieee80211_crypto_decap_def)
next
  fix kid r
  let ?v = "stat (\<lambda>s. s\<lparr>is_rx_badkeyid := is_rx_badkeyid s + 1\<rparr>) (cn_vap n)"
  assume a: "32 \<le> pktlen (m_segs m) \<and> m_copydata (m_segs m) (h + 3) 1 = Some [kid] \<and>
    r = (if IEEE80211_IS_MULTICAST (i_addr1 (mtod m)) \<or> KEY_UNDEFINED (ni_ucastkey n)
         then NwKey (unat (drop_bit 6 kid)) else UcastKey) \<and> key_valid n r"
  then have l: "\<not> pktlen (m_segs m) < 24 + 4 + 4" and kid: "m_copydata (m_segs m) (h + 3) 1 = Some [kid]"
    and r: "r = (if IEEE80211_IS_MULTICAST (i_addr1 (mtod m)) \<or> KEY_UNDEFINED (ni_ucastkey n)
         then NwKey (unat (drop_bit 6 kid)) else UcastKey)" and v: "key_valid n r" by auto
  note run = ieee80211_crypto_decap_def Let_def if_not_P [OF rx] if_not_P [OF l] kid option.case
      nth_Cons_0 r [symmetric] if_P [OF v]
  show "ieee80211_crypto_decap env n m h =
      Some (False, None, n\<lparr>cn_vap := stat (\<lambda>s. s\<lparr>is_rx_tooshort := is_rx_tooshort s + 1\<rparr>) (cn_vap n)\<rparr>, m)"
    if "key_template (fst (key_of n r)) = Some cip \<and> length (mtod m) < h + ic_header cip" for cip
    unfolding run conjunct1 [OF that] if_P [OF conjunct2 [OF that]] ..
  assume u: "KEY_UNDEFINED (key_of n r) \<and> h \<le> length (mtod m)"
  obtain key ctx where e: "key_of n r = (key, ctx)" by (cases "key_of n r")
  have c: "wk_cipher key = CIPHER_NONE" using u by (simp add: e KEY_UNDEFINED_def)
  have t: "key_template key = Some ieee80211_cipher_none" by (simp add: key_template_def c cipher_ids)
  have d: "cip_decap env h (cn_vap n, (key, ctx), m) = Some (False, ?v, (key, ctx), m)"
    by (simp add: cip_decap_def c none_decap_def) (simp add: cipher_ids)
  show "ieee80211_crypto_decap env n m h = Some (False, None, n\<lparr>cn_vap := ?v\<rparr>, m)"
    unfolding run e fst_conv t d prod.case
    using u key_set_same [of r n ?v, unfolded e] by (simp add: ieee80211_cipher_none_def)
qed

theorem crypto_decap_refused_witness:
  "let n = (ex_node 0)\<lparr>iv_nw_keys := replicate 4 (ni_ucastkey (ex_node 0))\<rparr>;
       short = \<lparr>m_segs = [[0x08, 0x02, 0, 0, 255] @ replicate 20 0], m_rxs = None, m_flags = 0\<rparr>;
       cut = \<lparr>m_segs = [[0x08, 0x02, 0, 0, 255] @ replicate 23 0x80, replicate 20 0x80], m_rxs = None, m_flags = 0\<rparr>;
       nokey = \<lparr>m_segs = [[0x08, 0x02, 0, 0, 255] @ replicate 40 0x80], m_rxs = None, m_flags = 0\<rparr>
   in ieee80211_crypto_decap ex_env (ex_node 0) short 24 =
        Some (False, None, (ex_node 0)\<lparr>cn_vap := stat (\<lambda>s. s\<lparr>is_rx_tooshort := 1\<rparr>) ex_vap\<rparr>, short) \<and>
      ieee80211_crypto_decap ex_env (ex_node 0) cut 24 =
        Some (False, None, (ex_node 0)\<lparr>cn_vap := stat (\<lambda>s. s\<lparr>is_rx_tooshort := 1\<rparr>) ex_vap\<rparr>, cut) \<and>
      ieee80211_crypto_decap ex_env n nokey 24 =
        Some (False, None, n\<lparr>cn_vap := stat (\<lambda>s. s\<lparr>is_rx_badkeyid := 1\<rparr>) ex_vap\<rparr>, nokey)"
proof -
  let ?n = "(ex_node 0)\<lparr>iv_nw_keys := replicate 4 (ni_ucastkey (ex_node 0))\<rparr>"
  let ?s = "\<lparr>m_segs = [[0x08, 0x02, 0, 0, 255] @ replicate 20 0], m_rxs = None, m_flags = 0\<rparr> :: mbuf"
  let ?c = "\<lparr>m_segs = [[0x08, 0x02, 0, 0, 255] @ replicate 23 0x80, replicate 20 0x80], m_rxs = None, m_flags = 0\<rparr> :: mbuf"
  let ?k = "\<lparr>m_segs = [[0x08, 0x02, 0, 0, 255] @ replicate 40 0x80], m_rxs = None, m_flags = 0\<rparr> :: mbuf"
  have h: "\<not> (rx_flag ?s 0x100 \<and> rx_flag ?s 0x200)" "\<not> (rx_flag ?c 0x100 \<and> rx_flag ?c 0x200)"
    "\<not> (rx_flag ?k 0x100 \<and> rx_flag ?k 0x200)" by (simp_all add: rx_flag_def)
  have v: "stat (\<lambda>s. s\<lparr>is_rx_tooshort := is_rx_tooshort s + 1\<rparr>) (cn_vap (ex_node 0)) = stat (\<lambda>s. s\<lparr>is_rx_tooshort := 1\<rparr>) ex_vap"
    "stat (\<lambda>s. s\<lparr>is_rx_badkeyid := is_rx_badkeyid s + 1\<rparr>) (cn_vap ?n) = stat (\<lambda>s. s\<lparr>is_rx_badkeyid := 1\<rparr>) ex_vap"
    by (simp_all add: ex_node_def ex_vap_def stat_def)
  have s: "ieee80211_crypto_decap ex_env (ex_node 0) ?s 24 =
      Some (False, None, (ex_node 0)\<lparr>cn_vap := stat (\<lambda>s. s\<lparr>is_rx_tooshort := 1\<rparr>) ex_vap\<rparr>, ?s)"
    using conjunct1 [OF crypto_decap_refused [OF h(1), of ex_env "ex_node 0" 24]] unfolding v
    by (simp add: pktlen_def)
  have rc: "32 \<le> pktlen (m_segs ?c) \<and> m_copydata (m_segs ?c) (24 + 3) 1 = Some [0x80] \<and>
      NwKey 2 = (if IEEE80211_IS_MULTICAST (i_addr1 (mtod ?c)) \<or> KEY_UNDEFINED (ni_ucastkey (ex_node 0))
        then NwKey (unat (drop_bit 6 (0x80 :: u8))) else UcastKey) \<and> key_valid (ex_node 0) (NwKey 2)"
    by (simp add: IEEE80211_IS_MULTICAST_def i_addr1_def pktlen_def m_copydata_def ex_node_def)
  have tc: "key_template (fst (key_of (ex_node 0) (NwKey 2))) = Some ccmp_template \<and>
      length (mtod ?c) < 24 + ic_header ccmp_template"
    by (simp add: ex_node_def key_template_def cipher_ids ccmp_template_def)
  have c: "ieee80211_crypto_decap ex_env (ex_node 0) ?c 24 =
      Some (False, None, (ex_node 0)\<lparr>cn_vap := stat (\<lambda>s. s\<lparr>is_rx_tooshort := 1\<rparr>) ex_vap\<rparr>, ?c)"
    using conjunct1 [OF conjunct2 [OF crypto_decap_refused [OF h(2), of ex_env "ex_node 0" 24], rule_format, OF rc], rule_format, OF tc]
    unfolding v .
  have rk: "32 \<le> pktlen (m_segs ?k) \<and> m_copydata (m_segs ?k) (24 + 3) 1 = Some [0x80] \<and>
      NwKey 2 = (if IEEE80211_IS_MULTICAST (i_addr1 (mtod ?k)) \<or> KEY_UNDEFINED (ni_ucastkey ?n)
        then NwKey (unat (drop_bit 6 (0x80 :: u8))) else UcastKey) \<and> key_valid ?n (NwKey 2)"
    by (simp add: IEEE80211_IS_MULTICAST_def i_addr1_def pktlen_def m_copydata_def)
  have uk: "KEY_UNDEFINED (key_of ?n (NwKey 2)) \<and> 24 \<le> length (mtod ?k)"
    by (simp add: ex_node_def KEY_UNDEFINED_def)
  have k: "ieee80211_crypto_decap ex_env ?n ?k 24 =
      Some (False, None, ?n\<lparr>cn_vap := stat (\<lambda>s. s\<lparr>is_rx_badkeyid := 1\<rparr>) ex_vap\<rparr>, ?k)"
    using conjunct2 [OF conjunct2 [OF crypto_decap_refused [OF h(3), of ex_env ?n 24], rule_format, OF rk], rule_format, OF uk]
    unfolding v .
  show ?thesis unfolding Let_def using s c k by blast
qed

end
