(* ===== verification/RxReorder.thy ===== *)
theory RxReorder
  imports Net80211
begin

text \<open>
  The A-MPDU receive reorder buffer (freebsd/sys/net80211/ieee80211_ht.c, the functions from
  \<open>ampdu_rx_purge_slot\<close> to \<open>ieee80211_recv_bar\<close>, and \<open>ieee80211_ht_node_age\<close>), with the
  A-MSDU tests of ieee80211_input.h. A block ack session \<open>rx_ampdu\<close> keeps 64 queues of
  frames, one per sequence number of the window; what the code does outside of it is in
  \<open>rx_env\<close>: the frames handed to \<open>ieee80211_input\<close> (\<open>ampdu_dispatch\<close>), in order, the frames
  freed, and the statistics. C \<open>int\<close>s that cannot wrap are \<open>int\<close>s here; the invariant bounds
  them (\<open>rxa_qframes\<close> is a \<open>short\<close>).
\<close>

section \<open>Sequence numbers\<close>

definition SEQ_ADD :: "int \<Rightarrow> int \<Rightarrow> int" where "SEQ_ADD seq incr = (seq + incr) mod 4096"
definition SEQ_INC :: "int \<Rightarrow> int" where "SEQ_INC seq = SEQ_ADD seq 1"
definition SEQ_SUB :: "int \<Rightarrow> int \<Rightarrow> int" where "SEQ_SUB a b = (a + 4096 - b) mod 4096"

definition SEQ_BA_BEFORE :: "int \<Rightarrow> int \<Rightarrow> bool" where
  "SEQ_BA_BEFORE a b \<longleftrightarrow> SEQ_SUB b (a + 1) < 2048 - 1"

section \<open>State\<close>

record rx_ampdu =
  rxa_flags :: u32
  rxa_qbytes :: int
  rxa_qframes :: int
  rxa_start :: int
  rxa_wnd :: nat
  rxa_age :: u32
  rxa_nframes :: int
  rxa_mq :: "mbuf list list"

record ampdu_stats =
  is_ampdu_rx_reorder :: u32
  is_rx_dup :: u32
  is_ampdu_rx_oor :: u32
  is_ampdu_rx_copy :: u32
  is_ampdu_rx_age :: u32
  is_ampdu_rx_move :: u32
  is_ampdu_rx_drop :: u32
  is_ampdu_bar_bad :: u32
  is_ampdu_bar_rx :: u32
  is_ampdu_bar_move :: u32
  is_ampdu_bar_oow :: u32
  ns_rx_dup :: u32
  ns_rx_drop :: u32
  ns_rx_amsdu_more :: u32
  ns_rx_amsdu_more_end :: u32

record rx_env =
  up :: "mbuf list"
  freed :: "mbuf list"
  ni_stats :: ampdu_stats

type_synonym rx_st = "rx_ampdu \<times> rx_env"

definition rxstat :: "(ampdu_stats \<Rightarrow> ampdu_stats) \<Rightarrow> rx_env \<Rightarrow> rx_env" where
  "rxstat f e = e\<lparr>ni_stats := f (ni_stats e)\<rparr>"

abbreviation "AGGR_XCHGPEND \<equiv> (0x0002 :: u32)"
abbreviation "AGGR_RUNNING \<equiv> (0x0004 :: u32)"
abbreviation "AGGR_WAITRX \<equiv> (0x0040 :: u32)"
abbreviation "AGGR_AMSDU \<equiv> (0x0080 :: u32)"

definition ieee80211_check_rxseq_amsdu :: "u32 option \<Rightarrow> bool" where
  "ieee80211_check_rxseq_amsdu rxs =
     (case rxs of None \<Rightarrow> False | Some c_pktflags \<Rightarrow> c_pktflags AND 0x00000004 \<noteq> 0)"

definition ieee80211_check_rxseq_amsdu_more :: "u32 option \<Rightarrow> bool" where
  "ieee80211_check_rxseq_amsdu_more rxs =
     (case rxs of
        None \<Rightarrow> True
      | Some c_pktflags \<Rightarrow>
          if c_pktflags AND 0x00000004 = 0 then True
          else if c_pktflags AND 0x00000008 \<noteq> 0 then False
          else True)"

section \<open>Queue operations\<close>

abbreviation m_len :: "mbuf \<Rightarrow> int" where "m_len m \<equiv> int (pktlen (m_segs m))"

text \<open>The \<open>mbufq_dequeue\<close> loops over one slot.\<close>

fun purge_queue :: "mbuf list \<Rightarrow> rx_st \<Rightarrow> rx_st" where
  "purge_queue [] s = s"
| "purge_queue (m # q) (rap, env) =
     purge_queue q
       (rap\<lparr>rxa_qbytes := rxa_qbytes rap - m_len m, rxa_qframes := rxa_qframes rap - 1\<rparr>,
        env\<lparr>freed := freed env @ [m]\<rparr>)"

definition ampdu_rx_purge_slot :: "nat \<Rightarrow> rx_st \<Rightarrow> rx_st" where
  "ampdu_rx_purge_slot i s = (case s of (rap, env) \<Rightarrow>
     purge_queue (rxa_mq rap ! i) (rap\<lparr>rxa_mq := (rxa_mq rap)[i := []]\<rparr>, env))"

fun dispatch_queue :: "mbuf list \<Rightarrow> nat \<Rightarrow> rx_st \<Rightarrow> nat \<times> rx_st" where
  "dispatch_queue [] n s = (n, s)"
| "dispatch_queue (m # q) n (rap, env) =
     dispatch_queue q (n + 1)
       (rap\<lparr>rxa_qbytes := rxa_qbytes rap - m_len m, rxa_qframes := rxa_qframes rap - 1\<rparr>,
        env\<lparr>up := up env @ [m]\<rparr>)"

definition ampdu_dispatch :: "mbuf \<Rightarrow> rx_env \<Rightarrow> rx_env" where
  "ampdu_dispatch m env = env\<lparr>up := up env @ [m]\<rparr>"

definition ampdu_dispatch_slot :: "nat \<Rightarrow> rx_st \<Rightarrow> nat \<times> rx_st" where
  "ampdu_dispatch_slot i s = (case s of (rap, env) \<Rightarrow>
     dispatch_queue (rxa_mq rap ! i) 0 (rap\<lparr>rxa_mq := (rxa_mq rap)[i := []]\<rparr>, env))"

definition ampdu_rx_add_slot :: "nat \<Rightarrow> mbuf \<Rightarrow> u32 option \<Rightarrow> rx_st \<Rightarrow> rx_st" where
  "ampdu_rx_add_slot off m rxs s = (case s of (rap, env) \<Rightarrow>
     let q = rxa_mq rap ! off;
         rxs_final = (if q \<noteq> [] then m_rxs (last q) else None);
         toss_dup = (if rxs \<noteq> None \<and> rxs_final \<noteq> None \<and> ieee80211_check_rxseq_amsdu rxs \<and>
                        ieee80211_check_rxseq_amsdu rxs_final
                     then ieee80211_check_rxseq_amsdu_more rxs_final
                     else True)
     in if q = [] \<or> \<not> toss_dup then
          (if length q \<ge> 256 then (rap, env\<lparr>freed := freed env @ [m]\<rparr>)
           else
             (rap\<lparr>rxa_mq := (rxa_mq rap)[off := q @ [m]],
                  rxa_qframes := rxa_qframes rap + 1, rxa_qbytes := rxa_qbytes rap + m_len m\<rparr>,
              rxstat (\<lambda>t. t\<lparr>is_ampdu_rx_reorder := is_ampdu_rx_reorder t + 1\<rparr>)
                (if ieee80211_check_rxseq_amsdu rxs then
                   (if ieee80211_check_rxseq_amsdu_more rxs
                    then rxstat (\<lambda>t. t\<lparr>ns_rx_amsdu_more_end := ns_rx_amsdu_more_end t + 1\<rparr>) env
                    else rxstat (\<lambda>t. t\<lparr>ns_rx_amsdu_more := ns_rx_amsdu_more t + 1\<rparr>) env)
                 else env)))
        else
          (rap, rxstat (\<lambda>t. t\<lparr>is_rx_dup := is_rx_dup t + 1, ns_rx_dup := ns_rx_dup t + 1\<rparr>)
                  (env\<lparr>freed := freed env @ [m]\<rparr>)))"

text \<open>\<open>ampdu_rx_purge\<close>: the loop over the slots, left when no frame is queued any more.\<close>

fun purge_slots :: "nat list \<Rightarrow> rx_st \<Rightarrow> rx_st" where
  "purge_slots [] s = s"
| "purge_slots (i # is) s =
     (let s = ampdu_rx_purge_slot i s
      in if rxa_qframes (fst s) = 0 then s else purge_slots is s)"

definition ampdu_rx_purge :: "rx_st \<Rightarrow> rx_st" where
  "ampdu_rx_purge s = purge_slots [0..<rxa_wnd (fst s)] s"

section \<open>Session set-up and tear-down\<close>

definition ieee80211_ampdu_rx_init_rap :: "rx_ampdu \<Rightarrow> rx_ampdu" where
  "ieee80211_ampdu_rx_init_rap rap =
     \<lparr>rxa_flags = 0, rxa_qbytes = 0, rxa_qframes = 0, rxa_start = 0, rxa_wnd = 0, rxa_age = 0,
      rxa_nframes = 0, rxa_mq = replicate 64 []\<rparr>"

text \<open>\<open>htcaps_amsdu\<close> says whether \<open>iv_htcaps\<close> has \<open>IEEE80211_HTC_RX_AMSDU_AMPDU\<close>.\<close>

definition ampdu_rx_start :: "bool \<Rightarrow> u16 \<Rightarrow> u16 \<Rightarrow> rx_st \<Rightarrow> rx_st" where
  "ampdu_rx_start htcaps_amsdu baparamset baseqctl s = (
     let bufsiz = unat (drop_bit 6 (baparamset AND 0xffc0));
         (rap, env) = (if rxa_flags (fst s) AND AGGR_RUNNING \<noteq> 0 then ampdu_rx_purge s else s);
         rap = ieee80211_ampdu_rx_init_rap rap;
         rap = rap\<lparr>rxa_wnd := (if bufsiz = 0 then 64 else min bufsiz 64),
                   rxa_start := uint (drop_bit 4 (baseqctl AND 0xfff0)),
                   rxa_flags := rxa_flags rap OR AGGR_RUNNING OR AGGR_XCHGPEND\<rparr>;
         rap = (if htcaps_amsdu \<and> baparamset AND 0x0001 \<noteq> 0
                then rap\<lparr>rxa_flags := rxa_flags rap OR AGGR_AMSDU\<rparr>
                else rap\<lparr>rxa_flags := rxa_flags rap AND NOT AGGR_AMSDU\<rparr>)
     in (rap, env))"

text \<open>\<open>rxa_wnd\<close> and \<open>rxa_start\<close> are 16 bits wide: \<open>baw\<close> and \<open>seq\<close> are cut to that.\<close>

definition ieee80211_ampdu_rx_start_ext :: "int \<Rightarrow> int \<Rightarrow> rx_st \<Rightarrow> rx_st" where
  "ieee80211_ampdu_rx_start_ext seq baw s = (
     let (rap, env) = (if rxa_flags (fst s) AND AGGR_RUNNING \<noteq> 0 then ampdu_rx_purge s else s);
         rap = ieee80211_ampdu_rx_init_rap rap;
         rap = rap\<lparr>rxa_wnd := (if baw = 0 then 64 else nat (min baw 64 mod 2 ^ 16))\<rparr>;
         rap = (if seq = -1
                then rap\<lparr>rxa_start := 0, rxa_flags := rxa_flags rap OR AGGR_WAITRX\<rparr>
                else rap\<lparr>rxa_start := seq mod 2 ^ 16\<rparr>)
     in (rap\<lparr>rxa_flags := rxa_flags rap OR AGGR_RUNNING OR AGGR_XCHGPEND\<rparr>, env))"

definition ampdu_rx_stop :: "rx_st \<Rightarrow> rx_st" where
  "ampdu_rx_stop s = (case ampdu_rx_purge s of (rap, env) \<Rightarrow>
     (rap\<lparr>rxa_flags := rxa_flags rap AND NOT (AGGR_RUNNING OR AGGR_XCHGPEND OR AGGR_WAITRX)\<rparr>, env))"

section \<open>Moving the window\<close>

text \<open>The loop of \<open>ampdu_rx_moveup\<close>: \<open>n\<close> frames are still to be moved down by \<open>i\<close> slots.\<close>

fun moveup_slots :: "nat list \<Rightarrow> nat \<Rightarrow> int \<Rightarrow> mbuf list list \<Rightarrow> mbuf list list" where
  "moveup_slots [] i n mq = mq"
| "moveup_slots (j # js) i n mq =
     (if length (mq ! j) \<noteq> 0 then
        let n = n - int (length (mq ! j));
            mq = (mq[j - i := mq ! (j - i) @ mq ! j])[j := []]
        in if n = 0 then mq else moveup_slots js i n mq
      else moveup_slots js i n mq)"

definition ampdu_rx_moveup :: "nat \<Rightarrow> rx_st \<Rightarrow> rx_st" where
  "ampdu_rx_moveup i s = (case s of (rap, env) \<Rightarrow>
     if rxa_qframes rap \<noteq> 0 then
       (rap\<lparr>rxa_mq := moveup_slots [i + 1..<rxa_wnd rap] i (rxa_qframes rap) (rxa_mq rap)\<rparr>,
        rxstat (\<lambda>t. t\<lparr>is_ampdu_rx_copy := is_ampdu_rx_copy t + word_of_int (rxa_qframes rap)\<rparr>) env)
     else s)"

text \<open>The run of full slots that \<open>ampdu_rx_dispatch\<close> delivers; \<open>e\<close> is the index at the loop's end.\<close>

fun dispatch_run :: "nat list \<Rightarrow> nat \<Rightarrow> nat \<Rightarrow> rx_st \<Rightarrow> nat \<times> nat \<times> rx_st" where
  "dispatch_run [] e r2 s = (e, r2, s)"
| "dispatch_run (i # is) e r2 s =
     (case ampdu_dispatch_slot i s of (r, s) \<Rightarrow>
        if r = 0 then (i, r2, s) else dispatch_run is e (r2 + r) s)"

definition ampdu_rx_dispatch :: "rx_st \<Rightarrow> rx_st" where
  "ampdu_rx_dispatch s = (let w = rxa_wnd (fst s) in
     case dispatch_run [1..<w] (max 1 w) 0 s of (i, r2, s) \<Rightarrow>
     case ampdu_rx_moveup i s of (rap, env) \<Rightarrow>
       (rap\<lparr>rxa_start := SEQ_ADD (rxa_start rap) (int i)\<rparr>,
        rxstat (\<lambda>t. t\<lparr>is_ampdu_rx_oor := is_ampdu_rx_oor t + word_of_nat r2\<rparr>) env))"

fun flush_slots :: "nat list \<Rightarrow> rx_st \<Rightarrow> rx_st" where
  "flush_slots [] s = s"
| "flush_slots (i # is) s =
     (case ampdu_dispatch_slot i s of (r, (rap, env)) \<Rightarrow>
        if r = 0 then flush_slots is (rap, env)
        else
          let env = rxstat (\<lambda>t. t\<lparr>is_ampdu_rx_oor := is_ampdu_rx_oor t + word_of_nat r\<rparr>) env
          in if rxa_qframes rap = 0 then (rap, env) else flush_slots is (rap, env))"

definition ampdu_rx_flush :: "rx_st \<Rightarrow> rx_st" where
  "ampdu_rx_flush s = flush_slots [0..<rxa_wnd (fst s)] s"

fun flush_upto_run :: "nat list \<Rightarrow> nat \<Rightarrow> int \<Rightarrow> int \<Rightarrow> rx_st \<Rightarrow> nat \<times> int \<times> rx_st" where
  "flush_upto_run [] e seqno winstart s = (e, seqno, s)"
| "flush_upto_run (i # is) e seqno winstart s =
     (let r = length (rxa_mq (fst s) ! i) in
      if r = 0 \<and> \<not> SEQ_BA_BEFORE seqno winstart then (i, seqno, s)
      else
        case (if r \<noteq> 0 then snd (ampdu_dispatch_slot i s) else s) of (rap, env) \<Rightarrow>
          flush_upto_run is e (SEQ_INC seqno) winstart
            (rap, rxstat (\<lambda>t. t\<lparr>is_ampdu_rx_oor := is_ampdu_rx_oor t + word_of_nat r\<rparr>) env))"

definition ampdu_rx_flush_upto :: "int \<Rightarrow> rx_st \<Rightarrow> rx_st" where
  "ampdu_rx_flush_upto winstart s = (let w = rxa_wnd (fst s) in
     case flush_upto_run [0..<w] w (rxa_start (fst s)) winstart s of (i, seqno, s) \<Rightarrow>
     case ampdu_rx_moveup i s of (rap, env) \<Rightarrow> (rap\<lparr>rxa_start := seqno\<rparr>, env))"


section \<open>A received frame\<close>

datatype verdict = PROCESS | CONSUMED

text \<open>In-sequence frames advance the window unless more subframes of an A-MSDU are to come.\<close>

definition process_in_order :: "int \<Rightarrow> u32 option \<Rightarrow> rx_st \<Rightarrow> rx_st" where
  "process_in_order rxseq rxs s = (case s of (rap, env) \<Rightarrow>
     if ieee80211_check_rxseq_amsdu rxs then
       (if ieee80211_check_rxseq_amsdu_more rxs
        then (rap\<lparr>rxa_start := SEQ_INC rxseq\<rparr>,
              rxstat (\<lambda>t. t\<lparr>ns_rx_amsdu_more_end := ns_rx_amsdu_more_end t + 1\<rparr>) env)
        else (rap, rxstat (\<lambda>t. t\<lparr>ns_rx_amsdu_more := ns_rx_amsdu_more t + 1\<rparr>) env))
     else (rap\<lparr>rxa_start := SEQ_INC rxseq\<rparr>, env))"

text \<open>\<open>ticks - rxa_age > ieee80211_ampdu_age\<close>, in C's signed arithmetic.\<close>

definition rx_aged :: "u32 \<Rightarrow> u32 \<Rightarrow> rx_ampdu \<Rightarrow> bool" where
  "rx_aged ticks ampdu_age rap \<longleftrightarrow> ampdu_age <s ticks - rxa_age rap"

text \<open>
  The part of \<open>ieee80211_ampdu_reorder\<close> from the label \<open>again\<close>, with its \<open>goto\<close>. Not
  returning would be the value \<open>None\<close>.
\<close>

partial_function (option) reorder_again ::
  "u32 \<Rightarrow> u32 \<Rightarrow> mbuf \<Rightarrow> u32 option \<Rightarrow> int \<Rightarrow> rx_st \<Rightarrow> (verdict \<times> rx_st) option" where
  "reorder_again ticks ampdu_age m rxs rxseq s = (case s of (rap, env) \<Rightarrow>
     if rxseq = rxa_start rap then
       (if rxa_qframes rap \<noteq> 0
        then Some (CONSUMED, ampdu_rx_dispatch (rap, ampdu_dispatch m env))
        else Some (PROCESS, process_in_order rxseq rxs (rap, env)))
     else
       let off = SEQ_SUB rxseq (rxa_start rap) in
       if off < int (rxa_wnd rap) then
         (if rxa_qframes rap \<noteq> 0 \<and> rx_aged ticks ampdu_age rap then
            Some (PROCESS, process_in_order rxseq rxs (ampdu_rx_flush
              (rap, rxstat (\<lambda>t. t\<lparr>is_ampdu_rx_age := is_ampdu_rx_age t + word_of_int (rxa_qframes rap)\<rparr>) env)))
          else
            let rap = (if rxa_qframes rap = 0 then rap\<lparr>rxa_age := ticks\<rparr> else rap)
            in Some (CONSUMED, ampdu_rx_add_slot (nat off) m rxs (rap, env)))
       else if off < 2048 then
         reorder_again ticks ampdu_age m rxs rxseq
           (ampdu_rx_flush_upto (SEQ_SUB rxseq (int (rxa_wnd rap) - 1))
             (rap, rxstat (\<lambda>t. t\<lparr>is_ampdu_rx_move := is_ampdu_rx_move t + 1\<rparr>) env))
       else
         Some (CONSUMED, rap,
           rxstat (\<lambda>t. t\<lparr>is_ampdu_rx_drop := is_ampdu_rx_drop t + 1, ns_rx_drop := ns_rx_drop t + 1\<rparr>)
             (env\<lparr>freed := freed env @ [m]\<rparr>)))"

definition ieee80211_getqos :: "u8 list \<Rightarrow> u8" where
  "ieee80211_getqos wh = (if IEEE80211_IS_DSTODS wh then wh ! 30 else wh ! 24)"

definition i_seq :: "u8 list \<Rightarrow> u16" where "i_seq wh = le16 (wh ! 22) (wh ! 23)"

text \<open>The sequence number of a frame (\<open>rxseq >> IEEE80211_SEQ_SEQ_SHIFT\<close>).\<close>

definition frame_seq :: "mbuf \<Rightarrow> int" where "frame_seq m = uint (drop_bit 4 (i_seq (mtod m)))"

text \<open>What the function does on one session, after it has looked the session up.\<close>

definition reorder_session ::
  "u32 \<Rightarrow> u32 \<Rightarrow> mbuf \<Rightarrow> u32 option \<Rightarrow> rx_st \<Rightarrow> (verdict \<times> rx_st) option" where
  "reorder_session ticks ampdu_age m rxs s = (case s of (rap, env) \<Rightarrow>
     if rxa_flags rap AND AGGR_XCHGPEND = 0 then Some (PROCESS, s)
     else
       let rxseq = i_seq (mtod m) in
       if rxseq AND 0x000f \<noteq> 0 then
         Some (CONSUMED, rap,
           rxstat (\<lambda>t. t\<lparr>is_ampdu_rx_drop := is_ampdu_rx_drop t + 1, ns_rx_drop := ns_rx_drop t + 1\<rparr>)
             (env\<lparr>freed := freed env @ [m]\<rparr>))
       else
         let rxseq = uint (drop_bit 4 rxseq);
             rap = rap\<lparr>rxa_nframes := rxa_nframes rap + 1\<rparr>;
             rap = (if rxa_flags rap AND AGGR_WAITRX \<noteq> 0
                    then rap\<lparr>rxa_flags := rxa_flags rap AND NOT AGGR_WAITRX, rxa_start := rxseq\<rparr>
                    else rap)
         in reorder_again ticks ampdu_age m rxs rxseq (rap, env))"

text \<open>A node: its sixteen sessions and what they share.\<close>

type_synonym rx_node = "rx_ampdu list \<times> rx_env"

definition ieee80211_ampdu_reorder ::
  "u32 \<Rightarrow> u32 \<Rightarrow> mbuf \<Rightarrow> u32 option \<Rightarrow> rx_node \<Rightarrow> (verdict \<times> rx_node) option" where
  "ieee80211_ampdu_reorder ticks ampdu_age m rxs ni = (case ni of (raps, env) \<Rightarrow>
     if mtod m ! 0 \<noteq> 0x88 then Some (PROCESS, ni)
     else if IEEE80211_IS_MULTICAST (i_addr1 (mtod m)) then Some (PROCESS, ni)
     else
       let tid = unat (ieee80211_getqos (mtod m) AND 0x0f)
       in case reorder_session ticks ampdu_age m rxs (raps ! tid, env) of
            None \<Rightarrow> None
          | Some (v, rap, env) \<Rightarrow> Some (v, raps[tid := rap], env))"

section \<open>Block ack requests and ageing\<close>

definition recv_bar_session :: "u8 list \<Rightarrow> rx_st \<Rightarrow> rx_st" where
  "recv_bar_session wh s = (case s of (rap, env) \<Rightarrow>
     if rxa_flags rap AND AGGR_XCHGPEND = 0 then
       (rap, rxstat (\<lambda>t. t\<lparr>is_ampdu_bar_bad := is_ampdu_bar_bad t + 1\<rparr>) env)
     else
       let env = rxstat (\<lambda>t. t\<lparr>is_ampdu_bar_rx := is_ampdu_bar_rx t + 1\<rparr>) env;
           rxseq = uint (drop_bit 4 (le16 (wh ! 18) (wh ! 19)))
       in if rxseq = rxa_start rap then (rap, env)
          else
            let off = SEQ_SUB rxseq (rxa_start rap) in
            if off < 2048 then
              case ampdu_rx_flush_upto rxseq
                  (rap, rxstat (\<lambda>t. t\<lparr>is_ampdu_bar_move := is_ampdu_bar_move t + 1\<rparr>) env) of
                (rap', env) \<Rightarrow>
                  (if off \<ge> int (rxa_wnd rap) then rap'\<lparr>rxa_start := rxseq\<rparr> else rap', env)
            else (rap, rxstat (\<lambda>t. t\<lparr>is_ampdu_bar_oow := is_ampdu_bar_oow t + 1,
                    ns_rx_drop := ns_rx_drop t + 1\<rparr>) env))"

definition ieee80211_recv_bar :: "bool \<Rightarrow> mbuf \<Rightarrow> rx_node \<Rightarrow> rx_node" where
  "ieee80211_recv_bar recv_bar_ena m0 ni = (case ni of (raps, env) \<Rightarrow>
     if \<not> recv_bar_ena then
       (raps, rxstat (\<lambda>t. t\<lparr>is_ampdu_bar_bad := is_ampdu_bar_bad t + 1\<rparr>) env)
     else
       let wh = mtod m0; tid = unat (drop_bit 12 (le16 (wh ! 16) (wh ! 17) AND 0xf000))
       in case recv_bar_session wh (raps ! tid, env) of (rap, env) \<Rightarrow> (raps[tid := rap], env))"

text \<open>One round of the loop of \<open>ieee80211_ht_node_age\<close>, and the loop over the sessions.\<close>

definition age_session :: "u32 \<Rightarrow> u32 \<Rightarrow> rx_st \<Rightarrow> rx_st" where
  "age_session ticks ampdu_age s = (case s of (rap, env) \<Rightarrow>
     if rxa_flags rap AND AGGR_XCHGPEND = 0 then s
     else if rxa_qframes rap = 0 then s
     else if rx_aged ticks ampdu_age rap then
       ampdu_rx_flush (rap, rxstat (\<lambda>t. t\<lparr>is_ampdu_rx_age :=
         is_ampdu_rx_age t + word_of_int (rxa_qframes rap)\<rparr>) env)
     else s)"

fun age_tids :: "u32 \<Rightarrow> u32 \<Rightarrow> nat list \<Rightarrow> rx_node \<Rightarrow> rx_node" where
  "age_tids ticks ampdu_age [] ni = ni"
| "age_tids ticks ampdu_age (tid # tids) (raps, env) =
     (case age_session ticks ampdu_age (raps ! tid, env) of
        (rap, env) \<Rightarrow> age_tids ticks ampdu_age tids (raps[tid := rap], env))"

definition ieee80211_ht_node_age :: "u32 \<Rightarrow> u32 \<Rightarrow> rx_node \<Rightarrow> rx_node" where
  "ieee80211_ht_node_age ticks ampdu_age ni = age_tids ticks ampdu_age [0..<16] ni"

end
