(* ===== verification/RxReorderLoops.thy ===== *)
theory RxReorderLoops
  imports RxReorder
begin

text \<open>
  Closed forms of the loops of the reorder buffer: what purging, flushing, dispatching a run
  and moving the window up do to the queues, the counters and the stream of frames.
\<close>

section \<open>Closed forms of the queue loops\<close>

definition sent :: "rx_env \<Rightarrow> rx_env \<Rightarrow> mbuf list \<Rightarrow> mbuf list \<Rightarrow> bool" where
  "sent e e' ds fs \<longleftrightarrow> up e' = up e @ ds \<and> freed e' = freed e @ fs"

lemma sent_rxstat [simp]: "sent e (rxstat f e') ds fs = sent e e' ds fs"
  by (simp add: sent_def rxstat_def)

lemma sent_rxstat2 [simp]: "sent (rxstat f e) e' ds fs = sent e e' ds fs"
  by (simp add: sent_def rxstat_def)

lemma sent_refl [simp]: "sent e e [] []"
  by (simp add: sent_def)

lemma sent_trans: "sent e1 e2 a b \<Longrightarrow> sent e2 e3 c d \<Longrightarrow> sent e1 e3 (a @ c) (b @ d)"
  by (simp add: sent_def)

definition qbytes :: "mbuf list \<Rightarrow> int" where "qbytes q = sum_list (map m_len q)"

lemma qbytes_simps [simp]: "qbytes [] = 0" "qbytes (m # q) = m_len m + qbytes q"
  "qbytes (p @ q) = qbytes p + qbytes q"
  by (simp_all add: qbytes_def)

lemma purge_queue_eq:
  "purge_queue q (rap, env) =
     (rap\<lparr>rxa_qbytes := rxa_qbytes rap - qbytes q, rxa_qframes := rxa_qframes rap - int (length q)\<rparr>,
      env\<lparr>freed := freed env @ q\<rparr>)"
  by (induction q arbitrary: rap env) (simp_all add: algebra_simps)

lemma dispatch_queue_eq:
  "dispatch_queue q n (rap, env) =
     (n + length q,
      rap\<lparr>rxa_qbytes := rxa_qbytes rap - qbytes q, rxa_qframes := rxa_qframes rap - int (length q)\<rparr>,
      env\<lparr>up := up env @ q\<rparr>)"
  by (induction q arbitrary: rap env n) (simp_all add: algebra_simps)

text \<open>The session with its first \<open>k\<close> slots emptied, and with the window moved up by \<open>k\<close>.\<close>

definition drain :: "nat \<Rightarrow> rx_ampdu \<Rightarrow> rx_ampdu" where
  "drain k rap = rap\<lparr>rxa_mq := replicate k [] @ drop k (rxa_mq rap),
     rxa_qbytes := rxa_qbytes rap - qbytes (concat (take k (rxa_mq rap))),
     rxa_qframes := rxa_qframes rap - int (length (concat (take k (rxa_mq rap))))\<rparr>"

definition advance :: "nat \<Rightarrow> rx_ampdu \<Rightarrow> rx_ampdu" where
  "advance k rap = (drain k rap)\<lparr>rxa_mq := drop k (rxa_mq rap) @ replicate k [],
     rxa_start := SEQ_ADD (rxa_start rap) (int k)\<rparr>"

lemma drain_mq:
  assumes "k < length (rxa_mq rap)"
  shows "rxa_mq (drain k rap) ! k = rxa_mq rap ! k"
    "(rxa_mq (drain k rap))[k := []] = rxa_mq (drain (Suc k) rap)"
  using assms
  by (simp_all add: drain_def nth_append list_update_append flip: Cons_nth_drop_Suc replicate_append_same)

lemma drain_Suc:
  assumes "k < length (rxa_mq rap)"
  shows "(drain k rap)\<lparr>rxa_mq := (rxa_mq (drain k rap))[k := []],
      rxa_qbytes := rxa_qbytes (drain k rap) - qbytes (rxa_mq rap ! k),
      rxa_qframes := rxa_qframes (drain k rap) - int (length (rxa_mq rap ! k))\<rparr> = drain (Suc k) rap"
  unfolding drain_mq(2) [OF assms] using assms by (simp add: drain_def take_Suc_conv_app_nth)

lemma dispatch_slot_drain:
  assumes "k < length (rxa_mq rap)"
  shows "ampdu_dispatch_slot k (drain k rap, env) =
    (length (rxa_mq rap ! k), drain (Suc k) rap, env\<lparr>up := up env @ rxa_mq rap ! k\<rparr>)"
  using drain_mq(1) [OF assms] drain_Suc [OF assms]
  by (simp add: ampdu_dispatch_slot_def dispatch_queue_eq drain_def)

lemma purge_slot_drain:
  assumes "k < length (rxa_mq rap)"
  shows "ampdu_rx_purge_slot k (drain k rap, env) =
    (drain (Suc k) rap, env\<lparr>freed := freed env @ rxa_mq rap ! k\<rparr>)"
  using drain_mq(1) [OF assms] drain_Suc [OF assms]
  by (simp add: ampdu_rx_purge_slot_def purge_queue_eq drain_def)

lemma drain_empty:
  assumes "k < length (rxa_mq rap)" "rxa_mq rap ! k = []"
  shows "drain (Suc k) rap = drain k rap"
  using assms by (simp add: drain_def take_Suc_conv_app_nth replicate_append_same
      flip: Cons_nth_drop_Suc)

lemma drain_0 [simp]: "drain 0 rap = rap"
  by (simp add: drain_def)

lemma drain_empties:
  assumes "k \<le> n" "n \<le> length (rxa_mq rap)" "\<And>j. k \<le> j \<Longrightarrow> j < n \<Longrightarrow> rxa_mq rap ! j = []"
  shows "drain n rap = drain k rap \<and> concat (take n (rxa_mq rap)) = concat (take k (rxa_mq rap))"
  using assms
proof (induction n)
  case (Suc n)
  show ?case
  proof (cases "k = Suc n")
    case False
    then show ?thesis
      using Suc drain_empty [of n rap] by (simp add: take_Suc_conv_app_nth)
  qed simp
qed simp

text \<open>Sessions whose frame count is right: no frames left means empty slots.\<close>

definition counted :: "rx_ampdu \<Rightarrow> bool" where
  "counted rap \<longleftrightarrow> length (rxa_mq rap) = 64 \<and> rxa_wnd rap \<le> 64 \<and>
     (\<forall>j. rxa_wnd rap \<le> j \<longrightarrow> j < 64 \<longrightarrow> rxa_mq rap ! j = []) \<and>
     rxa_qframes rap = int (length (concat (rxa_mq rap)))"

lemma counted_drain:
  assumes "counted rap" "k \<le> 64" "rxa_qframes (drain k rap) = 0"
  shows "\<And>j. k \<le> j \<Longrightarrow> j < 64 \<Longrightarrow> rxa_mq rap ! j = []"
proof -
  fix j assume j: "k \<le> j" "j < 64"
  have "length (concat (rxa_mq rap)) =
      length (concat (take k (rxa_mq rap))) + length (concat (drop k (rxa_mq rap)))"
    by (metis append_take_drop_id concat_append length_append)
  then have "length (concat (drop k (rxa_mq rap))) = 0"
    using assms by (simp add: drain_def counted_def del: length_0_conv)
  then have "concat (drop k (rxa_mq rap)) = []" by (simp only: length_0_conv)
  moreover have "drop k (rxa_mq rap) ! (j - k) \<in> set (drop k (rxa_mq rap))"
    using j assms by (intro nth_mem) (auto simp: counted_def)
  ultimately have "drop k (rxa_mq rap) ! (j - k) = []" by (metis concat_eq_Nil_conv)
  then show "rxa_mq rap ! j = []" using j assms by (simp add: counted_def)
qed

lemma flush_slots_drain:
  assumes "counted rap" "k \<le> rxa_wnd rap"
  shows "\<exists>env'. flush_slots [k..<rxa_wnd rap] (drain k rap, env) = (drain (rxa_wnd rap) rap, env') \<and>
    sent env env' (concat (drop k (take (rxa_wnd rap) (rxa_mq rap)))) []"
  using assms
proof (induction "rxa_wnd rap - k" arbitrary: k env)
  case 0
  then show ?case by (auto intro: exI [of _ env])
next
  case (Suc n)
  let ?w = "rxa_wnd rap" and ?mq = "rxa_mq rap"
  have k: "k < ?w" "k < length ?mq" "?w \<le> 64" "length ?mq = 64" using Suc by (auto simp: counted_def)
  have d: "concat (drop k (take ?w ?mq)) = ?mq ! k @ concat (drop (Suc k) (take ?w ?mq))"
    using k Cons_nth_drop_Suc [of k "take ?w ?mq"] by (simp flip: Cons_nth_drop_Suc)
  have IH: "\<exists>env'. flush_slots [Suc k..<?w] (drain (Suc k) rap, env) = (drain ?w rap, env') \<and>
      sent env env' (concat (drop (Suc k) (take ?w ?mq))) []" for env
    using Suc.hyps Suc.prems k by auto
  define env1 where "env1 = env\<lparr>up := up env @ ?mq ! k\<rparr>"
  have s1: "sent env env1 (?mq ! k) []" by (simp add: sent_def env1_def)
  show ?case
  proof (cases "?mq ! k = []")
    case True
    then show ?thesis
      using IH [of env1] k d by (simp add: upt_conv_Cons dispatch_slot_drain env1_def)
  next
    case False
    define env2 where "env2 = rxstat (\<lambda>t. t\<lparr>is_ampdu_rx_oor := is_ampdu_rx_oor t + word_of_nat (length (?mq ! k))\<rparr>) env1"
    have s2: "sent env env2 (?mq ! k) []" using s1 by (simp add: env2_def)
    show ?thesis
    proof (cases "rxa_qframes (drain (Suc k) rap) = 0")
      case q: True
      note e = counted_drain [OF Suc.prems(1) _ q]
      have "drain ?w rap = drain (Suc k) rap" using drain_empties [of "Suc k" ?w rap] e k by auto
      moreover have "concat (drop (Suc k) (take ?w ?mq)) = []"
        using e k by (auto simp: in_set_conv_nth)
      then have "concat (drop k (take ?w ?mq)) = ?mq ! k" unfolding d by (simp del: concat_eq_Nil_conv)
      ultimately show ?thesis
        using s2 False q k by (auto simp: upt_conv_Cons dispatch_slot_drain env1_def env2_def)
    next
      case q: False
      obtain env' where "flush_slots [Suc k..<?w] (drain (Suc k) rap, env2) = (drain ?w rap, env')"
        "sent env2 env' (concat (drop (Suc k) (take ?w ?mq))) []"
        using IH by blast
      then show ?thesis
        using sent_trans [OF s2] False q k d
        by (auto simp: upt_conv_Cons dispatch_slot_drain env1_def env2_def)
    qed
  qed
qed


lemma purge_slots_drain:
  assumes "counted rap" "k \<le> rxa_wnd rap"
  shows "\<exists>env'. purge_slots [k..<rxa_wnd rap] (drain k rap, env) = (drain (rxa_wnd rap) rap, env') \<and>
    sent env env' [] (concat (drop k (take (rxa_wnd rap) (rxa_mq rap))))"
  using assms
proof (induction "rxa_wnd rap - k" arbitrary: k env)
  case 0
  then show ?case by (auto intro: exI [of _ env])
next
  case (Suc n)
  let ?w = "rxa_wnd rap" and ?mq = "rxa_mq rap"
  have k: "k < ?w" "k < length ?mq" "?w \<le> 64" "length ?mq = 64" using Suc by (auto simp: counted_def)
  have d: "concat (drop k (take ?w ?mq)) = ?mq ! k @ concat (drop (Suc k) (take ?w ?mq))"
    using k by (simp flip: Cons_nth_drop_Suc)
  define env1 where "env1 = env\<lparr>freed := freed env @ ?mq ! k\<rparr>"
  have s1: "sent env env1 [] (?mq ! k)" by (simp add: sent_def env1_def)
  show ?case
  proof (cases "rxa_qframes (drain (Suc k) rap) = 0")
    case q: True
    note e = counted_drain [OF Suc.prems(1) _ q]
    have "drain ?w rap = drain (Suc k) rap" using drain_empties [of "Suc k" ?w rap] e k by auto
    moreover have "concat (drop (Suc k) (take ?w ?mq)) = []"
      using e k by (auto simp: in_set_conv_nth)
    then have "concat (drop k (take ?w ?mq)) = ?mq ! k" unfolding d by (simp del: concat_eq_Nil_conv)
    ultimately show ?thesis
      using s1 q k by (auto simp: upt_conv_Cons purge_slot_drain env1_def)
  next
    case q: False
    have "\<exists>env'. purge_slots [Suc k..<?w] (drain (Suc k) rap, env1) = (drain ?w rap, env') \<and>
        sent env1 env' [] (concat (drop (Suc k) (take ?w ?mq)))"
      by (rule Suc.hyps(1)) (use Suc.hyps(2) Suc.prems k in auto)
    then obtain env' where "purge_slots [Suc k..<?w] (drain (Suc k) rap, env1) = (drain ?w rap, env')"
      "sent env1 env' [] (concat (drop (Suc k) (take ?w ?mq)))"
      by blast
    then show ?thesis
      using sent_trans [OF s1] q k d by (auto simp: upt_conv_Cons purge_slot_drain env1_def)
  qed
qed

text \<open>An empty session: what is left after a flush or a purge.\<close>

definition emptied :: "rx_ampdu \<Rightarrow> rx_ampdu" where
  "emptied rap = rap\<lparr>rxa_mq := replicate 64 [], rxa_qframes := 0, rxa_qbytes := 0\<rparr>"

definition qb_ok :: "rx_ampdu \<Rightarrow> bool" where
  "qb_ok rap \<longleftrightarrow> rxa_qbytes rap = qbytes (concat (rxa_mq rap))"

lemma take_wnd:
  assumes "counted rap"
  shows "concat (take (rxa_wnd rap) (rxa_mq rap)) = concat (rxa_mq rap)"
    "drop (rxa_wnd rap) (rxa_mq rap) = replicate (64 - rxa_wnd rap) []"
proof -
  show d: "drop (rxa_wnd rap) (rxa_mq rap) = replicate (64 - rxa_wnd rap) []"
    using assms by (intro nth_equalityI) (auto simp: counted_def)
  have "concat (rxa_mq rap) = concat (take (rxa_wnd rap) (rxa_mq rap)) @ concat (drop (rxa_wnd rap) (rxa_mq rap))"
    by (metis append_take_drop_id concat_append)
  then show "concat (take (rxa_wnd rap) (rxa_mq rap)) = concat (rxa_mq rap)" by (simp add: d)
qed

lemma drain_wnd: "counted rap \<Longrightarrow> qb_ok rap \<Longrightarrow> drain (rxa_wnd rap) rap = emptied rap"
  using take_wnd [of rap] by (simp add: drain_def emptied_def counted_def qb_ok_def replicate_add [symmetric])

lemma ampdu_rx_flush_eq:
  assumes "counted rap" "qb_ok rap"
  shows "\<exists>env'. ampdu_rx_flush (rap, env) = (emptied rap, env') \<and> sent env env' (concat (rxa_mq rap)) []"
  using flush_slots_drain [OF assms(1), of 0 env] take_wnd [OF assms(1)] drain_wnd [OF assms]
  by (auto simp: ampdu_rx_flush_def)

lemma ampdu_rx_purge_eq:
  assumes "counted rap" "qb_ok rap"
  shows "\<exists>env'. ampdu_rx_purge (rap, env) = (emptied rap, env') \<and> sent env env' [] (concat (rxa_mq rap))"
  using purge_slots_drain [OF assms(1), of 0 env] take_wnd [OF assms(1)] drain_wnd [OF assms]
  by (auto simp: ampdu_rx_purge_def)

section \<open>Moving the window\<close>

lemma dispatch_run_drain:
  assumes "k \<le> w" "w \<le> length (rxa_mq rap)"
  shows "\<exists>n r env'. dispatch_run [k..<w] w r2 (drain k rap, env) = (n, r, drain n rap, env') \<and>
    k \<le> n \<and> n \<le> w \<and> (n = w \<or> rxa_mq rap ! n = []) \<and> (\<forall>j. k \<le> j \<longrightarrow> j < n \<longrightarrow> rxa_mq rap ! j \<noteq> []) \<and>
    sent env env' (concat (drop k (take n (rxa_mq rap)))) []"
  using assms
proof (induction "w - k" arbitrary: k r2 env)
  case 0
  then show ?case by (auto intro: exI [of _ env])
next
  case (Suc c)
  let ?mq = "rxa_mq rap"
  have k: "k < w" "k < length ?mq" using Suc by auto
  define env1 where "env1 = env\<lparr>up := up env @ ?mq ! k\<rparr>"
  have s1: "sent env env1 (?mq ! k) []" by (simp add: sent_def env1_def)
  show ?case
  proof (cases "?mq ! k = []")
    case True
    then have "dispatch_run [k..<w] w r2 (drain k rap, env) = (k, r2, drain k rap, env)"
      using k drain_empty [OF k(2)] by (simp add: upt_conv_Cons dispatch_slot_drain)
    then show ?thesis using True k by (auto simp: sent_def)
  next
    case False
    have "\<exists>n r env'. dispatch_run [Suc k..<w] w (r2 + length (?mq ! k)) (drain (Suc k) rap, env1) =
        (n, r, drain n rap, env') \<and> Suc k \<le> n \<and> n \<le> w \<and> (n = w \<or> ?mq ! n = []) \<and>
        (\<forall>j. Suc k \<le> j \<longrightarrow> j < n \<longrightarrow> ?mq ! j \<noteq> []) \<and>
        sent env1 env' (concat (drop (Suc k) (take n ?mq))) []"
      by (rule Suc.hyps(1)) (use Suc.hyps(2) Suc.prems k in auto)
    then obtain n r env' where n: "dispatch_run [Suc k..<w] w (r2 + length (?mq ! k)) (drain (Suc k) rap, env1) =
        (n, r, drain n rap, env')" "Suc k \<le> n" "n \<le> w" "n = w \<or> ?mq ! n = []"
      "\<forall>j. Suc k \<le> j \<longrightarrow> j < n \<longrightarrow> ?mq ! j \<noteq> []" "sent env1 env' (concat (drop (Suc k) (take n ?mq))) []"
      by blast
    have d: "concat (drop k (take n ?mq)) = ?mq ! k @ concat (drop (Suc k) (take n ?mq))"
      using k n(2,3) by (simp flip: Cons_nth_drop_Suc)
    have "\<forall>j. k \<le> j \<longrightarrow> j < n \<longrightarrow> ?mq ! j \<noteq> []"
      using n(5) False by (metis le_antisym not_less_eq_eq)
    moreover have "dispatch_run [k..<w] w r2 (drain k rap, env) = (n, r, drain n rap, env')"
      using n(1) False k by (simp add: upt_conv_Cons dispatch_slot_drain env1_def)
    moreover have "sent env env' (concat (drop k (take n ?mq))) []"
      using sent_trans [OF s1 n(6)] by (simp add: d)
    ultimately show ?thesis using n(2,3,4) Suc_leD by blast
  qed
qed


text \<open>The queues while they move down by \<open>k\<close>: slots below \<open>c\<close> have been looked at.\<close>

definition shifted :: "nat \<Rightarrow> nat \<Rightarrow> mbuf list list \<Rightarrow> mbuf list list" where
  "shifted k c mq = map (\<lambda>x. if x < c - k then mq ! (x + k) else if x < c then [] else mq ! x) [0..<64]"

lemma shifted_nth: "x < 64 \<Longrightarrow> shifted k c mq ! x =
    (if x < c - k then mq ! (x + k) else if x < c then [] else mq ! x)"
  by (simp add: shifted_def)

lemma length_shifted [simp]: "length (shifted k c mq) = 64"
  by (simp add: shifted_def)

lemma shifted_empties:
  assumes "c \<le> w" "w \<le> 64" "k < c" "\<And>j. c \<le> j \<Longrightarrow> j < w \<Longrightarrow> mq ! j = []"
  shows "shifted k c mq = shifted k w mq"
proof (rule nth_equalityI)
  fix x assume "x < length (shifted k c mq)"
  then have x: "x < 64" by simp
  have "x + k < w \<Longrightarrow> \<not> x < c - k \<Longrightarrow> mq ! (x + k) = []" using assms(3) by (intro assms(4)) auto
  moreover have "\<not> x < c \<Longrightarrow> x < w \<Longrightarrow> mq ! x = []" by (intro assms(4)) auto
  ultimately show "shifted k c mq ! x = shifted k w mq ! x"
    using assms(1,3) x by (auto simp: shifted_nth)
qed simp

lemma shifted_step:
  assumes "1 \<le> k" "k < c" "c < 64"
  shows "(shifted k c mq)[c - k := shifted k c mq ! (c - k) @ shifted k c mq ! c, c := []] =
    shifted k (Suc c) mq"
proof (rule nth_equalityI)
  fix x assume "x < length ((shifted k c mq)[c - k := shifted k c mq ! (c - k) @ shifted k c mq ! c, c := []])"
  then have x: "x < 64" by simp
  consider "x = c" | "x = c - k" | "x \<noteq> c" "x \<noteq> c - k" by blast
  then show "(shifted k c mq)[c - k := shifted k c mq ! (c - k) @ shifted k c mq ! c, c := []] ! x =
      shifted k (Suc c) mq ! x"
  proof cases
    case 3
    then have "x < c - k \<longleftrightarrow> x < Suc c - k" "x < c \<longleftrightarrow> x < Suc c" using assms by auto
    then show ?thesis using x 3 assms by (simp add: shifted_nth)
  qed (use assms in \<open>auto simp: shifted_nth\<close>)
qed simp

lemma moveup_slots_shifted:
  assumes "1 \<le> k" "k < c" "w \<le> 64" "length mq = 64"
    and "n = int (length (concat (drop c (take w mq))))"
  shows "moveup_slots [c..<w] k n (shifted k c mq) = (if c \<le> w then shifted k w mq else shifted k c mq)"
  using assms
proof (induction "w - c" arbitrary: c n)
  case 0
  then show ?case by auto
next
  case (Suc d)
  have c: "c < w" "c < 64" using Suc by auto
  have "\<not> c < c - k" by simp
  then have slot: "shifted k c mq ! c = mq ! c" using c by (simp add: shifted_nth)
  have cd: "drop c (take w mq) = mq ! c # drop (Suc c) (take w mq)"
    using c Suc.prems by (simp flip: Cons_nth_drop_Suc)
  have IH: "n' = int (length (concat (drop (Suc c) (take w mq)))) \<Longrightarrow>
      moveup_slots [Suc c..<w] k n' (shifted k (Suc c) mq) = shifted k w mq" for n'
    using Suc.hyps(1) [of "Suc c" n'] Suc.hyps(2) Suc.prems c by auto
  show ?case
  proof (cases "mq ! c = []")
    case True
    have "shifted k c mq = shifted k (Suc c) mq"
      by (rule shifted_empties) (use True c Suc.prems in \<open>auto simp: le_less_Suc_eq\<close>)
    then show ?thesis
      using IH [of n] True slot c Suc.prems(5) by (simp add: upt_conv_Cons cd)
  next
    case False
    let ?n = "n - int (length (mq ! c))"
    have n: "?n = int (length (concat (drop (Suc c) (take w mq))))"
      using Suc.prems(5) by (simp add: cd)
    have step: "moveup_slots [c..<w] k n (shifted k c mq) =
        (if ?n = 0 then shifted k (Suc c) mq else moveup_slots [Suc c..<w] k ?n (shifted k (Suc c) mq))"
      using False c shifted_step [OF Suc.prems(1,2) c(2), of mq]
      by (simp add: upt_conv_Cons slot Let_def)
    show ?thesis
    proof (cases "?n = 0")
      case True
      then have "concat (drop (Suc c) (take w mq)) = []" unfolding n by (simp only: of_nat_eq_0_iff length_0_conv)
      then have e: "\<forall>q \<in> set (drop (Suc c) (take w mq)). q = []" by simp
      have "mq ! j = []" if "Suc c \<le> j" "j < w" for j
      proof -
        have "drop (Suc c) (take w mq) ! (j - Suc c) \<in> set (drop (Suc c) (take w mq))"
          using that c Suc.prems by (intro nth_mem) auto
        then show ?thesis using e that c Suc.prems by auto
      qed
      then have "shifted k (Suc c) mq = shifted k w mq"
        using c Suc.prems by (intro shifted_empties) auto
      then show ?thesis using step True c by simp
    next
      case False
      then show ?thesis using step IH [OF n] c by simp
    qed
  qed
qed

lemma shifted_ends:
  assumes "length mq = 64" "k \<le> w" "w \<le> 64" "\<forall>j. w \<le> j \<longrightarrow> j < 64 \<longrightarrow> mq ! j = []" "1 \<le> k"
  shows "shifted k w mq = drop k mq @ replicate k []"
    "k = w \<or> mq ! k = [] \<Longrightarrow> replicate k [] @ drop k mq = shifted k (min w (Suc k)) mq"
proof -
  show "shifted k w mq = drop k mq @ replicate k []"
  proof (rule nth_equalityI)
    fix x assume "x < length (shifted k w mq)"
    then have x: "x < 64" by simp
    have "\<not> x < w - k \<Longrightarrow> x + k < 64 \<Longrightarrow> mq ! (x + k) = []" "\<not> x < w \<Longrightarrow> mq ! x = []"
      using assms x by auto
    then show "shifted k w mq ! x = (drop k mq @ replicate k []) ! x"
      using x assms by (auto simp: shifted_nth nth_append add.commute)
  qed (use assms in simp)
  show "replicate k [] @ drop k mq = shifted k (min w (Suc k)) mq" if "k = w \<or> mq ! k = []"
  proof (rule nth_equalityI)
    fix x assume "x < length (replicate k [] @ drop k mq)"
    then have x: "x < 64" using assms by auto
    have w: "min w (Suc k) = (if k = w then k else Suc k)" using assms(2) by auto
    show "(replicate k [] @ drop k mq) ! x = shifted k (min w (Suc k)) mq ! x"
    proof (cases "k = w")
      case True
      then show ?thesis using assms x by (auto simp: shifted_nth nth_append)
    next
      case False
      then have "mq ! k = []" using that by simp
      then show ?thesis
        using False assms(1,5) x unfolding w by (cases "x = k") (auto simp: shifted_nth nth_append)
    qed
  qed (use assms in simp)
qed

lemma ampdu_rx_moveup_eq:
  assumes c: "counted rap" and k: "1 \<le> k" "k \<le> rxa_wnd rap" "k = rxa_wnd rap \<or> rxa_mq rap ! k = []"
  shows "\<exists>env'. ampdu_rx_moveup k (drain k rap, env) =
      ((drain k rap)\<lparr>rxa_mq := drop k (rxa_mq rap) @ replicate k []\<rparr>, env') \<and> sent env env' [] []"
proof -
  let ?w = "rxa_wnd rap" and ?mq = "rxa_mq rap"
  have l: "length ?mq = 64" "?w \<le> 64" "\<forall>j. ?w \<le> j \<longrightarrow> j < 64 \<longrightarrow> ?mq ! j = []"
    using c by (auto simp: counted_def)
  note ends = shifted_ends [OF l(1) k(2) l(2,3) k(1)]
  have d: "rxa_mq (drain k rap) = shifted k (min ?w (Suc k)) ?mq" "rxa_wnd (drain k rap) = ?w"
    using ends(2) [OF k(3)] by (simp_all add: drain_def)
  show ?thesis
  proof (cases "rxa_qframes (drain k rap) = 0")
    case True
    have "k \<le> 64" using k l by simp
    note e = counted_drain [OF c this True]
    have "shifted k (min ?w (Suc k)) ?mq = shifted k ?w ?mq"
    proof (cases "k = ?w")
      case False
      then have kw: "min ?w (Suc k) = Suc k" using k by auto
      show ?thesis unfolding kw by (rule shifted_empties) (use False k l e in auto)
    qed simp
    then have "(drain k rap)\<lparr>rxa_mq := drop k ?mq @ replicate k []\<rparr> = drain k rap"
      using d ends(1) by simp
    then show ?thesis using True by (simp add: ampdu_rx_moveup_def sent_def)
  next
    case False
    have mv: "moveup_slots [k + 1..<?w] k (rxa_qframes (drain k rap)) (shifted k (min ?w (Suc k)) ?mq) =
        shifted k ?w ?mq"
    proof (cases "k = ?w")
      case True
      then show ?thesis by simp
    next
      case kw: False
      then have kw: "k < ?w" "min ?w (Suc k) = Suc k" using k by auto
      have "concat ?mq = concat (take k ?mq) @ concat (drop k (take ?w ?mq))"
      proof -
        have "take k (take ?w ?mq) = take k ?mq" using k(2) by (simp add: min_def)
        then have "take k ?mq @ drop k (take ?w ?mq) = take ?w ?mq"
          using append_take_drop_id [of k "take ?w ?mq"] by simp
        then have "concat (take k ?mq) @ concat (drop k (take ?w ?mq)) = concat (take ?w ?mq)"
          by (metis concat_append)
        then show ?thesis using take_wnd(1) [OF c] by simp
      qed
      moreover have "drop k (take ?w ?mq) = ?mq ! k # drop (Suc k) (take ?w ?mq)"
        using kw l by (simp flip: Cons_nth_drop_Suc)
      ultimately have "rxa_qframes (drain k rap) = int (length (concat (drop (Suc k) (take ?w ?mq))))"
        using c k kw by (simp add: drain_def counted_def)
      then show ?thesis
        using moveup_slots_shifted [OF k(1), of "Suc k" ?w ?mq] kw l by simp
    qed
    with False d show ?thesis
      by (auto simp: ampdu_rx_moveup_def ends(1))
  qed
qed


text \<open>
  The two operations that move the window end alike: the first \<open>k\<close> slots are delivered, in
  order, and the window starts \<open>k\<close> further on.
\<close>

lemma advance_drain:
  "advance k rap = (drain k rap)\<lparr>rxa_mq := drop k (rxa_mq rap) @ replicate k [],
     rxa_start := SEQ_ADD (rxa_start (drain k rap)) (int k)\<rparr>"
  by (simp add: advance_def drain_def)

lemma ampdu_rx_dispatch_eq:
  assumes c: "counted rap" and w: "1 \<le> rxa_wnd rap" and z: "rxa_mq rap ! 0 = []"
  shows "\<exists>k env'. ampdu_rx_dispatch (rap, env) = (advance k rap, env') \<and>
    1 \<le> k \<and> k \<le> rxa_wnd rap \<and> (k = rxa_wnd rap \<or> rxa_mq rap ! k = []) \<and>
    (\<forall>j. 1 \<le> j \<longrightarrow> j < k \<longrightarrow> rxa_mq rap ! j \<noteq> []) \<and>
    sent env env' (concat (take k (rxa_mq rap))) []"
proof -
  let ?w = "rxa_wnd rap" and ?mq = "rxa_mq rap"
  have l: "length ?mq = 64" "?w \<le> 64" using c by (auto simp: counted_def)
  have d1: "drain (Suc 0) rap = rap" using drain_empty [of 0 rap] l z by simp
  obtain n r env1 where n: "dispatch_run [1..<?w] ?w 0 (drain 1 rap, env) = (n, r, drain n rap, env1)"
    "1 \<le> n" "n \<le> ?w" "n = ?w \<or> ?mq ! n = []" "\<forall>j. 1 \<le> j \<longrightarrow> j < n \<longrightarrow> ?mq ! j \<noteq> []"
    "sent env env1 (concat (drop 1 (take n ?mq))) []"
    using dispatch_run_drain [of 1 ?w rap 0 env] w l by auto
  have "concat (take n ?mq) = concat (drop 1 (take n ?mq))"
    using z n(2) l by (cases ?mq; cases n) auto
  then have s1: "sent env env1 (concat (take n ?mq)) []" using n(6) by simp
  obtain env2 where m: "ampdu_rx_moveup n (drain n rap, env1) =
      ((drain n rap)\<lparr>rxa_mq := drop n ?mq @ replicate n []\<rparr>, env2)" "sent env1 env2 [] []"
    using ampdu_rx_moveup_eq [OF c n(2,3,4)] by blast
  have mx: "max (Suc 0) ?w = ?w" using w by simp
  have "ampdu_rx_dispatch (rap, env) = (advance n rap,
      rxstat (\<lambda>t. t\<lparr>is_ampdu_rx_oor := is_ampdu_rx_oor t + word_of_nat r\<rparr>) env2)"
    using n(1) m(1) by (simp add: ampdu_rx_dispatch_def mx d1 advance_drain Let_def)
  then show ?thesis using n(2-5) sent_trans [OF s1 m(2)] by fastforce
qed

lemma SEQ_ADD_Suc: "SEQ_INC (SEQ_ADD s (int i)) = SEQ_ADD s (int (Suc i))"
  by (simp add: SEQ_INC_def SEQ_ADD_def mod_simps algebra_simps)

lemma flush_upto_run_drain:
  assumes "k \<le> w" "w \<le> length (rxa_mq rap)"
  shows "\<exists>n env'. flush_upto_run [k..<w] w (SEQ_ADD st (int k)) ws (drain k rap, env) =
      (n, SEQ_ADD st (int n), drain n rap, env') \<and>
    k \<le> n \<and> n \<le> w \<and> (n = w \<or> rxa_mq rap ! n = [] \<and> \<not> SEQ_BA_BEFORE (SEQ_ADD st (int n)) ws) \<and>
    (\<forall>j. k \<le> j \<longrightarrow> j < n \<longrightarrow> rxa_mq rap ! j \<noteq> [] \<or> SEQ_BA_BEFORE (SEQ_ADD st (int j)) ws) \<and>
    sent env env' (concat (drop k (take n (rxa_mq rap)))) []"
  using assms
proof (induction "w - k" arbitrary: k env)
  case 0
  then show ?case by (auto intro: exI [of _ env])
next
  case (Suc c)
  let ?mq = "rxa_mq rap"
  have k: "k < w" "k < length ?mq" using Suc by auto
  note mk = drain_mq(1) [OF k(2)]
  show ?case
  proof (cases "?mq ! k = [] \<and> \<not> SEQ_BA_BEFORE (SEQ_ADD st (int k)) ws")
    case True
    then have "flush_upto_run [k..<w] w (SEQ_ADD st (int k)) ws (drain k rap, env) =
        (k, SEQ_ADD st (int k), drain k rap, env)"
      using k by (simp add: upt_conv_Cons mk)
    then show ?thesis using True k by (auto simp: sent_def)
  next
    case False
    define env1 where "env1 = rxstat (\<lambda>t. t\<lparr>is_ampdu_rx_oor := is_ampdu_rx_oor t +
      word_of_nat (length (?mq ! k))\<rparr>) (env\<lparr>up := up env @ ?mq ! k\<rparr>)"
    have s1: "sent env env1 (?mq ! k) []" by (simp add: env1_def) (simp add: sent_def)
    have step: "flush_upto_run [k..<w] w (SEQ_ADD st (int k)) ws (drain k rap, env) =
        flush_upto_run [Suc k..<w] w (SEQ_ADD st (int (Suc k))) ws (drain (Suc k) rap, env1)"
      using False k drain_empty [OF k(2)]
      by (cases "?mq ! k = []")
        (simp_all add: upt_conv_Cons mk dispatch_slot_drain env1_def SEQ_ADD_Suc Let_def del: of_nat_Suc)
    have "\<exists>n env'. flush_upto_run [Suc k..<w] w (SEQ_ADD st (int (Suc k))) ws (drain (Suc k) rap, env1) =
        (n, SEQ_ADD st (int n), drain n rap, env') \<and> Suc k \<le> n \<and> n \<le> w \<and>
        (n = w \<or> ?mq ! n = [] \<and> \<not> SEQ_BA_BEFORE (SEQ_ADD st (int n)) ws) \<and>
        (\<forall>j. Suc k \<le> j \<longrightarrow> j < n \<longrightarrow> ?mq ! j \<noteq> [] \<or> SEQ_BA_BEFORE (SEQ_ADD st (int j)) ws) \<and>
        sent env1 env' (concat (drop (Suc k) (take n ?mq))) []"
      by (rule Suc.hyps(1)) (use Suc.hyps(2) Suc.prems k in auto)
    then obtain n env' where n: "flush_upto_run [Suc k..<w] w (SEQ_ADD st (int (Suc k))) ws
          (drain (Suc k) rap, env1) = (n, SEQ_ADD st (int n), drain n rap, env')" "Suc k \<le> n" "n \<le> w"
      "n = w \<or> ?mq ! n = [] \<and> \<not> SEQ_BA_BEFORE (SEQ_ADD st (int n)) ws"
      "\<forall>j. Suc k \<le> j \<longrightarrow> j < n \<longrightarrow> ?mq ! j \<noteq> [] \<or> SEQ_BA_BEFORE (SEQ_ADD st (int j)) ws"
      "sent env1 env' (concat (drop (Suc k) (take n ?mq))) []"
      by blast
    have d: "concat (drop k (take n ?mq)) = ?mq ! k @ concat (drop (Suc k) (take n ?mq))"
      using k n(2,3) by (simp flip: Cons_nth_drop_Suc)
    have "\<forall>j. k \<le> j \<longrightarrow> j < n \<longrightarrow> ?mq ! j \<noteq> [] \<or> SEQ_BA_BEFORE (SEQ_ADD st (int j)) ws"
      using n(5) False by (metis le_antisym not_less_eq_eq)
    moreover have "sent env env' (concat (drop k (take n ?mq))) []"
      using sent_trans [OF s1 n(6)] by (simp add: d)
    ultimately show ?thesis unfolding step using n(1-4) Suc_leD by blast
  qed
qed

lemma ampdu_rx_flush_upto_eq:
  assumes c: "counted rap" and w: "1 \<le> rxa_wnd rap" and s: "0 \<le> rxa_start rap" "rxa_start rap < 4096"
    and b: "SEQ_BA_BEFORE (rxa_start rap) ws"
  shows "\<exists>k env'. ampdu_rx_flush_upto ws (rap, env) = (advance k rap, env') \<and>
    1 \<le> k \<and> k \<le> rxa_wnd rap \<and>
    (k = rxa_wnd rap \<or> rxa_mq rap ! k = [] \<and> \<not> SEQ_BA_BEFORE (SEQ_ADD (rxa_start rap) (int k)) ws) \<and>
    (\<forall>j. j < k \<longrightarrow> rxa_mq rap ! j \<noteq> [] \<or> SEQ_BA_BEFORE (SEQ_ADD (rxa_start rap) (int j)) ws) \<and>
    sent env env' (concat (take k (rxa_mq rap))) []"
proof -
  let ?w = "rxa_wnd rap" and ?mq = "rxa_mq rap" and ?s = "rxa_start rap"
  have l: "length ?mq = 64" "?w \<le> 64" using c by (auto simp: counted_def)
  have s0: "SEQ_ADD ?s 0 = ?s" using s by (simp add: SEQ_ADD_def)
  obtain n env1 where n: "flush_upto_run [0..<?w] ?w ?s ws (rap, env) =
      (n, SEQ_ADD ?s (int n), drain n rap, env1)" "n \<le> ?w"
    "n = ?w \<or> ?mq ! n = [] \<and> \<not> SEQ_BA_BEFORE (SEQ_ADD ?s (int n)) ws"
    "\<forall>j. j < n \<longrightarrow> ?mq ! j \<noteq> [] \<or> SEQ_BA_BEFORE (SEQ_ADD ?s (int j)) ws"
    "sent env env1 (concat (take n ?mq)) []"
    using flush_upto_run_drain [of 0 ?w rap ?s ws env] l by (auto simp: s0)
  have n1: "1 \<le> n" using n(3) w b s0 by (cases n) auto
  have n4: "n = ?w \<or> ?mq ! n = []" using n(3) by blast
  obtain env2 where m: "ampdu_rx_moveup n (drain n rap, env1) =
      ((drain n rap)\<lparr>rxa_mq := drop n ?mq @ replicate n []\<rparr>, env2)" "sent env1 env2 [] []"
    using ampdu_rx_moveup_eq [OF c n1 n(2) n4] by blast
  have "ampdu_rx_flush_upto ws (rap, env) = (advance n rap, env2)"
    using n(1) m(1) by (simp add: ampdu_rx_flush_upto_def advance_def)
  then show ?thesis using n n1 sent_trans [OF n(5) m(2)] by auto
qed

end
