(* ===== verification/RxReorderStep.thy ===== *)
theory RxReorderStep
  imports RxReorderLoops "HOL-Library.Multiset"
begin

text \<open>
  The reorder buffer's invariant \<open>rap_ok\<close> and what one frame does to a session
  (\<open>reorder_again_step\<close>): the function returns, frames are neither lost nor duplicated, and
  what is passed up is in order.
\<close>

section \<open>Arithmetic of the sequence space\<close>

lemma SEQ_SUB_range: "0 \<le> SEQ_SUB a b" "SEQ_SUB a b < 4096"
  by (simp_all add: SEQ_SUB_def)

lemma SEQ_ADD_range: "0 \<le> SEQ_ADD a b" "SEQ_ADD a b < 4096"
  by (simp_all add: SEQ_ADD_def)

lemma SEQ_SUB_eq: "SEQ_SUB a b = (a - b) mod 4096"
proof -
  have "a + 4096 - b = (a - b) + 4096" by simp
  then show ?thesis unfolding SEQ_SUB_def by (metis mod_add_self2)
qed

lemma SEQ_ADD_SUB: "0 \<le> a \<Longrightarrow> a < 4096 \<Longrightarrow> SEQ_ADD b (SEQ_SUB a b) = a"
  by (simp add: SEQ_ADD_def SEQ_SUB_eq mod_simps)

lemma SEQ_SUB_ADD: "0 \<le> i \<Longrightarrow> i < 4096 \<Longrightarrow> SEQ_SUB (SEQ_ADD s i) s = i"
  by (simp add: SEQ_ADD_def SEQ_SUB_eq mod_simps)

lemma SEQ_ADD_ADD: "SEQ_ADD (SEQ_ADD s i) j = SEQ_ADD s (i + j)"
  by (simp add: SEQ_ADD_def mod_simps algebra_simps)

lemma SEQ_ADD_0: "0 \<le> s \<Longrightarrow> s < 4096 \<Longrightarrow> SEQ_ADD s 0 = s"
  by (simp add: SEQ_ADD_def)

lemma SEQ_INC_SUB: "0 \<le> a \<Longrightarrow> a < 4096 \<Longrightarrow> SEQ_INC a = SEQ_ADD s (SEQ_SUB a s + 1)"
proof -
  have "(s + ((a - s) mod 4096 + 1)) mod 4096 = ((s + 1) + (a - s) mod 4096) mod 4096"
    by (simp add: algebra_simps)
  then show ?thesis by (simp add: SEQ_INC_def SEQ_ADD_def SEQ_SUB_eq mod_add_right_eq add.commute)
qed

text \<open>Distances from a window that has moved up.\<close>

lemma SEQ_SUB_moved:
  assumes "0 \<le> k" "k \<le> SEQ_SUB a s"
  shows "SEQ_SUB a (SEQ_ADD s k) = SEQ_SUB a s - k"
proof -
  have "SEQ_SUB a (SEQ_ADD s k) = (SEQ_SUB a s - k) mod 4096"
    by (simp add: SEQ_SUB_eq SEQ_ADD_def mod_simps algebra_simps)
  then show ?thesis using assms SEQ_SUB_range [of a s] by simp
qed

lemma SEQ_SUB_base:
  assumes "0 \<le> k" "SEQ_SUB a (SEQ_ADD s k) + k < 4096"
  shows "SEQ_SUB a s = SEQ_SUB a (SEQ_ADD s k) + k"
proof -
  have "SEQ_SUB a s = (SEQ_SUB a (SEQ_ADD s k) + k) mod 4096"
    by (simp add: SEQ_SUB_eq SEQ_ADD_def mod_simps algebra_simps)
  then show ?thesis using assms SEQ_SUB_range [of a "SEQ_ADD s k"] by simp
qed

lemma BA_BEFORE_iff:
  assumes "0 \<le> i" "i < 4096" "0 \<le> d" "d < 4096"
  shows "SEQ_BA_BEFORE (SEQ_ADD s i) (SEQ_ADD s d) \<longleftrightarrow> (d - i - 1) mod 4096 < 2047"
proof -
  have "((s + d) mod 4096 - ((s + i) mod 4096 + 1)) mod 4096 = (((s + d) mod 4096 - 1) - (s + i) mod 4096) mod 4096"
    by (simp add: algebra_simps)
  also have "\<dots> = (((s + d) mod 4096 - 1) - (s + i)) mod 4096" by (rule mod_diff_right_eq)
  also have "\<dots> = ((s + d) mod 4096 - (1 + (s + i))) mod 4096" by (simp add: algebra_simps)
  also have "\<dots> = ((s + d) - (1 + (s + i))) mod 4096" by (rule mod_diff_left_eq)
  also have "\<dots> = (d - i - 1) mod 4096" by (simp add: algebra_simps)
  finally show ?thesis by (simp add: SEQ_BA_BEFORE_def SEQ_SUB_eq SEQ_ADD_def)
qed

section \<open>The invariant\<close>

definition rap_ok :: "rx_ampdu \<Rightarrow> bool" where
  "rap_ok rap \<longleftrightarrow> counted rap \<and> qb_ok rap \<and> 1 \<le> rxa_wnd rap \<and>
     0 \<le> rxa_start rap \<and> rxa_start rap < 4096 \<and> rxa_mq rap ! 0 = [] \<and>
     (\<forall>j < 64. length (rxa_mq rap ! j) \<le> 256 \<and>
        (\<forall>m \<in> set (rxa_mq rap ! j). frame_seq m = SEQ_ADD (rxa_start rap) (int j)))"

lemma concat_take_drop_length:
  "length (concat xs) = length (concat (take k xs)) + length (concat (drop k xs))"
  "qbytes (concat xs) = qbytes (concat (take k xs)) + qbytes (concat (drop k xs))"
  by (metis append_take_drop_id concat_append length_append)
    (metis append_take_drop_id concat_append qbytes_simps(3))

lemma advance_nth:
  assumes "length (rxa_mq rap) = 64" "k \<le> 64" "j < 64"
  shows "rxa_mq (advance k rap) ! j = (if j + k < 64 then rxa_mq rap ! (j + k) else [])"
  using assms by (auto simp: advance_def nth_append add.commute)

lemma advance_simps [simp]:
  "rxa_wnd (advance k rap) = rxa_wnd rap" "rxa_start (advance k rap) = SEQ_ADD (rxa_start rap) (int k)"
  "rxa_flags (advance k rap) = rxa_flags rap" "rxa_age (advance k rap) = rxa_age rap"
  "rxa_mq (advance k rap) = drop k (rxa_mq rap) @ replicate k []"
  by (simp_all add: advance_def drain_def)

lemma rap_ok_advance:
  assumes ok: "rap_ok rap" and k: "k \<le> rxa_wnd rap" "k = rxa_wnd rap \<or> rxa_mq rap ! k = []"
  shows "rap_ok (advance k rap)"
proof -
  have l: "length (rxa_mq rap) = 64" "rxa_wnd rap \<le> 64" "1 \<le> rxa_wnd rap"
    "\<forall>j. rxa_wnd rap \<le> j \<longrightarrow> j < 64 \<longrightarrow> rxa_mq rap ! j = []"
    using ok by (auto simp: rap_ok_def counted_def)
  have k64: "k \<le> 64" using k l by simp
  note nth = advance_nth [OF l(1) k64]
  have z: "rxa_mq (advance k rap) ! 0 = []" using nth [of 0] k l by auto
  have "rxa_qframes (advance k rap) = int (length (concat (rxa_mq (advance k rap))))"
    "rxa_qbytes (advance k rap) = qbytes (concat (rxa_mq (advance k rap)))"
    using ok concat_take_drop_length [of "rxa_mq rap" k]
    by (simp_all add: rap_ok_def counted_def qb_ok_def advance_def drain_def)
  moreover have "\<forall>j. rxa_wnd rap \<le> j \<longrightarrow> j < 64 \<longrightarrow> rxa_mq (advance k rap) ! j = []"
    using nth l(4) by auto
  moreover have "length (rxa_mq (advance k rap) ! j) \<le> 256 \<and>
      (\<forall>m \<in> set (rxa_mq (advance k rap) ! j). frame_seq m = SEQ_ADD (rxa_start (advance k rap)) (int j))"
    if "j < 64" for j
    using nth [OF that] ok by (auto simp: rap_ok_def SEQ_ADD_ADD add.commute simp del: advance_simps(5))
  ultimately show ?thesis
    using z l k64 by (simp add: rap_ok_def counted_def qb_ok_def SEQ_ADD_range del: advance_simps(5))
      (simp add: advance_simps(5))
qed

lemma rap_ok_emptied: "rap_ok rap \<Longrightarrow> 0 \<le> st \<Longrightarrow> st < 4096 \<Longrightarrow> rap_ok (emptied rap\<lparr>rxa_start := st\<rparr>)"
  by (simp add: rap_ok_def emptied_def counted_def qb_ok_def)

lemma rap_ok_count:
  assumes "rap_ok rap"
  shows "0 \<le> rxa_qframes rap" "rxa_qframes rap \<le> 63 * 256" "rxa_qframes rap = 0 \<longleftrightarrow> concat (rxa_mq rap) = []"
proof -
  have q: "rxa_qframes rap = int (length (concat (rxa_mq rap)))" using assms by (simp add: rap_ok_def counted_def)
  show "0 \<le> rxa_qframes rap" "rxa_qframes rap = 0 \<longleftrightarrow> concat (rxa_mq rap) = []"
    unfolding q by (simp_all only: of_nat_0_le_iff of_nat_eq_0_iff length_0_conv)
  have l: "length (rxa_mq rap) = 64" "rxa_mq rap ! 0 = []"
    "\<forall>q \<in> set (rxa_mq rap). length q \<le> 256"
    using assms by (auto simp: rap_ok_def counted_def in_set_conv_nth)
  then obtain qs where mq: "rxa_mq rap = [] # qs" "length qs = 63" by (cases "rxa_mq rap") auto
  have "sum_list (map length qs) \<le> sum_list (map (\<lambda>_. 256) qs)"
    using l(3) mq by (intro sum_list_mono) auto
  then have "length (concat (rxa_mq rap)) \<le> 63 * 256"
    using mq by (simp add: length_concat sum_list_triv)
  then show "rxa_qframes rap \<le> 63 * 256" unfolding q by simp
qed


section \<open>Order of delivery\<close>

text \<open>
  Frames delivered while the window moves from \<open>s\<close> by \<open>a\<close>: their distances from \<open>s\<close> are
  below \<open>a\<close> and never decrease; with \<open>strict\<close> no two are equal.
\<close>

definition rel_le :: "bool \<Rightarrow> int \<Rightarrow> int \<Rightarrow> bool" where
  "rel_le strict x y \<longleftrightarrow> (if strict then x < y else x \<le> y)"

lemma rel_le_simps [simp]: "rel_le True = (<)" "rel_le False = (\<le>)"
  by (intro ext, simp add: rel_le_def)+

definition in_order :: "bool \<Rightarrow> int \<Rightarrow> int \<Rightarrow> mbuf list \<Rightarrow> bool" where
  "in_order strict s a ds \<longleftrightarrow> sorted_wrt (rel_le strict) (map (\<lambda>f. SEQ_SUB (frame_seq f) s) ds) \<and>
     (\<forall>f \<in> set ds. SEQ_SUB (frame_seq f) s < a)"

lemma in_order_Nil [simp]: "in_order strict s a []"
  by (simp add: in_order_def)

lemma in_order_append:
  assumes "in_order strict s k ds" "in_order strict (SEQ_ADD s k) a es" "0 \<le> k" "k + a \<le> 4096" "0 \<le> a"
  shows "in_order strict s (k + a) (ds @ es)"
proof -
  have e: "SEQ_SUB (frame_seq f) s = SEQ_SUB (frame_seq f) (SEQ_ADD s k) + k"
    if "f \<in> set es" for f
    using assms that by (intro SEQ_SUB_base) (auto simp: in_order_def)
  have g: "k \<le> SEQ_SUB (frame_seq f) s" "SEQ_SUB (frame_seq f) s < k + a" if "f \<in> set es" for f
    using e [OF that] that assms SEQ_SUB_range [of "frame_seq f" "SEQ_ADD s k"] by (auto simp: in_order_def)
  have "map (\<lambda>f. SEQ_SUB (frame_seq f) s) es = map (\<lambda>x. x + k) (map (\<lambda>f. SEQ_SUB (frame_seq f) (SEQ_ADD s k)) es)"
    using e by simp
  moreover have "sorted_wrt (rel_le strict) (map (\<lambda>x. x + k) xs) = sorted_wrt (rel_le strict) xs" for xs
    by (cases strict) (simp_all add: sorted_wrt_map)
  ultimately have "sorted_wrt (rel_le strict) (map (\<lambda>f. SEQ_SUB (frame_seq f) s) es)"
    using assms(2) unfolding in_order_def by metis
  moreover have "rel_le strict (SEQ_SUB (frame_seq f) s) (SEQ_SUB (frame_seq f') s)"
    if "f \<in> set ds" "f' \<in> set es" for f f'
    using g [OF that(2)] that(1) assms(1) by (force simp: in_order_def rel_le_def)
  ultimately show ?thesis
    using assms g by (force simp: in_order_def sorted_wrt_append)
qed

definition single_slots :: "rx_ampdu \<Rightarrow> bool" where
  "single_slots rap \<longleftrightarrow> (\<forall>j < 64. length (rxa_mq rap ! j) \<le> 1)"

lemma slots_in_order:
  assumes "rap_ok rap" "k \<le> 64" "strict \<longrightarrow> single_slots rap"
  shows "in_order strict (rxa_start rap) (int k) (concat (take k (rxa_mq rap)))"
  using assms(2)
proof (induction k)
  case 0
  then show ?case by simp
next
  case (Suc k)
  let ?q = "rxa_mq rap ! k"
  have l: "length (rxa_mq rap) = 64" using assms(1) by (auto simp: rap_ok_def counted_def)
  have off: "SEQ_SUB (frame_seq f) (rxa_start rap) = int k" if "f \<in> set ?q" for f
  proof -
    have "k < 64" using Suc.prems by simp
    then have "frame_seq f = SEQ_ADD (rxa_start rap) (int k)"
      using that assms(1) unfolding rap_ok_def by blast
    then show ?thesis using \<open>k < 64\<close> by (simp add: SEQ_SUB_ADD)
  qed
  have "strict \<longrightarrow> length ?q \<le> 1" using assms(3) Suc.prems by (simp add: single_slots_def)
  then have "sorted_wrt (rel_le strict) (map (\<lambda>f. SEQ_SUB (frame_seq f) (rxa_start rap)) ?q)"
    using off by (cases strict) (auto simp: rel_le_def sorted_wrt_iff_nth_less)
  moreover have "concat (take (Suc k) (rxa_mq rap)) = concat (take k (rxa_mq rap)) @ ?q"
    using Suc.prems l by (simp add: take_Suc_conv_app_nth)
  moreover have "rel_le strict (SEQ_SUB (frame_seq f) (rxa_start rap)) (SEQ_SUB (frame_seq f') (rxa_start rap))"
    if "f \<in> set (concat (take k (rxa_mq rap)))" "f' \<in> set ?q" for f f'
  proof -
    have "SEQ_SUB (frame_seq f) (rxa_start rap) < int k"
      using Suc that(1) unfolding in_order_def by fastforce
    then show ?thesis using off [OF that(2)] by (simp add: rel_le_def)
  qed
  ultimately show ?case
    using Suc off unfolding in_order_def by (fastforce simp: sorted_wrt_append)
qed

section \<open>Queueing a frame\<close>

lemma add_slot_frames:
  assumes ok: "rap_ok rap" and off: "1 \<le> off" "off < rxa_wnd rap"
    and m: "frame_seq m = SEQ_ADD (rxa_start rap) (int off)"
    and r: "ampdu_rx_add_slot off m rxs (rap, env) = (rap', env')"
  shows "rap_ok rap'" "rxa_start rap' = rxa_start rap" "rxa_wnd rap' = rxa_wnd rap"
    "rxa_flags rap' = rxa_flags rap"
    "\<exists>fs. sent env env' [] fs \<and> mset (concat (rxa_mq rap')) + mset fs = mset (concat (rxa_mq rap)) + {#m#}"
    "rxs = None \<Longrightarrow> single_slots rap \<Longrightarrow> single_slots rap'"
proof -
  let ?q = "rxa_mq rap ! off"
  let ?rap1 = "rap\<lparr>rxa_mq := (rxa_mq rap)[off := ?q @ [m]], rxa_qframes := rxa_qframes rap + 1,
    rxa_qbytes := rxa_qbytes rap + m_len m\<rparr>"
  have l: "length (rxa_mq rap) = 64" "rxa_wnd rap \<le> 64" using ok by (auto simp: rap_ok_def counted_def)
  have o64: "off < 64" using off l by simp
  have split: "rxa_mq rap = take off (rxa_mq rap) @ ?q # drop (Suc off) (rxa_mq rap)"
    using o64 l by (simp add: id_take_nth_drop)
  have upd: "(rxa_mq rap)[off := q] = take off (rxa_mq rap) @ q # drop (Suc off) (rxa_mq rap)" for q
    using o64 l by (simp add: upd_conv_take_nth_drop)
  have c: "concat (rxa_mq rap) = concat (take off (rxa_mq rap)) @ ?q @ concat (drop (Suc off) (rxa_mq rap))"
    by (subst split) simp
  have nth: "(rxa_mq rap)[off := ?q @ [m]] ! j = (if j = off then ?q @ [m] else rxa_mq rap ! j)"
    if "j < 64" for j
    using that l by (simp add: nth_list_update)
  have len: "length (concat (rxa_mq ?rap1)) = length (concat (rxa_mq rap)) + 1"
    "qbytes (concat (rxa_mq ?rap1)) = qbytes (concat (rxa_mq rap)) + m_len m"
    by (simp_all add: c upd)
  have "counted ?rap1"
    using ok off len(1) l nth by (simp add: rap_ok_def counted_def)
  moreover have "qb_ok ?rap1"
    using ok len(2) by (simp add: rap_ok_def qb_ok_def)
  moreover have "\<forall>j < 64. length (rxa_mq ?rap1 ! j) \<le> 256 \<and>
      (\<forall>m \<in> set (rxa_mq ?rap1 ! j). frame_seq m = SEQ_ADD (rxa_start rap) (int j))"
    if "length ?q < 256"
    using ok that nth o64 m by (simp add: rap_ok_def)
  ultimately have ok1: "rap_ok ?rap1" if "length ?q < 256"
    using ok off that nth [of 0] by (simp add: rap_ok_def)
  moreover have "mset (concat (rxa_mq ?rap1)) = mset (concat (rxa_mq rap)) + {#m#}"
    by (simp add: c upd)
  moreover have "?q = [] \<Longrightarrow> single_slots rap \<Longrightarrow> single_slots ?rap1"
    using nth by (simp add: single_slots_def)
  moreover have "\<exists>fs. sent env env' [] fs \<and>
      (rap' = rap \<and> fs = [m] \<or> rap' = ?rap1 \<and> length ?q < 256 \<and> fs = [] \<and> (rxs = None \<longrightarrow> ?q = []))"
    using r by (auto simp: ampdu_rx_add_slot_def Let_def split: if_splits) (auto simp: sent_def)
  ultimately show "rap_ok rap'" "rxa_start rap' = rxa_start rap" "rxa_wnd rap' = rxa_wnd rap"
    "rxa_flags rap' = rxa_flags rap"
    "\<exists>fs. sent env env' [] fs \<and> mset (concat (rxa_mq rap')) + mset fs = mset (concat (rxa_mq rap)) + {#m#}"
    "rxs = None \<Longrightarrow> single_slots rap \<Longrightarrow> single_slots rap'"
    using ok ok1 by auto
qed


section \<open>One received frame\<close>

text \<open>More subframes of the same A-MSDU are to come.\<close>

definition amsdu_partial :: "u32 option \<Rightarrow> bool" where
  "amsdu_partial rxs \<longleftrightarrow> ieee80211_check_rxseq_amsdu rxs \<and> \<not> ieee80211_check_rxseq_amsdu_more rxs"

definition calm :: "u32 \<Rightarrow> u32 \<Rightarrow> rx_ampdu \<Rightarrow> bool" where
  "calm ticks age rap \<longleftrightarrow> rxa_qframes rap = 0 \<or> \<not> rx_aged ticks age rap"

definition passed :: "verdict \<Rightarrow> mbuf \<Rightarrow> mbuf list" where
  "passed v m = (case v of PROCESS \<Rightarrow> [m] | CONSUMED \<Rightarrow> [])"

text \<open>
  What one frame does to a session: the frames are accounted for, the invariant holds again,
  and, unless an age limit forces a flush, the frames passed up are in order and lie before
  the new window.
\<close>

definition step_ok ::
  "bool \<Rightarrow> bool \<Rightarrow> mbuf \<Rightarrow> rx_st \<Rightarrow> verdict \<Rightarrow> rx_st \<Rightarrow> bool" where
  "step_ok strict quiet m s v s' \<longleftrightarrow> (\<exists>ds fs adv. sent (snd s) (snd s') ds fs \<and>
     rap_ok (fst s') \<and> rxa_wnd (fst s') = rxa_wnd (fst s) \<and> rxa_flags (fst s') = rxa_flags (fst s) \<and>
     mset ds + mset fs + mset (concat (rxa_mq (fst s'))) + mset (passed v m) =
       mset (concat (rxa_mq (fst s))) + {#m#} \<and>
     (strict \<longrightarrow> single_slots (fst s')) \<and>
     (quiet \<longrightarrow> 0 \<le> adv \<and> adv \<le> 2111 \<and> adv \<le> SEQ_SUB (frame_seq m) (rxa_start (fst s)) + 64 \<and>
        rxa_start (fst s') = SEQ_ADD (rxa_start (fst s)) adv \<and>
        in_order strict (rxa_start (fst s)) adv (ds @ passed v m)))"

lemma single_slots_advance:
  assumes "rap_ok rap" "k \<le> 64" "single_slots rap"
  shows "single_slots (advance k rap)"
  using assms advance_nth [of rap k]
  by (auto simp: single_slots_def rap_ok_def counted_def simp del: advance_simps(5))

lemma single_slots_emptied [simp]: "single_slots (emptied rap\<lparr>rxa_start := st\<rparr>)"
  by (simp add: single_slots_def emptied_def)

lemma calm_advance: "rap_ok rap \<Longrightarrow> rap_ok (advance k rap) \<Longrightarrow> calm t a rap \<Longrightarrow> calm t a (advance k rap)"
  using rap_ok_count(3) [of rap] rap_ok_count(3) [of "advance k rap"]
  by (auto simp: calm_def rx_aged_def dest: in_set_dropD)

lemma mset_advance:
  "mset (concat (take k (rxa_mq rap))) + mset (concat (rxa_mq (advance k rap))) = mset (concat (rxa_mq rap))"
proof -
  have "concat (rxa_mq rap) = concat (take k (rxa_mq rap)) @ concat (drop k (rxa_mq rap))"
    by (metis append_take_drop_id concat_append)
  then show ?thesis by simp
qed

lemma process_in_order_eq:
  assumes "rap_ok rap" "0 \<le> rxseq" "rxseq < 4096" "process_in_order rxseq rxs (rap, env) = (rap', env')"
  shows "sent env env' [] []"
    "rap' = rap\<lparr>rxa_start := (if amsdu_partial rxs then rxa_start rap else SEQ_INC rxseq)\<rparr>"
  using assms by (auto simp: process_in_order_def amsdu_partial_def split: if_splits)

lemma step_first:
  assumes ok: "rap_ok rap" and m: "frame_seq m = rxa_start rap" and q: "rxa_qframes rap \<noteq> 0"
    and st: "strict \<longrightarrow> single_slots rap"
  shows "step_ok strict quiet m (rap, env) CONSUMED (ampdu_rx_dispatch (rap, ampdu_dispatch m env))"
proof -
  obtain k env' where d: "ampdu_rx_dispatch (rap, ampdu_dispatch m env) = (advance k rap, env')"
    "1 \<le> k" "k \<le> rxa_wnd rap" "k = rxa_wnd rap \<or> rxa_mq rap ! k = []"
    "sent (ampdu_dispatch m env) env' (concat (take k (rxa_mq rap))) []"
    using ampdu_rx_dispatch_eq [of rap "ampdu_dispatch m env"] ok by (auto simp: rap_ok_def)
  let ?ds = "concat (take k (rxa_mq rap))"
  have k64: "k \<le> 64" using d(3) ok by (simp add: rap_ok_def counted_def)
  have s: "sent env env' (m # ?ds) []"
    using d(5) by (simp add: sent_def ampdu_dispatch_def)
  have off0: "SEQ_SUB (frame_seq m) (rxa_start rap) = 0" by (simp add: m SEQ_SUB_def)
  have io: "in_order strict (rxa_start rap) (int k) ?ds"
    by (rule slots_in_order [OF ok k64 st])
  have z: "rxa_mq rap ! 0 = []" using ok by (simp add: rap_ok_def)
  have pos: "0 < SEQ_SUB (frame_seq f) (rxa_start rap)" if fin: "f \<in> set ?ds" for f
  proof -
    have l: "length (rxa_mq rap) = 64" using ok by (simp add: rap_ok_def counted_def)
    obtain q where q: "q \<in> set (take k (rxa_mq rap))" "f \<in> set q" using fin unfolding set_concat by blast
    then obtain j where "j < length (take k (rxa_mq rap))" "take k (rxa_mq rap) ! j = q"
      unfolding in_set_conv_nth by blast
    then have j: "j < k" "j < 64" "f \<in> set (rxa_mq rap ! j)" using q l k64 by auto
    then have "j \<noteq> 0" using z by (cases j) auto
    moreover have "frame_seq f = SEQ_ADD (rxa_start rap) (int j)"
      using j ok unfolding rap_ok_def by blast
    ultimately show ?thesis using j by (simp add: SEQ_SUB_ADD)
  qed
  have "in_order strict (rxa_start rap) (int k) (m # ?ds)"
    using io pos off0 d(2) by (force simp: in_order_def rel_le_def)
  moreover have "rap_ok (advance k rap)" by (rule rap_ok_advance [OF ok d(3,4)])
  moreover have "mset (m # ?ds) + mset (concat (rxa_mq (advance k rap))) = mset (concat (rxa_mq rap)) + {#m#}"
    using mset_advance [of k rap] by simp
  ultimately show ?thesis
    unfolding step_ok_def using s d k64 single_slots_advance [OF ok k64] st off0
    by (intro exI [of _ "m # ?ds"] exI [of _ "[]"] exI [of _ "int k"]) (auto simp: passed_def)
qed


lemma step_process:
  assumes ok: "rap_ok rap" and m: "frame_seq m = rxa_start rap" and q: "rxa_qframes rap = 0"
    and np: "quiet \<longrightarrow> \<not> amsdu_partial rxs" and st: "strict \<longrightarrow> single_slots rap"
    and r: "process_in_order (rxa_start rap) rxs (rap, env) = s'"
  shows "step_ok strict quiet m (rap, env) PROCESS s'"
proof -
  obtain rap' env' where s': "s' = (rap', env')" by (cases s')
  have b: "0 \<le> rxa_start rap" "rxa_start rap < 4096" using ok by (auto simp: rap_ok_def)
  note p = process_in_order_eq [OF ok b r [unfolded s']]
  define st' where "st' = (if amsdu_partial rxs then rxa_start rap else SEQ_ADD (rxa_start rap) 1)"
  have rap': "rap' = rap\<lparr>rxa_start := st'\<rparr>" using p(2) by (simp add: SEQ_INC_def st'_def)
  have b': "0 \<le> st'" "st' < 4096" using b SEQ_ADD_range by (auto simp: st'_def)
  have e: "concat (rxa_mq rap) = []" using rap_ok_count(3) [OF ok] q by simp
  have "\<forall>j < 64. rxa_mq rap ! j = []" using e ok by (auto simp: rap_ok_def counted_def)
  then have ok': "rap_ok rap'"
    using ok b' by (simp add: rap' rap_ok_def counted_def qb_ok_def)
  have off0: "SEQ_SUB (frame_seq m) (rxa_start rap) = 0" by (simp add: m SEQ_SUB_def)
  have "single_slots rap \<Longrightarrow> single_slots rap'" by (simp add: rap' single_slots_def)
  then show ?thesis
    unfolding step_ok_def using p(1) ok' st off0 np
    by (intro exI [of _ "[]"] exI [of _ 1]) (auto simp: s' passed_def rap' in_order_def st'_def)
qed

lemma step_flush:
  assumes ok: "rap_ok rap" and b: "0 \<le> frame_seq m" "frame_seq m < 4096"
    and r: "process_in_order (frame_seq m) rxs (ampdu_rx_flush (rap, env)) = s'"
  shows "step_ok strict False m (rap, env) PROCESS s'"
proof -
  have c: "counted rap" "qb_ok rap" using ok by (auto simp: rap_ok_def)
  obtain env1 where f: "ampdu_rx_flush (rap, env) = (emptied rap, env1)"
    "sent env env1 (concat (rxa_mq rap)) []"
    using ampdu_rx_flush_eq [OF c] by blast
  obtain rap' env' where s': "s' = (rap', env')" by (cases s')
  have ok1: "rap_ok (emptied rap)"
    using rap_ok_emptied [OF ok, of "rxa_start rap"] ok
    by (simp add: rap_ok_def emptied_def)
  note p = process_in_order_eq [OF ok1 b r [unfolded f(1) s']]
  obtain st where st: "rap' = emptied rap\<lparr>rxa_start := st\<rparr>" "0 \<le> st" "st < 4096"
    using p(2) ok1 SEQ_ADD_range by (fastforce simp: SEQ_INC_def rap_ok_def split: if_splits)
  have "rap_ok rap'" unfolding st(1) by (rule rap_ok_emptied [OF ok st(2,3)])
  then show ?thesis
    unfolding step_ok_def using sent_trans [OF f(2) p(1)]
    by (intro exI [of _ "concat (rxa_mq rap)"] exI [of _ "[]"])
      (auto simp: s' st(1) passed_def emptied_def single_slots_def)
qed

lemma step_add:
  assumes ok: "rap_ok rap" and b: "0 \<le> frame_seq m" "frame_seq m < 4096"
    and off: "frame_seq m \<noteq> rxa_start rap" "SEQ_SUB (frame_seq m) (rxa_start rap) < int (rxa_wnd rap)"
    and st: "strict \<longrightarrow> single_slots rap \<and> rxs = None"
    and r: "ampdu_rx_add_slot (nat (SEQ_SUB (frame_seq m) (rxa_start rap))) m rxs (rap, env) = s'"
  shows "step_ok strict quiet m (rap, env) CONSUMED s'"
proof -
  let ?o = "nat (SEQ_SUB (frame_seq m) (rxa_start rap))"
  obtain rap' env' where s': "s' = (rap', env')" by (cases s')
  have seq: "frame_seq m = SEQ_ADD (rxa_start rap) (SEQ_SUB (frame_seq m) (rxa_start rap))"
    using SEQ_ADD_SUB [OF b] by simp
  have "SEQ_SUB (frame_seq m) (rxa_start rap) \<noteq> 0"
    using seq off(1) ok SEQ_ADD_0 [of "rxa_start rap"] by (metis rap_ok_def)
  then have o: "1 \<le> ?o" "?o < rxa_wnd rap" "int ?o = SEQ_SUB (frame_seq m) (rxa_start rap)"
    using off SEQ_SUB_range [of "frame_seq m" "rxa_start rap"] by auto
  note a = add_slot_frames [OF ok o(1,2) _ r [unfolded s']]
  have a: "rap_ok rap'" "rxa_start rap' = rxa_start rap" "rxa_wnd rap' = rxa_wnd rap"
    "rxa_flags rap' = rxa_flags rap" "strict \<longrightarrow> single_slots rap'"
    "\<exists>fs. sent env env' [] fs \<and> mset (concat (rxa_mq rap')) + mset fs = mset (concat (rxa_mq rap)) + {#m#}"
    using a seq o(3) st by auto
  obtain fs where fs: "sent env env' [] fs"
    "mset (concat (rxa_mq rap')) + mset fs = mset (concat (rxa_mq rap)) + {#m#}"
    using a(6) by blast
  have "rxa_start rap = SEQ_ADD (rxa_start rap) 0" using ok by (simp add: SEQ_ADD_0 rap_ok_def)
  then show ?thesis
    unfolding step_ok_def using a(1-5) fs SEQ_SUB_range [of "frame_seq m" "rxa_start rap"]
    by (intro exI [of _ "[]"] exI [of _ fs] exI [of _ 0]) (simp add: s' passed_def add.commute)
qed

lemma step_drop:
  assumes ok: "rap_ok rap" and st: "strict \<longrightarrow> single_slots rap"
  shows "step_ok strict quiet m (rap, env) CONSUMED (rap, rxstat f (env\<lparr>freed := freed env @ [m]\<rparr>))"
proof -
  have "rxa_start rap = SEQ_ADD (rxa_start rap) 0" using ok by (simp add: SEQ_ADD_0 rap_ok_def)
  moreover have "sent env (env\<lparr>freed := freed env @ [m]\<rparr>) [] [m]" by (simp add: sent_def)
  ultimately show ?thesis
    unfolding step_ok_def using ok st SEQ_SUB_range [of "frame_seq m" "rxa_start rap"]
    by (intro exI [of _ "[]"] exI [of _ "[m]"] exI [of _ 0]) (auto simp: passed_def)
qed

lemma step_advance:
  assumes ok: "rap_ok rap" and k: "1 \<le> k" "k \<le> rxa_wnd rap" "k = rxa_wnd rap \<or> rxa_mq rap ! k = []"
    and off: "int (rxa_wnd rap) \<le> SEQ_SUB (frame_seq m) (rxa_start rap)"
      "SEQ_SUB (frame_seq m) (rxa_start rap) < 2048"
    and st: "strict \<longrightarrow> single_slots rap"
    and s1: "sent env env1 (concat (take k (rxa_mq rap))) []"
    and step: "step_ok strict quiet m (advance k rap, env1) v s'"
  shows "step_ok strict quiet m (rap, env) v s'"
proof -
  let ?ds = "concat (take k (rxa_mq rap))"
  obtain es fs adv where e: "sent env1 (snd s') es fs" "rap_ok (fst s')"
    "rxa_wnd (fst s') = rxa_wnd rap" "rxa_flags (fst s') = rxa_flags rap"
    "mset es + mset fs + mset (concat (rxa_mq (fst s'))) + mset (passed v m) =
       mset (concat (rxa_mq (advance k rap))) + {#m#}"
    "strict \<longrightarrow> single_slots (fst s')"
    "quiet \<longrightarrow> 0 \<le> adv \<and> adv \<le> 2111 \<and> adv \<le> SEQ_SUB (frame_seq m) (rxa_start (advance k rap)) + 64 \<and>
        rxa_start (fst s') = SEQ_ADD (rxa_start (advance k rap)) adv \<and>
        in_order strict (rxa_start (advance k rap)) adv (es @ passed v m)"
    using step unfolding step_ok_def by (auto simp del: advance_simps(5) concat_append mset_append)
  have k64: "k \<le> 64" using k(2) ok by (simp add: rap_ok_def counted_def)
  have moved: "SEQ_SUB (frame_seq m) (SEQ_ADD (rxa_start rap) (int k)) =
      SEQ_SUB (frame_seq m) (rxa_start rap) - int k"
    by (rule SEQ_SUB_moved) (use k off in auto)
  have io: "in_order strict (rxa_start rap) (int k) ?ds"
    by (rule slots_in_order [OF ok k64 st])
  have q: "0 \<le> int k + adv \<and> int k + adv \<le> 2111 \<and>
      int k + adv \<le> SEQ_SUB (frame_seq m) (rxa_start rap) + 64 \<and>
      rxa_start (fst s') = SEQ_ADD (rxa_start rap) (int k + adv) \<and>
      in_order strict (rxa_start rap) (int k + adv) ((?ds @ es) @ passed v m)" if quiet
  proof -
    have x: "0 \<le> adv" "adv \<le> SEQ_SUB (frame_seq m) (rxa_start rap) - int k + 64"
      "rxa_start (fst s') = SEQ_ADD (rxa_start rap) (int k + adv)"
      "in_order strict (SEQ_ADD (rxa_start rap) (int k)) adv (es @ passed v m)"
      using e(7) that moved by (simp_all add: SEQ_ADD_ADD)
    then show ?thesis
      using in_order_append [OF io x(4)] off(2) by simp
  qed
  have "mset (?ds @ es) + mset fs + mset (concat (rxa_mq (fst s'))) + mset (passed v m) =
      mset (concat (rxa_mq rap)) + {#m#}"
    unfolding mset_advance [of k rap, symmetric] using e(5) by (simp add: ac_simps del: advance_simps(5))
  then show ?thesis
    unfolding step_ok_def using e(2,3,4,6) sent_trans [OF s1 e(1)] q
    by (intro exI [of _ "?ds @ es"] exI [of _ fs] exI [of _ "int k + adv"]) simp
qed


lemma flush_upto_before:
  assumes "rap_ok rap" "0 \<le> seq" "seq < 4096" "int (rxa_wnd rap) \<le> SEQ_SUB seq (rxa_start rap)"
    "SEQ_SUB seq (rxa_start rap) < 2048"
  shows "SEQ_BA_BEFORE (rxa_start rap) (SEQ_SUB seq (int (rxa_wnd rap) - 1))"
proof -
  let ?d = "SEQ_SUB seq (rxa_start rap)" and ?w = "int (rxa_wnd rap)"
  have r: "0 \<le> rxa_start rap" "rxa_start rap < 4096" "1 \<le> rxa_wnd rap" using assms(1) by (auto simp: rap_ok_def)
  have e1: "SEQ_SUB seq (?w - 1) = SEQ_ADD (rxa_start rap) (?d - (?w - 1))"
  proof -
    have "(rxa_start rap + ((seq - rxa_start rap) mod 4096 - (?w - 1))) mod 4096 =
        ((rxa_start rap - (?w - 1)) + (seq - rxa_start rap) mod 4096) mod 4096"
      by (simp add: algebra_simps)
    also have "\<dots> = ((rxa_start rap - (?w - 1)) + (seq - rxa_start rap)) mod 4096"
      by (rule mod_add_right_eq)
    also have "(rxa_start rap - (?w - 1)) + (seq - rxa_start rap) = seq - (?w - 1)" by simp
    finally show ?thesis by (simp add: SEQ_SUB_eq SEQ_ADD_def)
  qed
  have s0: "SEQ_ADD (rxa_start rap) 0 = rxa_start rap" using r by (simp add: SEQ_ADD_0)
  have "SEQ_BA_BEFORE (SEQ_ADD (rxa_start rap) 0) (SEQ_ADD (rxa_start rap) (?d - (?w - 1))) \<longleftrightarrow>
      (?d - (?w - 1) - 0 - 1) mod 4096 < 2047"
    by (rule BA_BEFORE_iff) (use assms(4,5) r in auto)
  moreover have "(?d - (?w - 1) - 0 - 1) mod 4096 < 2047" using assms(4,5) r by simp
  ultimately show ?thesis by (simp only: s0 e1)
qed

text \<open>The function returns, and does what \<open>step_ok\<close> says.\<close>

lemma reorder_again_step:
  assumes "rap_ok rap" "0 \<le> frame_seq m" "frame_seq m < 4096"
    and "strict \<longrightarrow> single_slots rap \<and> rxs = None"
    and "quiet \<longrightarrow> calm ticks age rap \<and> \<not> amsdu_partial rxs"
  shows "\<exists>v s'. reorder_again ticks age m rxs (frame_seq m) (rap, env) = Some (v, s') \<and>
    step_ok strict quiet m (rap, env) v s'"
  using assms
proof (induction "nat (SEQ_SUB (frame_seq m) (rxa_start rap))" arbitrary: rap env rule: less_induct)
  case less
  let ?off = "SEQ_SUB (frame_seq m) (rxa_start rap)"
  note ok = less.prems(1) and b = less.prems(2,3) and st = less.prems(4) and qu = less.prems(5)
  have st1: "strict \<longrightarrow> single_slots rap" using st by simp
  note eq = reorder_again.simps [of ticks age m rxs "frame_seq m" "(rap, env)"]
  show ?case
  proof (cases "frame_seq m = rxa_start rap")
    case m: True
    show ?thesis
    proof (cases "rxa_qframes rap = 0")
      case True
      have "reorder_again ticks age m rxs (frame_seq m) (rap, env) =
          Some (PROCESS, process_in_order (rxa_start rap) rxs (rap, env))"
        by (subst eq) (simp add: m True)
      then show ?thesis
        using step_process [OF ok m True _ st1 refl, where env = env and rxs = rxs and quiet = quiet] qu by blast
    next
      case False
      have "reorder_again ticks age m rxs (frame_seq m) (rap, env) =
          Some (CONSUMED, ampdu_rx_dispatch (rap, ampdu_dispatch m env))"
        by (subst eq) (simp add: m False)
      then show ?thesis using step_first [OF ok m False st1] by blast
    qed
  next
    case ne: False
    show ?thesis
    proof (cases "?off < int (rxa_wnd rap)")
      case off: True
      show ?thesis
      proof (cases "rxa_qframes rap \<noteq> 0 \<and> rx_aged ticks age rap")
        case True
        then have "\<not> quiet" using qu by (simp add: calm_def)
        then show ?thesis
          using step_flush [OF ok b refl, where strict = strict and rxs = rxs and env =
            "rxstat (\<lambda>t. t\<lparr>is_ampdu_rx_age := is_ampdu_rx_age t + word_of_int (rxa_qframes rap)\<rparr>) env"]
            True off ne
          by (simp add: eq step_ok_def)
      next
        case False
        define rap1 where "rap1 = (if rxa_qframes rap = 0 then rap\<lparr>rxa_age := ticks\<rparr> else rap)"
        have r1: "rap_ok rap1" "rxa_start rap1 = rxa_start rap" "rxa_wnd rap1 = rxa_wnd rap"
          "rxa_flags rap1 = rxa_flags rap" "rxa_mq rap1 = rxa_mq rap"
          using ok by (auto simp: rap1_def rap_ok_def counted_def qb_ok_def)
        have "strict \<longrightarrow> single_slots rap1 \<and> rxs = None" using st by (simp add: single_slots_def r1)
        then have "step_ok strict quiet m (rap1, env) CONSUMED
            (ampdu_rx_add_slot (nat ?off) m rxs (rap1, env))"
          using step_add [OF r1(1) b, where strict = strict and rxs = rxs and env = env and quiet = quiet] ne off r1 by simp
        then have "step_ok strict quiet m (rap, env) CONSUMED
            (ampdu_rx_add_slot (nat ?off) m rxs (rap1, env))"
          by (simp add: step_ok_def r1)
        moreover have "reorder_again ticks age m rxs (frame_seq m) (rap, env) =
            Some (CONSUMED, ampdu_rx_add_slot (nat ?off) m rxs (rap1, env))"
          using False ne off by (subst eq) (auto simp: rap1_def)
        ultimately show ?thesis by blast
      qed
    next
      case far: False
      show ?thesis
      proof (cases "?off < 2048")
        case True
        define env0 where "env0 = rxstat (\<lambda>t. t\<lparr>is_ampdu_rx_move := is_ampdu_rx_move t + 1\<rparr>) env"
        let ?ws = "SEQ_SUB (frame_seq m) (int (rxa_wnd rap) - 1)"
        have rb: "counted rap" "1 \<le> rxa_wnd rap" "0 \<le> rxa_start rap" "rxa_start rap < 4096"
          using ok by (auto simp: rap_ok_def)
        have "SEQ_BA_BEFORE (rxa_start rap) ?ws"
          using flush_upto_before [OF ok b _ True] far by simp
        then obtain k env1 where f: "ampdu_rx_flush_upto ?ws (rap, env0) = (advance k rap, env1)"
          "1 \<le> k" "k \<le> rxa_wnd rap" "k = rxa_wnd rap \<or> rxa_mq rap ! k = []"
          "sent env0 env1 (concat (take k (rxa_mq rap))) []"
          using ampdu_rx_flush_upto_eq [OF rb] by blast
        have ok1: "rap_ok (advance k rap)" by (rule rap_ok_advance [OF ok f(3,4)])
        have k64: "k \<le> 64" using f(3) rb(1) by (simp add: counted_def)
        have moved: "SEQ_SUB (frame_seq m) (rxa_start (advance k rap)) = ?off - int k"
          using SEQ_SUB_moved [of "int k" "frame_seq m" "rxa_start rap"] f(3) far by simp
        have "\<exists>v s'. reorder_again ticks age m rxs (frame_seq m) (advance k rap, env1) = Some (v, s') \<and>
            step_ok strict quiet m (advance k rap, env1) v s'"
        proof (rule less.hyps [OF _ ok1 b])
          show "nat (SEQ_SUB (frame_seq m) (rxa_start (advance k rap))) < nat ?off"
            using moved f(2,3) far by simp
          show "strict \<longrightarrow> single_slots (advance k rap) \<and> rxs = None"
            using st single_slots_advance [OF ok k64] by blast
          show "quiet \<longrightarrow> calm ticks age (advance k rap) \<and> \<not> amsdu_partial rxs"
            using qu calm_advance [OF ok ok1] by blast
        qed
        then obtain v s' where r: "reorder_again ticks age m rxs (frame_seq m) (advance k rap, env1) = Some (v, s')"
          "step_ok strict quiet m (advance k rap, env1) v s'" by blast
        have s1: "sent env env1 (concat (take k (rxa_mq rap))) []" using f(5) by (simp add: env0_def)
        have "step_ok strict quiet m (rap, env) v s'"
          by (rule step_advance [OF ok f(2,3,4) _ True st1 s1 r(2)]) (use far in simp)
        moreover have "reorder_again ticks age m rxs (frame_seq m) (rap, env) = Some (v, s')"
          using r(1) f(1) ne far True by (simp add: eq env0_def)
        ultimately show ?thesis by blast
      next
        case False
        then show ?thesis
          using step_drop [OF ok st1] ne far by (simp add: eq)
      qed
    qed
  qed
qed

end
