(* ===== verification/RxReorderProps.thy ===== *)
theory RxReorderProps
  imports RxReorderStep
begin

text \<open>
  What the reorder buffer promises: a session accounts for every frame and returns on every
  frame, a run of frames and block ack requests is delivered in strictly increasing order,
  a block ack request and the end of a session drain what they have to drain.
\<close>

section \<open>A frame and a block ack request at a running session\<close>

definition running :: "rx_ampdu \<Rightarrow> bool" where
  "running rap \<longleftrightarrow> rxa_flags rap AND AGGR_XCHGPEND \<noteq> 0 \<and> rxa_flags rap AND AGGR_WAITRX = 0"

lemma uint_drop_4: "uint (drop_bit 4 (w :: u16)) < 4096"
proof -
    have "uint (drop_bit 4 w) = uint w div 16"
      using unsigned_less [of w, where 'a = int]
      by (simp add: unsigned_drop_bit_eq) (simp add: drop_bit_eq_div take_bit_int_eq_self)
    then show ?thesis using unsigned_less [of w, where 'a = int] by simp
qed

lemma frame_seq_range: "0 \<le> frame_seq m" "frame_seq m < 4096"
  by (simp_all add: frame_seq_def uint_drop_4)

lemma step_ok_nframes:
  "step_ok strict quiet m (rap\<lparr>rxa_nframes := n\<rparr>, env) v s' = step_ok strict quiet m (rap, env) v s'"
  by (simp add: step_ok_def)

lemma reorder_session_step:
  assumes ok: "rap_ok rap" and run: "running rap"
    and st: "strict \<longrightarrow> single_slots rap \<and> rxs = None"
    and qu: "quiet \<longrightarrow> calm ticks age rap \<and> \<not> amsdu_partial rxs"
  shows "\<exists>v s'. reorder_session ticks age m rxs (rap, env) = Some (v, s') \<and>
    step_ok strict quiet m (rap, env) v s'"
proof (cases "i_seq (mtod m) AND 0x000f = 0")
  case False
  then show ?thesis
    using step_drop [OF ok, of strict] st run
    by (auto simp: reorder_session_def running_def Let_def)
next
  case True
  let ?rap = "rap\<lparr>rxa_nframes := rxa_nframes rap + 1\<rparr>"
  have ok1: "rap_ok ?rap" using ok by (simp add: rap_ok_def counted_def qb_ok_def)
  have "\<exists>v s'. reorder_again ticks age m rxs (frame_seq m) (?rap, env) = Some (v, s') \<and>
      step_ok strict quiet m (?rap, env) v s'"
    by (rule reorder_again_step [OF ok1 frame_seq_range])
      (use st qu in \<open>auto simp: single_slots_def calm_def rx_aged_def\<close>)
  then show ?thesis
    using True run by (simp add: reorder_session_def running_def Let_def frame_seq_def step_ok_nframes)
qed

definition bar_seq :: "u8 list \<Rightarrow> int" where
  "bar_seq wh = uint (drop_bit 4 (le16 (wh ! 18) (wh ! 19)))"

lemma bar_seq_range: "0 \<le> bar_seq wh" "bar_seq wh < 4096"
  by (simp_all add: bar_seq_def uint_drop_4)

lemma rap_ok_move_empty:
  assumes "rap_ok rap" "concat (rxa_mq rap) = []" "0 \<le> st" "st < 4096"
  shows "rap_ok (rap\<lparr>rxa_start := st\<rparr>)"
proof -
  have e: "rxa_mq rap ! j = []" if "j < 64" for j
  proof -
    have "rxa_mq rap ! j \<in> set (rxa_mq rap)" using assms(1) that by (simp add: rap_ok_def counted_def)
    then show ?thesis using assms(2) by (metis concat_eq_Nil_conv)
  qed
  have "counted (rap\<lparr>rxa_start := st\<rparr>) = counted rap" "qb_ok (rap\<lparr>rxa_start := st\<rparr>) = qb_ok rap"
    by (simp_all add: counted_def qb_ok_def)
  then show ?thesis using assms(1,3,4) e by (simp add: rap_ok_def)
qed

text \<open>
  A block ack request in range moves the window to its sequence number or beyond, and what
  lies before the new window is delivered in order.
\<close>

definition bar_ok :: "bool \<Rightarrow> int \<Rightarrow> rx_st \<Rightarrow> rx_st \<Rightarrow> bool" where
  "bar_ok strict seq s s' \<longleftrightarrow> (\<exists>ds adv. sent (snd s) (snd s') ds [] \<and> rap_ok (fst s') \<and>
     rxa_wnd (fst s') = rxa_wnd (fst s) \<and> rxa_flags (fst s') = rxa_flags (fst s) \<and>
     mset ds + mset (concat (rxa_mq (fst s'))) = mset (concat (rxa_mq (fst s))) \<and>
     (strict \<longrightarrow> single_slots (fst s')) \<and>
     rxa_start (fst s') = SEQ_ADD (rxa_start (fst s)) adv \<and> 0 \<le> adv \<and> adv \<le> 2111 \<and>
     in_order strict (rxa_start (fst s)) adv ds \<and>
     (SEQ_SUB seq (rxa_start (fst s)) < 2048 \<longrightarrow> SEQ_SUB seq (rxa_start (fst s)) \<le> adv))"

lemma recv_bar_session_step:
  assumes ok: "rap_ok rap" and run: "running rap" and st: "strict \<longrightarrow> single_slots rap"
  shows "bar_ok strict (bar_seq wh) (rap, env) (recv_bar_session wh (rap, env))"
proof -
  let ?seq = "bar_seq wh" and ?s = "rxa_start rap" and ?w = "rxa_wnd rap"
  let ?off = "SEQ_SUB (bar_seq wh) (rxa_start rap)"
  have r: "counted rap" "1 \<le> ?w" "0 \<le> ?s" "?s < 4096" "?w \<le> 64" "length (rxa_mq rap) = 64"
    using ok by (auto simp: rap_ok_def counted_def)
  have s0: "SEQ_ADD ?s 0 = ?s" using r by (simp add: SEQ_ADD_0)
  have seq: "SEQ_ADD ?s ?off = ?seq" using SEQ_ADD_SUB [OF bar_seq_range] .
  have ro: "0 \<le> ?off" "?off < 4096" by (rule SEQ_SUB_range)+
  have keep: "bar_ok strict ?seq (rap, env) (rap, env')" if "sent env env' [] []" "?off < 2048 \<longrightarrow> ?off = 0" for env'
    unfolding bar_ok_def using that ok st s0
    by (intro exI [of _ "[]"] exI [of _ 0]) auto
  show ?thesis
  proof (cases "?seq = ?s \<or> 2048 \<le> ?off")
    case True
    then show ?thesis
    proof
      assume "?seq = ?s"
      moreover have "SEQ_SUB ?s ?s = 0" by (simp add: SEQ_SUB_eq)
      ultimately show ?thesis using keep run
        by (simp add: recv_bar_session_def running_def Let_def flip: bar_seq_def)
    next
      assume f: "2048 \<le> ?off"
      moreover have "?seq \<noteq> ?s"
      proof
        assume "?seq = ?s"
        then show False using f by (simp add: SEQ_SUB_eq)
      qed
      ultimately show ?thesis using keep run
        by (simp add: recv_bar_session_def running_def Let_def flip: bar_seq_def)
    qed
  next
    case False
    then have ne: "?seq \<noteq> ?s" and off: "?off < 2048" by auto
    have o1: "1 \<le> ?off" using ne seq s0 ro by (cases "?off = 0") auto
    define env0 where "env0 = rxstat (\<lambda>t. t\<lparr>is_ampdu_bar_move := is_ampdu_bar_move t + 1\<rparr>)
      (rxstat (\<lambda>t. t\<lparr>is_ampdu_bar_rx := is_ampdu_bar_rx t + 1\<rparr>) env)"
    have bi: "SEQ_BA_BEFORE (SEQ_ADD ?s (int i)) ?seq \<longleftrightarrow> (?off - int i - 1) mod 4096 < 2047" if "i \<le> 64" for i
      using BA_BEFORE_iff [of "int i" ?off ?s] ro that by (simp add: seq)
    have "SEQ_BA_BEFORE ?s ?seq" using bi [of 0] o1 off s0 by simp
    then obtain k env1 where f: "ampdu_rx_flush_upto ?seq (rap, env0) = (advance k rap, env1)"
      "1 \<le> k" "k \<le> ?w"
      "k = ?w \<or> rxa_mq rap ! k = [] \<and> \<not> SEQ_BA_BEFORE (SEQ_ADD ?s (int k)) ?seq"
      "sent env0 env1 (concat (take k (rxa_mq rap))) []"
      using ampdu_rx_flush_upto_eq [OF r(1-4)] by blast
    have f4: "k = ?w \<or> rxa_mq rap ! k = []" using f(4) by blast
    have ok1: "rap_ok (advance k rap)" by (rule rap_ok_advance [OF ok f(3) f4])
    have k64: "k \<le> 64" using f(3) r(5) by simp
    have s1: "sent env env1 (concat (take k (rxa_mq rap))) []" using f(5) by (simp add: env0_def)
    have io: "in_order strict ?s (int k) (concat (take k (rxa_mq rap)))"
      by (rule slots_in_order [OF ok k64 st])
    have kw: "int k < ?off \<Longrightarrow> k = ?w"
    proof -
      assume "int k < ?off"
      then have "(?off - int k - 1) mod 4096 < 2047" using off by simp
      then show ?thesis using f(4) bi [OF k64] by simp
    qed
    have res: "recv_bar_session wh (rap, env) =
        (if int ?w \<le> ?off then advance k rap\<lparr>rxa_start := ?seq\<rparr> else advance k rap, env1)"
      using f(1) run ne off by (simp add: recv_bar_session_def running_def Let_def env0_def flip: bar_seq_def)
    have sg: "strict \<longrightarrow> single_slots (advance k rap)" using single_slots_advance [OF ok k64] st by blast
    have ms: "mset (concat (take k (rxa_mq rap))) + mset (concat (rxa_mq (advance k rap))) = mset (concat (rxa_mq rap))"
      by (rule mset_advance)
    show ?thesis
    proof (cases "int ?w \<le> ?off")
      case False
      then have "?off \<le> int k" using kw by linarith
      then show ?thesis
        unfolding bar_ok_def res using False s1 ok1 sg ms io k64
        by (intro exI [of _ "concat (take k (rxa_mq rap))"] exI [of _ "int k"]) (simp del: advance_simps(5))
    next
      case True
      have kk: "k = ?w"
      proof (rule ccontr)
        assume "k \<noteq> ?w"
        then show False using kw f(3) True by linarith
      qed
      then have "drop k (rxa_mq rap) = replicate (64 - ?w) []" using take_wnd(2) [OF r(1)] by simp
      then have e: "concat (rxa_mq (advance k rap)) = []" by simp
      have ok2: "rap_ok (advance k rap\<lparr>rxa_start := ?seq\<rparr>)"
        by (rule rap_ok_move_empty [OF ok1 e bar_seq_range])
      have "int k \<le> ?off" using kk True by simp
      then have "in_order strict ?s ?off (concat (take k (rxa_mq rap)))"
        using io unfolding in_order_def by fastforce
      then show ?thesis
        unfolding bar_ok_def res using True s1 ok2 sg ms off ro
        by (intro exI [of _ "concat (take k (rxa_mq rap))"] exI [of _ ?off])
          (simp add: seq single_slots_def del: advance_simps(5))
    qed
  qed
qed


section \<open>Runs of a session\<close>

datatype rx_event = RxFrame u32 mbuf "u32 option" | RxBar "u8 list"

text \<open>What one event passes up: frames dispatched, then the frame itself if it is not consumed.\<close>

definition passed_up :: "rx_env \<Rightarrow> rx_env \<Rightarrow> mbuf list" where
  "passed_up env env' = drop (length (up env)) (up env')"

text \<open>
  The frames a session passes up over a list of events, numbered without wrap-around: \<open>V\<close> is
  the number of the window's start, and a frame's number is \<open>V\<close> plus its distance from it.
\<close>

fun rx_events :: "u32 \<Rightarrow> rx_event list \<Rightarrow> int \<Rightarrow> rx_st \<Rightarrow> (int \<times> mbuf) list option" where
  "rx_events age [] V s = Some []"
| "rx_events age (RxFrame ticks m rxs # es) V s =
     (case reorder_session ticks age m rxs s of
        None \<Rightarrow> None
      | Some (v, s') \<Rightarrow>
          map_option (append (map (\<lambda>f. (V + SEQ_SUB (frame_seq f) (rxa_start (fst s)), f))
              (passed_up (snd s) (snd s') @ passed v m)))
            (rx_events age es (V + SEQ_SUB (rxa_start (fst s')) (rxa_start (fst s))) s'))"
| "rx_events age (RxBar wh # es) V s =
     (let s' = recv_bar_session wh s in
      map_option (append (map (\<lambda>f. (V + SEQ_SUB (frame_seq f) (rxa_start (fst s)), f))
          (passed_up (snd s) (snd s'))))
        (rx_events age es (V + SEQ_SUB (rxa_start (fst s')) (rxa_start (fst s))) s'))"

text \<open>No frame arrives so late that the age limit flushes the buffer, and all are plain frames.\<close>

fun calm_run :: "u32 \<Rightarrow> rx_event list \<Rightarrow> rx_st \<Rightarrow> bool" where
  "calm_run age [] s = True"
| "calm_run age (RxFrame ticks m rxs # es) s =
     (rxs = None \<and> calm ticks age (fst s) \<and>
      (case reorder_session ticks age m rxs s of None \<Rightarrow> True | Some (v, s') \<Rightarrow> calm_run age es s'))"
| "calm_run age (RxBar wh # es) s = calm_run age es (recv_bar_session wh s)"

definition numbered :: "int \<Rightarrow> (int \<times> mbuf) list \<Rightarrow> bool" where
  "numbered V out \<longleftrightarrow> sorted_wrt (<) (map fst out) \<and> (\<forall>x \<in> set out. V \<le> fst x) \<and>
     (\<forall>(n, f) \<in> set out. n mod 4096 = frame_seq f)"

lemma numbered_step:
  assumes io: "in_order True s adv ds" and rest: "numbered (V + adv) out"
    and V: "V mod 4096 = s" and s: "0 \<le> adv" "0 \<le> s" "s < 4096"
  shows "numbered V (map (\<lambda>f. (V + SEQ_SUB (frame_seq f) s, f)) ds @ out)"
proof -
  let ?g = "\<lambda>f. V + SEQ_SUB (frame_seq f) s"
  have "(V + SEQ_SUB (frame_seq f) s) mod 4096 = frame_seq f" for f
  proof -
    have "(V + SEQ_SUB (frame_seq f) s) mod 4096 = SEQ_ADD s (SEQ_SUB (frame_seq f) s)"
      using V by (simp add: SEQ_ADD_def mod_simps flip: V)
    then show ?thesis using SEQ_ADD_SUB [OF frame_seq_range] by simp
  qed
  moreover have "sorted_wrt (<) (map ?g ds)"
    using io by (simp add: in_order_def sorted_wrt_map)
  moreover have "?g f < fst x" if "f \<in> set ds" "x \<in> set out" for f x
    using that io rest unfolding in_order_def numbered_def by fastforce
  moreover have "V \<le> fst x" if "x \<in> set out" for x
    using that rest s(1) unfolding numbered_def by fastforce
  ultimately show ?thesis
    using rest SEQ_SUB_range by (auto simp: numbered_def sorted_wrt_append comp_def)
qed

lemma passed_up_sent: "sent env env' ds fs \<Longrightarrow> passed_up env env' = ds"
  by (simp add: sent_def passed_up_def)

lemma rx_events_numbered:
  assumes "rap_ok (fst s)" "running (fst s)" "single_slots (fst s)" "calm_run age es s"
    and "V mod 4096 = rxa_start (fst s)"
  shows "\<exists>out. rx_events age es V s = Some out \<and> numbered V out"
  using assms
proof (induction es arbitrary: V s)
  case Nil
  then show ?case by (simp add: numbered_def)
next
  case (Cons e es)
  obtain rap env where s: "s = (rap, env)" by (cases s)
  have b: "0 \<le> rxa_start rap" "rxa_start rap < 4096" using Cons.prems(1) by (auto simp: s rap_ok_def)
  have V: "V mod 4096 = rxa_start rap" using Cons.prems(5) by (simp add: s)
  have move: "(V + adv) mod 4096 = SEQ_ADD (rxa_start rap) adv" for adv
    using V by (simp add: SEQ_ADD_def mod_simps flip: V)
  show ?case
  proof (cases e)
    case (RxFrame ticks m rxs)
    have p: "rxs = None" "calm ticks age rap" using Cons.prems(4) by (auto simp: s RxFrame)
    have np: "\<not> amsdu_partial rxs" by (simp add: p amsdu_partial_def ieee80211_check_rxseq_amsdu_def)
    obtain v s' where r: "reorder_session ticks age m rxs (rap, env) = Some (v, s')"
      "step_ok True True m (rap, env) v s'"
      using reorder_session_step [of rap True rxs True ticks age m env] Cons.prems(1-3) p np
      by (auto simp: s)
    obtain ds fs adv where d: "sent env (snd s') ds fs" "rap_ok (fst s')" "rxa_flags (fst s') = rxa_flags rap"
      "single_slots (fst s')" "0 \<le> adv" "adv \<le> 2111" "rxa_start (fst s') = SEQ_ADD (rxa_start rap) adv"
      "in_order True (rxa_start rap) adv (ds @ passed v m)"
      using r(2) unfolding step_ok_def by auto
    have a: "SEQ_SUB (rxa_start (fst s')) (rxa_start rap) = adv"
      unfolding d(7) using d(5,6) by (simp add: SEQ_SUB_ADD)
    have "\<exists>out. rx_events age es (V + adv) s' = Some out \<and> numbered (V + adv) out"
      by (rule Cons.IH) (use Cons.prems d move r in \<open>auto simp: s RxFrame running_def\<close>)
    then obtain out where "rx_events age es (V + adv) s' = Some out" "numbered (V + adv) out" by blast
    then show ?thesis
      using numbered_step [OF d(8) _ V d(5) b] r(1) a passed_up_sent [OF d(1)]
      by (simp add: s RxFrame)
  next
    case (RxBar wh)
    let ?s' = "recv_bar_session wh (rap, env)"
    have "bar_ok True (bar_seq wh) (rap, env) ?s'"
      by (rule recv_bar_session_step) (use Cons.prems in \<open>auto simp: s\<close>)
    then obtain ds adv where d: "sent env (snd ?s') ds []" "rap_ok (fst ?s')" "rxa_flags (fst ?s') = rxa_flags rap"
      "single_slots (fst ?s')" "0 \<le> adv" "adv \<le> 2111" "rxa_start (fst ?s') = SEQ_ADD (rxa_start rap) adv"
      "in_order True (rxa_start rap) adv ds"
      unfolding bar_ok_def by auto
    have a: "SEQ_SUB (rxa_start (fst ?s')) (rxa_start rap) = adv"
      unfolding d(7) using d(5,6) by (simp add: SEQ_SUB_ADD)
    have "\<exists>out. rx_events age es (V + adv) ?s' = Some out \<and> numbered (V + adv) out"
      by (rule Cons.IH) (use Cons.prems d move in \<open>auto simp: s RxBar running_def\<close>)
    then obtain out where "rx_events age es (V + adv) ?s' = Some out" "numbered (V + adv) out" by blast
    then show ?thesis
      using numbered_step [OF d(8) _ V d(5) b] a passed_up_sent [OF d(1)]
      by (simp add: s RxBar Let_def)
  qed
qed


section \<open>The life of a session\<close>

lemma rap_ok_fresh:
  assumes "rxa_mq rap = replicate 64 []" "rxa_qframes rap = 0" "rxa_qbytes rap = 0"
    "1 \<le> rxa_wnd rap" "rxa_wnd rap \<le> 64" "0 \<le> rxa_start rap" "rxa_start rap < 4096"
  shows "rap_ok rap \<and> single_slots rap"
  using assms by (simp add: rap_ok_def counted_def qb_ok_def single_slots_def)

lemma ampdu_rx_start_ok:
  assumes "ampdu_rx_start htc baparamset baseqctl s = (rap, env)"
  shows "rap_ok rap \<and> single_slots rap \<and> running rap"
proof -
  define bufsiz where "bufsiz = unat (drop_bit 6 (baparamset AND 0xffc0))"
  have r: "rxa_mq rap = replicate 64 []" "rxa_qframes rap = 0" "rxa_qbytes rap = 0"
    "rxa_wnd rap = (if bufsiz = 0 then 64 else min bufsiz 64)"
    "rxa_start rap = uint (drop_bit 4 (baseqctl AND 0xfff0))"
    "rxa_flags rap = 0x86 \<or> rxa_flags rap = 0x06"
    using assms
    by (auto simp: ampdu_rx_start_def Let_def ieee80211_ampdu_rx_init_rap_def bufsiz_def
        split: prod.splits if_splits)
  have "running rap" using r(6) by (auto simp: running_def)
  moreover have "1 \<le> rxa_wnd rap" "rxa_wnd rap \<le> 64" using r(4) by auto
  moreover have "0 \<le> rxa_start rap" "rxa_start rap < 4096"
    unfolding r(5) by (rule unsigned_greater_eq uint_drop_4)+
  ultimately show ?thesis using rap_ok_fresh [OF r(1-3)] by blast
qed

lemma age_session_ok:
  assumes "rap_ok rap" "age_session t a (rap, env) = (rap', env')"
  shows "rap_ok rap' \<and> rxa_flags rap' = rxa_flags rap"
proof -
  have c: "counted rap" "qb_ok rap" using assms(1) by (auto simp: rap_ok_def)
  have e: "rap_ok (emptied rap)" using assms(1)
    by (simp add: rap_ok_def emptied_def counted_def qb_ok_def)
  have fl: "fst (ampdu_rx_flush (rap, env1)) = emptied rap" for env1
    using ampdu_rx_flush_eq [OF c, of env1] by auto
  have "rap' = fst (age_session t a (rap, env))" using assms(2) by simp
  also have "\<dots> = rap \<or> \<dots> = emptied rap"
    by (simp add: age_session_def fl)
  finally show ?thesis using assms(1) e by (auto simp: emptied_def)
qed

text \<open>The states of a session: set up by an ADDBA request, then fed by the receive path.\<close>

inductive rx_reach :: "rx_st \<Rightarrow> bool" where
  start: "rx_reach (ampdu_rx_start htc baparamset baseqctl (rap, env))"
| frame: "rx_reach s \<Longrightarrow> reorder_session ticks age m rxs s = Some (v, s') \<Longrightarrow> rx_reach s'"
| bar: "rx_reach s \<Longrightarrow> rx_reach (recv_bar_session wh s)"
| age: "rx_reach s \<Longrightarrow> rx_reach (age_session ticks age s)"

lemma rx_reach_ok: "rx_reach s \<Longrightarrow> rap_ok (fst s) \<and> running (fst s)"
proof (induction rule: rx_reach.induct)
  case (start htc baparamset baseqctl rap env)
  then show ?case using ampdu_rx_start_ok by (metis surjective_pairing)
next
  case (frame s ticks age m rxs v s')
  obtain rap env where s: "s = (rap, env)" by (cases s)
  then have "step_ok False False m (rap, env) v s'"
    using reorder_session_step [of rap False rxs False ticks age m env] frame by auto
  then show ?case using frame.IH s by (auto simp: step_ok_def running_def)
next
  case (bar s wh)
  obtain rap env where s: "s = (rap, env)" by (cases s)
  then have "bar_ok False (bar_seq wh) (rap, env) (recv_bar_session wh (rap, env))"
    using recv_bar_session_step [of rap False wh env] bar by auto
  then show ?case using bar.IH s by (auto simp: bar_ok_def running_def)
next
  case (age s ticks age)
  obtain rap env where s: "s = (rap, env)" by (cases s)
  obtain rap' env' where r: "age_session ticks age s = (rap', env')" by (cases "age_session ticks age s")
  then show ?case using age_session_ok [of rap ticks age env rap' env'] age.IH s by (auto simp: running_def)
qed


section \<open>Properties\<close>

definition ex_env :: rx_env where
  "ex_env = \<lparr>up = [], freed = [], ni_stats = \<lparr>is_ampdu_rx_reorder = 0, is_rx_dup = 0,
     is_ampdu_rx_oor = 0, is_ampdu_rx_copy = 0, is_ampdu_rx_age = 0, is_ampdu_rx_move = 0,
     is_ampdu_rx_drop = 0, is_ampdu_bar_bad = 0, is_ampdu_bar_rx = 0, is_ampdu_bar_move = 0,
     is_ampdu_bar_oow = 0, ns_rx_dup = 0, ns_rx_drop = 0, ns_rx_amsdu_more = 0,
     ns_rx_amsdu_more_end = 0\<rparr>\<rparr>"

text \<open>A session of 32 slots that starts at sequence number 4094, and frames of it.\<close>

definition ex_rap :: rx_ampdu where
  "ex_rap = \<lparr>rxa_flags = 0x0006, rxa_qbytes = 0, rxa_qframes = 0, rxa_start = 4094, rxa_wnd = 32,
     rxa_age = 0, rxa_nframes = 0, rxa_mq = replicate 64 []\<rparr>"

definition ex_qos :: "u16 \<Rightarrow> mbuf" where
  "ex_qos seq = \<lparr>m_segs = [replicate 22 0 @ [lo8 (push_bit 4 seq), hi8 (push_bit 4 seq), 0, 0]], m_rxs = None, m_flags = 0\<rparr>"

lemma ex_rap_ok: "rap_ok ex_rap" "running ex_rap" "single_slots ex_rap"
  using rap_ok_fresh [of ex_rap] by (simp_all add: ex_rap_def running_def)

text \<open>
  C3. A received frame is accounted for: for every frame of a running session the function
  returns (its \<open>goto again\<close> ends), the invariant holds again, and the frames passed up, freed,
  still queued and left to the caller are together the queued frames and the new one.
\<close>

theorem rx_frame_accounted:
  assumes "rap_ok rap" "running rap"
  shows "\<exists>v rap' env' ds fs. reorder_session ticks age m rxs (rap, env) = Some (v, rap', env') \<and>
    up env' = up env @ ds \<and> freed env' = freed env @ fs \<and> rap_ok rap' \<and> running rap' \<and>
    mset ds + mset fs + mset (concat (rxa_mq rap')) + mset (passed v m) =
      mset (concat (rxa_mq rap)) + {#m#}"
proof -
  obtain v s' where r: "reorder_session ticks age m rxs (rap, env) = Some (v, s')"
    "step_ok False False m (rap, env) v s'"
    using reorder_session_step [OF assms, of False rxs False ticks age m env] by blast
  obtain rap' env' where s': "s' = (rap', env')" by (cases s')
  obtain ds fs where d: "sent env env' ds fs" "rap_ok rap'" "rxa_flags rap' = rxa_flags rap"
    "mset ds + mset fs + mset (concat (rxa_mq rap')) + mset (passed v m) =
       mset (concat (rxa_mq rap)) + {#m#}"
    using r(2) unfolding step_ok_def s' by auto
  have "running rap'" using assms(2) d(3) by (simp add: running_def)
  with d r(1) s' show ?thesis unfolding sent_def by blast
qed

theorem rx_frame_accounted_witness:
  "\<exists>v rap' env' ds fs. reorder_session 0 500 (ex_qos 0) None (ex_rap, ex_env) = Some (v, rap', env') \<and>
    up env' = [] @ ds \<and> freed env' = [] @ fs \<and> rap_ok rap' \<and> running rap' \<and>
    mset ds + mset fs + mset (concat (rxa_mq rap')) + mset (passed v (ex_qos 0)) = {#} + {#ex_qos 0#}"
  using rx_frame_accounted [OF ex_rap_ok(1,2), of 0 500 "ex_qos 0" None ex_env]
  by (simp add: ex_env_def ex_rap_def del: append_Nil)

text \<open>
  C2. In-order delivery without duplicates, as long as no queued frame reaches the age limit:
  over a run of frames that the driver passes one by one and of block ack requests in which
  the age limit never flushes the buffer (\<open>calm_run\<close>), the session terminates on every event
  and the frames it passes up have strictly increasing sequence numbers (counted without
  wrap-around from the window's start), so none is passed up twice. An age flush does break
  the order: what it passes up is the subject of \<open>rx_age_flush\<close>.
\<close>

theorem rx_in_order:
  assumes "rap_ok (fst s)" "running (fst s)" "single_slots (fst s)" "calm_run age es s"
    and "V mod 4096 = rxa_start (fst s)"
  shows "\<exists>out. rx_events age es V s = Some out \<and> sorted_wrt (<) (map fst out) \<and>
    (\<forall>x \<in> set out. V \<le> fst x \<and> fst x mod 4096 = frame_seq (snd x))"
  using rx_events_numbered [OF assms] unfolding numbered_def by fastforce

theorem rx_in_order_witness:
  "\<exists>out. rx_events 500 [RxFrame 0 (ex_qos 4095) None, RxBar (replicate 20 0)] 4094 (ex_rap, ex_env) =
      Some out \<and> sorted_wrt (<) (map fst out)"
proof -
  obtain v s' where r: "reorder_session 0 500 (ex_qos 4095) None (ex_rap, ex_env) = Some (v, s')"
    using reorder_session_step [OF ex_rap_ok(1,2), of False None False 0 500 "ex_qos 4095" ex_env] by auto
  have "calm_run 500 [RxFrame 0 (ex_qos 4095) None, RxBar (replicate 20 0)] (ex_rap, ex_env)"
    using r by (cases s') (simp add: calm_def ex_rap_def)
  moreover have "(4094 :: int) mod 4096 = rxa_start (fst (ex_rap, ex_env))" by (simp add: ex_rap_def)
  ultimately show ?thesis
    using rx_in_order [of "(ex_rap, ex_env)" 500 _ 4094] ex_rap_ok by fastforce
qed

text \<open>
  C38. A block ack request in range drains what it has to: afterwards the window starts at its
  sequence number or later, every frame passed up lay before the new window, in order, and
  no frame is lost.
\<close>

theorem rx_bar_drains:
  assumes "rap_ok rap" "running rap" "SEQ_SUB (bar_seq wh) (rxa_start rap) < 2048"
  shows "\<exists>rap' env' ds adv. recv_bar_session wh (rap, env) = (rap', env') \<and> rap_ok rap' \<and>
    up env' = up env @ ds \<and> freed env' = freed env \<and>
    rxa_start rap' = SEQ_ADD (rxa_start rap) adv \<and>
    SEQ_SUB (bar_seq wh) (rxa_start rap) \<le> adv \<and> adv \<le> 2111 \<and>
    (\<forall>f \<in> set ds. SEQ_SUB (frame_seq f) (rxa_start rap) < adv) \<and>
    sorted (map (\<lambda>f. SEQ_SUB (frame_seq f) (rxa_start rap)) ds) \<and>
    mset ds + mset (concat (rxa_mq rap')) = mset (concat (rxa_mq rap))"
proof -
  obtain rap' env' where r: "recv_bar_session wh (rap, env) = (rap', env')" by (metis surj_pair)
  have "bar_ok False (bar_seq wh) (rap, env) (rap', env')"
    using recv_bar_session_step [OF assms(1,2), of False wh env] r by simp
  then show ?thesis
    unfolding bar_ok_def r using assms(3) by (simp add: sent_def in_order_def) blast
qed

theorem rx_bar_drains_witness:
  "\<exists>rap' env' ds adv. recv_bar_session (replicate 20 0) (ex_rap, ex_env) = (rap', env') \<and> rap_ok rap' \<and>
    up env' = up ex_env @ ds \<and> rxa_start rap' = SEQ_ADD 4094 adv \<and> 2 \<le> adv"
proof -
  have b: "bar_seq (replicate 20 0) = 0" by (simp add: bar_seq_def le16_def)
  have d: "SEQ_SUB (bar_seq (replicate 20 0)) (rxa_start ex_rap) = 2"
    by (simp add: b ex_rap_def SEQ_SUB_def)
  have "SEQ_SUB (bar_seq (replicate 20 0)) (rxa_start ex_rap) < 2048" by (simp add: d)
  from rx_bar_drains [OF ex_rap_ok(1,2) this, of ex_env] show ?thesis
    unfolding d by (simp add: ex_rap_def) blast
qed

text \<open>
  C11. The bounds of a session: whatever frames, block ack requests and age limits it has seen
  since it was set up, the frame count is the number of queued frames and fits the \<open>short\<close>
  it is kept in, the window has 1 to 64 slots, the slot of the window's start is empty, and
  every queued frame sits in the slot of its sequence number.
\<close>

theorem rx_session_bounds:
  assumes "rx_reach s"
  shows "rxa_qframes (fst s) = int (length (concat (rxa_mq (fst s)))) \<and>
    0 \<le> rxa_qframes (fst s) \<and> rxa_qframes (fst s) < 2 ^ 15 \<and>
    1 \<le> rxa_wnd (fst s) \<and> rxa_wnd (fst s) \<le> 64 \<and> rxa_mq (fst s) ! 0 = [] \<and>
    (\<forall>j < 64. \<forall>m \<in> set (rxa_mq (fst s) ! j). SEQ_SUB (frame_seq m) (rxa_start (fst s)) = int j)"
proof -
  have ok: "rap_ok (fst s)" using rx_reach_ok [OF assms] by simp
  have "SEQ_SUB (frame_seq m) (rxa_start (fst s)) = int j"
    if "j < 64" "m \<in> set (rxa_mq (fst s) ! j)" for j m
  proof -
    have "frame_seq m = SEQ_ADD (rxa_start (fst s)) (int j)" using ok that unfolding rap_ok_def by blast
    then show ?thesis using that(1) by (simp add: SEQ_SUB_ADD)
  qed
  then show ?thesis
    using ok rap_ok_count [OF ok] by (auto simp: rap_ok_def counted_def)
qed

theorem rx_session_bounds_witness:
  "rxa_qframes (fst (ampdu_rx_start False 0x0800 0x0010 (ex_rap, ex_env))) < 2 ^ 15 \<and>
   rxa_wnd (fst (ampdu_rx_start False 0x0800 0x0010 (ex_rap, ex_env))) \<le> 64"
  using rx_session_bounds [OF rx_reach.start [where htc = False and baparamset = "0x0800" and baseqctl = "0x0010" and rap = ex_rap and env = ex_env]] by blast

text \<open>
  The end of a session leaves nothing behind: \<open>ampdu_rx_stop\<close> frees exactly the queued
  frames, and both ways of starting a session over a running one do the same before they set
  the session up anew, with an empty queue.
\<close>

theorem rx_session_ends:
  assumes ok: "rap_ok rap" and fl: "rxa_flags rap AND AGGR_RUNNING \<noteq> 0"
    and ext: "0 \<le> baw" "0 \<le> seq" "seq < 4096"
  shows "(\<exists>rap' env'. ampdu_rx_stop (rap, env) = (rap', env') \<and>
      freed env' = freed env @ concat (rxa_mq rap) \<and> up env' = up env \<and>
      concat (rxa_mq rap') = [] \<and> rxa_qframes rap' = 0 \<and> rxa_qbytes rap' = 0 \<and>
      rxa_flags rap' AND (AGGR_RUNNING OR AGGR_XCHGPEND) = 0) \<and>
    (\<exists>rap' env'. ampdu_rx_start htc baparamset baseqctl (rap, env) = (rap', env') \<and>
      freed env' = freed env @ concat (rxa_mq rap) \<and> up env' = up env \<and>
      concat (rxa_mq rap') = [] \<and> rap_ok rap') \<and>
    (\<exists>rap' env'. ieee80211_ampdu_rx_start_ext seq baw (rap, env) = (rap', env') \<and>
      freed env' = freed env @ concat (rxa_mq rap) \<and> up env' = up env \<and>
      concat (rxa_mq rap') = [] \<and> rap_ok rap' \<and> rxa_start rap' = seq)"
proof -
  have c: "counted rap" "qb_ok rap" using ok by (auto simp: rap_ok_def)
  obtain env1 where p: "ampdu_rx_purge (rap, env) = (emptied rap, env1)"
    "freed env1 = freed env @ concat (rxa_mq rap)" "up env1 = up env"
    using ampdu_rx_purge_eq [OF c] unfolding sent_def by auto
  have e: "concat (rxa_mq (emptied rap)) = []" by (simp add: emptied_def)
  have a: "w AND NOT (AGGR_RUNNING OR AGGR_XCHGPEND OR AGGR_WAITRX) AND (AGGR_RUNNING OR AGGR_XCHGPEND) = 0"
    for w :: u32
    by (rule bit_word_eqI) (auto simp: bit_simps)
  have 1: "\<exists>rap' env'. ampdu_rx_stop (rap, env) = (rap', env') \<and>
      freed env' = freed env @ concat (rxa_mq rap) \<and> up env' = up env \<and>
      concat (rxa_mq rap') = [] \<and> rxa_qframes rap' = 0 \<and> rxa_qbytes rap' = 0 \<and>
      rxa_flags rap' AND (AGGR_RUNNING OR AGGR_XCHGPEND) = 0"
    using p e a [of "rxa_flags rap"] by (auto simp: ampdu_rx_stop_def emptied_def and.assoc)
  obtain rap2 env2 where s: "ampdu_rx_start htc baparamset baseqctl (rap, env) = (rap2, env2)"
    by (metis surj_pair)
  have "env2 = env1" "rxa_mq rap2 = replicate 64 []"
    using s fl p(1) by (auto simp: ampdu_rx_start_def Let_def ieee80211_ampdu_rx_init_rap_def split: if_splits)
  then have 2: "\<exists>rap' env'. ampdu_rx_start htc baparamset baseqctl (rap, env) = (rap', env') \<and>
      freed env' = freed env @ concat (rxa_mq rap) \<and> up env' = up env \<and>
      concat (rxa_mq rap') = [] \<and> rap_ok rap'"
    using s p ampdu_rx_start_ok [OF s] by auto
  obtain rap3 env3 where x: "ieee80211_ampdu_rx_start_ext seq baw (rap, env) = (rap3, env3)"
    by (metis surj_pair)
  have r3: "env3 = env1" "rxa_mq rap3 = replicate 64 []" "rxa_qframes rap3 = 0" "rxa_qbytes rap3 = 0"
    "rxa_start rap3 = seq" "rxa_wnd rap3 = (if baw = 0 then 64 else nat (min baw 64))"
    using x fl p(1) ext
    by (auto simp: ieee80211_ampdu_rx_start_ext_def Let_def ieee80211_ampdu_rx_init_rap_def min_def
        split: if_splits)
  have "rap_ok rap3" using rap_ok_fresh [OF r3(2-4)] r3(5,6) ext by (auto split: if_splits)
  then show ?thesis using 1 2 x r3 p by auto
qed

theorem rx_session_ends_witness:
  "\<exists>rap' env'. ampdu_rx_stop (ex_rap, ex_env) = (rap', env') \<and>
    freed env' = freed ex_env @ concat (rxa_mq ex_rap) \<and> concat (rxa_mq rap') = []"
proof -
  have "rxa_flags ex_rap AND AGGR_RUNNING \<noteq> 0" by (simp add: ex_rap_def)
  with rx_session_ends [OF ex_rap_ok(1), of 0 0 ex_env] show ?thesis by fastforce
qed

text \<open>
  The common case: a plain frame inside the window whose slot is free is stored in that
  slot and nothing else changes; if the slot is taken the frame is freed as a duplicate.
\<close>

theorem rx_in_window:
  assumes ok: "rap_ok rap" "calm ticks age rap" "rxa_qframes rap \<noteq> 0"
    and off: "off = SEQ_SUB (frame_seq m) (rxa_start rap)" "0 < off" "off < int (rxa_wnd rap)"
  shows "\<exists>env'. reorder_again ticks age m None (frame_seq m) (rap, env) = Some (CONSUMED,
      if rxa_mq rap ! nat off = [] then
        (rap\<lparr>rxa_mq := (rxa_mq rap)[nat off := [m]], rxa_qframes := rxa_qframes rap + 1,
             rxa_qbytes := rxa_qbytes rap + m_len m\<rparr>, env')
      else (rap, env')) \<and>
    up env' = up env \<and>
    freed env' = freed env @ (if rxa_mq rap ! nat off = [] then [] else [m])"
proof -
  have "frame_seq m \<noteq> rxa_start rap" using off by (auto simp: SEQ_SUB_eq)
  then show ?thesis
    using assms by (subst reorder_again.simps)
      (simp add: calm_def ampdu_rx_add_slot_def Let_def ieee80211_check_rxseq_amsdu_def rxstat_def)
qed

definition ex_rap2 :: rx_ampdu where
  "ex_rap2 = ex_rap\<lparr>rxa_mq := (replicate 64 [])[1 := [ex_qos 4095]], rxa_qframes := 1, rxa_qbytes := 26\<rparr>"

lemma ex_qos_seq: "frame_seq (ex_qos 4095) = 4095" "frame_seq (ex_qos 0) = 0" "m_len (ex_qos n) = 26"
  by (simp_all add: frame_seq_def i_seq_def ex_qos_def nth_append le16_lo8_hi8 pktlen_def)

lemma ex_rap2_ok: "rap_ok ex_rap2"
proof -
  have mq: "rxa_mq ex_rap2 ! j = (if j = 1 then [ex_qos 4095] else [])" if "j < 64" for j
    using that by (simp add: ex_rap2_def nth_list_update)
  have c: "concat (rxa_mq ex_rap2) = [ex_qos 4095]"
    by (simp add: ex_rap2_def upd_conv_take_nth_drop)
  have "counted ex_rap2" unfolding counted_def c using mq by (simp add: ex_rap2_def ex_rap_def)
  moreover have "qb_ok ex_rap2" unfolding qb_ok_def c by (simp add: ex_rap2_def ex_qos_seq)
  moreover have "rxa_start ex_rap2 = 4094" "rxa_wnd ex_rap2 = 32" by (simp_all add: ex_rap2_def ex_rap_def)
  ultimately show ?thesis using mq by (simp add: rap_ok_def ex_qos_seq SEQ_ADD_def)
qed

theorem rx_in_window_witness:
  "\<exists>env'. reorder_again 0 500 (ex_qos 0) None 0 (ex_rap2, ex_env) =
    Some (CONSUMED, ex_rap2\<lparr>rxa_mq := (rxa_mq ex_rap2)[2 := [ex_qos 0]],
      rxa_qframes := 2, rxa_qbytes := 52\<rparr>, env')"
proof -
  have f: "calm 0 500 ex_rap2" "rxa_qframes ex_rap2 = 1" "rxa_qbytes ex_rap2 = 26"
    "SEQ_SUB 0 (rxa_start ex_rap2) = 2" "2 < int (rxa_wnd ex_rap2)" "rxa_mq ex_rap2 ! 2 = []"
    by (simp_all add: calm_def rx_aged_def ex_rap2_def ex_rap_def SEQ_SUB_def word_sless_alt)
  from rx_in_window [OF ex_rap2_ok f(1), of 2 "ex_qos 0" ex_env] f show ?thesis
    by (auto simp: ex_qos_seq)
qed


text \<open>
  C39. Ageing trades order for progress: when the oldest queued frame has been waiting for too
  long, an in-window frame makes the session pass up everything queued, also the frames that
  come after it, before it is processed itself, and the window restarts right behind it.
\<close>

theorem rx_age_flush:
  assumes ok: "rap_ok rap" and aged: "rxa_qframes rap \<noteq> 0" "rx_aged ticks age rap"
    and off: "off = SEQ_SUB (frame_seq m) (rxa_start rap)" "0 < off" "off < int (rxa_wnd rap)"
  shows "\<exists>rap' env'. reorder_again ticks age m None (frame_seq m) (rap, env) = Some (PROCESS, rap', env') \<and>
    up env' = up env @ concat (rxa_mq rap) \<and> freed env' = freed env \<and>
    concat (rxa_mq rap') = [] \<and> rxa_qframes rap' = 0 \<and>
    rxa_start rap' = SEQ_ADD (rxa_start rap) (off + 1)"
proof -
  have ne: "frame_seq m \<noteq> rxa_start rap" using off by (auto simp: SEQ_SUB_eq)
  have c: "counted rap" "qb_ok rap" using ok by (auto simp: rap_ok_def)
  let ?env = "rxstat (\<lambda>t. t\<lparr>is_ampdu_rx_age := is_ampdu_rx_age t + word_of_int (rxa_qframes rap)\<rparr>) env"
  obtain env1 where f: "ampdu_rx_flush (rap, ?env) = (emptied rap, env1)"
    "sent ?env env1 (concat (rxa_mq rap)) []"
    using ampdu_rx_flush_eq [OF c] by blast
  have "SEQ_INC (frame_seq m) = SEQ_ADD (rxa_start rap) (off + 1)"
    using SEQ_INC_SUB [OF frame_seq_range, of m "rxa_start rap"] by (simp add: off(1))
  moreover have "reorder_again ticks age m None (frame_seq m) (rap, env) =
      Some (PROCESS, emptied rap\<lparr>rxa_start := SEQ_INC (frame_seq m)\<rparr>, env1)"
    using ne aged off f(1)
    by (subst reorder_again.simps) (simp add: process_in_order_def ieee80211_check_rxseq_amsdu_def)
  ultimately show ?thesis
    using f(2) by (simp add: emptied_def sent_def rxstat_def)
qed

theorem rx_age_flush_witness:
  "\<exists>rap' env'. reorder_again 1000 500 (ex_qos 0) None (frame_seq (ex_qos 0)) (ex_rap2, ex_env) =
      Some (PROCESS, rap', env') \<and> up env' = up ex_env @ concat (rxa_mq ex_rap2) \<and>
    rxa_start rap' = SEQ_ADD (rxa_start ex_rap2) (2 + 1)"
proof -
  have "rxa_qframes ex_rap2 \<noteq> 0" "rx_aged 1000 500 ex_rap2"
    "2 = SEQ_SUB (frame_seq (ex_qos 0)) (rxa_start ex_rap2)" "2 < int (rxa_wnd ex_rap2)"
    by (simp_all add: rx_aged_def ex_rap2_def ex_rap_def SEQ_SUB_def word_sless_alt ex_qos_seq)
  from rx_age_flush [OF ex_rap2_ok this(1,2,3) _ this(4), of ex_env] show ?thesis by auto
qed

end
