(* ===== verification/Errno.thy ===== *)
theory Errno
  imports Prelude
begin

text \<open>
  The error numbers the modelled operations return, as values: \<open>None\<close> is the 0 of success;
  and the comparison of tick counts (freebsd/sys/net80211/ieee80211_freebsd.h).
\<close>

datatype errno = ENOENT | ENOMEM | EEXIST | EINVAL | ENOSPC | EFAULT

type_synonym status = "errno option"

abbreviation OK :: status where "OK \<equiv> None"

definition ieee80211_time_after :: "u32 \<Rightarrow> u32 \<Rightarrow> bool" where
  "ieee80211_time_after a b \<longleftrightarrow> sint (b - a) < 0"

end
