(* ===== verification/Acl.thy ===== *)
theory Acl
  imports Errno Net80211
begin

text \<open>
  The MAC address access lists of an access point (freebsd/sys/net80211/ieee80211_acl.c): a
  queue of all entries in the order they were added and a hash table of 32 chains over the
  same entries. Both are kept as lists of addresses; an entry is one object that is on the
  queue and on one chain, and freeing it takes it off both. The abstract view is the policy
  and the list of addresses alone.
\<close>

section \<open>State\<close>

definition ACL_POLICY_OPEN :: int where "ACL_POLICY_OPEN = 0"
definition ACL_POLICY_ALLOW :: int where "ACL_POLICY_ALLOW = 1"
definition ACL_POLICY_DENY :: int where "ACL_POLICY_DENY = 2"
definition ACL_POLICY_RADIUS :: int where "ACL_POLICY_RADIUS = 7"

lemmas acl_policies = ACL_POLICY_OPEN_def ACL_POLICY_ALLOW_def ACL_POLICY_DENY_def ACL_POLICY_RADIUS_def

definition ACL_HASHSIZE :: nat where "ACL_HASHSIZE = 32"

record aclstate =
  as_policy :: int
  as_nacls :: u32
  as_list :: "macaddr list"
  as_hash :: "macaddr list list"

definition ACL_HASH :: "macaddr \<Rightarrow> nat" where
  "ACL_HASH addr = unat (addr ! 5) mod ACL_HASHSIZE"

section \<open>Operations\<close>

text \<open>\<open>mem\<close>: the allocation succeeds. The count of attached vaps is \<open>nrefs\<close>.\<close>

definition acl_attach :: "bool \<Rightarrow> int \<Rightarrow> aclstate option \<times> int" where
  "acl_attach mem nrefs =
     (if \<not> mem then (None, nrefs)
      else (Some \<lparr>as_policy = ACL_POLICY_OPEN, as_nacls = 0, as_list = [],
                  as_hash = replicate ACL_HASHSIZE []\<rparr>, nrefs + 1))"

definition find_acl :: "aclstate \<Rightarrow> macaddr \<Rightarrow> macaddr option" where
  "find_acl as mac = List.find (\<lambda>acl. IEEE80211_ADDR_EQ acl mac) (as_hash as ! ACL_HASH mac)"

definition acl_free :: "aclstate \<Rightarrow> macaddr \<Rightarrow> aclstate" where
  "acl_free as acl = as\<lparr>as_list := remove1 acl (as_list as),
     as_hash := map (remove1 acl) (as_hash as), as_nacls := as_nacls as - 1\<rparr>"

definition acl_check :: "aclstate \<Rightarrow> u8 list \<Rightarrow> bool" where
  "acl_check as wh =
     (if as_policy as = ACL_POLICY_OPEN \<or> as_policy as = ACL_POLICY_RADIUS then True
      else if as_policy as = ACL_POLICY_ALLOW then find_acl as (i_addr2 wh) \<noteq> None
      else if as_policy as = ACL_POLICY_DENY then find_acl as (i_addr2 wh) = None
      else False)"

definition acl_add :: "bool \<Rightarrow> macaddr \<Rightarrow> aclstate \<Rightarrow> status \<times> aclstate" where
  "acl_add mem mac as =
     (if \<not> mem then (Some ENOMEM, as)
      else
        let hash = ACL_HASH mac in
        if \<exists>acl \<in> set (as_hash as ! hash). IEEE80211_ADDR_EQ acl mac then (Some EEXIST, as)
        else (OK, as\<lparr>as_list := as_list as @ [take 6 mac],
                     as_hash := (as_hash as)[hash := take 6 mac # (as_hash as ! hash)],
                     as_nacls := as_nacls as + 1\<rparr>))"

definition acl_remove :: "macaddr \<Rightarrow> aclstate \<Rightarrow> status \<times> aclstate" where
  "acl_remove mac as =
     (case find_acl as mac of None \<Rightarrow> (Some ENOENT, as) | Some acl \<Rightarrow> (OK, acl_free as acl))"

text \<open>\<open>acl_free_all\<close> frees the first entry of the queue until there is none.\<close>

function acl_free_all :: "aclstate \<Rightarrow> aclstate" where
  "acl_free_all as = (case as_list as of [] \<Rightarrow> as | acl # _ \<Rightarrow> acl_free_all (acl_free as acl))"
  by pat_completeness auto
termination
  by (relation "measure (length \<circ> as_list)") (auto simp: acl_free_def)

declare acl_free_all.simps [simp del]

definition acl_detach :: "aclstate \<Rightarrow> int \<Rightarrow> aclstate option \<times> int" where
  "acl_detach as nrefs = (let nrefs = nrefs - 1; as = acl_free_all as in (None, nrefs))"

text \<open>The policies of the ioctl interface have the numbers of the module's own.\<close>

definition acl_setpolicy :: "int \<Rightarrow> aclstate \<Rightarrow> status \<times> aclstate" where
  "acl_setpolicy policy as =
     (if policy = 0 then (OK, as\<lparr>as_policy := ACL_POLICY_OPEN\<rparr>)
      else if policy = 1 then (OK, as\<lparr>as_policy := ACL_POLICY_ALLOW\<rparr>)
      else if policy = 2 then (OK, as\<lparr>as_policy := ACL_POLICY_DENY\<rparr>)
      else if policy = 7 then (OK, as\<lparr>as_policy := ACL_POLICY_RADIUS\<rparr>)
      else (Some EINVAL, as))"

definition acl_getpolicy :: "aclstate \<Rightarrow> int" where
  "acl_getpolicy as = as_policy as"

text \<open>
  \<open>acl_getioctl\<close>: \<open>i_val\<close> asks for the policy (5) or the list (6); \<open>i_len\<close> is 16 bits wide.
  \<open>copyout\<close> is the kernel's: for the bytes it is to copy it answers its error and the bytes that
  reached the caller's buffer. The result is the status, the new \<open>i_val\<close> and \<open>i_len\<close>, and
  the bytes in the caller's buffer; \<open>i_len\<close> is set to the size of the list whether or not
  the copy failed.
\<close>

definition acl_getioctl ::
  "bool \<Rightarrow> (u8 list \<Rightarrow> status \<times> u8 list) \<Rightarrow> int \<Rightarrow> u16 \<Rightarrow> aclstate \<Rightarrow> status \<times> int \<times> u16 \<times> u8 list" where
  "acl_getioctl mem copyout i_val i_len as =
     (if i_val = 5 then (OK, as_policy as, i_len, [])
      else if i_val = 6 then
        let space = as_nacls as * 6 in
        if i_len = 0 then (OK, i_val, ucast space, [])
        else if \<not> mem then (Some ENOMEM, i_val, i_len, [])
        else
          let ap = concat (as_list as)
          in if ucast i_len \<ge> space then
               (case copyout (take (unat space) ap) of (error, out) \<Rightarrow> (error, i_val, ucast space, out))
             else
               (case copyout (take (unat i_len) ap) of (error, out) \<Rightarrow> (error, i_val, i_len, out))
      else (Some EINVAL, i_val, i_len, []))"

end
