(* ===== verification/Refine.thy ===== *)
theory Refine
  imports Main
begin

text \<open>
  The contract between a data structure and its abstract view: every operation, applied to
  a state that satisfies the invariant, keeps the invariant and answers what the abstract
  operation answers. The runs of a sequence of operations then agree.
\<close>

fun run_ops :: "('o \<Rightarrow> 's \<Rightarrow> 'r \<times> 's) \<Rightarrow> 'o list \<Rightarrow> 's \<Rightarrow> 'r list \<times> 's" where
  "run_ops exec [] s = ([], s)"
| "run_ops exec (c # cs) s =
     (case exec c s of (r, s) \<Rightarrow> case run_ops exec cs s of (rs, s) \<Rightarrow> (r # rs, s))"

text \<open>
  What the caller has to respect, \<open>okay c a\<close>, may depend on the abstract state; \<open>ops_ok\<close> says
  that it is respected all along a run.
\<close>

fun ops_ok :: "('o \<Rightarrow> 'a \<Rightarrow> 'r \<times> 'a) \<Rightarrow> ('o \<Rightarrow> 'a \<Rightarrow> bool) \<Rightarrow> 'o list \<Rightarrow> 'a \<Rightarrow> bool" where
  "ops_ok spec okay [] a \<longleftrightarrow> True"
| "ops_ok spec okay (c # cs) a \<longleftrightarrow> okay c a \<and> ops_ok spec okay cs (snd (spec c a))"

lemma ops_ok_all: "ops_ok spec (\<lambda>c a. okay c) cs a \<longleftrightarrow> (\<forall>c \<in> set cs. okay c)"
  by (induction cs arbitrary: a) auto

locale data_refinement =
  fixes exec :: "'o \<Rightarrow> 's \<Rightarrow> 'r \<times> 's"
    and spec :: "'o \<Rightarrow> 'a \<Rightarrow> 'r \<times> 'a"
    and abst :: "'s \<Rightarrow> 'a"
    and inv :: "'s \<Rightarrow> bool"
    and okay :: "'o \<Rightarrow> 'a \<Rightarrow> bool"
  assumes exec_inv: "inv s \<Longrightarrow> okay c (abst s) \<Longrightarrow> inv (snd (exec c s))"
    and exec_spec: "inv s \<Longrightarrow> okay c (abst s) \<Longrightarrow>
      spec c (abst s) = (fst (exec c s), abst (snd (exec c s)))"
begin

lemma run_refines:
  "inv s \<Longrightarrow> ops_ok spec okay cs (abst s) \<Longrightarrow> inv (snd (run_ops exec cs s)) \<and>
   run_ops spec cs (abst s) = (fst (run_ops exec cs s), abst (snd (run_ops exec cs s)))"
proof (induction cs arbitrary: s)
  case (Cons c cs)
  then show ?case using exec_inv [of s c] exec_spec [of s c] by (simp add: split_beta)
qed simp

end

end
