(* ===== verification/AclProps.thy ===== *)
theory AclProps
  imports Acl Refine
begin

text \<open>
  The access list refines its abstract view, the policy with the list of addresses: queue,
  chains and counter never disagree, and every operation answers what a search through the
  list would answer.
\<close>

section \<open>The operations as commands\<close>

datatype acl_op = Add bool macaddr | Remove macaddr | Flush | SetPolicy int | GetPolicy
  | Check "u8 list" | GetIoctl bool "u8 list \<Rightarrow> status \<times> u8 list" int u16

datatype acl_res = Status status | Policy int | Verdict bool | Ioctl status int u16 "u8 list"

fun acl_exec :: "acl_op \<Rightarrow> aclstate \<Rightarrow> acl_res \<times> aclstate" where
  "acl_exec (Add mem mac) as = (case acl_add mem mac as of (r, as) \<Rightarrow> (Status r, as))"
| "acl_exec (Remove mac) as = (case acl_remove mac as of (r, as) \<Rightarrow> (Status r, as))"
| "acl_exec Flush as = (Status OK, acl_free_all as)"
| "acl_exec (SetPolicy p) as = (case acl_setpolicy p as of (r, as) \<Rightarrow> (Status r, as))"
| "acl_exec GetPolicy as = (Policy (acl_getpolicy as), as)"
| "acl_exec (Check wh) as = (Verdict (acl_check as wh), as)"
| "acl_exec (GetIoctl mem co v n) as = (case acl_getioctl mem co v n as of (r, v, n, bs) \<Rightarrow> Ioctl r v n bs, as)"

section \<open>The abstract view\<close>

fun allowed :: "int \<Rightarrow> macaddr list \<Rightarrow> macaddr \<Rightarrow> bool" where
  "allowed p l a \<longleftrightarrow> p = 0 \<or> p = 7 \<or> p = 1 \<and> a \<in> set l \<or> p = 2 \<and> a \<notin> set l"

fun acl_spec :: "acl_op \<Rightarrow> int \<times> macaddr list \<Rightarrow> acl_res \<times> int \<times> macaddr list" where
  "acl_spec (Add mem mac) (p, l) =
     (if \<not> mem then (Status (Some ENOMEM), p, l)
      else if mac \<in> set l then (Status (Some EEXIST), p, l) else (Status OK, p, l @ [mac]))"
| "acl_spec (Remove mac) (p, l) =
     (if mac \<in> set l then (Status OK, p, filter (\<lambda>a. a \<noteq> mac) l) else (Status (Some ENOENT), p, l))"
| "acl_spec Flush (p, l) = (Status OK, p, [])"
| "acl_spec (SetPolicy q) (p, l) =
     (if q \<in> {0, 1, 2, 7} then (Status OK, q, l) else (Status (Some EINVAL), p, l))"
| "acl_spec GetPolicy (p, l) = (Policy p, p, l)"
| "acl_spec (Check wh) (p, l) = (Verdict (allowed p l (i_addr2 wh)), p, l)"
| "acl_spec (GetIoctl mem co v n) (p, l) =
     (if v = 5 then Ioctl OK p n []
      else if v = 6 then
        let space = word_of_nat (6 * length l) :: u32 in
        if n = 0 then Ioctl OK v (ucast space) []
        else if \<not> mem then Ioctl (Some ENOMEM) v n []
        else
          let m = if ucast n \<ge> space then ucast space else n
          in case co (take (if ucast n \<ge> space then unat space else unat n) (concat l)) of
               (error, out) \<Rightarrow> Ioctl error v m out
      else Ioctl (Some EINVAL) v n [], p, l)"

definition acl_abs :: "aclstate \<Rightarrow> int \<times> macaddr list" where
  "acl_abs as = (as_policy as, as_list as)"

text \<open>Every entry is on the queue once and on the chain of its address once.\<close>

definition acl_inv :: "aclstate \<Rightarrow> bool" where
  "acl_inv as \<longleftrightarrow> distinct (as_list as) \<and> (\<forall>a \<in> set (as_list as). length a = 6) \<and>
     length (as_hash as) = 32 \<and> as_nacls as = word_of_nat (length (as_list as)) \<and>
     as_policy as \<in> {0, 1, 2, 7} \<and>
     (\<forall>h < 32. distinct (as_hash as ! h) \<and>
        set (as_hash as ! h) = {a \<in> set (as_list as). ACL_HASH a = h})"

definition acl_okay :: "acl_op \<Rightarrow> bool" where
  "acl_okay c = (case c of Add mem mac \<Rightarrow> length mac = 6 | Remove mac \<Rightarrow> length mac = 6
     | Check wh \<Rightarrow> 16 \<le> length wh | _ \<Rightarrow> True)"

section \<open>The chains and the queue agree\<close>

lemma ACL_HASH_less: "ACL_HASH a < 32"
  by (simp add: ACL_HASH_def ACL_HASHSIZE_def)

lemma chain_mem:
  assumes "acl_inv as" "length a = 6" "x \<in> set (as_hash as ! ACL_HASH a)"
  shows "IEEE80211_ADDR_EQ x a \<longleftrightarrow> x = a"
proof -
  have "length x = 6" using assms(1,3) ACL_HASH_less [of a] by (auto simp: acl_inv_def)
  with assms(2) show ?thesis by (simp add: IEEE80211_ADDR_EQ_def)
qed

lemma find_acl_mem:
  assumes "acl_inv as" "length a = 6"
  shows "find_acl as a = (if a \<in> set (as_list as) then Some a else None)"
proof -
  have m: "a \<in> set (as_hash as ! ACL_HASH a) \<longleftrightarrow> a \<in> set (as_list as)"
    using assms(1) ACL_HASH_less [of a] by (auto simp: acl_inv_def)
  note eq = chain_mem [OF assms]
  have "List.find (\<lambda>x. IEEE80211_ADDR_EQ x a) xs = (if a \<in> set xs then Some a else None)"
    if "set xs \<subseteq> set (as_hash as ! ACL_HASH a)" for xs
    using that eq by (induction xs) auto
  from this [OF order.refl] show ?thesis by (simp add: find_acl_def m)
qed

lemma acl_free_inv:
  assumes "acl_inv as" "a \<in> set (as_list as)"
  shows "acl_inv (acl_free as a)"
proof -
  have "word_of_nat (length (as_list as)) - 1 = (word_of_nat (length (as_list as) - 1) :: u32)"
    using assms(2) by (cases "as_list as") simp_all
  then show ?thesis using assms by (auto simp: acl_inv_def acl_free_def length_remove1)
qed

lemma acl_add_inv:
  assumes "acl_inv as" "length a = 6" "a \<notin> set (as_list as)"
  shows "acl_inv (as\<lparr>as_list := as_list as @ [a],
     as_hash := (as_hash as)[ACL_HASH a := a # (as_hash as ! ACL_HASH a)], as_nacls := as_nacls as + 1\<rparr>)"
  using assms ACL_HASH_less [of a] by (auto simp: acl_inv_def nth_list_update)

lemma acl_free_all_result:
  "acl_inv as \<Longrightarrow> acl_inv (acl_free_all as) \<and> as_list (acl_free_all as) = [] \<and>
   as_policy (acl_free_all as) = as_policy as"
proof (induction as rule: acl_free_all.induct)
  case (1 as)
  show ?case
  proof (cases "as_list as")
    case Nil
    then show ?thesis using 1(2) by (simp add: acl_free_all.simps [of as])
  next
    case (Cons a l)
    have "acl_inv (acl_free as a)" by (rule acl_free_inv [OF 1(2)]) (simp add: Cons)
    from 1(1) [OF Cons this] show ?thesis
      by (simp add: acl_free_all.simps [of as] Cons) (simp add: acl_free_def)
  qed
qed

lemma acl_add_exec:
  assumes "acl_inv as" "length a = 6"
  shows "acl_add mem a as =
    (if \<not> mem then (Some ENOMEM, as) else if a \<in> set (as_list as) then (Some EEXIST, as)
     else (OK, as\<lparr>as_list := as_list as @ [a],
        as_hash := (as_hash as)[ACL_HASH a := a # (as_hash as ! ACL_HASH a)], as_nacls := as_nacls as + 1\<rparr>))"
proof -
  have "(\<exists>x \<in> set (as_hash as ! ACL_HASH a). IEEE80211_ADDR_EQ x a) \<longleftrightarrow> a \<in> set (as_hash as ! ACL_HASH a)"
    using chain_mem [OF assms] by blast
  also have "\<dots> \<longleftrightarrow> a \<in> set (as_list as)"
    using assms(1) ACL_HASH_less [of a] by (auto simp: acl_inv_def)
  finally show ?thesis using assms(2) by (simp add: acl_add_def Let_def)
qed

interpretation acl_ref: data_refinement acl_exec acl_spec acl_abs acl_inv "\<lambda>c a. acl_okay c"
proof unfold_locales
  fix as c assume i: "acl_inv as" and o: "acl_okay c"
  have "acl_inv (snd (acl_exec c as)) \<and>
      acl_spec c (acl_abs as) = (fst (acl_exec c as), acl_abs (snd (acl_exec c as)))"
  proof (cases c)
    case (Add mem a)
    then have "length a = 6" using o by (simp add: acl_okay_def)
    then show ?thesis using i acl_add_inv [OF i, of a]
      by (simp add: Add acl_add_exec acl_abs_def)
  next
    case (Remove a)
    then have l: "length a = 6" using o by (simp add: acl_okay_def)
    have "remove1 a (as_list as) = filter (\<lambda>x. x \<noteq> a) (as_list as)"
      using i by (auto simp: acl_inv_def distinct_remove1_removeAll removeAll_filter_not_eq intro: filter_cong)
    then show ?thesis using i l acl_free_inv [OF i, of a]
      by (auto simp: Remove acl_remove_def find_acl_mem acl_abs_def) (simp_all add: acl_free_def)
  next
    case Flush
    then show ?thesis using acl_free_all_result [OF i] by (simp add: acl_abs_def)
  next
    case (SetPolicy q)
    have "acl_inv (as\<lparr>as_policy := p\<rparr>)" if "p \<in> {0, 1, 2, 7}" for p
      using i that unfolding acl_inv_def by simp
    then show ?thesis using i by (auto simp: SetPolicy acl_setpolicy_def acl_policies acl_abs_def)
  next
    case (Check wh)
    then have "length (i_addr2 wh) = 6" using o by (simp add: acl_okay_def i_addr2_def)
    then show ?thesis using i
      by (auto simp: Check acl_check_def acl_policies find_acl_mem acl_abs_def)
  next
    case (GetIoctl mem co v n)
    have "as_nacls as * 6 = word_of_nat (6 * length (as_list as))"
      using i by (simp add: acl_inv_def mult.commute)
    then show ?thesis using i by (simp add: GetIoctl acl_getioctl_def acl_abs_def Let_def split: prod.splits)
  qed (use i in \<open>simp_all add: acl_getpolicy_def acl_abs_def\<close>)
  then show "acl_inv (snd (acl_exec c as))"
    "acl_spec c (acl_abs as) = (fst (acl_exec c as), acl_abs (snd (acl_exec c as)))" by blast+
qed

section \<open>Properties\<close>

lemma acl_attach_inv: "acl_attach mem nrefs = (Some as, nrefs') \<Longrightarrow> acl_inv as \<and> acl_abs as = (0, [])"
  by (auto simp: acl_attach_def acl_inv_def acl_abs_def acl_policies ACL_HASHSIZE_def split: if_splits)

text \<open>
  C16. From the moment it is attached an access list answers every sequence of requests,
  additions, removals, checks, policy changes, listings, exactly as the list of addresses
  with its policy does: an address is admitted under the allow policy if and only if it was
  added and not removed since, refused under the deny policy if and only if so, duplicates
  and unknown addresses are reported, and the listing hands the entries in the order they
  came, cut to the caller's length, to the copy to the caller and answers that copy's error.
\<close>

theorem acl_refines:
  assumes "acl_attach mem nrefs = (Some as, nrefs')" "\<forall>c \<in> set cs. acl_okay c"
  shows "fst (run_ops acl_exec cs as) = fst (run_ops acl_spec cs (0, []))"
  using acl_ref.run_refines [of as cs] acl_attach_inv [OF assms(1)] assms(2) by (simp add: ops_ok_all)

theorem acl_refines_witness:
  "let a = [2, 0, 0, 0, 0, 1]; b = [2, 0, 0, 0, 0, 33]; wh = (\<lambda>m. replicate 10 0 @ m) in
   fst (run_ops acl_exec [Add True a, Add True b, Add True a, SetPolicy 1, Check (wh a), Remove a, Check (wh a),
       Check (wh b), GetIoctl True (Pair OK) 6 100,
       GetIoctl True (\<lambda>bs. (Some EFAULT, take 4 bs)) 6 100] (the (fst (acl_attach True 0)))) =
     [Status OK, Status OK, Status (Some EEXIST), Status OK, Verdict True, Status OK, Verdict False,
      Verdict True, Ioctl OK 6 6 b, Ioctl (Some EFAULT) 6 6 (take 4 b)]"
proof -
  have at: "acl_attach True 0 = (Some (the (fst (acl_attach True 0))), 1)" by (simp add: acl_attach_def)
  show ?thesis unfolding Let_def
    by (subst acl_refines [OF at]) (simp_all add: acl_okay_def i_addr2_def)
qed

text \<open>
  \<open>i_len\<close> has 16 bits: asked for the size of a list of 10923 entries the module answers 2.
\<close>

lemma acl_list_size_wraps:
  assumes "acl_inv as" "length (as_list as) = 10923"
  shows "acl_getioctl mem copyout 6 0 as = (OK, 6, 2, [])"
  using assms by (simp add: acl_getioctl_def acl_inv_def)

end
