(* ===== verification/Ageq.thy ===== *)
theory Ageq
  imports Errno
begin

text \<open>
  The age queue of frames waiting to be sent (freebsd/sys/net80211/ieee80211_ageq.c), with its
  pointers: frames are addresses, \<open>m_next\<close> is the store of their \<open>m_nextpkt\<close> fields, and the
  operations walk it with pointers to links (\<open>prev\<close>, \<open>phead\<close>) as the code does. A loop that
  would run on a cyclic store for ever is \<open>None\<close>, and so is the computation of a tail pointer
  from a link that is not in a frame.
\<close>

section \<open>State\<close>

text \<open>
  \<open>m_age\<close> is the field of the packet header that holds the age, 32 bits wide and unsigned.
  \<open>freed\<close> and \<open>nodes_freed\<close> record the frames given to \<open>m_freem\<close> and the node references given
  up.
\<close>

record ageq_st =
  aq_head :: "nat option"
  aq_tail :: "nat option"
  aq_len :: int
  aq_maxlen :: int
  aq_drops :: int
  m_next :: "nat \<Rightarrow> nat option"
  m_age :: "nat \<Rightarrow> u32"
  m_rcvif :: "nat \<Rightarrow> nat"
  m_encap :: "nat \<Rightarrow> bool"
  freed :: "nat list"
  nodes_freed :: "nat list"

text \<open>The places a link can be: the queue's head, a frame, or the local variable \<open>head\<close>.\<close>

datatype link = Head | Next nat | Local

definition load :: "link \<Rightarrow> nat option \<Rightarrow> ageq_st \<Rightarrow> nat option" where
  "load l head s = (case l of Head \<Rightarrow> aq_head s | Next p \<Rightarrow> m_next s p | Local \<Rightarrow> head)"

definition store :: "link \<Rightarrow> nat option \<Rightarrow> nat option \<times> ageq_st \<Rightarrow> nat option \<times> ageq_st" where
  "store l v hs = (case hs of (head, s) \<Rightarrow>
     case l of Head \<Rightarrow> (head, s\<lparr>aq_head := v\<rparr>)
     | Next p \<Rightarrow> (head, s\<lparr>m_next := (m_next s)(p := v)\<rparr>)
     | Local \<Rightarrow> (v, s))"

section \<open>Operations\<close>

definition ieee80211_ageq_init :: "int \<Rightarrow> ageq_st \<Rightarrow> ageq_st" where
  "ieee80211_ageq_init maxlen s =
     s\<lparr>aq_head := None, aq_tail := None, aq_len := 0, aq_drops := 0, aq_maxlen := maxlen\<rparr>"

definition ageq_mfree :: "nat \<Rightarrow> ageq_st \<Rightarrow> ageq_st" where
  "ageq_mfree m s =
     (let s = (if m_encap s m then s\<lparr>nodes_freed := nodes_freed s @ [m_rcvif s m]\<rparr> else s)
      in s\<lparr>m_next := (m_next s)(m := None), freed := freed s @ [m]\<rparr>)"

partial_function (option) ieee80211_ageq_mfree :: "nat option \<Rightarrow> ageq_st \<Rightarrow> ageq_st option" where
  "ieee80211_ageq_mfree p s =
     (case p of None \<Rightarrow> Some s
      | Some m \<Rightarrow> (let nxt = m_next s m in ieee80211_ageq_mfree nxt (ageq_mfree m s)))"

definition ieee80211_ageq_append :: "nat \<Rightarrow> int \<Rightarrow> ageq_st \<Rightarrow> status \<times> ageq_st" where
  "ieee80211_ageq_append m age s =
     (if aq_len s < aq_maxlen s then
        let (age, s) =
              (case aq_tail s of
                 None \<Rightarrow> (word_of_int age, s\<lparr>aq_head := Some m\<rparr>)
               | Some t \<Rightarrow>
                   let s = s\<lparr>m_next := (m_next s)(t := Some m)\<rparr>
                   in (word_of_int age - m_age s (the (aq_head s)), s))
        in (OK, s\<lparr>m_age := (m_age s)(m := age), m_next := (m_next s)(m := None),
                  aq_tail := Some m, aq_len := aq_len s + 1\<rparr>)
      else (Some ENOSPC, ageq_mfree m (s\<lparr>aq_drops := aq_drops s + 1\<rparr>)))"

text \<open>The loop of \<open>ieee80211_ageq_age\<close>; it compares the age with \<open>quanta\<close> as unsigned numbers.\<close>

partial_function (option) age_loop ::
  "u32 \<Rightarrow> link \<Rightarrow> nat option \<Rightarrow> ageq_st \<Rightarrow> (link \<times> nat option \<times> ageq_st) option" where
  "age_loop quanta phead head s =
     (case aq_head s of
        None \<Rightarrow> Some (phead, head, s)
      | Some m \<Rightarrow>
          if m_age s m < quanta then
            let s = s\<lparr>aq_head := m_next s m\<rparr>;
                s = (if aq_head s = None then s\<lparr>aq_tail := None\<rparr> else s);
                s = s\<lparr>aq_len := aq_len s - 1\<rparr>;
                (head, s) = store phead (Some m) (head, s)
            in age_loop quanta (Next m) head s
          else Some (phead, head, s))"

text \<open>\<open>junk\<close>: what the local variable \<open>head\<close> holds before it is set.\<close>

definition ieee80211_ageq_age ::
  "nat option \<Rightarrow> int \<Rightarrow> ageq_st \<Rightarrow> (nat option \<times> ageq_st) option" where
  "ieee80211_ageq_age junk quanta s =
     (if aq_len s \<noteq> 0 then
        (case age_loop (word_of_int quanta) Local junk s of
           None \<Rightarrow> None
         | Some (phead, head, s) \<Rightarrow>
             let s = (case aq_head s of None \<Rightarrow> s
                      | Some m \<Rightarrow> s\<lparr>m_age := (m_age s)(m := m_age s m - word_of_int quanta)\<rparr>)
             in Some (store phead None (head, s)))
      else Some (store Local None (junk, s)))"

partial_function (option) remove_loop ::
  "nat option \<Rightarrow> link \<Rightarrow> link \<Rightarrow> nat option \<Rightarrow> ageq_st \<Rightarrow> (link \<times> nat option \<times> ageq_st) option" where
  "remove_loop match prev phead head s =
     (case load prev head s of
        None \<Rightarrow> Some (phead, head, s)
      | Some m \<Rightarrow>
          if match \<noteq> None \<and> Some (m_rcvif s m) \<noteq> match then
            remove_loop match (Next m) phead head s
          else
            let s = s\<lparr>aq_len := aq_len s - 1\<rparr>
            in if aq_tail s = Some m \<and> aq_head s \<noteq> Some m \<and> (\<forall>p. prev \<noteq> Next p) then None
               else
                 let s = (if aq_tail s = Some m then
                            s\<lparr>aq_tail := (if aq_head s = Some m then None
                                          else case prev of Next p \<Rightarrow> Some p | _ \<Rightarrow> None)\<rparr>
                          else s);
                     (head, s) = store prev (m_next s m) (head, s);
                     (head, s) = store phead (Some m) (head, s)
                 in remove_loop match prev (Next m) head s)"

definition ieee80211_ageq_remove ::
  "nat option \<Rightarrow> nat option \<Rightarrow> ageq_st \<Rightarrow> (nat option \<times> ageq_st) option" where
  "ieee80211_ageq_remove junk match s =
     (let ohead = aq_head s in
      case remove_loop match Head Local junk s of
        None \<Rightarrow> None
      | Some (phead, head, s) \<Rightarrow>
          let s = (if head = ohead \<and> aq_head s \<noteq> None
                   then s\<lparr>m_age := (m_age s)(the (aq_head s) := m_age s (the head))\<rparr> else s)
          in Some (store phead None (head, s)))"

definition ieee80211_ageq_drain :: "nat option \<Rightarrow> ageq_st \<Rightarrow> ageq_st option" where
  "ieee80211_ageq_drain junk s =
     (case ieee80211_ageq_remove junk None s of
        None \<Rightarrow> None | Some (head, s) \<Rightarrow> ieee80211_ageq_mfree head s)"

definition ieee80211_ageq_drain_node :: "nat option \<Rightarrow> nat \<Rightarrow> ageq_st \<Rightarrow> ageq_st option" where
  "ieee80211_ageq_drain_node junk ni s =
     (case ieee80211_ageq_remove junk (Some ni) s of
        None \<Rightarrow> None | Some (head, s) \<Rightarrow> ieee80211_ageq_mfree head s)"

end
