(* ===== verification/AgeqProps.thy ===== *)
theory AgeqProps
  imports Ageq Refine "HOL-Library.Multiset"
begin

text \<open>
  The pointer operations of the age queue refine operations on a list of frames with their
  ages: they end, keep head, tail, links and count consistent, and hand out or free exactly
  the frames the list operation says, in its order.
\<close>

section \<open>Linked lists in the store\<close>

fun lseg :: "(nat \<Rightarrow> nat option) \<Rightarrow> nat option \<Rightarrow> nat list \<Rightarrow> nat option \<Rightarrow> bool" where
  "lseg nx p [] q \<longleftrightarrow> p = q"
| "lseg nx p (x # xs) q \<longleftrightarrow> p = Some x \<and> lseg nx (nx x) xs q"

lemma lseg_append: "lseg nx p (xs @ ys) q \<longleftrightarrow> (\<exists>r. lseg nx p xs r \<and> lseg nx r ys q)"
  by (induction xs arbitrary: p) auto

lemma lseg_cong: "(\<And>x. x \<in> set xs \<Longrightarrow> nx x = ny x) \<Longrightarrow> lseg nx p xs q = lseg ny p xs q"
  by (induction xs arbitrary: p) auto

lemma lseg_upd [simp]: "u \<notin> set xs \<Longrightarrow> lseg (nx(u := v)) p xs q = lseg nx p xs q"
  by (rule lseg_cong) auto

lemma lseg_hd: "lseg nx p xs q \<Longrightarrow> xs \<noteq> [] \<Longrightarrow> p = Some (hd xs)"
  by (cases xs) auto

lemma lseg_last: "lseg nx p xs q \<Longrightarrow> xs \<noteq> [] \<Longrightarrow> nx (last xs) = q"
  by (induction xs arbitrary: p) auto

lemma lseg_relink:
  assumes "lseg nx p xs r" "distinct xs" "xs \<noteq> []"
  shows "lseg (nx(last xs := q)) p xs q"
  using assms by (induction xs arbitrary: p) auto

text \<open>The frames a caller finds when it follows the links it was given.\<close>

partial_function (option) chain :: "(nat \<Rightarrow> nat option) \<Rightarrow> nat option \<Rightarrow> nat list option" where
  "chain nx p = (case p of None \<Rightarrow> Some []
     | Some x \<Rightarrow> Option.bind (chain nx (nx x)) (\<lambda>xs. Some (x # xs)))"

lemma chain_lseg: "lseg nx p xs None \<Longrightarrow> chain nx p = Some xs"
  by (induction xs arbitrary: p) (simp_all add: chain.simps)

section \<open>The frames handed out\<close>

text \<open>\<open>ys\<close> have been put on the list that starts in \<open>head\<close> and ends at the link \<open>ph\<close>.\<close>

definition handed :: "link \<Rightarrow> nat option \<Rightarrow> nat list \<Rightarrow> ageq_st \<Rightarrow> bool" where
  "handed ph head ys s \<longleftrightarrow> distinct ys \<and>
     (if ys = [] then ph = Local
      else ph = Next (last ys) \<and> (\<exists>q. lseg (m_next s) head ys q))"

text \<open>What the loops leave alone; and that only the links of frames in \<open>ys\<close> may differ.\<close>

definition env_eq :: "ageq_st \<Rightarrow> ageq_st \<Rightarrow> bool" where
  "env_eq s s' \<longleftrightarrow> aq_maxlen s' = aq_maxlen s \<and> aq_drops s' = aq_drops s \<and> m_age s' = m_age s \<and>
     m_rcvif s' = m_rcvif s \<and> m_encap s' = m_encap s \<and> freed s' = freed s \<and> nodes_freed s' = nodes_freed s"

definition same_but :: "nat list \<Rightarrow> ageq_st \<Rightarrow> ageq_st \<Rightarrow> bool" where
  "same_but ys s s' \<longleftrightarrow> env_eq s s' \<and> aq_head s' = aq_head s \<and> aq_tail s' = aq_tail s \<and>
     aq_len s' = aq_len s \<and> (\<forall>x. x \<notin> set ys \<longrightarrow> m_next s' x = m_next s x)"

lemma store_handed:
  assumes "handed ph head ys s" "store ph v (head, s) = (head', s')"
  shows "same_but ys s s'" "lseg (m_next s') head' ys v"
proof -
  have "same_but ys s s' \<and> lseg (m_next s') head' ys v"
  proof (cases "ys = []")
    case True
    then show ?thesis using assms by (auto simp: handed_def store_def same_but_def env_eq_def)
  next
    case False
    then have e: "head' = head" "s' = s\<lparr>m_next := (m_next s)(last ys := v)\<rparr>"
      using assms by (auto simp: handed_def store_def)
    obtain q where "lseg (m_next s) head ys q" "distinct ys" using assms(1) False by (auto simp: handed_def)
    with False show ?thesis unfolding e by (auto simp: same_but_def env_eq_def lseg_relink)
  qed
  then show "same_but ys s s'" "lseg (m_next s') head' ys v" by blast+
qed

lemma store_handed_snoc:
  assumes "handed ph head ys s" "m \<notin> set ys" "store ph (Some m) (head, s) = (head', s')"
  shows "handed (Next m) head' (ys @ [m]) s'"
  using store_handed(2) [OF assms(1,3)] assms(1,2) by (auto simp: handed_def lseg_append)

lemma handed_other:
  assumes "handed ph head ys s" "\<And>x. x \<in> set ys \<Longrightarrow> m_next s' x = m_next s x"
  shows "handed ph head ys s'"
proof -
  have "lseg (m_next s') head ys q = lseg (m_next s) head ys q" for q
    by (rule lseg_cong) (rule assms(2))
  then have "lseg (m_next s') head ys = lseg (m_next s) head ys" by blast
  with assms(1) show ?thesis by (simp add: handed_def)
qed

section \<open>The queue\<close>

definition qlist :: "ageq_st \<Rightarrow> nat list \<Rightarrow> bool" where
  "qlist s xs \<longleftrightarrow> lseg (m_next s) (aq_head s) xs None \<and> distinct xs \<and>
     aq_tail s = (if xs = [] then None else Some (last xs)) \<and> aq_len s = int (length xs)"

lemma same_but_qlist:
  assumes "same_but ys s s'" "set ys \<inter> set xs = {}"
  shows "qlist s' xs = qlist s xs"
proof -
  have "lseg (m_next s') p xs None = lseg (m_next s) p xs None" for p
    by (rule lseg_cong) (use assms in \<open>auto simp: same_but_def\<close>)
  then show ?thesis using assms(1) by (simp add: qlist_def same_but_def)
qed

lemma age_loop_steps:
  assumes "qlist s xs" "handed ph head ys s" "set ys \<inter> set xs = {}"
  shows "\<exists>ph' head' s'. age_loop quanta ph head s = Some (ph', head', s') \<and>
    qlist s' (dropWhile (\<lambda>m. m_age s m < quanta) xs) \<and>
    handed ph' head' (ys @ takeWhile (\<lambda>m. m_age s m < quanta) xs) s' \<and>
    env_eq s s'"
  using assms
proof (induction xs arbitrary: s ph head ys)
  case Nil
  then have "aq_head s = None" by (simp add: qlist_def)
  then show ?case using Nil by (auto simp: age_loop.simps [of _ _ _ s] env_eq_def)
next
  case (Cons m xs)
  have h: "aq_head s = Some m" "lseg (m_next s) (m_next s m) xs None" "distinct xs" "m \<notin> set xs"
    using Cons.prems(1) by (simp_all add: qlist_def)
  show ?case
  proof (cases "m_age s m < quanta")
    case False
    then show ?thesis using Cons.prems h(1) by (auto simp: age_loop.simps [of _ _ _ s] env_eq_def)
  next
    case True
    define s1 where "s1 = (if m_next s m = None then s\<lparr>aq_head := m_next s m, aq_tail := None\<rparr>
      else s\<lparr>aq_head := m_next s m\<rparr>)\<lparr>aq_len := aq_len s - 1\<rparr>"
    obtain head' s' where st: "store ph (Some m) (head, s1) = (head', s')" by (metis surj_pair)
    have step: "age_loop quanta ph head s = age_loop quanta (Next m) head' s'"
      using True h(1) st
      by (cases "m_next s m") (simp_all add: age_loop.simps [of _ _ _ s] s1_def Let_def)
    have e: "m_next s m = None \<longleftrightarrow> xs = []" using h(2) by (cases xs) auto
    have q1: "qlist s1 xs" using Cons.prems(1) h e by (auto simp: qlist_def s1_def)
    have n1: "m_next s1 = m_next s" "m_age s1 = m_age s" by (simp_all add: s1_def)
    have hd1: "handed ph head ys s1" using Cons.prems(2) by (rule handed_other) (simp add: n1)
    have mys: "m \<notin> set ys" "set ys \<inter> set xs = {}" using Cons.prems(3) by auto
    note hd2 = store_handed_snoc [OF hd1 mys(1) st] and sb = store_handed(1) [OF hd1 st]
    have q2: "qlist s' xs" using q1 same_but_qlist [OF sb mys(2)] by simp
    have d2: "set (ys @ [m]) \<inter> set xs = {}" using mys h(4) by auto
    have f2: "env_eq s s'" using sb by (simp add: same_but_def env_eq_def s1_def)
    then have ag: "m_age s' = m_age s" by (simp add: env_eq_def)
    from Cons.IH [OF q2 hd2 d2] obtain ph3 head3 s3 where r: "age_loop quanta (Next m) head' s' = Some (ph3, head3, s3)"
      "qlist s3 (dropWhile (\<lambda>m. m_age s m < quanta) xs)"
      "handed ph3 head3 ((ys @ [m]) @ takeWhile (\<lambda>m. m_age s m < quanta) xs) s3"
      "env_eq s' s3"
      unfolding ag by blast
    have "env_eq s s3" using r(4) f2 by (simp add: env_eq_def)
    then show ?thesis using r(1-3) True unfolding step by simp
  qed
qed

text \<open>
  The loop of \<open>remove\<close> after it has passed the frames \<open>ks\<close> it keeps: \<open>prev\<close> is the link behind
  them, and \<open>rs\<close> are the frames to come.
\<close>

definition at_link :: "link \<Rightarrow> nat list \<Rightarrow> bool" where
  "at_link prev ks \<longleftrightarrow> prev = (if ks = [] then Head else Next (last ks))"

lemma at_link_load:
  assumes "lseg (m_next s) (aq_head s) (ks @ rs) None" "at_link prev ks"
  shows "lseg (m_next s) (load prev head s) rs None" "lseg (m_next s) (aq_head s) ks (load prev head s)"
proof -
  obtain r where r: "lseg (m_next s) (aq_head s) ks r" "lseg (m_next s) r rs None"
    using assms(1) by (auto simp: lseg_append)
  have "load prev head s = r"
    using r(1) lseg_last [OF r(1)] assms(2) by (auto simp: load_def at_link_def)
  with r show "lseg (m_next s) (load prev head s) rs None" "lseg (m_next s) (aq_head s) ks (load prev head s)"
    by simp_all
qed

text \<open>Unlinking the frame \<open>m\<close> behind \<open>ks\<close>: the queue is \<open>ks @ rs\<close> then.\<close>

lemma unlink_qlist:
  assumes q: "qlist s (ks @ m # rs)" and p: "at_link prev ks"
    and t: "s1 = (if aq_tail s = Some m then
        s\<lparr>aq_len := aq_len s - 1, aq_tail := (if aq_head s = Some m then None
          else case prev of Next p \<Rightarrow> Some p | _ \<Rightarrow> None)\<rparr> else s\<lparr>aq_len := aq_len s - 1\<rparr>)"
    and st: "store prev (m_next s m) (head, s1) = (head2, s2)"
  shows "qlist s2 (ks @ rs)" "head2 = head" "env_eq s s2" "x \<notin> set ks \<Longrightarrow> m_next s2 x = m_next s x"
    "aq_tail s = Some m \<Longrightarrow> aq_head s \<noteq> Some m \<Longrightarrow> \<exists>p. prev = Next p"
proof -
  have d: "distinct (ks @ m # rs)" and l: "lseg (m_next s) (aq_head s) (ks @ m # rs) None"
    and n: "aq_len s = int (length (ks @ m # rs))" and tl: "aq_tail s = Some (last (m # rs))"
    using q by (simp_all add: qlist_def)
  have lk: "lseg (m_next s) (aq_head s) ks (Some m)" and lr: "lseg (m_next s) (m_next s m) rs None"
    using l by (auto simp: lseg_append)
  have tm: "aq_tail s = Some m \<longleftrightarrow> rs = []" using d tl by (cases rs rule: rev_cases) auto
  have hm: "aq_head s = Some m \<longleftrightarrow> ks = []" using lk d by (cases ks) auto
  have e1: "m_next s1 = m_next s" "aq_head s1 = aq_head s" "aq_len s1 = aq_len s - 1" "env_eq s s1"
    "aq_tail s1 = (if rs \<noteq> [] then aq_tail s else if ks = [] then None else Some (last ks))"
    using tm hm p by (auto simp: t at_link_def env_eq_def)
  have tail: "aq_tail s1 = (if ks @ rs = [] then None else Some (last (ks @ rs)))"
    using tl by (simp add: e1(5))
  show "head2 = head" "env_eq s s2" "x \<notin> set ks \<Longrightarrow> m_next s2 x = m_next s x"
    using st p e1 by (auto simp: store_def at_link_def env_eq_def split: if_splits)
  show "aq_tail s = Some m \<Longrightarrow> aq_head s \<noteq> Some m \<Longrightarrow> \<exists>p. prev = Next p"
    using hm p by (simp add: at_link_def)
  show "qlist s2 (ks @ rs)"
  proof (cases "ks = []")
    case True
    then have "s2 = s1\<lparr>aq_head := m_next s m\<rparr>" using st p by (simp add: store_def at_link_def)
    then show ?thesis using True lr d n tail by (simp add: qlist_def e1)
  next
    case False
    then have s2: "s2 = s1\<lparr>m_next := (m_next s)(last ks := m_next s m)\<rparr>"
      using st p by (simp add: store_def at_link_def e1)
    have "lseg ((m_next s)(last ks := m_next s m)) (aq_head s) ks (m_next s m)"
      by (rule lseg_relink [OF lk]) (use d False in auto)
    moreover have "last ks \<notin> set rs" using d last_in_set [OF False] by auto
    ultimately have "lseg ((m_next s)(last ks := m_next s m)) (aq_head s) (ks @ rs) None"
      using lr by (auto simp: lseg_append)
    then show ?thesis using d n tail by (simp add: qlist_def s2 e1)
  qed
qed

lemma remove_loop_steps:
  fixes match :: "nat option" and rcv :: "nat \<Rightarrow> nat"
  defines "sel \<equiv> \<lambda>m. match = None \<or> Some (rcv m) = match"
  assumes "qlist s (ks @ rs)" "at_link prev ks" "handed ph head ys s" "set ys \<inter> set (ks @ rs) = {}"
    and "m_rcvif s = rcv"
  shows "\<exists>ph' head' s'. remove_loop match prev ph head s = Some (ph', head', s') \<and>
    qlist s' (ks @ filter (\<lambda>m. \<not> sel m) rs) \<and> handed ph' head' (ys @ filter sel rs) s' \<and> env_eq s s' \<and>
    (filter sel rs = [] \<longrightarrow> head' = head)"
  using assms(2-)
proof (induction rs arbitrary: s ks prev ph head ys)
  case Nil
  have "load prev head s = None"
    using at_link_load(1) [of s ks "[]" prev head] Nil.prems(1,2) by (simp add: qlist_def)
  then show ?case using Nil.prems by (simp add: remove_loop.simps [of _ _ _ _ s] env_eq_def)
next
  case (Cons m rs)
  have ld: "load prev head s = Some m"
    using at_link_load(1) [of s ks "m # rs" prev head] Cons.prems(1,2) by (simp add: qlist_def)
  have d: "distinct (ks @ m # rs)" using Cons.prems(1) by (simp add: qlist_def)
  show ?case
  proof (cases "sel m")
    case False
    then have "remove_loop match prev ph head s = remove_loop match (Next m) ph head s"
      using Cons.prems(5) by (simp add: remove_loop.simps [of _ prev _ _ s] ld sel_def)
    moreover have "at_link (Next m) (ks @ [m])" by (simp add: at_link_def)
    ultimately show ?thesis
      using Cons.IH [of s "ks @ [m]" "Next m" ph head ys] Cons.prems False by simp
  next
    case True
    define s1 where "s1 = (if aq_tail s = Some m then
        s\<lparr>aq_len := aq_len s - 1, aq_tail := (if aq_head s = Some m then None
          else case prev of Next p \<Rightarrow> Some p | _ \<Rightarrow> None)\<rparr> else s\<lparr>aq_len := aq_len s - 1\<rparr>)"
    obtain head2 s2 where st: "store prev (m_next s m) (head, s1) = (head2, s2)" by (metis surj_pair)
    note u = unlink_qlist [OF Cons.prems(1,2) s1_def st]
    obtain head3 s3 where st2: "store ph (Some m) (head, s2) = (head3, s3)" by (metis surj_pair)
    have n1: "m_next s1 = m_next s" by (simp add: s1_def)
    have step: "remove_loop match prev ph head s = remove_loop match prev (Next m) head3 s3"
    proof -
      have c: "\<not> (match \<noteq> None \<and> Some (m_rcvif s m) \<noteq> match)" using True Cons.prems(5) by (simp add: sel_def)
      have b: "\<not> (aq_tail (s\<lparr>aq_len := aq_len s - 1\<rparr>) = Some m \<and> aq_head (s\<lparr>aq_len := aq_len s - 1\<rparr>) \<noteq> Some m \<and>
          (\<forall>p. prev \<noteq> Next p))" using u(5) by auto
      have s1': "(if aq_tail (s\<lparr>aq_len := aq_len s - 1\<rparr>) = Some m
          then s\<lparr>aq_len := aq_len s - 1, aq_tail := if aq_head (s\<lparr>aq_len := aq_len s - 1\<rparr>) = Some m then None
            else case prev of Next p \<Rightarrow> Some p | _ \<Rightarrow> None\<rparr>
          else s\<lparr>aq_len := aq_len s - 1\<rparr>) = s1" by (simp add: s1_def)
      show ?thesis
        unfolding remove_loop.simps [of _ prev _ _ s] ld option.case if_not_P [OF c] Let_def if_not_P [OF b]
          s1' n1 st prod.case u(2) st2 ..
    qed
    have hd1: "handed ph head ys s2"
      using Cons.prems(3) by (rule handed_other) (use u(4) Cons.prems(4) in auto)
    have mys: "m \<notin> set ys" "set ys \<inter> set (ks @ rs) = {}" using Cons.prems(4) by auto
    note hd3 = store_handed_snoc [OF hd1 mys(1) st2] and sb = store_handed(1) [OF hd1 st2]
    have q3: "qlist s3 (ks @ rs)" using u(1) same_but_qlist [OF sb mys(2)] by simp
    have d3: "set (ys @ [m]) \<inter> set (ks @ rs) = {}" using mys d by auto
    have ee: "env_eq s s3" using u(3) sb by (simp add: same_but_def env_eq_def)
    then have rc: "m_rcvif s3 = rcv" using Cons.prems(5) by (simp add: env_eq_def)
    from Cons.IH [OF q3 Cons.prems(2) hd3 d3 rc] ee True show ?thesis unfolding step
      by (auto simp: env_eq_def)
  qed
qed

section \<open>The operations on the list\<close>

definition qframes :: "ageq_st \<Rightarrow> nat list" where
  "qframes s = the (chain (m_next s) (aq_head s))"

lemma qlist_qframes: "qlist s xs \<Longrightarrow> qframes s = xs"
  unfolding qlist_def qframes_def using chain_lseg by fastforce

lemma age_result:
  assumes q: "qlist s xs"
    and gone_def: "gone = takeWhile (\<lambda>m. m_age s m < word_of_int quanta) xs"
    and rest_def: "rest = dropWhile (\<lambda>m. m_age s m < word_of_int quanta) xs"
  shows "\<exists>head s'. ieee80211_ageq_age junk quanta s = Some (head, s') \<and> qlist s' rest \<and>
    chain (m_next s') head = Some gone \<and>
    m_age s' = (case rest of [] \<Rightarrow> m_age s | m # _ \<Rightarrow> (m_age s)(m := m_age s m - word_of_int quanta)) \<and>
    aq_maxlen s' = aq_maxlen s \<and> aq_drops s' = aq_drops s \<and> m_rcvif s' = m_rcvif s \<and>
    m_encap s' = m_encap s \<and> freed s' = freed s \<and> nodes_freed s' = nodes_freed s"
proof (cases "aq_len s = 0")
  case True
  then have "xs = []" using q by (simp add: qlist_def)
  then show ?thesis using q True
    by (simp add: ieee80211_ageq_age_def store_def gone_def rest_def chain.simps)
next
  case False
  let ?w = "word_of_int quanta :: u32"
  have "handed Local junk [] s" by (simp add: handed_def)
  from age_loop_steps [OF q this, of ?w] obtain ph head s1 where
    l: "age_loop ?w Local junk s = Some (ph, head, s1)" and q1: "qlist s1 rest"
    and h1: "handed ph head gone s1" and e1: "env_eq s s1"
    unfolding gone_def rest_def by auto
  define s2 where "s2 = (case aq_head s1 of None \<Rightarrow> s1
    | Some m \<Rightarrow> s1\<lparr>m_age := (m_age s1)(m := m_age s1 m - ?w)\<rparr>)"
  obtain head' s3 where st: "store ph None (head, s2) = (head', s3)" by (metis surj_pair)
  have r: "ieee80211_ageq_age junk quanta s = Some (head', s3)"
    using False l st by (simp add: ieee80211_ageq_age_def s2_def)
  have n2: "m_next s2 = m_next s1" "aq_head s2 = aq_head s1" "aq_tail s2 = aq_tail s1" "aq_len s2 = aq_len s1"
    by (simp_all add: s2_def split: option.split)
  have q2: "qlist s2 rest" using q1 by (simp add: qlist_def n2)
  have h2: "handed ph head gone s2" using h1 by (rule handed_other) (simp add: n2)
  have dj: "set gone \<inter> set rest = {}"
  proof -
    have "distinct (gone @ rest)" using q by (simp add: gone_def rest_def qlist_def)
    then show ?thesis by simp
  qed
  note sb = store_handed(1) [OF h2 st]
  have q3: "qlist s3 rest" using q2 same_but_qlist [OF sb dj] by simp
  have c: "chain (m_next s3) head' = Some gone" by (rule chain_lseg [OF store_handed(2) [OF h2 st]])
  have hd: "aq_head s1 = (case rest of [] \<Rightarrow> None | m # _ \<Rightarrow> Some m)"
    using q1 by (cases rest) (simp_all add: qlist_def)
  have "m_age s2 = (case rest of [] \<Rightarrow> m_age s | m # _ \<Rightarrow> (m_age s)(m := m_age s m - ?w))"
    using e1 by (simp add: s2_def hd env_eq_def split: list.split)
  moreover have "aq_maxlen s2 = aq_maxlen s \<and> aq_drops s2 = aq_drops s \<and> m_rcvif s2 = m_rcvif s \<and>
    m_encap s2 = m_encap s \<and> freed s2 = freed s \<and> nodes_freed s2 = nodes_freed s"
    using e1 by (simp add: s2_def env_eq_def split: option.split)
  ultimately show ?thesis using r q3 c sb by (simp add: same_but_def env_eq_def)
qed

definition sel :: "(nat \<Rightarrow> nat) \<Rightarrow> nat option \<Rightarrow> nat \<Rightarrow> bool" where
  "sel rcv match m \<longleftrightarrow> match = None \<or> Some (rcv m) = match"

lemma remove_result:
  assumes q: "qlist s xs"
    and gone_def: "gone = filter (sel (m_rcvif s) match) xs"
    and rest_def: "rest = filter (\<lambda>m. \<not> sel (m_rcvif s) match m) xs"
  shows "\<exists>head s'. ieee80211_ageq_remove junk match s = Some (head, s') \<and> qlist s' rest \<and>
    lseg (m_next s') head gone None \<and>
    m_age s' = (if gone \<noteq> [] \<and> rest \<noteq> [] \<and> hd gone = hd xs then (m_age s)(hd rest := m_age s (hd gone)) else m_age s) \<and>
    aq_maxlen s' = aq_maxlen s \<and> aq_drops s' = aq_drops s \<and> m_rcvif s' = m_rcvif s \<and>
    m_encap s' = m_encap s \<and> freed s' = freed s \<and> nodes_freed s' = nodes_freed s"
proof -
  have "handed Local junk [] s" "at_link Head []" "qlist s ([] @ xs)"
    using q by (simp_all add: handed_def at_link_def)
  from remove_loop_steps [OF this(3,2,1) _ refl, of match] obtain ph head s1 where
    l: "remove_loop match Head Local junk s = Some (ph, head, s1)" and q1: "qlist s1 rest"
    and h1: "handed ph head gone s1" and e1: "env_eq s s1" and j: "gone = [] \<longrightarrow> head = junk"
    unfolding gone_def rest_def sel_def by auto
  define s2 where "s2 = (if head = aq_head s \<and> aq_head s1 \<noteq> None
    then s1\<lparr>m_age := (m_age s1)(the (aq_head s1) := m_age s1 (the head))\<rparr> else s1)"
  obtain head' s3 where st: "store ph None (head, s2) = (head', s3)" by (metis surj_pair)
  have r: "ieee80211_ageq_remove junk match s = Some (head', s3)"
    using l st by (simp add: ieee80211_ageq_remove_def s2_def Let_def)
  have n2: "m_next s2 = m_next s1" "aq_head s2 = aq_head s1" "aq_tail s2 = aq_tail s1" "aq_len s2 = aq_len s1"
    by (simp_all add: s2_def)
  have q2: "qlist s2 rest" using q1 by (simp add: qlist_def n2)
  have h2: "handed ph head gone s2" using h1 by (rule handed_other) (simp add: n2)
  have dj: "set gone \<inter> set rest = {}" by (auto simp: gone_def rest_def)
  note sb = store_handed(1) [OF h2 st]
  have q3: "qlist s3 rest" using q2 same_but_qlist [OF sb dj] by simp
  have c: "lseg (m_next s3) head' gone None" by (rule store_handed(2) [OF h2 st])
  have hr: "aq_head s1 = (if rest = [] then None else Some (hd rest))"
    using q1 by (cases rest) (simp_all add: qlist_def)
  have hx: "aq_head s = (if xs = [] then None else Some (hd xs))"
    using q by (cases xs) (simp_all add: qlist_def)
  have hg: "gone \<noteq> [] \<Longrightarrow> head = Some (hd gone)" using h1 lseg_hd by (auto simp: handed_def)
  have nil: "xs = [] \<Longrightarrow> rest = []" "gone = [] \<Longrightarrow> rest = xs"
    by (auto simp: rest_def gone_def filter_empty_conv)
  have "m_age s2 = (if gone \<noteq> [] \<and> rest \<noteq> [] \<and> hd gone = hd xs
      then (m_age s)(hd rest := m_age s (hd gone)) else m_age s)"
    using e1 hg nil by (cases "gone = []") (auto simp: s2_def hr hx env_eq_def)
  moreover have "aq_maxlen s2 = aq_maxlen s \<and> aq_drops s2 = aq_drops s \<and> m_rcvif s2 = m_rcvif s \<and>
    m_encap s2 = m_encap s \<and> freed s2 = freed s \<and> nodes_freed s2 = nodes_freed s"
    using e1 by (simp add: s2_def env_eq_def)
  ultimately show ?thesis using r q3 c sb by (simp add: same_but_def env_eq_def)
qed

lemma append_result:
  assumes q: "qlist s xs" and m: "m \<notin> set xs" and len: "int (length xs) < aq_maxlen s"
  shows "\<exists>s'. ieee80211_ageq_append m age s = (OK, s') \<and> qlist s' (xs @ [m]) \<and>
    m_age s' = (m_age s)(m := word_of_int age - (if xs = [] then 0 else m_age s (hd xs))) \<and>
    aq_maxlen s' = aq_maxlen s \<and> aq_drops s' = aq_drops s \<and> m_rcvif s' = m_rcvif s \<and>
    m_encap s' = m_encap s \<and> freed s' = freed s \<and> nodes_freed s' = nodes_freed s"
proof (cases "xs = []")
  case True
  then show ?thesis using q len by (simp add: ieee80211_ageq_append_def qlist_def)
next
  case False
  have l: "lseg (m_next s) (aq_head s) xs None" "distinct xs" using q by (simp_all add: qlist_def)
  have "lseg ((m_next s)(last xs := Some m)) (aq_head s) xs (Some m)" by (rule lseg_relink [OF l False])
  then have "lseg ((m_next s)(last xs := Some m, m := None)) (aq_head s) (xs @ [m]) None"
    using m by (auto simp: lseg_append fun_upd_twist)
  then show ?thesis using q m len False lseg_hd [OF l(1) False]
    by (simp add: ieee80211_ageq_append_def qlist_def)
qed

text \<open>Freeing a chain of frames that are not on the queue.\<close>

lemma mfree_result:
  assumes "lseg (m_next s) p ys None" "distinct ys" "qlist s xs" "set ys \<inter> set xs = {}"
  shows "\<exists>s'. ieee80211_ageq_mfree p s = Some s' \<and> qlist s' xs \<and> m_age s' = m_age s \<and>
    aq_maxlen s' = aq_maxlen s \<and> aq_drops s' = aq_drops s \<and> m_rcvif s' = m_rcvif s \<and>
    m_encap s' = m_encap s \<and> freed s' = freed s @ ys \<and>
    nodes_freed s' = nodes_freed s @ map (m_rcvif s) (filter (m_encap s) ys)"
  using assms
proof (induction ys arbitrary: p s)
  case Nil
  then show ?case by (simp add: ieee80211_ageq_mfree.simps)
next
  case (Cons m ys)
  define s1 where "s1 = ageq_mfree m s"
  have n: "m_next s1 = (m_next s)(m := None)" "m_encap s1 = m_encap s" "m_rcvif s1 = m_rcvif s"
    "m_age s1 = m_age s" "aq_maxlen s1 = aq_maxlen s" "aq_drops s1 = aq_drops s" "freed s1 = freed s @ [m]"
    "nodes_freed s1 = nodes_freed s @ (if m_encap s m then [m_rcvif s m] else [])"
    "aq_head s1 = aq_head s" "aq_tail s1 = aq_tail s" "aq_len s1 = aq_len s"
    by (simp_all add: s1_def ageq_mfree_def Let_def)
  have q1: "qlist s1 xs" using Cons.prems(3,4) by (simp add: qlist_def n)
  have l1: "lseg (m_next s1) (m_next s m) ys None" using Cons.prems(1,2) by (simp add: n)
  from Cons.IH [OF l1 _ q1] Cons.prems obtain s' where
    "ieee80211_ageq_mfree (m_next s m) s1 = Some s'" "qlist s' xs" "m_age s' = m_age s1"
    "aq_maxlen s' = aq_maxlen s1 \<and> aq_drops s' = aq_drops s1 \<and> m_rcvif s' = m_rcvif s1 \<and>
     m_encap s' = m_encap s1 \<and> freed s' = freed s1 @ ys \<and>
     nodes_freed s' = nodes_freed s1 @ map (m_rcvif s1) (filter (m_encap s1) ys)" by auto
  moreover have "p = Some m" using Cons.prems(1) by simp
  ultimately show ?case by (simp add: ieee80211_ageq_mfree.simps [of "Some m"] s1_def [symmetric] n)
qed

section \<open>Refinement\<close>

datatype ageq_op = Append nat int | Age int | Remove "nat option" | Drain | DrainNode nat

type_synonym ageq_res = "(status \<times> nat list) option"

text \<open>What a call answers: its status and the frames it hands out; \<open>None\<close> if it does not end.\<close>

fun handed_out :: "(nat option \<times> ageq_st) option \<Rightarrow> ageq_st \<Rightarrow> ageq_res \<times> ageq_st" where
  "handed_out None s = (None, s)"
| "handed_out (Some (head, s')) s = (map_option (\<lambda>ms. (OK, ms)) (chain (m_next s') head), s')"

fun done_or_not :: "ageq_st option \<Rightarrow> ageq_st \<Rightarrow> ageq_res \<times> ageq_st" where
  "done_or_not None s = (None, s)"
| "done_or_not (Some s') s = (Some (OK, []), s')"

fun ageq_exec :: "nat option \<Rightarrow> ageq_op \<Rightarrow> ageq_st \<Rightarrow> ageq_res \<times> ageq_st" where
  "ageq_exec junk (Append m age) s = (case ieee80211_ageq_append m age s of (r, s) \<Rightarrow> (Some (r, []), s))"
| "ageq_exec junk (Age quanta) s = handed_out (ieee80211_ageq_age junk quanta s) s"
| "ageq_exec junk (Remove match) s = handed_out (ieee80211_ageq_remove junk match s) s"
| "ageq_exec junk Drain s = done_or_not (ieee80211_ageq_drain junk s) s"
| "ageq_exec junk (DrainNode ni) s = done_or_not (ieee80211_ageq_drain_node junk ni s) s"

text \<open>
  The abstract queue: the frames with their ages, the number of drops, what was freed and
  which node references were given up. The ages count from the age of the first frame.
\<close>

record ageq_abs =
  q_frames :: "(nat \<times> u32) list"
  q_drops :: int
  q_freed :: "nat list"
  q_nodes :: "nat list"

definition take_out :: "(nat \<Rightarrow> nat) \<Rightarrow> nat option \<Rightarrow> (nat \<times> u32) list \<Rightarrow> nat list \<times> (nat \<times> u32) list" where
  "take_out rcv match q =
     (let gone = filter (\<lambda>(m, a). sel rcv match m) q; rest = filter (\<lambda>(m, a). \<not> sel rcv match m) q
      in (map fst gone,
          case rest of [] \<Rightarrow> []
          | (m, a) # r \<Rightarrow> (m, if sel rcv match (fst (hd q)) then snd (hd q) else a) # r))"

fun ageq_spec :: "int \<Rightarrow> (nat \<Rightarrow> nat) \<Rightarrow> (nat \<Rightarrow> bool) \<Rightarrow> ageq_op \<Rightarrow> ageq_abs \<Rightarrow> ageq_res \<times> ageq_abs" where
  "ageq_spec maxlen rcv enc (Append m age) q =
     (if int (length (q_frames q)) < maxlen then
        (Some (OK, []),
         q\<lparr>q_frames := q_frames q @
             [(m, word_of_int age - (if q_frames q = [] then 0 else snd (hd (q_frames q))))]\<rparr>)
      else
        (Some (Some ENOSPC, []),
         q\<lparr>q_drops := q_drops q + 1, q_freed := q_freed q @ [m],
           q_nodes := q_nodes q @ (if enc m then [rcv m] else [])\<rparr>))"
| "ageq_spec maxlen rcv enc (Age quanta) q =
     (Some (OK, map fst (takeWhile (\<lambda>(m, a). a < word_of_int quanta) (q_frames q))),
      q\<lparr>q_frames := (case dropWhile (\<lambda>(m, a). a < word_of_int quanta) (q_frames q) of
         [] \<Rightarrow> [] | (m, a) # r \<Rightarrow> (m, a - word_of_int quanta) # r)\<rparr>)"
| "ageq_spec maxlen rcv enc (Remove match) q =
     (Some (OK, fst (take_out rcv match (q_frames q))), q\<lparr>q_frames := snd (take_out rcv match (q_frames q))\<rparr>)"
| "ageq_spec maxlen rcv enc Drain q =
     (Some (OK, []), q\<lparr>q_frames := [], q_freed := q_freed q @ map fst (q_frames q),
        q_nodes := q_nodes q @ map rcv (filter enc (map fst (q_frames q)))\<rparr>)"
| "ageq_spec maxlen rcv enc (DrainNode ni) q =
     (let gone = fst (take_out rcv (Some ni) (q_frames q)) in
      (Some (OK, []), q\<lparr>q_frames := snd (take_out rcv (Some ni) (q_frames q)), q_freed := q_freed q @ gone,
         q_nodes := q_nodes q @ map rcv (filter enc gone)\<rparr>))"

definition ageq_abst :: "ageq_st \<Rightarrow> ageq_abs" where
  "ageq_abst s = \<lparr>q_frames = map (\<lambda>m. (m, m_age s m)) (qframes s), q_drops = aq_drops s,
     q_freed = freed s, q_nodes = nodes_freed s\<rparr>"

definition ageq_inv :: "int \<Rightarrow> (nat \<Rightarrow> nat) \<Rightarrow> (nat \<Rightarrow> bool) \<Rightarrow> ageq_st \<Rightarrow> bool" where
  "ageq_inv maxlen rcv enc s \<longleftrightarrow> (\<exists>xs. qlist s xs) \<and> aq_maxlen s = maxlen \<and> m_rcvif s = rcv \<and> m_encap s = enc"

text \<open>A frame is appended only if it is not on the queue.\<close>

definition ageq_okay :: "ageq_op \<Rightarrow> ageq_abs \<Rightarrow> bool" where
  "ageq_okay c q = (case c of Append m age \<Rightarrow> m \<notin> fst ` set (q_frames q) | _ \<Rightarrow> True)"

lemma map_upd_hd:
  assumes "distinct xs" "xs = x # r"
  shows "map (\<lambda>m. (m, (f(x := v)) m)) xs = (x, v) # map (\<lambda>m. (m, f m)) r"
  using assms by (auto intro: map_cong)

lemma take_out_map:
  assumes d: "distinct xs"
    and gone_def: "gone = filter (sel rcv match) xs" and rest_def: "rest = filter (\<lambda>m. \<not> sel rcv match m) xs"
  shows "take_out rcv match (map (\<lambda>m. (m, f m)) xs) = (gone,
    map (\<lambda>m. (m, (if gone \<noteq> [] \<and> rest \<noteq> [] \<and> hd gone = hd xs then f(hd rest := f (hd gone)) else f) m)) rest)"
proof -
  have g: "filter (\<lambda>(m, a). sel rcv match m) (map (\<lambda>m. (m, f m)) xs) = map (\<lambda>m. (m, f m)) gone"
    "filter (\<lambda>(m, a). \<not> sel rcv match m) (map (\<lambda>m. (m, f m)) xs) = map (\<lambda>m. (m, f m)) rest"
    by (simp_all add: gone_def rest_def filter_map comp_def)
  have m: "map fst (map (\<lambda>m. (m, f m)) gone) = gone" by (simp add: comp_def)
  have h: "sel rcv match (hd xs) \<longleftrightarrow> gone \<noteq> [] \<and> hd gone = hd xs" if "xs \<noteq> []"
  proof
    show "sel rcv match (hd xs) \<Longrightarrow> gone \<noteq> [] \<and> hd gone = hd xs"
      using that by (cases xs) (simp_all add: gone_def)
    assume "gone \<noteq> [] \<and> hd gone = hd xs"
    then have "hd xs \<in> set gone" using hd_in_set by metis
    then show "sel rcv match (hd xs)" by (simp add: gone_def)
  qed
  show ?thesis
  proof (cases rest)
    case Nil
    then show ?thesis by (simp add: take_out_def Let_def g m del: map_map)
  next
    case (Cons x r)
    have x: "xs \<noteq> []" using Cons by (auto simp: rest_def)
    have hx: "fst (hd (map (\<lambda>m. (m, f m)) xs)) = hd xs" "snd (hd (map (\<lambda>m. (m, f m)) xs)) = f (hd xs)"
      using x by (simp_all add: hd_map)
    have "distinct rest" using d by (simp add: rest_def)
    note u = map_upd_hd [OF this Cons]
    show ?thesis
      unfolding take_out_def Let_def g m hx h [OF x]
      using u [of f "f (hd gone)"] by (auto simp: Cons simp del: map_map fun_upd_apply)
  qed
qed

lemma age_map:
  assumes "distinct xs" and rest: "rest = dropWhile (\<lambda>m. f m < w) xs"
  shows "(case dropWhile (\<lambda>(m, a). a < w) (map (\<lambda>m. (m, f m)) xs) of [] \<Rightarrow> [] | (m, a) # r \<Rightarrow> (m, a - w) # r) =
    map (\<lambda>m. (m, (case rest of [] \<Rightarrow> f | m # _ \<Rightarrow> f(m := f m - w)) m)) rest"
proof -
  have e: "dropWhile (\<lambda>(m, a). a < w) (map (\<lambda>m. (m, f m)) xs) = map (\<lambda>m. (m, f m)) rest"
    by (simp add: rest dropWhile_map comp_def)
  show ?thesis
  proof (cases rest)
    case (Cons x r)
    have "distinct rest" using assms(1) by (simp add: rest distinct_dropWhile)
    from map_upd_hd [OF this Cons, of f "f x - w"] show ?thesis unfolding e by (simp add: Cons)
  qed (simp add: e)
qed

lemma map_fst_pairs [simp]: "map (\<lambda>m. fst (m, f m)) xs = xs"
  by simp

text \<open>One operation agrees with its specification and keeps the invariant.\<close>

definition agrees :: "nat option \<Rightarrow> int \<Rightarrow> (nat \<Rightarrow> nat) \<Rightarrow> (nat \<Rightarrow> bool) \<Rightarrow> ageq_op \<Rightarrow> ageq_st \<Rightarrow> bool" where
  "agrees junk maxlen rcv enc c s \<longleftrightarrow> ageq_inv maxlen rcv enc (snd (ageq_exec junk c s)) \<and>
     ageq_spec maxlen rcv enc c (ageq_abst s) = (fst (ageq_exec junk c s), ageq_abst (snd (ageq_exec junk c s)))"

lemma ageq_invE:
  assumes "ageq_inv maxlen rcv enc s"
  obtains xs where "qlist s xs" "distinct xs" "qframes s = xs" "aq_maxlen s = maxlen" "m_rcvif s = rcv"
    "m_encap s = enc" "q_frames (ageq_abst s) = map (\<lambda>m. (m, m_age s m)) xs"
  using assms qlist_qframes unfolding ageq_inv_def ageq_abst_def
  by (auto simp: qlist_def)

lemma append_agrees:
  assumes i: "ageq_inv maxlen rcv enc s" and o: "ageq_okay (Append m age) (ageq_abst s)"
  shows "agrees junk maxlen rcv enc (Append m age) s"
proof -
  obtain xs where q: "qlist s xs" and qf: "qframes s = xs" and p: "aq_maxlen s = maxlen" "m_rcvif s = rcv" "m_encap s = enc"
    and f: "q_frames (ageq_abst s) = map (\<lambda>m. (m, m_age s m)) xs" using ageq_invE [OF i] by metis
  have m: "m \<notin> set xs" using o by (force simp: ageq_okay_def f)
  show ?thesis
  proof (cases "int (length xs) < maxlen")
    case True
    then obtain s' where s': "ieee80211_ageq_append m age s = (OK, s')" "qlist s' (xs @ [m])"
      "m_age s' = (m_age s)(m := word_of_int age - (if xs = [] then 0 else m_age s (hd xs)))"
      "aq_maxlen s' = maxlen" "aq_drops s' = aq_drops s" "m_rcvif s' = rcv" "m_encap s' = enc"
      "freed s' = freed s" "nodes_freed s' = nodes_freed s"
      using append_result [OF q m, of age] p by auto
    have "map (\<lambda>x. (x, m_age s' x)) (xs @ [m]) = map (\<lambda>x. (x, m_age s x)) xs @
        [(m, word_of_int age - (if xs = [] then 0 else m_age s (hd xs)))]" using m s'(3) by auto
    then show ?thesis using True s' qlist_qframes [OF s'(2)]
      by (auto simp: agrees_def ageq_inv_def ageq_abst_def qf hd_map)
  next
    case False
    have l: "aq_len s = int (length xs)" using q by (simp add: qlist_def)
    define s1 where "s1 = ageq_mfree m (s\<lparr>aq_drops := aq_drops s + 1\<rparr>)"
    have a: "ieee80211_ageq_append m age s = (Some ENOSPC, s1)"
      using False p l by (simp add: ieee80211_ageq_append_def s1_def)
    have n: "m_age s1 = m_age s" "aq_maxlen s1 = maxlen" "aq_drops s1 = aq_drops s + 1" "m_rcvif s1 = rcv"
      "m_encap s1 = enc" "freed s1 = freed s @ [m]" "nodes_freed s1 = nodes_freed s @ (if enc m then [rcv m] else [])"
      using p by (simp_all add: s1_def ageq_mfree_def Let_def)
    have q1: "qlist s1 xs"
      using q m by (cases xs) (simp_all add: qlist_def s1_def ageq_mfree_def Let_def)
    show ?thesis using False a q1 n qlist_qframes [OF q1]
      by (auto simp: agrees_def ageq_inv_def ageq_abst_def qf)
  qed
qed

lemma age_agrees:
  assumes i: "ageq_inv maxlen rcv enc s"
  shows "agrees junk maxlen rcv enc (Age quanta) s"
proof -
  let ?w = "word_of_int quanta :: u32"
  obtain xs where q: "qlist s xs" and d: "distinct xs" and p: "aq_maxlen s = maxlen" "m_rcvif s = rcv" "m_encap s = enc"
    and f: "q_frames (ageq_abst s) = map (\<lambda>m. (m, m_age s m)) xs" using ageq_invE [OF i] by metis
  obtain head s' where s': "ieee80211_ageq_age junk quanta s = Some (head, s')"
    "qlist s' (dropWhile (\<lambda>m. m_age s m < ?w) xs)" "chain (m_next s') head = Some (takeWhile (\<lambda>m. m_age s m < ?w) xs)"
    "m_age s' = (case dropWhile (\<lambda>m. m_age s m < ?w) xs of [] \<Rightarrow> m_age s | m # _ \<Rightarrow> (m_age s)(m := m_age s m - ?w))"
    "aq_maxlen s' = maxlen" "aq_drops s' = aq_drops s" "m_rcvif s' = rcv" "m_encap s' = enc"
    "freed s' = freed s" "nodes_freed s' = nodes_freed s"
    using age_result [OF q refl refl, of junk quanta] p by auto
  have tw: "map fst (takeWhile (\<lambda>(m, a). a < ?w) (map (\<lambda>m. (m, m_age s m)) xs)) = takeWhile (\<lambda>m. m_age s m < ?w) xs"
    by (simp add: takeWhile_map comp_def)
  have "ageq_abst s' = (ageq_abst s)\<lparr>q_frames := (case dropWhile (\<lambda>(m, a). a < ?w) (map (\<lambda>m. (m, m_age s m)) xs) of
      [] \<Rightarrow> [] | (m, a) # r \<Rightarrow> (m, a - ?w) # r)\<rparr>"
    unfolding age_map [OF d refl] by (simp add: ageq_abst_def qlist_qframes [OF s'(2)] s')
  then show ?thesis using s' by (auto simp: agrees_def ageq_inv_def f tw simp del: map_map)
qed

text \<open>What \<open>remove\<close> leaves, for the operations that build on it.\<close>

lemma remove_simulates:
  assumes i: "ageq_inv maxlen rcv enc s" and g: "(gone, rest) = take_out rcv match (q_frames (ageq_abst s))"
  shows "\<exists>head s' ys. ieee80211_ageq_remove junk match s = Some (head, s') \<and> qlist s' ys \<and>
    lseg (m_next s') head gone None \<and> distinct gone \<and> set gone \<inter> set ys = {} \<and>
    ageq_abst s' = (ageq_abst s)\<lparr>q_frames := rest\<rparr> \<and> ageq_inv maxlen rcv enc s'"
proof -
  obtain xs where q: "qlist s xs" and d: "distinct xs" and p: "aq_maxlen s = maxlen" "m_rcvif s = rcv" "m_encap s = enc"
    and f: "q_frames (ageq_abst s) = map (\<lambda>m. (m, m_age s m)) xs" using ageq_invE [OF i] by metis
  define gs where "gs = filter (sel rcv match) xs"
  define rs where "rs = filter (\<lambda>m. \<not> sel rcv match m) xs"
  define ag where "ag = (if gs \<noteq> [] \<and> rs \<noteq> [] \<and> hd gs = hd xs then (m_age s)(hd rs := m_age s (hd gs)) else m_age s)"
  have gr: "gone = gs" "rest = map (\<lambda>m. (m, ag m)) rs"
    using g take_out_map [OF d gs_def rs_def, of "m_age s"] unfolding f ag_def by simp_all
  have dj: "distinct gs" "set gs \<inter> set rs = {}" using d by (auto simp: gs_def rs_def)
  obtain head s' where s': "ieee80211_ageq_remove junk match s = Some (head, s')"
    "qlist s' rs" "lseg (m_next s') head gs None" "m_age s' = ag" "aq_maxlen s' = maxlen" "aq_drops s' = aq_drops s"
    "m_rcvif s' = rcv" "m_encap s' = enc" "freed s' = freed s" "nodes_freed s' = nodes_freed s"
    using remove_result [OF q, unfolded p, OF gs_def rs_def, of junk] unfolding ag_def by auto
  have "ageq_abst s' = (ageq_abst s)\<lparr>q_frames := rest\<rparr>"
    by (simp add: ageq_abst_def qlist_qframes [OF s'(2)] s' gr)
  moreover have "ageq_inv maxlen rcv enc s'" using s' by (auto simp: ageq_inv_def)
  ultimately show ?thesis using s' dj unfolding gr by blast
qed

lemma remove_agrees:
  assumes i: "ageq_inv maxlen rcv enc s"
  shows "agrees junk maxlen rcv enc (Remove match) s"
proof -
  obtain gone rest where g: "(gone, rest) = take_out rcv match (q_frames (ageq_abst s))" by (metis surj_pair)
  from remove_simulates [OF i g, of junk] g [symmetric] show ?thesis
    by (auto simp: agrees_def dest: chain_lseg)
qed

text \<open>Removing and freeing.\<close>

lemma remove_free:
  assumes i: "ageq_inv maxlen rcv enc s" and g: "(gone, rest) = take_out rcv match (q_frames (ageq_abst s))"
  shows "\<exists>head s1 s'. ieee80211_ageq_remove junk match s = Some (head, s1) \<and> ieee80211_ageq_mfree head s1 = Some s' \<and>
    ageq_inv maxlen rcv enc s' \<and>
    ageq_abst s' = (ageq_abst s)\<lparr>q_frames := rest, q_freed := q_freed (ageq_abst s) @ gone,
      q_nodes := q_nodes (ageq_abst s) @ map rcv (filter enc gone)\<rparr>"
proof -
  obtain head s1 ys where r: "ieee80211_ageq_remove junk match s = Some (head, s1)" "qlist s1 ys"
    "lseg (m_next s1) head gone None" "distinct gone" "set gone \<inter> set ys = {}"
    "ageq_abst s1 = (ageq_abst s)\<lparr>q_frames := rest\<rparr>" "ageq_inv maxlen rcv enc s1"
    using remove_simulates [OF i g] by metis
  obtain s' where m: "ieee80211_ageq_mfree head s1 = Some s'" "qlist s' ys" "m_age s' = m_age s1"
    "aq_maxlen s' = aq_maxlen s1" "aq_drops s' = aq_drops s1" "m_rcvif s' = m_rcvif s1"
    "m_encap s' = m_encap s1" "freed s' = freed s1 @ gone"
    "nodes_freed s' = nodes_freed s1 @ map (m_rcvif s1) (filter (m_encap s1) gone)"
    using mfree_result [OF r(3,4,2,5)] by auto
  have p: "m_rcvif s1 = rcv" "m_encap s1 = enc" using r(7) by (simp_all add: ageq_inv_def)
  have "ageq_abst s' = (ageq_abst s1)\<lparr>q_freed := freed s1 @ gone, q_nodes := nodes_freed s1 @ map rcv (filter enc gone)\<rparr>"
    by (simp add: ageq_abst_def qlist_qframes [OF m(2)] qlist_qframes [OF r(2)] m p)
  moreover have "freed s1 = q_freed (ageq_abst s)" "nodes_freed s1 = q_nodes (ageq_abst s)"
    using arg_cong [OF r(6), of q_freed] arg_cong [OF r(6), of q_nodes] by (simp_all add: ageq_abst_def)
  moreover have "ageq_inv maxlen rcv enc s'" using r(7) m by (auto simp: ageq_inv_def)
  ultimately show ?thesis using r(1,6) m(1) by auto
qed

lemma drain_agrees:
  assumes i: "ageq_inv maxlen rcv enc s"
  shows "agrees junk maxlen rcv enc Drain s" "agrees junk maxlen rcv enc (DrainNode ni) s"
proof -
  have "take_out rcv None q = (map fst q, [])" for q :: "(nat \<times> u32) list"
    by (simp add: take_out_def sel_def split_beta)
  from remove_free [OF i this [symmetric], of junk] show "agrees junk maxlen rcv enc Drain s"
    by (auto simp: agrees_def ieee80211_ageq_drain_def)
next
  obtain gone rest where g: "(gone, rest) = take_out rcv (Some ni) (q_frames (ageq_abst s))" by (metis surj_pair)
  from remove_free [OF i g, of junk] g [symmetric] show "agrees junk maxlen rcv enc (DrainNode ni) s"
    by (auto simp: agrees_def ieee80211_ageq_drain_node_def)
qed

interpretation ageq_ref: data_refinement "ageq_exec junk" "ageq_spec maxlen rcv enc" ageq_abst
    "ageq_inv maxlen rcv enc" ageq_okay
  for junk maxlen rcv enc
proof unfold_locales
  fix s c assume "ageq_inv maxlen rcv enc s" "ageq_okay c (ageq_abst s)"
  then have "agrees junk maxlen rcv enc c s"
    by (cases c) (simp_all add: append_agrees age_agrees remove_agrees drain_agrees)
  then show "ageq_inv maxlen rcv enc (snd (ageq_exec junk c s))"
    "ageq_spec maxlen rcv enc c (ageq_abst s) =
      (fst (ageq_exec junk c s), ageq_abst (snd (ageq_exec junk c s)))"
    by (simp_all add: agrees_def)
qed

section \<open>Properties\<close>

definition empty_abs :: "ageq_st \<Rightarrow> ageq_abs" where
  "empty_abs s = \<lparr>q_frames = [], q_drops = 0, q_freed = freed s, q_nodes = nodes_freed s\<rparr>"

lemma init_inv: "ageq_inv maxlen (m_rcvif s) (m_encap s) (ieee80211_ageq_init maxlen s)"
  "ageq_abst (ieee80211_ageq_init maxlen s) = empty_abs s"
proof -
  have q: "qlist (ieee80211_ageq_init maxlen s) []" by (simp add: qlist_def ieee80211_ageq_init_def)
  then show "ageq_inv maxlen (m_rcvif s) (m_encap s) (ieee80211_ageq_init maxlen s)"
    by (auto simp: ageq_inv_def) (simp_all add: ieee80211_ageq_init_def)
  show "ageq_abst (ieee80211_ageq_init maxlen s) = empty_abs s"
    unfolding ageq_abst_def qlist_qframes [OF q] by (simp add: empty_abs_def ieee80211_ageq_init_def)
qed

lemma spec_ends: "None \<notin> set (fst (run_ops (ageq_spec maxlen rcv enc) cs q))"
proof (induction cs arbitrary: q)
  case (Cons c cs)
  have "fst (ageq_spec maxlen rcv enc c q) \<noteq> None" by (cases c) (auto simp: Let_def)
  with Cons show ?case by (auto simp: split_beta)
qed simp

text \<open>
  C14. The age queue with its pointers does what a list of frames with ages does: every call
  ends, an append answers whether there was room, ageing hands out the longest run of frames
  at the front whose age is used up, removing hands out the frames of one station (or all)
  in their order and leaves the others in theirs. The results do not depend on what the
  uninitialised variable of \<open>remove\<close> happens to hold.
\<close>

theorem ageq_refines:
  assumes "ops_ok (ageq_spec maxlen (m_rcvif s) (m_encap s)) ageq_okay cs (empty_abs s)"
  shows "fst (run_ops (ageq_exec junk) cs (ieee80211_ageq_init maxlen s)) =
      fst (run_ops (ageq_spec maxlen (m_rcvif s) (m_encap s)) cs (empty_abs s)) \<and>
    None \<notin> set (fst (run_ops (ageq_exec junk) cs (ieee80211_ageq_init maxlen s)))"
  using ageq_ref.run_refines [OF init_inv(1), where cs = cs and junk = junk] assms spec_ends
  unfolding init_inv(2) by (metis fst_conv)

definition ex_store :: ageq_st where
  "ex_store = \<lparr>aq_head = Some 9, aq_tail = None, aq_len = 4, aq_maxlen = 0, aq_drops = 0, m_next = Some,
     m_age = (\<lambda>m. 0), m_rcvif = (\<lambda>m. m mod 2), m_encap = (\<lambda>m. True), freed = [], nodes_freed = []\<rparr>"

lemmas run_spec_simps = take_out_def sel_def empty_abs_def ageq_okay_def ex_store_def

theorem ageq_refines_witness:
  "fst (run_ops (ageq_exec (Some 7))
      [Append 10 5, Append 11 5, Append 12 8, Append 13 9, Age 2, Remove (Some 0), Age 100, Drain]
      (ieee80211_ageq_init 3 ex_store)) =
    [Some (OK, []), Some (OK, []), Some (OK, []), Some (Some ENOSPC, []), Some (OK, []), Some (OK, [10, 12]),
     Some (OK, [11]), Some (OK, [])]"
  by (subst ageq_refines [THEN conjunct1]) (simp_all add: run_spec_simps)

text \<open>Where the frames are: those handed out by the calls of a run, and those appended.\<close>

definition outs :: "ageq_res list \<Rightarrow> nat multiset" where
  "outs rs = sum_list (map (\<lambda>r. case r of None \<Rightarrow> {#} | Some (st, ms) \<Rightarrow> mset ms) rs)"

definition ins :: "ageq_op list \<Rightarrow> nat multiset" where
  "ins cs = sum_list (map (\<lambda>c. case c of Append m age \<Rightarrow> {#m#} | _ \<Rightarrow> {#}) cs)"

lemma map_fst_rehead:
  "map fst (case q of [] \<Rightarrow> [] | (m, a) # r \<Rightarrow> (m, f m a r) # r) = map fst q"
  by (cases q) auto

lemma take_out_mset: "mset (map fst (snd (take_out rcv match q))) + mset (fst (take_out rcv match q)) = mset (map fst q)"
proof -
  have p: "mset (map fst (filter (\<lambda>x. \<not> P x) q)) + mset (map fst (filter (\<lambda>x. P x) q)) = mset (map fst q)" for P
    by (induction q) auto
  then show ?thesis
    unfolding take_out_def Let_def fst_conv snd_conv map_fst_rehead
    using p [of "\<lambda>(m, a). sel rcv match m"] by (simp add: split_beta)
qed

lemma length_rehead: "length (case q of [] \<Rightarrow> [] | (m, a) # r \<Rightarrow> (m, f m a r) # r) = length q"
  by (cases q) auto

text \<open>The frames the queue answers for: those on it and those it has freed.\<close>

definition held :: "ageq_abs \<Rightarrow> nat multiset" where
  "held q = mset (map fst (q_frames q)) + mset (q_freed q)"

lemma spec_step_conserves:
  assumes "ageq_spec maxlen rcv enc c q = (r, q')"
  shows "held q' + outs [r] = held q + ins [c]"
proof (cases c)
  case (Age quanta)
  have "mset (map fst (takeWhile P l)) + mset (map fst (dropWhile P l)) = mset (map fst l)" for P and l :: "(nat \<times> u32) list"
    by (metis map_append mset_append takeWhile_dropWhile_id)
  moreover have "map fst (q_frames q') = map fst (dropWhile (\<lambda>(m, a). a < word_of_int quanta) (q_frames q))"
    using assms by (auto simp: Age map_fst_rehead)
  ultimately show ?thesis using assms
    by (simp only: outs_def ins_def held_def Age) (auto simp: union_ac)
qed (use assms take_out_mset in \<open>auto simp: outs_def ins_def held_def Let_def split: if_splits\<close>)

lemma spec_conserves:
  "run_ops (ageq_spec maxlen rcv enc) cs q = (rs, q') \<Longrightarrow> held q' + outs rs = held q + ins cs"
proof (induction cs arbitrary: q rs)
  case (Cons c cs)
  obtain r q1 where c: "ageq_spec maxlen rcv enc c q = (r, q1)" by (metis surj_pair)
  obtain rs1 where r: "run_ops (ageq_spec maxlen rcv enc) cs q1 = (rs1, q')" "rs = r # rs1"
    using Cons.prems c by (auto split: prod.splits)
  have "held q' + outs rs = (held q' + outs rs1) + outs [r]" by (simp add: r(2) outs_def ac_simps)
  also have "\<dots> = (held q1 + outs [r]) + ins cs" unfolding Cons.IH [OF r(1)] by (simp add: ac_simps)
  also have "\<dots> = held q + ins (c # cs)" unfolding spec_step_conserves [OF c] by (simp add: ins_def ac_simps)
  finally show ?case .
qed (simp add: outs_def ins_def)

lemma spec_length:
  "int (length (q_frames q)) \<le> max 0 maxlen \<Longrightarrow>
   int (length (q_frames (snd (run_ops (ageq_spec maxlen rcv enc) cs q)))) \<le> max 0 maxlen"
proof (induction cs arbitrary: q)
  case (Cons c cs)
  have t: "length (snd (take_out rcv match l)) \<le> length l" for match l
    by (simp add: take_out_def Let_def length_rehead)
  have "length (q_frames (snd (ageq_spec maxlen rcv enc c q))) \<le> length (q_frames q) \<or>
      int (length (q_frames (snd (ageq_spec maxlen rcv enc c q)))) \<le> maxlen"
    using t [of _ "q_frames q"]
    by (cases c) (simp_all add: Let_def length_rehead length_dropWhile_le)
  then have "int (length (q_frames (snd (ageq_spec maxlen rcv enc c q)))) \<le> max 0 maxlen"
    using Cons.prems by linarith
  from Cons.IH [OF this] show ?case by (simp add: split_beta)
qed simp

text \<open>
  C15. No frame is lost or handled twice: after any run of calls the frames that were
  appended are those handed out, those freed and those still on the queue, with their
  multiplicities; and the queue never holds more than its maximum.
\<close>

theorem ageq_conserves:
  assumes "ops_ok (ageq_spec maxlen (m_rcvif s) (m_encap s)) ageq_okay cs (empty_abs s)"
    and run: "run_ops (ageq_exec junk) cs (ieee80211_ageq_init maxlen s) = (rs, s')"
  shows "mset (freed s) + ins cs = outs rs + mset (freed s') + mset (qframes s') \<and>
    int (length (qframes s')) \<le> max 0 maxlen \<and> aq_len s' = int (length (qframes s'))"
proof -
  note r = ageq_ref.run_refines [OF init_inv(1), where cs = cs and junk = junk, unfolded init_inv(2), OF assms(1)]
  have sp: "run_ops (ageq_spec maxlen (m_rcvif s) (m_encap s)) cs (empty_abs s) = (rs, ageq_abst s')"
    using r run by simp
  have "held (ageq_abst s') + outs rs = held (empty_abs s) + ins cs" by (rule spec_conserves [OF sp])
  moreover have "held (empty_abs s) = mset (freed s)" by (simp add: held_def empty_abs_def)
  moreover have "held (ageq_abst s') = mset (qframes s') + mset (freed s')"
    by (simp add: held_def ageq_abst_def comp_def)
  moreover have "int (length (qframes s')) \<le> max 0 maxlen"
    using spec_length [of "empty_abs s" maxlen "m_rcvif s" "m_encap s" cs] sp
    by (simp add: empty_abs_def ageq_abst_def)
  moreover have "aq_len s' = int (length (qframes s'))"
    using r run by (auto elim!: ageq_invE simp: qlist_def)
  ultimately show ?thesis by (simp add: ac_simps)
qed

theorem ageq_conserves_witness:
  "\<exists>rs s'. run_ops (ageq_exec None) [Append 10 5, Append 11 6, DrainNode 1, Append 12 8, Age 6]
      (ieee80211_ageq_init 3 ex_store) = (rs, s') \<and>
    {#10, 11, 12#} = outs rs + mset (freed s') + mset (qframes s') \<and> aq_len s' \<le> 3"
proof -
  obtain rs s' where r: "run_ops (ageq_exec None) [Append 10 5, Append 11 6, DrainNode 1, Append 12 8, Age 6]
      (ieee80211_ageq_init 3 ex_store) = (rs, s')" by (metis surj_pair)
  have o: "ops_ok (ageq_spec 3 (m_rcvif ex_store) (m_encap ex_store)) ageq_okay
      [Append 10 5, Append 11 6, DrainNode 1, Append 12 8, Age 6] (empty_abs ex_store)"
    by (simp add: run_spec_simps)
  from ageq_conserves [OF o r] r show ?thesis
    by (auto simp: ins_def ex_store_def add_mset_commute)
qed

text \<open>
  The ages drift: when the head leaves, the ages behind it still count from it. Three frames
  appended with an age of 10 at times 0, 5 and 9, and the queue aged by one second at a time:
  the last frame is still on the queue at time 24, 15 seconds after it was appended.
\<close>

lemma ageq_outlives_age:
  "\<forall>r \<in> set (drop 15 (fst (run_ops (ageq_exec junk)
      ([Append 10 10] @ replicate 5 (Age 1) @ [Append 11 10] @ replicate 4 (Age 1) @ [Append 12 10] @ replicate 15 (Age 1))
      (ieee80211_ageq_init 3 ex_store)))). \<forall>ms. r = Some (OK, ms) \<longrightarrow> 12 \<notin> set ms"
proof -
  have "replicate (numeral k) x = x # replicate (pred_numeral k) x" for k and x :: ageq_op
    by (simp add: numeral_eq_Suc)
  note ticks = this
  have o: "ops_ok (ageq_spec 3 (m_rcvif ex_store) (m_encap ex_store)) ageq_okay
      ([Append 10 10] @ replicate 5 (Age 1) @ [Append 11 10] @ replicate 4 (Age 1) @ [Append 12 10] @ replicate 15 (Age 1))
      (empty_abs ex_store)"
    by (simp add: run_spec_simps ticks)
  have "fst (run_ops (ageq_exec junk)
      ([Append 10 10] @ replicate 5 (Age 1) @ [Append 11 10] @ replicate 4 (Age 1) @ [Append 12 10] @ replicate 15 (Age 1))
      (ieee80211_ageq_init 3 ex_store)) =
    fst (run_ops (ageq_spec 3 (m_rcvif ex_store) (m_encap ex_store))
      ([Append 10 10] @ replicate 5 (Age 1) @ [Append 11 10] @ replicate 4 (Age 1) @ [Append 12 10] @ replicate 15 (Age 1))
      (empty_abs ex_store))"
    using ageq_ref.run_refines [OF init_inv(1), where junk = junk, unfolded init_inv(2), OF o] by simp
  then show ?thesis by (simp add: run_spec_simps ticks)
qed

end
