(* ===== verification/Chdbg.thy ===== *)
theory Chdbg
  imports Main
begin

text \<open>
  The repository's own debug log: the character device chdbg (chdbg/chdev_drv.c), a ring of a
  hundred lines that \<open>wifi_dbg\<close> writes and a read of the device dumps, and the program that
  prints it (wifi_dbg.c). A C string is the list of its characters before the NUL; an array
  that holds one is kept as that string.
\<close>

section \<open>Formatting\<close>

definition MAX_LINES :: nat where "MAX_LINES = 100"
definition MAX_LINE_LEN :: nat where "MAX_LINE_LEN = 128"

abbreviation newline :: char where "newline \<equiv> CHR 0x0A"

text \<open>\<open>%d\<close> of a number that is not negative.\<close>

fun dec :: "nat \<Rightarrow> string" where
  "dec n = (if n < 10 then [char_of (48 + n)] else dec (n div 10) @ [char_of (48 + n mod 10)])"

declare dec.simps [simp del]

text \<open>\<open>snprintf\<close> into an array of \<open>n\<close> characters; \<open>strlcat\<close> with the size \<open>n\<close> of the array.\<close>

definition snprintf :: "nat \<Rightarrow> string \<Rightarrow> string" where
  "snprintf n s = take (n - 1) s"

definition strlcat :: "string \<Rightarrow> string \<Rightarrow> nat \<Rightarrow> string" where
  "strlcat dst src n = (if length dst \<ge> n then dst else take (n - 1) (dst @ src))"

section \<open>The device\<close>

record chdbg =
  dbg_arr :: "string list"
  idx :: nat  \<comment> \<open>\<open>i\<close>\<close>

definition chdbg0 :: chdbg where
  "chdbg0 = \<lparr>dbg_arr = replicate MAX_LINES '''', idx = 0\<rparr>"

definition wifi_dbg :: "string \<Rightarrow> string \<Rightarrow> chdbg \<Rightarrow> chdbg" where
  "wifi_dbg modname msg d =
     (let i = idx d;
          line = snprintf MAX_LINE_LEN (''i='' @ dec i @ ''  '' @ modname @ '' : '' @ msg)
      in d\<lparr>dbg_arr := (dbg_arr d)[i := line], idx := (i + 1) mod MAX_LINES\<rparr>)"

text \<open>
  What a read asks for and has received: \<open>uiomove\<close> copies from the start of the buffer and
  moves the offset, which the driver does not look at. Copying out can fail (\<open>fault\<close>).
\<close>

record uio =
  uio_offset :: nat
  uio_resid :: nat
  uio_data :: string

definition uiomove :: "bool \<Rightarrow> string \<Rightarrow> nat \<Rightarrow> uio \<Rightarrow> bool \<times> uio" where
  "uiomove fault buf n u =
     (if fault then (False, u)
      else
        let k = min n (uio_resid u)
        in (True, u\<lparr>uio_offset := uio_offset u + k, uio_resid := uio_resid u - k,
                    uio_data := uio_data u @ take k buf\<rparr>))"

fun read_lines :: "string list \<Rightarrow> nat \<Rightarrow> string \<Rightarrow> string" where
  "read_lines [] n buf = buf"
| "read_lines (l # ls) n buf = read_lines ls n (strlcat (strlcat buf l n) [newline] n)"

definition my_device_read :: "bool \<Rightarrow> chdbg \<Rightarrow> uio \<Rightarrow> bool \<times> uio" where
  "my_device_read fault d u =
     (let buf = read_lines (dbg_arr d) (MAX_LINES * MAX_LINE_LEN) '''';
          amt = length buf
      in uiomove fault buf amt u)"

section \<open>The module\<close>

datatype module_event = MOD_LOAD | MOD_UNLOAD | MOD_OTHER nat

text \<open>The device node, if there is one; \<open>mkdev\<close> is the answer of \<open>make_dev_p\<close>.\<close>

definition chdbg_init :: "nat \<Rightarrow> bool \<Rightarrow> nat \<times> bool" where
  "chdbg_init mkdev dev = (if mkdev \<noteq> 0 then (mkdev, dev) else (0, True))"

definition chdbg_exit :: "bool \<Rightarrow> nat \<times> bool" where
  "chdbg_exit dev = (0, if dev then False else dev)"

definition chdbg_handler :: "nat \<Rightarrow> module_event \<Rightarrow> bool \<Rightarrow> nat \<times> bool" where
  "chdbg_handler mkdev event dev =
     (case event of MOD_LOAD \<Rightarrow> chdbg_init mkdev dev
      | MOD_UNLOAD \<Rightarrow> chdbg_exit dev
      | MOD_OTHER _ \<Rightarrow> (45, dev))"

section \<open>The program\<close>

text \<open>
  The program reads through the C library's buffered stream: when the buffer is empty a read
  of the block size \<open>bsz\<close> refills it, and each refill is a call of the driver. What the
  device holds at the \<open>k\<close>-th read is \<open>log k\<close>, messages may be logged in between; \<open>fault k\<close>
  says that copying out fails in it. A read that delivers nothing is the end of the file,
  which the stream remembers; one that fails is an error.
\<close>

record FILE =
  f_buf :: string
  f_reads :: nat
  f_off :: nat
  f_eof :: bool

definition fopen0 :: FILE where
  "fopen0 = \<lparr>f_buf = '''', f_reads = 0, f_off = 0, f_eof = False\<rparr>"

datatype char_or = Char char | EOF | ReadError

definition srefill :: "nat \<Rightarrow> (nat \<Rightarrow> bool) \<Rightarrow> (nat \<Rightarrow> chdbg) \<Rightarrow> FILE \<Rightarrow> bool \<times> FILE" where
  "srefill bsz fault log f =
     (case my_device_read (fault (f_reads f)) (log (f_reads f))
             \<lparr>uio_offset = f_off f, uio_resid = bsz, uio_data = ''''\<rparr> of
        (ok, u) \<Rightarrow> (ok, f\<lparr>f_buf := uio_data u, f_reads := f_reads f + 1, f_off := uio_offset u,
                         f_eof := ok \<and> uio_data u = ''''\<rparr>))"

definition next_char :: "nat \<Rightarrow> (nat \<Rightarrow> bool) \<Rightarrow> (nat \<Rightarrow> chdbg) \<Rightarrow> FILE \<Rightarrow> char_or \<times> FILE" where
  "next_char bsz fault log f =
     (case f_buf f of
        c # cs \<Rightarrow> (Char c, f\<lparr>f_buf := cs\<rparr>)
      | [] \<Rightarrow>
          if f_eof f then (EOF, f)
          else
            case srefill bsz fault log f of
              (False, f) \<Rightarrow> (ReadError, f)
            | (True, f) \<Rightarrow> (case f_buf f of [] \<Rightarrow> (EOF, f) | c # cs \<Rightarrow> (Char c, f\<lparr>f_buf := cs\<rparr>)))"

text \<open>
  \<open>fgets\<close> into an array of \<open>n\<close> characters: it stops after a newline, after \<open>n - 1\<close> characters
  or at the end of the file, and answers NULL (\<open>None\<close>) on an error or with nothing read.
\<close>

fun fgets_loop :: "nat \<Rightarrow> (nat \<Rightarrow> bool) \<Rightarrow> (nat \<Rightarrow> chdbg) \<Rightarrow> nat \<Rightarrow> FILE \<Rightarrow> string option \<times> FILE" where
  "fgets_loop bsz fault log 0 f = (Some '''', f)"
| "fgets_loop bsz fault log (Suc n) f =
     (case next_char bsz fault log f of
        (ReadError, f) \<Rightarrow> (None, f)
      | (EOF, f) \<Rightarrow> (Some '''', f)
      | (Char c, f) \<Rightarrow>
          if c = newline then (Some [c], f)
          else
            case fgets_loop bsz fault log n f of
              (None, f) \<Rightarrow> (None, f)
            | (Some s, f) \<Rightarrow> (Some (c # s), f))"

definition fgets :: "nat \<Rightarrow> (nat \<Rightarrow> bool) \<Rightarrow> (nat \<Rightarrow> chdbg) \<Rightarrow> nat \<Rightarrow> FILE \<Rightarrow> string option \<times> FILE" where
  "fgets bsz fault log n f =
     (case fgets_loop bsz fault log (n - 1) f of
        (None, f) \<Rightarrow> (None, f)
      | (Some s, f) \<Rightarrow> (if s = '''' then None else Some s, f))"

text \<open>The loop of \<open>main\<close>, from the number of lines that are still to be printed.\<close>

fun print_lines :: "nat \<Rightarrow> (nat \<Rightarrow> bool) \<Rightarrow> (nat \<Rightarrow> chdbg) \<Rightarrow> nat \<Rightarrow> FILE \<Rightarrow> string" where
  "print_lines bsz fault log 0 f = ''''"
| "print_lines bsz fault log (Suc lc) f =
     (case fgets bsz fault log (128 + 1) f of
        (None, f) \<Rightarrow> ''End of file'' @ [newline]
      | (Some line, f) \<Rightarrow> line @ print_lines bsz fault log lc f)"

text \<open>\<open>main\<close>: the text it prints and its exit status; \<open>opened\<close> says that the device could be opened.\<close>

definition wifi_dbg_main :: "bool \<Rightarrow> nat \<Rightarrow> (nat \<Rightarrow> bool) \<Rightarrow> (nat \<Rightarrow> chdbg) \<Rightarrow> string \<times> nat" where
  "wifi_dbg_main opened bsz fault log =
     (if \<not> opened then (''File open error'' @ [newline], 1)
      else (print_lines bsz fault log MAX_LINES fopen0, 0))"

end
