(* ===== verification/ChdbgProps.thy ===== *)
theory ChdbgProps
  imports Chdbg
begin

text \<open>
  The debug log: which message each line of the ring holds, what a read delivers, and what
  the program prints; and the places where a line or a newline is lost.
\<close>

section \<open>The ring\<close>

definition line_of :: "nat \<Rightarrow> string \<times> string \<Rightarrow> string" where
  "line_of k m = take 127 (''i='' @ dec (k mod 100) @ ''  '' @ fst m @ '' : '' @ snd m)"

definition log_all :: "(string \<times> string) list \<Rightarrow> chdbg \<Rightarrow> chdbg" where
  "log_all ms d = fold (\<lambda>(m, t). wifi_dbg m t) ms d"

text \<open>After \<open>n\<close> messages: line \<open>k mod 100\<close> is of message \<open>k\<close>, for the last hundred messages.\<close>

definition ring_inv :: "(string \<times> string) list \<Rightarrow> chdbg \<Rightarrow> bool" where
  "ring_inv ms d \<longleftrightarrow> length (dbg_arr d) = 100 \<and> idx d = length ms mod 100 \<and>
     (\<forall>k < length ms. length ms \<le> k + 100 \<longrightarrow> dbg_arr d ! (k mod 100) = line_of k (ms ! k)) \<and>
     (\<forall>j < 100. length ms \<le> j \<longrightarrow> dbg_arr d ! j = '''')"

lemma same_slot: "k < n \<Longrightarrow> n < k + 100 \<Longrightarrow> k mod 100 \<noteq> n mod (100 :: nat)"
proof
  assume a: "k < n" "n < k + 100" "k mod 100 = n mod 100"
  then have "(n - k) mod 100 = 0" by (metis less_imp_le mod_eq_dvd_iff_nat dvd_imp_mod_0)
  moreover have "n - k < 100" "n - k \<noteq> 0" using a by linarith+
  ultimately show False by simp
qed

lemma ring_step:
  assumes "ring_inv ms d"
  shows "ring_inv (ms @ [m]) (wifi_dbg (fst m) (snd m) d)"
proof -
  let ?n = "length ms"
  have l: "length (dbg_arr d) = 100" "idx d = ?n mod 100" using assms by (simp_all add: ring_inv_def)
  have w: "wifi_dbg (fst m) (snd m) d =
      d\<lparr>dbg_arr := (dbg_arr d)[?n mod 100 := line_of ?n m], idx := Suc ?n mod 100\<rparr>"
    by (simp add: wifi_dbg_def Let_def l(2) line_of_def snprintf_def MAX_LINES_def MAX_LINE_LEN_def mod_Suc_eq)
  have old: "(dbg_arr d)[?n mod 100 := x] ! (k mod 100) = line_of k (ms ! k)"
    if "k < ?n" "Suc ?n \<le> k + 100" for k x
    using that assms same_slot [of k ?n] by (simp add: ring_inv_def)
  have empty: "(dbg_arr d)[?n mod 100 := x] ! j = ''''" if "j < 100" "Suc ?n \<le> j" for j x
    using that assms by (simp add: ring_inv_def)
  show ?thesis
    unfolding w ring_inv_def using old empty l
    by (auto simp: less_Suc_eq nth_append)
qed

lemma ring_log: "ring_inv ms (log_all ms chdbg0)"
proof (induction ms rule: rev_induct)
  case (snoc m ms)
  then show ?case using ring_step [of ms _ m] by (simp add: log_all_def split_beta)
qed (simp add: ring_inv_def log_all_def chdbg0_def MAX_LINES_def)

text \<open>The message whose line is in slot \<open>j\<close>, if one is.\<close>

definition slot_msg :: "nat \<Rightarrow> nat \<Rightarrow> nat" where
  "slot_msg n j = j + 100 * ((n - 1 - j) div 100)"

lemma slot_msg: "j < n \<Longrightarrow> j < 100 \<Longrightarrow> slot_msg n j < n \<and> n \<le> slot_msg n j + 100 \<and> slot_msg n j mod 100 = j"
  using div_mult_mod_eq [of "n - 1 - j" 100] mod_less_divisor [of 100 "n - 1 - j"]
  unfolding slot_msg_def by simp linarith

lemma ring_slot:
  assumes "j < 100"
  shows "dbg_arr (log_all ms chdbg0) ! j =
    (if j < length ms then line_of (slot_msg (length ms) j) (ms ! slot_msg (length ms) j) else '''')"
  using ring_log [of ms] slot_msg [of j "length ms"] assms unfolding ring_inv_def by (metis leI)

lemma ring_length: "length (dbg_arr (log_all ms chdbg0)) = 100"
  using ring_log [of ms] by (simp add: ring_inv_def)

text \<open>
  The ring keeps the last hundred messages: after any sequence of messages, each of the
  last hundred is in the line of its number modulo a hundred, cut to 127 characters, and a
  line no message has reached is empty.
\<close>

theorem chdbg_ring:
  "length (dbg_arr (log_all ms chdbg0)) = 100 \<and>
   (\<forall>j < 100. dbg_arr (log_all ms chdbg0) ! j =
     (if j < length ms then line_of (slot_msg (length ms) j) (ms ! slot_msg (length ms) j) else '''')) \<and>
   (\<forall>k < length ms. length ms \<le> k + 100 \<longrightarrow> dbg_arr (log_all ms chdbg0) ! (k mod 100) = line_of k (ms ! k))"
  using ring_slot ring_length ring_log [of ms] by (simp add: ring_inv_def)

lemma dec_small: "dec 0 = ''0''" "dec (Suc 0) = ''1''"
  by (simp_all add: dec.simps char_of_def bit_0)

theorem chdbg_ring_witness:
  "dbg_arr (log_all [(''scan'', ''start''), (''scan'', ''done'')] chdbg0) ! 1 = ''i=1  scan : done''"
  using conjunct1 [OF conjunct2 [OF chdbg_ring [of "[(''scan'', ''start''), (''scan'', ''done'')]"]]]
  by (simp add: slot_msg_def line_of_def dec_small)

section \<open>Reading\<close>

lemma strlcat_take: "strlcat (take (n - 1) s) t n = take (n - 1) (s @ t)"
proof -
  have "take (n - 1) (take (n - 1) s @ t) = take (n - 1) (s @ t)" by (auto simp: min_def)
  then show ?thesis by (cases n) (auto simp: strlcat_def)
qed

lemma read_lines_take:
  "read_lines ls n (take (n - 1) s) = take (n - 1) (s @ concat (map (\<lambda>l. l @ [newline]) ls))"
proof (induction ls arbitrary: s)
  case (Cons l ls)
  have "strlcat (strlcat (take (n - 1) s) l n) [newline] n = take (n - 1) ((s @ l) @ [newline])"
    by (simp only: strlcat_take)
  then show ?case using Cons [of "s @ l @ [newline]"] by simp
qed simp

text \<open>The whole log as text.\<close>

definition log_text :: "chdbg \<Rightarrow> string" where
  "log_text d = concat (map (\<lambda>l. l @ [newline]) (dbg_arr d))"

text \<open>
  A read of the device delivers the log from its beginning, every line with a newline,
  cut to 12799 characters and to what the caller asked for, wherever the caller's offset is:
  reading on does not reach the rest, and the second of two reads delivers the same text.
\<close>

theorem chdbg_read_restarts:
  "uio_data (snd (my_device_read False d u)) = uio_data u @ take (uio_resid u) (take 12799 (log_text d)) \<and>
   uio_data (snd (my_device_read False d (snd (my_device_read False d u)\<lparr>uio_resid := uio_resid u\<rparr>))) =
     uio_data u @ take (uio_resid u) (take 12799 (log_text d)) @ take (uio_resid u) (take 12799 (log_text d))"
proof -
  define t where "t = take 12799 (log_text d)"
  have b: "read_lines (dbg_arr d) (MAX_LINES * MAX_LINE_LEN) '''' = t"
    using read_lines_take [of "dbg_arr d" "MAX_LINES * MAX_LINE_LEN" "''''"]
    by (simp add: t_def log_text_def MAX_LINES_def MAX_LINE_LEN_def)
  have m: "take (min (length s) r) s = take r s" for r and s :: string by (simp add: min_def)
  show ?thesis unfolding my_device_read_def Let_def b uiomove_def t_def [symmetric] by (simp add: m)
qed

text \<open>
  A full log loses its last newline: 100 lines of 127 characters with their newlines are
  12800 characters, one more than the buffer holds before its NUL.
\<close>

lemma chdbg_last_newline_lost:
  assumes "length (dbg_arr d) = 100" "\<forall>l \<in> set (dbg_arr d). length l = 127"
  shows "length (log_text d) = 12800" "take 12799 (log_text d) \<noteq> log_text d"
    "last (log_text d) = newline"
proof -
  have "length (log_text d) = sum_list (map (\<lambda>l. Suc (length l)) (dbg_arr d))"
    by (simp add: log_text_def length_concat comp_def)
  also have "\<dots> = sum_list (map (\<lambda>l. 128) (dbg_arr d))"
    by (rule arg_cong [of _ _ sum_list], rule map_cong [OF refl]) (use assms(2) in auto)
  finally show n: "length (log_text d) = 12800" by (simp add: sum_list_triv assms(1))
  show "take 12799 (log_text d) \<noteq> log_text d"
  proof
    assume "take 12799 (log_text d) = log_text d"
    then have "length (take 12799 (log_text d)) = 12800" using n by simp
    then show False using n by simp
  qed
  have "dbg_arr d \<noteq> []" using assms(1) by auto
  then have "log_text d = concat (map (\<lambda>l. l @ [newline]) (butlast (dbg_arr d))) @ last (dbg_arr d) @ [newline]"
    unfolding log_text_def by (subst append_butlast_last_id [symmetric]) (simp_all del: append_butlast_last_id)
  then show "last (log_text d) = newline" by simp
qed

section \<open>The program\<close>

text \<open>
  While the device holds the log \<open>d\<close> every refill delivers the same text, the beginning of
  the log, so the stream is this block over and over.
\<close>

definition block :: "nat \<Rightarrow> chdbg \<Rightarrow> string" where
  "block bsz d = take (min bsz 12799) (log_text d)"

lemma srefill_block:
  "srefill bsz (\<lambda>_. False) (\<lambda>_. d) f =
     (True, f\<lparr>f_buf := block bsz d, f_reads := f_reads f + 1, f_off := f_off f + length (block bsz d),
              f_eof := block bsz d = ''''\<rparr>)"
proof -
  let ?b = "take 12799 (log_text d)"
  have b: "read_lines (dbg_arr d) (MAX_LINES * MAX_LINE_LEN) '''' = ?b"
    using read_lines_take [of "dbg_arr d" "MAX_LINES * MAX_LINE_LEN" "''''"]
    by (simp add: log_text_def MAX_LINES_def MAX_LINE_LEN_def)
  have t: "take (min (length ?b) bsz) ?b = block bsz d" and l: "min (length ?b) bsz = length (block bsz d)"
    by (simp_all add: block_def min_def)
  show ?thesis unfolding srefill_def my_device_read_def Let_def b uiomove_def
    using t l by simp
qed

abbreviation reader :: "chdbg \<Rightarrow> nat \<Rightarrow> nat \<Rightarrow> FILE \<Rightarrow> string option \<times> FILE" where
  "reader d bsz n f \<equiv> fgets_loop bsz (\<lambda>_. False) (\<lambda>_. d) n f"

lemma next_char_buf: "f_buf f = c # cs \<Longrightarrow> next_char bsz fault log f = (Char c, f\<lparr>f_buf := cs\<rparr>)"
  by (simp add: next_char_def)

text \<open>A line that is in the buffer whole is read whole.\<close>

lemma loop_line:
  "f_buf f = l @ newline # s \<Longrightarrow> newline \<notin> set l \<Longrightarrow> length l < n \<Longrightarrow>
   reader d bsz n f = (Some (l @ [newline]), f\<lparr>f_buf := s\<rparr>)"
proof (induction n arbitrary: l f)
  case (Suc n)
  then show ?case
  proof (cases l)
    case (Cons c l')
    have "reader d bsz n (f\<lparr>f_buf := l' @ newline # s\<rparr>) = (Some (l' @ [newline]), f\<lparr>f_buf := s\<rparr>)"
      using Suc.IH [of "f\<lparr>f_buf := l' @ newline # s\<rparr>" l'] Suc.prems Cons by simp
    then show ?thesis using Suc.prems Cons by (auto simp: next_char_buf)
  qed (simp add: next_char_buf)
qed simp

text \<open>What is read is what was in the buffer and then the block again and again.\<close>

lemma next_char_stream:
  assumes "block bsz d \<noteq> ''''" "\<not> f_eof f"
  shows "\<exists>c g i. next_char bsz (\<lambda>_. False) (\<lambda>_. d) f = (Char c, g) \<and> \<not> f_eof g \<and>
      f_buf f @ concat (replicate i (block bsz d)) = c # f_buf g"
proof (cases "f_buf f")
  case Nil
  obtain c cs where b: "block bsz d = c # cs" using assms(1) by (cases "block bsz d") auto
  then show ?thesis using Nil assms(2)
    by (intro exI [of _ c] exI [of _ "snd (next_char bsz (\<lambda>_. False) (\<lambda>_. d) f)"] exI [of _ "Suc 0"])
      (simp add: next_char_def srefill_block)
next
  case (Cons c cs)
  then show ?thesis using assms(2)
    by (intro exI [of _ c] exI [of _ "f\<lparr>f_buf := cs\<rparr>"] exI [of _ 0]) (simp add: next_char_buf)
qed

lemma loop_stream:
  assumes "block bsz d \<noteq> ''''" "\<not> f_eof f"
  shows "\<exists>s f' j. reader d bsz n f = (Some s, f') \<and> \<not> f_eof f' \<and> (n \<noteq> 0 \<longrightarrow> s \<noteq> '''') \<and>
     f_buf f @ concat (replicate j (block bsz d)) = s @ f_buf f'"
  using assms(2)
proof (induction n arbitrary: f)
  case 0
  then show ?case by (intro exI [of _ "''''"] exI [of _ f] exI [of _ 0]) simp
next
  case (Suc n)
  let ?b = "block bsz d"
  obtain c g i where n: "next_char bsz (\<lambda>_. False) (\<lambda>_. d) f = (Char c, g)" "\<not> f_eof g"
      "f_buf f @ concat (replicate i ?b) = c # f_buf g"
    using next_char_stream [OF assms(1) Suc.prems] by blast
  from Suc.IH [OF n(2)] obtain s f' j where l: "reader d bsz n g = (Some s, f')" "\<not> f_eof f'"
      "f_buf g @ concat (replicate j ?b) = s @ f_buf f'" by blast
  have e: "f_buf f @ concat (replicate (i + j) ?b) = c # s @ f_buf f'"
    using n(3) l(3) by (simp add: replicate_add) (metis append_Cons append_assoc)
  show ?case
  proof (cases "c = newline")
    case True
    then show ?thesis using n
      by (intro exI [of _ "[c]"] exI [of _ g] exI [of _ i]) simp
  next
    case False
    then show ?thesis using n l e
      by (intro exI [of _ "c # s"] exI [of _ f'] exI [of _ "i + j"]) simp
  qed
qed

abbreviation printed :: "chdbg \<Rightarrow> nat \<Rightarrow> nat \<Rightarrow> FILE \<Rightarrow> string" where
  "printed d bsz lc f \<equiv> print_lines bsz (\<lambda>_. False) (\<lambda>_. d) lc f"

lemma printed_stream:
  assumes "block bsz d \<noteq> ''''" "\<not> f_eof f"
  shows "\<exists>(f' :: FILE) j. f_buf f @ concat (replicate j (block bsz d)) = printed d bsz lc f @ f_buf f'"
  using assms(2)
proof (induction lc arbitrary: f)
  case 0
  show ?case by (intro exI [of _ f] exI [of _ 0]) simp
next
  case (Suc lc)
  obtain s g i where g: "reader d bsz 128 f = (Some s, g)" "\<not> f_eof g" "s \<noteq> ''''"
      "f_buf f @ concat (replicate i (block bsz d)) = s @ f_buf g"
    using loop_stream [OF assms(1) Suc.prems, of 128] by auto
  obtain f' :: FILE and j where "f_buf g @ concat (replicate j (block bsz d)) = printed d bsz lc g @ f_buf f'"
    using Suc.IH [OF g(2)] by blast
  then have "f_buf f @ concat (replicate (i + j) (block bsz d)) = s @ printed d bsz lc g @ f_buf f'"
    using g(4) by (simp add: replicate_add) (metis append_assoc)
  then show ?case using g(1,3)
    by (intro exI [of _ f'] exI [of _ "i + j"]) (simp add: fgets_def)
qed

definition whole_lines :: "string list \<Rightarrow> bool" where
  "whole_lines ls \<longleftrightarrow> (\<forall>l \<in> set ls. newline \<notin> set l \<and> length l \<le> 127)"

lemma whole_lines_Cons [simp]:
  "whole_lines (l # ls) \<longleftrightarrow> newline \<notin> set l \<and> length l \<le> 127 \<and> whole_lines ls"
  by (auto simp: whole_lines_def)

text \<open>Lines that are in the buffer whole are printed; if the buffer ends before, more than it is.\<close>

lemma printed_all:
  "whole_lines ls \<Longrightarrow> f_buf f = concat (map (\<lambda>l. l @ [newline]) ls) \<Longrightarrow>
   printed d bsz (length ls) f = concat (map (\<lambda>l. l @ [newline]) ls)"
proof (induction ls arbitrary: f)
  case (Cons l ls)
  then have "reader d bsz 128 f = (Some (l @ [newline]), f\<lparr>f_buf := concat (map (\<lambda>l. l @ [newline]) ls)\<rparr>)"
    by (intro loop_line) auto
  with Cons.IH [of "f\<lparr>f_buf := concat (map (\<lambda>l. l @ [newline]) ls)\<rparr>"] Cons.prems show ?case
    by (simp add: fgets_def)
qed simp

lemma loop_past:
  assumes "block bsz d \<noteq> ''''"
  shows "\<not> f_eof f \<Longrightarrow> newline \<notin> set (f_buf f) \<Longrightarrow> length (f_buf f) < n \<Longrightarrow>
    \<exists>s f'. reader d bsz n f = (Some s, f') \<and> length (f_buf f) < length s"
proof (induction n arbitrary: f)
  case (Suc n)
  show ?case
  proof (cases "f_buf f")
    case Nil
    then show ?thesis using loop_stream [OF assms Suc.prems(1), of "Suc n"] by fastforce
  next
    case (Cons c cs)
    then obtain s f' where "reader d bsz n (f\<lparr>f_buf := cs\<rparr>) = (Some s, f')" "length cs < length s"
      using Suc.IH [of "f\<lparr>f_buf := cs\<rparr>"] Suc.prems by auto
    then show ?thesis using Cons Suc.prems(2) by (auto simp: next_char_buf)
  qed
qed simp

lemma printed_past:
  assumes "block bsz d \<noteq> ''''"
  shows "whole_lines ls \<Longrightarrow> \<not> f_eof f \<Longrightarrow> f_buf f = take m (concat (map (\<lambda>l. l @ [newline]) ls)) \<Longrightarrow>
    m < length (concat (map (\<lambda>l. l @ [newline]) ls)) \<Longrightarrow> m < length (printed d bsz (length ls) f)"
proof (induction ls arbitrary: f m)
  case (Cons l ls)
  let ?r = "concat (map (\<lambda>l. l @ [newline]) ls)"
  show ?case
  proof (cases "m \<le> length l")
    case True
    then have b: "f_buf f = take m l" using Cons.prems(3) by simp
    then have "newline \<notin> set (f_buf f)" "length (f_buf f) < 128" "length (f_buf f) = m"
      using Cons.prems(1) True by (auto dest: in_set_takeD)
    then obtain s f' where "reader d bsz 128 f = (Some s, f')" "m < length s"
      using loop_past [OF assms Cons.prems(2), of 128] by auto
    then show ?thesis by (auto simp: fgets_def)
  next
    case False
    then have b: "f_buf f = l @ newline # take (m - length l - 1) ?r" using Cons.prems(3)
      by (simp add: take_Cons')
    then have r: "reader d bsz 128 f = (Some (l @ [newline]), f\<lparr>f_buf := take (m - length l - 1) ?r\<rparr>)"
      using Cons.prems(1) by (intro loop_line) auto
    from Cons.IH [of "f\<lparr>f_buf := take (m - length l - 1) ?r\<rparr>" "m - length l - 1"] Cons.prems False
    have "m - length l - 1 < length (printed d bsz (length ls) (f\<lparr>f_buf := take (m - length l - 1) ?r\<rparr>))"
      by simp
    then show ?thesis using r by (simp add: fgets_def)
  qed
qed simp

lemma dec_no_newline: "newline \<notin> set (dec n)"
proof (induction n rule: less_induct)
  case (less n)
  have c: "char_of (48 + k) \<noteq> newline" if "k < 10" for k :: nat
  proof
    assume "char_of (48 + k) = newline"
    then have "of_char (char_of (48 + k)) = (10 :: nat)" by simp
    then show False using that by (simp add: of_char_of)
  qed
  show ?case using less [of "n div 10"] c [of n] c [of "n mod 10"] by (auto simp: dec.simps [of n])
qed

text \<open>The lines of the ring are whole lines if the messages are.\<close>

lemma ring_lines:
  assumes "\<forall>(m, t) \<in> set ms. newline \<notin> set m \<and> newline \<notin> set t" "l \<in> set (dbg_arr (log_all ms chdbg0))"
  shows "newline \<notin> set l \<and> length l \<le> 127"
proof -
  obtain j where j: "j < 100" "l = dbg_arr (log_all ms chdbg0) ! j"
    using assms(2) ring_length [of ms] by (auto simp: in_set_conv_nth)
  show ?thesis
  proof (cases "j < length ms")
    case True
    let ?k = "slot_msg (length ms) j"
    have "ms ! ?k \<in> set ms" using slot_msg [OF True j(1)] by simp
    then have "newline \<notin> set (fst (ms ! ?k))" "newline \<notin> set (snd (ms ! ?k))" using assms(1) by auto
    moreover have "l = line_of ?k (ms ! ?k)" using True j ring_slot by simp
    ultimately show ?thesis using dec_no_newline by (auto simp: line_of_def dest: in_set_takeD)
  qed (use j ring_slot in simp)
qed

lemma log_text_lines: "log_text (log_all ms chdbg0) \<noteq> ''''"
  using ring_length [of ms] by (cases "dbg_arr (log_all ms chdbg0)") (auto simp: log_text_def)

definition filled :: "nat \<Rightarrow> chdbg \<Rightarrow> FILE" where
  "filled bsz d = \<lparr>f_buf = block bsz d, f_reads = 1, f_off = length (block bsz d), f_eof = False\<rparr>"

lemma printed_refill:
  assumes "block bsz d \<noteq> ''''"
  shows "printed d bsz 100 fopen0 = printed d bsz 100 (filled bsz d)"
proof -
  have "next_char bsz (\<lambda>_. False) (\<lambda>_. d) fopen0 = next_char bsz (\<lambda>_. False) (\<lambda>_. d) (filled bsz d)"
    using assms by (cases "block bsz d") (simp_all add: next_char_def srefill_block fopen0_def filled_def)
  then have "reader d bsz (Suc 127) fopen0 = reader d bsz (Suc 127) (filled bsz d)"
    by (simp only: fgets_loop.simps)
  then have "printed d bsz (Suc 99) fopen0 = printed d bsz (Suc 99) (filled bsz d)"
    by (simp only: print_lines.simps fgets_def) simp
  then show ?thesis by simp
qed

text \<open>
  C37. End to end: what the program prints of a log of messages without newlines that does
  not change while it runs, for every block size of the stream, when the device can be opened
  and read. A log of at most one block that fits the device's buffer is printed as it is, the
  hundred lines of the ring in the order of the ring. Of a longer log only the first block is
  printed; in the place of the rest comes the block again from its beginning, at least one
  character of it, since every read of the device restarts.
\<close>

theorem chdbg_end_to_end:
  assumes "\<forall>(m, t) \<in> set ms. newline \<notin> set m \<and> newline \<notin> set t" "0 < bsz"
  shows "let d = log_all ms chdbg0; log = log_text d; b = take (min bsz 12799) log;
            (out, status) = wifi_dbg_main True bsz (\<lambda>_. False) (\<lambda>_. d)
    in status = 0 \<and> (length log \<le> min bsz 12799 \<longrightarrow> out = log) \<and>
       (min bsz 12799 < length log \<longrightarrow>
         (\<exists>j k. 0 < k \<and> k \<le> j * length b \<and> out = b @ take k (concat (replicate j b))))"
proof -
  define d where "d = log_all ms chdbg0"
  define out where "out = printed d bsz 100 (filled bsz d)"
  have ne: "block bsz d \<noteq> ''''" using assms(2) log_text_lines [of ms] by (simp add: block_def d_def)
  have m: "wifi_dbg_main True bsz (\<lambda>_. False) (\<lambda>_. d) = (out, 0)"
    using printed_refill [OF ne] by (simp add: wifi_dbg_main_def MAX_LINES_def out_def)
  have w: "whole_lines (dbg_arr d)" "length (dbg_arr d) = 100"
    using ring_lines [OF assms(1)] ring_length [of ms] by (auto simp: whole_lines_def d_def)
  have short: "out = log_text d" if "length (log_text d) \<le> min bsz 12799"
    using printed_all [OF w(1), of "filled bsz d"] w(2) that
    by (simp add: out_def filled_def block_def log_text_def)
  have long: "\<exists>j k. 0 < k \<and> k \<le> j * length (block bsz d) \<and>
      out = block bsz d @ take k (concat (replicate j (block bsz d)))" if l: "min bsz 12799 < length (log_text d)"
  proof -
    have "length (block bsz d) < length out"
      using printed_past [OF ne w(1), of "filled bsz d" "min bsz 12799"] w(2) l
      by (simp add: out_def filled_def block_def log_text_def)
    moreover obtain f' :: FILE and j where "block bsz d @ concat (replicate j (block bsz d)) = out @ f_buf f'"
      using printed_stream [OF ne, of "filled bsz d" 100] by (auto simp: out_def filled_def)
    ultimately obtain r where r: "out = block bsz d @ r" "r \<noteq> ''''"
        "concat (replicate j (block bsz d)) = r @ f_buf f'"
      by (auto simp: append_eq_append_conv2)
    have "length (concat (replicate j (block bsz d))) = j * length (block bsz d)"
      by (simp add: length_concat sum_list_replicate)
    then have "length r \<le> j * length (block bsz d)" using r(3) by simp
    then show ?thesis using r by (intro exI [of _ j] exI [of _ "length r"]) simp
  qed
  show ?thesis using m short long by (simp add: Let_def d_def block_def)
qed

theorem chdbg_end_to_end_witness:
  "fst (wifi_dbg_main True 4096 (\<lambda>_. False) (\<lambda>_. log_all [(''scan'', ''start'')] chdbg0)) =
     ''i=0  scan : start'' @ replicate 100 newline \<and>
   take 16 (fst (wifi_dbg_main True 8 (\<lambda>_. False) (\<lambda>_. log_all [(''scan'', ''start'')] chdbg0))) \<noteq>
     ''i=0  scan : star''"
proof -
  let ?ms = "[(''scan'', ''start'')]"
  have t: "log_text (log_all ?ms chdbg0) = ''i=0  scan : start'' @ replicate 100 newline"
  proof -
    have "replicate 100 ('''' :: string) = '''' # replicate 99 ''''"
      using replicate_Suc [of 99 "'''' :: string"] by simp
    then have "dbg_arr (log_all ?ms chdbg0) = ''i=0  scan : start'' # replicate 99 ''''"
      by (simp add: log_all_def wifi_dbg_def chdbg0_def snprintf_def MAX_LINES_def MAX_LINE_LEN_def dec_small)
    moreover have "concat (map (\<lambda>l. l @ [newline]) (replicate n ('''' :: string))) = replicate n newline" for n
      by (induction n) auto
    moreover have "replicate 100 newline = newline # replicate 99 newline"
      using replicate_Suc [of 99 newline] by simp
    ultimately show ?thesis by (simp add: log_text_def)
  qed
  have nl: "\<forall>(m, t) \<in> set ?ms. newline \<notin> set m \<and> newline \<notin> set t" by simp
  have a: "fst (wifi_dbg_main True 4096 (\<lambda>_. False) (\<lambda>_. log_all ?ms chdbg0)) =
      ''i=0  scan : start'' @ replicate 100 newline"
    using chdbg_end_to_end [OF nl, of 4096] by (simp add: t Let_def split_beta)
  obtain j k where k: "0 < k" "k \<le> j * 8"
      "fst (wifi_dbg_main True 8 (\<lambda>_. False) (\<lambda>_. log_all ?ms chdbg0)) =
       ''i=0  sca'' @ take k (concat (replicate j ''i=0  sca''))"
    using chdbg_end_to_end [OF nl, of 8] by (auto simp: t Let_def split_beta)
  have "fst (wifi_dbg_main True 8 (\<lambda>_. False) (\<lambda>_. log_all ?ms chdbg0)) ! 8 = CHR ''i''"
    using k by (cases j; cases k) (simp_all add: nth_append)
  then have i: "take 16 (fst (wifi_dbg_main True 8 (\<lambda>_. False) (\<lambda>_. log_all ?ms chdbg0))) ! 8 = CHR ''i''" by simp
  have "take 16 (fst (wifi_dbg_main True 8 (\<lambda>_. False) (\<lambda>_. log_all ?ms chdbg0))) \<noteq> ''i=0  scan : star''"
  proof
    assume "take 16 (fst (wifi_dbg_main True 8 (\<lambda>_. False) (\<lambda>_. log_all ?ms chdbg0))) = ''i=0  scan : star''"
    with i show False by (simp only:) simp
  qed
  with a show ?thesis by blast
qed

end
