(* ===== verification/RxSeq.thy ===== *)
theory RxSeq
  imports RxReorder
begin

text \<open>
  The state a node keeps for the receive path, and duplicate detection
  (\<open>ieee80211_check_rxseq\<close> of freebsd/sys/net80211/ieee80211_input.h). The node's reorder
  sessions and the counters they share are those of RxReorder; a frame given to \<open>m_freem\<close> goes
  to its \<open>freed\<close> list. What is delivered to the network stack is listed in \<open>delivered\<close>.
\<close>

section \<open>State\<close>

record input_stats =
  is_rx_defrag :: u32
  is_amsdu_decap :: u32
  is_amsdu_tooshort :: u32
  is_amsdu_split :: u32
  is_rx_badversion :: u32
  is_rx_wrongbss :: u32
  is_rx_wrongdir :: u32
  is_rx_mcastecho :: u32
  is_rx_noprivacy :: u32
  is_rx_demicfail :: u32
  is_rx_decap :: u32
  is_rx_unauth :: u32
  is_rx_unencrypted :: u32
  is_rx_mgmt :: u32
  is_rx_mgtdiscard :: u32
  is_rx_ctl :: u32
  ns_rx_defrag :: u32
  ns_rx_data :: u32
  ns_rx_bytes :: u64
  ns_rx_mcast :: u32
  ns_rx_ucast :: u32
  ns_rx_noprivacy :: u32
  ns_rx_wepfail :: u32
  ns_rx_demicfail :: u32
  ns_rx_decap :: u32
  ns_rx_unauth :: u32
  ns_rx_unencrypted :: u32
  ns_rx_mgmt :: u32
  ns_rx_ctrl :: u32
  if_ipackets :: u64
  if_ierrors :: u64

text \<open>What the flags \<open>M_MCAST\<close> and \<open>M_BCAST\<close> of a delivered frame say.\<close>

datatype ether_cast = Ucast | Mcast | Bcast

text \<open>\<open>ni_table\<close>: the node is in a node table. \<open>ni_rxfrag\<close> is the first entry of the array.\<close>

record ni_rx =
  ni_flags :: u32
  ni_rxseqs :: "u16 list"
  ni_ampdu :: rx_node
  ni_rxfrag :: "mbuf option"
  ni_rxfragstamp :: u32
  ni_table :: bool
  ni_vlan :: u16
  in_stats :: input_stats
  delivered :: "(mbuf \<times> ether_cast \<times> u16 option) list"

abbreviation "NODE_AUTH \<equiv> (0x0001 :: u32)"
abbreviation "NODE_HT \<equiv> (0x0040 :: u32)"
abbreviation "FC1_MORE_FRAG \<equiv> (0x04 :: u8)"
abbreviation "FC1_RETRY \<equiv> (0x08 :: u8)"
abbreviation "FC1_PROTECTED \<equiv> (0x40 :: u8)"

text \<open>The flags of sys/mbuf.h that net80211 uses; only that they differ matters.\<close>

abbreviation "M_BCAST \<equiv> (0x00000010 :: u32)"
abbreviation "M_MCAST \<equiv> (0x00000020 :: u32)"
abbreviation "M_AMPDU \<equiv> (0x00001000 :: u32)"
abbreviation "M_WEP \<equiv> (0x00002000 :: u32)"
abbreviation "M_AMPDU_MPDU \<equiv> (0x00080000 :: u32)"

text \<open>The access classes are best effort 0, background 1, video 2 and voice 3.\<close>

definition TID_TO_WME_AC :: "nat \<Rightarrow> nat" where
  "TID_TO_WME_AC tid = (if tid = 0 \<or> tid = 3 then 0 else if tid < 3 then 1 else if tid < 6 then 2 else 3)"

definition instat :: "(input_stats \<Rightarrow> input_stats) \<Rightarrow> ni_rx \<Rightarrow> ni_rx" where
  "instat f ni = ni\<lparr>in_stats := f (in_stats ni)\<rparr>"

definition rstat :: "(ampdu_stats \<Rightarrow> ampdu_stats) \<Rightarrow> ni_rx \<Rightarrow> ni_rx" where
  "rstat f ni = ni\<lparr>ni_ampdu := (fst (ni_ampdu ni), rxstat f (snd (ni_ampdu ni)))\<rparr>"

definition m_freem :: "mbuf \<Rightarrow> ni_rx \<Rightarrow> ni_rx" where
  "m_freem m ni = ni\<lparr>ni_ampdu := (fst (ni_ampdu ni),
     snd (ni_ampdu ni)\<lparr>freed := freed (snd (ni_ampdu ni)) @ [m]\<rparr>)\<rparr>"

abbreviation ni_freed :: "ni_rx \<Rightarrow> mbuf list" where "ni_freed ni \<equiv> freed (snd (ni_ampdu ni))"

section \<open>Duplicate detection\<close>

definition IEEE80211_HAS_SEQ :: "u8 \<Rightarrow> u8 \<Rightarrow> bool" where
  "IEEE80211_HAS_SEQ type subtype \<longleftrightarrow>
     type \<noteq> 0x04 \<and> \<not> (type = 0x08 \<and> subtype AND 0xc0 = 0xc0)"

definition SEQNO :: "u16 \<Rightarrow> u16" where "SEQNO a = drop_bit 4 a"
definition FRAGNO :: "u16 \<Rightarrow> u16" where "FRAGNO a = a AND 0x000f"

text \<open>\<open>SEQ_LEQ\<close> and \<open>SEQ_EQ\<close> compare differences in \<open>int\<close>: no wrap-around.\<close>

definition SEQ_LEQ :: "u16 \<Rightarrow> u16 \<Rightarrow> bool" where "SEQ_LEQ a b \<longleftrightarrow> uint a - uint b \<le> 0"
definition SEQ_EQ :: "u16 \<Rightarrow> u16 \<Rightarrow> bool" where "SEQ_EQ a b \<longleftrightarrow> uint a - uint b = 0"

text \<open>The code behind the labels \<open>ok\<close> and \<open>fail\<close>.\<close>

definition rxseq_ok :: "nat \<Rightarrow> u16 \<Rightarrow> u32 option \<Rightarrow> ni_rx \<Rightarrow> bool \<times> ni_rx" where
  "rxseq_ok tid rxseq rxs ni =
     (if ieee80211_check_rxseq_amsdu_more rxs then
        let ni = ni\<lparr>ni_rxseqs := (ni_rxseqs ni)[tid := rxseq]\<rparr>
        in (True, if rxs \<noteq> None \<and> ieee80211_check_rxseq_amsdu rxs
                  then rstat (\<lambda>t. t\<lparr>ns_rx_amsdu_more_end := ns_rx_amsdu_more_end t + 1\<rparr>) ni else ni)
      else (True, rstat (\<lambda>t. t\<lparr>ns_rx_amsdu_more := ns_rx_amsdu_more t + 1\<rparr>) ni))"

definition rxseq_fail :: "ni_rx \<Rightarrow> bool \<times> ni_rx" where
  "rxseq_fail ni = (False, rstat (\<lambda>t. t\<lparr>is_rx_dup := is_rx_dup t + 1, ns_rx_dup := ns_rx_dup t + 1\<rparr>) ni)"

definition ieee80211_check_rxseq :: "u8 list \<Rightarrow> u32 option \<Rightarrow> ni_rx \<Rightarrow> bool \<times> ni_rx" where
  "ieee80211_check_rxseq wh rxs ni =
     (let rxseq = i_seq wh; type = wh ! 0 AND 0x0c; subtype = wh ! 0 AND 0xf0
      in if \<not> IEEE80211_HAS_SEQ type subtype then (True, ni)
         else if IEEE80211_IS_MULTICAST (i_addr1 wh) then (True, ni)
         else
           let tid = ieee80211_gettid wh; retry = (wh ! 1 AND FC1_RETRY \<noteq> 0);
               last = ni_rxseqs ni ! tid
           in if tid < 16 \<and> ni_flags ni AND NODE_HT \<noteq> 0 \<and>
                 rxa_flags (fst (ni_ampdu ni) ! tid) AND AGGR_RUNNING \<noteq> 0
              then rxseq_ok tid rxseq rxs ni
              else if SEQNO last = 4095 then
                (if SEQ_EQ rxseq last \<and> retry then rxseq_fail ni else rxseq_ok tid rxseq rxs ni)
              else if retry \<and> SEQ_LEQ rxseq last then rxseq_fail ni
              else rxseq_ok tid rxseq rxs ni)"

end
