(* ===== verification/RxDefrag.thy ===== *)
theory RxDefrag
  imports RxSeq
begin

text \<open>
  Reassembly of fragments (\<open>ieee80211_defrag\<close> of freebsd/sys/net80211/ieee80211_input.c). The
  node keeps one incomplete frame, to which the bodies of further fragments are appended with
  \<open>m_catpkt\<close>. That function may copy the data of the second chain into free room of the first;
  it is an argument, and \<open>catpkts\<close> is what its caller relies on.
\<close>

type_synonym m_catpkt = "u8 list list \<Rightarrow> u8 list list \<Rightarrow> u8 list list"

definition catpkts :: "m_catpkt \<Rightarrow> bool" where
  "catpkts cat \<longleftrightarrow> (\<forall>a b. a \<noteq> [] \<longrightarrow> cat a b \<noteq> [] \<and> concat (cat a b) = concat a @ concat b \<and>
     take (length (hd a)) (hd (cat a b)) = hd a)"

text \<open>Writing into the header of a frame.\<close>

definition hdr_update :: "(u8 list \<Rightarrow> u8 list) \<Rightarrow> mbuf \<Rightarrow> mbuf" where
  "hdr_update f m = m\<lparr>m_segs := f (mtod m) # tl (m_segs m)\<rparr>"

definition set_protected :: "u8 list \<Rightarrow> u8 list" where
  "set_protected wh = wh[1 := wh ! 1 OR FC1_PROTECTED]"

definition clear_protected :: "u8 list \<Rightarrow> u8 list" where
  "clear_protected wh = wh[1 := wh ! 1 AND NOT FC1_PROTECTED]"

text \<open>The new fragment continues the frame \<open>lwh\<close>; \<open>last_rxseq+1\<close> is an \<open>int\<close>.\<close>

definition frag_continues :: "u8 list \<Rightarrow> u8 list \<Rightarrow> bool" where
  "frag_continues lwh wh \<longleftrightarrow> uint (i_seq wh) = uint (i_seq lwh) + 1 \<and>
     IEEE80211_ADDR_EQ (i_addr1 wh) (i_addr1 lwh) \<and> IEEE80211_ADDR_EQ (i_addr2 wh) (i_addr2 lwh) \<and>
     (wh ! 1 XOR lwh ! 1) AND FC1_PROTECTED = 0"

text \<open>
  The fragment \<open>m\<close> with the frame \<open>mfrag\<close> that was taken from the node: the frame to go on
  with and the node after the frees of the code's \<open>if\<close> statements.
\<close>

definition defrag_join ::
  "m_catpkt \<Rightarrow> nat \<Rightarrow> mbuf \<Rightarrow> mbuf \<Rightarrow> ni_rx \<Rightarrow> mbuf option \<times> ni_rx" where
  "defrag_join cat hdrspace mfrag m ni =
     (let wh = mtod m; lwh = mtod mfrag in
      if frag_continues lwh wh then
        let mfrag = hdr_update (\<lambda>lwh. lwh[22 := wh ! 22, 23 := wh ! 23]) mfrag
        in (Some (mfrag\<lparr>m_segs := cat (m_segs mfrag) (m_adj_front hdrspace (m_segs m))\<rparr>), ni)
      else (None, m_freem mfrag ni))"

text \<open>
  The result is the C return value; \<open>None\<close> stands for a header that is not in the first mbuf
  of the frame or of the one kept.
\<close>

definition ieee80211_defrag ::
  "m_catpkt \<Rightarrow> u32 \<Rightarrow> mbuf \<Rightarrow> nat \<Rightarrow> bool \<Rightarrow> ni_rx \<Rightarrow> (mbuf option \<times> ni_rx) option" where
  "ieee80211_defrag cat ticks m hdrspace has_decrypted ni =
     (if length (mtod m) < 24 then None
      else
        let wh = mtod m;
            more_frag = (wh ! 1 AND FC1_MORE_FRAG \<noteq> 0);
            fragno = i_seq wh AND 0x000f
        in if \<not> more_frag \<and> fragno = 0 \<and> ni_rxfrag ni = None then Some (Some m, ni)
           else
             let m = (if has_decrypted then hdr_update set_protected m else m)
             in if \<not> ni_table ni then Some (None, m_freem m ni)
                else if (case ni_rxfrag ni of None \<Rightarrow> False | Some mfrag \<Rightarrow> length (mtod mfrag) < 24)
                then None
                else
                  let (mfrag, ni) =
                        (case ni_rxfrag ni of None \<Rightarrow> (None, ni\<lparr>ni_rxfrag := None\<rparr>)
                         | Some mfrag \<Rightarrow> defrag_join cat hdrspace mfrag m (ni\<lparr>ni_rxfrag := None\<rparr>))
                  in if mfrag = None \<and> fragno \<noteq> 0 then
                       Some (None, m_freem m (instat (\<lambda>s. s\<lparr>is_rx_defrag := is_rx_defrag s + 1,
                         ns_rx_defrag := ns_rx_defrag s + 1\<rparr>) ni))
                     else
                       let mfrag = (case mfrag of None \<Rightarrow> m | Some mfrag \<Rightarrow> mfrag)
                       in if more_frag then
                            Some (None, ni\<lparr>ni_rxfragstamp := ticks, ni_rxfrag := Some mfrag\<rparr>)
                          else Some (Some (hdr_update clear_protected mfrag), ni))"

text \<open>
  The node drops an incomplete frame when a second has passed (\<open>ieee80211_timeout_stations\<close>
  of ieee80211_node.c) and when it is drained; \<open>ticks\<close> is compared as an unsigned number.
\<close>

definition rxfrag_free :: "ni_rx \<Rightarrow> ni_rx" where
  "rxfrag_free ni = (case ni_rxfrag ni of None \<Rightarrow> ni | Some m \<Rightarrow> (m_freem m ni)\<lparr>ni_rxfrag := None\<rparr>)"

definition rxfrag_expire :: "u32 \<Rightarrow> u32 \<Rightarrow> ni_rx \<Rightarrow> ni_rx" where
  "rxfrag_expire ticks hz ni =
     (if ni_rxfrag ni \<noteq> None \<and> ticks > ni_rxfragstamp ni + hz then rxfrag_free ni else ni)"

end
