(* ===== verification/RxDecap.thy ===== *)
theory RxDecap
  imports RxDefrag
begin

text \<open>
  From an 802.11 frame to Ethernet frames: \<open>ieee80211_decap\<close>, \<open>ieee80211_decap1\<close> and
  \<open>ieee80211_deliver_data\<close> of freebsd/sys/net80211/ieee80211_input.c and
  \<open>ieee80211_decap_amsdu\<close> of ieee80211_ht.c. The kernel's \<open>m_pullup\<close> and \<open>m_split\<close> may fail
  and are arguments; \<open>pullups\<close> and \<open>splits\<close> are what their callers rely on. Machines whose
  loads need no alignment are modelled (\<open>__NO_STRICT_ALIGNMENT\<close>).
\<close>

type_synonym m_pullup = "u8 list list \<Rightarrow> nat \<Rightarrow> u8 list list option"
type_synonym m_split = "u8 list list \<Rightarrow> nat \<Rightarrow> (u8 list list \<times> u8 list list) option"

definition pullups :: "m_pullup \<Rightarrow> bool" where
  "pullups pull \<longleftrightarrow> (\<forall>segs n segs'. pull segs n = Some segs' \<longrightarrow>
     segs' \<noteq> [] \<and> concat segs' = concat segs \<and> n \<le> length (hd segs'))"

definition splits :: "m_split \<Rightarrow> bool" where
  "splits split \<longleftrightarrow> (\<forall>segs n a b. split segs n = Some (a, b) \<longrightarrow>
     n \<le> pktlen segs \<and> a \<noteq> [] \<and> b \<noteq> [] \<and> concat a = take n (concat segs) \<and> concat b = drop n (concat segs))"

text \<open>Big-endian 16-bit numbers, as \<open>htons\<close> stores and \<open>ntohs\<close> reads them.\<close>

definition be16 :: "u16 \<Rightarrow> u8 list" where "be16 v = [hi8 v, lo8 v]"
definition ntohs :: "u8 \<Rightarrow> u8 \<Rightarrow> u16" where "ntohs hi lo = le16 lo hi"

definition with_segs :: "mbuf \<Rightarrow> u8 list list \<Rightarrow> mbuf" where "with_segs m segs = m\<lparr>m_segs := segs\<rparr>"

text \<open>\<open>m_pullup\<close> where the first mbuf is too short: it frees the chain when it fails.\<close>

definition pull_hdr :: "m_pullup \<Rightarrow> nat \<Rightarrow> mbuf \<Rightarrow> mbuf option" where
  "pull_hdr pull n m =
     (if length (mtod m) < n then map_option (with_segs m) (pull (m_segs m) n) else Some m)"

section \<open>The Ethernet header\<close>

definition ether_hosts :: "u8 list \<Rightarrow> macaddr \<times> macaddr" where
  "ether_hosts wh =
     (let dir = wh ! 1 AND 0x03 in
      if dir = 0 then (i_addr1 wh, i_addr2 wh)
      else if dir = 1 then (i_addr3 wh, i_addr2 wh)
      else if dir = 2 then (i_addr1 wh, i_addr3 wh)
      else (i_addr3 wh, i_addr4 wh))"

definition LLC_SNAP :: "u8 list" where "LLC_SNAP = [0xaa, 0xaa, 0x03, 0, 0, 0]"

text \<open>The LLC header can be dropped: it is the plain SNAP header of a type that is not
  AppleTalk ARP (0x80f3) or IPX (0x8137), and the frame is no A-MSDU.\<close>

definition llc_stripped :: "u8 list \<Rightarrow> u8 \<Rightarrow> bool" where
  "llc_stripped llc qos \<longleftrightarrow> take 6 llc = LLC_SNAP \<and>
     \<not> (drop 6 (take 8 llc) = be16 0x80f3 \<or> drop 6 (take 8 llc) = be16 0x8137) \<and> qos AND 0x80 = 0"

definition ieee80211_decap ::
  "m_pullup \<Rightarrow> mbuf \<Rightarrow> nat \<Rightarrow> u8 \<Rightarrow> vap \<times> ni_rx \<Rightarrow> mbuf option \<times> vap \<times> ni_rx" where
  "ieee80211_decap pull m hdrlen qos s = (case s of (v, ni) \<Rightarrow>
     case pull_hdr pull (hdrlen + 8) m of
       None \<Rightarrow> (None, stat (\<lambda>s. s\<lparr>is_rx_tooshort := is_rx_tooshort s + 1\<rparr>) v, m_freem m ni)
     | Some m \<Rightarrow>
         let wh = take hdrlen (mtod m);
             llc = take 8 (drop hdrlen (mtod m));
             strip = llc_stripped llc qos;
             segs = m_adj_front (if strip then hdrlen + 8 - 14 else hdrlen - 14) (m_segs m);
             (dhost, shost) = ether_hosts wh;
             eh = splice (splice (hd segs) 0 dhost) 6 shost;
             eh = (if strip then eh else splice eh 12 (be16 (word_of_nat (pktlen segs - 14))))
         in (Some (with_segs m (eh # tl segs)), v, ni))"

section \<open>A-MSDUs\<close>

text \<open>
  The result is the frame and its length without the LLC header; \<open>NULL\<close> is \<open>None\<close>. A chain
  that \<open>m_pullup\<close> could not pull up is freed, one that looks like an attack is not.
\<close>

definition ieee80211_decap1 :: "m_pullup \<Rightarrow> mbuf \<Rightarrow> ni_rx \<Rightarrow> (mbuf \<times> nat) option \<times> ni_rx" where
  "ieee80211_decap1 pull m ni =
     (case pull_hdr pull 22 m of
        None \<Rightarrow> (None, m_freem m ni)
      | Some m \<Rightarrow>
          let eh = mtod m in
          if take 6 eh = LLC_SNAP then (None, ni)
          else
            let framelen = unat (ntohs (eh ! 12) (eh ! 13)) + 14 - 8;
                eh = eh[12 := eh ! 20, 13 := eh ! 21];
                eh = splice eh 8 (take 14 eh)
            in (Some (with_segs m (m_adj_front 8 (eh # tl (m_segs m))), framelen), ni))"

text \<open>The flags of a delivered frame, and the tag of its VLAN.\<close>

definition ether_cast :: "macaddr \<Rightarrow> ether_cast" where
  "ether_cast dhost = (if \<not> IEEE80211_IS_MULTICAST dhost then Ucast
     else if dhost = replicate 6 0xff then Bcast else Mcast)"

definition ieee80211_deliver_data :: "mbuf \<Rightarrow> ni_rx \<Rightarrow> ni_rx" where
  "ieee80211_deliver_data m ni =
     (let m = m\<lparr>m_flags := 0\<rparr>;
          cast = ether_cast (take 6 (mtod m));
          ni = instat (\<lambda>s. s\<lparr>if_ipackets := if_ipackets s + 1, ns_rx_data := ns_rx_data s + 1,
                 ns_rx_bytes := ns_rx_bytes s + word_of_nat (pktlen (m_segs m))\<rparr>) ni;
          ni = instat (\<lambda>s. if cast = Ucast then s\<lparr>ns_rx_ucast := ns_rx_ucast s + 1\<rparr>
                 else s\<lparr>ns_rx_mcast := ns_rx_mcast s + 1\<rparr>) ni
      in ni\<lparr>delivered := delivered ni @ [(m, cast, if ni_vlan ni \<noteq> 0 then Some (ni_vlan ni) else None)]\<rparr>)"

definition roundup4 :: "nat \<Rightarrow> nat" where "roundup4 n = (n + 3) div 4 * 4"

partial_function (option) amsdu_loop ::
  "m_pullup \<Rightarrow> m_split \<Rightarrow> mbuf \<Rightarrow> ni_rx \<Rightarrow> (mbuf option \<times> ni_rx) option" where
  "amsdu_loop pull split m ni =
     (case ieee80211_decap1 pull m ni of
        (None, ni) \<Rightarrow> Some (None, instat (\<lambda>s. s\<lparr>is_amsdu_tooshort := is_amsdu_tooshort s + 1\<rparr>) ni)
      | (Some (m, framelen), ni) \<Rightarrow>
          if pktlen (m_segs m) = framelen then Some (Some m, ni)
          else
            case split (m_segs m) framelen of
              None \<Rightarrow> Some (None, m_freem m (instat (\<lambda>s. s\<lparr>is_amsdu_split := is_amsdu_split s + 1\<rparr>) ni))
            | Some (a, b) \<Rightarrow>
                amsdu_loop pull split
                  \<lparr>m_segs = m_adj_front (roundup4 framelen - framelen) b, m_rxs = None, m_flags = 0\<rparr>
                  (ieee80211_deliver_data (with_segs m a) ni))"

definition ieee80211_decap_amsdu ::
  "m_pullup \<Rightarrow> m_split \<Rightarrow> mbuf \<Rightarrow> ni_rx \<Rightarrow> (mbuf option \<times> ni_rx) option" where
  "ieee80211_decap_amsdu pull split m ni =
     amsdu_loop pull split (with_segs m (m_adj_front 14 (m_segs m)))
       (instat (\<lambda>s. s\<lparr>is_amsdu_decap := is_amsdu_decap s + 1\<rparr>) ni)"

end
