(* ===== verification/Output.thy ===== *)
theory Output
  imports RxDecap Crypto
begin

text \<open>
  Transmission of data frames (freebsd/sys/net80211/ieee80211_output.c): classification by
  priority, the key a frame is to be protected with, encapsulation of an Ethernet frame, and
  fragmentation. The result of \<open>ieee80211_encap\<close> is a chain of frames, which the driver passes
  through \<open>ieee80211_crypto_encap\<close> one by one. The build has no mesh and no fast frames.
\<close>

section \<open>State\<close>

datatype ieee80211_opmode = M_IBSS | M_STA | M_WDS | M_AHDEMO | M_HOSTAP | M_MONITOR | M_MBSS

abbreviation "M_EAPOL \<equiv> (0x00004000 :: u32)"
abbreviation "M_FF \<equiv> (0x00020000 :: u32)"
abbreviation "M_FRAG \<equiv> (0x00100000 :: u32)"
abbreviation "M_FIRSTFRAG \<equiv> (0x00200000 :: u32)"
abbreviation "M_LASTFRAG \<equiv> (0x00400000 :: u32)"
abbreviation "M_VLANTAG \<equiv> (0x00000080 :: u32)"

abbreviation "F_WPA \<equiv> (0x01800000 :: u32)"
abbreviation "F_TX_PRIVACY \<equiv> (0x00000010 :: u32)"
abbreviation "FEXT_4ADDR \<equiv> (0x00000100 :: u32)"
abbreviation "FEXT_WDSLEGACY \<equiv> (0x00010000 :: u32)"
abbreviation "FEXT_FRAG_OFFLOAD \<equiv> (0x00200000 :: u32)"
abbreviation "C_TXFRAG \<equiv> (0x40000000 :: u32)"
abbreviation "NODE_QOS \<equiv> (0x0002 :: u32)"

record tx_stats =
  is_tx_nobuf :: u32
  is_crypto_enmicfail :: u32
  is_tx_fragframes :: u32
  is_tx_frags :: u32
  ns_tx_data :: u32
  ns_tx_mcast :: u32
  ns_tx_ucast :: u32
  ns_tx_bytes :: u64
  ns_tx_novlantag :: u32
  ns_tx_vlanmismatch :: u32

text \<open>What a transmission changes: the keys, the sequence numbers of the node, the counters.\<close>

record 'c tx =
  tx_cn :: "'c crypto_node"
  ni_txseqs :: "u16 list"
  tx_st :: tx_stats
  tx_freed :: "mbuf list"

text \<open>
  What it does not change. The layout of the mbufs and the results of the allocators are
  functions: the room in front of a chain, \<open>m_unshare\<close>, whether \<open>m_gethdr\<close> and the \<open>m_get2\<close> of
  the i-th fragment succeed; \<open>tx_junk n\<close> is what \<open>n\<close> bytes of fresh memory hold.
\<close>

record 'c tx_sys =
  tx_crypto :: "'c crypto_env"
  M_LEADINGSPACE :: "u8 list list \<Rightarrow> nat"
  m_unshare :: "u8 list list \<Rightarrow> u8 list list option"
  m_gethdr :: bool
  m_get2 :: "nat \<Rightarrow> bool"
  tx_junk :: "nat \<Rightarrow> u8 list"
  ic_headroom :: nat
  iv_opmode :: ieee80211_opmode
  iv_flags_ext :: u32
  ic_flags_ext :: u32
  iv_caps :: u32
  iv_fragthreshold :: nat
  iv_myaddr :: macaddr
  bss_bssid :: macaddr
  tx_macaddr :: macaddr
  tx_bssid :: macaddr
  tx_ni_flags :: u32
  tx_vlan :: u16
  wmep_acm :: "bool list"
  wmep_noackPolicy :: "bool list"

definition tx_stat :: "(tx_stats \<Rightarrow> tx_stats) \<Rightarrow> 'c tx \<Rightarrow> 'c tx" where
  "tx_stat f tx = tx\<lparr>tx_st := f (tx_st tx)\<rparr>"

definition tx_vap :: "(vap \<Rightarrow> vap) \<Rightarrow> 'c tx \<Rightarrow> 'c tx" where
  "tx_vap f tx = tx\<lparr>tx_cn := (tx_cn tx)\<lparr>cn_vap := f (cn_vap (tx_cn tx))\<rparr>\<rparr>"

definition tx_free :: "mbuf list \<Rightarrow> 'c tx \<Rightarrow> 'c tx" where
  "tx_free ms tx = tx\<lparr>tx_freed := tx_freed tx @ ms\<rparr>"

section \<open>The transmit key\<close>

text \<open>The default key's index is used for a table of keys; out of its bounds is \<open>None\<close>.\<close>

definition ieee80211_crypto_getmcastkey :: "'c crypto_node \<Rightarrow> keyref option option" where
  "ieee80211_crypto_getmcastkey n =
     (if iv_def_txkey n = 0xffff then Some None
      else let r = NwKey (unat (iv_def_txkey n)) in
        if \<not> key_valid n r then None
        else if KEY_UNDEFINED (key_of n r) then Some None else Some (Some r))"

definition ieee80211_crypto_getucastkey :: "'c crypto_node \<Rightarrow> keyref option option" where
  "ieee80211_crypto_getucastkey n =
     (if KEY_UNDEFINED (ni_ucastkey n) then
        (if iv_def_txkey n = 0xffff then Some None
         else let r = NwKey (unat (iv_def_txkey n)) in
           if \<not> key_valid n r then None
           else if KEY_UNDEFINED (key_of n r) then Some None else Some (Some r))
      else Some (Some UcastKey))"

definition encap_key :: "'c tx_sys \<Rightarrow> macaddr \<Rightarrow> 'c crypto_node \<Rightarrow> keyref option option" where
  "encap_key sys dhost n =
     (if iv_flags (cn_vap n) AND F_TX_PRIVACY \<noteq> 0 then
        if iv_opmode sys = M_STA \<or> \<not> IEEE80211_IS_MULTICAST dhost \<or>
           (iv_opmode sys = M_WDS \<and> iv_flags_ext sys AND FEXT_WDSLEGACY \<noteq> 0)
        then ieee80211_crypto_getucastkey n
        else if iv_opmode sys = M_WDS \<and> iv_flags_ext sys AND FEXT_WDSLEGACY = 0
        then ieee80211_crypto_getucastkey n
        else ieee80211_crypto_getmcastkey n
      else Some None)"

definition key_tmpl :: "'c crypto_node \<Rightarrow> keyref \<Rightarrow> cipher_template" where
  "key_tmpl n r = (case key_template (fst (key_of n r)) of Some c \<Rightarrow> c | None \<Rightarrow> ieee80211_cipher_none)"

section \<open>Room for the headers\<close>

text \<open>
  The frame that \<open>mbuf_adjust\<close> makes in front of a chain without room has 14 bytes of
  whatever the fresh mbuf held. The chain is freed if memory runs out.
\<close>

definition ieee80211_mbuf_adjust ::
  "'c tx_sys \<Rightarrow> nat \<Rightarrow> keyref option \<Rightarrow> mbuf \<Rightarrow> 'c tx \<Rightarrow> mbuf option \<times> 'c tx" where
  "ieee80211_mbuf_adjust sys hdrsize key m tx =
     (let needed = ic_headroom sys + hdrsize +
            (case key of None \<Rightarrow> 0 | Some r \<Rightarrow> ic_header (key_tmpl (tx_cn tx) r));
          unshare = (case key of None \<Rightarrow> False
            | Some r \<Rightarrow> has_flag (wk_flags (fst (key_of (tx_cn tx) r))) (KEY_SWENCRYPT OR KEY_SWENMIC));
          nobuf = tx_stat (\<lambda>s. s\<lparr>is_tx_nobuf := is_tx_nobuf s + 1\<rparr>)
      in case (if unshare then map_option (with_segs m) (m_unshare sys (m_segs m)) else Some m) of
           None \<Rightarrow> (None, tx_free [m] (nobuf tx))
         | Some m \<Rightarrow>
             if M_LEADINGSPACE sys (m_segs m) < needed - (14 - 8) then
               if \<not> m_gethdr sys then (None, tx_free [m] (nobuf tx))
               else (Some (with_segs m (tx_junk sys 14 # drop 14 (mtod m) # tl (m_segs m))), tx)
             else (Some m, tx))"

section \<open>Fragmentation\<close>

definition FRAGMENT :: "u8 list \<Rightarrow> nat \<Rightarrow> u8 list" where
  "FRAGMENT wh fragno = wh[22 := wh ! 22 OR (word_of_nat fragno AND 0x0f)]"

text \<open>
  The loop that copies the fragments from the second on; \<open>fs\<close> are those made so far. The inner
  \<open>None\<close> is a failed allocation. Lengths are \<open>u_int\<close>s: if the threshold is below the headers
  the payload wraps and \<open>m_copydata\<close> runs off the chain; if it equals them the loop never ends.
\<close>

partial_function (option) fragment_loop ::
  "'c tx_sys \<Rightarrow> u8 list \<Rightarrow> nat \<Rightarrow> nat \<Rightarrow> nat \<Rightarrow> u8 list list \<Rightarrow> nat \<Rightarrow> nat \<Rightarrow> nat \<Rightarrow> mbuf list
     \<Rightarrow> (mbuf list option \<times> mbuf list) option" where
  "fragment_loop sys wh pad totalhdrsize mtu segs fragno off remainder fs =
     (if \<not> m_get2 sys fragno then Some (None, fs)
      else
        let payload = min (totalhdrsize + remainder) mtu - totalhdrsize;
            hdr = FRAGMENT wh fragno @ tx_junk sys pad
        in if mtu < totalhdrsize then None
           else case m_copydata segs off payload of
             None \<Rightarrow> None
           | Some bs \<Rightarrow>
               if remainder - payload = 0 then
                 Some (Some (fs @ [\<lparr>m_segs = [hdr[1 := hdr ! 1 AND NOT FC1_MORE_FRAG] @ bs], m_rxs = None,
                   m_flags = M_FRAG OR M_LASTFRAG\<rparr>]), [])
               else fragment_loop sys wh pad totalhdrsize mtu segs (fragno + 1) (off + payload)
                 (remainder - payload) (fs @ [\<lparr>m_segs = [hdr @ bs], m_rxs = None, m_flags = M_FRAG\<rparr>]))"

declare fragment_loop.simps [code]

definition ieee80211_fragment ::
  "'c tx_sys \<Rightarrow> mbuf \<Rightarrow> nat \<Rightarrow> nat \<Rightarrow> nat \<Rightarrow> 'c tx \<Rightarrow> (bool \<times> mbuf list \<times> 'c tx) option" where
  "ieee80211_fragment sys m0 hdrsize ciphdrsize mtu tx =
     (let hdrspace = (if ic_flags (cn_vap (tx_cn tx)) AND 0x00080000 \<noteq> 0 then roundup hdrsize 4 else hdrsize);
          m0 = hdr_update (\<lambda>wh. wh[1 := wh ! 1 OR FC1_MORE_FRAG]) m0;
          off = mtu - ciphdrsize
      in if length (mtod m0) < hdrsize \<or> mtu < ciphdrsize \<or> pktlen (m_segs m0) < off then None
         else
           case fragment_loop sys (take hdrsize (mtod m0)) (hdrspace - hdrsize) (hdrspace + ciphdrsize) mtu
               (m_segs m0) 1 off (pktlen (m_segs m0) - off) [] of
             None \<Rightarrow> None
           | Some (None, fs) \<Rightarrow> Some (False, [m0], tx_free fs tx)
           | Some (Some fs, _) \<Rightarrow>
               Some (True,
                 (with_segs m0 (m_adj_back (pktlen (m_segs m0) - off) (m_segs m0)))
                   \<lparr>m_flags := m_flags m0 OR (M_FIRSTFRAG OR M_FRAG)\<rparr> # fs,
                 tx_stat (\<lambda>s. s\<lparr>is_tx_fragframes := is_tx_fragframes s + 1,
                   is_tx_frags := is_tx_frags s + word_of_nat (length fs)\<rparr>) tx))"

section \<open>Encapsulation\<close>

definition WME_AC_TO_TID :: "nat \<Rightarrow> u8" where
  "WME_AC_TO_TID ac = (if ac = 3 then 6 else if ac = 2 then 5 else if ac = 1 then 1 else 0)"

text \<open>The direction and the addresses; \<open>None\<close> is a mode that does not send data frames.\<close>

definition encap_addrs :: "'c tx_sys \<Rightarrow> bool \<Rightarrow> macaddr \<Rightarrow> macaddr \<Rightarrow> (u8 \<times> u8 list \<times> u8 list) option" where
  "encap_addrs sys is4addr dhost shost =
     (if is4addr then Some (3, tx_macaddr sys @ iv_myaddr sys @ dhost, shost)
      else if iv_opmode sys = M_STA then Some (1, tx_bssid sys @ shost @ dhost, [])
      else if iv_opmode sys = M_IBSS \<or> iv_opmode sys = M_AHDEMO then Some (0, dhost @ shost @ bss_bssid sys, [])
      else if iv_opmode sys = M_HOSTAP then Some (2, dhost @ tx_bssid sys @ shost, [])
      else None)"

definition encap_is4addr :: "'c tx_sys \<Rightarrow> macaddr \<Rightarrow> bool" where
  "encap_is4addr sys shost \<longleftrightarrow> iv_opmode sys = M_WDS \<or>
     (iv_flags_ext sys AND FEXT_4ADDR \<noteq> 0 \<and> \<not> IEEE80211_ADDR_EQ shost (iv_myaddr sys))"

definition encap_addqos :: "'c tx_sys \<Rightarrow> mbuf \<Rightarrow> bool" where
  "encap_addqos sys m \<longleftrightarrow>
     (m_flags m AND (M_MCAST OR M_BCAST) = 0 \<and> tx_ni_flags sys AND (NODE_QOS OR NODE_HT) \<noteq> 0 \<or>
      iv_opmode sys = M_MBSS) \<and> m_flags m AND M_EAPOL = 0"

text \<open>The sequence control field, \<open>M_SEQNO_SET\<close> and the node's counters.\<close>

definition encap_seq :: "bool \<Rightarrow> nat \<Rightarrow> u8 list \<Rightarrow> mbuf \<Rightarrow> 'c tx \<Rightarrow> u16 \<times> u16 option \<times> 'c tx" where
  "encap_seq addqos tid addr1 m tx =
     (if addqos \<and> m_flags m AND M_AMPDU_MPDU \<noteq> 0 then (0, None, tx)
      else
        let t = (if \<not> addqos \<or> IEEE80211_IS_MULTICAST addr1 then 16 else tid); seqno = ni_txseqs tx ! t
        in (push_bit 4 seqno, Some seqno, tx\<lparr>ni_txseqs := (ni_txseqs tx)[t := seqno + 1]\<rparr>))"

text \<open>The frame is whole but for the MIC and the fragmentation.\<close>

definition encap_protect ::
  "'c tx_sys \<Rightarrow> keyref option \<Rightarrow> bool \<Rightarrow> mbuf \<Rightarrow> 'c tx \<Rightarrow> (bool \<times> mbuf \<times> 'c tx) option" where
  "encap_protect sys key txfrag m tx =
     (case key of None \<Rightarrow> Some (True, m, tx)
      | Some r \<Rightarrow>
          if m_flags m AND M_EAPOL = 0 \<or> iv_flags (cn_vap (tx_cn tx)) AND F_WPA \<noteq> 0 \<and>
             (if iv_opmode sys = M_STA then \<not> KEY_UNDEFINED (key_of (tx_cn tx) r)
              else \<not> KEY_UNDEFINED (ni_ucastkey (tx_cn tx)))
          then
            (case ieee80211_crypto_enmic (tx_crypto sys) txfrag
                (cn_vap (tx_cn tx), key_of (tx_cn tx) r, hdr_update set_protected m) of
               None \<Rightarrow> None
             | Some (ok, v, ks, m) \<Rightarrow>
                 let tx = tx\<lparr>tx_cn := key_set r ks ((tx_cn tx)\<lparr>cn_vap := v\<rparr>)\<rparr>
                 in Some (ok, m, if ok then tx
                    else tx_stat (\<lambda>s. s\<lparr>is_crypto_enmicfail := is_crypto_enmicfail s + 1\<rparr>) tx))
          else Some (True, m, tx))"

text \<open>Whether the frame is to be fragmented here.\<close>

definition encap_txfrag :: "'c tx_sys \<Rightarrow> mbuf \<Rightarrow> bool" where
  "encap_txfrag sys m \<longleftrightarrow> ic_flags_ext sys AND FEXT_FRAG_OFFLOAD = 0 \<and>
     pktlen (m_segs m) > iv_fragthreshold sys \<and> \<not> IEEE80211_IS_MULTICAST (i_addr1 (mtod m)) \<and>
     iv_caps sys AND C_TXFRAG \<noteq> 0 \<and> m_flags m AND (M_FF OR M_AMPDU_MPDU) = 0"

definition encap_finish ::
  "'c tx_sys \<Rightarrow> keyref option \<Rightarrow> nat \<Rightarrow> nat \<Rightarrow> mbuf \<Rightarrow> 'c tx \<Rightarrow> (mbuf list option \<times> 'c tx) option" where
  "encap_finish sys key hdrsize datalen m tx =
     (let mcast = IEEE80211_IS_MULTICAST (i_addr1 (mtod m)); txfrag = encap_txfrag sys m
      in case encap_protect sys key txfrag m tx of
           None \<Rightarrow> None
         | Some (False, m, tx) \<Rightarrow> Some (None, tx_free [m] tx)
         | Some (True, m, tx) \<Rightarrow>
             (case (if txfrag then ieee80211_fragment sys m hdrsize
                 (case key of None \<Rightarrow> 0 | Some r \<Rightarrow> ic_header (key_tmpl (tx_cn tx) r)) (iv_fragthreshold sys) tx
                 else Some (True, [m], tx)) of
                None \<Rightarrow> None
              | Some (False, ms, tx) \<Rightarrow> Some (None, tx_free ms tx)
              | Some (True, ms, tx) \<Rightarrow>
                  let m = hd ms;
                      m = m\<lparr>m_flags := m_flags m OR M_ENCAP OR (if mcast then M_MCAST else 0)\<rparr>
                  in Some (Some (m # tl ms), tx_stat (\<lambda>s. s\<lparr>ns_tx_data := ns_tx_data s + 1,
                       ns_tx_mcast := ns_tx_mcast s + (if mcast then 1 else 0),
                       ns_tx_ucast := ns_tx_ucast s + (if mcast then 0 else 1),
                       ns_tx_bytes := ns_tx_bytes s + word_of_nat datalen\<rparr>) tx)))"

text \<open>
  From the strip of the Ethernet header on; \<open>eh\<close> is the copy of it. \<open>ac\<close> is the frame's access
  class (\<open>M_WME_GETAC\<close>). The inner result \<open>None\<close> is \<open>NULL\<close>, otherwise it is the frames and the
  number \<open>M_SEQNO_SET\<close> notes in the first.
\<close>

definition encap_write ::
  "'c tx_sys \<Rightarrow> nat \<Rightarrow> keyref option \<Rightarrow> bool \<Rightarrow> bool \<Rightarrow> nat \<Rightarrow> nat \<Rightarrow> u8 list \<Rightarrow> mbuf \<Rightarrow> 'c tx
     \<Rightarrow> ((mbuf list \<times> u16 option) option \<times> 'c tx) option" where
  "encap_write sys ac key addqos is4addr hdrsize hdrspace eh m tx =
     (let dhost = take 6 eh; shost = take 6 (drop 6 eh);
          segs = m_adj_front (14 - 8) (m_segs m);
          segs = splice (hd segs) 0 (LLC_SNAP @ drop 12 eh) # tl segs;
          datalen = pktlen segs
      in case env_pre (tx_crypto sys) segs hdrspace of
           None \<Rightarrow> Some (None, tx_free [with_segs m segs] (tx_stat (\<lambda>s. s\<lparr>is_tx_nobuf := is_tx_nobuf s + 1\<rparr>) tx))
         | Some segs \<Rightarrow>
             (case encap_addrs sys is4addr dhost shost of
                None \<Rightarrow> Some (None, tx_free [with_segs m segs] tx)
              | Some (dir, addrs, addr4) \<Rightarrow>
                  if addqos \<and> length (wmep_noackPolicy sys) \<le> ac then None
                  else
                    let tid = WME_AC_TO_TID ac;
                        fc1 = dir OR (if m_flags m AND M_MORE_DATA \<noteq> 0 then 0x20 else 0);
                        (seq, seqno, tx) = encap_seq addqos (unat tid) (take 6 addrs) m tx;
                        q = (tid AND 0x0f) OR (if wmep_noackPolicy sys ! ac then 0x20 else 0);
                        wh = [if addqos then 0x88 else 0x08, fc1, 0, 0] @ addrs @ [lo8 seq, hi8 seq] @ addr4 @
                          (if addqos then [q, 0] else [])
                    in case encap_finish sys key hdrsize datalen (with_segs m (splice (hd segs) 0 wh # tl segs)) tx of
                         None \<Rightarrow> None
                       | Some (None, tx) \<Rightarrow> Some (None, tx)
                       | Some (Some ms, tx) \<Rightarrow> Some (Some (ms, seqno), tx)))"

definition ieee80211_encap ::
  "'c tx_sys \<Rightarrow> nat \<Rightarrow> mbuf \<Rightarrow> 'c tx \<Rightarrow> ((mbuf list \<times> u16 option) option \<times> 'c tx) option" where
  "ieee80211_encap sys ac m tx =
     (if length (mtod m) < 14 then None
      else
        let eh = take 14 (mtod m); cn = tx_cn tx
        in case encap_key sys (take 6 eh) cn of
             None \<Rightarrow> None
           | Some key \<Rightarrow>
               if iv_flags (cn_vap cn) AND F_TX_PRIVACY \<noteq> 0 \<and> key = None \<and> m_flags m AND M_EAPOL = 0
               then Some (None, tx_free [m] (tx_vap (stat (\<lambda>s. s\<lparr>is_tx_nodefkey := is_tx_nodefkey s + 1\<rparr>)) tx))
               else if (case key of None \<Rightarrow> False | Some r \<Rightarrow> key_template (fst (key_of cn r)) = None) then None
               else
                 let addqos = encap_addqos sys m; is4addr = encap_is4addr sys (take 6 (drop 6 eh));
                     hdrsize = 24 + (if addqos then 2 else 0) + (if is4addr then 6 else 0);
                     hdrspace = (if ic_flags (cn_vap cn) AND 0x00080000 \<noteq> 0 then roundup hdrsize 4 else hdrsize)
                 in if m_flags m AND M_FF \<noteq> 0 then Some (None, tx_free [m] tx)
                    else
                      (case ieee80211_mbuf_adjust sys hdrspace key m tx of
                         (None, tx) \<Rightarrow> Some (None, tx)
                       | (Some m, tx) \<Rightarrow> encap_write sys ac key addqos is4addr hdrsize hdrspace eh m tx))"

section \<open>Classification\<close>

text \<open>Admission control moves a frame to the next lower class that needs none.\<close>

function wme_acm_ac :: "bool list \<Rightarrow> nat \<Rightarrow> nat" where
  "wme_acm_ac acm ac =
     (if ac = 1 \<or> \<not> acm ! ac then ac
      else wme_acm_ac acm (if ac = 0 then 1 else if ac = 2 then 0 else if ac = 3 then 2 else 1))"
  by pat_completeness auto
termination by (relation "measure (\<lambda>(_, ac). if ac = 1 then 0 else if ac = 0 then 1 else if ac = 2 then 2 else 3)") auto

declare wme_acm_ac.simps [simp del]

text \<open>The class of the Diffserv field of an IP header behind the Ethernet header.\<close>

definition dscp_ac :: "u8 list \<Rightarrow> u8 list list \<Rightarrow> nat option" where
  "dscp_ac ether_type segs =
     (if ether_type = be16 0x0800 then
        map_option (\<lambda>tos. TID_TO_WME_AC (unat (drop_bit 5 (tos ! 0)))) (m_copydata segs (14 + 1) 1)
      else if ether_type = be16 0x86dd then
        map_option (\<lambda>flow. TID_TO_WME_AC (unat (drop_bit 5
          (ucast (drop_bit 20 (le32 (flow ! 3) (flow ! 2) (flow ! 1) (flow ! 0))) :: u8)))) (m_copydata segs 14 4)
      else Some 0)"

text \<open>
  \<open>vtag\<close> is the VLAN tag the frame came with. The inner result \<open>None\<close> is the C result 1, the
  frame is not to be sent; otherwise it is the class and the frame, with \<open>M_EAPOL\<close> set for
  authentication frames.
\<close>

definition classify_type :: "mbuf \<Rightarrow> (u8 list \<times> bool) option option" where
  "classify_type m =
     (if m_flags m AND M_ENCAP \<noteq> 0 then
        let wh = mtod m; hdrlen = ieee80211_hdrsize wh in
        if pktlen (m_segs m) < hdrlen + 8 then Some None
        else if length wh < hdrlen + 8 then None
        else if take 6 (drop hdrlen wh) \<noteq> LLC_SNAP then Some None
        else Some (Some (take 2 (drop (hdrlen + 6) wh), True))
      else if length (mtod m) < 14 then None
      else Some (Some (take 2 (drop 12 (mtod m)), False)))"

definition ieee80211_classify ::
  "'c tx_sys \<Rightarrow> u16 \<Rightarrow> mbuf \<Rightarrow> 'c tx \<Rightarrow> ((nat \<times> mbuf) option \<times> 'c tx) option" where
  "ieee80211_classify sys vtag m tx =
     (if m_flags m AND M_ENCAP \<noteq> 0 \<and> mtod m = [] then None
      else if m_flags m AND M_ENCAP \<noteq> 0 \<and> mtod m ! 0 AND 0x40 \<noteq> 0 then Some (Some (0, m), tx)
      else
        case classify_type m of
          None \<Rightarrow> None
        | Some None \<Rightarrow> Some (None, tx)
        | Some (Some (ether_type, encap)) \<Rightarrow>
            if ether_type = be16 0x888e then Some (Some (3, m\<lparr>m_flags := m_flags m OR M_EAPOL\<rparr>), tx)
            else if tx_ni_flags sys AND NODE_QOS = 0 then Some (Some (0, m), tx)
            else if tx_vlan sys \<noteq> 0 \<and> m_flags m AND M_VLANTAG = 0 then
              Some (None, tx_stat (\<lambda>s. s\<lparr>ns_tx_novlantag := ns_tx_novlantag s + 1\<rparr>) tx)
            else if tx_vlan sys \<noteq> 0 \<and> vtag AND 0x0fff \<noteq> tx_vlan sys AND 0x0fff then
              Some (None, tx_stat (\<lambda>s. s\<lparr>ns_tx_vlanmismatch := ns_tx_vlanmismatch s + 1\<rparr>) tx)
            else
              let v = (if tx_vlan sys \<noteq> 0 then TID_TO_WME_AC (unat (drop_bit 13 (tx_vlan sys) AND 7)) else 0)
              in case (if encap then Some 0 else dscp_ac ether_type (m_segs m)) of
                   None \<Rightarrow> None
                 | Some d \<Rightarrow>
                     let ac = (if v > d then v else d)
                     in Some (Some (if iv_opmode sys = M_STA then wme_acm_ac (wmep_acm sys) ac else ac, m), tx))"

end
