(* ===== verification/StaInput.thy ===== *)
theory StaInput
  imports RxDecap Crypto
begin

text \<open>
  The receive function of a station (\<open>sta_input\<close> of freebsd/sys/net80211/ieee80211_sta.c): the
  checks a received frame passes on its way through duplicate detection, the A-MPDU reorder
  buffer, decryption, reassembly, MIC check and decapsulation to the network stack. Frames for
  the management and control handlers are listed in \<open>sta_events\<close>, as are those shown to a
  radiotap listener. The build is the one without \<open>IEEE80211_SUPPORT_SUPERG\<close>. Where the code
  goes on reading through a pointer to the header that a pull-up may have replaced, the model
  reads the header of the new mbuf.
\<close>

section \<open>State\<close>

datatype sta_event = RecvMgmt mbuf u8 | RecvCtl mbuf u8 | Radiotap mbuf

record 'c sta =
  sta_ni :: ni_rx
  sta_cn :: "'c crypto_node"
  ni_bssid :: macaddr
  ni_inact :: int
  ni_inact_reload :: int
  ni_avgrssi :: u32
  ni_noise :: "8 word"
  wme_hipri_traffic :: u32
  sta_events :: "sta_event list"

text \<open>
  What does not change while a frame is received: the allocator, the ciphers' environment, the
  clock, the addresses of the interface, and whether a radiotap listener is attached.
\<close>

record 'c sta_sys =
  sys_env :: "'c crypto_env"
  sys_pull :: m_pullup
  sys_split :: m_split
  sys_cat :: m_catpkt
  sys_ticks :: u32
  sys_ampdu_age :: u32
  sys_lladdr :: macaddr
  sys_myaddr :: macaddr
  sys_simplex :: bool
  sys_tap :: bool

abbreviation "F_PRIVACY \<equiv> (0x00000010 :: u32)"
abbreviation "F_SCAN \<equiv> (0x00000080 :: u32)"
abbreviation "F_DROPUNENC \<equiv> (0x02000000 :: u32)"
abbreviation "F_DWDS \<equiv> (0x80000000 :: u32)"

definition on_ni :: "(ni_rx \<Rightarrow> ni_rx) \<Rightarrow> 'c sta \<Rightarrow> 'c sta" where
  "on_ni f st = st\<lparr>sta_ni := f (sta_ni st)\<rparr>"

definition on_vap :: "(vap \<Rightarrow> vap) \<Rightarrow> 'c sta \<Rightarrow> 'c sta" where
  "on_vap f st = st\<lparr>sta_cn := (sta_cn st)\<lparr>cn_vap := f (cn_vap (sta_cn st))\<rparr>\<rparr>"

definition sta_count :: "(input_stats \<Rightarrow> input_stats) \<Rightarrow> 'c sta \<Rightarrow> 'c sta" where
  "sta_count f = on_ni (instat f)"

section \<open>Signal strength\<close>

text \<open>\<open>IEEE80211_RSSI_LPF\<close> on the unsigned \<open>ni_avgrssi\<close>, and \<open>IEEE80211_RSSI_GET\<close> of it.\<close>

definition RSSI_LPF :: "u32 \<Rightarrow> int \<Rightarrow> u32" where
  "RSSI_LPF x y =
     (if y \<ge> -20 then
        if x \<noteq> 127 then (x * 9 + word_of_int (y * 128)) div 10 else word_of_int (y * 128)
      else x)"

definition RSSI_GET :: "u32 \<Rightarrow> u32" where
  "RSSI_GET x = (if x mod 128 \<ge> 64 then (x + 127) div 128 else x div 128)"

section \<open>Header tests\<close>

definition ieee80211_anyhdrsize :: "u8 list \<Rightarrow> nat" where
  "ieee80211_anyhdrsize wh =
     (if wh ! 0 AND 0x0c = 0x04 then
        let subtype = wh ! 0 AND 0xf0 in
        if subtype = 0xc0 \<or> subtype = 0xd0 then 10 else if subtype = 0x80 then 20 else 16
      else ieee80211_hdrsize wh)"

definition IEEE80211_IS_PROTECTED :: "u8 list \<Rightarrow> bool" where
  "IEEE80211_IS_PROTECTED wh \<longleftrightarrow> wh ! 1 AND FC1_PROTECTED \<noteq> 0"

definition isfromds_mcastecho :: "macaddr \<Rightarrow> u8 list \<Rightarrow> bool" where
  "isfromds_mcastecho myaddr wh \<longleftrightarrow>
     IEEE80211_IS_MULTICAST (i_addr1 wh) \<and> IEEE80211_ADDR_EQ (i_addr3 wh) myaddr"

definition isdstods_mcastecho :: "macaddr \<Rightarrow> u8 list \<Rightarrow> bool" where
  "isdstods_mcastecho myaddr wh \<longleftrightarrow>
     IEEE80211_IS_MULTICAST (i_addr3 wh) \<and> IEEE80211_ADDR_EQ (i_addr4 wh) myaddr"

definition node_is_authorized :: "ni_rx \<Rightarrow> bool" where
  "node_is_authorized ni \<longleftrightarrow> ni_flags ni AND NODE_AUTH \<noteq> 0"

section \<open>The labels out and err\<close>

definition sta_out :: "'c sta_sys \<Rightarrow> bool \<Rightarrow> mbuf option \<Rightarrow> 'c sta \<Rightarrow> 'c sta" where
  "sta_out sys need_tap mo st =
     (case mo of None \<Rightarrow> st
      | Some m \<Rightarrow> on_ni (m_freem m)
          (if need_tap \<and> sys_tap sys then st\<lparr>sta_events := sta_events st @ [Radiotap m]\<rparr> else st))"

definition sta_err :: "'c sta_sys \<Rightarrow> bool \<Rightarrow> mbuf option \<Rightarrow> 'c sta \<Rightarrow> 'c sta" where
  "sta_err sys need_tap mo st =
     sta_out sys need_tap mo (sta_count (\<lambda>s. s\<lparr>if_ierrors := if_ierrors s + 1\<rparr>) st)"

section \<open>A decrypted data frame\<close>

abbreviation "TYPE_DATA \<equiv> (0x08 :: u8)"

text \<open>The Ethernet frame, after the 802.11 header was stripped.\<close>

definition is_pae :: "u8 list \<Rightarrow> bool" where
  "is_pae eh \<longleftrightarrow> take 2 (drop 12 eh) = be16 0x888e"

definition sta_deliver ::
  "'c sta_sys \<Rightarrow> bool \<Rightarrow> bool \<Rightarrow> u8 \<Rightarrow> mbuf \<Rightarrow> 'c sta \<Rightarrow> (u8 \<times> 'c sta) option" where
  "sta_deliver sys is_hw_decrypted has_decrypted qos m st =
     (let amsdu = (qos AND 0x80 \<noteq> 0); pae = (\<not> amsdu \<and> is_pae (mtod m)) in
      if \<not> node_is_authorized (sta_ni st) \<and> \<not> pae then
        Some (TYPE_DATA, sta_err sys False (Some m)
          (sta_count (\<lambda>s. s\<lparr>is_rx_unauth := is_rx_unauth s + 1, ns_rx_unauth := ns_rx_unauth s + 1\<rparr>) st))
      else if node_is_authorized (sta_ni st) \<and> iv_flags (cn_vap (sta_cn st)) AND F_DROPUNENC \<noteq> 0 \<and>
         (\<not> has_decrypted \<and> m_flags m AND M_WEP = 0) \<and> \<not> is_hw_decrypted \<and> \<not> pae then
        Some (TYPE_DATA, sta_out sys False (Some m)
          (sta_count (\<lambda>s. s\<lparr>is_rx_unencrypted := is_rx_unencrypted s + 1,
                        ns_rx_unencrypted := ns_rx_unencrypted s + 1\<rparr>) st))
      else if amsdu then
        (case ieee80211_decap_amsdu (sys_pull sys) (sys_split sys) m (sta_ni st) of
           None \<Rightarrow> None
         | Some (None, ni) \<Rightarrow> Some (TYPE_DATA, st\<lparr>sta_ni := ni\<rparr>)
         | Some (Some m, ni) \<Rightarrow> Some (TYPE_DATA, st\<lparr>sta_ni := ieee80211_deliver_data m ni\<rparr>))
      else Some (TYPE_DATA, on_ni (ieee80211_deliver_data m) st))"

text \<open>From the label of the MIC check on; \<open>m\<close> is a whole MSDU.\<close>

definition sta_msdu ::
  "'c sta_sys \<Rightarrow> bool \<Rightarrow> bool \<Rightarrow> keyref option \<Rightarrow> nat \<Rightarrow> u8 \<Rightarrow> u8 \<Rightarrow> mbuf \<Rightarrow> 'c sta \<Rightarrow> (u8 \<times> 'c sta) option" where
  "sta_msdu sys is_hw_decrypted has_decrypted key hdrspace subtype qos m st =
     (case ieee80211_crypto_demic (sys_env sys) False (sta_cn st) key m of
        None \<Rightarrow> None
      | Some (False, cn, m) \<Rightarrow>
          Some (TYPE_DATA, sta_out sys True (Some m)
            (sta_count (\<lambda>s. s\<lparr>is_rx_demicfail := is_rx_demicfail s + 1,
                          ns_rx_demicfail := ns_rx_demicfail s + 1\<rparr>) (st\<lparr>sta_cn := cn\<rparr>)))
      | Some (True, cn, m) \<Rightarrow>
          let st = st\<lparr>sta_cn := cn\<rparr>;
              st = (if sys_tap sys then st\<lparr>sta_events := sta_events st @ [Radiotap m]\<rparr> else st)
          in case ieee80211_decap (sys_pull sys) m hdrspace qos (cn_vap (sta_cn st), sta_ni st) of
               (None, v, ni) \<Rightarrow>
                 let st = on_vap (\<lambda>_. v) (st\<lparr>sta_ni := ni\<rparr>) in
                 if subtype = 0x40 \<or> subtype = 0xc0 then Some (TYPE_DATA, sta_out sys False None st)
                 else Some (TYPE_DATA, sta_err sys False None
                   (sta_count (\<lambda>s. s\<lparr>is_rx_decap := is_rx_decap s + 1, ns_rx_decap := ns_rx_decap s + 1\<rparr>) st))
             | (Some m, v, ni) \<Rightarrow>
                 sta_deliver sys is_hw_decrypted has_decrypted qos m (on_vap (\<lambda>_. v) (st\<lparr>sta_ni := ni\<rparr>)))"

text \<open>Reassembly, for frames to one receiver.\<close>

definition sta_defrag ::
  "'c sta_sys \<Rightarrow> bool \<Rightarrow> bool \<Rightarrow> keyref option \<Rightarrow> nat \<Rightarrow> u8 \<Rightarrow> mbuf \<Rightarrow> 'c sta \<Rightarrow> (u8 \<times> 'c sta) option" where
  "sta_defrag sys is_hw_decrypted has_decrypted key hdrspace subtype m st =
     (let qos = (if subtype = 0x80 then ieee80211_getqos (mtod m) else 0) in
      if \<not> IEEE80211_IS_MULTICAST (i_addr1 (mtod m)) then
        (case ieee80211_defrag (sys_cat sys) (sys_ticks sys) m hdrspace has_decrypted (sta_ni st) of
           None \<Rightarrow> None
         | Some (None, ni) \<Rightarrow> Some (TYPE_DATA, sta_out sys True None (st\<lparr>sta_ni := ni\<rparr>))
         | Some (Some m, ni) \<Rightarrow>
             sta_msdu sys is_hw_decrypted has_decrypted key hdrspace subtype qos m (st\<lparr>sta_ni := ni\<rparr>))
      else sta_msdu sys is_hw_decrypted has_decrypted key hdrspace subtype qos m st)"

section \<open>A data frame in order\<close>

text \<open>The privacy requirements, and decryption.\<close>

definition sta_decrypt ::
  "'c sta_sys \<Rightarrow> bool \<Rightarrow> nat \<Rightarrow> u8 \<Rightarrow> mbuf \<Rightarrow> 'c sta \<Rightarrow> (u8 \<times> 'c sta) option" where
  "sta_decrypt sys is_hw_decrypted hdrspace subtype m st =
     (if is_hw_decrypted \<or> IEEE80211_IS_PROTECTED (mtod m) then
        if iv_flags (cn_vap (sta_cn st)) AND F_PRIVACY = 0 then
          Some (TYPE_DATA, sta_out sys True (Some m)
            (sta_count (\<lambda>s. s\<lparr>is_rx_noprivacy := is_rx_noprivacy s + 1,
                          ns_rx_noprivacy := ns_rx_noprivacy s + 1\<rparr>) st))
        else
          (case ieee80211_crypto_decap (sys_env sys) (sta_cn st) m hdrspace of
             None \<Rightarrow> None
           | Some (False, _, cn, m) \<Rightarrow>
               Some (TYPE_DATA, sta_out sys True (Some m)
                 (sta_count (\<lambda>s. s\<lparr>ns_rx_wepfail := ns_rx_wepfail s + 1\<rparr>) (st\<lparr>sta_cn := cn\<rparr>)))
           | Some (True, key, cn, m) \<Rightarrow>
               sta_defrag sys is_hw_decrypted True key hdrspace subtype
                 (hdr_update clear_protected m) (st\<lparr>sta_cn := cn\<rparr>))
      else sta_defrag sys is_hw_decrypted False None hdrspace subtype m st)"

text \<open>The code behind the label \<open>resubmit_ampdu\<close>.\<close>

definition sta_data ::
  "'c sta_sys \<Rightarrow> bool \<Rightarrow> nat \<Rightarrow> u8 \<Rightarrow> u8 \<Rightarrow> mbuf \<Rightarrow> 'c sta \<Rightarrow> (u8 \<times> 'c sta) option" where
  "sta_data sys is_hw_decrypted hdrspace dir subtype m st =
     (let wh = mtod m; dwds = (iv_flags (cn_vap (sta_cn st)) AND F_DWDS \<noteq> 0);
          echo = (\<lambda>st. Some (TYPE_DATA, sta_out sys True (Some m)
            (sta_count (\<lambda>s. s\<lparr>is_rx_mcastecho := is_rx_mcastecho s + 1\<rparr>) st)));
          wrongdir = (\<lambda>st. Some (TYPE_DATA, sta_out sys True (Some m)
            (sta_count (\<lambda>s. s\<lparr>is_rx_wrongdir := is_rx_wrongdir s + 1\<rparr>) st)))
      in if dir = 2 then
           if sys_simplex sys \<and> isfromds_mcastecho (sys_myaddr sys) wh then echo st
           else if dwds \<and> IEEE80211_IS_MULTICAST (i_addr1 wh) then echo st
           else sta_decrypt sys is_hw_decrypted hdrspace subtype m st
         else if dir = 3 then
           if \<not> dwds then wrongdir st
           else if sys_simplex sys \<and> isdstods_mcastecho (sys_myaddr sys) wh then echo st
           else sta_decrypt sys is_hw_decrypted hdrspace subtype m st
         else wrongdir st)"

section \<open>The whole function\<close>

text \<open>The checks at the entry; a header that is not in the first mbuf is \<open>None\<close>.\<close>

definition sta_enter ::
  "'c sta_sys \<Rightarrow> mbuf \<Rightarrow> ('c sta \<Rightarrow> (u8 \<times> 'c sta) option) \<Rightarrow> 'c sta \<Rightarrow> (u8 \<times> 'c sta) option" where
  "sta_enter sys m k st =
     (let tooshort = (\<lambda>st. Some (-1, sta_err sys True (Some m)
            (on_vap (stat (\<lambda>s. s\<lparr>is_rx_tooshort := is_rx_tooshort s + 1\<rparr>)) st)))
      in if pktlen (m_segs m) < 2 then tooshort st
         else if length (mtod m) < 2 then None
         else if pktlen (m_segs m) < ieee80211_anyhdrsize (mtod m) then tooshort st
         else if mtod m ! 0 AND 0x03 \<noteq> 0 then
           Some (-1, sta_err sys True (Some m)
             (sta_count (\<lambda>s. s\<lparr>is_rx_badversion := is_rx_badversion s + 1\<rparr>) st))
         else k st)"

definition hw_decrypted :: "u32 option \<Rightarrow> bool" where
  "hw_decrypted rxs \<longleftrightarrow> (case rxs of None \<Rightarrow> False | Some c_pktflags \<Rightarrow> c_pktflags AND 0x00000100 \<noteq> 0)"

text \<open>A frame that comes back from the reorder buffer, marked with \<open>M_AMPDU_MPDU\<close>.\<close>

definition sta_resubmit ::
  "'c sta_sys \<Rightarrow> u32 option \<Rightarrow> mbuf \<Rightarrow> 'c sta \<Rightarrow> (u8 \<times> 'c sta) option" where
  "sta_resubmit sys rxs m st = sta_enter sys m (\<lambda>st.
     if length (mtod m) < ieee80211_hdrsize (mtod m) then None
     else sta_data sys (hw_decrypted rxs) (ieee80211_hdrspace (ic_flags (cn_vap (sta_cn st))) (mtod m))
            (mtod m ! 1 AND 0x03) 0x80 m st) st"

text \<open>
  \<open>ampdu_dispatch\<close> marks a frame and hands it to \<open>ieee80211_input\<close>, which has no receive
  parameters to give. The reorder function calls it in the middle of its work; since the two
  work on different parts of the state, the frames it dispatches are received after it here.
\<close>

fun sta_dispatch :: "'c sta_sys \<Rightarrow> mbuf list \<Rightarrow> 'c sta \<Rightarrow> 'c sta option" where
  "sta_dispatch sys [] st = Some st"
| "sta_dispatch sys (m # ms) st =
     (case sta_resubmit sys None (m\<lparr>m_flags := m_flags m OR M_AMPDU_MPDU\<rparr>) st of
        None \<Rightarrow> None | Some (_, st) \<Rightarrow> sta_dispatch sys ms st)"

definition sta_reorder ::
  "'c sta_sys \<Rightarrow> u32 option \<Rightarrow> mbuf \<Rightarrow> 'c sta \<Rightarrow> (verdict \<times> 'c sta) option" where
  "sta_reorder sys rxs m st =
     (case ieee80211_ampdu_reorder (sys_ticks sys) (sys_ampdu_age sys) m rxs (ni_ampdu (sta_ni st)) of
        None \<Rightarrow> None
      | Some (v, raps, env) \<Rightarrow>
          (case sta_dispatch sys (up env) (on_ni (\<lambda>ni. ni\<lparr>ni_ampdu := (raps, env\<lparr>up := []\<rparr>)\<rparr>) st) of
             None \<Rightarrow> None | Some st \<Rightarrow> Some (v, st)))"

definition sta_mgt ::
  "'c sta_sys \<Rightarrow> u8 \<Rightarrow> u8 \<Rightarrow> mbuf \<Rightarrow> 'c sta \<Rightarrow> (u8 \<times> 'c sta) option" where
  "sta_mgt sys dir subtype m st =
     (let st = sta_count (\<lambda>s. s\<lparr>is_rx_mgmt := is_rx_mgmt s + 1, ns_rx_mgmt := ns_rx_mgmt s + 1\<rparr>) st;
          recv = (\<lambda>m st. Some (0, sta_out sys True (Some m)
            (st\<lparr>sta_events := sta_events st @ [RecvMgmt m subtype]\<rparr>)))
      in if dir \<noteq> 0 then
           Some (0, sta_err sys True (Some m) (sta_count (\<lambda>s. s\<lparr>is_rx_wrongdir := is_rx_wrongdir s + 1\<rparr>) st))
         else if pktlen (m_segs m) < 24 then
           Some (0, sta_out sys True (Some m)
             (on_vap (stat (\<lambda>s. s\<lparr>is_rx_tooshort := is_rx_tooshort s + 1\<rparr>)) st))
         else if IEEE80211_IS_PROTECTED (mtod m) then
           if subtype \<noteq> 0xb0 then
             Some (0, sta_out sys True (Some m) (sta_count (\<lambda>s. s\<lparr>is_rx_mgtdiscard := is_rx_mgtdiscard s + 1\<rparr>) st))
           else if iv_flags (cn_vap (sta_cn st)) AND F_PRIVACY = 0 then
             Some (0, sta_out sys True (Some m) (sta_count (\<lambda>s. s\<lparr>is_rx_noprivacy := is_rx_noprivacy s + 1\<rparr>) st))
           else
             (case ieee80211_crypto_decap (sys_env sys) (sta_cn st) m
                 (ieee80211_hdrspace (ic_flags (cn_vap (sta_cn st))) (mtod m)) of
                None \<Rightarrow> None
              | Some (False, _, cn, m) \<Rightarrow> Some (0, sta_out sys True (Some m) (st\<lparr>sta_cn := cn\<rparr>))
              | Some (True, _, cn, m) \<Rightarrow> recv (hdr_update clear_protected m) (st\<lparr>sta_cn := cn\<rparr>))
         else recv m st)"

text \<open>The switch over the type of a frame that passed the first checks.\<close>

definition sta_type ::
  "'c sta_sys \<Rightarrow> u32 option \<Rightarrow> mbuf \<Rightarrow> 'c sta \<Rightarrow> (u8 \<times> 'c sta) option" where
  "sta_type sys rxs m st =
     (let wh = mtod m; type = wh ! 0 AND 0x0c; subtype = wh ! 0 AND 0xf0; dir = wh ! 1 AND 0x03 in
      if type = 0x08 then
        let hdrspace = ieee80211_hdrspace (ic_flags (cn_vap (sta_cn st))) wh in
        case pull_hdr (sys_pull sys) hdrspace m of
          None \<Rightarrow> Some (type, on_ni (m_freem m)
            (on_vap (stat (\<lambda>s. s\<lparr>is_rx_tooshort := is_rx_tooshort s + 1\<rparr>)) st))
        | Some m \<Rightarrow>
            if m_flags m AND M_AMPDU \<noteq> 0 \<and> (dir = 2 \<or> dir = 3) then
              (case sta_reorder sys rxs m st of
                 None \<Rightarrow> None
               | Some (CONSUMED, st) \<Rightarrow> Some (type, sta_out sys True None st)
               | Some (PROCESS, st) \<Rightarrow> sta_data sys (hw_decrypted rxs) hdrspace dir subtype m st)
            else sta_data sys (hw_decrypted rxs) hdrspace dir subtype m st
      else if type = 0 then sta_mgt sys dir subtype m st
      else if type = 0x04 then
        Some (type, sta_out sys True (Some m)
          ((sta_count (\<lambda>s. s\<lparr>is_rx_ctl := is_rx_ctl s + 1, ns_rx_ctrl := ns_rx_ctrl s + 1\<rparr>) st)
             \<lparr>sta_events := sta_events st @ [RecvCtl m subtype]\<rparr>))
      else Some (type, sta_err sys True (Some m) st))"

definition sta_input ::
  "'c sta_sys \<Rightarrow> int \<Rightarrow> 8 word \<Rightarrow> u32 option \<Rightarrow> mbuf \<Rightarrow> 'c sta \<Rightarrow> (u8 \<times> 'c sta) option" where
  "sta_input sys rssi nf rxs m st =
     (if m_flags m AND M_AMPDU_MPDU \<noteq> 0 then sta_resubmit sys rxs m st
      else sta_enter sys m (\<lambda>st.
        let st = st\<lparr>ni_inact := ni_inact_reload st\<rparr>;
            wh = mtod m; type = wh ! 0 AND 0x0c; subtype = wh ! 0 AND 0xf0
        in if type \<noteq> 0x04 \<and> length wh < ieee80211_hdrsize wh then None
           else if type \<noteq> 0x04 \<and> ic_flags (cn_vap (sta_cn st)) AND F_SCAN = 0 then
             let wrongbss = (\<lambda>st. Some (type, sta_out sys True (Some m)
                   (sta_count (\<lambda>s. s\<lparr>is_rx_wrongbss := is_rx_wrongbss s + 1\<rparr>) st)))
             in if \<not> IEEE80211_ADDR_EQ (i_addr2 wh) (ni_bssid st) then wrongbss st
                else if \<not> IEEE80211_IS_MULTICAST (i_addr1 wh) \<and>
                  \<not> IEEE80211_ADDR_EQ (i_addr1 wh) (sys_lladdr sys) then wrongbss st
                else
                  let st = st\<lparr>ni_avgrssi := RSSI_LPF (ni_avgrssi st) rssi, ni_noise := nf\<rparr>
                  in if IEEE80211_HAS_SEQ type subtype \<and> \<not> IEEE80211_IS_MULTICAST (i_addr1 wh) then
                       let st = (if IEEE80211_QOS_HAS_SEQ wh \<and> TID_TO_WME_AC (ieee80211_gettid wh) \<ge> 2
                                 then st\<lparr>wme_hipri_traffic := wme_hipri_traffic st + 1\<rparr> else st)
                       in case ieee80211_check_rxseq wh rxs (sta_ni st) of
                            (False, ni) \<Rightarrow> Some (type, sta_out sys True (Some m) (st\<lparr>sta_ni := ni\<rparr>))
                          | (True, ni) \<Rightarrow> sta_type sys rxs m (st\<lparr>sta_ni := ni\<rparr>)
                     else sta_type sys rxs m st
           else sta_type sys rxs m st) st)"

end
