(* ===== verification/RxSeqProps.thy ===== *)
theory RxSeqProps
  imports RxSeq
begin

text \<open>
  Duplicate detection against a sender that repeats a frame until it is acknowledged: the
  receiver sees, for every frame, one first copy and any number of retransmissions. A driver
  that splits an A-MSDU presents its frames as a batch of one sequence number.
\<close>

type_synonym rx_frame = "u8 list \<times> u32 option"

text \<open>The frames of a trace that are accepted, and what one node's state becomes.\<close>

fun accepted :: "rx_frame list \<Rightarrow> ni_rx \<Rightarrow> rx_frame list \<times> ni_rx" where
  "accepted [] ni = ([], ni)"
| "accepted ((wh, rxs) # ws) ni =
     (case ieee80211_check_rxseq wh rxs ni of
        (ok, ni) \<Rightarrow> (case accepted ws ni of (as, ni) \<Rightarrow> (if ok then (wh, rxs) # as else as, ni)))"

lemma accepted_append:
  "accepted (xs @ ys) ni =
    (case accepted xs ni of (as, ni) \<Rightarrow> case accepted ys ni of (bs, ni) \<Rightarrow> (as @ bs, ni))"
  by (induction xs ni rule: accepted.induct) (auto split: prod.splits)

section \<open>One frame\<close>

text \<open>The frame is numbered, for one receiver, and of the given TID.\<close>

definition numbered :: "nat \<Rightarrow> rx_frame \<Rightarrow> bool" where
  "numbered t f \<longleftrightarrow> IEEE80211_HAS_SEQ (fst f ! 0 AND 0x0c) (fst f ! 0 AND 0xf0) \<and>
     \<not> IEEE80211_IS_MULTICAST (i_addr1 (fst f)) \<and> ieee80211_gettid (fst f) = t"

definition is_retry :: "rx_frame \<Rightarrow> bool" where
  "is_retry f \<longleftrightarrow> fst f ! 1 AND FC1_RETRY \<noteq> 0"

definition aggregated :: "ni_rx \<Rightarrow> nat \<Rightarrow> bool" where
  "aggregated ni t \<longleftrightarrow> t < 16 \<and> ni_flags ni AND NODE_HT \<noteq> 0 \<and>
     rxa_flags (fst (ni_ampdu ni) ! t) AND AGGR_RUNNING \<noteq> 0"

text \<open>The number is one the code takes for old.\<close>

definition old_seq :: "u16 \<Rightarrow> u16 \<Rightarrow> bool" where
  "old_seq l q \<longleftrightarrow> (if SEQNO l = 4095 then q = l else q \<le> l)"

lemma old_seq_refl [simp]: "old_seq q q"
  by (simp add: old_seq_def)

definition bump :: "nat \<Rightarrow> rx_frame \<Rightarrow> u16 list \<Rightarrow> u16 list" where
  "bump t f seqs = (if ieee80211_check_rxseq_amsdu_more (snd f) then seqs[t := i_seq (fst f)] else seqs)"

lemma SEQ_tests: "SEQ_LEQ a b \<longleftrightarrow> a \<le> b" "SEQ_EQ a b \<longleftrightarrow> a = b"
  by (auto simp: SEQ_LEQ_def SEQ_EQ_def word_le_def word_uint_eq_iff)

text \<open>What a check never touches.\<close>

lemma rstat_simps [simp]:
  "ni_flags (rstat f ni) = ni_flags ni" "ni_rxseqs (rstat f ni) = ni_rxseqs ni"
  "fst (ni_ampdu (rstat f ni)) = fst (ni_ampdu ni)" "ni_rxfrag (rstat f ni) = ni_rxfrag ni"
  "delivered (rstat f ni) = delivered ni" "freed (snd (ni_ampdu (rstat f ni))) = freed (snd (ni_ampdu ni))"
  "ni_table (rstat f ni) = ni_table ni" "ni_rxfragstamp (rstat f ni) = ni_rxfragstamp ni"
  "ni_vlan (rstat f ni) = ni_vlan ni" "in_stats (rstat f ni) = in_stats ni"
  by (simp_all add: rstat_def rxstat_def)

lemma rxseq_ok_facts:
  "fst (rxseq_ok t q r ni) = True"
  "ni_rxseqs (snd (rxseq_ok t q r ni)) =
    (if ieee80211_check_rxseq_amsdu_more r then (ni_rxseqs ni)[t := q] else ni_rxseqs ni)"
  "ni_flags (snd (rxseq_ok t q r ni)) = ni_flags ni"
  "fst (ni_ampdu (snd (rxseq_ok t q r ni))) = fst (ni_ampdu ni)"
  by (simp_all add: rxseq_ok_def Let_def)

lemma rxseq_fail_facts:
  "fst (rxseq_fail ni) = False" "ni_rxseqs (snd (rxseq_fail ni)) = ni_rxseqs ni"
  "ni_flags (snd (rxseq_fail ni)) = ni_flags ni" "fst (ni_ampdu (snd (rxseq_fail ni))) = fst (ni_ampdu ni)"
  by (simp_all add: rxseq_fail_def)

lemmas rxseq_facts = rxseq_ok_facts rxseq_fail_facts

lemma check_rxseq_keeps:
  assumes "ieee80211_check_rxseq w r ni = (ok, ni')"
  shows "ni_flags ni' = ni_flags ni" "fst (ni_ampdu ni') = fst (ni_ampdu ni)"
    "length (ni_rxseqs ni') = length (ni_rxseqs ni)"
proof -
  have "ni' = snd (ieee80211_check_rxseq w r ni)" by (simp add: assms)
  then show "ni_flags ni' = ni_flags ni" "fst (ni_ampdu ni') = fst (ni_ampdu ni)"
    "length (ni_rxseqs ni') = length (ni_rxseqs ni)"
    by (simp_all add: ieee80211_check_rxseq_def Let_def rxseq_facts)
qed

lemma aggregated_keeps:
  "ieee80211_check_rxseq w r ni = (ok, ni') \<Longrightarrow> aggregated ni' t = aggregated ni t"
  by (simp add: aggregated_def check_rxseq_keeps)

text \<open>The verdict on a numbered frame, and what becomes of the last number of its TID.\<close>

lemma check_numbered:
  assumes "numbered t (w, r)" "\<not> aggregated ni t" "ieee80211_check_rxseq w r ni = (ok, ni')"
  shows "ok \<longleftrightarrow> \<not> (is_retry (w, r) \<and> old_seq (ni_rxseqs ni ! t) (i_seq w))"
    "ni_rxseqs ni' = (if ok then bump t (w, r) (ni_rxseqs ni) else ni_rxseqs ni)"
proof -
  have n: "IEEE80211_HAS_SEQ (w ! 0 AND 0x0c) (w ! 0 AND 0xf0)" "\<not> IEEE80211_IS_MULTICAST (i_addr1 w)"
      "ieee80211_gettid w = t"
    using assms(1) by (auto simp: numbered_def)
  have a: "\<not> (t < 16 \<and> ni_flags ni AND NODE_HT \<noteq> 0 \<and>
      rxa_flags (fst (ni_ampdu ni) ! t) AND AGGR_RUNNING \<noteq> 0)"
    using assms(2) by (simp add: aggregated_def)
  have "ok = fst (ieee80211_check_rxseq w r ni)" "ni' = snd (ieee80211_check_rxseq w r ni)"
    by (simp_all add: assms(3))
  then show "ok \<longleftrightarrow> \<not> (is_retry (w, r) \<and> old_seq (ni_rxseqs ni ! t) (i_seq w))"
    "ni_rxseqs ni' = (if ok then bump t (w, r) (ni_rxseqs ni) else ni_rxseqs ni)"
    using n a
    by (simp_all add: ieee80211_check_rxseq_def Let_def rxseq_facts SEQ_tests is_retry_def old_seq_def
        bump_def del: de_Morgan_conj)
qed

text \<open>A frame of another TID leaves the last number of this one alone.\<close>

lemma check_other:
  assumes "\<not> numbered t (w, r)" "ieee80211_check_rxseq w r ni = (ok, ni')"
  shows "ni_rxseqs ni' ! t = ni_rxseqs ni ! t"
proof (cases "ieee80211_gettid w = t")
  case True
  then have "ieee80211_check_rxseq w r ni = (True, ni)"
    using assms(1) by (auto simp: numbered_def ieee80211_check_rxseq_def Let_def)
  then show ?thesis using assms(2) by simp
next
  case False
  have "ni' = snd (ieee80211_check_rxseq w r ni)" by (simp add: assms)
  then show ?thesis using False
    by (simp add: ieee80211_check_rxseq_def Let_def rxseq_facts)
qed

section \<open>One TID of a trace\<close>

text \<open>The receiver's view of one TID is its last number: a frame is accepted or not by it.\<close>

fun tid_accepted :: "u16 \<Rightarrow> rx_frame list \<Rightarrow> rx_frame list \<times> u16" where
  "tid_accepted l [] = ([], l)"
| "tid_accepted l (f # fs) =
     (if is_retry f \<and> old_seq l (i_seq (fst f)) then tid_accepted l fs
      else case tid_accepted (if ieee80211_check_rxseq_amsdu_more (snd f) then i_seq (fst f) else l) fs of
             (as, l) \<Rightarrow> (f # as, l))"

lemma tid_accepted_append:
  "tid_accepted l (xs @ ys) =
    (case tid_accepted l xs of (as, l) \<Rightarrow> case tid_accepted l ys of (bs, l) \<Rightarrow> (as @ bs, l))"
  by (induction l xs rule: tid_accepted.induct) (auto split: prod.splits)

lemma accepted_tid:
  assumes "\<not> aggregated ni t" "t < length (ni_rxseqs ni)" "accepted fs ni = (as, ni')"
  shows "tid_accepted (ni_rxseqs ni ! t) (filter (numbered t) fs) =
    (filter (numbered t) as, ni_rxseqs ni' ! t)"
  using assms
proof (induction fs ni arbitrary: as ni' rule: accepted.induct)
  case (1 ni)
  then show ?case by simp
next
  case (2 w r fs ni)
  obtain ok ni1 where c: "ieee80211_check_rxseq w r ni = (ok, ni1)" by fastforce
  obtain as1 ni2 where r: "accepted fs ni1 = (as1, ni2)" by fastforce
  have res: "as = (if ok then (w, r) # as1 else as1)" "ni' = ni2"
    using "2.prems"(3) c r by (auto split: if_splits)
  have ih: "tid_accepted (ni_rxseqs ni1 ! t) (filter (numbered t) fs) =
      (filter (numbered t) as1, ni_rxseqs ni2 ! t)"
    using "2.IH" [OF c [symmetric] _ _ r] "2.prems"(1,2) aggregated_keeps [OF c] check_rxseq_keeps(3) [OF c]
    by simp
  show ?case
  proof (cases "numbered t (w, r)")
    case True
    note v = check_numbered [OF True "2.prems"(1) c]
    show ?thesis
      using ih True "2.prems"(2) v(1) by (cases ok) (auto simp: res v(2) bump_def split: if_splits)
  next
    case False
    show ?thesis using ih False check_other [OF False c] by (simp add: res)
  qed
qed

section \<open>A sender that repeats\<close>

text \<open>
  What arrives of one MPDU: the frames of its first copy that arrives, and those of later
  copies, which are marked as retries. All bear the MPDU's number; only the last frame of a
  batch is without the mark that more are to come.
\<close>

type_synonym mpdu_copies = "rx_frame list \<times> rx_frame list"

definition mpdu_copies :: "u16 \<Rightarrow> mpdu_copies \<Rightarrow> bool" where
  "mpdu_copies q c \<longleftrightarrow>
     fst c \<noteq> [] \<and> (\<forall>f \<in> set (fst c @ snd c). i_seq (fst f) = q) \<and>
     (\<forall>f \<in> set (fst c). is_retry f = is_retry (hd (fst c))) \<and> (\<forall>f \<in> set (snd c). is_retry f) \<and>
     (\<forall>f \<in> set (butlast (fst c)). \<not> ieee80211_check_rxseq_amsdu_more (snd f)) \<and>
     ieee80211_check_rxseq_amsdu_more (snd (last (fst c)))"

lemma retries_rejected:
  assumes "\<forall>f \<in> set fs. is_retry f \<and> i_seq (fst f) = q" "old_seq l q"
  shows "tid_accepted l fs = ([], l)"
  using assms by (induction fs) auto

lemma batch_accepted:
  assumes "\<forall>f \<in> set fs. \<not> (is_retry f \<and> old_seq l (i_seq (fst f)))"
    "\<forall>f \<in> set fs. \<not> ieee80211_check_rxseq_amsdu_more (snd f)"
  shows "tid_accepted l fs = (fs, l)"
  using assms by (induction fs) auto

lemma mpdu_verdict:
  assumes "mpdu_copies q c"
  shows "tid_accepted l (fst c @ snd c) =
    (if is_retry (hd (fst c)) \<and> old_seq l q then ([], l) else (fst c, q))"
proof -
  obtain fs f where c: "fst c = fs @ [f]" using assms by (cases "fst c" rule: rev_cases) (auto simp: mpdu_copies_def)
  have b: "\<forall>g \<in> set fs. \<not> ieee80211_check_rxseq_amsdu_more (snd g)" "ieee80211_check_rxseq_amsdu_more (snd f)"
    "\<forall>g \<in> set (fs @ [f]). i_seq (fst g) = q \<and> is_retry g = is_retry (hd (fs @ [f]))"
    "\<forall>g \<in> set (snd c). is_retry g \<and> i_seq (fst g) = q"
    using assms by (auto simp: mpdu_copies_def c)
  show ?thesis
  proof (cases "is_retry (hd (fst c)) \<and> old_seq l q")
    case True
    then have "\<forall>g \<in> set (fst c @ snd c). is_retry g \<and> i_seq (fst g) = q" using b by (auto simp: c)
    from retries_rejected [OF this] True show ?thesis by simp
  next
    case False
    then have "tid_accepted l fs = (fs, l)" using b by (intro batch_accepted) (auto simp: c)
    moreover have "\<not> (is_retry f \<and> old_seq l (i_seq (fst f)))" "i_seq (fst f) = q" using False b by (auto simp: c)
    ultimately have "tid_accepted l (fst c) = (fst c, q)" using b(2) by (auto simp: c tid_accepted_append)
    then show ?thesis using False retries_rejected [OF b(4) old_seq_refl] by (auto simp: tid_accepted_append)
  qed
qed

lemma mpdus_verdict:
  assumes "list_all2 mpdu_copies qs cs"
  shows "\<exists>oks. length oks = length cs \<and>
    fst (tid_accepted l (concat (map (\<lambda>c. fst c @ snd c) cs))) =
      concat (map2 (\<lambda>ok c. if ok then fst c else []) oks cs) \<and>
    (\<forall>i < length cs. \<not> is_retry (hd (fst (cs ! i))) \<longrightarrow> oks ! i)"
  using assms
proof (induction qs cs arbitrary: l rule: list_all2_induct)
  case Nil
  then show ?case by simp
next
  case (Cons q qs c cs)
  define ok where "ok \<longleftrightarrow> \<not> (is_retry (hd (fst c)) \<and> old_seq l q)"
  obtain oks where o: "length oks = length cs"
    "fst (tid_accepted (if ok then q else l) (concat (map (\<lambda>c. fst c @ snd c) cs))) =
      concat (map2 (\<lambda>ok c. if ok then fst c else []) oks cs)"
    "\<forall>i < length cs. \<not> is_retry (hd (fst (cs ! i))) \<longrightarrow> oks ! i"
    using Cons.IH [of "if ok then q else l"] by blast
  have v: "tid_accepted l (fst c @ snd c) = (if ok then fst c else [], if ok then q else l)"
    unfolding mpdu_verdict [OF Cons.hyps(1)] by (simp add: ok_def)
  have "fst (tid_accepted l ((fst c @ snd c) @ concat (map (\<lambda>c. fst c @ snd c) cs))) =
      (if ok then fst c else []) @ concat (map2 (\<lambda>ok c. if ok then fst c else []) oks cs)"
    unfolding tid_accepted_append [of l "fst c @ snd c"] v using o(2) by (auto split: prod.splits)
  moreover have "\<forall>i < length (c # cs). \<not> is_retry (hd (fst ((c # cs) ! i))) \<longrightarrow> (ok # oks) ! i"
    using o(3) by (auto simp: less_Suc_eq_0_disj ok_def)
  ultimately show ?case using o(1) by (intro exI [of _ "ok # oks"]) simp
qed

text \<open>The number after \<open>q\<close>: the next fragment, or the first fragment of the next MSDU.\<close>

definition next_seq :: "u16 \<Rightarrow> u16 \<Rightarrow> bool" where
  "next_seq q q' \<longleftrightarrow> SEQNO q' = SEQNO q \<and> q' = q + 1 \<or> q' = push_bit 4 (SEQNO q) + 16"

lemma unat_SEQNO: "unat (SEQNO q) = unat q div 16"
  by (simp add: SEQNO_def drop_bit_eq_div unat_div)

lemma next_seq_new:
  assumes "next_seq q q'"
  shows "\<not> old_seq q q'"
proof -
  have q: "unat q < 65536" using unsigned_less [of q] by simp
  have big: "SEQNO q = 4095 \<longleftrightarrow> unat q div 16 = 4095" for q :: u16
    using unat_SEQNO [of q] by (auto simp: word_unat_eq_iff)
  consider (frag) "unat q' div 16 = unat q div 16" "unat q' = (unat q + 1) mod 65536"
    | (msdu) "unat q' = (unat q div 16 * 16 + 16) mod 65536"
    using assms unat_SEQNO [of q] unat_SEQNO [of q']
    by (auto simp: next_seq_def unat_word_ariths unsigned_push_bit_eq push_bit_eq_mult take_bit_eq_mod mod_simps)
  then have "unat q' \<noteq> unat q \<and> (unat q div 16 \<noteq> 4095 \<longrightarrow> unat q < unat q')"
  proof cases
    case frag
    then show ?thesis using q by (cases "unat q = 65535") auto
  next
    case msdu
    have r: "unat q = unat q div 16 * 16 + unat q mod 16" "unat q mod 16 < 16" by simp_all
    show ?thesis
    proof (cases "unat q div 16 = 4095")
      case True
      then show ?thesis using msdu by auto
    next
      case False
      then have "unat q div 16 \<le> 4094" using q r by linarith
      then have "unat q' = unat q div 16 * 16 + 16" using msdu by simp
      then show ?thesis using r by linarith
    qed
  qed
  then show ?thesis by (auto simp: old_seq_def big word_le_nat_alt)
qed

section \<open>Duplicates and losses\<close>

lemma consecutive_all_accepted:
  assumes "list_all2 mpdu_copies qs cs" "successively next_seq (l # qs)"
  shows "fst (tid_accepted l (concat (map (\<lambda>c. fst c @ snd c) cs))) = concat (map fst cs)"
  using assms
proof (induction qs cs arbitrary: l rule: list_all2_induct)
  case Nil
  then show ?case by simp
next
  case (Cons q qs c cs)
  have n: "\<not> old_seq l q" using Cons.prems by (simp add: next_seq_new)
  have "successively next_seq (q # qs)" using Cons.prems by simp
  from Cons.IH [OF this] show ?case
    by (simp only: list.map concat.simps tid_accepted_append [of l "fst c @ snd c"] mpdu_verdict [OF Cons.hyps(1)])
      (auto simp: n split: prod.splits)
qed

text \<open>
  C30. On a TID without a running A-MPDU session a frame is delivered at most once, however
  often it was repeated and whatever was lost around it: of each MPDU of the TID either all frames of the first copy are accepted and all
  repetitions rejected, or nothing is; and if the first copy that arrives is not marked as a
  retry, the former. Frames of other TIDs, multicasts and unnumbered frames may come between.
  (With a running session \<open>ieee80211_check_rxseq\<close> accepts every frame and leaves duplicates to
  the session.)
\<close>

theorem rxseq_no_duplicates:
  assumes "\<not> aggregated ni t" "t < length (ni_rxseqs ni)" "list_all2 mpdu_copies qs cs"
    and "filter (numbered t) fs = concat (map (\<lambda>c. fst c @ snd c) cs)"
  shows "\<exists>oks. length oks = length cs \<and>
    filter (numbered t) (fst (accepted fs ni)) = concat (map2 (\<lambda>ok c. if ok then fst c else []) oks cs) \<and>
    (\<forall>i < length cs. \<not> is_retry (hd (fst (cs ! i))) \<longrightarrow> oks ! i)"
proof -
  obtain as ni' where a: "accepted fs ni = (as, ni')" by fastforce
  show ?thesis
    using mpdus_verdict [OF assms(3), of "ni_rxseqs ni ! t"] accepted_tid [OF assms(1,2) a] assms(4)
    by (simp add: a)
qed

text \<open>
  C29. On a TID without a running A-MPDU session: if the sender numbers its fragments and
  frames in succession, starting behind the last number the receiver has seen, and some copy
  of every one arrives, then every frame is
  accepted exactly once and in order, over any number of turns of the sequence numbers, even
  where only retries arrive.
\<close>

theorem rxseq_exactly_once:
  assumes "\<not> aggregated ni t" "t < length (ni_rxseqs ni)" "list_all2 mpdu_copies qs cs"
    and "successively next_seq (ni_rxseqs ni ! t # qs)"
    and "filter (numbered t) fs = concat (map (\<lambda>c. fst c @ snd c) cs)"
  shows "filter (numbered t) (fst (accepted fs ni)) = concat (map fst cs)"
proof -
  obtain as ni' where a: "accepted fs ni = (as, ni')" by fastforce
  show ?thesis
    using consecutive_all_accepted [OF assms(3,4)] accepted_tid [OF assms(1,2) a] assms(5)
    by (simp add: a)
qed

section \<open>Examples\<close>

definition ex_ampdu_stats :: ampdu_stats where
  "ex_ampdu_stats = \<lparr>is_ampdu_rx_reorder = 0, is_rx_dup = 0, is_ampdu_rx_oor = 0, is_ampdu_rx_copy = 0,
     is_ampdu_rx_age = 0, is_ampdu_rx_move = 0, is_ampdu_rx_drop = 0, is_ampdu_bar_bad = 0,
     is_ampdu_bar_rx = 0, is_ampdu_bar_move = 0, is_ampdu_bar_oow = 0, ns_rx_dup = 0, ns_rx_drop = 0,
     ns_rx_amsdu_more = 0, ns_rx_amsdu_more_end = 0\<rparr>"

definition ex_input_stats :: input_stats where
  "ex_input_stats = \<lparr>is_rx_defrag = 0, is_amsdu_decap = 0, is_amsdu_tooshort = 0, is_amsdu_split = 0,
     is_rx_badversion = 0, is_rx_wrongbss = 0, is_rx_wrongdir = 0, is_rx_mcastecho = 0,
     is_rx_noprivacy = 0, is_rx_demicfail = 0, is_rx_decap = 0, is_rx_unauth = 0,
     is_rx_unencrypted = 0, is_rx_mgmt = 0, is_rx_mgtdiscard = 0, is_rx_ctl = 0, ns_rx_defrag = 0,
     ns_rx_data = 0, ns_rx_bytes = 0, ns_rx_mcast = 0, ns_rx_ucast = 0, ns_rx_noprivacy = 0,
     ns_rx_wepfail = 0, ns_rx_demicfail = 0, ns_rx_decap = 0, ns_rx_unauth = 0,
     ns_rx_unencrypted = 0, ns_rx_mgmt = 0, ns_rx_ctrl = 0, if_ipackets = 0,
     if_ierrors = 0\<rparr>"

text \<open>A node that has seen number \<open>q\<close> last, on every TID.\<close>

definition ex_ni :: "u16 \<Rightarrow> ni_rx" where
  "ex_ni q = \<lparr>ni_flags = NODE_AUTH, ni_rxseqs = replicate 17 q,
     ni_ampdu = ([], \<lparr>up = [], freed = [], ni_stats = ex_ampdu_stats\<rparr>), ni_rxfrag = None,
     ni_rxfragstamp = 0, ni_table = True, ni_vlan = 0, in_stats = ex_input_stats, delivered = []\<rparr>"

text \<open>A data frame from the access point, with sequence control \<open>q\<close>.\<close>

definition ex_data :: "u8 \<Rightarrow> u16 \<Rightarrow> u8 list" where
  "ex_data fc1 q = [0x08, fc1, 0, 0, 2, 2, 2, 2, 2, 2, 4, 4, 4, 4, 4, 4, 6, 6, 6, 6, 6, 6, lo8 q, hi8 q]"

lemma ex_data_facts:
  "i_seq (ex_data fc1 q) = q" "numbered 16 (ex_data fc1 q, r)"
  "is_retry (ex_data fc1 q, r) \<longleftrightarrow> fc1 AND FC1_RETRY \<noteq> 0"
  by (simp_all add: ex_data_def i_seq_def numbered_def is_retry_def byte_simps IEEE80211_HAS_SEQ_def
      IEEE80211_IS_MULTICAST_def i_addr1_def ieee80211_gettid_def IEEE80211_QOS_HAS_SEQ_def)

text \<open>
  Over the turn: the last number seen is (4094, 0); the first copy of (4095, 0) arrives, then
  a retry, then only a retry of (0, 0).
\<close>

definition ex_trace :: "rx_frame list" where
  "ex_trace = [(ex_data 2 0xfff0, None), (ex_data 10 0xfff0, None), (ex_data 10 0, None)]"

definition ex_copies :: "mpdu_copies list" where
  "ex_copies = [([(ex_data 2 0xfff0, None)], [(ex_data 10 0xfff0, None)]), ([(ex_data 10 0, None)], [])]"

lemma ex_trace_facts:
  "\<not> aggregated (ex_ni 0xffe0) 16" "16 < length (ni_rxseqs (ex_ni 0xffe0))"
  "list_all2 mpdu_copies [0xfff0, 0] ex_copies"
  "filter (numbered 16) ex_trace = concat (map (\<lambda>c. fst c @ snd c) ex_copies)"
  "successively next_seq (ni_rxseqs (ex_ni 0xffe0) ! 16 # [0xfff0, 0])"
  by (simp_all add: aggregated_def ex_ni_def ex_copies_def ex_trace_def mpdu_copies_def ex_data_facts
      ieee80211_check_rxseq_amsdu_more_def next_seq_def SEQNO_def)

theorem rxseq_no_duplicates_witness:
  "\<exists>oks. length oks = length ex_copies \<and>
    filter (numbered 16) (fst (accepted ex_trace (ex_ni 0xffe0))) =
      concat (map2 (\<lambda>ok c. if ok then fst c else []) oks ex_copies) \<and>
    (\<forall>i < length ex_copies. \<not> is_retry (hd (fst (ex_copies ! i))) \<longrightarrow> oks ! i)"
  by (rule rxseq_no_duplicates [OF ex_trace_facts(1-4)])

theorem rxseq_exactly_once_witness:
  "filter (numbered 16) (fst (accepted ex_trace (ex_ni 0xffe0))) =
    [(ex_data 2 0xfff0, None), (ex_data 10 0, None)]"
  using rxseq_exactly_once [OF ex_trace_facts(1-3,5,4)] by (simp add: ex_copies_def)

text \<open>
  The limit the code's comment names: if the frames up to (4095, 0) were lost, a retry of
  (0, 0) is taken for old although it never arrived.
\<close>

lemma rxseq_wrap_loss: "\<not> fst (ieee80211_check_rxseq (ex_data 10 0) None (ex_ni 0xffe0))"
proof -
  obtain ok ni' where c: "ieee80211_check_rxseq (ex_data 10 0) None (ex_ni 0xffe0) = (ok, ni')" by fastforce
  have "is_retry (ex_data 10 0, None) \<and> old_seq (ni_rxseqs (ex_ni 0xffe0) ! 16) (i_seq (ex_data 10 0))"
    by (simp add: ex_data_facts old_seq_def ex_ni_def SEQNO_def)
  then show ?thesis using check_numbered(1) [OF ex_data_facts(2) ex_trace_facts(1) c] by (simp add: c)
qed

end
