(* ===== verification/RxDefragProps.thy ===== *)
theory RxDefragProps
  imports RxDefrag RxSeqProps "HOL-Library.Sublist"
begin

text \<open>
  Reassembly against a machine on lists of fragments: the incomplete frame of the node stands
  for the fragments it was joined from. The frames handed on are then joins of fragments that
  belong together, and a frame sent in fragments is handed on whole.
\<close>

section \<open>Fragments\<close>

text \<open>What arrives: a frame, the length of its header, and whether it was decrypted.\<close>

type_synonym frag = "mbuf \<times> nat \<times> bool"

definition frag_valid :: "frag \<Rightarrow> bool" where
  "frag_valid p \<longleftrightarrow> (case p of (m, h, d) \<Rightarrow> m_segs m \<noteq> [] \<and> 24 \<le> length (mtod m) \<and> 24 \<le> h)"

definition frag_hdr :: "frag \<Rightarrow> u8 list" where
  "frag_hdr p = (case p of (m, h, d) \<Rightarrow> if d then set_protected (mtod m) else mtod m)"

definition frag_bytes :: "frag \<Rightarrow> u8 list" where
  "frag_bytes p = (case p of (m, h, d) \<Rightarrow>
     if d then set_protected (concat (m_segs m)) else concat (m_segs m))"

definition frag_body :: "frag \<Rightarrow> u8 list" where
  "frag_body p = (case p of (m, h, d) \<Rightarrow> drop h (concat (m_segs m)))"

definition frag_more :: "frag \<Rightarrow> bool" where
  "frag_more p \<longleftrightarrow> mtod (fst p) ! 1 AND FC1_MORE_FRAG \<noteq> 0"

definition frag_first :: "frag \<Rightarrow> bool" where
  "frag_first p \<longleftrightarrow> FRAGNO (i_seq (mtod (fst p))) = 0"

text \<open>The frame that fragments make: the header of the first with the number of the last, and
  the bodies in order.\<close>

definition frags_joined :: "frag list \<Rightarrow> u8 list" where
  "frags_joined ps =
     (frag_bytes (hd ps))[22 := frag_hdr (last ps) ! 22, 23 := frag_hdr (last ps) ! 23] @
     concat (map frag_body (tl ps))"

definition assembled :: "frag list \<Rightarrow> mbuf \<Rightarrow> bool" where
  "assembled ps m \<longleftrightarrow> clear_protected (concat (m_segs m)) = clear_protected (frags_joined ps)"

section \<open>The machine on lists\<close>

definition add_frag :: "frag list \<Rightarrow> frag \<Rightarrow> frag list" where
  "add_frag ps p =
     (if ps \<noteq> [] \<and> frag_continues (frag_hdr (last ps)) (frag_hdr p) then ps @ [p]
      else if frag_first p then [p] else [])"

text \<open>One fragment: the fragments kept, and the frame handed on, if there is one.\<close>

definition frags_step :: "frag list \<Rightarrow> frag \<Rightarrow> frag list option \<times> frag list" where
  "frags_step ps p =
     (let qs = add_frag ps p
      in if qs = [] then (None, []) else if frag_more p then (None, qs) else (Some qs, []))"

section \<open>Headers\<close>

lemma i_seq_prefix: "take 24 a = take 24 b \<Longrightarrow> i_seq a = i_seq b"
proof -
  assume a: "take 24 a = take 24 b"
  have "a ! i = b ! i" if "i < 24" for i
    using arg_cong [OF a, of "\<lambda>xs. xs ! i"] that by simp
  then show ?thesis by (simp add: i_seq_def)
qed

lemma hdr_upd_facts:
  assumes "24 \<le> length wh"
  shows "i_seq (set_protected wh) = i_seq wh" "i_addr1 (set_protected wh) = i_addr1 wh"
    "i_addr2 (set_protected wh) = i_addr2 wh" "length (set_protected wh) = length wh"
    "i_seq (wh[22 := a, 23 := b]) = le16 a b" "i_addr1 (wh[22 := a, 23 := b]) = i_addr1 wh"
    "i_addr2 (wh[22 := a, 23 := b]) = i_addr2 wh" "wh[22 := a, 23 := b] ! 1 = wh ! 1"
    "set_protected wh ! 1 = wh ! 1 OR FC1_PROTECTED"
  using assms by (simp_all add: i_seq_def i_addr1_def i_addr2_def set_protected_def drop_update_swap take_update_cancel nth_list_update)

text \<open>Two headers that a further fragment is compared with in the same way.\<close>

definition same_frame :: "u8 list \<Rightarrow> u8 list \<Rightarrow> bool" where
  "same_frame a b \<longleftrightarrow> i_seq a = i_seq b \<and> i_addr1 a = i_addr1 b \<and> i_addr2 a = i_addr2 b \<and>
     a ! 1 AND FC1_PROTECTED = b ! 1 AND FC1_PROTECTED"

lemma and_xor_zero: "(a XOR b) AND c = 0 \<longleftrightarrow> a AND c = (b AND c :: u8)"
proof -
  have "(a XOR b) AND c = (a AND c) XOR (b AND c)" by (rule bit_word_eqI) (auto simp: bit_simps)
  moreover have "(x XOR y = 0) = (x = y)" for x y :: u8
  proof
    assume "x XOR y = 0"
    then have "(x XOR y) XOR y = 0 XOR y" by simp
    then show "x = y" by (simp only: xor_cancel xor.left_neutral)
  qed simp
  ultimately show ?thesis by simp
qed

lemma frag_continues_cong:
  "same_frame a b \<Longrightarrow> frag_continues a w = frag_continues b w"
  by (simp add: frag_continues_def same_frame_def and_xor_zero)

lemma ADDR_EQ_take: "IEEE80211_ADDR_EQ (i_addr1 a) (i_addr1 b) \<longleftrightarrow> i_addr1 a = i_addr1 b"
  "IEEE80211_ADDR_EQ (i_addr2 a) (i_addr2 b) \<longleftrightarrow> i_addr2 a = i_addr2 b"
  by (simp_all add: IEEE80211_ADDR_EQ_def i_addr1_def i_addr2_def)

lemma frag_hdr_facts:
  assumes "frag_valid (m, h, d)"
  shows "24 \<le> length (frag_hdr (m, h, d))" "i_seq (frag_hdr (m, h, d)) = i_seq (mtod m)"
    "frag_hdr (m, h, d) ! 22 = mtod m ! 22" "frag_hdr (m, h, d) ! 23 = mtod m ! 23"
    "frag_bytes (m, h, d) = frag_hdr (m, h, d) @ concat (tl (m_segs m))"
proof -
  have v: "m_segs m \<noteq> []" "24 \<le> length (mtod m)" using assms by (simp_all add: frag_valid_def)
  show "24 \<le> length (frag_hdr (m, h, d))" "i_seq (frag_hdr (m, h, d)) = i_seq (mtod m)"
    using v by (auto simp: frag_hdr_def hdr_upd_facts)
  show "frag_hdr (m, h, d) ! 22 = mtod m ! 22" "frag_hdr (m, h, d) ! 23 = mtod m ! 23"
    by (simp_all add: frag_hdr_def set_protected_def)
  show "frag_bytes (m, h, d) = frag_hdr (m, h, d) @ concat (tl (m_segs m))"
    using v by (auto simp: frag_bytes_def frag_hdr_def set_protected_def concat_hd_tl
        list_update_append nth_append)
qed

section \<open>The kept frame and its fragments\<close>

definition keeps :: "ni_rx \<Rightarrow> frag list \<Rightarrow> bool" where
  "keeps ni ps \<longleftrightarrow> list_all frag_valid ps \<and>
     (case ni_rxfrag ni of
        None \<Rightarrow> ps = []
      | Some mf \<Rightarrow> ps \<noteq> [] \<and> m_segs mf \<noteq> [] \<and> 24 \<le> length (mtod mf) \<and>
          concat (m_segs mf) = frags_joined ps \<and> same_frame (mtod mf) (frag_hdr (last ps)))"

lemma keeps_Nil: "ni_rxfrag ni = None \<Longrightarrow> keeps ni ps \<longleftrightarrow> ps = []"
  by (auto simp: keeps_def)

lemma keeps_Some:
  assumes "ni_rxfrag ni = Some mf" "keeps ni ps"
  shows "ps \<noteq> []" "m_segs mf \<noteq> []" "24 \<le> length (mtod mf)" "concat (m_segs mf) = frags_joined ps"
    "same_frame (mtod mf) (frag_hdr (last ps))" "list_all frag_valid ps"
  using assms by (simp_all add: keeps_def)

lemma joined_single:
  assumes "frag_valid p"
  shows "frags_joined [p] = frag_bytes p"
proof -
  obtain m h d where p: "p = (m, h, d)" by (cases p) auto
  note f = frag_hdr_facts [OF assms [unfolded p]]
  have "(frag_hdr p)[22 := frag_hdr p ! 22, 23 := frag_hdr p ! 23] = frag_hdr p" by simp
  then show ?thesis using f(1) unfolding frags_joined_def p
    by (simp add: f(5) list_update_append)
qed

lemma joined_snoc:
  assumes "ps \<noteq> []" "24 \<le> length (frag_bytes (hd ps))"
  shows "frags_joined (ps @ [p]) =
    (frags_joined ps)[22 := frag_hdr p ! 22, 23 := frag_hdr p ! 23] @ frag_body p"
  using assms
  by (simp add: frags_joined_def list_update_append list_update_swap)

lemma same_frame_refl: "same_frame a a"
  by (simp add: same_frame_def)

lemma joined_length: "length (frag_bytes (hd ps)) \<le> length (frags_joined ps)"
  by (simp add: frags_joined_def)

text \<open>The fragment after the code has marked it as encrypted.\<close>

definition marked :: "frag \<Rightarrow> mbuf" where
  "marked p = (case p of (m, h, d) \<Rightarrow> if d then hdr_update set_protected m else m)"

lemma marked_facts:
  assumes "frag_valid (m, h, d)"
  shows "mtod (marked (m, h, d)) = frag_hdr (m, h, d)" "m_segs (marked (m, h, d)) \<noteq> []"
    "concat (m_segs (marked (m, h, d))) = frag_bytes (m, h, d)"
    "drop h (concat (m_segs (marked (m, h, d)))) = frag_body (m, h, d)"
proof -
  have v: "m_segs m \<noteq> []" "24 \<le> length (mtod m)" "24 \<le> h" using assms by (simp_all add: frag_valid_def)
  show h: "mtod (marked (m, h, d)) = frag_hdr (m, h, d)" and n: "m_segs (marked (m, h, d)) \<noteq> []"
    using v by (simp_all add: marked_def hdr_update_def frag_hdr_def)
  show b: "concat (m_segs (marked (m, h, d))) = frag_bytes (m, h, d)"
    unfolding concat_hd_tl [OF n] h frag_hdr_facts(5) [OF assms] by (simp add: marked_def hdr_update_def)
  show "drop h (concat (m_segs (marked (m, h, d)))) = frag_body (m, h, d)"
    unfolding b using v by (simp add: frag_bytes_def frag_body_def set_protected_def)
qed

lemma first_keeps:
  assumes "frag_valid p"
  shows "keeps (ni\<lparr>ni_rxfragstamp := ticks, ni_rxfrag := Some (marked p)\<rparr>) [p]"
proof -
  obtain m h d where p: "p = (m, h, d)" by (cases p) auto
  note a = assms [unfolded p]
  show ?thesis
    using marked_facts [OF a] frag_hdr_facts(1) [OF a] joined_single [OF a] a
    by (simp add: keeps_def p same_frame_refl)
qed

lemma clear_protected_append:
  "2 \<le> length a \<Longrightarrow> clear_protected (a @ b) = clear_protected a @ b"
  by (simp add: clear_protected_def list_update_append nth_append)

lemma clear_twice: "clear_protected (clear_protected a) = clear_protected a"
  by (cases "1 < length a") (simp_all add: clear_protected_def list_update_beyond)

lemma clear_set: "clear_protected (set_protected a) = clear_protected a"
proof (cases "1 < length a")
  case True
  have "(x OR 64) AND NOT 64 = x AND NOT (64 :: u8)" for x by (rule bit_word_eqI) (auto simp: bit_simps)
  then show ?thesis using True by (simp add: clear_protected_def set_protected_def)
qed (simp add: clear_protected_def set_protected_def list_update_beyond)

lemma assembled_cleared:
  assumes "m_segs mf \<noteq> []" "24 \<le> length (mtod mf)" "concat (m_segs mf) = frags_joined ps"
  shows "assembled ps (hdr_update clear_protected mf)"
proof -
  have "concat (m_segs (hdr_update clear_protected mf)) = clear_protected (concat (m_segs mf))"
    unfolding concat_hd_tl [OF assms(1)] using assms(2) by (simp add: hdr_update_def clear_protected_append)
  then show ?thesis using assms(3) by (simp add: assembled_def clear_twice)
qed

text \<open>Appending a fragment that continues the kept frame.\<close>

lemma join_keeps:
  assumes "catpkts cat" "keeps ni ps" "ni_rxfrag ni = Some mf" "frag_valid p"
    and "frag_continues (frag_hdr (last ps)) (frag_hdr p)"
  shows "\<exists>mf'. defrag_join cat (fst (snd p)) mf (marked p) ni' = (Some mf', ni') \<and>
    m_segs mf' \<noteq> [] \<and> 24 \<le> length (mtod mf') \<and> concat (m_segs mf') = frags_joined (ps @ [p]) \<and>
    same_frame (mtod mf') (frag_hdr p)"
proof -
  obtain m h d where p: "p = (m, h, d)" by (cases p) auto
  note k = keeps_Some [OF assms(3,2)] and a = assms(4) [unfolded p] and c = assms(5)
  define wh where "wh = frag_hdr p"
  define lwh where "lwh = (mtod mf)[22 := wh ! 22, 23 := wh ! 23]"
  define segs where "segs = cat (lwh # tl (m_segs mf)) (m_adj_front h (m_segs (marked p)))"
  have cont: "frag_continues (mtod mf) wh" using c frag_continues_cong [OF k(5)] by (simp add: wh_def)
  have j: "defrag_join cat h mf (marked p) ni' = (Some (mf\<lparr>m_segs := segs\<rparr>), ni')"
    using cont marked_facts(1) [OF a]
    by (simp add: defrag_join_def hdr_update_def p wh_def segs_def lwh_def Let_def)
  have cat: "segs \<noteq> []" "concat segs = concat (lwh # tl (m_segs mf)) @ concat (m_adj_front h (m_segs (marked p)))"
      "take (length lwh) (hd segs) = lwh"
    using assms(1) unfolding catpkts_def segs_def by (simp_all, metis list.distinct(1) list.sel(1))
  have len: "length (mtod mf) = length lwh" "24 \<le> length lwh" using k(3) by (simp_all add: lwh_def)
  have l24: "24 \<le> length (hd segs)"
    using arg_cong [OF cat(3), of length] len by simp
  have bytes: "24 \<le> length (frag_bytes (hd ps))"
  proof -
    obtain m0 h0 d0 where p0: "hd ps = (m0, h0, d0)" by (cases "hd ps") auto
    have "frag_valid (hd ps)" using k(1,6) by (cases ps) auto
    from frag_hdr_facts(1,5) [OF this [unfolded p0]] show ?thesis by (simp add: p0)
  qed
  have "concat segs = (frags_joined ps)[22 := wh ! 22, 23 := wh ! 23] @ frag_body p"
  proof -
    have "frags_joined ps = mtod mf @ concat (tl (m_segs mf))"
      unfolding k(4) [symmetric] by (rule concat_hd_tl [OF k(2)])
    then have "(frags_joined ps)[22 := wh ! 22, 23 := wh ! 23] = lwh @ concat (tl (m_segs mf))"
      using k(3) by (simp add: lwh_def list_update_append)
    moreover have "concat (m_adj_front h (m_segs (marked p))) = frag_body p"
      using marked_facts(4) [OF a] by (simp add: p)
    ultimately show ?thesis using cat(2) by simp
  qed
  then have joined: "concat segs = frags_joined (ps @ [p])"
    unfolding joined_snoc [OF k(1) bytes] wh_def .
  have eq24: "take 24 (hd segs) = take 24 lwh"
    using arg_cong [OF cat(3), of "take 24"] len by simp
  have same: "same_frame (hd segs) wh"
  proof -
    have "i_seq (hd segs) = i_seq lwh" by (rule i_seq_prefix [OF eq24])
    moreover have "i_addr1 (hd segs) = i_addr1 lwh" "i_addr2 (hd segs) = i_addr2 lwh"
      using arg_cong [OF eq24, of "\<lambda>xs. take 6 (drop 4 xs)"] arg_cong [OF eq24, of "\<lambda>xs. take 6 (drop 10 xs)"]
      by (simp_all add: i_addr1_def i_addr2_def drop_take)
    moreover have "hd segs ! 1 = lwh ! 1" using arg_cong [OF eq24, of "\<lambda>xs. xs ! 1"] by simp
    moreover have "i_seq lwh = i_seq wh" "i_addr1 lwh = i_addr1 (mtod mf)" "i_addr2 lwh = i_addr2 (mtod mf)"
        "lwh ! 1 = mtod mf ! 1"
      using k(3) hdr_upd_facts(5-8) [OF k(3)] by (simp_all add: lwh_def i_seq_def)
    moreover have "i_addr1 wh = i_addr1 (mtod mf)" "i_addr2 wh = i_addr2 (mtod mf)"
        "wh ! 1 AND FC1_PROTECTED = mtod mf ! 1 AND FC1_PROTECTED"
      using cont by (simp_all add: frag_continues_def ADDR_EQ_take and_xor_zero)
    ultimately show ?thesis by (simp add: same_frame_def)
  qed
  show ?thesis
    using j cat(1) l24 joined same by (intro exI [of _ "mf\<lparr>m_segs := segs\<rparr>"]) (simp add: p wh_def)
qed

section \<open>One call\<close>

text \<open>What happens to the fragments kept when a further one arrives, in the code's words.\<close>

definition frag_out :: "u32 \<Rightarrow> bool \<Rightarrow> mbuf \<Rightarrow> ni_rx \<Rightarrow> mbuf option \<times> ni_rx" where
  "frag_out ticks mo mf ni =
     (if mo then (None, ni\<lparr>ni_rxfragstamp := ticks, ni_rxfrag := Some mf\<rparr>)
      else (Some (hdr_update clear_protected mf), ni))"

lemma m_freem_facts [simp]:
  "ni_rxfrag (m_freem m ni) = ni_rxfrag ni" "ni_table (m_freem m ni) = ni_table ni"
  "ni_rxseqs (m_freem m ni) = ni_rxseqs ni" "ni_flags (m_freem m ni) = ni_flags ni"
  "fst (ni_ampdu (m_freem m ni)) = fst (ni_ampdu ni)"
  "freed (snd (ni_ampdu (m_freem m ni))) = freed (snd (ni_ampdu ni)) @ [m]"
  "delivered (m_freem m ni) = delivered ni" "in_stats (m_freem m ni) = in_stats ni"
  by (simp_all add: m_freem_def)

lemma instat_facts [simp]:
  "ni_rxfrag (instat f ni) = ni_rxfrag ni" "ni_table (instat f ni) = ni_table ni"
  "ni_rxseqs (instat f ni) = ni_rxseqs ni" "ni_flags (instat f ni) = ni_flags ni"
  "ni_ampdu (instat f ni) = ni_ampdu ni" "delivered (instat f ni) = delivered ni"
  by (simp_all add: instat_def)

lemma frag_first_fragno: "frag_first (m, h, d) \<longleftrightarrow> i_seq (mtod m) AND 0x000f = 0"
  by (simp add: frag_first_def FRAGNO_def)

lemma marked_hdr_tests:
  assumes "frag_valid (m, h, d)"
  shows "length (mtod m) \<ge> 24" "i_seq (mtod (marked (m, h, d))) = i_seq (mtod m)"
  using assms marked_facts(1) [OF assms] frag_hdr_facts(2) [OF assms] by (simp_all add: frag_valid_def)

lemma defrag_quick:
  assumes "frag_valid (m, h, d)" "\<not> frag_more (m, h, d)" "frag_first (m, h, d)" "ni_rxfrag ni = None"
  shows "ieee80211_defrag cat ticks m h d ni = Some (Some m, ni)"
  using assms by (simp add: ieee80211_defrag_def frag_valid_def frag_more_def frag_first_fragno Let_def)

lemma defrag_cases:
  assumes "frag_valid (m, h, d)" "ni_table ni" "case ni_rxfrag ni of None \<Rightarrow> True | Some mf \<Rightarrow> 24 \<le> length (mtod mf)"
    and "\<not> (\<not> frag_more (m, h, d) \<and> frag_first (m, h, d) \<and> ni_rxfrag ni = None)"
    and "(case ni_rxfrag ni of None \<Rightarrow> (None, ni\<lparr>ni_rxfrag := None\<rparr>)
      | Some mf \<Rightarrow> defrag_join cat h mf (marked (m, h, d)) (ni\<lparr>ni_rxfrag := None\<rparr>)) = (j, ni1)"
  shows "ieee80211_defrag cat ticks m h d ni =
    Some (case j of
        Some mf \<Rightarrow> frag_out ticks (frag_more (m, h, d)) mf ni1
      | None \<Rightarrow> if frag_first (m, h, d) then frag_out ticks (frag_more (m, h, d)) (marked (m, h, d)) ni1
               else (None, m_freem (marked (m, h, d)) (instat (\<lambda>s. s\<lparr>is_rx_defrag := is_rx_defrag s + 1,
                       ns_rx_defrag := ns_rx_defrag s + 1\<rparr>) ni1)))"
proof -
  have m: "(if d then hdr_update set_protected m else m) = marked (m, h, d)" by (simp add: marked_def)
  have l: "\<not> length (mtod m) < 24" using assms(1) by (simp add: frag_valid_def)
  have k: "\<not> (case ni_rxfrag ni of None \<Rightarrow> False | Some mf \<Rightarrow> length (mtod mf) < 24)"
    using assms(3) by (auto split: option.splits)
  have q: "\<not> (\<not> (mtod m ! 1 AND FC1_MORE_FRAG \<noteq> 0) \<and> i_seq (mtod m) AND 0x000f = 0 \<and> ni_rxfrag ni = None)"
    using assms(4) by (simp add: frag_more_def frag_first_fragno)
  show ?thesis
    unfolding ieee80211_defrag_def Let_def m assms(5) if_not_P [OF l] if_not_P [OF q] if_not_P [OF k]
    using assms(2)
    by (cases j) (simp_all add: frag_out_def frag_more_def frag_first_fragno)
qed

lemma frags_step_cases:
  "add_frag ps p = [] \<Longrightarrow> frags_step ps p = (None, [])"
  "add_frag ps p = q # qs \<Longrightarrow> frag_more p \<Longrightarrow> frags_step ps p = (None, q # qs)"
  "add_frag ps p = q # qs \<Longrightarrow> \<not> frag_more p \<Longrightarrow> frags_step ps p = (Some (q # qs), [])"
  by (simp_all add: frags_step_def)

text \<open>The frame handed on, or kept, after fragments were put together.\<close>

lemma frag_out_step:
  assumes "qs \<noteq> []" "add_frag ps p = qs" "list_all frag_valid qs" "ni_rxfrag ni = None" "ni_table ni"
    and "m_segs mf \<noteq> []" "24 \<le> length (mtod mf)" "concat (m_segs mf) = frags_joined qs"
      "same_frame (mtod mf) (frag_hdr (last qs))"
    and "frag_out ticks (frag_more p) mf ni = (r, ni')"
  shows "ni_table ni' \<and> keeps ni' (snd (frags_step ps p)) \<and>
    rel_option assembled (fst (frags_step ps p)) r"
proof (cases "frag_more p")
  case True
  then show ?thesis using assms by (auto simp: frags_step_def frag_out_def keeps_def)
next
  case False
  then show ?thesis using assms assembled_cleared [OF assms(6,7,8)]
    by (auto simp: frags_step_def frag_out_def keeps_Nil)
qed

lemma defrag_step:
  assumes "catpkts cat" "frag_valid p" "ni_table ni" "keeps ni ps"
  shows "\<exists>r ni'. ieee80211_defrag cat ticks (fst p) (fst (snd p)) (snd (snd p)) ni = Some (r, ni') \<and>
    ni_table ni' \<and> keeps ni' (snd (frags_step ps p)) \<and> rel_option assembled (fst (frags_step ps p)) r"
proof -
  obtain m h d where p: "p = (m, h, d)" by (cases p) auto
  note v = assms(2) [unfolded p]
  show ?thesis
  proof (cases "\<not> frag_more p \<and> frag_first p \<and> ni_rxfrag ni = None")
    case True
    have "ps = []" using True assms(4) keeps_Nil by blast
    then have st: "frags_step ps p = (Some [p], [])" using True by (simp add: frags_step_def add_frag_def)
    have "assembled [p] m"
      using joined_single [OF assms(2)] by (simp add: assembled_def p frag_bytes_def clear_set)
    then show ?thesis using defrag_quick [OF v] True assms(3)
      by (simp add: p st [unfolded p] keeps_Nil)
  next
    case False
    have k24: "case ni_rxfrag ni of None \<Rightarrow> True | Some mf \<Rightarrow> 24 \<le> length (mtod mf)"
      using assms(4) keeps_Some(3) by (auto split: option.splits)
    obtain j ni1 where j: "(case ni_rxfrag ni of None \<Rightarrow> (None, ni\<lparr>ni_rxfrag := None\<rparr>)
        | Some mf \<Rightarrow> defrag_join cat h mf (marked (m, h, d)) (ni\<lparr>ni_rxfrag := None\<rparr>)) = (j, ni1)"
      by fastforce
    note eq = defrag_cases [OF v assms(3) k24 False [unfolded p] j, folded p, of ticks]
    note mk = marked_facts [OF v, folded p] and hd = frag_hdr_facts [OF v, folded p]
    define cont where "cont \<longleftrightarrow> ps \<noteq> [] \<and> frag_continues (frag_hdr (last ps)) (frag_hdr p)"
    have n1: "ni_rxfrag ni1 = None" "ni_table ni1"
      using j assms(3) by (auto simp: defrag_join_def Let_def split: option.splits if_splits)
    show ?thesis
    proof (cases cont)
      case True
      then obtain mf where mf: "ni_rxfrag ni = Some mf"
        using assms(4) by (cases "ni_rxfrag ni") (auto simp: cont_def keeps_def)
      have c: "frag_continues (frag_hdr (last ps)) (frag_hdr p)" using True by (simp add: cont_def)
      obtain mf' where J: "defrag_join cat h mf (marked p) (ni\<lparr>ni_rxfrag := None\<rparr>) = (Some mf', ni\<lparr>ni_rxfrag := None\<rparr>)"
        "m_segs mf' \<noteq> []" "24 \<le> length (mtod mf')" "concat (m_segs mf') = frags_joined (ps @ [p])"
        "same_frame (mtod mf') (frag_hdr p)"
        using join_keeps [OF assms(1,4) mf assms(2) c, of "ni\<lparr>ni_rxfrag := None\<rparr>"] by (auto simp: p)
      have jj: "j = Some mf'" using j J(1) by (simp add: mf p)
      obtain r ni' where fo: "frag_out ticks (frag_more p) mf' ni1 = (r, ni')" by fastforce
      have "add_frag ps p = ps @ [p]" using True by (simp add: add_frag_def cont_def)
      moreover have "list_all frag_valid (ps @ [p])"
        using keeps_Some(6) [OF mf assms(4)] assms(2) by simp
      ultimately have "ni_table ni' \<and> keeps ni' (snd (frags_step ps p)) \<and> rel_option assembled (fst (frags_step ps p)) r"
        using frag_out_step [OF _ _ _ n1 J(2,3,4) _ fo, of ps] J(5) by simp
      then show ?thesis using eq fo by (simp add: jj p)
    next
      case False
      have jj: "j = None"
      proof (cases "ni_rxfrag ni")
        case None
        then show ?thesis using j by simp
      next
        case (Some mf)
        have "\<not> frag_continues (mtod mf) (frag_hdr p)"
          using False frag_continues_cong [OF keeps_Some(5) [OF Some assms(4)]] keeps_Some(1) [OF Some assms(4)]
          by (simp add: cont_def)
        then show ?thesis using j mk(1) by (auto simp: Some defrag_join_def p)
      qed
      show ?thesis
      proof (cases "frag_first p")
        case True
        obtain r ni' where fo: "frag_out ticks (frag_more p) (marked p) ni1 = (r, ni')" by fastforce
        have "add_frag ps p = [p]" using True False by (simp add: add_frag_def cont_def)
        then have "ni_table ni' \<and> keeps ni' (snd (frags_step ps p)) \<and> rel_option assembled (fst (frags_step ps p)) r"
          using frag_out_step [OF _ _ _ n1 mk(2) _ _ _ fo, of "[p]" ps] mk hd joined_single [OF assms(2)] assms(2)
          by (simp add: same_frame_refl)
        then show ?thesis using eq fo True by (simp add: jj p)
      next
        case f: False
        then have "frags_step ps p = (None, [])" using False by (auto simp: frags_step_def add_frag_def cont_def)
        then show ?thesis using eq f n1 by (simp add: jj p keeps_Nil)
      qed
    qed
  qed
qed

section \<open>Runs\<close>

datatype defrag_ev = Frag u32 frag | Expire u32 u32 | Drain

fun defrag_run :: "m_catpkt \<Rightarrow> defrag_ev list \<Rightarrow> ni_rx \<Rightarrow> (mbuf list \<times> ni_rx) option" where
  "defrag_run cat [] ni = Some ([], ni)"
| "defrag_run cat (Frag ticks p # es) ni =
     (case ieee80211_defrag cat ticks (fst p) (fst (snd p)) (snd (snd p)) ni of
        None \<Rightarrow> None
      | Some (r, ni) \<Rightarrow> map_option (apfst ((@) (case r of None \<Rightarrow> [] | Some m \<Rightarrow> [m]))) (defrag_run cat es ni))"
| "defrag_run cat (Expire ticks hz # es) ni = defrag_run cat es (rxfrag_expire ticks hz ni)"
| "defrag_run cat (Drain # es) ni = defrag_run cat es (rxfrag_free ni)"

fun frags_of :: "defrag_ev list \<Rightarrow> frag list" where
  "frags_of [] = []"
| "frags_of (Frag ticks p # es) = p # frags_of es"
| "frags_of (_ # es) = frags_of es"

text \<open>Fragments of one frame: in order from the first to the last, from one sender to one
  receiver, and either all encrypted or none.\<close>

abbreviation frags_chain :: "frag list \<Rightarrow> bool" where
  "frags_chain \<equiv> successively (\<lambda>p q. frag_continues (frag_hdr p) (frag_hdr q))"

definition frags_open :: "frag list \<Rightarrow> bool" where
  "frags_open ps \<longleftrightarrow> ps = [] \<or> frag_first (hd ps) \<and> frags_chain ps \<and> list_all frag_more ps"

definition frags_belong :: "frag list \<Rightarrow> bool" where
  "frags_belong ps \<longleftrightarrow> ps \<noteq> [] \<and> frag_first (hd ps) \<and> frags_chain ps \<and>
     list_all frag_more (butlast ps) \<and> \<not> frag_more (last ps)"

lemma add_frag_open:
  assumes "frags_open ps"
  shows "add_frag ps p = [] \<or> (\<exists>qs. add_frag ps p = qs @ [p] \<and> frags_open qs \<and> subseq qs ps \<and>
    frag_first (hd (qs @ [p])) \<and> frags_chain (qs @ [p]))"
  using assms
  by (auto simp: add_frag_def frags_open_def successively_append_iff)

lemma frags_step_open:
  assumes "frags_open ps" "frags_step ps p = (ro, qs)"
  shows "frags_open qs" "case ro of None \<Rightarrow> subseq qs (ps @ [p])
    | Some os \<Rightarrow> frags_belong os \<and> subseq os (ps @ [p]) \<and> qs = []"
proof -
  consider (none) "add_frag ps p = []" | (some) q where "add_frag ps p = q @ [p]" "frags_open q" "subseq q ps"
      "frag_first (hd (q @ [p]))" "frags_chain (q @ [p])"
    using add_frag_open [OF assms(1)] by blast
  then have "frags_open qs \<and> (case ro of None \<Rightarrow> subseq qs (ps @ [p])
    | Some os \<Rightarrow> frags_belong os \<and> subseq os (ps @ [p]) \<and> qs = [])"
  proof cases
    case none
    then show ?thesis using assms(2) by (auto simp: frags_step_def frags_open_def)
  next
    case some
    show ?thesis
    proof (cases "frag_more p")
      case True
      then have "ro = None" "qs = q @ [p]" using assms(2) some(1) by (simp_all add: frags_step_def)
      then show ?thesis using some True by (auto simp: frags_open_def)
    next
      case False
      then have "ro = Some (q @ [p])" "qs = []" using assms(2) some(1) by (simp_all add: frags_step_def)
      then show ?thesis using some False by (auto simp: frags_open_def frags_belong_def)
    qed
  qed
  then show "frags_open qs" "case ro of None \<Rightarrow> subseq qs (ps @ [p])
    | Some os \<Rightarrow> frags_belong os \<and> subseq os (ps @ [p]) \<and> qs = []" by auto
qed

lemma rxfrag_free_keeps:
  "keeps (rxfrag_free ni) []" if "keeps ni ps"
  using that by (auto simp: rxfrag_free_def keeps_Nil keeps_def split: option.splits)

lemma rxfrag_free_table [simp]: "ni_table (rxfrag_free ni) = ni_table ni"
  by (simp add: rxfrag_free_def split: option.splits)

lemma expire_keeps:
  assumes "keeps ni ps"
  shows "\<exists>qs. keeps (rxfrag_expire t hz ni) qs \<and> (qs = ps \<or> qs = [])"
  using rxfrag_free_keeps [OF assms] assms by (auto simp: rxfrag_expire_def)

text \<open>A run from a state that keeps \<open>ps\<close>: it returns, and what it hands on belongs together.\<close>

lemma defrag_run_sound:
  assumes "catpkts cat" "ni_table ni" "keeps ni ps" "frags_open ps" "list_all frag_valid (frags_of es)"
  shows "\<exists>outs ni' pss rest. defrag_run cat es ni = Some (outs, ni') \<and> ni_table ni' \<and>
    list_all2 (\<lambda>qs m. frags_belong qs \<and> assembled qs m) pss outs \<and>
    keeps ni' rest \<and> frags_open rest \<and> subseq (concat pss @ rest) (ps @ frags_of es)"
  using assms(2-)
proof (induction es arbitrary: ni ps)
  case Nil
  then show ?case by (intro exI [of _ "[]"] exI [of _ ni] exI [of _ "[]"] exI [of _ ps]) simp
next
  case (Cons e es)
  show ?case
  proof (cases e)
    case (Frag ticks p)
    have v: "frag_valid p" "list_all frag_valid (frags_of es)" using Cons.prems(4) by (simp_all add: Frag)
    obtain ro qs where st: "frags_step ps p = (ro, qs)" by fastforce
    obtain r ni1 where d: "ieee80211_defrag cat ticks (fst p) (fst (snd p)) (snd (snd p)) ni = Some (r, ni1)"
      "ni_table ni1" "keeps ni1 qs" "rel_option assembled ro r"
      using defrag_step [OF assms(1) v(1) Cons.prems(1,2), of ticks] by (auto simp: st)
    note w = frags_step_open [OF Cons.prems(3) st]
    obtain outs ni' pss rest where ih: "defrag_run cat es ni1 = Some (outs, ni')" "ni_table ni'"
      "list_all2 (\<lambda>qs m. frags_belong qs \<and> assembled qs m) pss outs" "keeps ni' rest" "frags_open rest"
      "subseq (concat pss @ rest) (qs @ frags_of es)"
      using Cons.IH [OF d(2,3) w(1) v(2)] by blast
    show ?thesis
    proof (cases ro)
      case None
      have "subseq (qs @ frags_of es) ((ps @ [p]) @ frags_of es)" using w(2) None by (intro list_emb_append_mono) auto
      then have "subseq (concat pss @ rest) (ps @ frags_of (e # es))"
        using subseq_order.order_trans [OF ih(6)] by (simp add: Frag)
      then show ?thesis using d ih None by (auto simp: Frag)
    next
      case (Some os)
      then obtain m where m: "r = Some m" "assembled os m" using d(4) by (cases r) auto
      have os: "frags_belong os" "subseq os (ps @ [p])" "qs = []" using w(2) Some by auto
      have "subseq (os @ concat pss @ rest) ((ps @ [p]) @ frags_of es)"
        using ih(6) os by (intro list_emb_append_mono) auto
      then have "subseq (concat (os # pss) @ rest) (ps @ frags_of (e # es))" by (simp add: Frag)
      then show ?thesis using d(1) ih(1-5) m os(1)
        by (intro exI [of _ "m # outs"] exI [of _ ni'] exI [of _ "os # pss"] exI [of _ rest]) (simp add: Frag)
    qed
  next
    case (Expire t hz)
    obtain qs where q: "keeps (rxfrag_expire t hz ni) qs" "qs = ps \<or> qs = []"
      using expire_keeps [OF Cons.prems(2)] by blast
    have t: "ni_table (rxfrag_expire t hz ni)" using Cons.prems(1) by (simp add: rxfrag_expire_def)
    have w: "frags_open qs" "subseq qs ps" using q(2) Cons.prems(3) by (auto simp: frags_open_def)
    have v: "list_all frag_valid (frags_of es)" using Cons.prems(4) by (simp add: Expire)
    from Cons.IH [OF t q(1) w(1) v] w(2) show ?thesis
      by (auto simp: Expire) (meson list_emb_append_mono subseq_order.order_refl subseq_order.order_trans)
  next
    case Drain
    have t: "ni_table (rxfrag_free ni)" "frags_open []" using Cons.prems(1) by (simp_all add: frags_open_def)
    have v: "list_all frag_valid (frags_of es)" using Cons.prems(4) by (simp add: Drain)
    from Cons.IH [OF t(1) rxfrag_free_keeps [OF Cons.prems(2)] t(2) v] show ?thesis
      by (auto simp: Drain) (meson list_emb_append2)
  qed
qed

lemma defrag_run_append:
  "defrag_run cat (es @ fs) ni = (case defrag_run cat es ni of None \<Rightarrow> None
    | Some (outs, ni) \<Rightarrow> map_option (apfst ((@) outs)) (defrag_run cat fs ni))"
proof (induction cat es ni rule: defrag_run.induct)
  case (2 cat ticks p es ni)
  then show ?case by (auto split: option.splits prod.splits simp: option.map_comp comp_def apfst_def map_prod_def split_def)
next
  case (1 cat ni)
  then show ?case by (simp add: apfst_def map_prod_def option.map_ident option.map_id) 
qed auto

text \<open>A frame that arrives in fragments, one after the other, on top of any kept ones.\<close>

lemma defrag_run_fragments:
  assumes "catpkts cat" "ni_table ni" "keeps ni qs" "add_frag qs p = os @ [p]" "frags_chain (p # ps)"
    "list_all frag_valid (p # ps)" "list_all frag_more (butlast (p # ps))" "\<not> frag_more (last (p # ps))"
    "length ts = length ps"
  shows "\<exists>m ni'. defrag_run cat (map2 Frag (t # ts) (p # ps)) ni = Some ([m], ni') \<and>
    assembled (os @ p # ps) m \<and> ni_rxfrag ni' = None"
  using assms(2-)
proof (induction ps arbitrary: p ni qs os t ts)
  case Nil
  have st: "frags_step qs p = (Some (os @ [p]), [])" using Nil.prems by (simp add: frags_step_def)
  obtain r ni' where "ieee80211_defrag cat t (fst p) (fst (snd p)) (snd (snd p)) ni = Some (r, ni')"
      "keeps ni' []" "rel_option assembled (Some (os @ [p])) r"
    using defrag_step [OF assms(1) _ Nil.prems(1,2), of p t] Nil.prems(5) by (auto simp: st)
  moreover from this(3) obtain m where "r = Some m" "assembled (os @ [p]) m" by (cases r) auto
  moreover have "ni_rxfrag ni' = None" using \<open>keeps ni' []\<close> by (auto simp: keeps_def split: option.splits)
  ultimately show ?case by auto
next
  case (Cons p' ps)
  obtain t' ts' where ts: "ts = t' # ts'" "length ts' = length ps" using Cons.prems(8) by (cases ts) auto
  have st: "frags_step qs p = (None, os @ [p])" using Cons.prems by (simp add: frags_step_def)
  obtain r ni1 where d: "ieee80211_defrag cat t (fst p) (fst (snd p)) (snd (snd p)) ni = Some (r, ni1)"
      "ni_table ni1" "keeps ni1 (os @ [p])" "r = None"
    using defrag_step [OF assms(1) _ Cons.prems(1,2), of p t] Cons.prems(5) by (auto simp: st)
  have a: "add_frag (os @ [p]) p' = (os @ [p]) @ [p']" using Cons.prems(4) by (simp add: add_frag_def)
  obtain m ni' where "defrag_run cat (map2 Frag (t' # ts') (p' # ps)) ni1 = Some ([m], ni')"
      "assembled ((os @ [p]) @ p' # ps) m" "ni_rxfrag ni' = None"
    using Cons.IH [OF d(2,3) a _ _ _ _ ts(2), of t'] Cons.prems(4-7) by auto
  then show ?case using d by (auto simp: ts)
qed

section \<open>Properties\<close>

text \<open>
  C17. Whatever fragments arrive, in whatever order, with whatever time-outs in between, the
  code returns, and every frame it hands on is the join of fragments that belong together: from
  a first fragment on, with successive numbers, of one sender to one receiver, and either all
  encrypted or none; and no fragment is used twice or out of turn.
\<close>

theorem defrag_sound:
  assumes "catpkts cat" "ni_table ni" "ni_rxfrag ni = None" "list_all frag_valid (frags_of es)"
  shows "\<exists>outs ni' pss. defrag_run cat es ni = Some (outs, ni') \<and>
    list_all2 (\<lambda>ps m. frags_belong ps \<and> assembled ps m) pss outs \<and> subseq (concat pss) (frags_of es)"
proof -
  have "keeps ni []" "frags_open []" using assms(3) by (simp_all add: keeps_Nil frags_open_def)
  then obtain outs ni' pss rest where r: "defrag_run cat es ni = Some (outs, ni')"
      "list_all2 (\<lambda>qs m. frags_belong qs \<and> assembled qs m) pss outs" "subseq (concat pss @ rest) (frags_of es)"
    using defrag_run_sound [OF assms(1,2) _ _ assms(4), of "[]"] by auto
  have "subseq (concat pss) (concat pss @ rest)" using list_emb_append_mono [of "(=)" "concat pss" "concat pss" "[]" rest] by simp
  then have "subseq (concat pss) (frags_of es)" using r(3) by (rule subseq_order.order_trans)
  then show ?thesis using r(1,2) by blast
qed

text \<open>
  C18. A frame that arrives in fragments one after the other is handed on whole: the header of
  the first fragment and all bodies in order, whatever was received before, unless the last
  fragment of another frame had the number before its first.
\<close>

theorem defrag_reassembles:
  assumes "catpkts cat" "ni_table ni" "ni_rxfrag ni = None" "list_all frag_valid (frags_of es)"
    and "defrag_run cat es ni = Some (outs, ni1)"
    and "frags_belong ps" "list_all frag_valid ps" "length ts = length ps"
    and "\<forall>q \<in> set (frags_of es). \<not> frag_continues (frag_hdr q) (frag_hdr (hd ps))"
  shows "\<exists>m ni'. defrag_run cat (es @ map2 Frag ts ps) ni = Some (outs @ [m], ni') \<and>
    assembled ps m \<and> ni_rxfrag ni' = None"
proof -
  have k: "keeps ni []" "frags_open []" using assms(3) by (simp_all add: keeps_Nil frags_open_def)
  obtain rest pss where r: "ni_table ni1" "keeps ni1 rest" "subseq (concat pss @ rest) (frags_of es)"
    using defrag_run_sound [OF assms(1,2) k assms(4)] assms(5) by auto
  have "set rest \<subseteq> set (frags_of es)" using r(3) by (auto dest: list_emb_set)
  obtain p ps' t ts' where c: "ps = p # ps'" "ts = t # ts'" "length ts' = length ps'"
    using assms(6,8) by (cases ps; cases ts) (auto simp: frags_belong_def)
  have b: "frag_first p" "frags_chain (p # ps')" "list_all frag_more (butlast (p # ps'))" "\<not> frag_more (last (p # ps'))"
    using assms(6) by (simp_all only: frags_belong_def c list.sel simp_thms)
  have "\<not> frag_continues (frag_hdr (last rest)) (frag_hdr p)" if "rest \<noteq> []"
    using last_in_set [OF that] \<open>set rest \<subseteq> set (frags_of es)\<close> assms(9) by (auto simp: c)
  then have "add_frag rest p = [] @ [p]" using b(1) by (auto simp: add_frag_def)
  from defrag_run_fragments [OF assms(1) r(1,2) this b(2) _ b(3,4) c(3), of t] assms(7)
  show ?thesis by (auto simp: defrag_run_append assms(5) c)
qed

section \<open>Examples\<close>

definition ex_frags :: "frag list" where
  "ex_frags = [(\<lparr>m_segs = [ex_data 6 0x10 @ [1, 2]], m_rxs = None, m_flags = 0\<rparr>, 24, True),
     (\<lparr>m_segs = [ex_data 2 0x11 @ [3]], m_rxs = None, m_flags = 0\<rparr>, 24, True)]"

lemma ex_frags_facts:
  "catpkts (@)" "ni_table (ex_ni 0)" "ni_rxfrag (ex_ni 0) = None" "list_all frag_valid ex_frags"
  "frags_belong ex_frags"
  by (simp_all add: catpkts_def ex_ni_def ex_frags_def ex_data_def frag_valid_def frags_belong_def
      frag_continues_def frag_hdr_def set_protected_def i_seq_def byte_simps frag_more_def
      frag_first_def FRAGNO_def IEEE80211_ADDR_EQ_def i_addr1_def i_addr2_def)

theorem defrag_sound_witness:
  "\<exists>outs ni' pss. defrag_run (@) (map2 Frag [0, 1] ex_frags) (ex_ni 0) = Some (outs, ni') \<and>
    list_all2 (\<lambda>ps m. frags_belong ps \<and> assembled ps m) pss outs \<and>
    subseq (concat pss) (frags_of (map2 Frag [0, 1] ex_frags))"
proof (rule defrag_sound [OF ex_frags_facts(1-3)])
  show "list_all frag_valid (frags_of (map2 Frag [0, 1] ex_frags))"
    using ex_frags_facts(4) by (simp add: ex_frags_def)
qed

theorem defrag_reassembles_witness:
  "\<exists>m ni'. defrag_run (@) (map2 Frag [0, 1] ex_frags) (ex_ni 0) = Some ([m], ni') \<and>
    assembled ex_frags m \<and> ni_rxfrag ni' = None"
  using defrag_reassembles [OF ex_frags_facts(1-3), of "[]" "[]" "ex_ni 0" ex_frags "[0, 1]"] ex_frags_facts(4,5)
  by (simp add: ex_frags_def)

text \<open>
  The numbers of fragments are compared as one number of 16 bits, so the sixteenth fragment of
  a frame, if it announces more, is continued by the first one of the next frame.
\<close>

lemma defrag_crosses_msdus:
  "frag_continues (ex_data 6 0x1f) (ex_data 2 0x20)" "SEQNO (i_seq (ex_data 6 0x1f)) \<noteq> SEQNO (i_seq (ex_data 2 0x20))"
  by (simp_all add: frag_continues_def ex_data_def i_seq_def byte_simps SEQNO_def
      IEEE80211_ADDR_EQ_def i_addr1_def i_addr2_def)

end
