(* ===== verification/RxDecapProps.thy ===== *)
theory RxDecapProps
  imports RxDecap RxDefragProps
begin

text \<open>
  Decapsulation: what the Ethernet frame made of an 802.11 frame holds, and that the
  subframes of an A-MSDU come out as they were put in.
\<close>

section \<open>Pulling up\<close>

lemma pull_hdr_facts:
  assumes "pullups pull" "m_segs m \<noteq> []" "pull_hdr pull n m = Some m'"
  shows "m_segs m' \<noteq> []" "concat (m_segs m') = concat (m_segs m)" "n \<le> length (mtod m')"
    "m_rxs m' = m_rxs m" "m_flags m' = m_flags m"
  using assms unfolding pullups_def pull_hdr_def by (auto simp: with_segs_def split: if_splits)

lemma with_segs_simps [simp]: "m_segs (with_segs m s) = s" "m_rxs (with_segs m s) = m_rxs m"
  "m_flags (with_segs m s) = m_flags m"
  by (simp_all add: with_segs_def)

lemma m_adj_front_hd:
  "segs \<noteq> [] \<Longrightarrow> n < length (hd segs) \<Longrightarrow> m_adj_front n segs = drop n (hd segs) # tl segs"
  by (cases segs) auto

lemma append_prefix:
  assumes "xs @ ys = p @ q" "length p \<le> length xs"
  shows "\<exists>x. xs = p @ x \<and> q = x @ ys"
  using assms by (auto simp: append_eq_append_conv2)

lemma be16_length [simp]: "length (be16 v) = 2"
  by (simp add: be16_def)

section \<open>One frame\<close>

lemma ether_hosts_length:
  assumes "ieee80211_hdrsize wh \<le> length wh" "ether_hosts wh = (da, sa)"
  shows "length da = 6" "length sa = 6"
proof -
  have l: "24 \<le> length wh" using assms(1) by (auto simp: ieee80211_hdrsize_def split: if_splits)
  have l4: "30 \<le> length wh" if "wh ! 1 AND 3 = 3"
    using assms(1) that by (auto simp: ieee80211_hdrsize_def IEEE80211_IS_DSTODS_def split: if_splits)
  show "length da = 6" "length sa = 6"
    using assms(2) l l4 and_3_cases [of "wh ! 1"]
    by (auto simp: ether_hosts_def Let_def i_addr1_def i_addr2_def i_addr3_def i_addr4_def split: if_splits)
qed

text \<open>The Ethernet frame: addresses, and the type of the SNAP header or the length and the
  whole LLC header.\<close>

definition ether_frame :: "u8 list \<Rightarrow> u8 list \<Rightarrow> u8 list \<Rightarrow> u8 \<Rightarrow> u8 list" where
  "ether_frame wh llc body qos = fst (ether_hosts wh) @ snd (ether_hosts wh) @
     (if llc_stripped llc qos then drop 6 llc @ body
      else be16 (word_of_nat (8 + length body)) @ llc @ body)"

lemma splice_addrs:
  assumes "length da = 6" "length sa = 6" "12 \<le> length x"
  shows "splice (splice x 0 da) 6 sa = da @ sa @ drop 12 x"
  using assms by (simp add: splice_def)

lemma decap_frame:
  assumes "pullups pull" "m_segs m \<noteq> []" "concat (m_segs m) = wh @ llc @ body" "length wh = h"
    "ieee80211_hdrsize wh \<le> h" "length llc = 8" "pull_hdr pull (h + 8) m = Some m1"
  shows "\<exists>m'. ieee80211_decap pull m h qos (v, ni) = (Some m', v, ni) \<and> m_segs m' \<noteq> [] \<and>
    14 \<le> length (mtod m') \<and> concat (m_segs m') = ether_frame wh llc body qos \<and>
    m_rxs m' = m_rxs m \<and> m_flags m' = m_flags m"
proof -
  note p = pull_hdr_facts [OF assms(1,2,7)]
  obtain x where x: "mtod m1 = wh @ llc @ x" "body = x @ concat (tl (m_segs m1))"
  proof -
    have c: "mtod m1 @ concat (tl (m_segs m1)) = (wh @ llc) @ body"
      using concat_hd_tl [OF p(1)] p(2) assms(3) by simp
    have "length (wh @ llc) \<le> length (mtod m1)" using p(3) assms(4,6) by simp
    from append_prefix [OF c this] that show ?thesis by auto
  qed
  obtain da sa where h: "ether_hosts wh = (da, sa)" by fastforce
  have l: "length da = 6" "length sa = 6" using ether_hosts_length [OF _ h] assms(4,5) by simp_all
  have wh: "24 \<le> length wh" using assms(4,5) by (auto simp: ieee80211_hdrsize_def split: if_splits)
  have hd: "take h (mtod m1) = wh" "take 8 (drop h (mtod m1)) = llc" using x assms(4,6) by simp_all
  define n where "n = (if llc_stripped llc qos then h + 8 - 14 else h - 14)"
  define segs where "segs = m_adj_front n (m_segs m1)"
  have n: "n \<le> length wh" "length wh - n = (if llc_stripped llc qos then 6 else 14)"
    using wh assms(4) by (simp_all add: n_def)
  have segs: "segs = (drop n wh @ llc @ x) # tl (m_segs m1)"
    unfolding segs_def using n(1) x(1) p(3) assms(4,6) by (subst m_adj_front_hd) (simp_all add: p(1))
  have len: "pktlen segs - 14 = 8 + length body" if "\<not> llc_stripped llc qos"
    using that n by (simp add: segs pktlen_def x(2) assms(6))
  define eh where "eh = da @ sa @ drop 12 (drop n wh @ llc @ x)"
  define eh' where "eh' = (if llc_stripped llc qos then eh else splice eh 12 (be16 (word_of_nat (pktlen segs - 14))))"
  have e: "splice (splice (hd segs) 0 da) 6 sa = eh"
    unfolding eh_def segs using splice_addrs [OF l, of "drop n wh @ llc @ x"] n assms(6) by simp
  have "ieee80211_decap pull m h qos (v, ni) = (Some (with_segs m1 (eh' # tl segs)), v, ni)"
    using e by (cases "llc_stripped llc qos")
      (simp_all add: ieee80211_decap_def assms(7) hd h eh'_def segs_def n_def Let_def)
  moreover have "14 \<le> length eh' \<and> eh' @ concat (tl segs) = ether_frame wh llc body qos"
  proof (cases "llc_stripped llc qos")
    case True
    then have "length (drop n wh) = 6" using n by simp
    then show ?thesis using True l assms(6) by (simp add: eh'_def eh_def ether_frame_def h segs x(2))
  next
    case False
    have d: "length (drop n wh) = 14" using n False by simp
    have "splice eh 12 b = da @ sa @ b @ llc @ x" if "length b = 2" for b
      using l d that by (simp add: eh_def splice_def)
    then show ?thesis using False l assms(6) len by (simp add: eh'_def ether_frame_def h segs x(2))
  qed
  ultimately show ?thesis using p(4,5)
    by (intro exI [of _ "with_segs m1 (eh' # tl segs)"]) auto
qed

text \<open>
  C20. The Ethernet frame made of a data frame carries the addresses that the direction bits
  name and the whole body: a SNAP header is replaced by its type, any other LLC header is kept
  behind a length. Only a failing \<open>m_pullup\<close> loses the frame, and it is counted.
\<close>

theorem decap_ether:
  assumes "pullups pull" "m_segs m \<noteq> []" "concat (m_segs m) = wh @ llc @ body" "length wh = h"
    "ieee80211_hdrsize wh \<le> h" "length llc = 8"
  shows "case ieee80211_decap pull m h qos (v, ni) of
      (Some m', v', ni') \<Rightarrow> v' = v \<and> ni' = ni \<and> concat (m_segs m') = ether_frame wh llc body qos
    | (None, v', ni') \<Rightarrow> length (mtod m) < h + 8 \<and> pull (m_segs m) (h + 8) = None \<and>
        is_rx_tooshort (iv_stats v') = is_rx_tooshort (iv_stats v) + 1 \<and> ni_freed ni' = ni_freed ni @ [m]"
proof (cases "pull_hdr pull (h + 8) m")
  case None
  then have "length (mtod m) < h + 8" "pull (m_segs m) (h + 8) = None"
    by (auto simp: pull_hdr_def split: if_splits)
  then show ?thesis using None by (simp add: ieee80211_decap_def stat_def)
next
  case (Some m1)
  from decap_frame [OF assms Some, of qos v ni] show ?thesis by auto
qed

section \<open>A-MSDUs\<close>

text \<open>A subframe: addresses, LLC header, body; and as it is sent, without and with padding.\<close>

type_synonym subframe = "macaddr \<times> macaddr \<times> u8 list \<times> u8 list"

definition subframe_valid :: "subframe \<Rightarrow> bool" where
  "subframe_valid f \<longleftrightarrow> (case f of (da, sa, llc, body) \<Rightarrow>
     length da = 6 \<and> length sa = 6 \<and> length llc = 8 \<and> da \<noteq> LLC_SNAP \<and> 8 + length body < 65536)"

definition subframe_bytes :: "subframe \<Rightarrow> u8 list" where
  "subframe_bytes f = (case f of (da, sa, llc, body) \<Rightarrow>
     da @ sa @ be16 (word_of_nat (8 + length body)) @ llc @ body)"

text \<open>\<open>pad\<close> is what a sender fills up with.\<close>

definition padded :: "u8 \<Rightarrow> u8 list \<Rightarrow> u8 list" where
  "padded pad bs = bs @ replicate (roundup4 (length bs) - length bs) pad"

fun amsdu_bytes :: "u8 \<Rightarrow> subframe list \<Rightarrow> u8 list" where
  "amsdu_bytes pad [] = []"
| "amsdu_bytes pad [f] = subframe_bytes f"
| "amsdu_bytes pad (f # fs) = padded pad (subframe_bytes f) @ amsdu_bytes pad fs"

definition subframe_ether :: "subframe \<Rightarrow> u8 list" where
  "subframe_ether f = (case f of (da, sa, llc, body) \<Rightarrow> da @ sa @ drop 6 llc @ body)"

lemma ntohs_be16: "unat (ntohs (be16 (word_of_nat n) ! 0) (be16 (word_of_nat n) ! Suc 0)) = n" if "n < 65536"
  using that by (simp add: be16_def ntohs_def byte_simps unsigned_of_nat take_bit_nat_eq_self)

lemma subframe_ether_length:
  "subframe_valid f \<Longrightarrow> length (subframe_ether f) + 8 = length (subframe_bytes f)"
  by (auto simp: subframe_valid_def subframe_ether_def subframe_bytes_def be16_def)

lemma decap1_subframe:
  assumes "pullups pull" "\<And>s n. n \<le> pktlen s \<Longrightarrow> pull s n \<noteq> None" "m_segs m \<noteq> []" "subframe_valid f"
    and "concat (m_segs m) = subframe_bytes f @ rest"
  shows "\<exists>m'. ieee80211_decap1 pull m ni = (Some (m', length (subframe_ether f)), ni) \<and> m_segs m' \<noteq> [] \<and>
    concat (m_segs m') = subframe_ether f @ rest"
proof -
  obtain da sa llc body where f: "f = (da, sa, llc, body)" by (cases f) auto
  have l: "length da = 6" "length sa = 6" "length llc = 8" "da \<noteq> LLC_SNAP" "8 + length body < 65536"
    using assms(4) by (auto simp: subframe_valid_def f)
  obtain l0 l1 l2 l3 l4 l5 l6 l7 where llc: "llc = [l0, l1, l2, l3, l4, l5, l6, l7]"
    using l(3) by (auto simp: numeral_eq_Suc length_Suc_conv)
  define ty where "ty = be16 (word_of_nat (8 + length body))"
  obtain t0 t1 where ty: "ty = [t0, t1]" by (simp add: ty_def be16_def)
  have "22 \<le> pktlen (m_segs m)" using l by (simp add: pktlen_def assms(5) f subframe_bytes_def)
  then have "pull_hdr pull 22 m \<noteq> None" using assms(2) [of 22 "m_segs m"] by (auto simp: pull_hdr_def)
  then obtain m1 where m1: "pull_hdr pull 22 m = Some m1" by blast
  note p = pull_hdr_facts [OF assms(1,3) m1]
  have c: "mtod m1 @ concat (tl (m_segs m1)) = (da @ sa @ ty @ llc) @ body @ rest"
    using concat_hd_tl [OF p(1)] p(2) assms(5) by (simp add: f subframe_bytes_def ty_def)
  obtain x where x: "mtod m1 = da @ sa @ ty @ llc @ x" "x @ concat (tl (m_segs m1)) = body @ rest"
  proof -
    have "length (da @ sa @ ty @ llc) \<le> length (mtod m1)" using p(3) l ty by simp
    from append_prefix [OF c this] that show ?thesis by auto
  qed
  have idx: "mtod m1 ! 12 = t0" "mtod m1 ! 13 = t1" "mtod m1 ! 20 = l6" "mtod m1 ! 21 = l7"
    using l ty by (simp_all add: x nth_append llc)
  have len: "unat (ntohs t0 t1) = 8 + length body"
    using ntohs_be16 [OF l(5)] ty unfolding ty_def by simp
  have upd: "(mtod m1)[12 := l6, 13 := l7] = da @ sa @ [l6, l7] @ llc @ x"
    using l by (simp add: x ty list_update_append)
  have sp: "splice (da @ sa @ [l6, l7] @ llc @ x) 8 (take 14 (da @ sa @ [l6, l7] @ llc @ x)) =
      take 8 (da @ sa) @ da @ sa @ [l6, l7] @ x"
    using l by (simp add: splice_def llc)
  have adj: "m_adj_front 8 ((take 8 (da @ sa) @ da @ sa @ [l6, l7] @ x) # tl (m_segs m1)) =
      (da @ sa @ [l6, l7] @ x) # tl (m_segs m1)"
    using l by (subst m_adj_front_hd) simp_all
  have fl: "length (subframe_ether f) = 8 + length body + 14 - 8"
    using l by (simp add: f subframe_ether_def llc)
  have "take 6 (mtod m1) \<noteq> LLC_SNAP" using l by (simp add: x)
  then have "ieee80211_decap1 pull m ni =
      (Some (with_segs m1 ((da @ sa @ [l6, l7] @ x) # tl (m_segs m1)), length (subframe_ether f)), ni)"
    unfolding ieee80211_decap1_def m1 option.case Let_def idx upd sp adj fl using len by simp
  then show ?thesis using x(2) by (simp add: f subframe_ether_def llc)
qed

text \<open>Delivery adds to the list of delivered frames and to the counters.\<close>

definition delivered_bytes :: "ni_rx \<Rightarrow> u8 list list" where
  "delivered_bytes ni = map (concat \<circ> m_segs \<circ> fst) (delivered ni)"

lemma deliver_facts [simp]:
  "ni_rxfrag (ieee80211_deliver_data m ni) = ni_rxfrag ni"
  "ni_table (ieee80211_deliver_data m ni) = ni_table ni"
  "ni_rxseqs (ieee80211_deliver_data m ni) = ni_rxseqs ni"
  "ni_flags (ieee80211_deliver_data m ni) = ni_flags ni"
  "ni_ampdu (ieee80211_deliver_data m ni) = ni_ampdu ni"
  "delivered_bytes (ieee80211_deliver_data m ni) = delivered_bytes ni @ [concat (m_segs m)]"
  by (simp_all add: ieee80211_deliver_data_def Let_def delivered_bytes_def)

lemma instat_delivered [simp]: "delivered_bytes (instat f ni) = delivered_bytes ni"
  by (simp add: delivered_bytes_def)

text \<open>What the loop of an A-MSDU never touches.\<close>

definition same_node :: "ni_rx \<Rightarrow> ni_rx \<Rightarrow> bool" where
  "same_node a b \<longleftrightarrow> ni_rxfrag a = ni_rxfrag b \<and> ni_table a = ni_table b \<and> ni_rxseqs a = ni_rxseqs b \<and>
     ni_flags a = ni_flags b \<and> fst (ni_ampdu a) = fst (ni_ampdu b)"

lemma same_node_trans: "same_node a b \<Longrightarrow> same_node b c \<Longrightarrow> same_node a c"
  by (simp add: same_node_def)

lemma same_node_simps [simp]:
  "same_node a a" "same_node (m_freem m a) a" "same_node (instat f a) a" "same_node (ieee80211_deliver_data m a) a"
  by (simp_all add: same_node_def)

lemma decap1_facts:
  assumes "pullups pull" "m_segs m \<noteq> []" "ieee80211_decap1 pull m ni = (r, ni')"
  shows "same_node ni' ni" "delivered_bytes ni' = delivered_bytes ni"
    "\<And>m' n. r = Some (m', n) \<Longrightarrow> m_segs m' \<noteq> [] \<and> pktlen (m_segs m') + 8 = pktlen (m_segs m)"
proof -
  show "same_node ni' ni" "delivered_bytes ni' = delivered_bytes ni"
    using assms(3) by (auto simp: ieee80211_decap1_def Let_def delivered_bytes_def split: option.splits if_splits)
next
  fix m' n assume r: "r = Some (m', n)"
  then obtain m1 where m1: "pull_hdr pull 22 m = Some m1"
    using assms(3) by (auto simp: ieee80211_decap1_def split: option.splits)
  note p = pull_hdr_facts [OF assms(1,2) m1]
  obtain eh where eh: "length eh = length (mtod m1)" "m_segs m' = m_adj_front 8 (eh # tl (m_segs m1))"
  proof (rule that)
    let ?e = "(mtod m1)[12 := mtod m1 ! 20, 13 := mtod m1 ! 21]"
    show "length (splice ?e 8 (take 14 ?e)) = length (mtod m1)" using p(3) by simp
    show "m_segs m' = m_adj_front 8 (splice ?e 8 (take 14 ?e) # tl (m_segs m1))"
      using assms(3) by (auto simp: r ieee80211_decap1_def m1 Let_def split: if_splits simp del: m_adj_front.simps)
  qed
  have "pktlen (m_segs m1) = pktlen (m_segs m)" using p(2) by (simp add: pktlen_def)
  moreover have "pktlen (m_segs m1) = length eh + length (concat (tl (m_segs m1)))"
    unfolding pktlen_def concat_hd_tl [OF p(1)] using eh(1) by simp
  moreover have "m_segs m' = drop 8 eh # tl (m_segs m1)"
    unfolding eh(2) using eh(1) p(3) by (subst m_adj_front_hd) simp_all
  ultimately show "m_segs m' \<noteq> [] \<and> pktlen (m_segs m') + 8 = pktlen (m_segs m)"
    using eh(1) p(3) by (simp add: pktlen_def)
qed

text \<open>The loop ends: every round takes a header off.\<close>

lemma amsdu_loop_total:
  assumes "pullups pull" "splits split" "m_segs m \<noteq> []"
  shows "\<exists>r ni' ds. amsdu_loop pull split m ni = Some (r, ni') \<and> same_node ni' ni \<and>
    delivered_bytes ni' = delivered_bytes ni @ ds \<and> (\<forall>m'. r = Some m' \<longrightarrow> m_segs m' \<noteq> [])"
  using assms(3)
proof (induction "pktlen (m_segs m)" arbitrary: m ni rule: less_induct)
  case less
  obtain r ni1 where d: "ieee80211_decap1 pull m ni = (r, ni1)" by fastforce
  note f = decap1_facts [OF assms(1) less.prems d]
  show ?case
  proof (cases r)
    case None
    then show ?thesis using f by (subst amsdu_loop.simps) (simp add: d same_node_def)
  next
    case (Some mn)
    then obtain m1 n where r: "r = Some (m1, n)" by (cases mn) auto
    note m1 = f(3) [OF r]
    show ?thesis
    proof (cases "pktlen (m_segs m1) = n \<or> split (m_segs m1) n = None")
      case True
      then show ?thesis using f m1
        by (subst amsdu_loop.simps) (auto simp: d r same_node_def delivered_bytes_def)
    next
      case False
      then obtain a b where s: "split (m_segs m1) n = Some (a, b)" by auto
      have ab: "b \<noteq> []" "concat b = drop n (concat (m_segs m1))"
        using assms(2) s unfolding splits_def by blast+
      let ?m = "\<lparr>m_segs = m_adj_front (roundup4 n - n) b, m_rxs = None, m_flags = 0\<rparr> :: mbuf"
      let ?ni = "ieee80211_deliver_data (with_segs m1 a) ni1"
      have "pktlen (m_segs ?m) \<le> pktlen (m_segs m1)" by (simp add: pktlen_def ab(2))
      then have "pktlen (m_segs ?m) < pktlen (m_segs m)" using m1 by simp
      then obtain r' ni' ds where "amsdu_loop pull split ?m ?ni = Some (r', ni')" "same_node ni' ?ni"
          "delivered_bytes ni' = delivered_bytes ?ni @ ds" "\<forall>m'. r' = Some m' \<longrightarrow> m_segs m' \<noteq> []"
        using less.hyps [of ?m ?ni] ab(1) by auto
      then show ?thesis using f False
        by (subst amsdu_loop.simps) (auto simp: d r s same_node_def)
    qed
  qed
qed

lemma roundup4_diff: "roundup4 (n + 8) - (n + 8) = roundup4 n - n"
proof -
  have "n + 8 + 3 = n + 3 + 2 * 4" by simp
  then show ?thesis unfolding roundup4_def by (simp only: div_mult_self1) simp
qed

lemma subframe_long: "subframe_valid f \<Longrightarrow> 22 \<le> length (subframe_bytes f)"
  by (auto simp: subframe_valid_def subframe_bytes_def)

lemma amsdu_bytes_long: "fs \<noteq> [] \<Longrightarrow> list_all subframe_valid fs \<Longrightarrow> 0 < length (amsdu_bytes pad fs)"
  by (induction pad fs rule: amsdu_bytes.induct) (auto dest: subframe_long simp: padded_def)

lemma amsdu_loop_subframes:
  assumes P: "pullups pull" "\<And>s n. n \<le> pktlen s \<Longrightarrow> pull s n \<noteq> None"
    and S: "splits split" "\<And>s n. n \<le> pktlen s \<Longrightarrow> split s n \<noteq> None"
    and "fs \<noteq> []" "list_all subframe_valid fs" "m_segs m \<noteq> []" "concat (m_segs m) = amsdu_bytes pad fs"
  shows "\<exists>m' ni'. amsdu_loop pull split m ni = Some (Some m', ni') \<and>
    concat (m_segs m') = subframe_ether (last fs) \<and>
    delivered_bytes ni' = delivered_bytes ni @ map subframe_ether (butlast fs) \<and> ni_freed ni' = ni_freed ni"
  using assms(5-)
proof (induction fs arbitrary: m ni)
  case Nil
  then show ?case by simp
next
  case (Cons f fs)
  have v: "subframe_valid f" using Cons.prems(2) by simp
  show ?case
  proof (cases fs)
    case Nil
    have "concat (m_segs m) = subframe_bytes f @ []" using Cons.prems(4) by (simp add: Nil)
    from decap1_subframe [OF P Cons.prems(3) v this, of ni] show ?thesis
      by (subst amsdu_loop.simps) (auto simp: Nil pktlen_def)
  next
    case (Cons g gs)
    let ?k = "roundup4 (length (subframe_ether f)) - length (subframe_ether f)"
    have k: "roundup4 (length (subframe_bytes f)) - length (subframe_bytes f) = ?k"
      using roundup4_diff [of "length (subframe_ether f)"] subframe_ether_length [OF v] by simp
    have c: "concat (m_segs m) = subframe_bytes f @ replicate ?k pad @ amsdu_bytes pad fs"
      using \<open>concat (m_segs m) = amsdu_bytes pad (f # fs)\<close> by (simp add: Cons padded_def k)
    obtain m1 where m1: "ieee80211_decap1 pull m ni = (Some (m1, length (subframe_ether f)), ni)"
      "m_segs m1 \<noteq> []" "concat (m_segs m1) = subframe_ether f @ replicate ?k pad @ amsdu_bytes pad fs"
      using decap1_subframe [OF P \<open>m_segs m \<noteq> []\<close> v c, of ni] by blast
    have fs: "fs \<noteq> []" "list_all subframe_valid fs" using \<open>list_all subframe_valid (f # fs)\<close> by (simp_all add: Cons)
    have ne: "pktlen (m_segs m1) \<noteq> length (subframe_ether f)"
      using amsdu_bytes_long [OF fs, of pad] by (simp add: pktlen_def m1(3))
    obtain a b where s: "split (m_segs m1) (length (subframe_ether f)) = Some (a, b)"
      using S(2) [of "length (subframe_ether f)" "m_segs m1"] by (auto simp: pktlen_def m1(3))
    have ab: "b \<noteq> []" "concat a = subframe_ether f" "concat b = replicate ?k pad @ amsdu_bytes pad fs"
      using S(1) s unfolding splits_def by (force simp: m1(3))+
    let ?m = "\<lparr>m_segs = m_adj_front ?k b, m_rxs = None, m_flags = 0\<rparr> :: mbuf"
    let ?ni = "ieee80211_deliver_data (with_segs m1 a) ni"
    obtain m' ni' where "amsdu_loop pull split ?m ?ni = Some (Some m', ni')"
        "concat (m_segs m') = subframe_ether (last fs)"
        "delivered_bytes ni' = delivered_bytes ?ni @ map subframe_ether (butlast fs)" "ni_freed ni' = ni_freed ?ni"
      using Cons.IH [OF fs, of ?m ?ni] ab by auto
    then show ?thesis using ne fs(1) ab(2)
      by (subst amsdu_loop.simps) (simp add: m1(1) s)
  qed
qed

text \<open>
  C19. The subframes of an A-MSDU come out as they were put in: whatever the mbufs it arrived
  in, all frames but the last are delivered, in order, and the last is returned to be
  delivered, each with its addresses, its type and its body; padding is dropped and nothing is
  freed.
\<close>

theorem amsdu_roundtrip:
  assumes "pullups pull" "\<forall>s n. n \<le> pktlen s \<longrightarrow> pull s n \<noteq> None"
    and "splits split" "\<forall>s n. n \<le> pktlen s \<longrightarrow> split s n \<noteq> None"
    and "fs \<noteq> []" "list_all subframe_valid fs"
    and "m_segs m \<noteq> []" "concat (m_segs m) = eh @ amsdu_bytes pad fs" "length eh = 14"
  shows "\<exists>m' ni'. ieee80211_decap_amsdu pull split m ni = Some (Some m', ni') \<and>
    delivered_bytes ni' @ [concat (m_segs m')] = delivered_bytes ni @ map subframe_ether fs \<and>
    ni_freed ni' = ni_freed ni"
proof -
  let ?ni = "instat (\<lambda>s. s\<lparr>is_amsdu_decap := is_amsdu_decap s + 1\<rparr>) ni"
  have "concat (m_segs (with_segs m (m_adj_front 14 (m_segs m)))) = amsdu_bytes pad fs"
    using assms(8,9) by simp
  then obtain m' ni' where r: "amsdu_loop pull split (with_segs m (m_adj_front 14 (m_segs m))) ?ni = Some (Some m', ni')"
      "concat (m_segs m') = subframe_ether (last fs)"
      "delivered_bytes ni' = delivered_bytes ?ni @ map subframe_ether (butlast fs)" "ni_freed ni' = ni_freed ?ni"
    using amsdu_loop_subframes [OF assms(1) assms(2) [rule_format] assms(3) assms(4) [rule_format] assms(5,6),
        of "with_segs m (m_adj_front 14 (m_segs m))" pad ?ni] assms(7) by auto
  have "map subframe_ether fs = map subframe_ether (butlast fs) @ [subframe_ether (last fs)]"
    using assms(5) by (metis append_butlast_last_id list.simps(8,9) map_append)
  then show ?thesis using r by (simp add: ieee80211_decap_amsdu_def)
qed

text \<open>
  The answer to an attack leaks: a frame whose first subframe has the LLC header for its
  destination is refused, but neither freed nor handed on, and no pointer to it is left.
\<close>

lemma amsdu_attack_leaks:
  assumes "m_segs m \<noteq> []" "36 \<le> length (mtod m)" "take 6 (drop 14 (mtod m)) = LLC_SNAP"
  shows "\<exists>ni'. ieee80211_decap_amsdu pull split m ni = Some (None, ni') \<and>
    ni_freed ni' = ni_freed ni \<and> delivered ni' = delivered ni"
proof -
  have h: "m_adj_front 14 (m_segs m) = drop 14 (mtod m) # tl (m_segs m)"
    using assms(1,2) by (intro m_adj_front_hd) auto
  have "pull_hdr pull 22 (with_segs m (m_adj_front 14 (m_segs m))) = Some (with_segs m (m_adj_front 14 (m_segs m)))"
  proof -
    have "\<not> length (drop 14 (mtod m)) < 22" using assms(2) by simp
    then show ?thesis by (simp only: pull_hdr_def h with_segs_simps list.sel if_False)
  qed
  then show ?thesis unfolding ieee80211_decap_amsdu_def
    by (subst amsdu_loop.simps) (simp add: ieee80211_decap1_def h assms(3))
qed

section \<open>Examples\<close>

definition ex_pull :: m_pullup where
  "ex_pull segs n = (if n \<le> pktlen segs then Some [concat segs] else None)"

definition ex_split :: m_split where
  "ex_split segs n = (if n \<le> pktlen segs then Some ([take n (concat segs)], [drop n (concat segs)]) else None)"

lemma ex_mbuf_facts:
  "pullups ex_pull" "\<forall>s n. n \<le> pktlen s \<longrightarrow> ex_pull s n \<noteq> None"
  "splits ex_split" "\<forall>s n. n \<le> pktlen s \<longrightarrow> ex_split s n \<noteq> None"
  by (auto simp: pullups_def splits_def ex_pull_def ex_split_def pktlen_def split: if_splits)

text \<open>A data frame in three mbufs, cut inside its LLC header.\<close>

definition ex_snap :: mbuf where
  "ex_snap = \<lparr>m_segs = [ex_data 2 0x10 @ [0xaa, 0xaa, 3], [0, 0, 0, 8, 0, 1], [2, 3]],
     m_rxs = None, m_flags = 0\<rparr>"

lemma ex_snap_facts:
  "m_segs ex_snap \<noteq> []" "concat (m_segs ex_snap) = ex_data 2 0x10 @ (LLC_SNAP @ [8, 0]) @ [1, 2, 3]"
  "length (ex_data 2 0x10) = 24" "ieee80211_hdrsize (ex_data 2 0x10) \<le> 24"
  by (simp_all add: ex_snap_def ex_data_def LLC_SNAP_def ieee80211_hdrsize_def IEEE80211_IS_DSTODS_def
      IEEE80211_QOS_HAS_SEQ_def)

theorem decap_ether_witness:
  "\<forall>v. case ieee80211_decap ex_pull ex_snap 24 0 (v, ex_ni 0) of
      (Some m', v', ni') \<Rightarrow> v' = v \<and> ni' = ex_ni 0 \<and>
        concat (m_segs m') = ether_frame (ex_data 2 0x10) (LLC_SNAP @ [8, 0]) [1, 2, 3] 0
    | (None, v', ni') \<Rightarrow> length (mtod ex_snap) < 24 + 8 \<and> ex_pull (m_segs ex_snap) (24 + 8) = None \<and>
        is_rx_tooshort (iv_stats v') = is_rx_tooshort (iv_stats v) + 1 \<and>
        ni_freed ni' = ni_freed (ex_ni 0) @ [ex_snap]"
  by (rule allI, rule decap_ether [OF ex_mbuf_facts(1) ex_snap_facts(1-4)]) (simp add: LLC_SNAP_def)

definition ex_subframes :: "subframe list" where
  "ex_subframes = [([1, 1, 1, 1, 1, 1], [2, 2, 2, 2, 2, 2], LLC_SNAP @ [8, 0], [7]),
     ([3, 3, 3, 3, 3, 3], [4, 4, 4, 4, 4, 4], LLC_SNAP @ [8, 6], [8, 9])]"

theorem amsdu_roundtrip_witness:
  "\<exists>m' ni'. ieee80211_decap_amsdu ex_pull ex_split
      \<lparr>m_segs = [replicate 14 0, amsdu_bytes 0 ex_subframes], m_rxs = None, m_flags = 0\<rparr> (ex_ni 0) = Some (Some m', ni') \<and>
    delivered_bytes ni' @ [concat (m_segs m')] =
      [[1, 1, 1, 1, 1, 1, 2, 2, 2, 2, 2, 2, 8, 0, 7], [3, 3, 3, 3, 3, 3, 4, 4, 4, 4, 4, 4, 8, 6, 8, 9]] \<and>
    ni_freed ni' = []"
proof -
  have fs: "ex_subframes \<noteq> []" "list_all subframe_valid ex_subframes"
    "map subframe_ether ex_subframes =
      [[1, 1, 1, 1, 1, 1, 2, 2, 2, 2, 2, 2, 8, 0, 7], [3, 3, 3, 3, 3, 3, 4, 4, 4, 4, 4, 4, 8, 6, 8, 9]]"
    by (simp_all add: ex_subframes_def subframe_valid_def LLC_SNAP_def subframe_ether_def)
  have n: "delivered_bytes (ex_ni 0) = []" "ni_freed (ex_ni 0) = []" by (simp_all add: delivered_bytes_def ex_ni_def)
  show ?thesis
    using amsdu_roundtrip [OF ex_mbuf_facts fs(1,2), of
        "\<lparr>m_segs = [replicate 14 0, amsdu_bytes 0 ex_subframes], m_rxs = None, m_flags = 0\<rparr>" "replicate 14 0" 0 "ex_ni 0"]
    unfolding fs(3) n by simp
qed

end
