(* ===== verification/StaProps.thy ===== *)
theory StaProps
  imports StaInput RxDecapProps RxReorderProps CryptoPath
begin

text \<open>
  What a station lets through: the conditions under which the receive function delivers a
  frame to the network stack, before and after the node is authorized.
\<close>

section \<open>What is delivered\<close>

abbreviation deliv :: "'c sta \<Rightarrow> (mbuf \<times> ether_cast \<times> u16 option) list" where
  "deliv st \<equiv> delivered (sta_ni st)"

abbreviation sta_flags :: "'c sta \<Rightarrow> u32" where "sta_flags st \<equiv> iv_flags (cn_vap (sta_cn st))"

definition pae_frame :: "mbuf \<times> ether_cast \<times> u16 option \<Rightarrow> bool" where
  "pae_frame d \<longleftrightarrow> is_pae (mtod (fst d))"

text \<open>
  The frames delivered between two states: more than authentication frames only for an
  authorized node, and only if \<open>enc\<close> or unencrypted frames are let through.
\<close>

definition lets_through :: "bool \<Rightarrow> 'c sta \<Rightarrow> 'c sta \<Rightarrow> bool" where
  "lets_through enc st st' \<longleftrightarrow> ni_flags (sta_ni st') = ni_flags (sta_ni st) \<and> (\<exists>ds. deliv st' = deliv st @ ds \<and>
     ((\<exists>d \<in> set ds. \<not> pae_frame d) \<longrightarrow>
        node_is_authorized (sta_ni st) \<and> (enc \<or> sta_flags st AND F_DROPUNENC = 0)))"

definition same_gate :: "'c sta \<Rightarrow> 'c sta \<Rightarrow> bool" where
  "same_gate a b \<longleftrightarrow> deliv a = deliv b \<and> ni_flags (sta_ni a) = ni_flags (sta_ni b)"

lemma lets_through_same: "same_gate st' st \<Longrightarrow> lets_through enc st st'"
  by (simp add: lets_through_def same_gate_def)

lemma lets_through_cong:
  assumes "same_gate a b" "enc \<or> sta_flags a = sta_flags b"
  shows "lets_through enc a st' = lets_through enc b st'"
  using assms by (auto simp: lets_through_def same_gate_def node_is_authorized_def)

lemma lets_through_mono: "lets_through enc a b \<Longrightarrow> (enc \<Longrightarrow> enc') \<Longrightarrow> lets_through enc' a b"
  unfolding lets_through_def by blast

lemma sta_simps [simp]:
  "delivered (m_freem m ni) = delivered ni"
  "sta_ni (on_ni f st) = f (sta_ni st)" "sta_cn (on_ni f st) = sta_cn st"
  "sta_ni (on_vap g st) = sta_ni st" "cn_vap (sta_cn (on_vap g st)) = g (cn_vap (sta_cn st))"
  "sta_ni (sta_count h st) = instat h (sta_ni st)" "sta_cn (sta_count h st) = sta_cn st"
  by (simp_all add: on_ni_def on_vap_def sta_count_def m_freem_def)

lemma sta_out_simps [simp]:
  "deliv (sta_out sys nt mo st) = deliv st" "deliv (sta_err sys nt mo st) = deliv st"
  "ni_flags (sta_ni (sta_out sys nt mo st)) = ni_flags (sta_ni st)"
  "ni_flags (sta_ni (sta_err sys nt mo st)) = ni_flags (sta_ni st)"
  by (simp_all add: sta_out_def sta_err_def split: option.splits)

lemma vap_flags_simps [simp]: "iv_flags (stat f v) = iv_flags v" "ic_flags (stat f v) = ic_flags v"
  by (simp_all add: stat_def)

lemma decap1_keeps:
  "ieee80211_decap1 pull m ni = (r, ni') \<Longrightarrow> delivered ni' = delivered ni \<and> ni_flags ni' = ni_flags ni"
  by (auto simp: ieee80211_decap1_def Let_def split: option.splits if_splits)

lemma deliver_data_delivered:
  "\<exists>c. delivered (ieee80211_deliver_data m ni) = delivered ni @ [(m\<lparr>m_flags := 0\<rparr>, c)]"
  by (simp add: ieee80211_deliver_data_def Let_def)

lemma amsdu_loop_delivers:
  assumes "amsdu_loop pull split m ni = Some y"
  shows "ni_flags (snd y) = ni_flags ni \<and> (\<exists>ds. delivered (snd y) = delivered ni @ ds)"
proof (rule amsdu_loop.raw_induct [OF _ assms, where P = "\<lambda>pull split m ni y. ni_flags (snd y) = ni_flags ni \<and> (\<exists>ds. delivered (snd y) = delivered ni @ ds)"])
  fix loop :: "m_pullup \<Rightarrow> m_split \<Rightarrow> mbuf \<Rightarrow> ni_rx \<Rightarrow> (mbuf option \<times> ni_rx) option" and pull split m ni y
  assume 1: "\<And>pull split m ni y. loop pull split m ni = Some y \<Longrightarrow>
      ni_flags (snd y) = ni_flags ni \<and> (\<exists>ds. delivered (snd y) = delivered ni @ ds)"
    "(case ieee80211_decap1 pull m ni of
        (None, ni) \<Rightarrow> Some (None, instat (\<lambda>s. s\<lparr>is_amsdu_tooshort := is_amsdu_tooshort s + 1\<rparr>) ni)
      | (Some (m, framelen), ni) \<Rightarrow>
          if pktlen (m_segs m) = framelen then Some (Some m, ni)
          else
            case split (m_segs m) framelen of
              None \<Rightarrow> Some (None, m_freem m (instat (\<lambda>s. s\<lparr>is_amsdu_split := is_amsdu_split s + 1\<rparr>) ni))
            | Some (a, b) \<Rightarrow>
                loop pull split
                  \<lparr>m_segs = m_adj_front (roundup4 framelen - framelen) b, m_rxs = None, m_flags = 0\<rparr>
                  (ieee80211_deliver_data (with_segs m a) ni)) = Some y"
  obtain r ni1 where d: "ieee80211_decap1 pull m ni = (r, ni1)" by fastforce
  have k: "delivered ni1 = delivered ni" "ni_flags ni1 = ni_flags ni" using decap1_keeps [OF d] by simp_all
  show "ni_flags (snd y) = ni_flags ni \<and> (\<exists>ds. delivered (snd y) = delivered ni @ ds)"
  proof (cases "\<exists>m1 n a b. r = Some (m1, n) \<and> pktlen (m_segs m1) \<noteq> n \<and> split (m_segs m1) n = Some (a, b)")
    case True
    then obtain m1 n a b where r: "r = Some (m1, n)" "pktlen (m_segs m1) \<noteq> n" "split (m_segs m1) n = Some (a, b)"
      by blast
    have "loop pull split \<lparr>m_segs = m_adj_front (roundup4 n - n) b, m_rxs = None, m_flags = 0\<rparr>
        (ieee80211_deliver_data (with_segs m1 a) ni1) = Some y"
      using 1(2) by (simp add: d r)
    from 1(1) [OF this] show ?thesis
      using deliver_data_delivered [of "with_segs m1 a" ni1] k by auto
  next
    case False
    then have "delivered (snd y) = delivered ni1 \<and> ni_flags (snd y) = ni_flags ni1"
      using 1(2) by (auto simp: d split: option.splits if_splits)
    then show ?thesis using k by simp
  qed
qed

lemma amsdu_delivers:
  assumes "ieee80211_decap_amsdu pull split m ni = Some (r, ni')"
  shows "ni_flags ni' = ni_flags ni" "\<exists>ds. delivered ni' = delivered ni @ ds"
  using amsdu_loop_delivers [OF assms [unfolded ieee80211_decap_amsdu_def]] by simp_all

section \<open>Down the path\<close>

lemma deliver_lets_through:
  assumes "sta_deliver sys hw dec qos m st = Some (ty, st')"
  shows "lets_through (hw \<or> dec \<or> m_flags m AND M_WEP \<noteq> 0) st st'"
proof -
  define pae where "pae \<longleftrightarrow> \<not> qos AND 0x80 \<noteq> 0 \<and> is_pae (mtod m)"
  have fl: "ni_flags (sta_ni st') = ni_flags (sta_ni st)"
    using assms by (auto simp: sta_deliver_def Let_def dest!: amsdu_delivers(1) split: if_splits option.splits)
  consider (refused) "deliv st' = deliv st"
    | (passed) "node_is_authorized (sta_ni st)" "hw \<or> dec \<or> m_flags m AND M_WEP \<noteq> 0 \<or> sta_flags st AND F_DROPUNENC = 0"
      "\<exists>ds. deliv st' = deliv st @ ds"
    | (pae) "is_pae (mtod m)" "st' = on_ni (ieee80211_deliver_data m) st"
  proof (cases "\<not> node_is_authorized (sta_ni st) \<and> \<not> pae \<or> node_is_authorized (sta_ni st) \<and>
      sta_flags st AND F_DROPUNENC \<noteq> 0 \<and> (\<not> dec \<and> m_flags m AND M_WEP = 0) \<and> \<not> hw \<and> \<not> pae")
    case True
    then show ?thesis using assms that(1) by (auto simp: sta_deliver_def pae_def Let_def split: if_splits)
  next
    case F: False
    then have eq: "sta_deliver sys hw dec qos m st =
      (if qos AND 0x80 \<noteq> 0 then
        (case ieee80211_decap_amsdu (sys_pull sys) (sys_split sys) m (sta_ni st) of
           None \<Rightarrow> None
         | Some (None, ni) \<Rightarrow> Some (TYPE_DATA, st\<lparr>sta_ni := ni\<rparr>)
         | Some (Some m, ni) \<Rightarrow> Some (TYPE_DATA, st\<lparr>sta_ni := ieee80211_deliver_data m ni\<rparr>))
      else Some (TYPE_DATA, on_ni (ieee80211_deliver_data m) st))"
      unfolding sta_deliver_def Let_def pae_def by (simp only: if_False if_True simp_thms) auto
    have "\<exists>ds. deliv st' = deliv st @ ds"
    proof (cases "qos AND 0x80 \<noteq> 0")
      case True
      obtain r ni' where a: "ieee80211_decap_amsdu (sys_pull sys) (sys_split sys) m (sta_ni st) = Some (r, ni')"
        using assms True by (auto simp: eq split: option.splits)
      obtain ds where "delivered ni' = deliv st @ ds" using amsdu_delivers(2) [OF a] by blast
      then show ?thesis using assms True deliver_data_delivered
        by (cases r) (auto simp: eq a, metis append.assoc deliver_data_delivered)
    next
      case False
      then show ?thesis using assms deliver_data_delivered [of m "sta_ni st"] by (auto simp: eq)
    qed
    moreover have "st' = on_ni (ieee80211_deliver_data m) st" if pae
      using assms that by (simp add: eq pae_def)
    ultimately show ?thesis using F that(2,3) by (auto simp: pae_def)
  qed
  then show ?thesis
  proof cases
    case refused
    then show ?thesis using fl by (intro lets_through_same) (simp add: same_gate_def)
  next
    case passed
    then show ?thesis using fl by (auto simp: lets_through_def)
  next
    case pae
    then show ?thesis using deliver_data_delivered [of m "sta_ni st"] fl
      by (auto simp: lets_through_def pae_frame_def)
  qed
qed

lemma decap_keeps:
  assumes "ieee80211_decap pull m h qos (v, ni) = (r, v', ni')"
  shows "delivered ni' = delivered ni" "ni_flags ni' = ni_flags ni" "iv_flags v' = iv_flags v"
    "\<And>m'. r = Some m' \<Longrightarrow> m_flags m' = m_flags m"
  using assms
  by (auto simp: ieee80211_decap_def pull_hdr_def Let_def split: option.splits if_splits prod.splits)

lemma demic_keeps:
  assumes "ieee80211_crypto_demic env force cn None m = Some (ok, cn', m')"
  shows "iv_flags (cn_vap cn') = iv_flags (cn_vap cn)" "m' = m"
  using assms
  by (auto simp: ieee80211_crypto_demic_def ieee80211_notify_michael_failure_def Let_def split: if_splits)

lemma defrag_keeps:
  assumes "ieee80211_defrag cat t m h d ni = Some (r, ni')"
  shows "delivered ni' = delivered ni" "ni_flags ni' = ni_flags ni"
    "\<And>m'. r = Some m' \<Longrightarrow> m_flags m' = m_flags m \<or> (\<exists>mf. ni_rxfrag ni = Some mf \<and> m_flags m' = m_flags mf)"
proof -
  have j: "delivered ni2 = delivered ni1 \<and> ni_flags ni2 = ni_flags ni1 \<and> (\<forall>m'. j = Some m' \<longrightarrow> m_flags m' = m_flags mf)"
    if "defrag_join cat h mf m1 ni1 = (j, ni2)" for mf m1 ni1 j ni2
    using that by (auto simp: defrag_join_def hdr_update_def Let_def split: if_splits)
  show "delivered ni' = delivered ni" "ni_flags ni' = ni_flags ni"
    "\<And>m'. r = Some m' \<Longrightarrow> m_flags m' = m_flags m \<or> (\<exists>mf. ni_rxfrag ni = Some mf \<and> m_flags m' = m_flags mf)"
    using assms
    by (auto simp: ieee80211_defrag_def Let_def hdr_update_def split: option.splits if_splits prod.splits dest!: j)
qed

text \<open>A kept fragment, or the frame itself, was decrypted by the hardware (\<open>M_WEP\<close>).\<close>

definition wep_marked :: "mbuf \<Rightarrow> 'c sta \<Rightarrow> bool" where
  "wep_marked m st \<longleftrightarrow> m_flags m AND M_WEP \<noteq> 0 \<or>
     (\<exists>mf. ni_rxfrag (sta_ni st) = Some mf \<and> m_flags mf AND M_WEP \<noteq> 0)"

lemma msdu_lets_through:
  assumes "sta_msdu sys hw dec key h subtype qos m st = Some (ty, st')" "key = None \<or> dec"
  shows "lets_through (hw \<or> dec \<or> m_flags m AND M_WEP \<noteq> 0) st st'"
proof -
  obtain ok cn m1 where d: "ieee80211_crypto_demic (sys_env sys) False (sta_cn st) key m = Some (ok, cn, m1)"
    using assms(1) by (auto simp: sta_msdu_def split: option.splits)
  have k: "dec \<or> (iv_flags (cn_vap cn) = sta_flags st \<and> m1 = m)" using assms(2) d demic_keeps by blast
  define tap where "tap st = (if sys_tap sys then st\<lparr>sta_events := sta_events st @ [Radiotap m1]\<rparr> else st)" for st :: "'a sta"
  have tap: "sta_ni (tap s) = sta_ni s" "sta_cn (tap s) = sta_cn s" for s by (simp_all add: tap_def)
  let ?st = "tap (st\<lparr>sta_cn := cn\<rparr>)"
  show ?thesis
  proof (cases ok)
    case False
    then show ?thesis using assms(1) by (intro lets_through_same) (auto simp: sta_msdu_def d same_gate_def)
  next
    case True
    obtain r v ni where e: "ieee80211_decap (sys_pull sys) m1 h qos (cn_vap (sta_cn ?st), sta_ni ?st) = (r, v, ni)"
      by (metis prod_cases3)
    note dk = decap_keeps [OF e, unfolded tap]
    let ?st2 = "on_vap (\<lambda>_. v) (?st\<lparr>sta_ni := ni\<rparr>)"
    show ?thesis
    proof (cases r)
      case None
      then show ?thesis using assms(1) True dk(1,2) e
        by (intro lets_through_same)
          (auto simp: sta_msdu_def d tap_def [symmetric] Let_def same_gate_def split: if_splits)
    next
      case (Some m2)
      have "sta_deliver sys hw dec qos m2 ?st2 = Some (ty, st')"
        using assms(1) True Some e by (simp add: sta_msdu_def d tap_def [symmetric])
      from deliver_lets_through [OF this]
      have "lets_through (hw \<or> dec \<or> m_flags m AND M_WEP \<noteq> 0) ?st2 st'"
        by (rule lets_through_mono) (use dk(4) [OF Some] k in auto)
      moreover have "same_gate ?st2 st" using dk(1,2) by (simp add: same_gate_def)
      moreover have "dec \<or> sta_flags ?st2 = sta_flags st" using k dk(3) by auto
      ultimately show ?thesis
        using lets_through_cong [of ?st2 st "hw \<or> dec \<or> m_flags m AND M_WEP \<noteq> 0"] by blast
    qed
  qed
qed

lemma defrag_lets_through:
  assumes "sta_defrag sys hw dec key h subtype m st = Some (ty, st')" "key = None \<or> dec"
  shows "lets_through (hw \<or> dec \<or> wep_marked m st) st st'"
proof -
  define qos where "qos = (if subtype = 0x80 then ieee80211_getqos (mtod m) else 0)"
  show ?thesis
  proof (cases "IEEE80211_IS_MULTICAST (i_addr1 (mtod m))")
    case True
    then have "sta_msdu sys hw dec key h subtype qos m st = Some (ty, st')"
      using assms(1) by (simp add: sta_defrag_def qos_def Let_def)
    from msdu_lets_through [OF this assms(2)] show ?thesis
      by (rule lets_through_mono) (auto simp: wep_marked_def)
  next
    case False
    obtain r ni where d: "ieee80211_defrag (sys_cat sys) (sys_ticks sys) m h dec (sta_ni st) = Some (r, ni)"
      using assms(1) False by (auto simp: sta_defrag_def split: option.splits)
    note dk = defrag_keeps [OF d]
    show ?thesis
    proof (cases r)
      case None
      then show ?thesis using assms(1) False d dk(1,2)
        by (intro lets_through_same) (auto simp: sta_defrag_def same_gate_def)
    next
      case (Some m1)
      have "sta_msdu sys hw dec key h subtype qos m1 (st\<lparr>sta_ni := ni\<rparr>) = Some (ty, st')"
        using assms(1) False d Some by (simp add: sta_defrag_def qos_def Let_def)
      from msdu_lets_through [OF this assms(2)]
      have "lets_through (hw \<or> dec \<or> wep_marked m st) (st\<lparr>sta_ni := ni\<rparr>) st'"
        by (rule lets_through_mono) (use dk(3) [OF Some] in \<open>auto simp: wep_marked_def\<close>)
      moreover have "same_gate (st\<lparr>sta_ni := ni\<rparr>) st" using dk by (simp add: same_gate_def)
      ultimately show ?thesis using lets_through_cong [of "st\<lparr>sta_ni := ni\<rparr>" st] by simp
    qed
  qed
qed

lemma decrypt_lets_through:
  assumes "sta_decrypt sys hw h subtype m st = Some (ty, st')"
  shows "lets_through (hw \<or> IEEE80211_IS_PROTECTED (mtod m) \<or> wep_marked m st) st st'"
    "deliv st' \<noteq> deliv st \<longrightarrow> hw \<or> IEEE80211_IS_PROTECTED (mtod m) \<longrightarrow> sta_flags st AND F_PRIVACY \<noteq> 0"
proof -
  show "lets_through (hw \<or> IEEE80211_IS_PROTECTED (mtod m) \<or> wep_marked m st) st st'"
  proof (cases "hw \<or> IEEE80211_IS_PROTECTED (mtod m)")
    case False
    then have "sta_defrag sys hw False None h subtype m st = Some (ty, st')"
      using assms by (simp add: sta_decrypt_def)
    from defrag_lets_through [OF this] show ?thesis by (rule lets_through_mono) auto
  next
    case True
    show ?thesis
    proof (cases "sta_flags st AND F_PRIVACY = 0")
      case P: True
      then show ?thesis using assms True by (intro lets_through_same) (auto simp: sta_decrypt_def same_gate_def)
    next
      case P: False
      obtain ok key cn m1 where d: "ieee80211_crypto_decap (sys_env sys) (sta_cn st) m h = Some (ok, key, cn, m1)"
        using assms True P by (auto simp: sta_decrypt_def split: option.splits)
      show ?thesis
      proof (cases ok)
        case False
        then show ?thesis using assms True P d by (intro lets_through_same) (auto simp: sta_decrypt_def same_gate_def)
      next
        case O: True
        have "sta_defrag sys hw True key h subtype (hdr_update clear_protected m1) (st\<lparr>sta_cn := cn\<rparr>) = Some (ty, st')"
          using assms True P d O by (simp add: sta_decrypt_def)
        from defrag_lets_through [OF this]
        have "lets_through True (st\<lparr>sta_cn := cn\<rparr>) st'" by (rule lets_through_mono) auto
        then have "lets_through True st st'"
          using lets_through_cong [of "st\<lparr>sta_cn := cn\<rparr>" st True] by (simp add: same_gate_def)
        then show ?thesis by (rule lets_through_mono) (use True in blast)
      qed
    qed
  qed
  show "deliv st' \<noteq> deliv st \<longrightarrow> hw \<or> IEEE80211_IS_PROTECTED (mtod m) \<longrightarrow> sta_flags st AND F_PRIVACY \<noteq> 0"
    using assms by (auto simp: sta_decrypt_def)
qed

lemma data_lets_through:
  assumes "sta_data sys hw h dir subtype m st = Some (ty, st')"
  shows "lets_through (hw \<or> IEEE80211_IS_PROTECTED (mtod m) \<or> wep_marked m st) st st'"
    "deliv st' \<noteq> deliv st \<longrightarrow> (hw \<or> IEEE80211_IS_PROTECTED (mtod m) \<longrightarrow> sta_flags st AND F_PRIVACY \<noteq> 0) \<and>
      (dir = 2 \<or> dir = 3 \<and> sta_flags st AND F_DWDS \<noteq> 0)"
proof -
  consider (stop) "same_gate st' st"
    | (go) "sta_decrypt sys hw h subtype m st = Some (ty, st')" "dir = 2 \<or> dir = 3 \<and> sta_flags st AND F_DWDS \<noteq> 0"
    using assms by (auto simp: sta_data_def Let_def same_gate_def split: if_splits)
  note cases = this
  show "lets_through (hw \<or> IEEE80211_IS_PROTECTED (mtod m) \<or> wep_marked m st) st st'"
    using cases by cases (blast intro: lets_through_same decrypt_lets_through(1))+
  show "deliv st' \<noteq> deliv st \<longrightarrow> (hw \<or> IEEE80211_IS_PROTECTED (mtod m) \<longrightarrow> sta_flags st AND F_PRIVACY \<noteq> 0) \<and>
      (dir = 2 \<or> dir = 3 \<and> sta_flags st AND F_DWDS \<noteq> 0)"
    using cases by cases (simp add: same_gate_def, use decrypt_lets_through(2) in blast)
qed

section \<open>The whole function\<close>

lemma same_gate_refl [simp]: "same_gate a a"
  by (simp add: same_gate_def)

lemma rxseq_rest:
  "delivered (snd (rxseq_ok t q r ni)) = delivered ni" "ni_rxfrag (snd (rxseq_ok t q r ni)) = ni_rxfrag ni"
  "delivered (snd (rxseq_fail ni)) = delivered ni" "ni_rxfrag (snd (rxseq_fail ni)) = ni_rxfrag ni"
  by (simp_all add: rxseq_ok_def rxseq_fail_def Let_def)

lemma check_rxseq_keeps_rest:
  assumes "ieee80211_check_rxseq w r ni = (ok, ni')"
  shows "delivered ni' = delivered ni" "ni_flags ni' = ni_flags ni" "ni_rxfrag ni' = ni_rxfrag ni"
proof -
  have "ni' = snd (ieee80211_check_rxseq w r ni)" by (simp add: assms)
  then show "delivered ni' = delivered ni" "ni_flags ni' = ni_flags ni" "ni_rxfrag ni' = ni_rxfrag ni"
    by (simp_all add: ieee80211_check_rxseq_def rxseq_facts rxseq_rest Let_def)
qed

lemma enter_cases:
  assumes "sta_enter sys m k st = Some (ty, st')"
  shows "same_gate st' st \<or> (k st = Some (ty, st') \<and> mtod m ! 0 AND 3 = 0 \<and> 2 \<le> length (mtod m))"
  using assms by (auto simp: sta_enter_def Let_def same_gate_def split: if_splits)

lemma mgt_gate: "sta_mgt sys dir subtype m st = Some (ty, st') \<Longrightarrow> same_gate st' st"
  by (auto simp: sta_mgt_def Let_def same_gate_def split: if_splits option.splits prod.splits bool.splits)

lemma resubmit_lets_through:
  assumes "sta_resubmit sys rxs m st = Some (ty, st')"
  shows "lets_through True st st'"
proof -
  from enter_cases [OF assms [unfolded sta_resubmit_def]] show ?thesis
    by (auto intro: lets_through_same dest!: data_lets_through(1) elim!: lets_through_mono split: if_splits)
qed

lemma lets_through_trans:
  assumes "lets_through True a b" "lets_through True b c"
  shows "lets_through True a c"
  using assms by (auto simp: lets_through_def node_is_authorized_def)

lemma dispatch_lets_through: "sta_dispatch sys ms st = Some st' \<Longrightarrow> lets_through True st st'"
proof (induction sys ms st arbitrary: st' rule: sta_dispatch.induct)
  case (1 sys st)
  then show ?case by (simp add: lets_through_same)
next
  case (2 sys m ms st)
  let ?m = "m\<lparr>m_flags := m_flags m OR M_AMPDU_MPDU\<rparr>"
  obtain ty st1 where r: "sta_resubmit sys None ?m st = Some (ty, st1)"
    using "2.prems" by (auto split: option.splits)
  then have "sta_dispatch sys ms st1 = Some st'" using "2.prems" by simp
  from "2.IH" [OF r refl this] resubmit_lets_through [OF r] show ?case by (rule lets_through_trans [rotated])
qed

lemma reorder_lets_through:
  assumes "sta_reorder sys rxs m st = Some (v, st')"
  shows "lets_through True st st'"
proof -
  obtain raps env where "sta_dispatch sys (up env) (on_ni (\<lambda>ni. ni\<lparr>ni_ampdu := (raps, env\<lparr>up := []\<rparr>)\<rparr>) st) = Some st'"
    using assms by (auto simp: sta_reorder_def split: option.splits)
  from dispatch_lets_through [OF this] show ?thesis
    using lets_through_cong [of "on_ni (\<lambda>ni. ni\<lparr>ni_ampdu := (raps, env\<lparr>up := []\<rparr>)\<rparr>) st" st True]
    by (simp add: same_gate_def)
qed

lemma type_lets_through:
  assumes "sta_type sys rxs m st = Some (ty, st')"
  shows "lets_through True st st'"
proof -
  consider (none) "same_gate st' st" | (plain) hw h d s m1 where "sta_data sys hw h d s m1 st = Some (ty, st')"
    | (consumed) m1 where "sta_reorder sys rxs m1 st = Some (CONSUMED, st')"
    | (process) hw h d s m1 st1 where "sta_reorder sys rxs m1 st = Some (PROCESS, st1)"
        "sta_data sys hw h d s m1 st1 = Some (ty, st')"
    using assms mgt_gate
    by (fastforce simp: sta_type_def Let_def same_gate_def sta_out_def split: if_splits option.splits verdict.splits prod.splits)
  then show ?thesis
  proof cases
    case none
    then show ?thesis by (rule lets_through_same)
  next
    case plain
    from data_lets_through(1) [OF this] show ?thesis by (rule lets_through_mono) simp
  next
    case consumed
    then show ?thesis by (rule reorder_lets_through)
  next
    case process
    from data_lets_through(1) [OF process(2)] have "lets_through True st1 st'" by (rule lets_through_mono) simp
    with reorder_lets_through [OF process(1)] show ?thesis by (rule lets_through_trans)
  qed
qed

text \<open>What the code has done to the state when it comes to the switch over the frame's type.\<close>

lemma input_cases:
  assumes "sta_input sys rssi nf rxs m st = Some (ty, st')"
  shows "same_gate st' st \<or> (m_flags m AND M_AMPDU_MPDU \<noteq> 0 \<and> sta_resubmit sys rxs m st = Some (ty, st')) \<or>
    (\<exists>st1. sta_type sys rxs m st1 = Some (ty, st') \<and> same_gate st1 st \<and> sta_cn st1 = sta_cn st \<and>
      ni_rxfrag (sta_ni st1) = ni_rxfrag (sta_ni st) \<and> mtod m ! 0 AND 3 = 0 \<and> 2 \<le> length (mtod m) \<and>
      (mtod m ! 0 AND 0x0c = 0x04 \<or> ic_flags (cn_vap (sta_cn st)) AND F_SCAN \<noteq> 0 \<or>
        IEEE80211_ADDR_EQ (i_addr2 (mtod m)) (ni_bssid st) \<and>
        (IEEE80211_IS_MULTICAST (i_addr1 (mtod m)) \<or> IEEE80211_ADDR_EQ (i_addr1 (mtod m)) (sys_lladdr sys))))"
proof (cases "m_flags m AND M_AMPDU_MPDU \<noteq> 0")
  case True
  then show ?thesis using assms by (simp add: sta_input_def)
next
  case False
  note e = enter_cases [OF assms [unfolded sta_input_def if_not_P [OF False]]]
  show ?thesis
  proof (cases "same_gate st' st")
    case True
    then show ?thesis by simp
  next
    case G: False
    let ?st = "st\<lparr>ni_inact := ni_inact_reload st\<rparr>" and ?wh = "mtod m"
    have v: "?wh ! 0 AND 3 = 0" "2 \<le> length ?wh" using e G by auto
    show ?thesis
    proof (cases "?wh ! 0 AND 0x0c \<noteq> 0x04 \<and> ic_flags (cn_vap (sta_cn st)) AND F_SCAN = 0")
      case False
      then have "sta_type sys rxs m ?st = Some (ty, st')" using e G by (auto simp: Let_def split: if_splits)
      then show ?thesis using False v by (intro disjI2 exI [of _ ?st]) (auto simp: same_gate_def)
    next
      case T: True
      have bss: "IEEE80211_ADDR_EQ (i_addr2 ?wh) (ni_bssid st)"
        "IEEE80211_IS_MULTICAST (i_addr1 ?wh) \<or> IEEE80211_ADDR_EQ (i_addr1 ?wh) (sys_lladdr sys)"
        using e G T by (auto simp: Let_def same_gate_def split: if_splits)
      let ?st1 = "?st\<lparr>ni_avgrssi := RSSI_LPF (ni_avgrssi st) rssi, ni_noise := nf\<rparr>"
      let ?seq = "IEEE80211_HAS_SEQ (?wh ! 0 AND 0x0c) (?wh ! 0 AND 0xf0) \<and> \<not> IEEE80211_IS_MULTICAST (i_addr1 ?wh)"
      define st2 where "st2 = (if IEEE80211_QOS_HAS_SEQ ?wh \<and> TID_TO_WME_AC (ieee80211_gettid ?wh) \<ge> 2
        then ?st1\<lparr>wme_hipri_traffic := wme_hipri_traffic ?st1 + 1\<rparr> else ?st1)"
      obtain ok ni where c: "ieee80211_check_rxseq ?wh rxs (sta_ni st) = (ok, ni)" by fastforce
      have st2: "sta_ni st2 = sta_ni st" "sta_cn st2 = sta_cn st" by (simp_all add: st2_def)
      have len: "\<not> length ?wh < ieee80211_hdrsize ?wh" using e G T by (auto simp: Let_def split: if_splits)
      have r: "(if ?seq then if ok then sta_type sys rxs m (st2\<lparr>sta_ni := ni\<rparr>)
            else Some (?wh ! 0 AND 0x0c, sta_out sys True (Some m) (st2\<lparr>sta_ni := ni\<rparr>))
          else sta_type sys rxs m ?st1) = Some (ty, st')"
        using e G T bss len by (cases ok) (auto simp: Let_def c st2_def split: if_splits)
      show ?thesis
      proof (cases ?seq)
        case False
        then have "sta_type sys rxs m ?st1 = Some (ty, st')" using r by (simp only: if_False)
        then show ?thesis using bss v by (intro disjI2 exI [of _ ?st1]) (simp add: same_gate_def)
      next
        case S: True
        have "ok" using r S G check_rxseq_keeps_rest [OF c] by (cases ok) (auto simp: same_gate_def)
        then show ?thesis using r S bss v check_rxseq_keeps_rest [OF c] st2
          by (intro disjI2 exI [of _ "st2\<lparr>sta_ni := ni\<rparr>"]) (simp add: same_gate_def)
      qed
    qed
  qed
qed

text \<open>The first octets of a frame stay where they are when it is pulled up.\<close>

lemma pull_hdr_octets:
  assumes "pullups pull" "m_segs m \<noteq> []" "pull_hdr pull n m = Some m'" "2 \<le> length (mtod m)" "24 \<le> n"
  shows "mtod m' ! 0 = mtod m ! 0" "mtod m' ! 1 = mtod m ! 1" "m_flags m' = m_flags m"
proof -
  note p = pull_hdr_facts [OF assms(1-3)]
  have "concat (m_segs m') ! i = mtod m' ! i" "concat (m_segs m) ! i = mtod m ! i" if "i < 2" for i
    unfolding concat_hd_tl [OF p(1)] concat_hd_tl [OF assms(2)] using that p(3) assms(4,5) by (simp_all add: nth_append)
  then have "mtod m' ! i = mtod m ! i" if "i < 2" for i using p(2) that by metis
  then show "mtod m' ! 0 = mtod m ! 0" "mtod m' ! 1 = mtod m ! 1" by simp_all
  show "m_flags m' = m_flags m" by (rule p(5))
qed

text \<open>
  C4. A station delivers nothing of a frame, unless it is a data frame of protocol version 0
  that comes from its access point and is for it or for a group (or it is scanning), that
  comes from the distribution system, or over a bridge link if that is on, and that is
  encrypted only if privacy is on. Only authentication frames get through before the node is
  authorized, and afterwards, if unencrypted frames are to be dropped, those that were
  decrypted. A-MPDU subframes are the subject of the next property.
\<close>

theorem sta_input_guards:
  assumes "sta_input sys rssi nf rxs m st = Some (ty, st')" "pullups (sys_pull sys)" "m_segs m \<noteq> []"
    and "m_flags m AND M_AMPDU_MPDU = 0" "m_flags m AND M_AMPDU = 0"
  shows "\<exists>ds. deliv st' = deliv st @ ds \<and>
    (ds \<noteq> [] \<longrightarrow> mtod m ! 0 AND 0x03 = 0 \<and> mtod m ! 0 AND 0x0c = 0x08 \<and>
      (ic_flags (cn_vap (sta_cn st)) AND F_SCAN \<noteq> 0 \<or>
        IEEE80211_ADDR_EQ (i_addr2 (mtod m)) (ni_bssid st) \<and>
        (IEEE80211_IS_MULTICAST (i_addr1 (mtod m)) \<or> IEEE80211_ADDR_EQ (i_addr1 (mtod m)) (sys_lladdr sys))) \<and>
      (mtod m ! 1 AND 0x03 = 2 \<or> mtod m ! 1 AND 0x03 = 3 \<and> sta_flags st AND F_DWDS \<noteq> 0) \<and>
      (hw_decrypted rxs \<or> IEEE80211_IS_PROTECTED (mtod m) \<longrightarrow> sta_flags st AND F_PRIVACY \<noteq> 0)) \<and>
    ((\<exists>d \<in> set ds. \<not> pae_frame d) \<longrightarrow> node_is_authorized (sta_ni st) \<and>
      (hw_decrypted rxs \<or> IEEE80211_IS_PROTECTED (mtod m) \<or> wep_marked m st \<or> sta_flags st AND F_DROPUNENC = 0))"
    (is "\<exists>ds. _ = _ @ ds \<and> (ds \<noteq> [] \<longrightarrow> ?from) \<and> (?some ds \<longrightarrow> ?open)")
proof (cases "same_gate st' st")
  case True
  then show ?thesis by (intro exI [of _ "[]"]) (simp add: same_gate_def)
next
  case False
  obtain st1 where 1: "sta_type sys rxs m st1 = Some (ty, st')" "same_gate st1 st" "sta_cn st1 = sta_cn st"
    "ni_rxfrag (sta_ni st1) = ni_rxfrag (sta_ni st)" "mtod m ! 0 AND 3 = 0" "2 \<le> length (mtod m)"
    "mtod m ! 0 AND 0x0c = 0x04 \<or> ic_flags (cn_vap (sta_cn st)) AND F_SCAN \<noteq> 0 \<or>
        IEEE80211_ADDR_EQ (i_addr2 (mtod m)) (ni_bssid st) \<and>
        (IEEE80211_IS_MULTICAST (i_addr1 (mtod m)) \<or> IEEE80211_ADDR_EQ (i_addr1 (mtod m)) (sys_lladdr sys))"
    using input_cases [OF assms(1)] False assms(4) by auto
  show ?thesis
  proof (cases "same_gate st' st1")
    case True
    then show ?thesis using 1(2) by (intro exI [of _ "[]"]) (simp add: same_gate_def)
  next
    case G: False
    let ?h = "ieee80211_hdrspace (ic_flags (cn_vap (sta_cn st1))) (mtod m)"
    have ty: "mtod m ! 0 AND 0x0c = 0x08"
      using 1(1) G mgt_gate
      by (fastforce simp: sta_type_def Let_def same_gate_def split: if_splits)
    obtain m1 where m1: "pull_hdr (sys_pull sys) ?h m = Some m1"
      using 1(1) G ty by (cases "pull_hdr (sys_pull sys) ?h m") (auto simp: sta_type_def Let_def same_gate_def)
    note o = pull_hdr_octets [OF assms(2,3) m1 1(6) hdrspace_bounds(1)]
    have d: "sta_data sys (hw_decrypted rxs) ?h (mtod m ! 1 AND 3) (mtod m ! 0 AND 0xf0) m1 st1 = Some (ty, st')"
      using 1(1) ty m1 o(3) assms(5) by (simp add: sta_type_def Let_def)
    have w: "wep_marked m1 st1 = wep_marked m st" "IEEE80211_IS_PROTECTED (mtod m1) = IEEE80211_IS_PROTECTED (mtod m)"
      using o 1(4) by (simp_all add: wep_marked_def IEEE80211_IS_PROTECTED_def)
    obtain ds where ds: "deliv st' = deliv st1 @ ds" "?some ds \<longrightarrow> node_is_authorized (sta_ni st1) \<and>
        ((hw_decrypted rxs \<or> IEEE80211_IS_PROTECTED (mtod m) \<or> wep_marked m st) \<or> sta_flags st1 AND F_DROPUNENC = 0)"
      using data_lets_through(1) [OF d, unfolded w] unfolding lets_through_def by blast
    have "?some ds \<longrightarrow> ?open" using ds(2) 1(2,3) by (auto simp: same_gate_def node_is_authorized_def)
    moreover have "ds \<noteq> [] \<longrightarrow> ?from"
      using data_lets_through(2) [OF d, unfolded w] ds(1) 1(3,5,7) ty by auto
    ultimately show ?thesis using ds(1) 1(2) by (intro exI [of _ ds]) (simp add: same_gate_def)
  qed
qed

text \<open>
  C5. Before the node is authorized nothing but authentication frames is delivered, whatever
  arrives: subframes of A-MPDUs, frames that come back from the reorder buffer because of
  this one, A-MSDUs and fragments included; and the function itself does not authorize it
  (the handlers of management frames, which may, are not part of it).
\<close>

theorem sta_unauthorized:
  assumes "sta_input sys rssi nf rxs m st = Some (ty, st')" "\<not> node_is_authorized (sta_ni st)"
  shows "\<not> node_is_authorized (sta_ni st') \<and>
    (\<exists>ds. deliv st' = deliv st @ ds \<and> (\<forall>d \<in> set ds. pae_frame d))"
proof -
  have "lets_through True st st'"
  proof -
    consider (none) "same_gate st' st" | (resubmitted) "sta_resubmit sys rxs m st = Some (ty, st')"
      | (switch) st1 where "sta_type sys rxs m st1 = Some (ty, st')" "same_gate st1 st"
      using input_cases [OF assms(1)] by blast
    then show ?thesis
    proof cases
      case none
      then show ?thesis by (rule lets_through_same)
    next
      case resubmitted
      then show ?thesis by (rule resubmit_lets_through)
    next
      case switch
      then show ?thesis using type_lets_through lets_through_cong [of st1 st True] by blast
    qed
  qed
  then show ?thesis using assms(2) by (auto simp: lets_through_def node_is_authorized_def)
qed

section \<open>Examples\<close>

definition ex_sys :: "u8 list sta_sys" where
  "ex_sys = \<lparr>sys_env = ex_env, sys_pull = ex_pull, sys_split = ex_split, sys_cat = (@), sys_ticks = 0,
     sys_ampdu_age = 500, sys_lladdr = [2, 2, 2, 2, 2, 2], sys_myaddr = [2, 2, 2, 2, 2, 2],
     sys_simplex = True, sys_tap = True\<rparr>"

text \<open>A station with privacy on that drops unencrypted frames; \<open>fl\<close> are the flags of its node.\<close>

definition ex_sta :: "u32 \<Rightarrow> u32 \<Rightarrow> u8 list sta" where
  "ex_sta f fl = \<lparr>sta_ni = (ex_ni 0)\<lparr>ni_flags := fl\<rparr>, sta_cn = (ex_node 0)\<lparr>cn_vap := ex_vap\<lparr>iv_flags := f\<rparr>\<rparr>,
     ni_bssid = [4, 4, 4, 4, 4, 4], ni_inact = 0, ni_inact_reload = 5, ni_avgrssi = 127, ni_noise = 0,
     wme_hipri_traffic = 0, sta_events = []\<rparr>"

lemma ex_sta_runs:
  "map_option (\<lambda>(ty, st). (ty, map (concat \<circ> m_segs \<circ> fst) (deliv st))) (sta_input ex_sys 20 0 None ex_snap (ex_sta 0x10 1)) =
    Some (8, [[2, 2, 2, 2, 2, 2, 6, 6, 6, 6, 6, 6, 8, 0, 1, 2, 3]])"
  by code_simp

lemma ex_sta_unauth:
  "map_option fst (sta_input ex_sys 20 0 None ex_snap (ex_sta 0x10 0)) = Some 8"
  by code_simp

theorem sta_input_guards_witness:
  "\<exists>st'. sta_input ex_sys 20 0 None ex_snap (ex_sta 0x10 1) = Some (8, st') \<and> deliv st' \<noteq> [] \<and>
    IEEE80211_ADDR_EQ (i_addr2 (mtod ex_snap)) [4, 4, 4, 4, 4, 4] \<and>
    (IEEE80211_IS_MULTICAST (i_addr1 (mtod ex_snap)) \<or> IEEE80211_ADDR_EQ (i_addr1 (mtod ex_snap)) [2, 2, 2, 2, 2, 2])"
proof -
  obtain st' where st': "sta_input ex_sys 20 0 None ex_snap (ex_sta 0x10 1) = Some (8, st')" "deliv st' \<noteq> []"
    using ex_sta_runs by auto
  have e: "pullups (sys_pull ex_sys)" "m_segs ex_snap \<noteq> []" "m_flags ex_snap = 0" "deliv (ex_sta 0x10 1) = []"
    "ni_bssid (ex_sta 0x10 1) = [4, 4, 4, 4, 4, 4]" "sys_lladdr ex_sys = [2, 2, 2, 2, 2, 2]"
    "ic_flags (cn_vap (sta_cn (ex_sta 0x10 1))) = 0"
    using ex_mbuf_facts(1) by (simp_all add: ex_sys_def ex_snap_def ex_sta_def ex_ni_def ex_vap_def)
  show ?thesis
    using sta_input_guards [OF st'(1) e(1,2)] st' by (auto simp: e)
qed

theorem sta_unauthorized_witness:
  "\<exists>st'. sta_input ex_sys 20 0 None ex_snap (ex_sta 0x10 0) = Some (8, st') \<and>
    \<not> node_is_authorized (sta_ni st') \<and> (\<forall>d \<in> set (deliv st'). pae_frame d)"
proof -
  obtain st' where st': "sta_input ex_sys 20 0 None ex_snap (ex_sta 0x10 0) = Some (8, st')"
    using ex_sta_unauth by auto
  have "\<not> node_is_authorized (sta_ni (ex_sta 0x10 0))" "deliv (ex_sta 0x10 0) = []"
    by (simp_all add: ex_sta_def node_is_authorized_def ex_ni_def)
  then show ?thesis using sta_unauthorized [OF st'] st' by auto
qed

section \<open>Signal strength\<close>

text \<open>
  The average is kept in an unsigned word, so two samples of -1 in a row do not average to
  -1: the quotient is taken of the wrapped sum, and what is read back is larger than any signal.
\<close>

lemma rssi_lpf_negative:
  "RSSI_LPF 127 (-1) = word_of_int (-128)" "RSSI_GET (RSSI_LPF (RSSI_LPF 127 (-1)) (-1)) = 3355442"
  "RSSI_GET (RSSI_LPF (RSSI_LPF 127 20) 20) = 20"
  by code_simp+

section \<open>Two gaps\<close>

text \<open>
  The reorder buffer hands frames back without their receive parameters, so a frame that the
  hardware decrypted, with the protected bit cleared, is delivered when it arrives in order
  and discarded as unencrypted when it had to wait.
\<close>

definition ex_hw :: "u32 \<Rightarrow> mbuf" where
  "ex_hw fl = \<lparr>m_segs = [[0x88, 2, 0, 0, 2, 2, 2, 2, 2, 2, 4, 4, 4, 4, 4, 4, 6, 6, 6, 6, 6, 6, 0x20, 0, 0, 0] @
     LLC_SNAP @ [8, 0, 1, 2, 3]], m_rxs = Some 0x300, m_flags = fl\<rparr>"

lemma resubmit_forgets_decryption:
  "map_option (length \<circ> deliv \<circ> snd) (sta_input ex_sys 20 0 (Some 0x300) (ex_hw 0) (ex_sta 0x02000010 1)) = Some 1"
  "map_option (length \<circ> deliv \<circ> snd) (sta_input ex_sys 0 0 None (ex_hw M_AMPDU_MPDU) (ex_sta 0x02000010 1)) = Some 0"
  by code_simp+

text \<open>
  The smallest frame that is looked at for a key has 32 bytes, but the key id octet of a
  frame with four addresses is the 34th.
\<close>

lemma keyid_octet_beyond_frame:
  "ieee80211_crypto_decap ex_env (ex_node 0)
     \<lparr>m_segs = [[0x08, 0x43, 0, 0, 2, 2, 2, 2, 2, 2, 4, 4, 4, 4, 4, 4, 6, 6, 6, 6, 6, 6, 0, 0,
       8, 8, 8, 8, 8, 8, 0, 0]], m_rxs = None, m_flags = 0\<rparr> 30 = None"
  by code_simp

end
