(* ===== verification/StaGroup.thy ===== *)
theory StaGroup
  imports StaProps
begin

text \<open>
  From the sender's cipher to the receiver's network stack: a group frame protected by
  the crypto core of an access point, received by a station that holds the same key, arrives
  at the network stack as the Ethernet frame of what was sent.
\<close>

section \<open>The shape of a decrypted frame\<close>

lemma ccmp_decrypt_shape:
  assumes "ccmp_decrypt E pn h (v, k, m) = Some (ok, v', m')"
  shows "iv_flags v' = iv_flags v \<and> m_rxs m' = m_rxs m \<and> m_flags m' = m_flags m \<and> m_segs m' \<noteq> [] \<and>
    h + 8 \<le> length (mtod m')"
  using assms
  by (auto simp: ccmp_decrypt_def Let_def split: if_splits option.splits prod.splits)

lemma finish_shape:
  assumes "m_segs m \<noteq> []" "h + 8 \<le> length (mtod m)" "m_rxs m = None" "0 < h"
    and "h \<le> pktlen (m_segs (ccmp_decap_finish h m))"
  shows "m_segs (ccmp_decap_finish h m) \<noteq> []" "h \<le> length (mtod (ccmp_decap_finish h m))"
    "m_rxs (ccmp_decap_finish h m) = None" "m_flags (ccmp_decap_finish h m) = m_flags m"
proof -
  obtain s ss where m: "m_segs m = s # ss" using assms(1) by (cases "m_segs m") auto
  have f: "\<not> rx_flag m x" for x using assms(3) by (simp add: rx_flag_def)
  define a where "a = drop 8 (splice s 8 (take h s))"
  have a: "m_adj_front 8 (splice s 8 (take h s) # ss) = a # ss" "h \<le> length a"
    using assms(2,4) by (simp_all add: m a_def)
  have fin: "ccmp_decap_finish h m = m\<lparr>m_segs := m_keep (pktlen (a # ss) - 8) (a # ss)\<rparr>"
    using a(1) by (simp add: ccmp_decap_finish_def f m Let_def m_adj_back_def del: m_adj_front.simps)
  have "h \<le> pktlen (a # ss) - 8"
    using assms(5) unfolding fin by (simp add: pktlen_def del: m_keep.simps split: if_splits)
  then show "m_segs (ccmp_decap_finish h m) \<noteq> []" "h \<le> length (mtod (ccmp_decap_finish h m))"
    "m_rxs (ccmp_decap_finish h m) = None" "m_flags (ccmp_decap_finish h m) = m_flags m"
    unfolding fin using a(2) assms(3) by simp_all
qed

lemma notify_flags [simp]:
  "iv_flags (ieee80211_notify_replay_failure wh k rsc tid v) = iv_flags v"
  by (simp add: ieee80211_notify_replay_failure_def)

lemma ccmp_decap_shape:
  assumes "ccmp_decap aes h (v, k, c, m) = Some (True, v', k', m')" "ccmp_rx_frame h m" "0 < h"
    "h \<le> pktlen (m_segs m')"
  shows "iv_flags v' = iv_flags v" "m_rxs m' = None" "m_flags m' = m_flags m" "m_segs m' \<noteq> []"
    "h \<le> length (mtod m')"
proof -
  have r: "m_segs m \<noteq> []" "h + 8 \<le> length (mtod m)" "m_rxs m = None" "\<not> rx_flag m x" for x
    using assms(2) by (simp_all add: ccmp_rx_frame_def rx_flag_def)
  obtain m1 where m1: "m' = ccmp_decap_finish h m1" "iv_flags v' = iv_flags v" "m_rxs m1 = None"
    "m_flags m1 = m_flags m" "m_segs m1 \<noteq> []" "h + 8 \<le> length (mtod m1)"
    using assms(1) r
    by (auto simp: ccmp_decap_def Let_def split: if_splits option.splits prod.splits dest!: ccmp_decrypt_shape)
  note f = finish_shape [OF m1(5,6,3) assms(3) assms(4) [unfolded m1(1)]]
  show "iv_flags v' = iv_flags v" "m_rxs m' = None" "m_flags m' = m_flags m" "m_segs m' \<noteq> []"
    "h \<le> length (mtod m')"
    using f m1 by simp_all
qed

text \<open>The key was a CCMP key, so decapsulation by the core is that of the module.\<close>

lemma crypto_decap_ccmp_shape:
  assumes "ieee80211_crypto_decap env n m h = Some (True, Some (NwKey i), n', m')" "ccmp_rx_frame h m" "0 < h"
    "h \<le> pktlen (m_segs m')" "iv_nw_keys n ! i = (kr, CcmpCtx cr)" "wk_cipher kr = CIPHER_AES_CCM"
    "i < length (iv_nw_keys n)"
  shows "iv_flags (cn_vap n') = iv_flags (cn_vap n)" "m_rxs m' = None" "m_flags m' = m_flags m" "m_segs m' \<noteq> []"
    "h \<le> length (mtod m')" "\<exists>k'. iv_nw_keys n' ! i = (k', CcmpCtx cr) \<and> wk_cipher k' = CIPHER_AES_CCM"
proof -
  have f: "\<not> rx_flag m x" for x using assms(2) by (simp add: ccmp_rx_frame_def rx_flag_def)
  obtain v' ks where c: "cip_decap env h (cn_vap n, (kr, CcmpCtx cr), m) = Some (True, v', ks, m')"
    "n' = key_set (NwKey i) ks (n\<lparr>cn_vap := v'\<rparr>)"
    using assms(1) f
    by (auto simp: ieee80211_crypto_decap_def Let_def assms(5) simp del: key_set.simps
        split: option.splits if_splits prod.splits)
  obtain k' where d: "ccmp_decap (env_aes env) h (cn_vap n, kr, cr, m) = Some (True, v', k', m')" "ks = (k', CcmpCtx cr)"
    using c(1) assms(6) by (auto simp: cip_decap_def cipher_ids split: option.splits)
  have "wk_cipher k' = wk_cipher kr"
    using d(1) by (auto simp: ccmp_decap_def Let_def split: if_splits option.splits prod.splits)
  then show "iv_flags (cn_vap n') = iv_flags (cn_vap n)" "m_rxs m' = None" "m_flags m' = m_flags m" "m_segs m' \<noteq> []"
    "h \<le> length (mtod m')" "\<exists>k'. iv_nw_keys n' ! i = (k', CcmpCtx cr) \<and> wk_cipher k' = CIPHER_AES_CCM"
    using ccmp_decap_shape [OF d(1) assms(2,3,4)] assms(6,7) by (simp_all add: c(2) d(2))
qed

section \<open>A header and what follows it\<close>

lemma hdr_append:
  assumes "ieee80211_hdrsize wh \<le> length wh"
  shows "(wh @ z) ! 0 = wh ! 0" "(wh @ z) ! 1 = wh ! 1" "i_addr1 (wh @ z) = i_addr1 wh"
    "i_addr2 (wh @ z) = i_addr2 wh" "i_addr3 (wh @ z) = i_addr3 wh"
    "ieee80211_hdrsize (wh @ z) = ieee80211_hdrsize wh" "ieee80211_hdrspace f (wh @ z) = ieee80211_hdrspace f wh"
    "wh ! 0 AND 0xf0 = 0x80 \<Longrightarrow> wh ! 0 AND 0x0c = 0x08 \<Longrightarrow> ieee80211_getqos (wh @ z) = ieee80211_getqos wh"
proof -
  have l: "24 \<le> length wh" using assms by (auto simp: ieee80211_hdrsize_def split: if_splits)
  have b: "(wh @ z) ! 0 = wh ! 0" "(wh @ z) ! 1 = wh ! 1" using l by (auto simp: nth_append)
  show "(wh @ z) ! 0 = wh ! 0" "(wh @ z) ! 1 = wh ! 1" "i_addr1 (wh @ z) = i_addr1 wh"
    "i_addr2 (wh @ z) = i_addr2 wh" "i_addr3 (wh @ z) = i_addr3 wh"
    using l b by (simp_all add: i_addr1_def i_addr2_def i_addr3_def)
  show s: "ieee80211_hdrsize (wh @ z) = ieee80211_hdrsize wh"
    using b by (simp add: ieee80211_hdrsize_def IEEE80211_IS_DSTODS_def IEEE80211_QOS_HAS_SEQ_def)
  show "ieee80211_hdrspace f (wh @ z) = ieee80211_hdrspace f wh" by (simp add: ieee80211_hdrspace_def s)
  show "ieee80211_getqos (wh @ z) = ieee80211_getqos wh" if t: "wh ! 0 AND 0xf0 = 0x80" "wh ! 0 AND 0x0c = 0x08"
  proof -
    have "wh ! 0 AND (0x0c OR 0x80) = 0x88"
    proof -
      have "wh ! 0 AND 0x80 = (wh ! 0 AND 0xf0) AND 0x80" unfolding and.assoc by simp
      then have "wh ! 0 AND 0x80 = 0x80" unfolding t(1) by simp
      then show ?thesis unfolding bit.conj_disj_distrib t(2) by simp
    qed
    then have "26 \<le> length wh" "wh ! 1 AND 3 = 3 \<longrightarrow> 32 \<le> length wh"
      using assms by (auto simp: ieee80211_hdrsize_def IEEE80211_QOS_HAS_SEQ_def IEEE80211_IS_DSTODS_def split: if_splits)
    then show ?thesis using b by (auto simp: ieee80211_getqos_def IEEE80211_IS_DSTODS_def nth_append)
  qed
qed

lemma ether_frame_clear: "2 \<le> length wh \<Longrightarrow> ether_frame (clear_protected wh) llc body qos = ether_frame wh llc body qos"
proof -
  assume l: "2 \<le> length wh"
  have "(x AND NOT 64) AND 3 = x AND (3 :: u8)" for x unfolding and.assoc by simp
  then have "ether_hosts (clear_protected wh) = ether_hosts wh"
    using l by (simp add: ether_hosts_def clear_protected_def Let_def i_addr1_def i_addr2_def i_addr3_def i_addr4_def drop_update_cancel)
  then show ?thesis by (simp add: ether_frame_def)
qed

lemma hdrsize_clear: "2 \<le> length wh \<Longrightarrow> ieee80211_hdrsize (clear_protected wh) = ieee80211_hdrsize wh"
proof -
  assume l: "2 \<le> length wh"
  have "(x AND NOT 64) AND 3 = x AND (3 :: u8)" for x unfolding and.assoc by simp
  then show ?thesis using l
    by (simp add: ieee80211_hdrsize_def clear_protected_def IEEE80211_IS_DSTODS_def IEEE80211_QOS_HAS_SEQ_def)
qed

lemma clear_protected_hdr:
  assumes "2 \<le> length wh"
  shows "i_addr1 (clear_protected wh) = i_addr1 wh" "clear_protected wh ! 0 = wh ! 0"
    "ieee80211_getqos (clear_protected wh) = ieee80211_getqos wh"
proof -
  have "(x AND NOT 64) AND 3 = x AND (3 :: u8)" for x unfolding and.assoc by simp
  then show "i_addr1 (clear_protected wh) = i_addr1 wh" "clear_protected wh ! 0 = wh ! 0"
    "ieee80211_getqos (clear_protected wh) = ieee80211_getqos wh"
    using assms by (simp_all add: clear_protected_def i_addr1_def ieee80211_getqos_def IEEE80211_IS_DSTODS_def)
qed

text \<open>The first mbuf starts with the header.\<close>

lemma mtod_prefix:
  assumes "m_segs m \<noteq> []" "concat (m_segs m) = wh @ y" "length wh \<le> length (mtod m)"
  shows "\<exists>z. mtod m = wh @ z"
  using append_prefix [of "mtod m" "concat (tl (m_segs m))" wh y] assms concat_hd_tl [OF assms(1)] by auto

section \<open>Receiving\<close>

text \<open>A data frame from the access point to a group, encrypted and no A-MSDU.\<close>

definition group_hdr :: "u8 list \<Rightarrow> bool" where
  "group_hdr wh \<longleftrightarrow> wh ! 0 AND 0x03 = 0 \<and> wh ! 0 AND 0x0c = 0x08 \<and> wh ! 1 AND 0x03 = 2 \<and>
     IEEE80211_IS_PROTECTED wh \<and> IEEE80211_IS_MULTICAST (i_addr1 wh) \<and>
     (wh ! 0 AND 0xf0 = 0x80 \<longrightarrow> ieee80211_getqos wh AND 0x80 = 0)"

text \<open>The station takes frames of its access point and has encryption on; it is authorized.\<close>

definition sta_ready :: "'c sta_sys \<Rightarrow> u8 list \<Rightarrow> 'c sta \<Rightarrow> bool" where
  "sta_ready sys wh st \<longleftrightarrow> pullups (sys_pull sys) \<and> (\<forall>s n. n \<le> pktlen s \<longrightarrow> sys_pull sys s n \<noteq> None) \<and>
     IEEE80211_ADDR_EQ (i_addr2 wh) (ni_bssid st) \<and>
     \<not> (sys_simplex sys \<and> IEEE80211_ADDR_EQ (i_addr3 wh) (sys_myaddr sys)) \<and>
     sta_flags st AND F_DWDS = 0 \<and> sta_flags st AND F_PRIVACY \<noteq> 0 \<and> node_is_authorized (sta_ni st)"

text \<open>From the decrypted frame on.\<close>

lemma sta_msdu_delivers:
  assumes "sta_ready sys wh0 st0" "sta_flags st = sta_flags st0" "ni_flags (sta_ni st) = ni_flags (sta_ni st0)"
    and "iv_nw_keys (sta_cn st) ! i = (k, CcmpCtx c)" "wk_cipher k = CIPHER_AES_CCM"
    and "m_segs m \<noteq> []" "m_rxs m = None" "concat (m_segs m) = wh @ llc @ body" "length wh = h"
      "ieee80211_hdrsize wh \<le> h" "length llc = 8" "qos AND 0x80 = 0"
  shows "\<exists>st'. sta_msdu sys False True (Some (NwKey i)) h subtype qos m st = Some (TYPE_DATA, st') \<and>
    delivered_bytes (sta_ni st') = delivered_bytes (sta_ni st) @ [ether_frame wh llc body qos]"
proof -
  have f: "\<not> rx_flag m x" for x using assms(7) by (simp add: rx_flag_def)
  have t: "key_template k = Some ccmp_template" by (simp add: key_template_def assms(5) cipher_ids)
  have d: "ieee80211_crypto_demic (sys_env sys) False (sta_cn st) (Some (NwKey i)) m = Some (True, sta_cn st, m)"
    using f by (simp add: ieee80211_crypto_demic_def assms(4) t ccmp_template_def)
  define tap where "tap st = (if sys_tap sys then st\<lparr>sta_events := sta_events st @ [Radiotap m]\<rparr> else st)" for st :: "'a sta"
  have tap: "sta_ni (tap s) = sta_ni s" "sta_cn (tap s) = sta_cn s" for s by (simp_all add: tap_def)
  have "h + 8 \<le> pktlen (m_segs m)" using assms(8,9,11) by (simp add: pktlen_def)
  then have "pull_hdr (sys_pull sys) (h + 8) m \<noteq> None"
    using assms(1) by (auto simp: pull_hdr_def sta_ready_def)
  then obtain m1 where m1: "pull_hdr (sys_pull sys) (h + 8) m = Some m1" by blast
  obtain m' where m': "ieee80211_decap (sys_pull sys) m h qos (cn_vap (sta_cn st), sta_ni st) =
      (Some m', cn_vap (sta_cn st), sta_ni st)" "concat (m_segs m') = ether_frame wh llc body qos"
    using decap_frame [OF _ assms(6,8-11) m1, of qos "cn_vap (sta_cn st)" "sta_ni st"] assms(1)
    unfolding sta_ready_def by blast
  let ?st = "on_vap (\<lambda>_. cn_vap (sta_cn st)) (tap st\<lparr>sta_ni := sta_ni st\<rparr>)"
  have "sta_msdu sys False True (Some (NwKey i)) h subtype qos m st = sta_deliver sys False True qos m' ?st"
    by (simp add: sta_msdu_def d tap_def [symmetric] tap m'(1))
  moreover have "node_is_authorized (sta_ni st)" using assms(1,3) by (simp add: sta_ready_def node_is_authorized_def)
  then have "sta_deliver sys False True qos m' ?st = Some (TYPE_DATA, on_ni (ieee80211_deliver_data m') ?st)"
    using assms(12) by (simp add: sta_deliver_def Let_def)
  ultimately show ?thesis using m'(2) by simp
qed

lemma sta_group_decrypt:
  assumes E: "block_cipher (env_aes (sys_env sys) (cc_aes cr))"
    and wh: "h = length wh" "ieee80211_hdrsize wh \<le> h" "h = ieee80211_hdrspace (ic_flags (cn_vap (sta_cn st))) wh" "group_hdr wh"
    and C: "concat (m_segs mr) = wh @ iv @ ccmp_seal (env_aes (sys_env sys) (cc_aes cr)) wh tsc (llc @ body)"
      "length iv = 8" "ccmp_rx_frame h mr" "length llc = 8"
    and iv: "READ_6 (iv ! 0) (iv ! 1) (iv ! 4) (iv ! 5) (iv ! 6) (iv ! 7) = tsc" "(iv ! 3) AND 0x20 \<noteq> 0"
      "unat (drop_bit 6 (iv ! 3)) = i"
    and n: "i < length (iv_nw_keys (sta_cn st))" "iv_nw_keys (sta_cn st) ! i = (kr, CcmpCtx cr)" "wk_cipher kr = CIPHER_AES_CCM"
    and kr: "has_flag (wk_flags kr) KEY_SWDECRYPT" "wk_keyrsc kr ! ieee80211_gettid wh < tsc"
    and st: "sta_ready sys wh st"
    and qos: "qos = (if wh ! 0 AND 0xf0 = 0x80 then ieee80211_getqos wh else 0)"
  shows "\<exists>st'. sta_decrypt sys False h (wh ! 0 AND 0xf0) mr st = Some (TYPE_DATA, st') \<and>
    delivered_bytes (sta_ni st') = delivered_bytes (sta_ni st) @ [ether_frame wh llc body qos]"
proof -
  note g = wh(4) [unfolded group_hdr_def] and r = C(3) [unfolded ccmp_rx_frame_def]
  have l24: "24 \<le> h" using wh(2) by (auto simp: ieee80211_hdrsize_def split: if_splits)
  obtain z where z: "mtod mr = wh @ z" using mtod_prefix [OF _ C(1)] r wh(1) by auto
  note ha = hdr_append [OF wh(2) [unfolded wh(1)], where z = z, folded z]
  have mc: "IEEE80211_IS_MULTICAST (i_addr1 wh)" using g by blast
  have hl: "h \<le> length wh" and th: "take h wh = wh" using wh(1) by simp_all
  have C1: "concat (m_segs mr) = take h wh @ iv @ ccmp_seal (env_aes (sys_env sys) (cc_aes cr)) wh tsc (llc @ body)"
    unfolding th by (rule C(1))
  obtain n' mr' where d: "ieee80211_crypto_decap (sys_env sys) (sta_cn st) mr h = Some (True, Some (NwKey i), n', mr')"
    "concat (m_segs mr') = take h wh @ llc @ body"
    using group_receive [OF E wh(2) hl wh(3) mc C1 C(2,3) iv n kr] by blast
  have len: "h \<le> pktlen (m_segs mr')" using wh(1) by (simp add: pktlen_def d(2))
  have h0: "0 < h" using l24 by simp
  note sh = crypto_decap_ccmp_shape [OF d(1) C(3) h0 len n(2,3,1)]
  obtain z' where z': "mtod mr' = wh @ z'" using mtod_prefix [OF sh(4), of wh] d(2) sh(5) wh(1) by auto
  define m1 where "m1 = hdr_update clear_protected mr'"
  have l2: "2 \<le> length wh" using l24 wh(1) by simp
  have m1: "m_segs m1 \<noteq> []" "m_rxs m1 = None" "mtod m1 = clear_protected wh @ z'"
    using sh(2) clear_protected_append [OF l2] by (simp_all add: m1_def hdr_update_def z')
  have c1: "concat (m_segs m1) = clear_protected wh @ llc @ body"
  proof -
    have "wh @ z' @ concat (tl (m_segs mr')) = wh @ llc @ body"
      using concat_hd_tl [OF sh(4)] d(2) wh(1) by (simp add: z')
    then show ?thesis unfolding concat_hd_tl [OF m1(1)] m1(3) by (simp add: m1_def hdr_update_def)
  qed
  have cl: "length (clear_protected wh) = h" "ieee80211_hdrsize (clear_protected wh) \<le> h"
    using wh(1,2) hdrsize_clear [OF l2] by (simp_all add: clear_protected_def)
  note hb = hdr_append [OF cl(2) [folded cl(1)], where z = z', folded m1(3)]
  note ca = clear_protected_hdr [OF l2]
  define subtype where "subtype = wh ! 0 AND 0xf0"
  let ?st = "st\<lparr>sta_cn := n'\<rparr>"
  have q: "(if subtype = 0x80 then ieee80211_getqos (mtod m1) else 0) = qos"
    using hb(8) ca(2,3) g by (simp add: subtype_def qos)
  have qa: "qos AND 0x80 = 0" using g by (simp add: qos)
  obtain k' where k': "iv_nw_keys n' ! i = (k', CcmpCtx cr)" "wk_cipher k' = CIPHER_AES_CCM" using sh(6) by blast
  obtain st' where m: "sta_msdu sys False True (Some (NwKey i)) h subtype qos m1 ?st = Some (TYPE_DATA, st')"
      "delivered_bytes (sta_ni st') = delivered_bytes (sta_ni st) @ [ether_frame (clear_protected wh) llc body qos]"
    using sta_msdu_delivers [OF st _ _ _ k'(2) m1(1,2) c1 cl C(4) qa, where st = ?st and i = i and subtype = subtype]
      sh(1) k'(1) by auto
  have "sta_decrypt sys False h subtype mr st = Some (TYPE_DATA, st')"
  proof -
    have "IEEE80211_IS_PROTECTED (mtod mr)" "sta_flags st AND F_PRIVACY \<noteq> 0" "IEEE80211_IS_MULTICAST (i_addr1 (mtod m1))"
      using g ha(2) st hb(3) ca(1) by (simp_all add: IEEE80211_IS_PROTECTED_def sta_ready_def)
    moreover from this have "sta_defrag sys False True (Some (NwKey i)) h subtype m1 ?st = Some (TYPE_DATA, st')"
      unfolding sta_defrag_def Let_def q by (simp add: m(1))
    ultimately show ?thesis using d(1)
      by (simp add: sta_decrypt_def m1_def [symmetric] Let_def)
  qed
  then show ?thesis using m(2) ether_frame_clear [OF l2] by (auto simp: subtype_def)
qed

lemma sta_group_receive:
  assumes E: "block_cipher (env_aes (sys_env sys) (cc_aes cr))"
    and wh: "h = length wh" "ieee80211_hdrsize wh \<le> h" "h = ieee80211_hdrspace (ic_flags (cn_vap (sta_cn st))) wh" "group_hdr wh"
    and C: "concat (m_segs mr) = wh @ iv @ ccmp_seal (env_aes (sys_env sys) (cc_aes cr)) wh tsc (llc @ body)"
      "length iv = 8" "ccmp_rx_frame h mr" "m_flags mr AND M_AMPDU_MPDU = 0" "m_flags mr AND M_AMPDU = 0"
      "length llc = 8"
    and iv: "READ_6 (iv ! 0) (iv ! 1) (iv ! 4) (iv ! 5) (iv ! 6) (iv ! 7) = tsc" "(iv ! 3) AND 0x20 \<noteq> 0"
      "unat (drop_bit 6 (iv ! 3)) = i"
    and n: "i < length (iv_nw_keys (sta_cn st))" "iv_nw_keys (sta_cn st) ! i = (kr, CcmpCtx cr)" "wk_cipher kr = CIPHER_AES_CCM"
    and kr: "has_flag (wk_flags kr) KEY_SWDECRYPT" "wk_keyrsc kr ! ieee80211_gettid wh < tsc"
    and st: "sta_ready sys wh st"
    and qos: "qos = (if wh ! 0 AND 0xf0 = 0x80 then ieee80211_getqos wh else 0)"
  shows "\<exists>st'. sta_input sys rssi nf None mr st = Some (TYPE_DATA, st') \<and>
    delivered_bytes (sta_ni st') = delivered_bytes (sta_ni st) @ [ether_frame wh llc body qos]"
proof -
  note g = wh(4) [unfolded group_hdr_def] and r = C(3) [unfolded ccmp_rx_frame_def]
  have l24: "24 \<le> h" using wh(2) by (auto simp: ieee80211_hdrsize_def split: if_splits)
  obtain z where z: "mtod mr = wh @ z" using mtod_prefix [OF _ C(1)] r wh(1) by auto
  note ha = hdr_append [OF wh(2) [unfolded wh(1)], where z = z, folded z]
  \<comment> \<open>the state in which the frame is decrypted\<close>
  define st1 where "st1 = st\<lparr>ni_inact := ni_inact_reload st\<rparr>"
  define st2 where "st2 = (if ic_flags (cn_vap (sta_cn st)) AND F_SCAN = 0
    then st1\<lparr>ni_avgrssi := RSSI_LPF (ni_avgrssi st) rssi, ni_noise := nf\<rparr> else st1)"
  have s2: "sta_ni st2 = sta_ni st" "sta_cn st2 = sta_cn st" by (simp_all add: st2_def st1_def)
  define subtype where "subtype = wh ! 0 AND 0xf0"
  have rd: "sta_ready sys wh st2" using st by (simp add: sta_ready_def st2_def st1_def)
  obtain st' where dec: "sta_decrypt sys False h subtype mr st2 = Some (TYPE_DATA, st')"
      "delivered_bytes (sta_ni st') = delivered_bytes (sta_ni st) @ [ether_frame wh llc body qos]"
    using sta_group_decrypt [OF E wh(1,2) _ wh(4) C(1,2,3,6) iv _ _ n(3) kr rd qos] wh(3) n(1,2) unfolding s2 subtype_def by blast
  have hs: "ieee80211_hdrspace (ic_flags (cn_vap (sta_cn st2))) (mtod mr) = h" using ha(7) wh(3) s2 by simp
  have dat: "sta_data sys False h 2 subtype mr st2 = Some (TYPE_DATA, st')"
  proof -
    have "\<not> (sys_simplex sys \<and> isfromds_mcastecho (sys_myaddr sys) (mtod mr))" "sta_flags st2 AND F_DWDS = 0"
      using st s2 ha(5) by (auto simp: isfromds_mcastecho_def sta_ready_def)
    then show ?thesis using dec(1) by (auto simp: sta_data_def Let_def)
  qed
  have "pull_hdr (sys_pull sys) h mr = Some mr" using r by (simp add: pull_hdr_def)
  then have ty: "sta_type sys None mr st2 = Some (TYPE_DATA, st')"
    using dat g ha(1,2) hs C(5) by (simp add: sta_type_def Let_def hw_decrypted_def subtype_def)
  have b: "mtod mr ! 0 AND 0x03 = 0" "mtod mr ! 0 AND 0x0c = 0x08" "IEEE80211_IS_MULTICAST (i_addr1 (mtod mr))"
    "IEEE80211_ADDR_EQ (i_addr2 (mtod mr)) (ni_bssid st1)" "\<not> length (mtod mr) < ieee80211_hdrsize (mtod mr)"
    using g ha st wh(2) z wh(1) by (simp_all add: sta_ready_def st1_def)
  have p: "\<not> pktlen (m_segs mr) < 2" "\<not> length (mtod mr) < 2" "\<not> pktlen (m_segs mr) < ieee80211_anyhdrsize (mtod mr)"
    using r l24 b(2) ha(6) wh(2) by (auto simp: ieee80211_anyhdrsize_def)
  have "sta_input sys rssi nf None mr st = Some (TYPE_DATA, st')"
    unfolding sta_input_def sta_enter_def Let_def st1_def [symmetric]
    using C(4) p b ty by (simp add: st1_def st2_def split: if_splits)
  then show ?thesis using dec(2) by auto
qed

section \<open>From the sender to the network stack\<close>

text \<open>
  A group frame that an access point protects with its CCMP group key arrives at the
  network stack of every ready station that holds the same key and has not seen the packet
  number, however the protected frame is cut into mbufs: what \<open>sta_input\<close> delivers in
  addition is exactly the Ethernet frame of the header, the LLC/SNAP header and the payload
  that were sent.
\<close>

lemma sta_group_delivered:
  assumes env: "\<forall>c. block_cipher (env_aes env c)" "prepends (env_pre env)" "appends (env_app env)"
      "\<forall>segs n. env_pre env segs n \<noteq> None" "\<forall>segs bs. env_app env segs bs \<noteq> None"
    and m: "m_segs m \<noteq> []" "concat (m_segs m) = wh @ llc @ body" "take h (mtod m) = wh" "h \<le> length (mtod m)"
      "wide (tl (m_segs m))" "h = ieee80211_hdrspace (ic_flags (cn_vap ns)) wh" "group_hdr wh" "length llc = 8"
    and ns: "unat (iv_def_txkey ns) = i" "i < 4" "i < length (iv_nw_keys ns)"
      "iv_nw_keys ns ! i = (ks, CcmpCtx c)" "wk_cipher ks = CIPHER_AES_CCM" "wk_nwidx ks = Some i"
      "\<not> ccmp_exempt ks (mtod m)" "has_flag (wk_flags ks) KEY_SWENCRYPT"
      "wk_keytsc ks + 1 = tsc" "tsc < 2 ^ 48"
    and nr: "i < length (iv_nw_keys (sta_cn st))" "iv_nw_keys (sta_cn st) ! i = (kr, CcmpCtx c)"
      "wk_cipher kr = CIPHER_AES_CCM" "has_flag (wk_flags kr) KEY_SWDECRYPT"
      "wk_keyrsc kr ! ieee80211_gettid wh < tsc"
    and st: "sta_ready sys wh st" "env_aes (sys_env sys) = env_aes env"
      "h = ieee80211_hdrspace (ic_flags (cn_vap (sta_cn st))) wh"
    and qos: "qos = (if wh ! 0 AND 0xf0 = 0x80 then ieee80211_getqos wh else 0)"
  shows "\<exists>ns' m'. ieee80211_crypto_encap env ns m = Some (Some (NwKey i), ns', m') \<and>
    (\<forall>mr. concat (m_segs mr) = concat (m_segs m') \<longrightarrow> ccmp_rx_frame h mr \<longrightarrow>
      m_flags mr AND M_AMPDU_MPDU = 0 \<longrightarrow> m_flags mr AND M_AMPDU = 0 \<longrightarrow>
      (\<exists>st'. sta_input sys rssi nf None mr st = Some (TYPE_DATA, st') \<and>
        delivered_bytes (sta_ni st') = delivered_bytes (sta_ni st) @ [ether_frame wh llc body qos]))"
proof -
  have E: "block_cipher (env_aes env (cc_aes c))" using env(1) by blast
  have hl: "h = length wh" using m(3,4) by auto
  have hz: "ieee80211_hdrsize wh \<le> h" unfolding m(6) by (rule hdrspace_bounds)
  have th: "take h wh = wh" "h \<le> length wh" using hl by simp_all
  have md: "mtod m = wh @ drop h (mtod m)" unfolding m(3) [symmetric] by simp
  have sh: "same_hdr wh (mtod m)"
    by (subst md) (rule same_hdr_append [OF hz th(2), unfolded th(1)])
  have hs: "h = ieee80211_hdrspace (ic_flags (cn_vap ns)) (mtod m)"
    using m(6) same_hdr_hdrsize [OF sh] by (simp add: ieee80211_hdrspace_def)
  have mc: "IEEE80211_IS_MULTICAST (i_addr1 (mtod m))"
    using m(7) same_hdr_addr(1) [OF sh] by (simp add: group_hdr_def)
  obtain ns' m' where enc: "ieee80211_crypto_encap env ns m = Some (Some (NwKey i), ns', m')"
    and cm: "concat (m_segs m') = take h (concat (m_segs m)) @ snd (ccmp_setiv ks) @
      ccmp_seal (env_aes env (cc_aes c)) (mtod m) tsc (drop h (concat (m_segs m)))"
    using group_encap [OF E env(2-5) m(1) hs m(4,5) mc ns(1-5,7,8)] unfolding ns(9) by blast
  have c: "concat (m_segs m') = wh @ snd (ccmp_setiv ks) @
      ccmp_seal (env_aes (sys_env sys) (cc_aes c)) wh tsc (llc @ body)"
    unfolding cm m(2) st(2) ccmp_seal_same_hdr [OF sh] by (simp add: hl)
  have "\<exists>st'. sta_input sys rssi nf None mr st = Some (TYPE_DATA, st') \<and>
      delivered_bytes (sta_ni st') = delivered_bytes (sta_ni st) @ [ether_frame wh llc body qos]"
    if r: "concat (m_segs mr) = concat (m_segs m')" "ccmp_rx_frame h mr" "m_flags mr AND M_AMPDU_MPDU = 0"
      "m_flags mr AND M_AMPDU = 0" for mr
    by (rule sta_group_receive [OF E [folded st(2)] hl hz st(3) m(7) r(1) [unfolded c] length_ccmp_setiv r(2-4) m(8)
        ccmp_setiv_bytes [OF ns(9,10)] setiv_keyid [OF ns(6,2)] nr st(1) qos])
  with enc show ?thesis by blast
qed

end
