(* ===== verification/OutputProps.thy ===== *)
theory OutputProps
  imports Output StaGroup
begin

text \<open>
  Encapsulation and decapsulation as inverses: the 802.11 frame made of an Ethernet frame is
  turned back into that frame by the receiver, in every mode.
\<close>

section \<open>What the allocators promise\<close>

definition unshares :: "(u8 list list \<Rightarrow> u8 list list option) \<Rightarrow> bool" where
  "unshares u \<longleftrightarrow> (\<forall>segs segs'. segs \<noteq> [] \<longrightarrow> u segs = Some segs' \<longrightarrow> concat segs' = concat segs \<and> segs' \<noteq> [] \<and>
     (14 \<le> length (hd segs) \<longrightarrow> 14 \<le> length (hd segs')))"

text \<open>The bytes in front need not be contiguous with what is behind them.\<close>

definition m_prepends :: "m_prepend \<Rightarrow> bool" where
  "m_prepends pre \<longleftrightarrow> (\<forall>segs n segs'. segs \<noteq> [] \<longrightarrow> pre segs n = Some segs' \<longrightarrow>
     segs' \<noteq> [] \<and> n \<le> length (hd segs') \<and> (\<exists>junk. length junk = n \<and> concat segs' = junk @ concat segs))"

lemma prepends_m_prepends: "prepends pre \<Longrightarrow> m_prepends pre"
proof (unfold m_prepends_def, intro allI impI)
  fix segs n segs' assume "prepends pre" "segs \<noteq> []" "pre segs n = Some segs'"
  then obtain junk where "length junk = n" "segs' = (junk @ hd segs) # tl segs" unfolding prepends_def by blast
  then show "segs' \<noteq> [] \<and> n \<le> length (hd segs') \<and> (\<exists>junk. length junk = n \<and> concat segs' = junk @ concat segs)"
    using concat_hd_tl [OF \<open>segs \<noteq> []\<close>] by auto
qed

text \<open>A well-formed sender: the allocators work as their callers expect, addresses have six octets.\<close>

definition tx_ok :: "'c tx_sys \<Rightarrow> bool" where
  "tx_ok sys \<longleftrightarrow> unshares (m_unshare sys) \<and> m_prepends (env_pre (tx_crypto sys)) \<and>
     (\<forall>n. length (tx_junk sys n) = n) \<and> length (iv_myaddr sys) = 6 \<and> length (bss_bssid sys) = 6 \<and>
     length (tx_macaddr sys) = 6 \<and> length (tx_bssid sys) = 6"

section \<open>The frame before protection and fragmentation\<close>

lemma mbuf_adjust_shape:
  assumes "tx_ok sys" "ieee80211_mbuf_adjust sys h key m tx = (Some m', tx')" "m_segs m \<noteq> []" "14 \<le> length (mtod m)"
  shows "tx' = tx" "m_segs m' \<noteq> []" "14 \<le> length (mtod m')" "drop 14 (concat (m_segs m')) = drop 14 (concat (m_segs m))"
    "m_flags m' = m_flags m" "m_rxs m' = m_rxs m"
proof -
  let ?u = "case key of None \<Rightarrow> False
    | Some r \<Rightarrow> has_flag (wk_flags (fst (key_of (tx_cn tx) r))) (KEY_SWENCRYPT OR KEY_SWENMIC)"
  obtain m1 where m1: "(if ?u then map_option (with_segs m) (m_unshare sys (m_segs m)) else Some m) = Some m1"
    using assms(2) by (auto simp: ieee80211_mbuf_adjust_def Let_def split: option.splits if_splits)
  have s: "concat (m_segs m1) = concat (m_segs m)" "m_segs m1 \<noteq> []" "14 \<le> length (mtod m1)" "m_flags m1 = m_flags m"
    "m_rxs m1 = m_rxs m"
    using assms(1,3,4) m1 by (auto simp: tx_ok_def unshares_def with_segs_def split: if_splits)
  consider (room) "m' = m1" "tx' = tx"
    | (fresh) "m' = with_segs m1 (tx_junk sys 14 # drop 14 (mtod m1) # tl (m_segs m1))" "tx' = tx"
    using assms(2) m1 by (auto simp: ieee80211_mbuf_adjust_def Let_def split: if_splits)
  then have "tx' = tx \<and> m_segs m' \<noteq> [] \<and> 14 \<le> length (mtod m') \<and> drop 14 (concat (m_segs m')) = drop 14 (concat (m_segs m)) \<and>
    m_flags m' = m_flags m \<and> m_rxs m' = m_rxs m"
  proof cases
    case room
    then show ?thesis using s by simp
  next
    case fresh
    moreover have "drop 14 (concat (m_segs m1)) = drop 14 (mtod m1) @ concat (tl (m_segs m1))"
      using s(3) by (simp add: concat_hd_tl [OF s(2)])
    ultimately show ?thesis using s assms(1) by (simp add: with_segs_def tx_ok_def)
  qed
  then show "tx' = tx" "m_segs m' \<noteq> []" "14 \<le> length (mtod m')" "drop 14 (concat (m_segs m')) = drop 14 (concat (m_segs m))"
    "m_flags m' = m_flags m" "m_rxs m' = m_rxs m" by blast+
qed

text \<open>The header that encapsulation writes.\<close>

definition data_hdr :: "u8 list \<Rightarrow> macaddr \<Rightarrow> macaddr \<Rightarrow> bool" where
  "data_hdr wh dhost shost \<longleftrightarrow> length wh = ieee80211_hdrsize wh \<and> wh ! 0 AND 0x03 = 0 \<and> wh ! 0 AND 0x0c = 0x08 \<and>
     wh ! 1 AND 0x40 = 0 \<and> wh ! 1 AND 0x04 = 0 \<and> i_seq wh AND 0x0f = 0 \<and> ether_hosts wh = (dhost, shost) \<and>
     (wh ! 0 AND 0xf0 = 0 \<or> wh ! 0 AND 0xf0 = 0x80 \<and> ieee80211_getqos wh AND 0x80 = 0)"

lemma push_4_low: "push_bit 4 (x :: u16) AND 15 = 0"
proof -
  have "push_bit 4 x AND mask 4 = 0" unfolding take_bit_eq_mask [symmetric] take_bit_push_bit by simp
  then show ?thesis by (simp add: mask_eq_exp_minus_1)
qed

definition encap_wh :: "bool \<Rightarrow> u8 \<Rightarrow> u8 list \<Rightarrow> u16 \<Rightarrow> u8 list \<Rightarrow> u8 \<Rightarrow> u8 list" where
  "encap_wh addqos fc1 addrs seq addr4 q = [if addqos then 0x88 else 0x08, fc1, 0, 0] @ addrs @ [lo8 seq, hi8 seq] @ addr4 @
     (if addqos then [q, 0] else [])"

lemma encap_wh_hdr:
  assumes "tx_ok sys" "encap_addrs sys is4addr dhost shost = Some (dir, addrs, addr4)" "length dhost = 6" "length shost = 6"
    and "seq AND 15 = 0" "q AND 0x80 = 0" "fc1 = dir OR (if md then 0x20 else 0)" "is4addr = encap_is4addr sys shost"
  shows "data_hdr (encap_wh addqos fc1 addrs seq addr4 q) dhost shost"
    "length (encap_wh addqos fc1 addrs seq addr4 q) = 24 + (if addqos then 2 else 0) + (if is4addr then 6 else 0)"
proof -
  have b: "le16 (lo8 seq) (hi8 seq) = seq" by (simp add: byte_simps)
  have a: "length addrs = 18" "dir = 3 \<longleftrightarrow> is4addr" "length addr4 = (if is4addr then 6 else 0)"
    "dir = 0 \<or> dir = 1 \<or> dir = 2 \<or> dir = 3"
    using assms(1-4) by (auto simp: encap_addrs_def tx_ok_def split: if_splits)
  show l: "length (encap_wh addqos fc1 addrs seq addr4 q) = 24 + (if addqos then 2 else 0) + (if is4addr then 6 else 0)"
    by (simp add: encap_wh_def a)
  have h: "ether_hosts (encap_wh addqos fc1 addrs seq addr4 q) = (dhost, shost)"
    using assms(1-4,7)
    by (auto simp: encap_addrs_def tx_ok_def ether_hosts_def encap_wh_def i_addr1_def i_addr2_def i_addr3_def i_addr4_def
        split: if_splits)
  show "data_hdr (encap_wh addqos fc1 addrs seq addr4 q) dhost shost"
    unfolding data_hdr_def l h
    using a assms(5,6,7)
    by (auto simp: encap_wh_def i_seq_def nth_append b ieee80211_hdrsize_def ieee80211_getqos_def
        IEEE80211_IS_DSTODS_def IEEE80211_QOS_HAS_SEQ_def)
qed

lemma encap_write_eq:
  assumes ok: "tx_ok sys" and m: "m_segs m \<noteq> []" "14 \<le> length (mtod m)" "length eh = 14"
    and h: "hdrsize = 24 + (if addqos then 2 else 0) + (if is4addr then 6 else 0)" "hdrsize \<le> hdrspace"
      "is4addr = encap_is4addr sys (take 6 (drop 6 eh))"
    and p: "env_pre (tx_crypto sys) (splice (hd (m_adj_front (14 - 8) (m_segs m))) 0 (LLC_SNAP @ drop 12 eh) #
        tl (m_adj_front (14 - 8) (m_segs m))) hdrspace = Some segs"
    and a: "encap_addrs sys is4addr (take 6 eh) (take 6 (drop 6 eh)) = Some (dir, addrs, addr4)"
      "\<not> (addqos \<and> length (wmep_noackPolicy sys) \<le> ac)"
  shows "\<exists>wh pad m1 tx1 dl seq q sq. encap_write sys ac key addqos is4addr hdrsize hdrspace eh m tx =
      (case encap_finish sys key hdrsize dl m1 tx1 of None \<Rightarrow> None | Some (None, tx) \<Rightarrow> Some (None, tx)
       | Some (Some ms, tx) \<Rightarrow> Some (Some (ms, sq), tx)) \<and>
    data_hdr wh (take 6 eh) (take 6 (drop 6 eh)) \<and> length wh = hdrsize \<and> length (wh @ pad) = hdrspace \<and>
    concat (m_segs m1) = wh @ pad @ (LLC_SNAP @ drop 12 eh) @ drop 14 (concat (m_segs m)) \<and> m_segs m1 \<noteq> [] \<and>
    hdrspace \<le> length (mtod m1) \<and> m_flags m1 = m_flags m \<and> m_rxs m1 = m_rxs m \<and> tx_cn tx1 = tx_cn tx \<and>
    wh = encap_wh addqos (dir OR (if m_flags m AND M_MORE_DATA \<noteq> 0 then 0x20 else 0)) addrs seq addr4 q"
proof -
  let ?s0 = "m_adj_front (14 - 8) (m_segs m)" and ?llc = "LLC_SNAP @ drop 12 eh"
  let ?s1 = "splice (hd ?s0) 0 ?llc # tl ?s0"
  obtain s ss where ms: "m_segs m = s # ss" using m(1) by (cases "m_segs m") auto
  have l: "14 \<le> length s" using m(2) by (simp add: ms)
  have lc: "length ?llc = 8" using m(3) by (simp add: LLC_SNAP_def)
  have s1: "?s1 = (?llc @ drop 14 s) # ss" using l lc by (simp add: ms splice_def)
  obtain junk where segs: "segs \<noteq> []" "hdrspace \<le> length (hd segs)" "length junk = hdrspace" "concat segs = junk @ concat ?s1"
    using ok p(1) unfolding tx_ok_def m_prepends_def by blast
  define fc1 where "fc1 = dir OR (if m_flags m AND M_MORE_DATA \<noteq> 0 then 0x20 else (0 :: u8))"
  define q where "q = (WME_AC_TO_TID ac AND 0x0f) OR (if wmep_noackPolicy sys ! ac then 0x20 else 0)"
  obtain seq sq tx1 where e: "encap_seq addqos (unat (WME_AC_TO_TID ac)) (take 6 addrs) m tx = (seq, sq, tx1)"
    by (metis prod_cases3)
  define wh where "wh = encap_wh addqos fc1 addrs seq addr4 q"
  define m1 where "m1 = with_segs m (splice (hd segs) 0 wh # tl segs)"
  have f: "encap_write sys ac key addqos is4addr hdrsize hdrspace eh m tx =
      (case encap_finish sys key hdrsize (pktlen ?s1) m1 tx1 of None \<Rightarrow> None | Some (None, tx) \<Rightarrow> Some (None, tx)
       | Some (Some ms, tx) \<Rightarrow> Some (Some (ms, sq), tx))"
    unfolding encap_write_def Let_def p a(1) option.case prod.case if_not_P [OF a(2)] e m1_def wh_def encap_wh_def fc1_def q_def ..
  have sq: "seq AND 15 = 0" "tx_cn tx1 = tx_cn tx"
    using e push_4_low by (auto simp: encap_seq_def Let_def split: if_splits)
  have qq: "q AND 0x80 = 0" by (auto simp: q_def WME_AC_TO_TID_def)
  have hd: "data_hdr wh (take 6 eh) (take 6 (drop 6 eh))" "length wh = hdrsize"
    using encap_wh_hdr [OF ok a(1) _ _ sq(1) qq fc1_def h(3), of addqos] m(3) by (simp_all add: wh_def h(1))
  have "concat (m_segs m1) = wh @ drop hdrsize junk @ concat ?s1"
  proof -
    have "take hdrspace (concat segs) = take hdrspace (hd segs)" using segs(2) by (simp add: concat_hd_tl [OF segs(1)])
    then have "hd segs = junk @ drop hdrspace (hd segs)" using segs(3,4) by (metis append_eq_conv_conj append_take_drop_id)
    then have "splice (hd segs) 0 wh = wh @ drop hdrsize junk @ drop hdrspace (hd segs)"
      using hd(2) h(2) segs(3) by (metis (no_types, lifting) add_0 append_Nil drop_append diff_is_0_eq drop0 splice_def take0)
    moreover have "drop hdrspace (hd segs) @ concat (tl segs) = concat ?s1"
      using segs(2,3,4) concat_hd_tl [OF segs(1)] by (metis append_eq_conv_conj drop_append diff_is_0_eq drop0)
    ultimately show ?thesis by (simp add: m1_def with_segs_def)
  qed
  moreover have "hdrspace \<le> length (mtod m1)" using segs(2) hd(2) h(2) by (simp add: m1_def with_segs_def splice_def)
  moreover have "concat ?s1 = ?llc @ drop 14 (concat (m_segs m))" unfolding s1 using l by (simp add: ms)
  ultimately show ?thesis
    using f hd sq(2) segs(3) h(2)
    by (intro exI [of _ wh] exI [of _ "drop hdrsize junk"] exI [of _ m1] exI [of _ tx1] exI [of _ "pktlen ?s1"]
        exI [of _ seq] exI [of _ q] exI [of _ sq])
      (simp add: m1_def with_segs_def wh_def fc1_def)
qed

lemma encap_write_cases:
  assumes ok: "tx_ok sys" and w: "encap_write sys ac key addqos is4addr hdrsize hdrspace eh m tx = Some (Some (ms, seqno), tx')"
    and m: "m_segs m \<noteq> []" "14 \<le> length (mtod m)" "length eh = 14"
    and h: "hdrsize = 24 + (if addqos then 2 else 0) + (if is4addr then 6 else 0)" "hdrsize \<le> hdrspace"
      "is4addr = encap_is4addr sys (take 6 (drop 6 eh))"
  shows "\<exists>wh pad m1 tx1 dl dir addrs addr4 seq q. encap_finish sys key hdrsize dl m1 tx1 = Some (Some ms, tx') \<and>
    data_hdr wh (take 6 eh) (take 6 (drop 6 eh)) \<and> length wh = hdrsize \<and> length (wh @ pad) = hdrspace \<and>
    concat (m_segs m1) = wh @ pad @ (LLC_SNAP @ drop 12 eh) @ drop 14 (concat (m_segs m)) \<and> m_segs m1 \<noteq> [] \<and>
    hdrspace \<le> length (mtod m1) \<and> m_flags m1 = m_flags m \<and> m_rxs m1 = m_rxs m \<and> tx_cn tx1 = tx_cn tx \<and>
    encap_addrs sys is4addr (take 6 eh) (take 6 (drop 6 eh)) = Some (dir, addrs, addr4) \<and>
    wh = encap_wh addqos (dir OR (if m_flags m AND M_MORE_DATA \<noteq> 0 then 0x20 else 0)) addrs seq addr4 q"
proof -
  obtain segs where p: "env_pre (tx_crypto sys) (splice (hd (m_adj_front (14 - 8) (m_segs m))) 0 (LLC_SNAP @ drop 12 eh) #
        tl (m_adj_front (14 - 8) (m_segs m))) hdrspace = Some segs"
    using w by (auto simp: encap_write_def Let_def split: option.splits)
  obtain dir addrs addr4 where a: "encap_addrs sys is4addr (take 6 eh) (take 6 (drop 6 eh)) = Some (dir, addrs, addr4)"
    using w by (auto simp: encap_write_def Let_def p split: option.splits)
  have "\<not> (addqos \<and> length (wmep_noackPolicy sys) \<le> ac)"
  proof
    assume c: "addqos \<and> length (wmep_noackPolicy sys) \<le> ac"
    have "encap_write sys ac key addqos is4addr hdrsize hdrspace eh m tx = None"
      unfolding encap_write_def Let_def p a option.case prod.case if_P [OF c] ..
    with w show False by simp
  qed
  from encap_write_eq [OF ok m h p a this, of key tx]
  obtain wh pad m1 tx1 dl seq q sq where eq: "encap_write sys ac key addqos is4addr hdrsize hdrspace eh m tx =
      (case encap_finish sys key hdrsize dl m1 tx1 of None \<Rightarrow> None | Some (None, tx) \<Rightarrow> Some (None, tx)
       | Some (Some ms, tx) \<Rightarrow> Some (Some (ms, sq), tx))"
    and s: "data_hdr wh (take 6 eh) (take 6 (drop 6 eh)) \<and> length wh = hdrsize \<and> length (wh @ pad) = hdrspace \<and>
    concat (m_segs m1) = wh @ pad @ (LLC_SNAP @ drop 12 eh) @ drop 14 (concat (m_segs m)) \<and> m_segs m1 \<noteq> [] \<and>
    hdrspace \<le> length (mtod m1) \<and> m_flags m1 = m_flags m \<and> m_rxs m1 = m_rxs m \<and> tx_cn tx1 = tx_cn tx \<and>
    wh = encap_wh addqos (dir OR (if m_flags m AND M_MORE_DATA \<noteq> 0 then 0x20 else 0)) addrs seq addr4 q" by blast
  have "encap_finish sys key hdrsize dl m1 tx1 = Some (Some ms, tx')"
    using w unfolding eq by (auto split: option.splits prod.splits)
  with s a show ?thesis by blast
qed

text \<open>The frame of an encapsulated Ethernet frame before protection and fragmentation.\<close>

definition encapsulates :: "'c tx_sys \<Rightarrow> u32 \<Rightarrow> mbuf \<Rightarrow> u8 list \<Rightarrow> u8 list \<Rightarrow> mbuf \<Rightarrow> bool" where
  "encapsulates sys f m wh pad m1 \<longleftrightarrow> (let E = concat (m_segs m) in
     data_hdr wh (take 6 E) (take 6 (drop 6 E)) \<and> length (wh @ pad) = ieee80211_hdrspace f wh \<and>
     concat (m_segs m1) = wh @ pad @ (LLC_SNAP @ take 2 (drop 12 E)) @ drop 14 E \<and> m_segs m1 \<noteq> [] \<and>
     length (wh @ pad) \<le> length (mtod m1) \<and> m_flags m1 = m_flags m \<and> m_rxs m1 = m_rxs m \<and>
     (iv_opmode sys = M_HOSTAP \<and> iv_flags_ext sys AND FEXT_4ADDR = 0 \<longrightarrow>
       wh ! 1 AND 3 = 2 \<and> i_addr1 wh = take 6 E \<and> i_addr2 wh = tx_bssid sys \<and> i_addr3 wh = take 6 (drop 6 E)))"

text \<open>The values that \<open>ieee80211_encap\<close> computes before it touches the frame.\<close>

definition encap_vals :: "'c tx_sys \<Rightarrow> mbuf \<Rightarrow> u32 \<Rightarrow> u8 list \<Rightarrow> bool \<Rightarrow> bool \<Rightarrow> nat \<Rightarrow> nat \<Rightarrow> bool" where
  "encap_vals sys m f eh addqos is4addr hdrsize hdrspace \<longleftrightarrow> eh = take 14 (mtod m) \<and> addqos = encap_addqos sys m \<and>
     is4addr = encap_is4addr sys (take 6 (drop 6 eh)) \<and>
     hdrsize = 24 + (if addqos then 2 else 0) + (if is4addr then 6 else 0) \<and>
     hdrspace = (if f AND 0x00080000 \<noteq> 0 then roundup hdrsize 4 else hdrsize)"

lemma encap_valsI: "\<exists>eh addqos is4addr hdrsize hdrspace. encap_vals sys m f eh addqos is4addr hdrsize hdrspace"
  by (simp add: encap_vals_def)

lemma encap_vals_facts:
  assumes "encap_vals sys m f eh addqos is4addr hdrsize hdrspace" "14 \<le> length (mtod m)" "m_segs m \<noteq> []"
  shows "take 6 eh = take 6 (concat (m_segs m))" "take 6 (drop 6 eh) = take 6 (drop 6 (concat (m_segs m)))"
    "drop 12 eh = take 2 (drop 12 (concat (m_segs m)))" "length eh = 14" "hdrsize \<le> hdrspace"
    "is4addr = encap_is4addr sys (take 6 (drop 6 eh))" "hdrsize = 24 + (if addqos then 2 else 0) + (if is4addr then 6 else 0)"
proof -
  have E: "take 14 (concat (m_segs m)) = eh" using assms by (simp add: encap_vals_def concat_hd_tl)
  show "take 6 eh = take 6 (concat (m_segs m))" "take 6 (drop 6 eh) = take 6 (drop 6 (concat (m_segs m)))"
    "drop 12 eh = take 2 (drop 12 (concat (m_segs m)))" "length eh = 14"
    using assms(2) by (simp_all add: E [symmetric] drop_take concat_hd_tl [OF assms(3)])
  show "hdrsize \<le> hdrspace" "is4addr = encap_is4addr sys (take 6 (drop 6 eh))"
    "hdrsize = 24 + (if addqos then 2 else 0) + (if is4addr then 6 else 0)"
    using assms(1) by (auto simp: encap_vals_def roundup_def)
qed

lemma encap_eq:
  assumes "encap_vals sys m (ic_flags (cn_vap (tx_cn tx))) eh addqos is4addr hdrsize hdrspace" "14 \<le> length (mtod m)"
    and "encap_key sys (take 6 eh) (tx_cn tx) = Some key"
  shows "ieee80211_encap sys ac m tx =
      (if iv_flags (cn_vap (tx_cn tx)) AND F_TX_PRIVACY \<noteq> 0 \<and> key = None \<and> m_flags m AND M_EAPOL = 0
       then Some (None, tx_free [m] (tx_vap (stat (\<lambda>s. s\<lparr>is_tx_nodefkey := is_tx_nodefkey s + 1\<rparr>)) tx))
       else if (case key of None \<Rightarrow> False | Some r \<Rightarrow> key_template (fst (key_of (tx_cn tx) r)) = None) then None
       else if m_flags m AND M_FF \<noteq> 0 then Some (None, tx_free [m] tx)
       else case ieee80211_mbuf_adjust sys hdrspace key m tx of
           (None, tx) \<Rightarrow> Some (None, tx)
         | (Some m, tx) \<Rightarrow> encap_write sys ac key addqos is4addr hdrsize hdrspace eh m tx)"
proof -
  note v = assms(1) [unfolded encap_vals_def]
  have e: "take 14 (mtod m) = eh" and q: "encap_addqos sys m = addqos" "encap_is4addr sys (take 6 (drop 6 eh)) = is4addr"
    and h: "24 + (if addqos then 2 else 0) + (if is4addr then 6 else 0) = hdrsize"
      "(if ic_flags (cn_vap (tx_cn tx)) AND 0x00080000 \<noteq> 0 then roundup hdrsize 4 else hdrsize) = hdrspace"
    using v by (simp_all only: simp_thms)
  show ?thesis unfolding ieee80211_encap_def Let_def e assms(3) q h using assms(2) by simp
qed

lemma encapsulates_intro:
  assumes ok: "tx_ok sys" and v: "encap_vals sys m f eh addqos is4addr hdrsize hdrspace" "14 \<le> length (mtod m)" "m_segs m \<noteq> []"
    and s: "drop 14 (concat (m_segs m2)) = drop 14 (concat (m_segs m))" "m_flags m2 = m_flags m" "m_rxs m2 = m_rxs m"
    and r: "data_hdr wh (take 6 eh) (take 6 (drop 6 eh))" "length wh = hdrsize" "length (wh @ pad) = hdrspace"
      "concat (m_segs m1) = wh @ pad @ (LLC_SNAP @ drop 12 eh) @ drop 14 (concat (m_segs m2))" "m_segs m1 \<noteq> []"
      "hdrspace \<le> length (mtod m1)" "m_flags m1 = m_flags m2" "m_rxs m1 = m_rxs m2"
    and x: "encap_addrs sys is4addr (take 6 eh) (take 6 (drop 6 eh)) = Some (dir, addrs, addr4)"
      "wh = encap_wh addqos (dir OR (if m_flags m2 AND M_MORE_DATA \<noteq> 0 then 0x20 else 0)) addrs seq addr4 q"
  shows "encapsulates sys f m wh pad m1"
proof -
  note d = encap_vals_facts [OF v]
  have sp: "ieee80211_hdrspace f wh = hdrspace"
    using r(1,2) v(1) by (simp add: ieee80211_hdrspace_def encap_vals_def data_hdr_def)
  have ap: "iv_opmode sys = M_HOSTAP \<and> iv_flags_ext sys AND FEXT_4ADDR = 0 \<longrightarrow>
    wh ! 1 AND 3 = 2 \<and> i_addr1 wh = take 6 eh \<and> i_addr2 wh = tx_bssid sys \<and> i_addr3 wh = take 6 (drop 6 eh)"
    using x ok d(4,6)
    by (auto simp: encap_addrs_def encap_is4addr_def encap_wh_def tx_ok_def i_addr1_def i_addr2_def i_addr3_def
        split: if_splits)
  show ?thesis using r s ap sp by (simp add: encapsulates_def Let_def d(1-4))
qed

lemma encap_cases:
  assumes ok: "tx_ok sys" and e: "ieee80211_encap sys ac m tx = Some (Some (ms, seqno), tx')" and m: "m_segs m \<noteq> []"
  defines "f \<equiv> ic_flags (cn_vap (tx_cn tx))"
  shows "\<exists>key wh pad m1 tx1 dl. encap_key sys (take 6 (concat (m_segs m))) (tx_cn tx) = Some key \<and>
    (iv_flags (cn_vap (tx_cn tx)) AND F_TX_PRIVACY \<noteq> 0 \<longrightarrow> m_flags m AND M_EAPOL = 0 \<longrightarrow> key \<noteq> None) \<and>
    (\<forall>r. key = Some r \<longrightarrow> key_template (fst (key_of (tx_cn tx) r)) \<noteq> None) \<and>
    encapsulates sys f m wh pad m1 \<and> tx_cn tx1 = tx_cn tx \<and>
    encap_finish sys key (length wh) dl m1 tx1 = Some (Some ms, tx')"
proof -
  have l: "14 \<le> length (mtod m)" using e by (auto simp: ieee80211_encap_def split: if_splits)
  obtain eh addqos is4addr hdrsize hdrspace where v: "encap_vals sys m f eh addqos is4addr hdrsize hdrspace"
    using encap_valsI [of sys m f] by auto
  note d = encap_vals_facts [OF v l m]
  have "encap_key sys (take 6 (take 14 (mtod m))) (tx_cn tx) \<noteq> None"
    using e l by (auto simp: ieee80211_encap_def Let_def split: option.splits)
  then obtain key where k: "encap_key sys (take 6 eh) (tx_cn tx) = Some key"
    using v by (auto simp: encap_vals_def)
  obtain m2 tx2 where a: "ieee80211_mbuf_adjust sys hdrspace key m tx = (Some m2, tx2)"
    and w: "encap_write sys ac key addqos is4addr hdrsize hdrspace eh m2 tx2 = Some (Some (ms, seqno), tx')"
    and g: "iv_flags (cn_vap (tx_cn tx)) AND F_TX_PRIVACY \<noteq> 0 \<longrightarrow> m_flags m AND M_EAPOL = 0 \<longrightarrow> key \<noteq> None"
      "\<forall>r. key = Some r \<longrightarrow> key_template (fst (key_of (tx_cn tx) r)) \<noteq> None"
    using e unfolding encap_eq [OF v [unfolded f_def] l k] by (auto split: option.splits if_splits prod.splits)
  note s = mbuf_adjust_shape [OF ok a m l]
  obtain wh pad m1 tx1 dl dir addrs addr4 seq q where
    r: "encap_finish sys key hdrsize dl m1 tx1 = Some (Some ms, tx')"
      "data_hdr wh (take 6 eh) (take 6 (drop 6 eh))" "length wh = hdrsize" "length (wh @ pad) = hdrspace"
      "concat (m_segs m1) = wh @ pad @ (LLC_SNAP @ drop 12 eh) @ drop 14 (concat (m_segs m2))" "m_segs m1 \<noteq> []"
      "hdrspace \<le> length (mtod m1)" "m_flags m1 = m_flags m2" "m_rxs m1 = m_rxs m2" "tx_cn tx1 = tx_cn tx2"
    and x: "encap_addrs sys is4addr (take 6 eh) (take 6 (drop 6 eh)) = Some (dir, addrs, addr4)"
      "wh = encap_wh addqos (dir OR (if m_flags m2 AND M_MORE_DATA \<noteq> 0 then 0x20 else 0)) addrs seq addr4 q"
    using encap_write_cases [OF ok w s(2,3) d(4) d(7,5,6)] by blast
  have "encapsulates sys f m wh pad m1" by (rule encapsulates_intro [OF ok v l m s(4-6) r(2-9) x])
  then show ?thesis using k g r(1,3,10) s(1)
    by (intro exI [of _ key] exI [of _ wh] exI [of _ pad] exI [of _ m1] exI [of _ tx1] exI [of _ dl]) (simp add: d)
qed

section \<open>Protection and fragmentation\<close>

abbreviation enc_flags :: "bool \<Rightarrow> u32" where "enc_flags mcast \<equiv> M_ENCAP OR (if mcast then M_MCAST else 0)"

lemma finish_cases:
  assumes "encap_finish sys key hdrsize dl m tx = Some (Some ms, tx')"
  shows "\<exists>m1 tx1. encap_protect sys key (encap_txfrag sys m) m tx = Some (True, m1, tx1) \<and>
    (\<not> encap_txfrag sys m \<and> ms = [m1\<lparr>m_flags := m_flags m1 OR enc_flags (IEEE80211_IS_MULTICAST (i_addr1 (mtod m)))\<rparr>] \<or>
     encap_txfrag sys m \<and>
     (\<exists>m2 fs tx2. ieee80211_fragment sys m1 hdrsize
         (case key of None \<Rightarrow> 0 | Some r \<Rightarrow> ic_header (key_tmpl (tx_cn tx1) r)) (iv_fragthreshold sys) tx1 = Some (True, m2 # fs, tx2) \<and>
       ms = m2\<lparr>m_flags := m_flags m2 OR enc_flags False\<rparr> # fs))"
proof -
  let ?mc = "IEEE80211_IS_MULTICAST (i_addr1 (mtod m))"
  obtain m1 tx1 where p: "encap_protect sys key (encap_txfrag sys m) m tx = Some (True, m1, tx1)"
    using assms by (auto simp: encap_finish_def Let_def split: option.splits bool.splits)
  let ?ch = "case key of None \<Rightarrow> 0 | Some r \<Rightarrow> ic_header (key_tmpl (tx_cn tx1) r)"
  obtain ms0 tx2 where f: "(if encap_txfrag sys m then ieee80211_fragment sys m1 hdrsize ?ch (iv_fragthreshold sys) tx1
      else Some (True, [m1], tx1)) = Some (True, ms0, tx2)"
    and ms: "ms = (hd ms0)\<lparr>m_flags := m_flags (hd ms0) OR enc_flags ?mc\<rparr> # tl ms0"
    using assms unfolding encap_finish_def Let_def p option.case prod.case bool.case
    by (auto split: option.splits bool.splits)
  have "ms0 \<noteq> []" using f by (auto simp: ieee80211_fragment_def Let_def split: if_splits option.splits)
  then obtain m2 fs where ms0: "ms0 = m2 # fs" by (cases ms0) auto
  have "encap_txfrag sys m \<longrightarrow> \<not> ?mc" by (simp add: encap_txfrag_def)
  then show ?thesis
    using p f ms unfolding ms0 by (cases "encap_txfrag sys m") auto
qed

lemma protect_shape:
  assumes "encap_protect sys key txfrag m tx = Some (True, m1, tx1)"
    and "\<And>r. key = Some r \<Longrightarrow> key_template (fst (key_of (tx_cn tx) r)) \<noteq> None"
    and "\<And>r. key = Some r \<Longrightarrow> wk_cipher (fst (key_of (tx_cn tx) r)) \<noteq> CIPHER_TKIP"
  shows "m1 = m \<or> m1 = hdr_update set_protected m" "key \<noteq> None \<Longrightarrow> m_flags m AND M_EAPOL = 0 \<Longrightarrow> m1 = hdr_update set_protected m"
proof -
  have e: "ieee80211_crypto_enmic (tx_crypto sys) txfrag (v, key_of (tx_cn tx) r, x) = Some (True, v, key_of (tx_cn tx) r, x)"
    if r: "key = Some r" for r v x
  proof -
    obtain k ctx where kc: "key_of (tx_cn tx) r = (k, ctx)" by fastforce
    obtain c where c: "key_template k = Some c" using assms(2) [OF r] kc by auto
    then have "ic_miclen c = 0" using assms(3) [OF r] kc
      by (auto simp: key_template_def wep_template_def ccmp_template_def ieee80211_cipher_none_def split: if_splits)
    then show ?thesis by (simp add: ieee80211_crypto_enmic_def kc c)
  qed
  show "m1 = m \<or> m1 = hdr_update set_protected m" "key \<noteq> None \<Longrightarrow> m_flags m AND M_EAPOL = 0 \<Longrightarrow> m1 = hdr_update set_protected m"
    using assms(1) e by (auto simp: encap_protect_def Let_def split: option.splits if_splits)
qed

lemma fragment_loop_more:
  assumes "fragment_loop sys wh pad th mtu segs n off rem fs0 = Some y" "fst y = Some fs"
  shows "length fs0 < length fs"
proof -
  have "\<forall>fs. fst y = Some fs \<longrightarrow> length fs0 < length fs"
  proof (rule fragment_loop.raw_induct [OF _ assms(1), where P = "\<lambda>sys wh pad th mtu segs n off rem fs0 y. \<forall>fs. fst y = Some fs \<longrightarrow> length fs0 < length fs"])
    fix loop :: "'a tx_sys \<Rightarrow> u8 list \<Rightarrow> nat \<Rightarrow> nat \<Rightarrow> nat \<Rightarrow> u8 list list \<Rightarrow> nat \<Rightarrow> nat \<Rightarrow> nat \<Rightarrow> mbuf list
     \<Rightarrow> (mbuf list option \<times> mbuf list) option"
    fix sys wh pad totalhdrsize mtu segs fragno off remainder fs y
    assume IH: "\<And>sys wh pad th mtu segs n off rem fs0 y. loop sys wh pad th mtu segs n off rem fs0 = Some y \<Longrightarrow>
        \<forall>fs. fst y = Some fs \<longrightarrow> length fs0 < length fs"
      and e: "(if \<not> m_get2 sys fragno then Some (None, fs)
      else
        let payload = min (totalhdrsize + remainder) mtu - totalhdrsize;
            hdr = FRAGMENT wh fragno @ tx_junk sys pad
        in if mtu < totalhdrsize then None
           else case m_copydata segs off payload of
             None \<Rightarrow> None
           | Some bs \<Rightarrow>
               if remainder - payload = 0 then
                 Some (Some (fs @ [\<lparr>m_segs = [hdr[1 := hdr ! 1 AND NOT FC1_MORE_FRAG] @ bs], m_rxs = None,
                   m_flags = M_FRAG OR M_LASTFRAG\<rparr>]), [])
               else loop sys wh pad totalhdrsize mtu segs (fragno + 1) (off + payload)
                 (remainder - payload) (fs @ [\<lparr>m_segs = [hdr @ bs], m_rxs = None, m_flags = M_FRAG\<rparr>])) = Some y"
    show "\<forall>fs'. fst y = Some fs' \<longrightarrow> length fs < length fs'"
      using e IH by (auto simp: Let_def split: if_splits option.splits dest!: IH)
  qed
  then show ?thesis using assms(2) by blast
qed

lemma fragment_more:
  assumes "ieee80211_fragment sys m hs ch mtu tx = Some (True, ms, tx')"
  shows "2 \<le> length ms"
proof -
  obtain wh pad th segs n off rem y fs m0 where "fragment_loop sys wh pad th mtu segs n off rem [] = Some y" "fst y = Some fs"
    and ms: "ms = m0 # fs"
    using assms by (fastforce simp: ieee80211_fragment_def Let_def split: if_splits option.splits)
  from fragment_loop_more [OF this(1,2)] show ?thesis by (simp add: ms Suc_le_eq)
qed

section \<open>The header with the protected bit\<close>

lemma set_protected_append: "2 \<le> length wh \<Longrightarrow> set_protected (wh @ z) = set_protected wh @ z"
  by (simp add: set_protected_def nth_append list_update_append)

lemma set_protected_hdr:
  assumes "2 \<le> length wh"
  shows "ether_hosts (set_protected wh) = ether_hosts wh" "ieee80211_hdrsize (set_protected wh) = ieee80211_hdrsize wh"
    "length (set_protected wh) = length wh" "set_protected wh ! 0 = wh ! 0" "set_protected wh ! 1 AND 3 = wh ! 1 AND 3"
    "i_addr1 (set_protected wh) = i_addr1 wh" "i_addr2 (set_protected wh) = i_addr2 wh" "i_addr3 (set_protected wh) = i_addr3 wh"
    "ieee80211_getqos (set_protected wh) = ieee80211_getqos wh" "set_protected wh ! 1 AND 0x40 \<noteq> 0"
proof -
  have b: "(x OR 64) AND 3 = x AND (3 :: u8)" for x by (simp add: bit.conj_disj_distrib2)
  have "(x OR 64) AND 64 = (64 :: u8)" for x by (rule bit_word_eqI) (auto simp: bit_simps)
  then show "set_protected wh ! 1 AND 0x40 \<noteq> 0" using assms by (simp add: set_protected_def)
  show "ether_hosts (set_protected wh) = ether_hosts wh" "ieee80211_hdrsize (set_protected wh) = ieee80211_hdrsize wh"
    "length (set_protected wh) = length wh" "set_protected wh ! 0 = wh ! 0" "set_protected wh ! 1 AND 3 = wh ! 1 AND 3"
    "i_addr1 (set_protected wh) = i_addr1 wh" "i_addr2 (set_protected wh) = i_addr2 wh" "i_addr3 (set_protected wh) = i_addr3 wh"
    "ieee80211_getqos (set_protected wh) = ieee80211_getqos wh"
    using assms b
    by (simp_all add: set_protected_def ether_hosts_def Let_def i_addr1_def i_addr2_def i_addr3_def i_addr4_def
        drop_update_cancel ieee80211_hdrsize_def ieee80211_getqos_def IEEE80211_IS_DSTODS_def IEEE80211_QOS_HAS_SEQ_def)
qed

lemma ether_hosts_append:
  assumes "ieee80211_hdrsize wh \<le> length wh"
  shows "ether_hosts (wh @ z) = ether_hosts wh"
proof -
  have "same_hdr wh (wh @ z)" using same_hdr_append [OF assms order_refl, of z] by simp
  moreover have "(wh @ z) ! 1 = wh ! 1" using hdr_append(2) [OF assms] .
  ultimately show ?thesis using hdr_append(3-5) [OF assms] same_hdr_addr(4) [of wh "wh @ z"]
    and_3_cases [of "wh ! 1"]
    by (auto simp: ether_hosts_def Let_def IEEE80211_IS_DSTODS_def)
qed

text \<open>The frame as it is sent, with the bit or without.\<close>

definition sent_hdr :: "bool \<Rightarrow> u8 list \<Rightarrow> u8 list" where
  "sent_hdr p wh = (if p then set_protected wh else wh)"

lemma sent_hdr_facts:
  assumes "2 \<le> length wh"
  shows "ether_hosts (sent_hdr p wh) = ether_hosts wh" "ieee80211_hdrsize (sent_hdr p wh) = ieee80211_hdrsize wh"
    "length (sent_hdr p wh) = length wh" "sent_hdr p wh ! 0 = wh ! 0" "sent_hdr p wh ! 1 AND 3 = wh ! 1 AND 3"
    "i_addr1 (sent_hdr p wh) = i_addr1 wh" "i_addr2 (sent_hdr p wh) = i_addr2 wh" "i_addr3 (sent_hdr p wh) = i_addr3 wh"
    "ieee80211_getqos (sent_hdr p wh) = ieee80211_getqos wh"
  using set_protected_hdr [OF assms] by (simp_all add: sent_hdr_def)

lemma encapsulates_len: "encapsulates sys f m wh pad m1 \<Longrightarrow> 24 \<le> length wh"
  by (auto simp: encapsulates_def data_hdr_def ieee80211_hdrsize_def Let_def split: if_splits)

lemma sent_frame:
  assumes "encapsulates sys f m wh pad m1" "m2 = m1 \<or> m2 = hdr_update set_protected m1"
  defines "E \<equiv> concat (m_segs m)"
  shows "\<exists>p. concat (m_segs m2) = sent_hdr p wh @ pad @ (LLC_SNAP @ take 2 (drop 12 E)) @ drop 14 E \<and> m_segs m2 \<noteq> [] \<and>
    take (length (wh @ pad)) (mtod m2) = sent_hdr p wh @ pad \<and> length (wh @ pad) \<le> length (mtod m2) \<and>
    (m2 = hdr_update set_protected m1 \<longrightarrow> p) \<and> tl (m_segs m2) = tl (m_segs m1) \<and> m_flags m2 = m_flags m1 \<and> m_rxs m2 = m_rxs m1"
proof -
  note l = encapsulates_len [OF assms(1)]
  have c: "concat (m_segs m1) = wh @ pad @ (LLC_SNAP @ take 2 (drop 12 E)) @ drop 14 E" and s: "m_segs m1 \<noteq> []"
    "length (wh @ pad) \<le> length (mtod m1)"
    using assms(1) by (simp_all add: encapsulates_def E_def Let_def)
  obtain z where z: "mtod m1 = wh @ pad @ z" "z @ concat (tl (m_segs m1)) = (LLC_SNAP @ take 2 (drop 12 E)) @ drop 14 E"
    using append_prefix [of "mtod m1" "concat (tl (m_segs m1))" "wh @ pad"] c s(2) concat_hd_tl [OF s(1)] by auto
  have u: "concat (m_segs (hdr_update set_protected m1)) = set_protected wh @ pad @ (LLC_SNAP @ take 2 (drop 12 E)) @ drop 14 E"
    "mtod (hdr_update set_protected m1) = set_protected wh @ pad @ z"
    using l by (simp_all add: hdr_update_def z set_protected_append)
  from assms(2) show ?thesis
  proof
    assume "m2 = m1"
    moreover have "m1 \<noteq> hdr_update set_protected m1"
    proof
      assume "m1 = hdr_update set_protected m1"
      then have "wh @ pad @ z = set_protected wh @ pad @ z" using z(1) u(2) by simp
      then have "wh = set_protected wh" using set_protected_hdr(3) [of wh] l by simp
      then show False using set_protected_hdr(10) [of wh] assms(1) l by (simp add: encapsulates_def data_hdr_def Let_def)
    qed
    ultimately show ?thesis using c s z(1) by (intro exI [of _ False]) (simp add: sent_hdr_def)
  next
    assume "m2 = hdr_update set_protected m1"
    then show ?thesis using u l set_protected_hdr(3) [of wh]
      by (intro exI [of _ True]) (simp add: sent_hdr_def hdr_update_def)
  qed
qed

section \<open>There and back\<close>

text \<open>
  C6. The receiver's decapsulation undoes encapsulation: if \<open>ieee80211_encap\<close> makes one frame
  of an Ethernet frame, in whatever mode, with or without QoS, a fourth address and padding,
  and with whatever mbufs, then \<open>ieee80211_decap\<close> makes of these bytes the Ethernet frame that
  was sent, byte for byte. (The frames of the two protocols that are sent with their own LLC
  header are excepted, and so is TKIP, whose MIC is removed before.)
\<close>

theorem encap_decap:
  assumes ok: "tx_ok sys" and e: "ieee80211_encap sys ac m tx = Some (Some ([m1], seqno), tx')" "m_segs m \<noteq> []"
    and E: "E = concat (m_segs m)" "take 2 (drop 12 E) \<noteq> be16 0x80f3" "take 2 (drop 12 E) \<noteq> be16 0x8137"
    and k: "\<And>r. encap_key sys (take 6 E) (tx_cn tx) = Some (Some r) \<Longrightarrow> wk_cipher (fst (key_of (tx_cn tx) r)) \<noteq> CIPHER_TKIP"
    and h: "h = ieee80211_hdrspace (ic_flags (cn_vap (tx_cn tx))) (mtod m1)"
    and rx: "pullups pull" "\<forall>s n. n \<le> pktlen s \<longrightarrow> pull s n \<noteq> None" "m_segs mr \<noteq> []"
      "concat (m_segs mr) = concat (m_segs m1)" "qos AND 0x80 = 0"
  shows "\<exists>m'. ieee80211_decap pull mr h qos (v, ni) = (Some m', v, ni) \<and> concat (m_segs m') = E"
proof -
  obtain key wh pad m0 tx0 dl where key: "encap_key sys (take 6 E) (tx_cn tx) = Some key"
      "\<And>r. key = Some r \<Longrightarrow> key_template (fst (key_of (tx_cn tx) r)) \<noteq> None"
    and enc: "encapsulates sys (ic_flags (cn_vap (tx_cn tx))) m wh pad m0" "tx_cn tx0 = tx_cn tx"
      "encap_finish sys key (length wh) dl m0 tx0 = Some (Some [m1], tx')"
    using encap_cases [OF ok e] unfolding E(1) by blast
  obtain m2 tx2 where p: "encap_protect sys key (encap_txfrag sys m0) m0 tx0 = Some (True, m2, tx2)"
    and m1: "m_segs m1 = m_segs m2"
    using finish_cases [OF enc(3)] fragment_more by fastforce
  have "m2 = m0 \<or> m2 = hdr_update set_protected m0"
    by (rule protect_shape(1) [OF p]) (use key k enc(2) in auto)
  from sent_frame [OF enc(1) this] obtain b where
    b: "concat (m_segs m2) = sent_hdr b wh @ pad @ (LLC_SNAP @ take 2 (drop 12 E)) @ drop 14 E" "m_segs m2 \<noteq> []"
      "take (length (wh @ pad)) (mtod m2) = sent_hdr b wh @ pad" "length (wh @ pad) \<le> length (mtod m2)"
    unfolding E(1) by blast
  have l2: "2 \<le> length wh" using encapsulates_len [OF enc(1)] by simp
  note s = sent_hdr_facts [OF l2, of b]
  have d: "length wh = ieee80211_hdrsize wh" "ether_hosts wh = (take 6 E, take 6 (drop 6 E))"
    "length (wh @ pad) = ieee80211_hdrspace (ic_flags (cn_vap (tx_cn tx))) wh"
    using enc(1) by (simp_all add: encapsulates_def data_hdr_def Let_def E(1))
  let ?w = "sent_hdr b wh @ pad"
  have hz: "ieee80211_hdrsize (sent_hdr b wh) \<le> length (sent_hdr b wh)" using d(1) s by simp
  note a = hdr_append [OF hz]
  have lw: "length ?w = h"
  proof -
    have "mtod m2 = ?w @ drop (length (wh @ pad)) (mtod m2)" using b(3) append_take_drop_id by metis
    then have "ieee80211_hdrsize (mtod m2) = ieee80211_hdrsize wh" using a(6) s(2) by (metis append.assoc)
    then show ?thesis using d(3) s(3) by (simp add: h m1 ieee80211_hdrspace_def)
  qed
  have len: "14 \<le> length E"
  proof -
    have "length (take 6 E) = 6" "length (take 6 (drop 6 E)) = 6" "length (take 2 (drop 12 E)) = 2"
      using enc(1) e(1) concat_hd_tl [OF e(2)] by (auto simp: E(1) ieee80211_encap_def split: if_splits)
    then show ?thesis by auto
  qed
  have llc: "length (LLC_SNAP @ take 2 (drop 12 E)) = 8" using len by (simp add: LLC_SNAP_def)
  have "h + 8 \<le> pktlen (m_segs mr)" unfolding pktlen_def rx(4) m1 b(1) using lw llc by simp
  then have "pull_hdr pull (h + 8) mr \<noteq> None" using rx(2) by (auto simp: pull_hdr_def)
  then obtain mp where mp: "pull_hdr pull (h + 8) mr = Some mp" by blast
  have c: "concat (m_segs mr) = ?w @ (LLC_SNAP @ take 2 (drop 12 E)) @ drop 14 E" unfolding rx(4) m1 b(1) by simp
  have "ieee80211_hdrsize ?w \<le> h" using a(6) hz lw s(3) by simp
  from decap_frame [OF rx(1,3) c lw this llc mp]
  obtain m' where m': "ieee80211_decap pull mr h qos (v, ni) = (Some m', v, ni)"
    "concat (m_segs m') = ether_frame ?w (LLC_SNAP @ take 2 (drop 12 E)) (drop 14 E) qos" by blast
  have "llc_stripped (LLC_SNAP @ take 2 (drop 12 E)) qos"
    using E(2,3) rx(5) len by (simp add: llc_stripped_def LLC_SNAP_def)
  moreover have "ether_hosts ?w = (take 6 E, take 6 (drop 6 E))" using ether_hosts_append [OF hz] s(1) d(2) by simp
  ultimately have "ether_frame ?w (LLC_SNAP @ take 2 (drop 12 E)) (drop 14 E) qos =
      take 6 E @ take 6 (drop 6 E) @ take 2 (drop 12 E) @ drop 14 E"
    by (simp add: ether_frame_def LLC_SNAP_def)
  also have "\<dots> = E"
  proof -
    have "drop 6 E = take 6 (drop 6 E) @ drop 12 E" "drop 12 E = take 2 (drop 12 E) @ drop 14 E"
      using append_take_drop_id [of 6 "drop 6 E"] append_take_drop_id [of 2 "drop 12 E"] by simp_all
    then show ?thesis by (metis append_take_drop_id)
  qed
  finally show ?thesis using m' by auto
qed

text \<open>A sender whose mbufs have no room in front; frames of more than \<open>thr\<close> octets are fragmented.\<close>

definition ex_tx_sys :: "ieee80211_opmode \<Rightarrow> nat \<Rightarrow> u8 list tx_sys" where
  "ex_tx_sys mode thr = \<lparr>tx_crypto = ex_env, M_LEADINGSPACE = \<lambda>_. 0, m_unshare = \<lambda>s. Some [concat s], m_gethdr = True,
     m_get2 = \<lambda>_. True, tx_junk = \<lambda>n. replicate n 0xee, ic_headroom = 0, iv_opmode = mode, iv_flags_ext = 0,
     ic_flags_ext = 0, iv_caps = C_TXFRAG, iv_fragthreshold = thr, iv_myaddr = [6, 6, 6, 6, 6, 6],
     bss_bssid = [4, 4, 4, 4, 4, 4], tx_macaddr = [4, 4, 4, 4, 4, 4], tx_bssid = [4, 4, 4, 4, 4, 4],
     tx_ni_flags = NODE_QOS, tx_vlan = 0, wmep_acm = replicate 4 False, wmep_noackPolicy = replicate 4 False\<rparr>"

definition ex_tx :: "u8 list tx" where
  "ex_tx = \<lparr>tx_cn = (ex_node 8)\<lparr>cn_vap := ex_vap\<lparr>iv_flags := F_TX_PRIVACY\<rparr>\<rparr>, ni_txseqs = replicate 17 7,
     tx_st = \<lparr>is_tx_nobuf = 0, is_crypto_enmicfail = 0, is_tx_fragframes = 0, is_tx_frags = 0, ns_tx_data = 0,
       ns_tx_mcast = 0, ns_tx_ucast = 0, ns_tx_bytes = 0, ns_tx_novlantag = 0, ns_tx_vlanmismatch = 0\<rparr>,
     tx_freed = []\<rparr>"

text \<open>An IP packet of \<open>n\<close> octets, broadcast or to one host.\<close>

definition ex_eth :: "bool \<Rightarrow> nat \<Rightarrow> mbuf" where
  "ex_eth bc n = \<lparr>m_segs = [replicate 6 (if bc then 255 else 2) @ [6, 6, 6, 6, 6, 6, 8, 0], map word_of_nat [0..<n]],
     m_rxs = None, m_flags = if bc then M_MCAST else 0\<rparr>"

lemma ex_tx_ok: "tx_ok (ex_tx_sys mode thr)" "appends (env_app (tx_crypto (ex_tx_sys mode thr)))"
proof -
  have "unshares (\<lambda>s. Some [concat s])"
    by (auto simp: unshares_def) (metis concat.simps(2) length_append list.collapse trans_le_add1)
  then show "tx_ok (ex_tx_sys mode thr)" "appends (env_app (tx_crypto (ex_tx_sys mode thr)))"
    by (simp_all add: tx_ok_def ex_tx_sys_def ex_env_def prepends_front prepends_m_prepends appends_at_end)
qed

lemma ex_encap_run:
  "map_option (\<lambda>(r, _). map_option (\<lambda>(ms, sq). (map (concat \<circ> m_segs) ms, sq)) r)
     (ieee80211_encap (ex_tx_sys M_STA 2346) 2 (ex_eth False 3) ex_tx) =
   Some (Some ([[0x88, 0x41, 0, 0, 4, 4, 4, 4, 4, 4, 6, 6, 6, 6, 6, 6, 2, 2, 2, 2, 2, 2, 0x70, 0, 5, 0,
     0xaa, 0xaa, 3, 0, 0, 0, 8, 0, 0, 1, 2]], Some 7))"
  by code_simp

theorem encap_decap_witness:
  "\<exists>m1 sq tx' m'. ieee80211_encap (ex_tx_sys M_STA 2346) 2 (ex_eth False 3) ex_tx = Some (Some ([m1], sq), tx') \<and>
    ieee80211_decap ex_pull \<lparr>m_segs = [concat (m_segs m1)], m_rxs = None, m_flags = 0\<rparr>
      (ieee80211_hdrspace 0 (mtod m1)) 5 (ex_vap, ex_ni 0) = (Some m', ex_vap, ex_ni 0) \<and>
    concat (m_segs m') = [2, 2, 2, 2, 2, 2, 6, 6, 6, 6, 6, 6, 8, 0, 0, 1, 2]"
proof -
  obtain m1 sq tx' where e: "ieee80211_encap (ex_tx_sys M_STA 2346) 2 (ex_eth False 3) ex_tx = Some (Some ([m1], sq), tx')"
    using ex_encap_run by fastforce
  have E: "concat (m_segs (ex_eth False 3)) = [2, 2, 2, 2, 2, 2, 6, 6, 6, 6, 6, 6, 8, 0, 0, 1, 2]" by code_simp
  have k: "encap_key (ex_tx_sys M_STA 2346) (take 6 [2, 2, 2, 2, 2, 2, 6, 6, 6, 6, 6, 6, 8, 0, 0, 1, 2]) (tx_cn ex_tx) =
      Some (Some (NwKey 1))" "wk_cipher (fst (key_of (tx_cn ex_tx) (NwKey 1))) = CIPHER_AES_CCM" by code_simp+
  have f: "ic_flags (cn_vap (tx_cn ex_tx)) = 0" "m_segs (ex_eth False 3) \<noteq> []"
    by (simp_all add: ex_tx_def ex_vap_def ex_eth_def)
  have t: "be16 0x80f3 = [0x80, 0xf3]" "be16 0x8137 = [0x81, 0x37]" by code_simp+
  show ?thesis
    using encap_decap [OF ex_tx_ok(1) e f(2) E [symmetric] _ _ _ refl ex_mbuf_facts(1,2), unfolded f(1), of
        "\<lparr>m_segs = [concat (m_segs m1)], m_rxs = None, m_flags = 0\<rparr>" 5 ex_vap "ex_ni 0"] e k
    by (auto simp: cipher_ids t)
qed

section \<open>No frame in the clear\<close>

abbreviation prot :: "u8 list \<Rightarrow> bool" where "prot wh \<equiv> wh ! 1 AND 0x40 \<noteq> 0"

lemma fragment_loop_prot:
  assumes "fragment_loop sys wh pad th mtu segs n off rem fs0 = Some y" "prot wh" "2 \<le> length wh" "\<forall>f \<in> set fs0. prot (mtod f)"
  shows "th \<le> mtu \<or> fst y = None" "\<forall>fs. fst y = Some fs \<longrightarrow> (\<forall>f \<in> set fs. prot (mtod f))"
proof -
  let ?P = "\<lambda>sys wh pad th mtu segs n off rem fs0 y. prot wh \<longrightarrow> 2 \<le> length wh \<longrightarrow> (\<forall>f \<in> set fs0. prot (mtod f)) \<longrightarrow>
    (th \<le> mtu \<or> fst y = None) \<and> (\<forall>fs. fst y = Some fs \<longrightarrow> (\<forall>f \<in> set fs. prot (mtod f)))"
  have "?P sys wh pad th mtu segs n off rem fs0 y"
  proof (rule fragment_loop.raw_induct [OF _ assms(1), where P = ?P])
    fix loop :: "'a tx_sys \<Rightarrow> u8 list \<Rightarrow> nat \<Rightarrow> nat \<Rightarrow> nat \<Rightarrow> u8 list list \<Rightarrow> nat \<Rightarrow> nat \<Rightarrow> nat \<Rightarrow> mbuf list
     \<Rightarrow> (mbuf list option \<times> mbuf list) option"
    fix sys wh pad totalhdrsize mtu segs fragno off remainder fs y
    assume IH: "\<And>sys wh pad th mtu segs n off rem fs0 y. loop sys wh pad th mtu segs n off rem fs0 = Some y \<Longrightarrow>
        ?P sys wh pad th mtu segs n off rem fs0 y"
      and e: "(if \<not> m_get2 sys fragno then Some (None, fs)
      else
        let payload = min (totalhdrsize + remainder) mtu - totalhdrsize;
            hdr = FRAGMENT wh fragno @ tx_junk sys pad
        in if mtu < totalhdrsize then None
           else case m_copydata segs off payload of
             None \<Rightarrow> None
           | Some bs \<Rightarrow>
               if remainder - payload = 0 then
                 Some (Some (fs @ [\<lparr>m_segs = [hdr[1 := hdr ! 1 AND NOT FC1_MORE_FRAG] @ bs], m_rxs = None,
                   m_flags = M_FRAG OR M_LASTFRAG\<rparr>]), [])
               else loop sys wh pad totalhdrsize mtu segs (fragno + 1) (off + payload)
                 (remainder - payload) (fs @ [\<lparr>m_segs = [hdr @ bs], m_rxs = None, m_flags = M_FRAG\<rparr>])) = Some y"
    show "?P sys wh pad totalhdrsize mtu segs fragno off remainder fs y"
    proof (intro impI)
      assume w: "prot wh" "2 \<le> length wh" "\<forall>f \<in> set fs. prot (mtod f)"
      let ?hdr = "FRAGMENT wh fragno @ tx_junk sys pad"
      have h: "length (FRAGMENT wh fragno) = length wh" "FRAGMENT wh fragno ! 1 = wh ! 1"
        using w(2) by (simp_all add: FRAGMENT_def)
      have "(x AND NOT 4) AND 64 = x AND (64 :: u8)" for x unfolding and.assoc by simp
      then have p: "prot (?hdr @ bs)" "prot (?hdr[1 := ?hdr ! 1 AND NOT FC1_MORE_FRAG] @ bs)" for bs
        using w h by (simp_all add: nth_append)
      from e consider (nomem) "y = (None, fs)"
        | (last) bs where "totalhdrsize \<le> mtu" "y = (Some (fs @ [\<lparr>m_segs = [?hdr[1 := ?hdr ! 1 AND NOT FC1_MORE_FRAG] @ bs],
            m_rxs = None, m_flags = M_FRAG OR M_LASTFRAG\<rparr>]), [])"
        | (go) bs n off rem where "loop sys wh pad totalhdrsize mtu segs n off rem
            (fs @ [\<lparr>m_segs = [?hdr @ bs], m_rxs = None, m_flags = M_FRAG\<rparr>]) = Some y"
        by (fastforce simp: Let_def split: if_splits option.splits)
      then show "(totalhdrsize \<le> mtu \<or> fst y = None) \<and> (\<forall>fs. fst y = Some fs \<longrightarrow> (\<forall>f \<in> set fs. prot (mtod f)))"
      proof cases
        case nomem
        then show ?thesis by simp
      next
        case last
        then show ?thesis using w(3) p(2) by simp
      next
        case go
        then show ?thesis using IH [OF go] w p(1) by simp
      qed
    qed
  qed
  note r = mp [OF mp [OF mp [OF this assms(2)] assms(3)] assms(4)]
  show "th \<le> mtu \<or> fst y = None" by (rule conjunct1 [OF r])
  show "\<forall>fs. fst y = Some fs \<longrightarrow> (\<forall>f \<in> set fs. prot (mtod f))" by (rule conjunct2 [OF r])
qed

lemma fragment_prot:
  assumes "ieee80211_fragment sys m hs ch mtu tx = Some (True, ms, tx')" "prot (mtod m)" "24 \<le> hs"
  shows "\<forall>f \<in> set ms. prot (mtod f)"
proof -
  let ?m = "hdr_update (\<lambda>wh. wh[1 := wh ! 1 OR FC1_MORE_FRAG]) m"
  define off where "off = mtu - ch"
  obtain th pad n rem fs y where l: "fragment_loop sys (take hs (mtod ?m)) pad th mtu (m_segs ?m) n off rem [] = Some y" "fst y = Some fs"
    and t: "hs + ch \<le> th"
    and ms: "ms = (with_segs ?m (m_adj_back (pktlen (m_segs ?m) - off) (m_segs ?m)))\<lparr>m_flags := m_flags ?m OR (M_FIRSTFRAG OR M_FRAG)\<rparr> # fs"
    and g: "hs \<le> length (mtod ?m)" "off \<le> pktlen (m_segs ?m)"
  proof -
    have r: "hs + ch \<le> roundup hs 4 + ch" by (auto simp: roundup_def)
    show thesis using assms(1) r that
      by (fastforce simp: ieee80211_fragment_def Let_def off_def split: if_splits option.splits)
  qed
  have "(x OR 4) AND 64 = x AND (64 :: u8)" for x by (simp add: bit.conj_disj_distrib2)
  then have p: "prot (mtod ?m)" using assms(2,3) g(1) by (simp add: hdr_update_def)
  then have p': "prot (take hs (mtod ?m))" "2 \<le> length (take hs (mtod ?m))" using assms(3) g(1) by simp_all
  note f = fragment_loop_prot [OF l(1) p']
  have "th \<le> mtu" using f(1) l(2) by auto
  then have o24: "24 \<le> off" using t assms(3) by (simp add: off_def)
  have "prot (hd (m_adj_back (pktlen (m_segs ?m) - off) (m_segs ?m)))"
    using p o24 g(1,2) assms(3) by (simp add: hdr_update_def m_adj_back_def nth_append)
  then show ?thesis using f(2) l(2) by (simp add: ms with_segs_def)
qed

lemma enmic_head:
  assumes "appends (env_app env)" "ieee80211_crypto_enmic env force (v, ks, m) = Some (ok, v', ks', m')" "m_segs m \<noteq> []"
    "2 \<le> length (mtod m)"
  shows "mtod m' ! 1 = mtod m ! 1" "m_segs m' \<noteq> []" "2 \<le> length (mtod m')"
proof -
  have "m' = m \<or> (\<exists>mic segs. env_app env (m_segs m) mic = Some segs \<and> m' = m\<lparr>m_segs := segs\<rparr>)"
    using assms(2)
    by (cases ks) (auto simp: ieee80211_crypto_enmic_def tkip_enmic_def Let_def split: option.splits if_splits cipher_ctx.splits)
  then have "mtod m' ! 1 = mtod m ! 1 \<and> m_segs m' \<noteq> [] \<and> 2 \<le> length (mtod m')"
  proof (elim disjE exE conjE)
    fix mic segs assume a: "env_app env (m_segs m) mic = Some segs" and m': "m' = m\<lparr>m_segs := segs\<rparr>"
    obtain t where t: "segs = butlast (m_segs m) @ t" "t \<noteq> []" "length (last (m_segs m)) \<le> length (hd t)"
      "take (length (last (m_segs m))) (hd t) = last (m_segs m)"
      using assms(1,3) a unfolding appends_def by blast
    show ?thesis
    proof (cases "butlast (m_segs m) = []")
      case True
      then have "last (m_segs m) = mtod m" using assms(3) by (cases "m_segs m") (auto split: if_splits)
      then show ?thesis using t True assms(4) nth_take [of 1 "length (mtod m)" "hd t"] by (simp add: m')
    next
      case False
      then have "hd segs = mtod m" using t(1) assms(3) by (cases "m_segs m") (auto split: if_splits)
      then show ?thesis using t assms(4) by (simp add: m')
    qed
  qed (use assms in simp)
  then show "mtod m' ! 1 = mtod m ! 1" "m_segs m' \<noteq> []" "2 \<le> length (mtod m')" by blast+
qed

text \<open>
  C8. With privacy on, no data frame but authentication frames leaves in the clear: there is a
  key for it, and every frame that encapsulation returns for it, all fragments included, has
  the protected bit, which makes the driver encrypt it.
\<close>

theorem encap_privacy:
  assumes ok: "tx_ok sys" "appends (env_app (tx_crypto sys))"
    and e: "ieee80211_encap sys ac m tx = Some (Some (ms, seqno), tx')" "m_segs m \<noteq> []"
    and p: "iv_flags (cn_vap (tx_cn tx)) AND F_TX_PRIVACY \<noteq> 0" "m_flags m AND M_EAPOL = 0"
  shows "(\<exists>r. encap_key sys (take 6 (concat (m_segs m))) (tx_cn tx) = Some (Some r)) \<and>
    (\<forall>f \<in> set ms. mtod f ! 1 AND 0x40 \<noteq> 0)"
proof -
  obtain r wh pad m0 tx0 dl where key: "encap_key sys (take 6 (concat (m_segs m))) (tx_cn tx) = Some (Some r)"
    and enc: "encapsulates sys (ic_flags (cn_vap (tx_cn tx))) m wh pad m0"
      "encap_finish sys (Some r) (length wh) dl m0 tx0 = Some (Some ms, tx')"
    using encap_cases [OF ok(1) e] p by blast
  have l: "24 \<le> length wh" by (rule encapsulates_len [OF enc(1)])
  have m0: "m_segs m0 \<noteq> []" "24 \<le> length (mtod m0)" "m_flags m0 AND M_EAPOL = 0"
    using enc(1) l p(2) by (simp_all add: encapsulates_def Let_def)
  obtain m1 tx1 where pr: "encap_protect sys (Some r) (encap_txfrag sys m0) m0 tx0 = Some (True, m1, tx1)"
    and ms: "ms = [m1\<lparr>m_flags := m_flags m1 OR enc_flags (IEEE80211_IS_MULTICAST (i_addr1 (mtod m0)))\<rparr>] \<or>
     (\<exists>m2 fs tx2. ieee80211_fragment sys m1 (length wh)
         (ic_header (key_tmpl (tx_cn tx1) r)) (iv_fragthreshold sys) tx1 = Some (True, m2 # fs, tx2) \<and>
       ms = m2\<lparr>m_flags := m_flags m2 OR enc_flags False\<rparr> # fs)"
    using finish_cases [OF enc(2)] by auto
  obtain v ks where em: "ieee80211_crypto_enmic (tx_crypto sys) (encap_txfrag sys m0)
      (cn_vap (tx_cn tx0), key_of (tx_cn tx0) r, hdr_update set_protected m0) = Some (True, v, ks, m1)"
    using pr m0(3) by (auto simp: encap_protect_def Let_def split: option.splits if_splits)
  have "prot (mtod (hdr_update set_protected m0))" using set_protected_hdr(10) [of "mtod m0"] m0(2) by (simp add: hdr_update_def)
  then have pm: "prot (mtod m1)"
    using enmic_head [OF ok(2) em] m0 set_protected_hdr(3) [of "mtod m0"] by (simp add: hdr_update_def)
  show ?thesis using key ms pm fragment_prot [OF _ pm l] by (force simp: ball_Un)
qed

lemma ex_fragments_run:
  "map_option (\<lambda>(r, _). map_option (\<lambda>(ms, _). map (length \<circ> concat \<circ> m_segs) ms) r)
     (ieee80211_encap (ex_tx_sys M_STA 40) 2 (ex_eth False 10) ex_tx) = Some (Some [32, 32, 32])"
  by code_simp

theorem encap_privacy_witness:
  "\<exists>ms sq tx'. ieee80211_encap (ex_tx_sys M_STA 40) 2 (ex_eth False 10) ex_tx = Some (Some (ms, sq), tx') \<and>
    length ms = 3 \<and> (\<forall>f \<in> set ms. mtod f ! 1 AND 0x40 \<noteq> 0)"
proof -
  obtain ms sq tx' where e: "ieee80211_encap (ex_tx_sys M_STA 40) 2 (ex_eth False 10) ex_tx = Some (Some (ms, sq), tx')"
    and l: "map (length \<circ> concat \<circ> m_segs) ms = [32, 32, 32]"
    using ex_fragments_run by fastforce
  have "length ms = 3" using arg_cong [OF l, of length] by simp
  moreover have "m_segs (ex_eth False 10) \<noteq> []" "iv_flags (cn_vap (tx_cn ex_tx)) AND F_TX_PRIVACY \<noteq> 0"
    "m_flags (ex_eth False 10) AND M_EAPOL = 0"
    by (simp_all add: ex_eth_def ex_tx_def ex_vap_def)
  ultimately show ?thesis using encap_privacy [OF ex_tx_ok e] e by blast
qed

end
