(* ===== verification/FragProps.thy ===== *)
theory FragProps
  imports OutputProps
begin

text \<open>
  Fragmentation and reassembly as inverses: the fragments that \<open>ieee80211_fragment\<close> makes of a
  frame fit the threshold, and a receiver that gets them joins them to the frame that was sent.
\<close>

section \<open>The fragments\<close>

text \<open>A fragment of the frame with header \<open>wh\<close>: its number, whether more follow, its part of the body.\<close>

definition frag_as :: "u8 list \<Rightarrow> nat \<Rightarrow> nat \<Rightarrow> bool \<Rightarrow> u8 list \<Rightarrow> mbuf \<Rightarrow> bool" where
  "frag_as wh h n mo body f \<longleftrightarrow> (\<exists>hdr. concat (m_segs f) = hdr @ body \<and> length hdr = h \<and>
     i_seq hdr = i_seq wh OR word_of_nat n \<and> i_addr1 hdr = i_addr1 wh \<and> i_addr2 hdr = i_addr2 wh \<and>
     hdr ! 1 AND 0x40 = wh ! 1 AND 0x40 \<and> (hdr ! 1 AND 0x04 \<noteq> 0 \<longleftrightarrow> mo))"

fun frag_spec :: "u8 list \<Rightarrow> nat \<Rightarrow> nat \<Rightarrow> nat \<Rightarrow> u8 list \<Rightarrow> mbuf list \<Rightarrow> bool" where
  "frag_spec wh h p n body [] \<longleftrightarrow> False"
| "frag_spec wh h p n body (f # fs) \<longleftrightarrow>
     (if fs = [] then length body \<le> p \<and> frag_as wh h n False body f
      else p < length body \<and> frag_as wh h n True (take p body) f \<and> frag_spec wh h p (n + 1) (drop p body) fs)"

lemma le16_or: "le16 (a OR ucast x) b = le16 a b OR (ucast (x :: u8) :: u16)"
  unfolding le16_def by (rule bit_word_eqI) (auto simp: bit_simps)

lemma fragment_hdr:
  assumes "24 \<le> length wh" "n < 16" "wh ! 1 AND 0x04 \<noteq> 0"
  shows "i_seq (FRAGMENT wh n @ pad) = i_seq wh OR word_of_nat n" "i_addr1 (FRAGMENT wh n @ pad) = i_addr1 wh" "i_addr2 (FRAGMENT wh n @ pad) = i_addr2 wh"
    "(FRAGMENT wh n @ pad) ! 1 = wh ! 1" "length (FRAGMENT wh n @ pad) = length wh + length pad"
proof -
  have "(word_of_nat n :: u8) AND 15 = word_of_nat n"
  proof -
    have "(word_of_nat n :: u8) AND mask 4 = word_of_nat n"
      using assms(2) by (intro less_mask_eq) (simp add: word_less_nat_alt unsigned_of_nat take_bit_nat_eq_self)
    then show ?thesis by (simp add: mask_eq_exp_minus_1)
  qed
  moreover have "(ucast (word_of_nat n :: u8) :: u16) = word_of_nat n"
    using assms(2) by (simp add: word_unat_eq_iff unsigned_ucast_eq unsigned_of_nat take_bit_nat_eq_self)
  ultimately show "i_seq (FRAGMENT wh n @ pad) = i_seq wh OR word_of_nat n"
    using assms(1) le16_or [of "wh ! 22" "word_of_nat n" "wh ! 23"]
    by (simp add: FRAGMENT_def i_seq_def nth_append)
  show "i_addr1 (FRAGMENT wh n @ pad) = i_addr1 wh" "i_addr2 (FRAGMENT wh n @ pad) = i_addr2 wh" "(FRAGMENT wh n @ pad) ! 1 = wh ! 1" "length (FRAGMENT wh n @ pad) = length wh + length pad"
    using assms(1) by (simp_all add: FRAGMENT_def i_addr1_def i_addr2_def nth_append drop_update_swap take_update_cancel)
qed

lemma fragment_loop_spec:
  assumes "24 \<le> length wh" "wh ! 1 AND 0x04 \<noteq> 0" "\<forall>n. m_get2 sys n" "\<forall>n. length (tx_junk sys n) = n"
    and "0 < q" "off + rem = pktlen segs" "0 < rem" "rem \<le> (16 - n) * q" "n < 16"
  shows "\<exists>fs. fragment_loop sys wh pad th (th + q) segs n off rem fs0 = Some (Some (fs0 @ fs), []) \<and>
    frag_spec wh (length wh + pad) q n (drop off (concat segs)) fs \<and> (\<forall>f \<in> set fs. pktlen (m_segs f) \<le> length wh + pad + q) \<and>
    n + length fs \<le> 16"
  using assms(6-)
proof (induction rem arbitrary: n off fs0 rule: less_induct)
  case (less rem)
  let ?B = "drop off (concat segs)"
  let ?hdr = "FRAGMENT wh n @ tx_junk sys pad"
  define payload where "payload = min (th + rem) (th + q) - th"
  have pl: "payload = min rem q" using assms(5) by (auto simp: payload_def)
  have B: "length ?B = rem" using less.prems(1) by (simp add: pktlen_def)
  have cp: "m_copydata segs off payload = Some (take payload ?B)"
    using less.prems(1) pl by (simp add: m_copydata_def)
  note h = fragment_hdr [OF assms(1) less.prems(4) assms(2), of "tx_junk sys pad"]
  have lh: "length ?hdr = length wh + pad" using h(5) assms(4) by simp
  have eq: "fragment_loop sys wh pad th (th + q) segs n off rem fs0 =
    (if rem - payload = 0 then Some (Some (fs0 @ [\<lparr>m_segs = [?hdr[1 := ?hdr ! 1 AND NOT FC1_MORE_FRAG] @ take payload ?B], m_rxs = None,
                   m_flags = M_FRAG OR M_LASTFRAG\<rparr>]), [])
     else fragment_loop sys wh pad th (th + q) segs (n + 1) (off + payload) (rem - payload)
            (fs0 @ [\<lparr>m_segs = [?hdr @ take payload ?B], m_rxs = None, m_flags = M_FRAG\<rparr>]))"
    by (subst fragment_loop.simps) (use assms(3,5) cp in \<open>simp add: Let_def payload_def [symmetric]\<close>)
  show ?case
  proof (cases "rem \<le> q")
    case True
    let ?f = "\<lparr>m_segs = [?hdr[1 := ?hdr ! 1 AND NOT FC1_MORE_FRAG] @ take payload ?B], m_rxs = None, m_flags = M_FRAG OR M_LASTFRAG\<rparr>"
    have "(x AND NOT 4) AND 64 = x AND (64 :: u8)" "(x AND NOT 4) AND 4 = (0 :: u8)" for x unfolding and.assoc by simp_all
    then have "frag_as wh (length wh + pad) n False ?B ?f"
      unfolding frag_as_def using h lh assms(1) True B pl
      by (intro exI [of _ "?hdr[1 := ?hdr ! 1 AND NOT FC1_MORE_FRAG]"])
        (simp add: i_seq_def i_addr1_def i_addr2_def drop_update_cancel)
    then show ?thesis unfolding eq using True pl B lh
      using less.prems(4) by (intro exI [of _ "[?f]"]) (simp add: pktlen_def)
  next
    case False
    let ?f = "\<lparr>m_segs = [?hdr @ take payload ?B], m_rxs = None, m_flags = M_FRAG\<rparr>"
    have p: "payload = q" using False pl by simp
    have "frag_as wh (length wh + pad) n True (take q ?B) ?f"
      unfolding frag_as_def using h lh assms(2) p by (intro exI [of _ ?hdr]) simp
    moreover have n: "n + 1 < 16" using False less.prems(3,4) by (cases "n = 15") auto
    have "16 - n = Suc (16 - (n + 1))" using n by arith
    then have r: "rem - q \<le> (16 - (n + 1)) * q" using less.prems(3) by simp
    have lt: "rem - q < rem" "off + q + (rem - q) = pktlen segs" "0 < rem - q" using False assms(5) less.prems(1) by simp_all
    obtain fs where "fragment_loop sys wh pad th (th + q) segs (n + 1) (off + q) (rem - q) (fs0 @ [?f]) = Some (Some ((fs0 @ [?f]) @ fs), [])"
      "frag_spec wh (length wh + pad) q (n + 1) (drop (off + q) (concat segs)) fs" "\<forall>f \<in> set fs. pktlen (m_segs f) \<le> length wh + pad + q"
      "n + 1 + length fs \<le> 16"
      using less.IH [OF lt r n, of "fs0 @ [?f]"] by blast
    moreover have "fs \<noteq> []" using calculation(3) by auto
    ultimately show ?thesis unfolding eq using False B p lh
      by (intro exI [of _ "?f # fs"]) (auto simp: pktlen_def add.commute)
  qed
qed

section \<open>The receiver\<close>

text \<open>A fragment as it arrives: the same bytes, with the header in the first mbuf.\<close>

definition receives :: "nat \<Rightarrow> bool \<Rightarrow> mbuf \<Rightarrow> frag \<Rightarrow> bool" where
  "receives h d f p \<longleftrightarrow> (\<exists>m. p = (m, h, d) \<and> concat (m_segs m) = concat (m_segs f) \<and> m_segs m \<noteq> [] \<and> 24 \<le> length (mtod m))"

definition frag_rcvd :: "u8 list \<Rightarrow> bool \<Rightarrow> nat \<Rightarrow> frag \<Rightarrow> bool" where
  "frag_rcvd wh d n p \<longleftrightarrow> frag_valid p \<and> i_seq (frag_hdr p) = i_seq wh OR word_of_nat n \<and>
     i_addr1 (frag_hdr p) = i_addr1 wh \<and> i_addr2 (frag_hdr p) = i_addr2 wh \<and>
     frag_hdr p ! 1 AND 0x40 = (if d then 0x40 else wh ! 1 AND 0x40)"

lemma addr_prefix:
  assumes "take 24 a = take 24 b"
  shows "i_addr1 a = i_addr1 b" "i_addr2 a = i_addr2 b" "a ! 1 = b ! 1" "a ! 0 = b ! 0"
proof -
  have t: "take 6 (drop k x) = take 6 (drop k (take 24 x))" if "k + 6 \<le> 24" for k and x :: "u8 list"
    using that by (simp add: drop_take min_def)
  show "i_addr1 a = i_addr1 b" "i_addr2 a = i_addr2 b"
    unfolding i_addr1_def i_addr2_def using t [of 4 a] t [of 4 b] t [of 10 a] t [of 10 b] assms by simp_all
  show "a ! 1 = b ! 1" "a ! 0 = b ! 0" using arg_cong [OF assms, of "\<lambda>x. x ! 1"] arg_cong [OF assms, of "\<lambda>x. x ! 0"] by simp_all
qed

lemma receives_frag:
  assumes "receives h d f p" "frag_as wh h n mo body f" "24 \<le> h"
  shows "frag_rcvd wh d n p" "frag_more p = mo" "frag_body p = body"
proof -
  obtain m where p: "p = (m, h, d)" "concat (m_segs m) = concat (m_segs f)" "m_segs m \<noteq> []" "24 \<le> length (mtod m)"
    using assms(1) unfolding receives_def by blast
  obtain hdr where a: "concat (m_segs f) = hdr @ body" "length hdr = h" "i_seq hdr = i_seq wh OR word_of_nat n"
    "i_addr1 hdr = i_addr1 wh" "i_addr2 hdr = i_addr2 wh" "hdr ! 1 AND 0x40 = wh ! 1 AND 0x40" "hdr ! 1 AND 0x04 \<noteq> 0 \<longleftrightarrow> mo"
    using assms(2) unfolding frag_as_def by blast
  have "take 24 (mtod m) = take 24 (concat (m_segs m))" using p(3,4) by (simp add: concat_hd_tl)
  also have "\<dots> = take 24 hdr" unfolding p(2) a(1) using a(2) assms(3) by simp
  finally have t: "take 24 (mtod m) = take 24 hdr" .
  note e = i_seq_prefix [OF t] addr_prefix [OF t] and u = hdr_upd_facts [OF p(4)]
  have "(x OR 64) AND 64 = (64 :: u8)" for x by (rule bit_word_eqI) (auto simp: bit_simps)
  then show "frag_rcvd wh d n p"
    using p e u a by (auto simp: frag_rcvd_def frag_valid_def frag_hdr_def assms(3))
  show "frag_more p = mo" using a(7) e by (simp add: frag_more_def p(1))
  show "frag_body p = body" using a(1,2) by (simp add: frag_body_def p(1,2))
qed

lemma seq_or_add:
  assumes "(a :: u16) AND 15 = 0" "n < 16"
  shows "uint (a OR word_of_nat n) = uint a + int n"
proof -
  have b: "bit (word_of_nat n :: u16) k \<Longrightarrow> k < 4" for k
    using assms(2) bit_take_bit_iff [of 4 n k]
    by (auto simp: bit_simps take_bit_nat_eq_self)
  have a: "bit a k \<Longrightarrow> \<not> k < 4" for k
  proof
    assume "bit a k" "k < 4"
    then have "bit (a AND mask 4) k" by (simp add: bit_and_iff bit_mask_iff)
    then show False using assms(1) by (simp add: mask_eq_exp_minus_1)
  qed
  have "a + word_of_nat n = a OR word_of_nat n"
    by (rule disjunctive_add) (use a b in blast)
  moreover have "uint (a + word_of_nat n) = uint a + int n"
  proof -
    have "uint a mod 16 = 0"
    proof -
      have "take_bit 4 a = 0" using assms(1) by (simp add: take_bit_eq_mask mask_eq_exp_minus_1)
      then have "uint (take_bit 4 a) = 0" by simp
      then show ?thesis by (simp only: unsigned_take_bit_eq) (simp add: take_bit_eq_mod)
    qed
    moreover have "uint a < 65536" using uint_lt2p [of a] by simp
    ultimately have "uint a + int n < 65536" using assms(2) by presburger
    moreover have "uint (word_of_nat n :: u16) = int n" using assms(2) by (simp add: unsigned_of_nat take_bit_nat_eq_self)
    ultimately show ?thesis by (subst uint_plus_simple_iff [THEN iffD1]) (simp_all add: word_le_def uint_word_ariths)
  qed
  ultimately show ?thesis by simp
qed

lemma rcvd_continues:
  assumes "frag_rcvd wh d n p" "frag_rcvd wh d (Suc n) q" "i_seq wh AND 15 = 0" "Suc n < 16"
  shows "frag_continues (frag_hdr p) (frag_hdr q)"
proof -
  have "uint (i_seq (frag_hdr q)) = uint (i_seq (frag_hdr p)) + 1"
    using assms seq_or_add [OF assms(3), of n] seq_or_add [OF assms(3), of "Suc n"] by (simp add: frag_rcvd_def)
  then show ?thesis using assms(1,2) by (simp add: frag_continues_def frag_rcvd_def ADDR_EQ_take and_xor_zero)
qed

lemma frag_spec_received:
  assumes "frag_spec wh h p n body fs" "list_all2 (receives h d) fs ps" "i_seq wh AND 15 = 0" "24 \<le> h" "n + length fs \<le> 16"
  shows "ps \<noteq> [] \<and> frag_rcvd wh d n (hd ps) \<and> list_all frag_valid ps \<and> frags_chain ps \<and> list_all frag_more (butlast ps) \<and>
    \<not> frag_more (last ps) \<and> concat (map frag_body ps) = body"
  using assms
proof (induction fs arbitrary: n body ps)
  case Nil
  then show ?case by simp
next
  case (Cons f fs)
  obtain q qs where ps: "ps = q # qs" "receives h d f q" "list_all2 (receives h d) fs qs"
    using Cons.prems(2) by (auto simp: list_all2_Cons1)
  show ?case
  proof (cases "fs = []")
    case True
    then have "frag_as wh h n False body f" "qs = []" using Cons.prems(1) ps(3) by simp_all
    then show ?thesis using receives_frag [OF ps(2) _ Cons.prems(4)] by (simp add: ps(1) frag_rcvd_def)
  next
    case False
    then have s: "frag_as wh h n True (take p body) f" "frag_spec wh h p (n + 1) (drop p body) fs" using Cons.prems(1) by simp_all
    note r = receives_frag [OF ps(2) s(1) Cons.prems(4)]
    have i: "qs \<noteq> [] \<and> frag_rcvd wh d (Suc n) (hd qs) \<and> list_all frag_valid qs \<and> frags_chain qs \<and> list_all frag_more (butlast qs) \<and>
      \<not> frag_more (last qs) \<and> concat (map frag_body qs) = drop p body"
      using Cons.IH [OF s(2) ps(3) Cons.prems(3,4)] Cons.prems(5) by simp
    have "Suc n < 16" using False Cons.prems(5) by (cases fs) auto
    then have "frag_continues (frag_hdr q) (frag_hdr (hd qs))"
      using rcvd_continues [OF r(1) _ Cons.prems(3)] i by blast
    then show ?thesis using i r by (cases qs) (auto simp: ps(1) frag_rcvd_def)
  qed
qed

section \<open>There and back in pieces\<close>

lemma fragment_spec:
  assumes m: "m_segs m0 \<noteq> []" "hdrsize \<le> length (mtod m0)" "24 \<le> hdrsize" "h \<le> length (mtod m0)"
    and h: "h = (if ic_flags (cn_vap (tx_cn tx)) AND 0x00080000 \<noteq> 0 then roundup hdrsize 4 else hdrsize)"
    and sz: "q = mtu - (h + ch)" "0 < q" "mtu - ch < pktlen (m_segs m0)" "pktlen (m_segs m0) \<le> h + 16 * q"
    and mem: "\<forall>n. m_get2 sys n" "\<forall>n. length (tx_junk sys n) = n"
  shows "\<exists>ms tx' wh. ieee80211_fragment sys m0 hdrsize ch mtu tx = Some (True, ms, tx') \<and>
    frag_spec wh h q 0 (drop h (concat (m_segs m0))) ms \<and> length ms \<le> 16 \<and> (\<forall>f \<in> set ms. pktlen (m_segs f) + ch \<le> mtu) \<and>
    i_seq wh = i_seq (mtod m0) \<and> ms \<noteq> [] \<and>
    (\<forall>i < h. i \<noteq> 1 \<longrightarrow> concat (m_segs (hd ms)) ! i = concat (m_segs m0) ! i) \<and>
    concat (m_segs (hd ms)) ! 1 AND 3 = concat (m_segs m0) ! 1 AND 3"
proof -
  define off where "off = mtu - ch"
  have o: "off = h + q" "h + ch \<le> mtu" "ch \<le> mtu" using sz(1,2) by (auto simp: off_def)
  define S where "S = concat (m_segs m0)"
  define mm where "mm = hdr_update (\<lambda>wh. wh[1 := wh ! 1 OR FC1_MORE_FRAG]) m0"
  define wh where "wh = take hdrsize (mtod mm)"
  have hh: "hdrsize \<le> h" by (auto simp: h roundup_def)
  have cS: "concat (m_segs mm) = S[1 := S ! 1 OR FC1_MORE_FRAG]" "length S = pktlen (m_segs m0)" "pktlen (m_segs mm) = length S"
    using m concat_hd_tl [OF m(1)] by (auto simp: S_def mm_def hdr_update_def pktlen_def list_update_append nth_append)
  have bits: "(x OR 4) AND 4 \<noteq> (0 :: u8)" "(x OR 4) AND 64 = x AND (64 :: u8)" "(x OR 4) AND 3 = x AND (3 :: u8)" for x
  proof -
    have "(x OR 4) AND 4 = (4 :: u8)" by (rule bit_word_eqI) (auto simp: bit_simps)
    then show "(x OR 4) AND 4 \<noteq> (0 :: u8)" by simp
    show "(x OR 4) AND 64 = x AND (64 :: u8)" "(x OR 4) AND 3 = x AND (3 :: u8)" by (simp_all add: bit.conj_disj_distrib2)
  qed
  have lw: "length wh = hdrsize" "24 \<le> length wh" using m by (simp_all add: wh_def mm_def hdr_update_def)
  have w1: "wh ! 1 AND 0x04 \<noteq> 0" using m bits(1) by (simp add: wh_def mm_def hdr_update_def)
  have wS: "take hdrsize (S[1 := S ! 1 OR FC1_MORE_FRAG]) = wh"
    unfolding cS(1) [symmetric] wh_def using m by (simp add: mm_def hdr_update_def concat_hd_tl)
  have g: "hdrsize \<le> length (mtod mm)" using m(2) by (simp add: mm_def hdr_update_def)
  define rem where "rem = length S - off"
  have r: "off + rem = pktlen (m_segs mm)" "0 < rem" "rem \<le> (16 - 1) * q"
    using sz(3,4) cS(2,3) o(1) by (simp_all add: rem_def off_def)
  obtain fs where l: "fragment_loop sys wh (h - hdrsize) (h + ch) (h + ch + q) (m_segs mm) 1 off rem [] = Some (Some fs, [])"
    and fs: "frag_spec wh h q 1 (drop off (concat (m_segs mm))) fs" "\<forall>f \<in> set fs. pktlen (m_segs f) \<le> h + q" "1 + length fs \<le> 16"
    using fragment_loop_spec [OF lw(2) w1 mem sz(2) r, of "h - hdrsize" "h + ch" "[]"] lw(1) hh by auto
  have mt: "h + ch + q = mtu" using o by (simp add: sz(1))
  define f0 where "f0 = (with_segs mm (m_adj_back (pktlen (m_segs mm) - off) (m_segs mm)))\<lparr>m_flags := m_flags mm OR (M_FIRSTFRAG OR M_FRAG)\<rparr>"
  have f: "\<exists>tx'. ieee80211_fragment sys m0 hdrsize ch mtu tx = Some (True, f0 # fs, tx')"
    unfolding ieee80211_fragment_def Let_def h [symmetric] mm_def [symmetric] off_def [symmetric] wh_def [symmetric] f0_def
    using g o r l cS(3) by (auto simp: rem_def mt)
  have off: "off < length S" using r(2) by (simp add: rem_def)
  have c0: "concat (m_segs f0) = take off (S[1 := S ! 1 OR FC1_MORE_FRAG])"
    using off unfolding f0_def with_segs_def by (simp add: cS pktlen_def [symmetric])
  have "frag_as wh h 0 True (take q (drop h S)) f0"
  proof -
    let ?hdr = "take h (S[1 := S ! 1 OR FC1_MORE_FRAG])"
    have t: "take 24 ?hdr = take 24 wh" unfolding wS [symmetric] using m(3) hh by (simp add: min_def)
    have "concat (m_segs f0) = ?hdr @ take q (drop h S)"
      unfolding c0 o(1) take_add using m(3) hh by simp
    moreover have "length ?hdr = h" using off o(1) by simp
    moreover have "wh ! 1 AND 0x04 \<noteq> 0" by (rule w1)
    ultimately show ?thesis unfolding frag_as_def
      using i_seq_prefix [OF t] addr_prefix [OF t] by (intro exI [of _ ?hdr]) simp
  qed
  moreover have "drop off (concat (m_segs mm)) = drop q (drop h S)" unfolding cS(1) using m(3) hh by (simp add: o(1) add.commute)
  moreover have "q < length (drop h S)" "fs \<noteq> []" using off o(1) fs(1) by auto
  ultimately have sp: "frag_spec wh h q 0 (drop h S) (f0 # fs)" using fs(1) by simp
  have "i_seq wh = i_seq (mtod m0)" using m by (simp add: wh_def mm_def hdr_update_def i_seq_def)
  moreover have "pktlen (m_segs f0) + ch \<le> mtu" using o mt off unfolding pktlen_def c0 by simp
  moreover have "\<forall>i < h. i \<noteq> 1 \<longrightarrow> concat (m_segs f0) ! i = S ! i" "concat (m_segs f0) ! 1 AND 3 = S ! 1 AND 3"
    unfolding c0 using o(1) off m(3) hh bits(3) by simp_all
  ultimately show ?thesis using f sp fs(2,3) mt unfolding S_def by (intro exI [of _ "f0 # fs"]) fastforce
qed

lemma clear_protected_eq:
  assumes "clear_protected a = clear_protected b" "24 \<le> length a"
  shows "length a = length b" "2 \<le> k \<Longrightarrow> drop k a = drop k b" "i \<noteq> 1 \<Longrightarrow> i < length a \<Longrightarrow> a ! i = b ! i"
    "a ! 1 AND 3 = b ! 1 AND 3"
proof -
  show l: "length a = length b" using arg_cong [OF assms(1), of length] by (simp add: clear_protected_def)
  show "drop k a = drop k b" if "2 \<le> k"
    using arg_cong [OF assms(1), of "drop k"] that by (simp add: clear_protected_def)
  show "a ! i = b ! i" if "i \<noteq> 1" "i < length a"
    using arg_cong [OF assms(1), of "\<lambda>x. x ! i"] that by (simp add: clear_protected_def)
  have "(x AND NOT 64) AND 3 = x AND (3 :: u8)" for x unfolding and.assoc by simp
  then show "a ! 1 AND 3 = b ! 1 AND 3"
    using arg_cong [OF assms(1), of "\<lambda>x. x ! 1 AND 3"] assms(2) l by (simp add: clear_protected_def)
qed

text \<open>
  C7. A frame longer than the threshold is cut into fragments none of which, with the cipher's
  header, is longer than the threshold; this only fails for lack of memory. A receiver that
  gets the fragments in order, cut into mbufs in any way, encrypted or not, hands on one frame,
  with the whole body and with the header of the original in all but its second byte, whose
  direction bits are kept, and its sequence control field.
\<close>

theorem fragment_defrag:
  assumes m: "m_segs m0 \<noteq> []" "hdrsize \<le> length (mtod m0)" "24 \<le> hdrsize" "h \<le> length (mtod m0)"
      "i_seq (mtod m0) AND 15 = 0"
    and h: "h = (if ic_flags (cn_vap (tx_cn tx)) AND 0x00080000 \<noteq> 0 then roundup hdrsize 4 else hdrsize)"
    and sz: "q = mtu - (h + ch)" "0 < q" "mtu - ch < pktlen (m_segs m0)" "pktlen (m_segs m0) \<le> h + 16 * q"
    and mem: "\<forall>n. m_get2 sys n" "\<forall>n. length (tx_junk sys n) = n"
    and rx: "catpkts cat" "ni_table ni" "ni_rxfrag ni = None"
  shows "\<exists>ms tx'. ieee80211_fragment sys m0 hdrsize ch mtu tx = Some (True, ms, tx') \<and>
    (\<forall>f \<in> set ms. pktlen (m_segs f) + ch \<le> mtu) \<and>
    (\<forall>d ps ts. list_all2 (receives h d) ms ps \<longrightarrow> length ts = length ps \<longrightarrow>
      (\<exists>m hdr ni'. defrag_run cat (map2 Frag ts ps) ni = Some ([m], ni') \<and> ni_rxfrag ni' = None \<and>
        concat (m_segs m) = hdr @ drop h (concat (m_segs m0)) \<and> length hdr = h \<and>
        hdr ! 1 AND 3 = concat (m_segs m0) ! 1 AND 3 \<and>
        (\<forall>i < h. i \<notin> {1, 22, 23} \<longrightarrow> hdr ! i = concat (m_segs m0) ! i)))"
proof -
  define S where "S = concat (m_segs m0)"
  have h24: "24 \<le> h" using m(3) by (auto simp: h roundup_def)
  obtain ms tx' wh where f: "ieee80211_fragment sys m0 hdrsize ch mtu tx = Some (True, ms, tx')"
    "frag_spec wh h q 0 (drop h S) ms" "length ms \<le> 16" "\<forall>f \<in> set ms. pktlen (m_segs f) + ch \<le> mtu"
    "i_seq wh AND 15 = 0" "ms \<noteq> []"
    and h0: "\<forall>i < h. i \<noteq> 1 \<longrightarrow> concat (m_segs (hd ms)) ! i = S ! i" "concat (m_segs (hd ms)) ! 1 AND 3 = S ! 1 AND 3"
    using fragment_spec [OF m(1-4) h sz mem] m(5) unfolding S_def by metis
  have "\<exists>m hdr ni'. defrag_run cat (map2 Frag ts ps) ni = Some ([m], ni') \<and> ni_rxfrag ni' = None \<and>
      concat (m_segs m) = hdr @ drop h S \<and> length hdr = h \<and> hdr ! 1 AND 3 = S ! 1 AND 3 \<and>
      (\<forall>i < h. i \<notin> {1, 22, 23} \<longrightarrow> hdr ! i = S ! i)"
    if ps: "list_all2 (receives h d) ms ps" "length ts = length ps" for d ps ts
  proof -
    note r = frag_spec_received [OF f(2) ps(1) f(5) h24, unfolded add_0, OF f(3)]
    obtain p qs t us where c: "ps = p # qs" "ts = t # us" "length us = length qs"
      using r ps(2) by (cases ps; cases ts) auto
    obtain f1 fs where ms: "ms = f1 # fs" using f(6) by (cases ms) auto
    have rp: "receives h d f1 p" using ps(1) by (simp add: ms c(1))
    then obtain mp where p: "p = (mp, h, d)" "concat (m_segs mp) = concat (m_segs f1)" unfolding receives_def by blast
    define C where "C = concat (m_segs f1)"
    have hC: "h \<le> length C" using f(2) by (auto simp: ms C_def frag_as_def split: if_splits)
    have v: "frag_valid (mp, h, d)" "i_seq (frag_hdr (mp, h, d)) = i_seq wh"
      using r unfolding c(1) p(1) by (simp_all add: frag_rcvd_def)
    have "frag_first p" using v(2) f(5) unfolding frag_hdr_facts(2) [OF v(1)] by (simp add: p(1) frag_first_def FRAGNO_def)
    then have "add_frag [] p = [] @ [p]" by (simp add: add_frag_def)
    moreover have "keeps ni []" using rx(3) by (simp add: keeps_Nil)
    ultimately obtain m ni' where d: "defrag_run cat (map2 Frag (t # us) (p # qs)) ni = Some ([m], ni')"
      "assembled ([] @ p # qs) m" "ni_rxfrag ni' = None"
      using defrag_run_fragments [OF rx(1,2), of "[]" p "[]" qs us t] r c(3) by (auto simp: c(1))
    define X where "X = concat (m_segs m)"
    define J where "J = frags_joined (p # qs)"
    have bd: "frag_body p = drop h C" "frag_bytes p = (if d then set_protected C else C)"
      by (simp_all add: p frag_body_def frag_bytes_def C_def)
    have "concat (map frag_body (p # qs)) = drop h S" using r by (simp add: c(1))
    then have b: "drop h C @ concat (map frag_body qs) = drop h S" by (simp add: bd)
    have J: "drop h J = drop h S" "\<forall>i < h. i \<notin> {1, 22, 23} \<longrightarrow> J ! i = C ! i" "J ! 1 AND 3 = C ! 1 AND 3" "h \<le> length J"
      using b hC h24 set_protected_hdr(3,5) [of C]
      by (auto simp: J_def frags_joined_def bd nth_append set_protected_def)
    have l: "24 \<le> length X" using arg_cong [OF d(2) [unfolded assembled_def], of length] J(4) h24
      by (simp add: clear_protected_def X_def J_def)
    note e = clear_protected_eq [OF d(2) [unfolded assembled_def append_Nil, folded X_def J_def] l]
    have "X = take h X @ drop h S" using e(2) [of h] J(1) h24 append_take_drop_id [of h X] by simp
    then have "concat (m_segs m) = take h X @ drop h S" by (simp only: X_def [symmetric])
    moreover have "take h X ! 1 AND 3 = S ! 1 AND 3" using e(4) J(3) h0(2) h24 by (simp add: ms C_def)
    moreover have "\<forall>i < h. i \<notin> {1, 22, 23} \<longrightarrow> take h X ! i = S ! i"
      using e(1,3) J(2,4) h0(1) by (simp add: ms C_def)
    moreover have "length (take h X) = h" using e(1) J(4) by simp
    ultimately show ?thesis using d(1,3) unfolding c(1,2) by blast
  qed
  then show ?thesis using f(1,4) unfolding S_def by blast
qed

definition ex_whole :: mbuf where
  "ex_whole = \<lparr>m_segs = [ex_data 2 0x10 @ [1, 2], [3, 4, 5, 6, 7], [8, 9, 10, 11, 12, 13]], m_rxs = None, m_flags = 0\<rparr>"

lemma ex_fragment_run:
  "map_option (\<lambda>(ok, ms, _). (ok, map m_segs ms)) (ieee80211_fragment (ex_tx_sys M_STA 40) ex_whole 24 8 37 ex_tx) =
    Some (True, [[ex_data 6 0x10 @ [1, 2], [3, 4, 5], []], [ex_data 6 0x11 @ [6, 7, 8, 9, 10]], [ex_data 2 0x12 @ [11, 12, 13]]])"
  by code_simp

theorem fragment_defrag_witness:
  "\<exists>ms tx' m hdr ni'. ieee80211_fragment (ex_tx_sys M_STA 40) ex_whole 24 8 37 ex_tx = Some (True, ms, tx') \<and> length ms = 3 \<and>
    (\<forall>f \<in> set ms. pktlen (m_segs f) + 8 \<le> 37) \<and>
    defrag_run (@) (map2 Frag [0, 1, 2] (map (\<lambda>f. (f, 24, True)) ms)) (ex_ni 0) = Some ([m], ni') \<and>
    concat (m_segs m) = hdr @ [1, 2, 3, 4, 5, 6, 7, 8, 9, 10, 11, 12, 13] \<and> length hdr = 24"
proof -
  have r: "24 = (if ic_flags (cn_vap (tx_cn ex_tx)) AND 0x00080000 \<noteq> 0 then roundup 24 4 else 24)"
    "i_seq (mtod ex_whole) AND 15 = 0" "m_segs ex_whole \<noteq> []" "(24 :: nat) \<le> length (mtod ex_whole)"
    "pktlen (m_segs ex_whole) = 37" "drop 24 (concat (m_segs ex_whole)) = [1, 2, 3, 4, 5, 6, 7, 8, 9, 10, 11, 12, 13]"
    "\<forall>n. m_get2 (ex_tx_sys M_STA 40) n" "\<forall>n. length (tx_junk (ex_tx_sys M_STA 40) n) = n"
    by (simp_all add: ex_tx_def ex_vap_def ex_whole_def ex_data_def i_seq_def byte_simps pktlen_def ex_tx_sys_def)
  have n: "(5 :: nat) = 37 - (24 + 8)" "(0 :: nat) < 5" "37 - 8 < pktlen (m_segs ex_whole)"
    "pktlen (m_segs ex_whole) \<le> 24 + 16 * 5" "(24 :: nat) \<le> 24" by (simp_all add: r(5))
  note d = fragment_defrag [OF r(3,4) n(5) r(4,2,1) n(1-4) r(7,8) ex_frags_facts(1-3)]
  obtain ms tx' where ms: "ieee80211_fragment (ex_tx_sys M_STA 40) ex_whole 24 8 37 ex_tx = Some (True, ms, tx')"
    "map m_segs ms = [[ex_data 6 0x10 @ [1, 2], [3, 4, 5], []], [ex_data 6 0x11 @ [6, 7, 8, 9, 10]], [ex_data 2 0x12 @ [11, 12, 13]]]"
    using ex_fragment_run by fastforce
  then obtain f g h where l: "ms = [f, g, h]" "m_segs f = [ex_data 6 0x10 @ [1, 2], [3, 4, 5], []]"
    "m_segs g = [ex_data 6 0x11 @ [6, 7, 8, 9, 10]]" "m_segs h = [ex_data 2 0x12 @ [11, 12, 13]]" by auto
  have v: "list_all2 (receives 24 True) ms (map (\<lambda>f. (f, 24, True)) ms)"
    unfolding l(1) by (simp add: receives_def l(2-) ex_data_def)
  have len: "length [0 :: u32, 1, 2] = length (map (\<lambda>f. (f, 24 :: nat, True)) ms)" "length ms = 3" by (simp_all add: l(1))
  obtain ms1 tx1 where o: "ieee80211_fragment (ex_tx_sys M_STA 40) ex_whole 24 8 37 ex_tx = Some (True, ms1, tx1)"
    "\<forall>f \<in> set ms1. pktlen (m_segs f) + 8 \<le> 37"
    and all: "\<forall>d ps ts. list_all2 (receives 24 d) ms1 ps \<longrightarrow> length ts = length ps \<longrightarrow>
      (\<exists>m hdr ni'. defrag_run (@) (map2 Frag ts ps) (ex_ni 0) = Some ([m], ni') \<and> ni_rxfrag ni' = None \<and>
        concat (m_segs m) = hdr @ drop 24 (concat (m_segs ex_whole)) \<and> length hdr = 24 \<and>
        hdr ! 1 AND 3 = concat (m_segs ex_whole) ! 1 AND 3 \<and>
        (\<forall>i < 24. i \<notin> {1, 22, 23} \<longrightarrow> hdr ! i = concat (m_segs ex_whole) ! i))"
    using d by blast
  have e: "ms1 = ms" using o(1) ms(1) by simp
  show ?thesis
    using all [unfolded e r(6), rule_format, OF v len(1)] o [unfolded e] len(2) by blast
qed

end
