(* ===== verification/ClassifyProps.thy ===== *)
theory ClassifyProps
  imports OutputProps
begin

text \<open>The class a frame is queued in.\<close>

section \<open>Admission control\<close>

lemma wme_acm_ac_admitted:
  "ac < 4 \<Longrightarrow> wme_acm_ac acm ac < 4 \<and> (wme_acm_ac acm ac = 1 \<or> \<not> acm ! wme_acm_ac acm ac)"
proof (induction acm ac rule: wme_acm_ac.induct)
  case (1 acm ac)
  then show ?case by (subst (1 2 3) wme_acm_ac.simps) auto
qed

lemma wme_acm_ac_free: "\<not> acm ! ac \<Longrightarrow> wme_acm_ac acm ac = ac"
  by (subst wme_acm_ac.simps) simp

lemma TID_TO_WME_AC_less: "TID_TO_WME_AC t < 4"
  by (simp add: TID_TO_WME_AC_def)

lemma dscp_ac_less: "dscp_ac t segs = Some d \<Longrightarrow> d < 4"
  by (auto simp: dscp_ac_def TID_TO_WME_AC_less split: if_splits)


definition ex_pae :: mbuf where
  "ex_pae = \<lparr>m_segs = [replicate 6 2 @ replicate 6 6 @ [0x88, 0x8e], [1, 0]], m_rxs = None, m_flags = 0\<rparr>"

lemma ex_classes:
  "map_option (map_option (\<lambda>(ac, m'). (ac, m_flags m')) \<circ> fst) (ieee80211_classify (ex_tx_sys M_STA 2346) 0 ex_pae ex_tx) =
    Some (Some (3, 0x4000))"
  "map_option fst (ieee80211_classify ((ex_tx_sys M_HOSTAP 2346)\<lparr>tx_vlan := 0x2001\<rparr>) 1 (ex_eth False 3) ex_tx) = Some None"
  "m_flags (ex_eth False 3) = 0"
  by code_simp+


text \<open>
  The classes are compared by their numbers, in which background comes above best effort: a
  VLAN with background priority turns best effort packets into background ones.
\<close>

lemma classify_prefers_background:
  "map_option (map_option fst \<circ> fst) (ieee80211_classify ((ex_tx_sys M_HOSTAP 2346)\<lparr>tx_vlan := 0x2001\<rparr>) 1
     ((ex_eth False 3)\<lparr>m_flags := M_VLANTAG\<rparr>) ex_tx) = Some (Some 1)"
  by code_simp

end
