(* ===== verification/ApToSta.thy ===== *)
theory ApToSta
  imports OutputProps
begin

text \<open>
  The two ends together: an Ethernet frame given to an access point's \<open>ieee80211_encap\<close> and
  the crypto core comes out of the receive function of its stations.
\<close>

section \<open>A group frame is always sent\<close>

definition tx_alloc :: "'c tx_sys \<Rightarrow> bool" where
  "tx_alloc sys \<longleftrightarrow> (\<forall>s. m_unshare sys s \<noteq> None) \<and> m_gethdr sys \<and> (\<forall>s n. env_pre (tx_crypto sys) s n \<noteq> None)"

lemma adjust_total: "tx_alloc sys \<Longrightarrow> \<exists>m'. ieee80211_mbuf_adjust sys h key m tx = (Some m', tx)"
proof -
  assume a: "tx_alloc sys"
  then obtain s where "m_unshare sys (m_segs m) = Some s" unfolding tx_alloc_def by blast
  then show ?thesis using a by (auto simp: ieee80211_mbuf_adjust_def Let_def tx_alloc_def split: option.splits)
qed

lemma protect_total:
  assumes "key_template (fst (key_of (tx_cn tx) r)) = Some c" "ic_miclen c = 0" "m_flags m AND M_EAPOL = 0"
  shows "encap_protect sys (Some r) f m tx = Some (True, hdr_update set_protected m, tx)"
proof -
  obtain k ctx where k: "key_of (tx_cn tx) r = (k, ctx)" by fastforce
  have "key_set r (key_of (tx_cn tx) r) ((tx_cn tx)\<lparr>cn_vap := cn_vap (tx_cn tx)\<rparr>) = tx_cn tx"
    unfolding key_set_same by simp
  then show ?thesis using assms by (simp add: encap_protect_def ieee80211_crypto_enmic_def k)
qed

lemma ap_encap:
  assumes ok: "tx_ok sys" "tx_alloc sys" and m: "m_segs m \<noteq> []" "14 \<le> length (mtod m)"
    and ap: "iv_opmode sys = M_HOSTAP" "iv_flags_ext sys AND FEXT_4ADDR = 0"
    and fl: "m_flags m AND (M_MCAST OR M_BCAST) \<noteq> 0" "m_flags m AND M_EAPOL = 0" "m_flags m AND M_FF = 0"
    and mc: "IEEE80211_IS_MULTICAST (take 6 (concat (m_segs m)))"
    and k: "encap_key sys (take 6 (concat (m_segs m))) (tx_cn tx) = Some (Some r)"
      "key_template (fst (key_of (tx_cn tx) r)) = Some c" "ic_miclen c = 0"
  shows "\<exists>wh pad m1 m2 sq tx'. ieee80211_encap sys ac m tx = Some (Some ([m2], sq), tx') \<and>
    encapsulates sys (ic_flags (cn_vap (tx_cn tx))) m wh pad m1 \<and> m_segs m2 = m_segs (hdr_update set_protected m1) \<and>
    tx_cn tx' = tx_cn tx \<and> length wh = 24"
proof -
  obtain eh addqos is4addr hdrsize hdrspace
    where v: "encap_vals sys m (ic_flags (cn_vap (tx_cn tx))) eh addqos is4addr hdrsize hdrspace"
    using encap_valsI [of sys m "ic_flags (cn_vap (tx_cn tx))"] by auto
  note d = encap_vals_facts [OF v m(2,1)]
  have q: "\<not> addqos" "\<not> is4addr"
    using v fl(1) ap by (simp_all add: encap_vals_def encap_addqos_def encap_is4addr_def)
  obtain m0 where a: "ieee80211_mbuf_adjust sys hdrspace (Some r) m tx = (Some m0, tx)"
    using adjust_total [OF ok(2)] by blast
  note s = mbuf_adjust_shape [OF ok(1) a m]
  obtain segs where p: "env_pre (tx_crypto sys) (splice (hd (m_adj_front (14 - 8) (m_segs m0))) 0 (LLC_SNAP @ drop 12 eh) #
        tl (m_adj_front (14 - 8) (m_segs m0))) hdrspace = Some segs"
    using ok(2) unfolding tx_alloc_def by blast
  have x: "encap_addrs sys is4addr (take 6 eh) (take 6 (drop 6 eh)) =
      Some (2, take 6 eh @ tx_bssid sys @ take 6 (drop 6 eh), [])"
    using q(2) ap by (simp add: encap_addrs_def)
  have nq: "\<not> (addqos \<and> length (wmep_noackPolicy sys) \<le> ac)" using q by simp
  obtain wh pad m1 tx1 dl seq qq sq where
    w: "encap_write sys ac (Some r) addqos is4addr hdrsize hdrspace eh m0 tx =
      (case encap_finish sys (Some r) hdrsize dl m1 tx1 of None \<Rightarrow> None | Some (None, tx) \<Rightarrow> Some (None, tx)
       | Some (Some ms, tx) \<Rightarrow> Some (Some (ms, sq), tx))"
    and sh: "data_hdr wh (take 6 eh) (take 6 (drop 6 eh))" "length wh = hdrsize" "length (wh @ pad) = hdrspace"
      "concat (m_segs m1) = wh @ pad @ (LLC_SNAP @ drop 12 eh) @ drop 14 (concat (m_segs m0))" "m_segs m1 \<noteq> []"
      "hdrspace \<le> length (mtod m1)" "m_flags m1 = m_flags m0" "m_rxs m1 = m_rxs m0" "tx_cn tx1 = tx_cn tx"
      "wh = encap_wh addqos (2 OR (if m_flags m0 AND M_MORE_DATA \<noteq> 0 then 0x20 else 0))
         (take 6 eh @ tx_bssid sys @ take 6 (drop 6 eh)) seq [] qq"
    using encap_write_eq [OF ok(1) s(2,3) d(4,7,5,6) p x nq, of "Some r" tx] by blast
  have enc: "encapsulates sys (ic_flags (cn_vap (tx_cn tx))) m wh pad m1"
    by (rule encapsulates_intro [OF ok(1) v m(2,1) s(4-6) sh(1-8) x sh(10)])
  have "IEEE80211_IS_MULTICAST (i_addr1 (mtod m1))"
  proof -
    obtain z where "mtod m1 = wh @ z"
      using append_prefix [of "mtod m1" "concat (tl (m_segs m1))" wh] sh(2,3,4,6) concat_hd_tl [OF sh(5)] by auto
    moreover have "i_addr1 wh = take 6 (concat (m_segs m))" using enc ap by (simp add: encapsulates_def Let_def)
    ultimately show ?thesis using mc encapsulates_len [OF enc] by (simp add: i_addr1_def)
  qed
  then have "encap_txfrag sys m1 = False" "IEEE80211_IS_MULTICAST (i_addr1 (mtod m1))" by (simp_all add: encap_txfrag_def)
  moreover have "encap_protect sys (Some r) False m1 tx1 = Some (True, hdr_update set_protected m1, tx1)"
    using k fl(2) sh(7,9) s(5) by (intro protect_total) simp_all
  ultimately have "\<exists>m2 tx2. encap_finish sys (Some r) hdrsize dl m1 tx1 = Some (Some [m2], tx2) \<and>
      m_segs m2 = m_segs (hdr_update set_protected m1) \<and> tx_cn tx2 = tx_cn tx1"
    by (simp add: encap_finish_def tx_stat_def)
  then obtain m2 tx2 where f: "encap_finish sys (Some r) hdrsize dl m1 tx1 = Some (Some [m2], tx2)"
    "m_segs m2 = m_segs (hdr_update set_protected m1)" "tx_cn tx2 = tx_cn tx1" by blast
  have "ieee80211_encap sys ac m tx = Some (Some ([m2], sq), tx2)"
    using encap_eq [OF v m(2) k(1) [folded d(1)], of ac] k(2) fl(3) a w f(1) by simp
  then show ?thesis using enc f(2,3) sh(2,9) d(7) q by auto
qed

section \<open>From the access point's interface to the stations'\<close>

text \<open>
  C1. A multicast Ethernet frame that an access point with privacy on is given to send reaches
  the network stack of every ready station (authorized, with privacy on and no bridge link):
  \<open>ieee80211_encap\<close> makes one frame of it, which \<open>ieee80211_crypto_encap\<close> protects with the group key, and what \<open>sta_input\<close> of a station that
  holds this key and has not seen the packet number delivers in addition is the Ethernet
  frame, byte for byte. This is for CCMP in software on both sides, for a sender whose mbufs
  behind the first have a whole cipher block each (all but the last), for types other than
  AppleTalk ARP and IPX, and for a station that receives the frame outside an A-MPDU session
  (neither A-MPDU flag on its mbuf) and with header, IV and all data in the first mbuf; only
  the MIC may be cut in any way. (Of a block that straddles mbufs the receiver authenticates
  only the first part, lemma \<open>ccmp_decrypt_straddle_unauthenticated\<close>.)
\<close>

theorem ap_to_station:
  assumes sys: "tx_ok sys" "tx_alloc sys" "iv_opmode sys = M_HOSTAP" "iv_flags_ext sys AND FEXT_4ADDR = 0"
    and m: "m_segs m \<noteq> []" "14 \<le> length (mtod m)" "m_flags m AND (M_MCAST OR M_BCAST) \<noteq> 0" "m_flags m AND M_EAPOL = 0"
      "m_flags m AND M_FF = 0"
    and E: "E = concat (m_segs m)" "IEEE80211_IS_MULTICAST (take 6 E)" "take 2 (drop 12 E) \<noteq> be16 0x80f3"
      "take 2 (drop 12 E) \<noteq> be16 0x8137"
    and env: "env = tx_crypto sys" "\<forall>c. block_cipher (env_aes env c)" "prepends (env_pre env)" "appends (env_app env)"
      "\<forall>segs bs. env_app env segs bs \<noteq> None"
    and ns: "ns = tx_cn tx" "iv_flags (cn_vap ns) AND F_TX_PRIVACY \<noteq> 0" "unat (iv_def_txkey ns) = i" "i < 4"
      "i < length (iv_nw_keys ns)" "iv_nw_keys ns ! i = (ks, CcmpCtx c)" "wk_cipher ks = CIPHER_AES_CCM" "wk_nwidx ks = Some i"
      "\<not> has_flag (wk_flags ks) KEY_NOIV" "has_flag (wk_flags ks) KEY_SWENCRYPT" "wk_keytsc ks + 1 = tsc" "tsc < 2 ^ 48"
    and nr: "i < length (iv_nw_keys (sta_cn st))" "iv_nw_keys (sta_cn st) ! i = (kr, CcmpCtx c)"
      "wk_cipher kr = CIPHER_AES_CCM" "has_flag (wk_flags kr) KEY_SWDECRYPT" "wk_keyrsc kr ! 16 < tsc"
    and st: "pullups (sys_pull rsys)" "\<forall>s n. n \<le> pktlen s \<longrightarrow> sys_pull rsys s n \<noteq> None" "env_aes (sys_env rsys) = env_aes env"
      "IEEE80211_ADDR_EQ (tx_bssid sys) (ni_bssid st)" "\<not> IEEE80211_ADDR_EQ (take 6 (drop 6 E)) (sys_myaddr rsys)"
      "sta_flags st AND F_DWDS = 0" "sta_flags st AND F_PRIVACY \<noteq> 0" "node_is_authorized (sta_ni st)"
  shows "\<exists>m1 sq tx'. ieee80211_encap sys ac m tx = Some (Some ([m1], sq), tx') \<and>
    (wide (tl (m_segs m1)) \<longrightarrow>
      (\<exists>ns' m2. ieee80211_crypto_encap env (tx_cn tx') m1 = Some (Some (NwKey i), ns', m2) \<and>
        (\<forall>mr. concat (m_segs mr) = concat (m_segs m2) \<longrightarrow> ccmp_rx_frame 24 mr \<longrightarrow>
          m_flags mr AND M_AMPDU_MPDU = 0 \<longrightarrow> m_flags mr AND M_AMPDU = 0 \<longrightarrow>
          (\<exists>st'. sta_input rsys rssi nf None mr st = Some (TYPE_DATA, st') \<and>
            delivered_bytes (sta_ni st') = delivered_bytes (sta_ni st) @ [E]))))"
proof -
  have "iv_def_txkey ns \<noteq> 0xffff" using ns(3,4) by (auto simp: unsigned_of_nat)
  then have k: "encap_key sys (take 6 E) (tx_cn tx) = Some (Some (NwKey i))"
    using ns sys(3) E(2)
    by (simp add: encap_key_def ieee80211_crypto_getmcastkey_def KEY_UNDEFINED_def Let_def cipher_ids)
  have t: "key_template (fst (key_of (tx_cn tx) (NwKey i))) = Some ccmp_template" "ic_miclen ccmp_template = 0"
    using ns by (simp_all add: key_template_def ccmp_template_def cipher_ids)
  obtain wh pad m0 m1 sq tx' where e: "ieee80211_encap sys ac m tx = Some (Some ([m1], sq), tx')" "tx_cn tx' = tx_cn tx"
    and enc: "encapsulates sys (ic_flags (cn_vap (tx_cn tx))) m wh pad m0" "m_segs m1 = m_segs (hdr_update set_protected m0)"
      "length wh = 24"
    using ap_encap [OF sys(1,2) m(1,2) sys(3,4) m(3-5) E(2) [unfolded E(1)] k [unfolded E(1)] t, of ac] by blast
  note D = enc(1) [unfolded encapsulates_def Let_def, folded E(1)]
  define w where "w = set_protected wh"
  have hz: "ieee80211_hdrsize wh = 24" using D enc(3) by (simp add: data_hdr_def)
  then have sp: "ieee80211_hdrspace f wh = 24" for f by (simp add: ieee80211_hdrspace_def roundup_def)
  then have pad: "pad = []" using D enc(3) by simp
  note p = set_protected_hdr [of wh, unfolded enc(3), simplified, folded w_def]
  have b: "concat (m_segs m1) = w @ (LLC_SNAP @ take 2 (drop 12 E)) @ drop 14 E" "m_segs m1 \<noteq> []" "take 24 (mtod m1) = w"
    "24 \<le> length (mtod m1)"
    using sent_frame [OF enc(1), of "hdr_update set_protected m0"] enc(2,3) by (auto simp: pad E(1) sent_hdr_def w_def)
  have llc: "length (LLC_SNAP @ take 2 (drop 12 E)) = 8"
    using m(2) concat_hd_tl [OF m(1)] by (simp add: E(1) LLC_SNAP_def)
  have g: "group_hdr w"
    using D p E(2) sys(3,4) hz by (auto simp: group_hdr_def data_hdr_def IEEE80211_IS_PROTECTED_def)
  have sp': "24 = ieee80211_hdrspace f w" for f using sp p by (simp add: ieee80211_hdrspace_def)
  have x: "\<not> ccmp_exempt ks (mtod m1)"
  proof -
    have "mtod m1 ! 0 = w ! 0" using arg_cong [OF b(3), of "\<lambda>x. x ! 0"] b(4) by simp
    then show ?thesis using g ns(9) by (simp add: ccmp_exempt_def IEEE80211_IS_MGMT_def group_hdr_def)
  qed
  have tid: "ieee80211_gettid w = 16" using p hz by (simp add: ieee80211_gettid_def ieee80211_hdrsize_def split: if_splits)
  have rd: "sta_ready rsys w st" using st p D sys(3,4) by (simp add: sta_ready_def)
  define qos where "qos = (if w ! 0 AND 0xf0 = 0x80 then ieee80211_getqos w else 0)"
  have q: "qos AND 0x80 = 0" using g by (simp add: qos_def group_hdr_def)
  have "ether_frame w (LLC_SNAP @ take 2 (drop 12 E)) (drop 14 E) qos = E"
  proof -
    have "llc_stripped (LLC_SNAP @ take 2 (drop 12 E)) qos"
      using E(3,4) q llc by (simp add: llc_stripped_def LLC_SNAP_def)
    moreover have "ether_hosts w = (take 6 E, take 6 (drop 6 E))" using p D by (simp add: data_hdr_def)
    moreover have "drop 6 E = take 6 (drop 6 E) @ drop 12 E" "drop 12 E = take 2 (drop 12 E) @ drop 14 E"
      using append_take_drop_id [of 6 "drop 6 E"] append_take_drop_id [of 2 "drop 12 E"] by simp_all
    ultimately show ?thesis by (simp add: ether_frame_def LLC_SNAP_def)
  qed
  moreover have "\<forall>segs n. env_pre env segs n \<noteq> None" using sys(2) env(1) by (simp add: tx_alloc_def)
  ultimately show ?thesis
    using e sta_group_delivered [OF env(2-4) _ env(5) b(2,1,3,4) _ sp' g llc ns(3-8) x ns(10-12) nr(1-4) nr(5) [folded tid]
        rd st(3) sp' qos_def, of rssi nf] ns(1) by fastforce
qed

lemma ex_ap_run:
  "map_option (\<lambda>(r, tx). map_option (\<lambda>(ms, _). (map (map length \<circ> m_segs) ms,
       map_option (\<lambda>(_, _, m2). length (concat (m_segs m2))) (ieee80211_crypto_encap ex_env (tx_cn tx) (hd ms)))) r)
     (ieee80211_encap (ex_tx_sys M_HOSTAP 2346) 0 (ex_eth True 20) ex_tx) = Some (Some ([[32, 20]], Some 68))"
  by code_simp

lemma ex_ap_facts:
  "tx_alloc (ex_tx_sys mode thr)" "iv_opmode (ex_tx_sys mode thr) = mode" "iv_flags_ext (ex_tx_sys mode thr) AND FEXT_4ADDR = 0"
  "ex_env = tx_crypto (ex_tx_sys mode thr)" "m_segs (ex_eth bc n) \<noteq> []" "14 \<le> length (mtod (ex_eth bc n))"
  "m_flags (ex_eth True n) AND (M_MCAST OR M_BCAST) \<noteq> 0" "m_flags (ex_eth True n) AND M_EAPOL = 0"
  "m_flags (ex_eth True n) AND M_FF = 0" "iv_flags (cn_vap (tx_cn ex_tx)) AND F_TX_PRIVACY \<noteq> 0"
  "iv_def_txkey (tx_cn ex_tx) = 1" "iv_nw_keys (tx_cn ex_tx) = iv_nw_keys (ex_node 8)"
  by (simp_all add: tx_alloc_def ex_tx_sys_def ex_env_def ex_eth_def ex_tx_def ex_vap_def ex_node_def)

theorem ap_to_station_witness:
  "\<exists>m1 sq tx' ns' m2 st'. ieee80211_encap (ex_tx_sys M_HOSTAP 2346) 0 (ex_eth True 20) ex_tx = Some (Some ([m1], sq), tx') \<and>
    ieee80211_crypto_encap ex_env (tx_cn tx') m1 = Some (Some (NwKey 1), ns', m2) \<and>
    sta_input ex_sys 20 0 None \<lparr>m_segs = [concat (m_segs m2)], m_rxs = None, m_flags = 0\<rparr> (ex_sta 0x10 1) = Some (8, st') \<and>
    delivered_bytes (sta_ni st') = [concat (m_segs (ex_eth True 20))]"
proof -
  define E where "E = concat (m_segs (ex_eth True 20))"
  have "take 6 E = [255, 255, 255, 255, 255, 255]" "take 2 (drop 12 E) = [8, 0]" "take 6 (drop 6 E) = [6, 6, 6, 6, 6, 6]"
    unfolding E_def by code_simp+
  then have E: "IEEE80211_IS_MULTICAST (take 6 E)" "take 2 (drop 12 E) \<noteq> be16 0x80f3" "take 2 (drop 12 E) \<noteq> be16 0x8137"
    "\<not> IEEE80211_ADDR_EQ (take 6 (drop 6 E)) (sys_myaddr ex_sys)"
    by (simp_all add: IEEE80211_IS_MULTICAST_def be16_def lo8_def hi8_def ex_sys_def IEEE80211_ADDR_EQ_def)
  have e: "\<forall>c. block_cipher (env_aes ex_env c)" "prepends (env_pre ex_env)" "appends (env_app ex_env)"
    "\<forall>segs bs. env_app ex_env segs bs \<noteq> None"
    by (simp_all add: ex_env_def toy_aes_block prepends_front appends_at_end)
  note f = ex_ap_facts and f8 = ex_node_facts [of 8] and f0 = ex_node_facts [of 0]
  have n: "(1 :: nat) < 4" "(9 :: u64) < 2 ^ 48" "unat (iv_def_txkey (tx_cn ex_tx)) = 1" by (simp_all add: f(11))
  have t: "wk_keytsc ((ex_key 8)\<lparr>wk_cipher := CIPHER_AES_CCM\<rparr>) + 1 = 9"
    "\<not> has_flag (wk_flags ((ex_key 8)\<lparr>wk_cipher := CIPHER_AES_CCM\<rparr>)) KEY_NOIV"
    by (simp_all add: ex_key_def has_flag_def KEY_NOIV_def)
  have r: "1 < length (iv_nw_keys (sta_cn (ex_sta 0x10 1)))"
    "iv_nw_keys (sta_cn (ex_sta 0x10 1)) ! 1 = ((ex_key 0)\<lparr>wk_cipher := CIPHER_AES_CCM\<rparr>, CcmpCtx \<lparr>cc_aes = replicate 16 7\<rparr>)"
    "wk_keyrsc ((ex_key 0)\<lparr>wk_cipher := CIPHER_AES_CCM\<rparr>) ! 16 < 9"
    using f0(2,3) by (simp_all add: ex_sta_def ex_key_def)
  have s: "pullups (sys_pull ex_sys)" "\<forall>s n. n \<le> pktlen s \<longrightarrow> sys_pull ex_sys s n \<noteq> None" "env_aes (sys_env ex_sys) = env_aes ex_env"
    "IEEE80211_ADDR_EQ (tx_bssid (ex_tx_sys M_HOSTAP 2346)) (ni_bssid (ex_sta 0x10 1))" "sta_flags (ex_sta 0x10 1) AND F_DWDS = 0"
    "sta_flags (ex_sta 0x10 1) AND F_PRIVACY \<noteq> 0" "node_is_authorized (sta_ni (ex_sta 0x10 1))"
    "delivered_bytes (sta_ni (ex_sta 0x10 1)) = []"
    using ex_mbuf_facts(1,2)
    by (simp_all add: ex_sys_def ex_tx_sys_def ex_sta_def IEEE80211_ADDR_EQ_def ex_vap_def node_is_authorized_def
        delivered_bytes_def ex_ni_def)
  obtain m1 sq tx' where a: "ieee80211_encap (ex_tx_sys M_HOSTAP 2346) 0 (ex_eth True 20) ex_tx = Some (Some ([m1], sq), tx')"
    and w: "wide (tl (m_segs m1)) \<longrightarrow>
      (\<exists>ns' m2. ieee80211_crypto_encap ex_env (tx_cn tx') m1 = Some (Some (NwKey 1), ns', m2) \<and>
        (\<forall>mr. concat (m_segs mr) = concat (m_segs m2) \<longrightarrow> ccmp_rx_frame 24 mr \<longrightarrow>
          m_flags mr AND M_AMPDU_MPDU = 0 \<longrightarrow> m_flags mr AND M_AMPDU = 0 \<longrightarrow>
          (\<exists>st'. sta_input ex_sys 20 0 None mr (ex_sta 0x10 1) = Some (TYPE_DATA, st') \<and>
            delivered_bytes (sta_ni st') = delivered_bytes (sta_ni (ex_sta 0x10 1)) @ [E])))"
    using ap_to_station [OF ex_tx_ok(1) f(1-3) f(5-9) E_def E(1-3) f(4) e refl f(10) n(3,1) f8(2) [folded f(12)]
        f8(3) [folded f(12)] f8(4,5) t(2) f8(7) t(1) n(2) r(1,2) f0(4,8) r(3) s(1-4) E(4) s(5-7), of 0 20 0] by blast
  have l: "map length (m_segs m1) = [32, 20]"
    "map_option (\<lambda>(_, _, m2). length (concat (m_segs m2))) (ieee80211_crypto_encap ex_env (tx_cn tx') m1) = Some 68"
    using ex_ap_run a by simp_all
  then have "wide (tl (m_segs m1))" by (auto simp: wide_def)
  then obtain ns' m2 where c: "ieee80211_crypto_encap ex_env (tx_cn tx') m1 = Some (Some (NwKey 1), ns', m2)"
    and d: "\<forall>mr. concat (m_segs mr) = concat (m_segs m2) \<longrightarrow> ccmp_rx_frame 24 mr \<longrightarrow>
      m_flags mr AND M_AMPDU_MPDU = 0 \<longrightarrow> m_flags mr AND M_AMPDU = 0 \<longrightarrow>
      (\<exists>st'. sta_input ex_sys 20 0 None mr (ex_sta 0x10 1) = Some (TYPE_DATA, st') \<and>
        delivered_bytes (sta_ni st') = delivered_bytes (sta_ni (ex_sta 0x10 1)) @ [E])"
    using w by blast
  have "length (concat (m_segs m2)) = 68" using l(2) c by simp
  then have "ccmp_rx_frame 24 \<lparr>m_segs = [concat (m_segs m2)], m_rxs = None, m_flags = 0\<rparr>"
    by (simp add: ccmp_rx_frame_def pktlen_def)
  then show ?thesis
    using a c d [rule_format, of "\<lparr>m_segs = [concat (m_segs m2)], m_rxs = None, m_flags = 0\<rparr>"] s(8) unfolding E_def by auto
qed

end
