(* ===== verification/PowerSave.thy ===== *)
theory PowerSave
  imports Errno "HOL-Library.Signed_Division"
begin

text \<open>
  Power save of an access point's stations: the queues of frames for sleeping stations and
  the traffic indication map (freebsd/sys/net80211/ieee80211_power.c), the association ids it
  is indexed with (ieee80211_node.c), the poll by which a station asks for a frame
  (ieee80211_hostap.c), the element of the beacon that carries the map (ieee80211_output.c)
  and the station's test of it (ieee80211_sta.c). The singly linked queues are lists; the
  counters beside them are kept as the code keeps them.
\<close>

section \<open>State\<close>

abbreviation "NODE_PWR_MGT \<equiv> (0x10 :: u32)"
abbreviation "M_PWR_SAV \<equiv> (0x00008000 :: u32)"

text \<open>What the code uses of a frame; \<open>m_age\<close> is 32 bits wide and unsigned.\<close>

record pframe =
  m_flags :: u32
  m_age :: u32
  m_rcvif :: nat
  m_data :: "u8 list"

record psq_head =
  q_frames :: "pframe list"
  q_len :: int

record psq =
  psq_len :: int
  psq_maxlen :: int
  psq_drops :: int
  psq_head0 :: psq_head
  psq_head1 :: psq_head

record ap_node =
  ni_psq :: psq
  ni_flags :: u32
  ni_associd :: u16
  ni_intval :: u16
  ns_ps_discard :: u32

datatype ieee80211_state = S_INIT | S_SCAN | S_AUTH | S_ASSOC | S_CAC | S_RUN | S_CSA | S_SLEEP

datatype ap_event = ParentXmit pframe | VapXmit pframe | Freed pframe | FreeNode nat | NodeReclaimed nat |
  UpdateBeacon | UpdatePs u16 | NullData nat | SendDeauth nat | SendMgmt nat bool | AuthLeave nat | AuthJoin nat |
  SendOn pframe | NewState ieee80211_state

text \<open>What does not change: the size of the maps, and whether the vap has an \<open>iv_set_tim\<close>.\<close>

record ap_cfg =
  iv_max_aid :: nat
  iv_has_tim :: bool
  ic_bintval :: u16

record ap_vap =
  iv_tim_bitmap :: "u8 list"
  iv_aid_bitmap :: "u32 list"
  iv_ps_pending :: u16
  iv_ps_sta :: u16
  iv_sta_assoc :: u16
  ap_nodes :: "ap_node list"
  is_ps_unassoc :: u32
  is_ps_badaid :: u32
  is_ps_qempty :: u32
  is_rx_notassoc :: u32
  if_oerrors :: nat
  ap_events :: "ap_event list"

definition event :: "ap_event \<Rightarrow> ap_vap \<Rightarrow> ap_vap" where
  "event e v = v\<lparr>ap_events := ap_events v @ [e]\<rparr>"

definition ap_on :: "nat \<Rightarrow> (ap_node \<Rightarrow> ap_node) \<Rightarrow> ap_vap \<Rightarrow> ap_vap" where
  "ap_on i f v = v\<lparr>ap_nodes := (ap_nodes v)[i := f (ap_nodes v ! i)]\<rparr>"

abbreviation ap_psq :: "nat \<Rightarrow> ap_vap \<Rightarrow> psq" where
  "ap_psq i v \<equiv> ni_psq (ap_nodes v ! i)"

section \<open>Bit maps\<close>

definition isset :: "u8 list \<Rightarrow> nat \<Rightarrow> bool" where
  "isset bm a \<longleftrightarrow> bm ! (a div 8) AND push_bit (a mod 8) 1 \<noteq> 0"

definition setbit :: "u8 list \<Rightarrow> nat \<Rightarrow> u8 list" where
  "setbit bm a = bm[a div 8 := bm ! (a div 8) OR push_bit (a mod 8) 1]"

definition clrbit :: "u8 list \<Rightarrow> nat \<Rightarrow> u8 list" where
  "clrbit bm a = bm[a div 8 := bm ! (a div 8) AND NOT (push_bit (a mod 8) 1)]"

definition IEEE80211_AID :: "u16 \<Rightarrow> nat" where
  "IEEE80211_AID b = unat (b AND NOT 0xc000)"

definition AID_SET :: "nat \<Rightarrow> u32 list \<Rightarrow> u32 list" where
  "AID_SET a bm = bm[a div 32 := bm ! (a div 32) OR push_bit (a mod 32) 1]"

definition AID_CLR :: "nat \<Rightarrow> u32 list \<Rightarrow> u32 list" where
  "AID_CLR a bm = bm[a div 32 := bm ! (a div 32) AND NOT (push_bit (a mod 32) 1)]"

definition AID_ISSET :: "nat \<Rightarrow> u32 list \<Rightarrow> bool" where
  "AID_ISSET a bm \<longleftrightarrow> bm ! (a div 32) AND push_bit (a mod 32) 1 \<noteq> 0"

section \<open>The queues\<close>

definition ieee80211_psq_init :: psq where
  "ieee80211_psq_init = \<lparr>psq_len = 0, psq_maxlen = 50, psq_drops = 0,
     psq_head0 = \<lparr>q_frames = [], q_len = 0\<rparr>, psq_head1 = \<lparr>q_frames = [], q_len = 0\<rparr>\<rparr>"

definition psq_mfree :: "pframe \<Rightarrow> ap_vap \<Rightarrow> ap_vap" where
  "psq_mfree m v = event (Freed m) (if m_flags m AND M_ENCAP \<noteq> 0 then event (FreeNode (m_rcvif m)) v else v)"

definition ieee80211_node_psq_dequeue :: "psq \<Rightarrow> pframe option \<times> int \<times> psq" where
  "ieee80211_node_psq_dequeue q =
     (case q_frames (psq_head0 q) of
        m # ms \<Rightarrow> (Some m, psq_len q - 1,
          q\<lparr>psq_head0 := \<lparr>q_frames = ms, q_len = q_len (psq_head0 q) - 1\<rparr>, psq_len := psq_len q - 1\<rparr>)
      | [] \<Rightarrow>
          (case q_frames (psq_head1 q) of
             m # ms \<Rightarrow> (Some m, psq_len q - 1,
               q\<lparr>psq_head1 := \<lparr>q_frames = ms, q_len = q_len (psq_head1 q) - 1\<rparr>, psq_len := psq_len q - 1\<rparr>)
           | [] \<Rightarrow> (None, psq_len q, q)))"

text \<open>The drained queues, the number they had, and the frames to free.\<close>

definition psq_drain :: "psq \<Rightarrow> int \<times> pframe list \<times> psq" where
  "psq_drain q = (psq_len q, q_frames (psq_head0 q) @ q_frames (psq_head1 q),
     q\<lparr>psq_head0 := \<lparr>q_frames = [], q_len = 0\<rparr>, psq_head1 := \<lparr>q_frames = [], q_len = 0\<rparr>, psq_len := 0\<rparr>)"

definition ieee80211_node_psq_drain :: "nat \<Rightarrow> ap_vap \<Rightarrow> int \<times> ap_vap" where
  "ieee80211_node_psq_drain i v =
     (case psq_drain (ap_psq i v) of (n, fs, q) \<Rightarrow> (n, fold psq_mfree fs (ap_on i (\<lambda>ni. ni\<lparr>ni_psq := q\<rparr>) v)))"

text \<open>The loop over one queue: what it discards, and the rest.\<close>

fun age_drop :: "pframe list \<Rightarrow> pframe list \<times> pframe list" where
  "age_drop [] = ([], [])"
| "age_drop (m # ms) = (if m_age m < 15 then (case age_drop ms of (ds, rest) \<Rightarrow> (m # ds, rest)) else ([], m # ms))"

text \<open>After both loops \<open>m\<close> is the head of the second queue, whose age alone is adjusted.\<close>

definition psq_age :: "psq \<Rightarrow> pframe list \<times> psq" where
  "psq_age q =
     (case age_drop (q_frames (psq_head0 q)) of (d0, r0) \<Rightarrow>
      case age_drop (q_frames (psq_head1 q)) of (d1, r1) \<Rightarrow>
        (d0 @ d1,
         q\<lparr>psq_head0 := \<lparr>q_frames = r0, q_len = q_len (psq_head0 q) - int (length d0)\<rparr>,
           psq_head1 := \<lparr>q_frames = (case r1 of [] \<Rightarrow> [] | m # ms \<Rightarrow> m\<lparr>m_age := m_age m - 15\<rparr> # ms),
             q_len = q_len (psq_head1 q) - int (length d1)\<rparr>,
           psq_len := psq_len q - int (length d0) - int (length d1)\<rparr>))"

definition ieee80211_node_psq_age :: "nat \<Rightarrow> ap_vap \<Rightarrow> int \<times> ap_vap" where
  "ieee80211_node_psq_age i v =
     (if psq_len (ap_psq i v) = 0 then (0, v)
      else case psq_age (ap_psq i v) of (ds, q) \<Rightarrow>
        (int (length ds), fold psq_mfree ds
          (ap_on i (\<lambda>ni. ni\<lparr>ni_psq := q, ns_ps_discard := ns_ps_discard ni + word_of_nat (length ds)\<rparr>) v)))"

text \<open>The age of a new frame in seconds, in the arithmetic of \<open>int\<close>; the listen interval comes from the peer.\<close>

definition ps_age :: "u16 \<Rightarrow> u16 \<Rightarrow> u32" where
  "ps_age intval bintval = word_of_int ((sint (push_bit 2 (ucast intval * ucast bintval) * 1024 :: u32) sdiv 1000) sdiv 1000)"

definition psq_insert :: "u32 \<Rightarrow> pframe \<Rightarrow> psq \<Rightarrow> psq" where
  "psq_insert age m q =
     (let hi = q_frames (psq_head0 q); lo = q_frames (psq_head1 q); q = q\<lparr>psq_len := psq_len q + 1\<rparr>
      in if m_flags m AND M_ENCAP \<noteq> 0 then
           let (age, lo) =
                 (case hi of h # _ \<Rightarrow> (age - m_age h, lo)
                  | [] \<Rightarrow> (age, (case lo of [] \<Rightarrow> []
                      | l # ls \<Rightarrow> l\<lparr>m_age := (if sint (m_age l - age) < 0 then 0 else m_age l - age)\<rparr> # ls)))
           in q\<lparr>psq_head0 := \<lparr>q_frames = hi @ [m\<lparr>m_age := age\<rparr>], q_len = q_len (psq_head0 q) + 1\<rparr>,
                psq_head1 := (psq_head1 q)\<lparr>q_frames := lo\<rparr>\<rparr>
         else
           let age = (case lo of l # _ \<Rightarrow> age - m_age l
                  | [] \<Rightarrow> (case hi of [] \<Rightarrow> age | h # _ \<Rightarrow> age - m_age h))
           in q\<lparr>psq_head1 := \<lparr>q_frames = lo @ [m\<lparr>m_age := age\<rparr>], q_len = q_len (psq_head1 q) + 1\<rparr>\<rparr>)"

section \<open>The traffic indication map\<close>

definition ieee80211_set_tim :: "nat \<Rightarrow> bool \<Rightarrow> ap_vap \<Rightarrow> (bool \<times> ap_vap) option" where
  "ieee80211_set_tim i on v =
     (let aid = IEEE80211_AID (ni_associd (ap_nodes v ! i)); bm = iv_tim_bitmap v
      in if length bm \<le> aid div 8 then None
         else if on = isset bm aid then Some (False, v)
         else Some (True, event UpdateBeacon
           (if on then v\<lparr>iv_tim_bitmap := setbit bm aid, iv_ps_pending := iv_ps_pending v + 1\<rparr>
            else v\<lparr>iv_tim_bitmap := clrbit bm aid, iv_ps_pending := iv_ps_pending v - 1\<rparr>)))"

definition iv_set_tim :: "ap_cfg \<Rightarrow> nat \<Rightarrow> bool \<Rightarrow> ap_vap \<Rightarrow> ap_vap option" where
  "iv_set_tim cfg i on v = (if iv_has_tim cfg then map_option snd (ieee80211_set_tim i on v) else Some v)"

section \<open>Saving, handing out and flushing\<close>

definition ieee80211_pwrsave :: "ap_cfg \<Rightarrow> nat \<Rightarrow> pframe \<Rightarrow> ap_vap \<Rightarrow> (status \<times> ap_vap) option" where
  "ieee80211_pwrsave cfg i m v =
     (let q = ap_psq i v in
      if psq_len q \<ge> psq_maxlen q then
        Some (Some ENOSPC, psq_mfree m (ap_on i (\<lambda>ni. ni\<lparr>ni_psq := q\<lparr>psq_drops := psq_drops q + 1\<rparr>\<rparr>) v))
      else
        let v = ap_on i (\<lambda>ni. ni\<lparr>ni_psq := psq_insert (ps_age (ni_intval ni) (ic_bintval cfg)) m q\<rparr>) v
        in if psq_len (ap_psq i v) = 1 then map_option (\<lambda>v. (OK, v)) (iv_set_tim cfg i True v)
           else Some (OK, v))"

definition pwrsave_flushq :: "nat \<Rightarrow> ap_vap \<Rightarrow> ap_vap" where
  "pwrsave_flushq i v =
     (let q = ap_psq i v;
          v = ap_on i (\<lambda>ni. ni\<lparr>ni_psq := q\<lparr>psq_head0 := (if q_frames (psq_head0 q) = [] then psq_head0 q else \<lparr>q_frames = [], q_len = 0\<rparr>),
                psq_head1 := (if q_frames (psq_head1 q) = [] then psq_head1 q else \<lparr>q_frames = [], q_len = 0\<rparr>),
                psq_len := 0\<rparr>\<rparr>) v
      in fold (event \<circ> VapXmit) (q_frames (psq_head1 q)) (fold (event \<circ> ParentXmit) (q_frames (psq_head0 q)) v))"

definition ieee80211_node_pwrsave :: "ap_cfg \<Rightarrow> nat \<Rightarrow> bool \<Rightarrow> ap_vap \<Rightarrow> ap_vap option" where
  "ieee80211_node_pwrsave cfg i enable v =
     (let was = ni_flags (ap_nodes v ! i) AND NODE_PWR_MGT \<noteq> 0;
          upd = (\<lambda>v. event (UpdatePs (iv_ps_sta v)) v)
      in if enable then
           let v = (if was then v else v\<lparr>iv_ps_sta := iv_ps_sta v + 1\<rparr>);
               v = ap_on i (\<lambda>ni. ni\<lparr>ni_flags := ni_flags ni OR NODE_PWR_MGT\<rparr>) v
           in Some (if was then v else upd v)
         else
           let v = (if was then v\<lparr>iv_ps_sta := iv_ps_sta v - 1\<rparr> else v);
               v = ap_on i (\<lambda>ni. ni\<lparr>ni_flags := ni_flags ni AND NOT NODE_PWR_MGT\<rparr>) v
           in map_option (\<lambda>v. let v = (if was then upd v else v)
                in if psq_len (ap_psq i v) \<noteq> 0 then pwrsave_flushq i v else v) (iv_set_tim cfg i False v))"

text \<open>The same for the node of a station's own access point.\<close>

definition ieee80211_sta_pwrsave :: "nat \<Rightarrow> bool \<Rightarrow> ap_vap \<Rightarrow> ap_vap" where
  "ieee80211_sta_pwrsave i enable v =
     (if enable = (ni_flags (ap_nodes v ! i) AND NODE_PWR_MGT \<noteq> 0) then v
      else if enable then event (NullData i) (ap_on i (\<lambda>ni. ni\<lparr>ni_flags := ni_flags ni OR NODE_PWR_MGT\<rparr>) v)
      else
        let v = event (NullData i) (ap_on i (\<lambda>ni. ni\<lparr>ni_flags := ni_flags ni AND NOT NODE_PWR_MGT\<rparr>) v)
        in if psq_len (ap_psq i v) \<noteq> 0 then pwrsave_flushq i v else v)"

definition xmit :: "pframe \<Rightarrow> ap_vap \<Rightarrow> ap_vap" where
  "xmit m v = event (if m_flags m AND M_ENCAP \<noteq> 0 then ParentXmit m else VapXmit m) v"

text \<open>\<open>aid\<close> is the number in the poll frame.\<close>

definition ieee80211_recv_pspoll :: "ap_cfg \<Rightarrow> nat \<Rightarrow> u16 \<Rightarrow> ap_vap \<Rightarrow> ap_vap option" where
  "ieee80211_recv_pspoll cfg i aid v =
     (if ni_associd (ap_nodes v ! i) = 0 then
        Some (event (SendDeauth i) (v\<lparr>is_ps_unassoc := is_ps_unassoc v + 1\<rparr>))
      else if aid \<noteq> ni_associd (ap_nodes v ! i) then Some (v\<lparr>is_ps_badaid := is_ps_badaid v + 1\<rparr>)
      else
        case ieee80211_node_psq_dequeue (ap_psq i v) of (r, qlen, q) \<Rightarrow>
          let v = ap_on i (\<lambda>ni. ni\<lparr>ni_psq := q\<rparr>) v
          in case r of
               None \<Rightarrow> iv_set_tim cfg i False ((event (NullData i) v)\<lparr>is_ps_qempty := is_ps_qempty v + 1\<rparr>)
             | Some m \<Rightarrow>
                 if qlen \<noteq> 0 then Some (xmit (m\<lparr>m_flags := m_flags m OR M_MORE_DATA OR M_PWR_SAV\<rparr>) v)
                 else map_option (xmit (m\<lparr>m_flags := m_flags m OR M_PWR_SAV\<rparr>)) (iv_set_tim cfg i False v))"

text \<open>The head of \<open>ieee80211_vap_pkt_send_dest\<close>: a frame for a sleeping
  station is saved, any other is sent on (classified, encapsulated and transmitted).\<close>

definition pkt_send_dest :: "ap_cfg \<Rightarrow> nat \<Rightarrow> pframe \<Rightarrow> ap_vap \<Rightarrow> ap_vap option" where
  "pkt_send_dest cfg i m v =
     (if ni_flags (ap_nodes v ! i) AND NODE_PWR_MGT \<noteq> 0 \<and> m_flags m AND M_PWR_SAV = 0 then
        map_option (\<lambda>(r, v). event (FreeNode i) (if r \<noteq> OK then v\<lparr>if_oerrors := if_oerrors v + 1\<rparr> else v))
          (ieee80211_pwrsave cfg i m v)
      else Some (event (SendOn m) v))"

text \<open>
  The data branch of \<open>hostap_input\<close> for a frame of a station in the node table: the check of
  its association and the power management bit of the frame's \<open>fc1\<close>.
\<close>

definition hostap_ps_check :: "ap_cfg \<Rightarrow> nat \<Rightarrow> u8 \<Rightarrow> ap_vap \<Rightarrow> ap_vap option" where
  "hostap_ps_check cfg i fc1 v =
     (if ni_associd (ap_nodes v ! i) = 0 then
        let v = event (SendMgmt i False) v in Some (v\<lparr>is_rx_notassoc := is_rx_notassoc v + 1\<rparr>)
      else if (ucast (fc1 AND 0x10) :: u32) XOR (ni_flags (ap_nodes v ! i) AND NODE_PWR_MGT) \<noteq> 0
      then ieee80211_node_pwrsave cfg i (fc1 AND 0x10 \<noteq> 0) v
      else Some v)"

section \<open>Joining, leaving, ageing\<close>

definition node_age :: "ap_cfg \<Rightarrow> nat \<Rightarrow> ap_vap \<Rightarrow> ap_vap option" where
  "node_age cfg i v =
     (case ieee80211_node_psq_age i v of (n, v) \<Rightarrow>
        if n \<noteq> 0 \<and> psq_len (ap_psq i v) = 0 then iv_set_tim cfg i False v else Some v)"

text \<open>The part of \<open>node_cleanup\<close> that concerns power save and the association id.\<close>

definition node_cleanup :: "ap_cfg \<Rightarrow> nat \<Rightarrow> ap_vap \<Rightarrow> ap_vap option" where
  "node_cleanup cfg i v =
     (let v = (if ni_flags (ap_nodes v ! i) AND NODE_PWR_MGT \<noteq> 0
               then ap_on i (\<lambda>ni. ni\<lparr>ni_flags := ni_flags ni AND NOT NODE_PWR_MGT\<rparr>) (v\<lparr>iv_ps_sta := iv_ps_sta v - 1\<rparr>) else v)
      in case ieee80211_node_psq_drain i v of (n, v) \<Rightarrow>
         map_option (ap_on i (\<lambda>ni. ni\<lparr>ni_associd := 0\<rparr>))
           (if n \<noteq> 0 then iv_set_tim cfg i False v else Some v))"

definition ieee80211_node_leave :: "ap_cfg \<Rightarrow> nat \<Rightarrow> ap_vap \<Rightarrow> ap_vap option" where
  "ieee80211_node_leave cfg i v =
     (let a = ni_associd (ap_nodes v ! i) in
      if a = 0 then Some (event (NodeReclaimed i) v)
      else
        let v = event (AuthLeave i) v
        in if length (iv_aid_bitmap v) \<le> IEEE80211_AID a div 32 then None
           else map_option (event (NodeReclaimed i))
             (node_cleanup cfg i (v\<lparr>iv_aid_bitmap := AID_CLR (IEEE80211_AID a) (iv_aid_bitmap v),
               iv_sta_assoc := iv_sta_assoc v - 1\<rparr>)))"

definition ieee80211_node_join :: "ap_cfg \<Rightarrow> nat \<Rightarrow> ap_vap \<Rightarrow> ap_vap option" where
  "ieee80211_node_join cfg i v =
     (let ok = event (AuthJoin i) \<circ> event (SendMgmt i True) in
      if ni_associd (ap_nodes v ! i) \<noteq> 0 then Some (ok v)
      else if length (iv_aid_bitmap v) * 32 < iv_max_aid cfg then None
      else
        case find (\<lambda>aid. \<not> AID_ISSET aid (iv_aid_bitmap v)) [1..<iv_max_aid cfg] of
          None \<Rightarrow> ieee80211_node_leave cfg i (event (SendMgmt i False) v)
        | Some aid \<Rightarrow>
            let a = word_of_nat aid OR 0xc000;
                v = ap_on i (\<lambda>ni. ni\<lparr>ni_associd := a\<rparr>) v
            in Some (ok (v\<lparr>iv_aid_bitmap := AID_SET (IEEE80211_AID a) (iv_aid_bitmap v), iv_sta_assoc := iv_sta_assoc v + 1\<rparr>)))"

text \<open>A new station: the part of \<open>ieee80211_alloc_node\<close>; the listen interval is set on association.\<close>

definition ieee80211_alloc_node :: "u16 \<Rightarrow> ap_vap \<Rightarrow> ap_vap" where
  "ieee80211_alloc_node intval v = v\<lparr>ap_nodes := ap_nodes v @
     [\<lparr>ni_psq = ieee80211_psq_init, ni_flags = 0, ni_associd = 0, ni_intval = intval, ns_ps_discard = 0\<rparr>]\<rparr>"

text \<open>When the last reference to a node goes.\<close>

definition free_node :: "ap_cfg \<Rightarrow> nat \<Rightarrow> ap_vap \<Rightarrow> ap_vap option" where
  "free_node cfg i v =
     (let a = ni_associd (ap_nodes v ! i) in
      if a \<noteq> 0 \<and> length (iv_aid_bitmap v) \<le> IEEE80211_AID a div 32 then None
      else node_cleanup cfg i
        (if a \<noteq> 0 then v\<lparr>iv_aid_bitmap := AID_CLR (IEEE80211_AID a) (iv_aid_bitmap v)\<rparr> else v))"

text \<open>What \<open>ieee80211_node_table_reset\<close> does to a node that others still refer to.\<close>

definition node_table_reset :: "nat \<Rightarrow> ap_vap \<Rightarrow> ap_vap option" where
  "node_table_reset i v =
     (let a = ni_associd (ap_nodes v ! i) in
      if a \<noteq> 0 then
        if length (iv_aid_bitmap v) \<le> IEEE80211_AID a div 32 then None
        else Some (event (NodeReclaimed i)
          ((event (AuthLeave i) v)\<lparr>iv_aid_bitmap := AID_CLR (IEEE80211_AID a) (iv_aid_bitmap v)\<rparr>))
      else Some (event (NodeReclaimed i) v))"

section \<open>Runs\<close>

text \<open>What happens to an access point, with the number of the node it concerns.\<close>

datatype ap_op = NewNode u16 | Join nat | Leave nat | Send nat pframe | DataFrame nat u8 | Poll nat u16 | Age nat

fun ap_exec :: "ap_cfg \<Rightarrow> ap_op \<Rightarrow> ap_vap \<Rightarrow> ap_vap option" where
  "ap_exec cfg (NewNode intval) v = Some (ieee80211_alloc_node intval v)"
| "ap_exec cfg (Join i) v = ieee80211_node_join cfg i v"
| "ap_exec cfg (Leave i) v = ieee80211_node_leave cfg i v"
| "ap_exec cfg (Send i m) v = pkt_send_dest cfg i m v"
| "ap_exec cfg (DataFrame i fc1) v = hostap_ps_check cfg i fc1 v"
| "ap_exec cfg (Poll i aid) v = ieee80211_recv_pspoll cfg i aid v"
| "ap_exec cfg (Age i) v = node_age cfg i v"

fun op_node :: "ap_op \<Rightarrow> nat option" where
  "op_node (NewNode intval) = None"
| "op_node (Join i) = Some i"
| "op_node (Leave i) = Some i"
| "op_node (Send i m) = Some i"
| "op_node (DataFrame i fc1) = Some i"
| "op_node (Poll i aid) = Some i"
| "op_node (Age i) = Some i"

definition op_ok :: "ap_op \<Rightarrow> ap_vap \<Rightarrow> bool" where
  "op_ok c v \<longleftrightarrow> (case op_node c of None \<Rightarrow> True | Some i \<Rightarrow> i < length (ap_nodes v))"

text \<open>The state after \<open>ieee80211_power_latevattach\<close> and \<open>ieee80211_node_latevattach\<close>.\<close>

definition ap_init :: "ap_cfg \<Rightarrow> ap_vap" where
  "ap_init cfg = \<lparr>iv_tim_bitmap = replicate ((iv_max_aid cfg + 7) div 8) 0,
     iv_aid_bitmap = replicate ((iv_max_aid cfg + 31) div 32) 0, iv_ps_pending = 0, iv_ps_sta = 0, iv_sta_assoc = 0,
     ap_nodes = [], is_ps_unassoc = 0, is_ps_badaid = 0, is_ps_qempty = 0, is_rx_notassoc = 0, if_oerrors = 0, ap_events = []\<rparr>"

inductive ap_reach :: "ap_cfg \<Rightarrow> ap_vap \<Rightarrow> bool" for cfg where
  reach_init: "ap_reach cfg (ap_init cfg)"
| reach_step: "ap_reach cfg v \<Longrightarrow> op_ok c v \<Longrightarrow> ap_exec cfg c v = Some v' \<Longrightarrow> ap_reach cfg v'"

fun ap_run :: "ap_cfg \<Rightarrow> ap_op list \<Rightarrow> ap_vap \<Rightarrow> ap_vap option" where
  "ap_run cfg [] v = Some v"
| "ap_run cfg (c # cs) v =
     (if \<not> op_ok c v then None else case ap_exec cfg c v of None \<Rightarrow> None | Some v \<Rightarrow> ap_run cfg cs v)"

section \<open>The station's own power save\<close>

text \<open>\<open>i\<close> is the node of the access point, the \<open>iv_bss\<close> of the vap.\<close>

definition ieee80211_sta_tim_notify :: "ieee80211_state \<Rightarrow> u32 \<Rightarrow> nat \<Rightarrow> bool \<Rightarrow> ap_vap \<Rightarrow> ap_vap" where
  "ieee80211_sta_tim_notify iv_state ic_flags_ext i on v =
     (if on \<and> iv_state = S_SLEEP then event (NewState S_RUN) v
      else if on \<and> ic_flags_ext AND 0x00000008 \<noteq> 0 then ieee80211_sta_pwrsave i False v
      else v)"

definition ieee80211_sta_ps_timer_check ::
  "bool \<Rightarrow> bool \<Rightarrow> ieee80211_state \<Rightarrow> u32 \<Rightarrow> u32 \<Rightarrow> u32 \<Rightarrow> nat \<Rightarrow> ap_vap \<Rightarrow> ap_vap" where
  "ieee80211_sta_ps_timer_check c_swsleep is_sta iv_state iv_flags ic_lastdata ticks i v =
     (if \<not> c_swsleep \<or> \<not> is_sta \<or> iv_state \<noteq> S_RUN \<or> iv_flags AND 0x00000800 = 0 \<or>
         ieee80211_time_after (ic_lastdata + 500) ticks then v
      else event (NewState S_SLEEP)
        (if ni_flags (ap_nodes v ! i) AND NODE_PWR_MGT = 0 then ieee80211_sta_pwrsave i True v else v))"

section \<open>The map in the beacon\<close>

text \<open>The element, and the length \<open>bo_tim_len\<close> of its map that the beacon remembers.\<close>

record tim_ie =
  tim_len :: u8
  tim_count :: u8
  tim_period :: u8
  tim_bitctl :: u8
  tim_bitmap :: "u8 list"
  bo_tim_len :: nat

definition tim_range :: "u8 list \<Rightarrow> u16 \<Rightarrow> (nat \<times> nat) option" where
  "tim_range bm pending =
     (if pending = 0 then Some (0, 1)
      else case find (\<lambda>i. bm ! i \<noteq> 0) [0..<length bm] of
             None \<Rightarrow> None
           | Some i \<Rightarrow>
               let timoff = i - i mod 2
               in map_option (\<lambda>j. (timoff, 1 + (j - timoff))) (find (\<lambda>j. bm ! j \<noteq> 0) (rev [timoff..<length bm])))"

definition tim_update :: "u8 list \<Rightarrow> u16 \<Rightarrow> tim_ie \<Rightarrow> tim_ie option" where
  "tim_update bm pending tie =
     (case tim_range bm pending of
        None \<Rightarrow> None
      | Some (timoff, timlen) \<Rightarrow>
          if length bm < timoff + timlen then None
          else Some
            ((if timlen \<noteq> bo_tim_len tie
              then tie\<lparr>tim_len := 3 + word_of_nat timlen, tim_bitctl := word_of_nat timoff, bo_tim_len := timlen\<rparr>
              else tie)\<lparr>tim_bitmap := take timlen (drop timoff bm)\<rparr>))"

text \<open>\<open>changed\<close> is the flag \<open>IEEE80211_BEACON_TIM\<close>, which \<open>iv_update_beacon\<close> sets.\<close>

definition beacon_update_tim :: "bool \<Rightarrow> bool \<Rightarrow> u8 list \<Rightarrow> u16 \<Rightarrow> tim_ie \<Rightarrow> tim_ie option" where
  "beacon_update_tim changed mcast bm pending tie =
     (case (if changed then tim_update bm pending tie else Some tie) of
        None \<Rightarrow> None
      | Some tie \<Rightarrow>
          let tie = tie\<lparr>tim_count := (if tim_count tie = 0 then tim_period tie - 1 else tim_count tie - 1)\<rparr>
          in Some (tie\<lparr>tim_bitctl := (if mcast \<and> tim_count tie = 0 then tim_bitctl tie OR 1 else tim_bitctl tie AND NOT 1)\<rparr>))"

text \<open>The element of a new beacon, and the station's test of a received one.\<close>

definition tim_init :: "u8 \<Rightarrow> tim_ie" where
  "tim_init period = \<lparr>tim_len = 4, tim_count = 0, tim_period = period, tim_bitctl = 0, tim_bitmap = [0], bo_tim_len = 1\<rparr>"

definition sta_tim_ucast :: "u16 \<Rightarrow> tim_ie \<Rightarrow> bool option" where
  "sta_tim_ucast associd tie =
     (let aid = IEEE80211_AID associd; ix = aid div 8; mn = unat (tim_bitctl tie AND NOT 1)
      in if mn \<le> ix \<and> int ix \<le> int (unat (tim_len tie)) + int mn - 4 then
           if length (tim_bitmap tie) \<le> ix - mn then None
           else Some (tim_bitmap tie ! (ix - mn) AND push_bit (aid mod 8) 1 \<noteq> 0)
         else Some False)"

end
