(* ===== verification/PowerSaveProps.thy ===== *)
theory PowerSaveProps
  imports PowerSave
begin

text \<open>
  The invariant of an access point's power save state, its preservation by every operation,
  and what a station can rely on.
\<close>

section \<open>Bit maps\<close>

lemma and_push_bit_1: "w AND push_bit n 1 \<noteq> 0 \<longleftrightarrow> bit w n" for w :: "'a::len word"
  by (simp add: and_exp_eq_0_iff_not_bit push_bit_eq_mult)

lemma isset_bit: "isset bm a \<longleftrightarrow> bit (bm ! (a div 8)) (a mod 8)"
  by (simp only: isset_def and_push_bit_1)

lemma AID_ISSET_bit: "AID_ISSET a bm \<longleftrightarrow> bit (bm ! (a div 32)) (a mod 32)"
  by (simp only: AID_ISSET_def and_push_bit_1)

lemma div_mod_neq: "a \<noteq> b \<Longrightarrow> a div n = b div n \<Longrightarrow> a mod n \<noteq> b mod (n :: nat)"
  by (metis div_mult_mod_eq)

lemma isset_setbit [simp]: "a div 8 < length bm \<Longrightarrow> isset (setbit bm a) b \<longleftrightarrow> b = a \<or> isset bm b"
  using div_mod_neq [of b a 8] by (cases "b = a") (auto simp: isset_bit setbit_def nth_list_update bit_simps)

lemma isset_clrbit [simp]: "a div 8 < length bm \<Longrightarrow> isset (clrbit bm a) b \<longleftrightarrow> b \<noteq> a \<and> isset bm b"
  using div_mod_neq [of b a 8] by (cases "b = a") (auto simp: isset_bit clrbit_def nth_list_update bit_simps)

lemma AID_ISSET_SET [simp]: "a div 32 < length bm \<Longrightarrow> AID_ISSET b (AID_SET a bm) \<longleftrightarrow> b = a \<or> AID_ISSET b bm"
  using div_mod_neq [of b a 32] by (cases "b = a") (auto simp: AID_ISSET_bit AID_SET_def nth_list_update bit_simps)

lemma AID_ISSET_CLR [simp]: "a div 32 < length bm \<Longrightarrow> AID_ISSET b (AID_CLR a bm) \<longleftrightarrow> b \<noteq> a \<and> AID_ISSET b bm"
  using div_mod_neq [of b a 32] by (cases "b = a") (auto simp: AID_ISSET_bit AID_CLR_def nth_list_update bit_simps)

lemma length_bitmaps [simp]:
  "length (setbit bm a) = length bm" "length (clrbit bm a) = length bm"
  "length (AID_SET a bm') = length bm'" "length (AID_CLR a bm') = length bm'"
  by (simp_all add: setbit_def clrbit_def AID_SET_def AID_CLR_def)

lemma AID_of: "a < 2 ^ 14 \<Longrightarrow> IEEE80211_AID (word_of_nat a OR 0xc000) = a"
proof -
  assume a: "a < 2 ^ 14"
  have "(word_of_nat a :: u16) AND mask 14 = word_of_nat a"
    using a by (intro less_mask_eq) (simp add: word_less_nat_alt unsigned_of_nat take_bit_nat_eq_self)
  moreover have "NOT (0xc000 :: u16) = mask 14" by (simp add: mask_eq_exp_minus_1)
  moreover have "(0xc000 :: u16) AND NOT 0xc000 = 0" by simp
  ultimately have "(word_of_nat a OR 0xc000) AND NOT (0xc000 :: u16) = word_of_nat a"
    by (simp add: bit.conj_disj_distrib2)
  then show ?thesis using a by (simp add: IEEE80211_AID_def unsigned_of_nat take_bit_nat_eq_self)
qed

lemma AID_nonzero: "word_of_nat a OR (0xc000 :: u16) \<noteq> 0"
proof
  assume "word_of_nat a OR (0xc000 :: u16) = 0"
  then have "bit (word_of_nat a OR (0xc000 :: u16)) 15 = False" by (metis bit_0_eq bot_apply bot_bool_def)
  moreover have "bit (0xc000 :: u16) 15" by code_simp
  ultimately show False by (simp add: bit_or_iff)
qed

section \<open>The invariant\<close>

definition psq_ok :: "psq \<Rightarrow> bool" where
  "psq_ok q \<longleftrightarrow> q_len (psq_head0 q) = int (length (q_frames (psq_head0 q))) \<and>
     q_len (psq_head1 q) = int (length (q_frames (psq_head1 q))) \<and>
     psq_len q = q_len (psq_head0 q) + q_len (psq_head1 q) \<and> psq_len q \<le> psq_maxlen q"

abbreviation ap_aid :: "ap_vap \<Rightarrow> nat \<Rightarrow> nat" where
  "ap_aid v i \<equiv> IEEE80211_AID (ni_associd (ap_nodes v ! i))"

definition ap_assoc :: "ap_vap \<Rightarrow> nat set" where
  "ap_assoc v = {i. i < length (ap_nodes v) \<and> ni_associd (ap_nodes v ! i) \<noteq> 0}"

definition ap_sleeps :: "ap_vap \<Rightarrow> nat set" where
  "ap_sleeps v = {i. i < length (ap_nodes v) \<and> ni_flags (ap_nodes v ! i) AND NODE_PWR_MGT \<noteq> 0}"

definition cfg_ok :: "ap_cfg \<Rightarrow> bool" where
  "cfg_ok cfg \<longleftrightarrow> 16 \<le> iv_max_aid cfg \<and> iv_max_aid cfg \<le> 2007 \<and> iv_has_tim cfg"

definition nodes_ok :: "ap_cfg \<Rightarrow> ap_vap \<Rightarrow> bool" where
  "nodes_ok cfg v \<longleftrightarrow> length (iv_tim_bitmap v) = (iv_max_aid cfg + 7) div 8 \<and>
     length (iv_aid_bitmap v) = (iv_max_aid cfg + 31) div 32 \<and>
     (\<forall>i \<in> ap_assoc v. 1 \<le> ap_aid v i \<and> ap_aid v i < iv_max_aid cfg) \<and> inj_on (ap_aid v) (ap_assoc v) \<and>
     (\<forall>i < length (ap_nodes v). psq_ok (ap_psq i v))"

text \<open>Only sleeping stations have frames, only associated ones sleep, and they are counted.\<close>

definition sleep_ok :: "ap_vap \<Rightarrow> bool" where
  "sleep_ok v \<longleftrightarrow> (\<forall>i < length (ap_nodes v). psq_len (ap_psq i v) \<noteq> 0 \<longrightarrow> i \<in> ap_sleeps v) \<and>
     ap_sleeps v \<subseteq> ap_assoc v \<and> iv_ps_sta v = word_of_nat (card (ap_sleeps v))"

definition aids_ok :: "ap_cfg \<Rightarrow> ap_vap \<Rightarrow> bool" where
  "aids_ok cfg v \<longleftrightarrow> (\<forall>a < iv_max_aid cfg. AID_ISSET a (iv_aid_bitmap v) \<longleftrightarrow> a \<in> ap_aid v ` ap_assoc v) \<and>
     iv_sta_assoc v = word_of_nat (card (ap_assoc v))"

text \<open>Only the bits of stations are set, and they are counted; they tell who has frames.\<close>

definition tim_wf :: "ap_cfg \<Rightarrow> ap_vap \<Rightarrow> bool" where
  "tim_wf cfg v \<longleftrightarrow> (\<forall>a < iv_max_aid cfg. isset (iv_tim_bitmap v) a \<longrightarrow> a \<in> ap_aid v ` ap_assoc v) \<and>
     iv_ps_pending v = word_of_nat (card {i \<in> ap_assoc v. isset (iv_tim_bitmap v) (ap_aid v i)})"

definition tim_true :: "ap_vap \<Rightarrow> bool" where
  "tim_true v \<longleftrightarrow> (\<forall>i \<in> ap_assoc v. isset (iv_tim_bitmap v) (ap_aid v i) \<longleftrightarrow> psq_len (ap_psq i v) \<noteq> 0)"

definition ap_ok :: "ap_cfg \<Rightarrow> ap_vap \<Rightarrow> bool" where
  "ap_ok cfg v \<longleftrightarrow> nodes_ok cfg v \<and> sleep_ok v \<and> aids_ok cfg v \<and> tim_wf cfg v \<and> tim_true v"

lemma finite_ap [simp]: "finite (ap_assoc v)" "finite (ap_sleeps v)"
  by (simp_all add: ap_assoc_def ap_sleeps_def)

section \<open>What the parts of an operation leave alone\<close>

text \<open>Two states that agree in everything but events and statistics.\<close>

definition ap_same :: "ap_vap \<Rightarrow> ap_vap \<Rightarrow> bool" where
  "ap_same v w \<longleftrightarrow> iv_tim_bitmap w = iv_tim_bitmap v \<and> iv_aid_bitmap w = iv_aid_bitmap v \<and>
     iv_ps_pending w = iv_ps_pending v \<and> iv_ps_sta w = iv_ps_sta v \<and> iv_sta_assoc w = iv_sta_assoc v \<and>
     ap_nodes w = ap_nodes v"

lemma ap_same_ok: "ap_same v w \<Longrightarrow> ap_ok cfg w = ap_ok cfg v"
  by (simp add: ap_same_def ap_ok_def nodes_ok_def sleep_ok_def aids_ok_def tim_wf_def tim_true_def ap_assoc_def ap_sleeps_def)

lemma ap_same_refl [simp]: "ap_same v v"
  by (simp add: ap_same_def)

lemma ap_same_event [simp]: "ap_same v (event e w) = ap_same v w" "ap_nodes (event e w) = ap_nodes w"
  by (simp_all add: ap_same_def event_def)

lemma ap_same_mfree [simp]: "ap_same v (psq_mfree m w) = ap_same v w"
  by (simp add: psq_mfree_def)

lemma ap_same_fold: "(\<And>x w. ap_same v (f x w) = ap_same v w) \<Longrightarrow> ap_same v (fold f xs w) = ap_same v w"
  by (induction xs arbitrary: w) auto

lemma ap_same_folds [simp]:
  "ap_same v (fold psq_mfree xs w) = ap_same v w" "ap_same v (fold (event \<circ> g) xs w) = ap_same v w"
  "ap_same v (xmit m w) = ap_same v w"
  by (simp_all add: ap_same_fold xmit_def)

lemma ap_same_nodes: "ap_same v w \<Longrightarrow> ap_nodes w = ap_nodes v"
  by (simp add: ap_same_def)

text \<open>A change of a node's queue, or its statistics, alone.\<close>

definition keeps_id :: "(ap_node \<Rightarrow> ap_node) \<Rightarrow> bool" where
  "keeps_id f \<longleftrightarrow> (\<forall>ni. ni_flags (f ni) = ni_flags ni \<and> ni_associd (f ni) = ni_associd ni)"

lemma ap_on_simps [simp]:
  "iv_tim_bitmap (ap_on i f v) = iv_tim_bitmap v" "iv_aid_bitmap (ap_on i f v) = iv_aid_bitmap v"
  "iv_ps_pending (ap_on i f v) = iv_ps_pending v" "iv_ps_sta (ap_on i f v) = iv_ps_sta v"
  "iv_sta_assoc (ap_on i f v) = iv_sta_assoc v" "length (ap_nodes (ap_on i f v)) = length (ap_nodes v)"
  "i < length (ap_nodes v) \<Longrightarrow> ap_nodes (ap_on i f v) ! j = (if j = i then f (ap_nodes v ! i) else ap_nodes v ! j)"
  by (simp_all add: ap_on_def)

lemma keeps_id_sets:
  assumes "keeps_id f" "i < length (ap_nodes v)"
  shows "ap_assoc (ap_on i f v) = ap_assoc v" "ap_sleeps (ap_on i f v) = ap_sleeps v"
    "ap_aid (ap_on i f v) j = ap_aid v j"
  using assms by (auto simp: ap_assoc_def ap_sleeps_def keeps_id_def)

lemma keeps_id_ok:
  assumes "keeps_id f" "i < length (ap_nodes v)"
  shows "aids_ok cfg (ap_on i f v) = aids_ok cfg v" "tim_wf cfg (ap_on i f v) = tim_wf cfg v"
    "nodes_ok cfg v \<Longrightarrow> psq_ok (ni_psq (f (ap_nodes v ! i))) \<Longrightarrow> nodes_ok cfg (ap_on i f v)"
    "sleep_ok v \<Longrightarrow> (psq_len (ni_psq (f (ap_nodes v ! i))) \<noteq> 0 \<longrightarrow> i \<in> ap_sleeps v) \<Longrightarrow> sleep_ok (ap_on i f v)"
proof -
  note k = keeps_id_sets [OF assms]
  show "aids_ok cfg (ap_on i f v) = aids_ok cfg v" "tim_wf cfg (ap_on i f v) = tim_wf cfg v"
    unfolding aids_ok_def tim_wf_def k by simp_all
  show "nodes_ok cfg (ap_on i f v)"
    if "nodes_ok cfg v" "psq_ok (ni_psq (f (ap_nodes v ! i)))"
    using that assms(2) unfolding nodes_ok_def k by simp
  show "sleep_ok (ap_on i f v)"
    if "sleep_ok v" "psq_len (ni_psq (f (ap_nodes v ! i))) \<noteq> 0 \<longrightarrow> i \<in> ap_sleeps v"
    using that assms(2) unfolding sleep_ok_def k by simp
qed

lemma keeps_id_psq [simp]: "keeps_id (\<lambda>ni. ni\<lparr>ni_psq := q ni\<rparr>)" "keeps_id (\<lambda>ni. ni\<lparr>ni_psq := q ni, ns_ps_discard := d ni\<rparr>)"
  by (simp_all add: keeps_id_def)

section \<open>The traffic indication map\<close>

lemma word_card_insert: "finite S \<Longrightarrow> x \<notin> S \<Longrightarrow> word_of_nat (card (insert x S)) = (word_of_nat (card S) :: u16) + 1"
  by (simp add: add.commute)

lemma set_tim_effect:
  assumes "cfg_ok cfg" "nodes_ok cfg v" "tim_wf cfg v" "i \<in> ap_assoc v"
  shows "\<exists>v'. iv_set_tim cfg i on v = Some v' \<and> ap_nodes v' = ap_nodes v \<and> iv_aid_bitmap v' = iv_aid_bitmap v \<and>
    iv_ps_sta v' = iv_ps_sta v \<and> iv_sta_assoc v' = iv_sta_assoc v \<and>
    length (iv_tim_bitmap v') = length (iv_tim_bitmap v) \<and> tim_wf cfg v' \<and>
    (\<forall>j \<in> ap_assoc v. isset (iv_tim_bitmap v') (ap_aid v j) \<longleftrightarrow> (if j = i then on else isset (iv_tim_bitmap v) (ap_aid v j)))"
proof -
  let ?a = "ap_aid v i" and ?bm = "iv_tim_bitmap v"
  have a: "?a < iv_max_aid cfg" "?a div 8 < length ?bm"
    using assms(2,4) unfolding nodes_ok_def by (auto simp: div_less_iff_less_mult)
  have inj: "ap_aid v j = ?a \<longleftrightarrow> j = i" if "j \<in> ap_assoc v" for j
    using assms(2,4) that by (auto simp: nodes_ok_def inj_on_def)
  show ?thesis
  proof (cases "on = isset ?bm ?a")
    case True
    then show ?thesis using a assms(1,3)
      by (auto simp: iv_set_tim_def ieee80211_set_tim_def Let_def cfg_ok_def inj)
  next
    case False
    define bm' where "bm' = (if on then setbit ?bm ?a else clrbit ?bm ?a)"
    define v' where "v' = event UpdateBeacon (v\<lparr>iv_tim_bitmap := bm', iv_ps_pending := (if on then iv_ps_pending v + 1 else iv_ps_pending v - 1)\<rparr>)"
    have "iv_set_tim cfg i on v = Some v'"
      using False a(2) assms(1) by (auto simp: iv_set_tim_def ieee80211_set_tim_def Let_def cfg_ok_def v'_def bm'_def)
    moreover have f: "ap_nodes v' = ap_nodes v" "iv_aid_bitmap v' = iv_aid_bitmap v" "iv_ps_sta v' = iv_ps_sta v"
      "iv_sta_assoc v' = iv_sta_assoc v" "iv_tim_bitmap v' = bm'" "length bm' = length ?bm"
      "iv_ps_pending v' = (if on then iv_ps_pending v + 1 else iv_ps_pending v - 1)"
      by (simp_all add: v'_def event_def bm'_def)
    moreover have b: "isset bm' x \<longleftrightarrow> (if x = ?a then on else isset ?bm x)" for x
      using a(2) by (auto simp: bm'_def)
    moreover have "tim_wf cfg v'"
    proof -
      have as: "ap_assoc v' = ap_assoc v" by (simp add: ap_assoc_def f(1))
      let ?S = "{j \<in> ap_assoc v. isset ?bm (ap_aid v j)}" and ?S' = "{j \<in> ap_assoc v. isset bm' (ap_aid v j)}"
      have "if on then ?S' = insert i ?S \<and> i \<notin> ?S else ?S = insert i ?S' \<and> i \<notin> ?S'"
        using False assms(4) by (auto simp: b inj)
      moreover have "finite ?S" "finite ?S'" by simp_all
      ultimately have "(word_of_nat (card ?S') :: u16) = (if on then word_of_nat (card ?S) + 1 else word_of_nat (card ?S) - 1)"
        using word_card_insert [of ?S i] word_card_insert [of ?S' i] by (auto split: if_splits)
      then show ?thesis using assms(3,4) unfolding tim_wf_def as f by (auto simp: b)
    qed
    moreover have "\<forall>j \<in> ap_assoc v. isset bm' (ap_aid v j) \<longleftrightarrow> (if j = i then on else isset ?bm (ap_aid v j))"
      by (simp add: b inj)
    ultimately show ?thesis by metis
  qed
qed

definition tim_but :: "nat \<Rightarrow> ap_vap \<Rightarrow> bool" where
  "tim_but i v \<longleftrightarrow> (\<forall>j \<in> ap_assoc v - {i}. isset (iv_tim_bitmap v) (ap_aid v j) \<longleftrightarrow> psq_len (ap_psq j v) \<noteq> 0)"

lemma set_tim_ok:
  assumes "cfg_ok cfg" "nodes_ok cfg v" "tim_wf cfg v" "tim_but i v" "i \<in> ap_assoc v" "on \<longleftrightarrow> psq_len (ap_psq i v) \<noteq> 0"
  shows "\<exists>v'. iv_set_tim cfg i on v = Some v' \<and> nodes_ok cfg v' \<and> tim_wf cfg v' \<and> tim_true v' \<and> aids_ok cfg v' = aids_ok cfg v \<and>
    sleep_ok v' = sleep_ok v \<and> ap_nodes v' = ap_nodes v \<and> iv_ps_sta v' = iv_ps_sta v"
proof -
  obtain v' where v': "iv_set_tim cfg i on v = Some v'" "ap_nodes v' = ap_nodes v" "iv_aid_bitmap v' = iv_aid_bitmap v"
    "iv_ps_sta v' = iv_ps_sta v" "iv_sta_assoc v' = iv_sta_assoc v" "length (iv_tim_bitmap v') = length (iv_tim_bitmap v)"
    "tim_wf cfg v'" "\<forall>j \<in> ap_assoc v. isset (iv_tim_bitmap v') (ap_aid v j) \<longleftrightarrow> (if j = i then on else isset (iv_tim_bitmap v) (ap_aid v j))"
    using set_tim_effect [OF assms(1-3,5)] by blast
  have s: "ap_assoc v' = ap_assoc v" "ap_sleeps v' = ap_sleeps v" "ap_aid v' = ap_aid v"
    by (simp_all add: ap_assoc_def ap_sleeps_def v'(2))
  have "nodes_ok cfg v'" using assms(2) unfolding nodes_ok_def s v'(2-6) by simp
  moreover have "tim_true v'" using v'(8) assms(4,6) unfolding tim_true_def tim_but_def s v'(2) by auto
  moreover have "aids_ok cfg v' = aids_ok cfg v" unfolding aids_ok_def s v'(3,5) ..
  moreover have "sleep_ok v' = sleep_ok v" unfolding sleep_ok_def s v'(2,4) ..
  ultimately show ?thesis using v' by blast
qed

section \<open>The queues\<close>

lemma psq_ok_init: "psq_ok ieee80211_psq_init" "psq_len ieee80211_psq_init = 0"
  by (simp_all add: psq_ok_def ieee80211_psq_init_def)

lemma psq_ok_empty: "psq_ok q \<Longrightarrow> psq_len q = 0 \<longleftrightarrow> q_frames (psq_head0 q) = [] \<and> q_frames (psq_head1 q) = []"
  by (auto simp: psq_ok_def add_nonneg_eq_0_iff)

lemma psq_insert_ok:
  assumes "psq_ok q" "psq_len q < psq_maxlen q"
  shows "psq_ok (psq_insert age m q)" "psq_len (psq_insert age m q) = psq_len q + 1" "0 \<le> psq_len q"
  using assms by (auto simp: psq_ok_def psq_insert_def Let_def split: list.splits)

lemma psq_dequeue_ok:
  assumes "psq_ok q" "ieee80211_node_psq_dequeue q = (r, n, q')"
  shows "psq_ok q'" "psq_len q' = n" "r = None \<Longrightarrow> psq_len q = 0 \<and> q' = q" "r \<noteq> None \<Longrightarrow> psq_len q \<noteq> 0"
  using assms by (auto simp: psq_ok_def ieee80211_node_psq_dequeue_def split: list.splits)

lemma psq_drain_ok:
  assumes "psq_drain q = (n, fs, q')" "psq_ok q"
  shows "psq_ok q'" "psq_len q' = 0" "n = psq_len q"
  using assms by (auto simp: psq_ok_def psq_drain_def)

lemma age_drop_append: "age_drop ms = (ds, rest) \<Longrightarrow> ms = ds @ rest"
  by (induction ms arbitrary: ds) (auto split: if_splits prod.splits)

lemma psq_age_ok:
  assumes "psq_age q = (ds, q')" "psq_ok q"
  shows "psq_ok q'" "psq_len q' = psq_len q - int (length ds)" "0 \<le> psq_len q'"
proof -
  obtain d0 r0 d1 r1 where d: "age_drop (q_frames (psq_head0 q)) = (d0, r0)" "age_drop (q_frames (psq_head1 q)) = (d1, r1)"
    by fastforce
  note a = d [THEN age_drop_append]
  have l: "length (case r1 of [] \<Rightarrow> [] | m # ms \<Rightarrow> m\<lparr>m_age := m_age m - 15\<rparr> # ms) = length r1" by (cases r1) auto
  show "psq_ok q'" "psq_len q' = psq_len q - int (length ds)" "0 \<le> psq_len q'"
    using assms unfolding psq_age_def d by (auto simp: psq_ok_def a l)
qed

section \<open>Every operation keeps the invariant\<close>

lemma ap_same_parts:
  assumes "ap_same v w"
  shows "tim_but i w = tim_but i v" "nodes_ok cfg w = nodes_ok cfg v" "sleep_ok w = sleep_ok v"
    "aids_ok cfg w = aids_ok cfg v" "tim_wf cfg w = tim_wf cfg v" "ap_assoc w = ap_assoc v" "ap_sleeps w = ap_sleeps v"
    "ap_nodes w = ap_nodes v"
  using assms
  by (simp_all add: ap_same_def tim_but_def nodes_ok_def sleep_ok_def aids_ok_def tim_wf_def ap_assoc_def ap_sleeps_def)

lemma ap_ok_tim_but: "ap_ok cfg v \<Longrightarrow> keeps_id f \<Longrightarrow> i < length (ap_nodes v) \<Longrightarrow> tim_but i (ap_on i f v)"
  by (auto simp: ap_ok_def tim_true_def tim_but_def keeps_id_sets)

text \<open>A new queue for a sleeping node, and a call of \<open>iv_set_tim\<close> that tells about it.\<close>

lemma requeue_set_tim:
  assumes "cfg_ok cfg" "ap_ok cfg v" "i \<in> ap_sleeps v" "keeps_id f" "psq_ok (ni_psq (f (ap_nodes v ! i)))"
    "on \<longleftrightarrow> psq_len (ni_psq (f (ap_nodes v ! i))) \<noteq> 0" "ap_same (ap_on i f v) w"
  shows "\<exists>v'. iv_set_tim cfg i on w = Some v' \<and> ap_ok cfg v' \<and> ap_nodes v' = ap_nodes w"
proof -
  have a: "nodes_ok cfg v" "sleep_ok v" "aids_ok cfg v" "tim_wf cfg v" using assms(2) by (simp_all add: ap_ok_def)
  have i: "i < length (ap_nodes v)" "i \<in> ap_assoc v" using assms(3) a(2) by (auto simp: ap_sleeps_def sleep_ok_def)
  note k = keeps_id_ok [OF assms(4) i(1)]
  note w = ap_same_parts [OF assms(7)]
  have "psq_len (ni_psq (f (ap_nodes v ! i))) \<noteq> 0 \<longrightarrow> i \<in> ap_sleeps v" using assms(3) by simp
  then have s: "tim_but i w" "nodes_ok cfg w" "sleep_ok w" "aids_ok cfg w" "tim_wf cfg w" "i \<in> ap_assoc w"
    "on \<longleftrightarrow> psq_len (ap_psq i w) \<noteq> 0"
    unfolding w using ap_ok_tim_but [OF assms(2,4) i(1)] k assms(5,6) a i keeps_id_sets(1) [OF assms(4) i(1)] by simp_all
  obtain v' where v': "iv_set_tim cfg i on w = Some v'" "nodes_ok cfg v'" "tim_wf cfg v'" "tim_true v'"
    "aids_ok cfg v' = aids_ok cfg w" "sleep_ok v' = sleep_ok w" "ap_nodes v' = ap_nodes w"
    using set_tim_ok [OF assms(1) s(2,5,1,6,7)] by blast
  then have "ap_ok cfg v'" using s(3,4) by (simp add: ap_ok_def)
  then show ?thesis using v'(1,7) by blast
qed

text \<open>A new queue that is empty if and only if the old one was.\<close>

lemma requeue_ok:
  assumes "ap_ok cfg v" "i < length (ap_nodes v)" "keeps_id f" "psq_ok (ni_psq (f (ap_nodes v ! i)))"
    "psq_len (ni_psq (f (ap_nodes v ! i))) = 0 \<longleftrightarrow> psq_len (ap_psq i v) = 0"
  shows "ap_ok cfg (ap_on i f v)"
proof -
  have a: "nodes_ok cfg v" "sleep_ok v" "aids_ok cfg v" "tim_wf cfg v" "tim_true v" using assms(1) by (simp_all add: ap_ok_def)
  have "psq_len (ni_psq (f (ap_nodes v ! i))) \<noteq> 0 \<longrightarrow> i \<in> ap_sleeps v"
    using a(2) assms(2,5) by (simp add: sleep_ok_def)
  moreover have "tim_true (ap_on i f v)"
    using a(5) assms(2,5) unfolding tim_true_def keeps_id_sets(1,3) [OF assms(3,2)] by simp
  ultimately show ?thesis using a keeps_id_ok [OF assms(3,2)] assms(4) by (simp add: ap_ok_def)
qed

lemma pwrsave_ok:
  assumes "cfg_ok cfg" "ap_ok cfg v" "i \<in> ap_sleeps v"
  shows "\<exists>r v'. ieee80211_pwrsave cfg i m v = Some (r, v') \<and> ap_ok cfg v'"
proof -
  let ?q = "ap_psq i v"
  have i: "i < length (ap_nodes v)" using assms(3) by (simp add: ap_sleeps_def)
  have q: "psq_ok ?q" using assms(2) i by (simp add: ap_ok_def nodes_ok_def)
  show ?thesis
  proof (cases "psq_len ?q \<ge> psq_maxlen ?q")
    case True
    let ?w = "ap_on i (\<lambda>ni. ni\<lparr>ni_psq := ?q\<lparr>psq_drops := psq_drops ?q + 1\<rparr>\<rparr>) v"
    have "ap_ok cfg ?w" using q by (intro requeue_ok [OF assms(2) i]) (simp_all add: psq_ok_def)
    then have "ap_ok cfg (psq_mfree m ?w)" using ap_same_ok [of ?w "psq_mfree m ?w"] by simp
    then show ?thesis using True by (simp add: ieee80211_pwrsave_def Let_def)
  next
    case False
    define f :: "ap_node \<Rightarrow> ap_node" where "f ni = ni\<lparr>ni_psq := psq_insert (ps_age (ni_intval ni) (ic_bintval cfg)) m ?q\<rparr>" for ni
    have f: "keeps_id f" by (simp add: f_def keeps_id_def)
    have p: "psq_ok (ni_psq (f ni))" "psq_len (ni_psq (f ni)) = psq_len ?q + 1" "0 \<le> psq_len ?q" for ni
      using psq_insert_ok [OF q] False by (simp_all add: f_def)
    show ?thesis
    proof (cases "psq_len ?q = 0")
      case True
      then have "True \<longleftrightarrow> psq_len (ni_psq (f (ap_nodes v ! i))) \<noteq> 0" using p(2) by simp
      then have "\<exists>v'. iv_set_tim cfg i True (ap_on i f v) = Some v' \<and> ap_ok cfg v'"
        using requeue_set_tim [OF assms f p(1) _ ap_same_refl] by blast
      then show ?thesis using False True p(2) i
        by (auto simp: ieee80211_pwrsave_def Let_def f_def [symmetric])
    next
      case nz: False
      then have "ap_ok cfg (ap_on i f v)" using p by (intro requeue_ok [OF assms(2) i f]) auto
      then show ?thesis using False nz p i by (simp add: ieee80211_pwrsave_def Let_def f_def [symmetric])
    qed
  qed
qed

lemma pspoll_ok:
  assumes "cfg_ok cfg" "ap_ok cfg v" "i < length (ap_nodes v)"
  shows "\<exists>v'. ieee80211_recv_pspoll cfg i aid v = Some v' \<and> ap_ok cfg v'"
proof (cases "ni_associd (ap_nodes v ! i) = 0 \<or> aid \<noteq> ni_associd (ap_nodes v ! i)")
  case True
  let ?w = "event (SendDeauth i) (v\<lparr>is_ps_unassoc := is_ps_unassoc v + 1\<rparr>)" and ?w' = "v\<lparr>is_ps_badaid := is_ps_badaid v + 1\<rparr>"
  have "ap_same v ?w" "ap_same v ?w'" by (simp_all add: ap_same_def event_def)
  then have "ap_ok cfg ?w" "ap_ok cfg ?w'" using assms(2) ap_same_ok by blast+
  then show ?thesis using True by (auto simp: ieee80211_recv_pspoll_def)
next
  case False
  have a: "psq_ok (ap_psq i v)" "sleep_ok v" using assms(2,3) by (simp_all add: ap_ok_def nodes_ok_def)
  obtain r n q where d: "ieee80211_node_psq_dequeue (ap_psq i v) = (r, n, q)" by (metis prod_cases3)
  note q = psq_dequeue_ok [OF a(1) d]
  define f :: "ap_node \<Rightarrow> ap_node" where "f ni = ni\<lparr>ni_psq := q\<rparr>" for ni
  have f: "keeps_id f" "psq_ok (ni_psq (f ni))" "psq_len (ni_psq (f ni)) = n" for ni using q by (simp_all add: f_def keeps_id_def)
  show ?thesis
  proof (cases r)
    case None
    let ?w = "(event (NullData i) (ap_on i f v))\<lparr>is_ps_qempty := is_ps_qempty (ap_on i f v) + 1\<rparr>"
    have "ap_ok cfg (ap_on i f v)" using q(2,3) None f by (intro requeue_ok [OF assms(2,3)]) auto
    moreover have "ap_same (ap_on i f v) ?w" by (simp add: ap_same_def event_def)
    ultimately have w: "ap_ok cfg ?w" using ap_same_ok by blast
    then have "nodes_ok cfg ?w" "tim_wf cfg ?w" "tim_true ?w" "sleep_ok ?w" "aids_ok cfg ?w" by (simp_all add: ap_ok_def)
    moreover have "i \<in> ap_assoc ?w" using False assms(3) f(1) by (simp add: ap_assoc_def event_def keeps_id_def)
    moreover have "False \<longleftrightarrow> psq_len (ap_psq i ?w) \<noteq> 0"
      using assms(3) q(2,3) None f(3) by (simp add: event_def)
    moreover have "tim_but i ?w" using \<open>tim_true ?w\<close> by (simp add: tim_but_def tim_true_def)
    ultimately obtain v' where "iv_set_tim cfg i False ?w = Some v'" "ap_ok cfg v'"
      using set_tim_ok [OF assms(1), of ?w i False] unfolding ap_ok_def by metis
    then show ?thesis using False None d by (simp add: ieee80211_recv_pspoll_def f_def [abs_def] Let_def)
  next
    case (Some m)
    have nz: "psq_len (ap_psq i v) \<noteq> 0" using q(4) Some by simp
    then have sl: "i \<in> ap_sleeps v" using a(2) assms(3) by (simp add: sleep_ok_def)
    show ?thesis
    proof (cases "n = 0")
      case True
      then have "False \<longleftrightarrow> psq_len (ni_psq (f (ap_nodes v ! i))) \<noteq> 0" using f(3) by simp
      then obtain v' where v': "iv_set_tim cfg i False (ap_on i f v) = Some v'" "ap_ok cfg v'"
        using requeue_set_tim [OF assms(1,2) sl f(1,2) _ ap_same_refl] by blast
      moreover have "ap_ok cfg (xmit x v')" for x using v'(2) ap_same_ok [of v' "xmit x v'"] by simp
      ultimately show ?thesis using False Some d True by (simp add: ieee80211_recv_pspoll_def f_def [abs_def] Let_def)
    next
      case n: False
      let ?w = "ap_on i f v"
      have "ap_ok cfg ?w" using nz n f by (intro requeue_ok [OF assms(2,3)]) auto
      then have "ap_ok cfg (xmit x ?w)" for x using ap_same_ok [of ?w "xmit x ?w"] by simp
      then show ?thesis using False Some d n by (simp add: ieee80211_recv_pspoll_def f_def [abs_def] Let_def)
    qed
  qed
qed

lemma node_age_ok:
  assumes "cfg_ok cfg" "ap_ok cfg v" "i < length (ap_nodes v)"
  shows "\<exists>v'. node_age cfg i v = Some v' \<and> ap_ok cfg v'"
proof (cases "psq_len (ap_psq i v) = 0")
  case True
  then show ?thesis using assms(2) by (simp add: node_age_def ieee80211_node_psq_age_def)
next
  case nz: False
  have a: "psq_ok (ap_psq i v)" "sleep_ok v" using assms(2,3) by (simp_all add: ap_ok_def nodes_ok_def)
  then have sl: "i \<in> ap_sleeps v" using nz assms(3) by (simp add: sleep_ok_def)
  obtain ds q where d: "psq_age (ap_psq i v) = (ds, q)" by fastforce
  note q = psq_age_ok [OF d a(1)]
  define f :: "ap_node \<Rightarrow> ap_node" where "f ni = ni\<lparr>ni_psq := q, ns_ps_discard := ns_ps_discard ni + word_of_nat (length ds)\<rparr>" for ni
  have f: "keeps_id f" "psq_ok (ni_psq (f ni))" "ni_psq (f ni) = q" for ni using q by (simp_all add: f_def keeps_id_def)
  let ?w = "fold psq_mfree ds (ap_on i f v)"
  have e: "ieee80211_node_psq_age i v = (int (length ds), ?w)" using nz d by (simp add: ieee80211_node_psq_age_def f_def [abs_def])
  have w: "ap_same (ap_on i f v) ?w" by simp
  have len: "ap_psq i ?w = q" using ap_same_nodes [OF w] assms(3) f(3) by simp
  show ?thesis
  proof (cases "psq_len q = 0")
    case True
    then have "False \<longleftrightarrow> psq_len (ni_psq (f (ap_nodes v ! i))) \<noteq> 0" using f(3) by simp
    then obtain v' where v': "iv_set_tim cfg i False ?w = Some v'" "ap_ok cfg v'"
      using requeue_set_tim [OF assms(1,2) sl f(1,2) _ w] by blast
    have "ds \<noteq> []" using q(2) True nz by auto
    then show ?thesis using True v' len e by (simp add: node_age_def)
  next
    case False
    have "ap_ok cfg (ap_on i f v)" using nz False f by (intro requeue_ok [OF assms(2,3)]) auto
    then show ?thesis using False len e ap_same_ok [OF w] by (simp add: node_age_def)
  qed
qed

section \<open>Waking up\<close>

definition wake :: "nat \<Rightarrow> ap_vap \<Rightarrow> ap_vap" where
  "wake i v = (if ni_flags (ap_nodes v ! i) AND NODE_PWR_MGT \<noteq> 0
     then ap_on i (\<lambda>ni. ni\<lparr>ni_flags := ni_flags ni AND NOT NODE_PWR_MGT\<rparr>) (v\<lparr>iv_ps_sta := iv_ps_sta v - 1\<rparr>) else v)"

text \<open>All is well but that node \<open>i\<close> may have frames while it is awake.\<close>

definition sleep_but :: "nat \<Rightarrow> ap_vap \<Rightarrow> bool" where
  "sleep_but i v \<longleftrightarrow> (\<forall>j < length (ap_nodes v). j \<noteq> i \<longrightarrow> psq_len (ap_psq j v) \<noteq> 0 \<longrightarrow> j \<in> ap_sleeps v) \<and>
     ap_sleeps v \<subseteq> ap_assoc v \<and> iv_ps_sta v = word_of_nat (card (ap_sleeps v)) \<and> i \<notin> ap_sleeps v"

lemma wake_sets:
  assumes "i < length (ap_nodes v)"
  shows "ap_assoc (wake i v) = ap_assoc v" "ap_aid (wake i v) j = ap_aid v j" "ap_psq j (wake i v) = ap_psq j v"
    "ap_sleeps (wake i v) = ap_sleeps v - {i}" "length (ap_nodes (wake i v)) = length (ap_nodes v)"
    "iv_tim_bitmap (wake i v) = iv_tim_bitmap v" "iv_aid_bitmap (wake i v) = iv_aid_bitmap v"
    "iv_ps_pending (wake i v) = iv_ps_pending v" "iv_sta_assoc (wake i v) = iv_sta_assoc v"
proof -
  have c: "(x AND NOT 0x10) AND 0x10 = (0 :: u32)" for x by (simp add: and.assoc)
  show "ap_assoc (wake i v) = ap_assoc v" "ap_aid (wake i v) j = ap_aid v j" "ap_psq j (wake i v) = ap_psq j v"
    "ap_sleeps (wake i v) = ap_sleeps v - {i}" "length (ap_nodes (wake i v)) = length (ap_nodes v)"
    "iv_tim_bitmap (wake i v) = iv_tim_bitmap v" "iv_aid_bitmap (wake i v) = iv_aid_bitmap v"
    "iv_ps_pending (wake i v) = iv_ps_pending v" "iv_sta_assoc (wake i v) = iv_sta_assoc v"
    using assms c by (auto simp: wake_def ap_assoc_def ap_sleeps_def)
qed

lemma wake_ok:
  assumes "i < length (ap_nodes v)"
  shows "nodes_ok cfg (wake i v) = nodes_ok cfg v" "aids_ok cfg (wake i v) = aids_ok cfg v"
    "tim_wf cfg (wake i v) = tim_wf cfg v" "tim_true (wake i v) = tim_true v"
    "sleep_ok v \<Longrightarrow> sleep_but i (wake i v)"
proof -
  note w = wake_sets [OF assms]
  show "nodes_ok cfg (wake i v) = nodes_ok cfg v" "aids_ok cfg (wake i v) = aids_ok cfg v"
    "tim_wf cfg (wake i v) = tim_wf cfg v" "tim_true (wake i v) = tim_true v"
    unfolding nodes_ok_def aids_ok_def tim_wf_def tim_true_def w by simp_all
  assume s: "sleep_ok v"
  have "iv_ps_sta (wake i v) = word_of_nat (card (ap_sleeps v - {i}))"
  proof (cases "i \<in> ap_sleeps v")
    case True
    then have "insert i (ap_sleeps v - {i}) = ap_sleeps v" by blast
    then have "(word_of_nat (card (ap_sleeps v)) :: u16) = word_of_nat (card (ap_sleeps v - {i})) + 1"
      using word_card_insert [of "ap_sleeps v - {i}" i] by simp
    moreover have "iv_ps_sta (wake i v) = iv_ps_sta v - 1" using True by (simp add: wake_def ap_sleeps_def)
    ultimately show ?thesis using s by (simp add: sleep_ok_def)
  next
    case False
    then have "wake i v = v" using assms by (simp add: wake_def ap_sleeps_def)
    then show ?thesis using False s by (simp add: sleep_ok_def)
  qed
  then show "sleep_but i (wake i v)" using s unfolding sleep_ok_def sleep_but_def w by blast
qed

lemma sleep_but_empty: "sleep_but i v \<Longrightarrow> psq_len (ap_psq i v) = 0 \<Longrightarrow> sleep_ok v"
  by (auto simp: sleep_but_def sleep_ok_def)

text \<open>The queue of an awake node that nothing is told about is emptied.\<close>

lemma empty_queue_ok:
  assumes "nodes_ok cfg v" "sleep_but i v" "tim_wf cfg v" "tim_but i v" "i < length (ap_nodes v)" "keeps_id f"
    and "psq_ok (ni_psq (f (ap_nodes v ! i)))" "psq_len (ni_psq (f (ap_nodes v ! i))) = 0"
    and "i \<in> ap_assoc v \<Longrightarrow> \<not> isset (iv_tim_bitmap v) (ap_aid v i)"
  shows "nodes_ok cfg (ap_on i f v)" "sleep_ok (ap_on i f v)" "tim_wf cfg (ap_on i f v)" "tim_true (ap_on i f v)"
proof -
  note k = keeps_id_ok [OF assms(6,5)] and s = keeps_id_sets [OF assms(6,5)]
  show "nodes_ok cfg (ap_on i f v)" "tim_wf cfg (ap_on i f v)" using k assms(1,3,7) by simp_all
  show "sleep_ok (ap_on i f v)"
    using assms(2,5,8) unfolding sleep_ok_def sleep_but_def s by auto
  show "tim_true (ap_on i f v)"
    using assms(4,5,8,9) unfolding tim_true_def tim_but_def s by auto
qed

lemma flushq_same:
  "\<exists>f. keeps_id f \<and> ap_same (ap_on i f v) (pwrsave_flushq i v) \<and>
    (psq_ok (ap_psq i v) \<longrightarrow> psq_ok (ni_psq (f (ap_nodes v ! i))) \<and> psq_len (ni_psq (f (ap_nodes v ! i))) = 0)"
proof -
  let ?q = "ap_psq i v"
  define q where "q = ?q\<lparr>psq_head0 := (if q_frames (psq_head0 ?q) = [] then psq_head0 ?q else \<lparr>q_frames = [], q_len = 0\<rparr>),
    psq_head1 := (if q_frames (psq_head1 ?q) = [] then psq_head1 ?q else \<lparr>q_frames = [], q_len = 0\<rparr>), psq_len := 0\<rparr>"
  have "psq_ok ?q \<longrightarrow> psq_ok q \<and> psq_len q = 0" by (auto simp: psq_ok_def q_def)
  moreover have "ap_same (ap_on i (\<lambda>ni. ni\<lparr>ni_psq := q\<rparr>) v) (pwrsave_flushq i v)"
    by (simp add: pwrsave_flushq_def Let_def q_def)
  ultimately show ?thesis by (intro exI [of _ "\<lambda>ni. ni\<lparr>ni_psq := q\<rparr>"]) simp
qed

lemma sleep_wake: "ni_flags (ap_nodes v ! i) AND NODE_PWR_MGT = 0 \<Longrightarrow> ap_on i (\<lambda>ni. ni\<lparr>ni_flags := ni_flags ni AND NOT NODE_PWR_MGT\<rparr>) v = v"
proof -
  assume z: "ni_flags (ap_nodes v ! i) AND NODE_PWR_MGT = 0"
  have "ni_flags (ap_nodes v ! i) AND NOT NODE_PWR_MGT = ni_flags (ap_nodes v ! i)"
  proof -
    have "x AND 0x10 OR x AND NOT 0x10 = x" for x :: u32
      by (simp only: bit.conj_disj_distrib [symmetric] bit.disj_cancel_right and.right_neutral)
    from this [of "ni_flags (ap_nodes v ! i)"] show ?thesis unfolding z by simp
  qed
  then have "(ap_nodes v ! i)\<lparr>ni_flags := ni_flags (ap_nodes v ! i) AND NOT NODE_PWR_MGT\<rparr> = ap_nodes v ! i" by simp
  then show ?thesis by (simp add: ap_on_def)
qed

lemma enable_ok:
  assumes "ap_ok cfg v" "i \<in> ap_assoc v"
  shows "\<exists>v'. ieee80211_node_pwrsave cfg i True v = Some v' \<and> ap_ok cfg v'"
proof -
  have i: "i < length (ap_nodes v)" using assms(2) by (simp add: ap_assoc_def)
  define w where "w = ap_on i (\<lambda>ni. ni\<lparr>ni_flags := ni_flags ni OR NODE_PWR_MGT\<rparr>)
    (if i \<in> ap_sleeps v then v else v\<lparr>iv_ps_sta := iv_ps_sta v + 1\<rparr>)"
  have was: "ni_flags (ap_nodes v ! i) AND NODE_PWR_MGT \<noteq> 0 \<longleftrightarrow> i \<in> ap_sleeps v" using i by (simp add: ap_sleeps_def)
  have c: "(x OR 0x10) AND 0x10 = (0x10 :: u32)" for x by (rule bit_word_eqI) (auto simp: bit_simps)
  have s: "ap_assoc w = ap_assoc v" "ap_sleeps w = insert i (ap_sleeps v)" "ap_aid w j = ap_aid v j" "ap_psq j w = ap_psq j v"
    "length (ap_nodes w) = length (ap_nodes v)" "iv_tim_bitmap w = iv_tim_bitmap v" "iv_aid_bitmap w = iv_aid_bitmap v"
    "iv_ps_pending w = iv_ps_pending v" "iv_sta_assoc w = iv_sta_assoc v"
    "iv_ps_sta w = (if i \<in> ap_sleeps v then iv_ps_sta v else iv_ps_sta v + 1)" for j
    using i c by (auto simp: w_def ap_assoc_def ap_sleeps_def)
  have "sleep_ok w" using assms word_card_insert [of "ap_sleeps v" i] unfolding sleep_ok_def s ap_ok_def
    by (auto simp: insert_absorb)
  moreover have "nodes_ok cfg w" "aids_ok cfg w" "tim_wf cfg w" "tim_true w"
    using assms(1) unfolding ap_ok_def nodes_ok_def aids_ok_def tim_wf_def tim_true_def s by simp_all
  ultimately have "ap_ok cfg w" by (simp add: ap_ok_def)
  moreover from this have "ap_ok cfg (event e w)" for e using ap_same_ok [of w "event e w"] by simp
  ultimately show ?thesis
    unfolding ieee80211_node_pwrsave_def was Let_def by (cases "i \<in> ap_sleeps v") (simp_all add: w_def)
qed

lemma disable_ok:
  assumes "cfg_ok cfg" "ap_ok cfg v" "i \<in> ap_assoc v"
  shows "\<exists>v'. ieee80211_node_pwrsave cfg i False v = Some v' \<and> ap_ok cfg v'"
proof -
  have i: "i < length (ap_nodes v)" using assms(3) by (simp add: ap_assoc_def)
  have a: "nodes_ok cfg v" "sleep_ok v" "aids_ok cfg v" "tim_wf cfg v" "tim_true v" using assms(2) by (simp_all add: ap_ok_def)
  let ?w = "wake i v"
  note ws = wake_sets [OF i] and wo = wake_ok [OF i]
  have as: "i \<in> ap_assoc ?w" using assms(3) ws(1) by simp
  obtain u where u: "iv_set_tim cfg i False ?w = Some u" "ap_nodes u = ap_nodes ?w" "iv_aid_bitmap u = iv_aid_bitmap ?w"
    "iv_ps_sta u = iv_ps_sta ?w" "iv_sta_assoc u = iv_sta_assoc ?w" "length (iv_tim_bitmap u) = length (iv_tim_bitmap ?w)"
    "tim_wf cfg u" "\<forall>j \<in> ap_assoc ?w. isset (iv_tim_bitmap u) (ap_aid ?w j) \<longleftrightarrow> (if j = i then False else isset (iv_tim_bitmap ?w) (ap_aid ?w j))"
    using set_tim_effect [OF assms(1) _ _ as, of False] wo(1,3) a(1,4) by blast
  have us: "ap_assoc u = ap_assoc v" "ap_sleeps u = ap_sleeps v - {i}" "ap_aid u j = ap_aid v j" "ap_psq j u = ap_psq j v"
    "length (ap_nodes u) = length (ap_nodes v)" for j
    using ws(1-5) by (simp_all add: ap_assoc_def ap_sleeps_def u(2))
  have iu: "i < length (ap_nodes u)" using i us(5) by simp
  have n: "nodes_ok cfg u" "sleep_but i u" "aids_ok cfg u"
    using wo(1,2) [of cfg] wo(5) [OF a(2)] a(1,3) u(3-6) unfolding nodes_ok_def sleep_but_def aids_ok_def us ws by simp_all
  have b: "tim_but i u" "\<not> isset (iv_tim_bitmap u) (ap_aid u i)"
    using u(8) a(5) assms(3) unfolding tim_but_def tim_true_def us ws by auto
  have q: "psq_ok (ap_psq i u)" using n(1) iu by (simp add: nodes_ok_def)
  define u' where "u' = (if ni_flags (ap_nodes v ! i) AND NODE_PWR_MGT \<noteq> 0 then event (UpdatePs (iv_ps_sta u)) u else u)"
  have u': "ap_same u u'" by (simp add: u'_def)
  have e: "ieee80211_node_pwrsave cfg i False v = Some (if psq_len (ap_psq i u') \<noteq> 0 then pwrsave_flushq i u' else u')"
  proof (cases "ni_flags (ap_nodes v ! i) AND NODE_PWR_MGT = 0")
    case True
    then show ?thesis using u(1) sleep_wake [OF True]
      by (simp add: ieee80211_node_pwrsave_def Let_def wake_def u'_def)
  next
    case False
    then show ?thesis using u(1) by (simp add: ieee80211_node_pwrsave_def Let_def wake_def u'_def)
  qed
  note p' = ap_same_parts [OF u']
  show ?thesis
  proof (cases "psq_len (ap_psq i u) = 0")
    case True
    then have "sleep_ok u" using sleep_but_empty n(2) by blast
    moreover have "tim_true u" using b True unfolding tim_but_def tim_true_def by blast
    ultimately have "ap_ok cfg u'" using n u(7) ap_same_ok [OF u'] by (simp add: ap_ok_def)
    then show ?thesis using e True p'(8) by simp
  next
    case False
    obtain f where f: "keeps_id f" "ap_same (ap_on i f u') (pwrsave_flushq i u')"
      "psq_ok (ni_psq (f (ap_nodes u' ! i)))" "psq_len (ni_psq (f (ap_nodes u' ! i))) = 0"
      using flushq_same [of i u'] q p'(8) by auto
    have "\<not> isset (iv_tim_bitmap u') (ap_aid u' i)" using b(2) u' by (simp add: ap_same_def)
    then have "nodes_ok cfg (ap_on i f u')" "sleep_ok (ap_on i f u')" "tim_wf cfg (ap_on i f u')" "tim_true (ap_on i f u')"
      using empty_queue_ok [of cfg u' i f] n(1,2) u(7) b(1) iu f p' u' by (simp_all add: sleep_but_def ap_same_def)
    moreover have "aids_ok cfg (ap_on i f u')" using keeps_id_ok(1) [OF f(1)] n(3) iu p' by simp
    ultimately have "ap_ok cfg (pwrsave_flushq i u')" using ap_same_ok [OF f(2)] by (simp add: ap_ok_def)
    then show ?thesis using e False p'(8) by simp
  qed
qed

section \<open>Leaving and joining\<close>

lemma drop_assoc:
  assumes "nodes_ok cfg v" "sleep_ok v" "tim_wf cfg v" "tim_true v" "i \<in> ap_assoc v" "i \<notin> ap_sleeps v"
  defines "w \<equiv> ap_on i (\<lambda>ni. ni\<lparr>ni_associd := 0\<rparr>) v"
  shows "nodes_ok cfg w \<and> sleep_ok w \<and> tim_wf cfg w \<and> tim_true w \<and> ap_assoc w = ap_assoc v - {i} \<and>
    (\<forall>j \<in> ap_assoc w. ap_aid w j = ap_aid v j)"
proof -
  have i: "i < length (ap_nodes v)" using assms(5) by (simp add: ap_assoc_def)
  have s: "ap_assoc w = ap_assoc v - {i}" "ap_sleeps w = ap_sleeps v" "ap_psq j w = ap_psq j v" for j
    using i by (auto simp: w_def ap_assoc_def ap_sleeps_def)
  have ad: "ap_aid w j = ap_aid v j" if "j \<noteq> i" for j using i that by (simp add: w_def)
  have f: "length (ap_nodes w) = length (ap_nodes v)" "iv_tim_bitmap w = iv_tim_bitmap v" "iv_aid_bitmap w = iv_aid_bitmap v"
    "iv_ps_pending w = iv_ps_pending v" "iv_ps_sta w = iv_ps_sta v" by (simp_all add: w_def)
  have "psq_len (ap_psq i v) = 0" using assms(2,6) i by (auto simp: sleep_ok_def)
  then have t: "\<not> isset (iv_tim_bitmap v) (ap_aid v i)" using assms(4,5) by (simp add: tim_true_def)
  have "sleep_ok w" using assms(2,6) unfolding sleep_ok_def s f by auto
  moreover have "nodes_ok cfg w"
    using assms(1) ad unfolding nodes_ok_def s f by (auto intro: inj_on_diff simp: inj_on_def)
  moreover have "tim_true w" using assms(4) ad unfolding tim_true_def s f by simp
  moreover have "tim_wf cfg w"
  proof -
    have "{j \<in> ap_assoc v - {i}. isset (iv_tim_bitmap v) (ap_aid w j)} = {j \<in> ap_assoc v. isset (iv_tim_bitmap v) (ap_aid v j)}"
      using t ad by (auto, metis)
    moreover have "ap_aid w ` (ap_assoc v - {i}) = ap_aid v ` (ap_assoc v - {i})" using ad by (intro image_cong) auto
    ultimately show ?thesis using assms(3) t unfolding tim_wf_def s f by auto
  qed
  ultimately show ?thesis using s(1) ad by auto
qed

lemma cleanup_ok:
  assumes "cfg_ok cfg" "nodes_ok cfg v" "sleep_ok v" "tim_wf cfg v" "tim_true v" "i \<in> ap_assoc v"
  shows "\<exists>v'. node_cleanup cfg i v = Some v' \<and> nodes_ok cfg v' \<and> sleep_ok v' \<and> tim_wf cfg v' \<and> tim_true v' \<and>
    ap_assoc v' = ap_assoc v - {i} \<and> (\<forall>j \<in> ap_assoc v'. ap_aid v' j = ap_aid v j) \<and>
    iv_aid_bitmap v' = iv_aid_bitmap v \<and> iv_sta_assoc v' = iv_sta_assoc v"
proof -
  have i: "i < length (ap_nodes v)" using assms(6) by (simp add: ap_assoc_def)
  let ?w = "wake i v"
  note ws = wake_sets [OF i] and wo = wake_ok [OF i]
  have q: "psq_ok (ap_psq i v)" using assms(2) i by (simp add: nodes_ok_def)
  obtain n fs q where d: "psq_drain (ap_psq i v) = (n, fs, q)" by (metis prod_cases3)
  note dq = psq_drain_ok [OF d q]
  define f :: "ap_node \<Rightarrow> ap_node" where "f ni = ni\<lparr>ni_psq := q\<rparr>" for ni
  have f: "keeps_id f" "ni_psq (f ni) = q" for ni by (simp_all add: f_def keeps_id_def)
  have iw: "i < length (ap_nodes ?w)" using i ws(5) by simp
  let ?u = "fold psq_mfree fs (ap_on i f ?w)"
  have dr: "ieee80211_node_psq_drain i ?w = (n, ?u)" using d ws(3) by (simp add: ieee80211_node_psq_drain_def f_def [abs_def])
  have u: "ap_same (ap_on i f ?w) ?u" by simp
  note p = ap_same_parts [OF u] and k = keeps_id_ok [OF f(1) iw] and ks = keeps_id_sets [OF f(1) iw]
  have sb: "sleep_but i ?w" using wo(5) assms(3) by blast
  have un: "nodes_ok cfg ?u" "sleep_ok ?u" "tim_wf cfg ?u" "i \<in> ap_assoc ?u" "i \<notin> ap_sleeps ?u" "tim_but i ?u"
    "psq_len (ap_psq i ?u) = 0" "ap_assoc ?u = ap_assoc v" "ap_aid ?u j = ap_aid v j" for j
  proof -
    show "nodes_ok cfg ?u" using p(2) k(3) wo(1) assms(2) dq(1) f(2) by simp
    show "psq_len (ap_psq i ?u) = 0" using p(8) iw f(2) dq(2) by simp
    show "sleep_ok ?u" unfolding p using sb iw f(2) dq(2) unfolding sleep_ok_def sleep_but_def ks by auto
    show "tim_wf cfg ?u" using p(5) k(2) wo(3) assms(4) by simp
    show "ap_assoc ?u = ap_assoc v" using p(6) ks(1) ws(1) by simp
    then show "i \<in> ap_assoc ?u" using assms(6) by simp
    show "i \<notin> ap_sleeps ?u" using p(7) ks(2) ws(4) by simp
    show "tim_but i ?u" unfolding p using assms(5) iw ws unfolding tim_but_def tim_true_def ks by auto
    show "ap_aid ?u j = ap_aid v j" using p(8) ks(3) ws(2) by simp
  qed
  have uf: "iv_aid_bitmap ?u = iv_aid_bitmap v" "iv_sta_assoc ?u = iv_sta_assoc v" "iv_tim_bitmap ?u = iv_tim_bitmap v"
    using u ws by (simp_all add: ap_same_def)
  have nc: "node_cleanup cfg i v = map_option (ap_on i (\<lambda>ni. ni\<lparr>ni_associd := 0\<rparr>)) (if n \<noteq> 0 then iv_set_tim cfg i False ?u else Some ?u)"
    using dr unfolding wake_def by (simp add: node_cleanup_def Let_def)
  obtain x where x: "(if n \<noteq> 0 then iv_set_tim cfg i False ?u else Some ?u) = Some x" "nodes_ok cfg x" "sleep_ok x" "tim_wf cfg x"
    "tim_true x" "ap_nodes x = ap_nodes ?u" "iv_aid_bitmap x = iv_aid_bitmap v" "iv_sta_assoc x = iv_sta_assoc v"
  proof (cases "n = 0")
    case True
    have "tim_true ?u" using assms(5,6) un(6,7) True dq(3) uf(3) unfolding tim_true_def tim_but_def un(8,9) by auto
    then show ?thesis using that [of ?u] True un uf by simp
  next
    case False
    have z: "False \<longleftrightarrow> psq_len (ap_psq i ?u) \<noteq> 0" using un(7) by simp
    obtain x where "iv_set_tim cfg i False ?u = Some x" "nodes_ok cfg x" "sleep_ok x = sleep_ok ?u" "tim_wf cfg x" "tim_true x"
      "ap_nodes x = ap_nodes ?u"
      using set_tim_ok [OF assms(1) un(1,3,6,4) z] by blast
    moreover have "iv_aid_bitmap x = iv_aid_bitmap ?u" "iv_sta_assoc x = iv_sta_assoc ?u"
      using set_tim_effect [OF assms(1) un(1,3,4), of False] calculation(1) by auto
    ultimately show ?thesis using that [of x] False un(2) uf by simp
  qed
  have xa: "ap_assoc x = ap_assoc v" "ap_sleeps x = ap_sleeps ?u" "ap_aid x j = ap_aid v j" for j
    using x(6) un(8,9) by (simp_all add: ap_assoc_def ap_sleeps_def)
  show ?thesis
    using drop_assoc [OF x(2-5), of i] xa un(5) assms(6) nc x(1,7,8) by simp
qed

lemma leave_ok:
  assumes "cfg_ok cfg" "ap_ok cfg v" "i < length (ap_nodes v)"
  shows "\<exists>v'. ieee80211_node_leave cfg i v = Some v' \<and> ap_ok cfg v'"
proof (cases "ni_associd (ap_nodes v ! i) = 0")
  case True
  then show ?thesis using assms(2) ap_same_ok [of v "event (NodeReclaimed i) v"] by (simp add: ieee80211_node_leave_def)
next
  case False
  have a: "nodes_ok cfg v" "sleep_ok v" "aids_ok cfg v" "tim_wf cfg v" "tim_true v" using assms(2) by (simp_all add: ap_ok_def)
  have as: "i \<in> ap_assoc v" using False assms(3) by (simp add: ap_assoc_def)
  have b: "ap_aid v i < iv_max_aid cfg" "ap_aid v i div 32 < length (iv_aid_bitmap v)" "inj_on (ap_aid v) (ap_assoc v)"
    using a(1) as unfolding nodes_ok_def by (auto simp: div_less_iff_less_mult)
  define w where "w = (event (AuthLeave i) v)\<lparr>iv_aid_bitmap := AID_CLR (ap_aid v i) (iv_aid_bitmap v), iv_sta_assoc := iv_sta_assoc v - 1\<rparr>"
  have ws: "ap_assoc w = ap_assoc v" "ap_sleeps w = ap_sleeps v" "ap_aid w j = ap_aid v j" "ap_nodes w = ap_nodes v" for j
    by (simp_all add: w_def event_def ap_assoc_def ap_sleeps_def)
  have wf: "iv_tim_bitmap w = iv_tim_bitmap v" "iv_ps_pending w = iv_ps_pending v" "iv_ps_sta w = iv_ps_sta v"
    "iv_aid_bitmap w = AID_CLR (ap_aid v i) (iv_aid_bitmap v)" "iv_sta_assoc w = iv_sta_assoc v - 1" by (simp_all add: w_def event_def)
  have wo: "nodes_ok cfg w" "sleep_ok w" "tim_wf cfg w" "tim_true w"
    using a unfolding nodes_ok_def sleep_ok_def tim_wf_def tim_true_def ws wf by simp_all
  obtain x where x: "node_cleanup cfg i w = Some x" "nodes_ok cfg x" "sleep_ok x" "tim_wf cfg x" "tim_true x"
    "ap_assoc x = ap_assoc v - {i}" "\<forall>j \<in> ap_assoc x. ap_aid x j = ap_aid v j"
    "iv_aid_bitmap x = AID_CLR (ap_aid v i) (iv_aid_bitmap v)" "iv_sta_assoc x = iv_sta_assoc v - 1"
    using cleanup_ok [OF assms(1) wo] as unfolding ws wf by metis
  have "aids_ok cfg x"
  proof -
    have im: "ap_aid x ` ap_assoc x = ap_aid v ` ap_assoc v - {ap_aid v i}"
      using x(6,7) b(3) as by (auto simp: inj_on_def)
    have "insert i (ap_assoc x) = ap_assoc v" using x(6) as by auto
    then have "(word_of_nat (card (ap_assoc v)) :: u16) = word_of_nat (card (ap_assoc x)) + 1"
      using word_card_insert [of "ap_assoc x" i] x(6) by simp
    then show ?thesis using a(3) b(2) unfolding aids_ok_def im x(8,9) by auto
  qed
  then have "ap_ok cfg (event (NodeReclaimed i) x)" using x ap_same_ok [of x "event (NodeReclaimed i) x"] by (simp add: ap_ok_def)
  moreover have "ieee80211_node_leave cfg i v = Some (event (NodeReclaimed i) x)"
    using False b(2) x(1) by (simp add: ieee80211_node_leave_def Let_def w_def event_def)
  ultimately show ?thesis by blast
qed

lemma find_fresh:
  assumes "find P [1..<n] = Some a"
  shows "P a" "1 \<le> a" "a < n"
  using assms by (auto simp: find_Some_iff)

lemma join_ok:
  assumes "cfg_ok cfg" "ap_ok cfg v" "i < length (ap_nodes v)"
  shows "\<exists>v'. ieee80211_node_join cfg i v = Some v' \<and> ap_ok cfg v'"
proof -
  have ok: "ap_ok cfg x \<Longrightarrow> ap_ok cfg (event e x)" for x e using ap_same_ok [of x "event e x"] by simp
  have a: "nodes_ok cfg v" "sleep_ok v" "aids_ok cfg v" "tim_wf cfg v" "tim_true v" using assms(2) by (simp_all add: ap_ok_def)
  have len: "\<not> length (iv_aid_bitmap v) * 32 < iv_max_aid cfg" using a(1) by (simp add: nodes_ok_def)
  show ?thesis
  proof (cases "ni_associd (ap_nodes v ! i) \<noteq> 0 \<or> find (\<lambda>aid. \<not> AID_ISSET aid (iv_aid_bitmap v)) [1..<iv_max_aid cfg] = None")
    case True
    have "\<exists>v'. ieee80211_node_leave cfg i (event (SendMgmt i False) v) = Some v' \<and> ap_ok cfg v'"
      by (rule leave_ok [OF assms(1) ok [OF assms(2)]]) (simp add: assms(3))
    then show ?thesis using True len ok assms(2) by (auto simp: ieee80211_node_join_def Let_def simp del: One_nat_def)
  next
    case False
    then obtain aid where fd: "find (\<lambda>aid. \<not> AID_ISSET aid (iv_aid_bitmap v)) [1..<iv_max_aid cfg] = Some aid" by auto
    note aid = find_fresh [OF fd]
    have l14: "aid < 2 ^ 14" using aid(3) assms(1) by (simp add: cfg_ok_def)
    define n :: u16 where "n = word_of_nat aid OR 0xc000"
    have n: "IEEE80211_AID n = aid" "n \<noteq> 0" using AID_of [OF l14] AID_nonzero by (simp_all add: n_def)
    define w where "w = (ap_on i (\<lambda>ni. ni\<lparr>ni_associd := n\<rparr>) v)\<lparr>iv_aid_bitmap := AID_SET aid (iv_aid_bitmap v), iv_sta_assoc := iv_sta_assoc v + 1\<rparr>"
    have nodes: "ap_nodes w ! j = (if j = i then (ap_nodes v ! i)\<lparr>ni_associd := n\<rparr> else ap_nodes v ! j)" "length (ap_nodes w) = length (ap_nodes v)" for j
      using assms(3) by (simp_all add: w_def ap_on_def)
    have ni: "i \<notin> ap_assoc v" using False by (simp add: ap_assoc_def)
    have s: "ap_assoc w = insert i (ap_assoc v)" "ap_sleeps w = ap_sleeps v" "ap_psq j w = ap_psq j v"
      "ap_aid w j = (if j = i then aid else ap_aid v j)" for j
      using assms(3) n by (auto simp: ap_assoc_def ap_sleeps_def nodes)
    have f: "iv_tim_bitmap w = iv_tim_bitmap v" "iv_aid_bitmap w = AID_SET aid (iv_aid_bitmap v)"
      "iv_ps_pending w = iv_ps_pending v" "iv_ps_sta w = iv_ps_sta v" "iv_sta_assoc w = iv_sta_assoc v + 1" by (simp_all add: w_def)
    have new: "aid \<notin> ap_aid v ` ap_assoc v" using a(3) aid by (simp add: aids_ok_def)
    have new': "j \<in> ap_assoc v \<Longrightarrow> ap_aid v j \<noteq> aid" for j using new by blast
    have t: "\<not> isset (iv_tim_bitmap v) aid" using a(4) new aid(3) unfolding tim_wf_def by blast
    have q: "psq_len (ap_psq i v) = 0" using a(2) assms(3) ni unfolding sleep_ok_def by blast
    have ne: "j \<in> ap_assoc v \<Longrightarrow> j \<noteq> i" for j using ni by blast
    have im: "ap_aid w ` ap_assoc w = insert aid (ap_aid v ` ap_assoc v)"
      unfolding s(1) using ne by (auto simp: s(4) image_iff)
    have "sleep_ok w" using a(2) unfolding sleep_ok_def s f nodes(2) by auto
    moreover have "tim_true w" using a(5) t q ne unfolding tim_true_def s f by auto
    moreover have "nodes_ok cfg w"
      using a(1) aid ne new' unfolding nodes_ok_def s f nodes(2) by (auto simp: inj_on_def)
    moreover have "aids_ok cfg w"
    proof -
      have "aid div 32 < length (iv_aid_bitmap v)" using aid(3) a(1) by (simp add: nodes_ok_def div_less_iff_less_mult)
      then have "\<forall>a < iv_max_aid cfg. AID_ISSET a (AID_SET aid (iv_aid_bitmap v)) \<longleftrightarrow> a \<in> insert aid (ap_aid v ` ap_assoc v)"
        using a(3) by (simp add: aids_ok_def)
      moreover have "iv_sta_assoc v + 1 = word_of_nat (card (ap_assoc w))"
        using a(3) word_card_insert [OF _ ni] unfolding aids_ok_def s(1) by simp
      ultimately show ?thesis unfolding aids_ok_def im f by blast
    qed
    moreover have "tim_wf cfg w"
    proof -
      have "{j \<in> ap_assoc w. isset (iv_tim_bitmap v) (ap_aid w j)} = {j \<in> ap_assoc v. isset (iv_tim_bitmap v) (ap_aid v j)}"
        unfolding s using t ne by auto
      then show ?thesis using a(4) unfolding tim_wf_def im f by auto
    qed
    ultimately have "ap_ok cfg w" by (simp add: ap_ok_def)
    then have "ap_ok cfg (event (AuthJoin i) (event (SendMgmt i True) w))" using ok by blast
    moreover have "ieee80211_node_join cfg i v = Some (event (AuthJoin i) (event (SendMgmt i True) w))"
      using False len fd n by (simp add: ieee80211_node_join_def Let_def w_def n_def [symmetric])
    ultimately show ?thesis by blast
  qed
qed

lemma alloc_ok:
  assumes "ap_ok cfg v"
  shows "ap_ok cfg (ieee80211_alloc_node intval v)"
proof -
  let ?w = "ieee80211_alloc_node intval v"
  have n: "ap_nodes ?w ! j = (if j < length (ap_nodes v) then ap_nodes v ! j
      else \<lparr>ni_psq = ieee80211_psq_init, ni_flags = 0, ni_associd = 0, ni_intval = intval, ns_ps_discard = 0\<rparr>)"
    if "j < length (ap_nodes ?w)" for j
    using that by (auto simp: ieee80211_alloc_node_def nth_append)
  have l: "length (ap_nodes ?w) = Suc (length (ap_nodes v))" by (simp add: ieee80211_alloc_node_def)
  have s: "ap_assoc ?w = ap_assoc v" "ap_sleeps ?w = ap_sleeps v"
    using n unfolding ap_assoc_def ap_sleeps_def l by (auto simp: less_Suc_eq)
  have f: "iv_tim_bitmap ?w = iv_tim_bitmap v" "iv_aid_bitmap ?w = iv_aid_bitmap v" "iv_ps_pending ?w = iv_ps_pending v"
    "iv_ps_sta ?w = iv_ps_sta v" "iv_sta_assoc ?w = iv_sta_assoc v" by (simp_all add: ieee80211_alloc_node_def)
  have nv: "ap_nodes ?w ! j = ap_nodes v ! j" if "j < length (ap_nodes v)" for j using n [of j] that l by simp
  have as: "j < length (ap_nodes v)" if "j \<in> ap_assoc v" for j using that by (simp add: ap_assoc_def)
  have ad: "ap_aid ?w j = ap_aid v j" "ap_psq j ?w = ap_psq j v" if "j \<in> ap_assoc v" for j using nv [OF as [OF that]] by simp_all
  have im: "ap_aid ?w ` ap_assoc v = ap_aid v ` ap_assoc v" "inj_on (ap_aid ?w) (ap_assoc v) = inj_on (ap_aid v) (ap_assoc v)"
    "{j \<in> ap_assoc v. isset (iv_tim_bitmap v) (ap_aid ?w j)} = {j \<in> ap_assoc v. isset (iv_tim_bitmap v) (ap_aid v j)}"
    using ad(1) by (auto intro: image_cong simp: inj_on_def)
  have "\<forall>j < length (ap_nodes ?w). psq_ok (ap_psq j ?w)"
    using assms n l psq_ok_init(1) by (simp add: ap_ok_def nodes_ok_def)
  moreover have "\<forall>j < length (ap_nodes ?w). psq_len (ap_psq j ?w) \<noteq> 0 \<longrightarrow> j \<in> ap_sleeps v"
    using assms n l psq_ok_init(2) by (simp add: ap_ok_def sleep_ok_def)
  ultimately show ?thesis
    using assms ad unfolding ap_ok_def nodes_ok_def sleep_ok_def aids_ok_def tim_wf_def tim_true_def s f im by simp
qed

section \<open>Reachable states\<close>

lemma ap_init_ok: "cfg_ok cfg \<Longrightarrow> ap_ok cfg (ap_init cfg)"
proof -
  have "\<not> isset (replicate n 0) a" if "a div 8 < n" for n a using that by (simp add: isset_bit)
  moreover have "\<not> AID_ISSET a (replicate n 0)" if "a div 32 < n" for n a using that by (simp add: AID_ISSET_bit)
  ultimately show "cfg_ok cfg \<Longrightarrow> ap_ok cfg (ap_init cfg)"
    by (auto simp: ap_ok_def nodes_ok_def sleep_ok_def aids_ok_def tim_wf_def tim_true_def ap_init_def ap_assoc_def
        ap_sleeps_def div_less_iff_less_mult)
qed

lemma exec_ok:
  assumes "cfg_ok cfg" "ap_ok cfg v" "op_ok c v"
  shows "\<exists>v'. ap_exec cfg c v = Some v' \<and> ap_ok cfg v'"
proof (cases c)
  case (NewNode x)
  then show ?thesis using alloc_ok assms(2) by simp
next
  case (Join i)
  then show ?thesis using join_ok assms by (simp add: op_ok_def)
next
  case (Leave i)
  then show ?thesis using leave_ok assms by (simp add: op_ok_def)
next
  case (Send i m)
  then have i: "i < length (ap_nodes v)" using assms(3) by (simp add: op_ok_def)
  show ?thesis
  proof (cases "i \<in> ap_sleeps v \<and> m_flags m AND M_PWR_SAV = 0")
    case True
    then obtain r v' where p: "ieee80211_pwrsave cfg i m v = Some (r, v')" "ap_ok cfg v'" using pwrsave_ok [OF assms(1,2)] by blast
    let ?w = "if r \<noteq> OK then v'\<lparr>if_oerrors := if_oerrors v' + 1\<rparr> else v'"
    have "ap_same v' (event (FreeNode i) ?w)" by (simp add: ap_same_def event_def)
    then have "ap_ok cfg (event (FreeNode i) ?w)" using ap_same_ok p(2) by blast
    then show ?thesis using True p(1) Send i by (simp add: pkt_send_dest_def ap_sleeps_def)
  next
    case False
    then show ?thesis using Send i assms(2) ap_same_ok [of v "event (SendOn m) v"] by (auto simp: pkt_send_dest_def ap_sleeps_def)
  qed
next
  case (DataFrame i fc1)
  then have i: "i < length (ap_nodes v)" using assms(3) by (simp add: op_ok_def)
  show ?thesis
  proof (cases "ni_associd (ap_nodes v ! i) = 0")
    case True
    have "ap_same v ((event (SendMgmt i False) v)\<lparr>is_rx_notassoc := is_rx_notassoc (event (SendMgmt i False) v) + 1\<rparr>)"
      by (simp add: ap_same_def event_def)
    then show ?thesis using True DataFrame assms(2) ap_same_ok by (simp add: hostap_ps_check_def Let_def)
  next
    case False
    then have "i \<in> ap_assoc v" using i by (simp add: ap_assoc_def)
    then show ?thesis using False DataFrame assms(2) enable_ok [OF assms(2)] disable_ok [OF assms(1,2)]
      by (cases "fc1 AND 0x10 \<noteq> 0") (simp_all add: hostap_ps_check_def)
  qed
next
  case (Poll i aid)
  then show ?thesis using pspoll_ok assms by (simp add: op_ok_def)
next
  case (Age i)
  then show ?thesis using node_age_ok assms by (simp add: op_ok_def)
qed

lemma reach_ok: "ap_reach cfg v \<Longrightarrow> cfg_ok cfg \<Longrightarrow> ap_ok cfg v"
  by (induction rule: ap_reach.induct) (use ap_init_ok exec_ok in fastforce)+

lemma ap_run_reach: "ap_reach cfg v \<Longrightarrow> ap_run cfg cs v = Some v' \<Longrightarrow> ap_reach cfg v'"
proof (induction cs arbitrary: v)
  case (Cons c cs)
  then show ?case by (auto split: if_splits option.splits intro: reach_step)
qed simp

end
