(* ===== verification/PowerTim.thy ===== *)
theory PowerTim
  imports PowerSaveProps
begin

text \<open>What the stations of an access point can rely on, and where they are let down.\<close>

section \<open>The access point\<close>

definition ps_frames :: "ap_vap \<Rightarrow> nat \<Rightarrow> pframe list" where
  "ps_frames v i = q_frames (psq_head0 (ap_psq i v)) @ q_frames (psq_head1 (ap_psq i v))"

lemma ps_frames_empty: "nodes_ok cfg v \<Longrightarrow> i < length (ap_nodes v) \<Longrightarrow> ps_frames v i = [] \<longleftrightarrow> psq_len (ap_psq i v) = 0"
  unfolding ps_frames_def nodes_ok_def using psq_ok_empty by auto

lemma card_assoc: "cfg_ok cfg \<Longrightarrow> nodes_ok cfg v \<Longrightarrow> S \<subseteq> ap_assoc v \<Longrightarrow> unat (word_of_nat (card S) :: u16) = card S"
proof -
  assume a: "cfg_ok cfg" "nodes_ok cfg v" "S \<subseteq> ap_assoc v"
  have "card (ap_assoc v) \<le> card {..<iv_max_aid cfg}"
    using a(2) by (intro card_inj_on_le [of "ap_aid v"]) (auto simp: nodes_ok_def)
  moreover have "card S \<le> card (ap_assoc v)" using a(3) by (intro card_mono) simp_all
  ultimately have "card S < 2 ^ 16" using a(1) by (simp add: cfg_ok_def)
  then show ?thesis by (simp add: unsigned_of_nat take_bit_nat_eq_self)
qed

text \<open>
  C9. Whatever stations do, in whatever order they join, leave, sleep, wake up, poll and are
  sent frames, the access point never leaves the bounds of its maps, no two associated
  stations have the same id, only sleeping associated stations have frames queued, and the
  bit of a station in the traffic indication map is set exactly as long as it has; the
  counters of associated, sleeping and waited-for stations are right.
\<close>

theorem ap_power_save:
  assumes "cfg_ok cfg" "ap_reach cfg v"
  defines "n \<equiv> length (ap_nodes v)"
  shows "(\<forall>c. op_ok c v \<longrightarrow> ap_exec cfg c v \<noteq> None) \<and>
    (\<forall>i < n. \<forall>j < n. ni_associd (ap_nodes v ! i) \<noteq> 0 \<and> ni_associd (ap_nodes v ! j) \<noteq> 0 \<and>
       ap_aid v i = ap_aid v j \<longrightarrow> i = j) \<and>
    (\<forall>i < n. ps_frames v i \<noteq> [] \<longrightarrow> ni_associd (ap_nodes v ! i) \<noteq> 0 \<and> ni_flags (ap_nodes v ! i) AND NODE_PWR_MGT \<noteq> 0) \<and>
    (\<forall>i < n. ni_associd (ap_nodes v ! i) \<noteq> 0 \<longrightarrow> (isset (iv_tim_bitmap v) (ap_aid v i) \<longleftrightarrow> ps_frames v i \<noteq> [])) \<and>
    unat (iv_sta_assoc v) = card {i. i < n \<and> ni_associd (ap_nodes v ! i) \<noteq> 0} \<and>
    unat (iv_ps_sta v) = card {i. i < n \<and> ni_flags (ap_nodes v ! i) AND NODE_PWR_MGT \<noteq> 0} \<and>
    unat (iv_ps_pending v) = card {i. i < n \<and> ps_frames v i \<noteq> []}"
proof -
  have ok: "nodes_ok cfg v" "sleep_ok v" "aids_ok cfg v" "tim_wf cfg v" "tim_true v" "ap_ok cfg v"
    using reach_ok [OF assms(2,1)] by (simp_all add: ap_ok_def)
  note e = ps_frames_empty [OF ok(1)] and c = card_assoc [OF assms(1) ok(1)]
  have total: "\<forall>c. op_ok c v \<longrightarrow> ap_exec cfg c v \<noteq> None" using exec_ok [OF assms(1) ok(6)] by blast
  have distinct: "\<forall>i < n. \<forall>j < n. ni_associd (ap_nodes v ! i) \<noteq> 0 \<and> ni_associd (ap_nodes v ! j) \<noteq> 0 \<and>
       ap_aid v i = ap_aid v j \<longrightarrow> i = j"
    using ok(1) unfolding nodes_ok_def inj_on_def by (simp add: ap_assoc_def n_def)
  have sleeping: "\<forall>i < n. ps_frames v i \<noteq> [] \<longrightarrow> i \<in> ap_sleeps v" using ok(2) e unfolding sleep_ok_def n_def by blast
  then have assoc: "\<forall>i < n. ps_frames v i \<noteq> [] \<longrightarrow> i \<in> ap_assoc v" using ok(2) unfolding sleep_ok_def by blast
  have told: "\<forall>i < n. i \<in> ap_assoc v \<longrightarrow> (isset (iv_tim_bitmap v) (ap_aid v i) \<longleftrightarrow> ps_frames v i \<noteq> [])"
    using ok(5) e unfolding tim_true_def n_def by blast
  have "{i \<in> ap_assoc v. isset (iv_tim_bitmap v) (ap_aid v i)} = {i. i < n \<and> ps_frames v i \<noteq> []}"
    using told assoc by (auto simp: ap_assoc_def n_def)
  then have p: "unat (iv_ps_pending v) = card {i. i < n \<and> ps_frames v i \<noteq> []}"
    using ok(4) c [of "{i \<in> ap_assoc v. isset (iv_tim_bitmap v) (ap_aid v i)}"] unfolding tim_wf_def by auto
  have a: "unat (iv_sta_assoc v) = card (ap_assoc v)" "unat (iv_ps_sta v) = card (ap_sleeps v)"
    using ok(2,3) c by (simp_all add: aids_ok_def sleep_ok_def)
  show ?thesis
    using total distinct sleeping assoc told p a by (auto simp: ap_assoc_def ap_sleeps_def n_def)
qed

section \<open>The beacon\<close>

lemma find_first:
  assumes "find P [a..<n] = Some i"
  shows "P i" "a \<le> i" "i < n" "\<forall>j. a \<le> j \<longrightarrow> j < i \<longrightarrow> \<not> P j"
proof -
  obtain k where k: "k < n - a" "P (a + k)" "i = a + k" "\<forall>j < k. \<not> P (a + j)"
    using assms by (auto simp: find_Some_iff)
  then show "P i" "a \<le> i" "i < n" by auto
  show "\<forall>j. a \<le> j \<longrightarrow> j < i \<longrightarrow> \<not> P j"
  proof (intro allI impI)
    fix j assume "a \<le> j" "j < i"
    then show "\<not> P j" using k(3,4) by (metis add_diff_inverse_nat leD nat_add_left_cancel_less)
  qed
qed

lemma find_last:
  assumes "find P (rev [a..<n]) = Some i"
  shows "P i" "a \<le> i" "i < n" "\<forall>j. i < j \<longrightarrow> j < n \<longrightarrow> \<not> P j"
proof -
  obtain k where k: "k < n - a" "i = n - Suc k" "P i" "\<forall>j < k. \<not> P (n - Suc j)"
    using assms by (auto simp: find_Some_iff rev_nth)
  then show "P i" "a \<le> i" "i < n" by auto
  show "\<forall>j. i < j \<longrightarrow> j < n \<longrightarrow> \<not> P j"
  proof (intro allI impI)
    fix j assume j: "i < j" "j < n"
    then have "n - Suc j < k" "n - Suc (n - Suc j) = j" using k(1,2) by auto
    then show "\<not> P j" using k(4) by metis
  qed
qed

text \<open>The range covers all bytes that are not zero, and begins at an even one.\<close>

lemma tim_range_covers:
  assumes "tim_range bm pending = Some (off, len)" "bm \<noteq> []"
  shows "even off" "1 \<le> len" "off + len \<le> length bm"
    "pending \<noteq> 0 \<Longrightarrow> j < length bm \<Longrightarrow> j < off \<or> off + len \<le> j \<Longrightarrow> bm ! j = 0"
proof -
  have "even off \<and> 1 \<le> len \<and> off + len \<le> length bm \<and>
    (pending \<noteq> 0 \<longrightarrow> j < length bm \<longrightarrow> j < off \<or> off + len \<le> j \<longrightarrow> bm ! j = 0)" for j
  proof (cases "pending = 0")
    case True
    then show ?thesis using assms by (cases bm) (auto simp: tim_range_def)
  next
    case False
    then obtain i k where i: "find (\<lambda>i. bm ! i \<noteq> 0) [0..<length bm] = Some i" and o: "off = i - i mod 2"
      and k: "find (\<lambda>j. bm ! j \<noteq> 0) (rev [off..<length bm]) = Some k" "len = 1 + (k - off)"
      using assms(1) by (auto simp: tim_range_def Let_def split: option.splits)
    note f = find_first [OF i] and l = find_last [OF k(1)]
    have "even off" "off \<le> i" unfolding o by (simp_all add: minus_mod_eq_div_mult)
    moreover have "off + len = k + 1" using k(2) l(2) by simp
    ultimately show ?thesis using f l k(2) False by auto
  qed
  then show "even off" "1 \<le> len" "off + len \<le> length bm"
    "pending \<noteq> 0 \<Longrightarrow> j < length bm \<Longrightarrow> j < off \<or> off + len \<le> j \<Longrightarrow> bm ! j = 0" by blast+
qed

lemma tim_range_total: "pending = 0 \<or> (\<exists>j < length bm. bm ! j \<noteq> 0) \<Longrightarrow> tim_range bm pending \<noteq> None"
proof (cases "pending = 0")
  case False
  assume "pending = 0 \<or> (\<exists>j < length bm. bm ! j \<noteq> 0)"
  then obtain j where j: "j < length bm" "bm ! j \<noteq> 0" using False by blast
  then obtain i where i: "find (\<lambda>i. bm ! i \<noteq> 0) [0..<length bm] = Some i"
    by (cases "find (\<lambda>i. bm ! i \<noteq> 0) [0..<length bm]") (auto simp: find_None_iff)
  note f = find_first [OF i]
  have "find (\<lambda>j. bm ! j \<noteq> 0) (rev [i - i mod 2..<length bm]) \<noteq> None"
    using f(1,3) by (auto simp: find_None_iff)
  then show ?thesis using False i by (auto simp: tim_range_def Let_def)
qed (simp add: tim_range_def)

lemma tim_update_fields:
  assumes "tim_range bm pending = Some (off, len)" "off + len \<le> length bm" "length bm \<le> 251" "even off"
    and "len \<noteq> bo_tim_len tie \<or> tim_len tie = 3 + word_of_nat len \<and> tim_bitctl tie AND NOT 1 = word_of_nat off"
  shows "\<exists>tie'. beacon_update_tim True mcast bm pending tie = Some tie' \<and> unat (tim_len tie') = 3 + len \<and>
    unat (tim_bitctl tie' AND NOT 1) = off \<and> tim_bitmap tie' = take len (drop off bm)"
proof -
  have e: "word_of_nat off AND NOT 1 = (word_of_nat off :: u8)"
  proof (rule bit_word_eqI)
    fix n assume "n < LENGTH(8)"
    have "\<not> bit (word_of_nat off :: u8) 0" using assms(4) by (simp add: bit_0)
    then show "bit (word_of_nat off AND NOT 1 :: u8) n = bit (word_of_nat off :: u8) n"
      by (cases "n = 0") (auto simp: bit_simps)
  qed
  have c: "(x AND NOT 1) AND NOT 1 = x AND NOT 1" "(x OR 1) AND NOT 1 = x AND NOT (1 :: u8)" for x
    by (simp_all add: and.assoc bit.conj_disj_distrib2)
  have u: "unat (word_of_nat off :: u8) = off" using assms(2,3) by (simp add: unsigned_of_nat take_bit_nat_eq_self)
  have "(3 + word_of_nat len :: u8) = word_of_nat (3 + len)" by simp
  then have l: "unat (3 + word_of_nat len :: u8) = 3 + len"
    using assms(2,3) by (simp only: unsigned_of_nat) (simp add: take_bit_nat_eq_self)
  define t where "t = (if len \<noteq> bo_tim_len tie
    then tie\<lparr>tim_len := 3 + word_of_nat len, tim_bitctl := word_of_nat off, bo_tim_len := len\<rparr> else tie)\<lparr>tim_bitmap := take len (drop off bm)\<rparr>"
  have t: "tim_update bm pending tie = Some t" using assms(1,2) by (simp add: tim_update_def t_def)
  have "tim_len t = 3 + word_of_nat len" "tim_bitctl t AND NOT 1 = word_of_nat off" "tim_bitmap t = take len (drop off bm)"
    using assms(5) e by (auto simp: t_def)
  then show ?thesis using t l u c e by (simp add: beacon_update_tim_def Let_def)
qed

text \<open>
  C10. A station learns from the beacon exactly whether frames wait for it: in every reachable
  state the update of the beacon succeeds, whatever the size of the map, and the test that the
  station applies to the element with its association id stays within the element and answers
  whether the access point has frames queued for it, provided the update changes the length of
  the element or its offset need not change.
\<close>

theorem tim_tells_station:
  assumes "cfg_ok cfg" "ap_reach cfg v" "i < length (ap_nodes v)" "ni_associd (ap_nodes v ! i) \<noteq> 0"
    and tie: "\<forall>off len. tim_range (iv_tim_bitmap v) (iv_ps_pending v) = Some (off, len) \<longrightarrow>
      len \<noteq> bo_tim_len tie \<or> tim_len tie = 3 + word_of_nat len \<and> tim_bitctl tie AND NOT 1 = word_of_nat off"
  shows "\<exists>tie'. beacon_update_tim True mcast (iv_tim_bitmap v) (iv_ps_pending v) tie = Some tie' \<and>
    sta_tim_ucast (ni_associd (ap_nodes v ! i)) tie' = Some (ps_frames v i \<noteq> [])"
proof -
  have ok: "nodes_ok cfg v" "tim_wf cfg v" "tim_true v"
    using reach_ok [OF assms(2,1)] by (simp_all add: ap_ok_def)
  define bm where "bm = iv_tim_bitmap v"
  let ?ix = "ap_aid v i div 8"
  have as: "i \<in> ap_assoc v" using assms(3,4) by (simp add: ap_assoc_def)
  have told: "isset bm (ap_aid v i) \<longleftrightarrow> ps_frames v i \<noteq> []"
    using ok(3) as ps_frames_empty [OF ok(1) assms(3)] by (simp add: tim_true_def bm_def)
  have ix: "?ix < length bm" "bm \<noteq> []" "length bm \<le> 251"
    using ok(1) as assms(1) by (auto simp: nodes_ok_def cfg_ok_def bm_def div_less_iff_less_mult)
  have pend: "iv_ps_pending v = 0 \<longleftrightarrow> {j \<in> ap_assoc v. isset bm (ap_aid v j)} = {}"
  proof -
    have "unat (iv_ps_pending v) = card {j \<in> ap_assoc v. isset bm (ap_aid v j)}"
      using ok(2) card_assoc [OF assms(1) ok(1), of "{j \<in> ap_assoc v. isset bm (ap_aid v j)}"] by (auto simp: tim_wf_def bm_def)
    then show ?thesis by (simp add: unat_eq_0 [symmetric])
  qed
  have "tim_range bm (iv_ps_pending v) \<noteq> None"
  proof (cases "iv_ps_pending v = 0")
    case False
    then obtain j where j: "j \<in> ap_assoc v" "isset bm (ap_aid v j)" using pend by blast
    then have "ap_aid v j div 8 < length bm" "bm ! (ap_aid v j div 8) \<noteq> 0"
      using ok(1) by (auto simp: nodes_ok_def isset_bit bm_def div_less_iff_less_mult)
    then show ?thesis by (intro tim_range_total) blast
  qed (simp add: tim_range_total)
  then obtain off len where r: "tim_range bm (iv_ps_pending v) = Some (off, len)" by auto
  note rc = tim_range_covers [OF r ix(2)]
  obtain tie' where t: "beacon_update_tim True mcast bm (iv_ps_pending v) tie = Some tie'" "unat (tim_len tie') = 3 + len"
    "unat (tim_bitctl tie' AND NOT 1) = off" "tim_bitmap tie' = take len (drop off bm)"
    using tim_update_fields [OF r rc(3) ix(3) rc(1)] tie [folded bm_def] r by blast
  have "sta_tim_ucast (ni_associd (ap_nodes v ! i)) tie' = Some (isset bm (ap_aid v i))"
  proof (cases "off \<le> ?ix \<and> ?ix < off + len")
    case True
    then have "take len (drop off bm) ! (?ix - off) = bm ! ?ix" "?ix - off < len" using rc(3) by auto
    then show ?thesis unfolding sta_tim_ucast_def Let_def t(2-4) isset_def using True rc(3) by simp
  next
    case False
    have "\<not> isset bm (ap_aid v i)"
    proof (cases "iv_ps_pending v = 0")
      case True
      then show ?thesis using pend as by blast
    next
      case nz: False
      then show ?thesis using rc(4) [of ?ix] ix(1) False by (auto simp: isset_bit)
    qed
    then show ?thesis unfolding sta_tim_ucast_def Let_def t(2-4) using False by auto
  qed
  then show ?thesis using t(1) told by (simp add: bm_def)
qed

section \<open>Examples\<close>

definition ex_ap :: ap_cfg where
  "ex_ap = \<lparr>iv_max_aid = 16, iv_has_tim = True, ic_bintval = 100\<rparr>"

definition ex_pframe :: "u8 \<Rightarrow> pframe" where
  "ex_pframe x = \<lparr>m_flags = 0, m_age = 0, m_rcvif = 0, m_data = [x]\<rparr>"

text \<open>Two stations join; the second sleeps and is sent two frames.\<close>

definition ex_ops :: "ap_op list" where
  "ex_ops = [NewNode 100, NewNode 100, Join 0, Join 1, DataFrame 1 0x10, Send 1 (ex_pframe 1), Send 1 (ex_pframe 2)]"

definition ex_ap_state :: ap_vap where
  "ex_ap_state = the (ap_run ex_ap ex_ops (ap_init ex_ap))"

lemma ex_ap_state_facts:
  "ap_run ex_ap ex_ops (ap_init ex_ap) \<noteq> None" "length (ap_nodes ex_ap_state) = 2"
  "map (map m_data \<circ> ps_frames ex_ap_state) [0, 1] = [[], [[1], [2]]]"
  "map ni_associd (ap_nodes ex_ap_state) = [0xc001, 0xc002]"
  "tim_range (iv_tim_bitmap ex_ap_state) (iv_ps_pending ex_ap_state) = Some (0, 1)"
  by code_simp+

lemma ex_ap_reach: "cfg_ok ex_ap" "ap_reach ex_ap ex_ap_state"
proof -
  show "cfg_ok ex_ap" by (simp add: cfg_ok_def ex_ap_def)
  obtain v where "ap_run ex_ap ex_ops (ap_init ex_ap) = Some v" using ex_ap_state_facts(1) by blast
  then show "ap_reach ex_ap ex_ap_state" using ap_run_reach [OF reach_init] by (simp add: ex_ap_state_def)
qed

theorem ap_power_save_witness:
  "unat (iv_ps_pending ex_ap_state) = card {i. i < length (ap_nodes ex_ap_state) \<and> ps_frames ex_ap_state i \<noteq> []} \<and>
    isset (iv_tim_bitmap ex_ap_state) 2 \<and> ap_exec ex_ap (Poll 1 0xc002) ex_ap_state \<noteq> None"
proof -
  note t = ap_power_save [OF ex_ap_reach]
  have n: "ni_associd (ap_nodes ex_ap_state ! 1) = 0xc002"
    using ex_ap_state_facts(2) arg_cong [OF ex_ap_state_facts(4), of "\<lambda>x. x ! 1"] by simp
  have "ap_aid ex_ap_state 1 = 2" unfolding n by code_simp
  moreover have "ps_frames ex_ap_state 1 \<noteq> []" using ex_ap_state_facts(3) by auto
  moreover have al: "\<forall>i < length (ap_nodes ex_ap_state). ni_associd (ap_nodes ex_ap_state ! i) \<noteq> 0 \<longrightarrow>
    (isset (iv_tim_bitmap ex_ap_state) (ap_aid ex_ap_state i) \<longleftrightarrow> ps_frames ex_ap_state i \<noteq> [])"
    using t by blast
  ultimately have "isset (iv_tim_bitmap ex_ap_state) 2" using al [rule_format, of 1] n ex_ap_state_facts(2) by simp
  moreover have "op_ok (Poll 1 0xc002) ex_ap_state" using ex_ap_state_facts(2) by (simp add: op_ok_def)
  ultimately show ?thesis using t by blast
qed

theorem tim_tells_station_witness:
  "\<exists>tie'. beacon_update_tim True False (iv_tim_bitmap ex_ap_state) (iv_ps_pending ex_ap_state) (tim_init 3) = Some tie' \<and>
    sta_tim_ucast 0xc002 tie' = Some True"
proof -
  have n: "ni_associd (ap_nodes ex_ap_state ! 1) = 0xc002"
    using ex_ap_state_facts(2) arg_cong [OF ex_ap_state_facts(4), of "\<lambda>x. x ! 1"] by simp
  have "ps_frames ex_ap_state 1 \<noteq> []" using ex_ap_state_facts(3) by auto
  then show ?thesis
    using tim_tells_station [OF ex_ap_reach, of 1 "tim_init 3" False] n ex_ap_state_facts(2,5) by (simp add: tim_init_def)
qed

section \<open>Defects\<close>

text \<open>
  The offset of the element is written only when its length changes. A new beacon has a map of
  one byte; if the only station with frames is that with id 17, the map is still one byte, and
  the bit is read as that of the station with id 1.
\<close>

lemma tim_stale_offset:
  "map_option (\<lambda>tie. (sta_tim_ucast 0xc011 tie, sta_tim_ucast 0xc001 tie)) (beacon_update_tim True False [0, 0, 2] 1 (tim_init 3)) =
    Some (Some False, Some True)"
  by code_simp

text \<open>
  Ages are differences to the first frame of a queue, but a frame that becomes the first keeps
  its difference: of two frames queued at the same time, for a station that asked for 40
  seconds, the second is discarded as too old right after the first was polled.
\<close>

lemma poll_loses_age:
  "map_option (\<lambda>v. map (map m_data \<circ> ps_frames v) [0, 1]) (ap_run ex_ap [Poll 1 0xc002, Age 1] ex_ap_state) = Some [[], []]"
  "map_option (\<lambda>v. map (map m_data \<circ> ps_frames v) [0, 1]) (ap_run ex_ap [Age 1] ex_ap_state) = Some [[], [[1], [2]]]"
  by code_simp+

text \<open>Frames of the first queue never age while the second is empty, as only the head of the second does.\<close>

lemma first_queue_never_ages:
  assumes "q_frames (psq_head1 q) = []" "psq_ok q" "q_frames (psq_head0 q) = m # ms" "15 \<le> m_age m"
  shows "psq_age q = ([], q)"
  using assms by (auto simp: psq_age_def psq_ok_def not_less)

text \<open>
  The age is computed in an \<open>int\<close>. A station that asks for an interval of 30000 beacons makes it
  overflow; with wrap-around the frame's age is negative, as an unsigned number very large.
\<close>

lemma ps_age_wraps: "ps_age 30000 100 = word_of_int (- 596)"
  by code_simp

text \<open>
  A reset of the node table gives back the association ids of its nodes but leaves them in the
  nodes; one that is freed later gives back its id again, which another station may have by
  then, so that a third one gets it too.
\<close>

lemma late_free_duplicates_aid:
  "map_option (\<lambda>v. map ni_associd (ap_nodes v))
     (Option.bind (node_table_reset 1 ex_ap_state) (\<lambda>v.
      Option.bind (ap_run ex_ap [NewNode 100, Join 2] v) (\<lambda>v.
      Option.bind (free_node ex_ap 1 v) (ap_run ex_ap [NewNode 100, Join 3])))) =
   Some [0xc001, 0, 0xc002, 0xc002]"
  by code_simp

end
