(* ===== verification/BlockAck.thy ===== *)
theory BlockAck
  imports RxReorder RxSeq Errno
begin

text \<open>
  Block ack agreements of an HT node (freebsd/sys/net80211/ieee80211_ht.c from
  \<open>ampdu_tx_setup\<close> to \<open>ht_send_action_ba_delba\<close>, with \<open>ieee80211_ht_node_init\<close> and
  \<open>ieee80211_ht_node_cleanup\<close>; the packet estimate of ieee80211_ht.h; the checks and the
  dispatch of action frames in ieee80211_input.c and ieee80211_action.c; the place in
  ieee80211_output.c that asks for aggregation). The methods are the defaults that
  \<open>ieee80211_ht_attach\<close> sets; a driver that refuses a request is an argument.

  A node has sixteen transmit sessions \<open>tx_ampdu\<close> and sixteen receive sessions (RxReorder). A
  callout is the handler it will call, if it is pending; when it fires is left open. Frames
  that reach the air are appended to \<open>ht_air\<close>, an action frame without its 802.11 header.
\<close>

section \<open>State\<close>

datatype ba_timer = ADDBA_TIMEOUT | BAR_TIMEOUT

datatype ba_frame = ActionFrame "u8 list" | BarFrame "u8 list"

record tx_ampdu =
  txa_flags :: u16
  txa_tid :: u8
  txa_token :: u8
  txa_lastsample :: u32
  txa_pkts :: u32
  txa_avgpps :: u32
  txa_start :: u16
  txa_seqpending :: u16
  txa_wnd :: u16
  txa_attempts :: u8
  txa_nextrequest :: u32
  txa_timer :: "ba_timer option"

abbreviation "TXA_IMMEDIATE \<equiv> (0x0001 :: u16)"
abbreviation "TXA_XCHGPEND \<equiv> (0x0002 :: u16)"
abbreviation "TXA_RUNNING \<equiv> (0x0004 :: u16)"
abbreviation "TXA_SETUP \<equiv> (0x0008 :: u16)"
abbreviation "TXA_NAK \<equiv> (0x0010 :: u16)"
abbreviation "TXA_BARPEND \<equiv> (0x0020 :: u16)"
abbreviation "TXA_AMSDU \<equiv> (0x0080 :: u16)"

record ba_stats =
  is_addba_reject :: u32
  is_addba_norequest :: u32
  is_addba_badtoken :: u32
  is_addba_badpolicy :: u32
  is_ampdu_stop :: u32
  is_ampdu_stop_failed :: u32
  is_ampdu_bar_tx :: u32
  is_ampdu_bar_tx_fail :: u32
  is_ampdu_bar_tx_retry :: u32
  is_tx_nobuf :: u32
  is_rx_action :: u32
  is_rx_elem_toosmall :: u32
  ns_tx_mgmt :: u32
  ns_rx_action :: u32

text \<open>\<open>ba_tokens\<close> is the static variable of \<open>ieee80211_ampdu_request\<close>.\<close>

record ht_node =
  ni_flags :: u32
  ni_htcap :: u16
  ni_chw :: u8
  ni_txseqs :: "u16 list"
  ni_tx_ampdu :: "tx_ampdu list"
  ni_rx_ampdu :: "rx_ampdu list"
  ni_rx_env :: rx_env
  ba_tokens :: nat
  ba_stat :: ba_stats
  ht_air :: "ba_frame list"

abbreviation "NODE_AMPDU_RX \<equiv> (0x000400 :: u32)"
abbreviation "NODE_AMPDU_TX \<equiv> (0x000800 :: u32)"
abbreviation "NODE_MIMO_PS \<equiv> (0x001000 :: u32)"
abbreviation "NODE_MIMO_RTS \<equiv> (0x002000 :: u32)"
abbreviation "NODE_AMSDU_RX \<equiv> (0x040000 :: u32)"
abbreviation "NODE_AMSDU_TX \<equiv> (0x080000 :: u32)"
abbreviation "NODE_HT_ALL \<equiv> (0x0dfcc0 :: u32)"

text \<open>What does not change: the configuration of the vap, the timeouts in ticks.\<close>

record ht_cfg =
  iv_flags_ht :: u32
  iv_htcaps :: u32
  iv_ampdu_mintraffic :: "u32 list"
  iv_myaddr :: "u8 list"
  ni_macaddr :: "u8 list"
  ht_hz :: u32
  addba_timeout :: u32
  addba_backoff :: u32
  addba_maxtries :: u32
  ampdu_age :: u32
  recv_bar_ena :: bool

abbreviation "FHT_AMPDU_TX \<equiv> (0x00100000 :: u32)"
abbreviation "FHT_AMPDU_RX \<equiv> (0x00200000 :: u32)"
abbreviation "HTC_RX_AMSDU_AMPDU \<equiv> (0x04000000 :: u32)"
abbreviation "HTC_TX_AMSDU_AMPDU \<equiv> (0x08000000 :: u32)"

text \<open>
  How an attempt to send ends: whether there is an mbuf and room for a callback, what
  \<open>ieee80211_mgmt_output\<close> or \<open>ieee80211_raw_output\<close> returns, and the bytes found in the
  field of a frame that nobody writes.
\<close>

record tx_try =
  tt_mbuf :: bool
  tt_callback :: bool
  tt_error :: status
  tt_dur :: "u8 list"

definition tx_on :: "nat \<Rightarrow> (tx_ampdu \<Rightarrow> tx_ampdu) \<Rightarrow> ht_node \<Rightarrow> ht_node" where
  "tx_on i f ni = ni\<lparr>ni_tx_ampdu := (ni_tx_ampdu ni)[i := f (ni_tx_ampdu ni ! i)]\<rparr>"

definition ba_count :: "(ba_stats \<Rightarrow> ba_stats) \<Rightarrow> ht_node \<Rightarrow> ht_node" where
  "ba_count f ni = ni\<lparr>ba_stat := f (ba_stat ni)\<rparr>"

definition ht_output :: "tx_try \<Rightarrow> ba_frame \<Rightarrow> ht_node \<Rightarrow> status \<times> ht_node" where
  "ht_output t f ni = (tt_error t, if tt_error t = OK then ni\<lparr>ht_air := ht_air ni @ [f]\<rparr> else ni)"

section \<open>Packet estimate\<close>

definition ieee80211_txampdu_init_pps :: "u32 \<Rightarrow> tx_ampdu \<Rightarrow> tx_ampdu" where
  "ieee80211_txampdu_init_pps ticks tap = tap\<lparr>txa_lastsample := ticks, txa_avgpps := 0\<rparr>"

definition ieee80211_txampdu_update_pps :: "tx_ampdu \<Rightarrow> tx_ampdu" where
  "ieee80211_txampdu_update_pps tap = tap\<lparr>txa_avgpps :=
     signed_drop_bit 2 (push_bit 2 (txa_avgpps tap) - txa_avgpps tap + txa_pkts tap)\<rparr>"

text \<open>The loop of \<open>ieee80211_txampdu_count_packet\<close> and \<open>ieee80211_txampdu_getpps\<close>.\<close>

partial_function (option) pps_loop :: "u32 \<Rightarrow> u32 \<Rightarrow> tx_ampdu \<Rightarrow> tx_ampdu option" where
  "pps_loop hz ticks tap =
     (if hz \<le>s ticks - txa_lastsample tap then
        let tap = (ieee80211_txampdu_update_pps tap)\<lparr>txa_pkts := 0\<rparr>
        in if txa_avgpps tap = 0 then Some (tap\<lparr>txa_lastsample := ticks\<rparr>)
           else pps_loop hz ticks (tap\<lparr>txa_lastsample := txa_lastsample tap + hz\<rparr>)
      else Some tap)"

declare pps_loop.simps [code]

definition ieee80211_txampdu_count_packet :: "u32 \<Rightarrow> u32 \<Rightarrow> tx_ampdu \<Rightarrow> tx_ampdu option" where
  "ieee80211_txampdu_count_packet hz ticks tap =
     map_option (\<lambda>tap. tap\<lparr>txa_pkts := txa_pkts tap + 1\<rparr>) (pps_loop hz ticks tap)"

definition ieee80211_txampdu_getpps :: "u32 \<Rightarrow> u32 \<Rightarrow> tx_ampdu \<Rightarrow> (u32 \<times> tx_ampdu) option" where
  "ieee80211_txampdu_getpps hz ticks tap = map_option (\<lambda>tap. (txa_avgpps tap, tap)) (pps_loop hz ticks tap)"

section \<open>Timers and default methods\<close>

definition ampdu_tx_setup :: "u32 \<Rightarrow> tx_ampdu \<Rightarrow> tx_ampdu" where
  "ampdu_tx_setup ticks tap =
     tap\<lparr>txa_timer := None, txa_flags := txa_flags tap OR TXA_SETUP, txa_lastsample := ticks\<rparr>"

definition addba_start_timeout :: "ht_cfg \<Rightarrow> u32 \<Rightarrow> tx_ampdu \<Rightarrow> tx_ampdu" where
  "addba_start_timeout cfg ticks tap =
     tap\<lparr>txa_timer := Some ADDBA_TIMEOUT, txa_flags := txa_flags tap OR TXA_XCHGPEND,
         txa_nextrequest := ticks + addba_timeout cfg\<rparr>"

definition addba_stop_timeout :: "tx_ampdu \<Rightarrow> tx_ampdu" where
  "addba_stop_timeout tap =
     (if txa_flags tap AND TXA_XCHGPEND \<noteq> 0
      then tap\<lparr>txa_timer := None, txa_flags := txa_flags tap AND NOT TXA_XCHGPEND\<rparr> else tap)"

definition bar_start_timer :: "tx_ampdu \<Rightarrow> tx_ampdu" where
  "bar_start_timer tap = tap\<lparr>txa_timer := Some BAR_TIMEOUT\<rparr>"

definition bar_stop_timer :: "tx_ampdu \<Rightarrow> tx_ampdu" where
  "bar_stop_timer tap = tap\<lparr>txa_timer := None\<rparr>"

text \<open>\<open>IEEE80211_BAPS_BUFSIZ\<close>, and the window that both ends make of it.\<close>

definition baps_bufsiz :: "u16 \<Rightarrow> nat" where "baps_bufsiz v = unat (drop_bit 6 (v AND 0xffc0))"
definition baps_tid :: "u16 \<Rightarrow> nat" where "baps_tid v = unat (drop_bit 2 (v AND 0x003c))"
definition baps_policy :: "u16 \<Rightarrow> u8" where "baps_policy v = ucast (drop_bit 1 (v AND 0x0002))"

definition ba_window :: "u16 \<Rightarrow> nat" where
  "ba_window v = (if baps_bufsiz v = 0 then 64 else min (baps_bufsiz v) 64)"

definition ieee80211_addba_request :: "ht_cfg \<Rightarrow> u32 \<Rightarrow> u8 \<Rightarrow> u16 \<Rightarrow> tx_ampdu \<Rightarrow> tx_ampdu" where
  "ieee80211_addba_request cfg ticks dialogtoken baparamset tap =
     addba_start_timeout cfg ticks (tap\<lparr>txa_token := dialogtoken,
       txa_flags := txa_flags tap OR TXA_IMMEDIATE, txa_wnd := word_of_nat (ba_window baparamset)\<rparr>)"

definition ieee80211_addba_response :: "ht_cfg \<Rightarrow> u32 \<Rightarrow> u16 \<Rightarrow> u16 \<Rightarrow> tx_ampdu \<Rightarrow> tx_ampdu" where
  "ieee80211_addba_response cfg flags status baparamset tap = (
     let tap = addba_stop_timeout tap in
     if status = 0 then
       let tap = tap\<lparr>txa_wnd := word_of_nat (ba_window baparamset),
                     txa_flags := txa_flags tap OR TXA_RUNNING, txa_attempts := 0\<rparr>
       in if iv_htcaps cfg AND HTC_TX_AMSDU_AMPDU \<noteq> 0 \<and> flags AND NODE_AMSDU_TX \<noteq> 0 \<and>
             baparamset AND 0x0001 \<noteq> 0
          then tap\<lparr>txa_flags := txa_flags tap OR TXA_AMSDU\<rparr>
          else tap\<lparr>txa_flags := txa_flags tap AND NOT TXA_AMSDU\<rparr>
     else tap\<lparr>txa_flags := txa_flags tap OR TXA_NAK\<rparr>)"

definition ieee80211_addba_stop :: "tx_ampdu \<Rightarrow> tx_ampdu" where
  "ieee80211_addba_stop tap = (
     let tap = addba_stop_timeout tap;
         tap = (if txa_flags tap AND TXA_RUNNING \<noteq> 0
                then tap\<lparr>txa_flags := txa_flags tap AND NOT (TXA_RUNNING OR TXA_AMSDU)\<rparr> else tap)
     in tap\<lparr>txa_attempts := 0\<rparr>)"

definition ampdu_tx_stop :: "u32 \<Rightarrow> tx_ampdu \<Rightarrow> tx_ampdu" where
  "ampdu_tx_stop ticks tap = (
     let tap = ieee80211_txampdu_init_pps ticks (bar_stop_timer (ieee80211_addba_stop tap))
     in tap\<lparr>txa_flags := txa_flags tap AND NOT (TXA_SETUP OR TXA_NAK)\<rparr>)"

text \<open>The handler of the ADDBA timer; the driver's method is empty by default.\<close>

definition addba_timeout_handler :: "tx_ampdu \<Rightarrow> tx_ampdu" where
  "addba_timeout_handler tap =
     tap\<lparr>txa_flags := txa_flags tap AND NOT TXA_XCHGPEND, txa_attempts := txa_attempts tap + 1\<rparr>"

definition ieee80211_bar_response :: "bool \<Rightarrow> tx_ampdu \<Rightarrow> tx_ampdu" where
  "ieee80211_bar_response acked tap =
     (if acked
      then tap\<lparr>txa_start := txa_seqpending tap, txa_flags := txa_flags tap AND NOT TXA_BARPEND\<rparr>
      else tap)"

text \<open>What drivers call that negotiate themselves.\<close>

definition ieee80211_ampdu_tx_request_ext :: "ht_cfg \<Rightarrow> u32 \<Rightarrow> int \<Rightarrow> ht_node \<Rightarrow> bool \<times> ht_node" where
  "ieee80211_ampdu_tx_request_ext cfg ticks tid ni =
     (if tid < 0 \<or> tid > 15 then (False, ni)
      else (True, tx_on (nat tid) (\<lambda>tap.
        let tap = (if txa_flags tap AND TXA_SETUP = 0 then ampdu_tx_setup ticks tap else tap)
        in addba_start_timeout cfg ticks (tap\<lparr>txa_flags := txa_flags tap AND NOT TXA_NAK\<rparr>)) ni))"

definition ieee80211_ampdu_tx_request_active_ext :: "int \<Rightarrow> int \<Rightarrow> ht_node \<Rightarrow> bool \<times> ht_node" where
  "ieee80211_ampdu_tx_request_active_ext tid status ni =
     (if tid < 0 \<or> tid > 15 then (False, ni)
      else (True, tx_on (nat tid) (\<lambda>tap.
        let tap = addba_stop_timeout tap
        in if status = 1 then tap\<lparr>txa_flags := txa_flags tap OR TXA_RUNNING, txa_attempts := 0\<rparr>
           else tap\<lparr>txa_flags := txa_flags tap OR TXA_NAK\<rparr>) ni))"

section \<open>Sending action frames\<close>

definition ADDSHORT :: "u16 \<Rightarrow> u8 list" where "ADDSHORT v = [lo8 v, hi8 v]"

definition ht_send_action_ba_addba :: "tx_try \<Rightarrow> u8 \<Rightarrow> u8 \<Rightarrow> u16 list \<Rightarrow> ht_node \<Rightarrow> status \<times> ht_node" where
  "ht_send_action_ba_addba t category action args ni =
     (if tt_mbuf t then
        ht_output t (ActionFrame ([category, action, lo8 (args ! 0)] @
          (if action = 1 then ADDSHORT (args ! 1) else []) @ ADDSHORT (args ! 2) @ ADDSHORT (args ! 3) @
          (if action = 0 then ADDSHORT (args ! 4) else []))) ni
      else (Some ENOMEM, ba_count (\<lambda>s. s\<lparr>is_tx_nobuf := is_tx_nobuf s + 1\<rparr>) ni))"

definition ht_send_action_ba_delba :: "tx_try \<Rightarrow> u8 \<Rightarrow> u8 \<Rightarrow> u16 list \<Rightarrow> ht_node \<Rightarrow> status \<times> ht_node" where
  "ht_send_action_ba_delba t category action args ni = (
     let baparamset = (push_bit 12 (args ! 0) AND 0xf000) OR args ! 1 in
     if tt_mbuf t then
       ht_output t (ActionFrame ([category, action] @ ADDSHORT baparamset @ ADDSHORT (args ! 2))) ni
     else (Some ENOMEM, ba_count (\<lambda>s. s\<lparr>is_tx_nobuf := is_tx_nobuf s + 1\<rparr>) ni))"

text \<open>\<open>ieee80211_send_action\<close> for the category of block acks (3), with what \<open>ieee80211_ht_init\<close> registers.\<close>

definition send_action_ba :: "tx_try \<Rightarrow> u8 \<Rightarrow> u16 list \<Rightarrow> ht_node \<Rightarrow> status \<times> ht_node" where
  "send_action_ba t act args ni =
     (if act = 0 \<or> act = 1 then ht_send_action_ba_addba t 3 act args ni
      else if act = 2 then ht_send_action_ba_delba t 3 act args ni
      else (Some EINVAL, ni))"

section \<open>Asking for aggregation\<close>

definition ieee80211_ampdu_enable :: "ht_cfg \<Rightarrow> u32 \<Rightarrow> tx_ampdu \<Rightarrow> bool" where
  "ieee80211_ampdu_enable cfg ticks tap =
     (if txa_avgpps tap < iv_ampdu_mintraffic cfg ! TID_TO_WME_AC (unat (txa_tid tap)) then False
      else if addba_maxtries cfg \<le>s ucast (txa_attempts tap) \<and>
              ieee80211_time_after ticks (txa_nextrequest tap) then False
      else True)"

text \<open>
  \<open>setup_ok\<close> is false if the driver's \<open>ic_addba_request\<close> refuses; then nothing is sent and the
  result is 0, the same as for a request that was sent.
\<close>

definition ieee80211_ampdu_request ::
  "ht_cfg \<Rightarrow> u32 \<Rightarrow> bool \<Rightarrow> tx_try \<Rightarrow> nat \<Rightarrow> ht_node \<Rightarrow> status \<times> ht_node" where
  "ieee80211_ampdu_request cfg ticks setup_ok t i ni = (
     let tid = txa_tid (ni_tx_ampdu ni ! i);
         dialogtoken = (ba_tokens ni + 1) mod 63;
         ni = tx_on i (\<lambda>tap.
           let tap = (if txa_flags tap AND TXA_SETUP = 0 then ampdu_tx_setup ticks tap else tap)
           in tap\<lparr>txa_flags := txa_flags tap AND NOT TXA_NAK, txa_start := ni_txseqs ni ! unat tid\<rparr>) ni;
         baparamset = 0x0002 OR (push_bit 2 (ucast tid) AND 0x003c) OR (push_bit 6 64 AND 0xffc0);
         baparamset = (if ni_flags ni AND NODE_AMSDU_TX \<noteq> 0 \<and> iv_htcaps cfg AND HTC_TX_AMSDU_AMPDU \<noteq> 0
                       then baparamset OR 0x0001 else baparamset)
     in if \<not> setup_ok then
          (OK, tx_on i (\<lambda>tap. tap\<lparr>txa_attempts := ucast (addba_maxtries cfg),
             txa_nextrequest := (if txa_nextrequest tap \<le>s ticks then ticks + addba_backoff cfg
                                 else txa_nextrequest tap)\<rparr>) ni)
        else
          let ni = tx_on i (ieee80211_addba_request cfg ticks (word_of_nat dialogtoken) baparamset) ni;
              ni = ni\<lparr>ba_tokens := dialogtoken\<rparr>
          in send_action_ba t 0 [word_of_nat dialogtoken, 0, baparamset, 0,
               push_bit 4 (txa_start (ni_tx_ampdu ni ! i)) AND 0xfff0] ni)"

text \<open>
  The part of \<open>ieee80211_vap_pkt_send_dest\<close> that deals with aggregation. The result says
  whether the frame is marked \<open>M_AMPDU_MPDU\<close>.
\<close>

definition pkt_send_ampdu ::
  "ht_cfg \<Rightarrow> u32 \<Rightarrow> bool \<Rightarrow> tx_try \<Rightarrow> nat \<Rightarrow> bool \<Rightarrow> bool \<Rightarrow> ht_node \<Rightarrow> (bool \<times> ht_node) option" where
  "pkt_send_ampdu cfg ticks setup_ok t tid eapol mcast ni =
     (if ni_flags ni AND NODE_AMPDU_TX \<noteq> 0 \<and> iv_flags_ht cfg AND FHT_AMPDU_TX \<noteq> 0 \<and> \<not> eapol \<and> \<not> mcast then
        case ieee80211_txampdu_count_packet (ht_hz cfg) ticks (ni_tx_ampdu ni ! tid) of
          None \<Rightarrow> None
        | Some tap \<Rightarrow>
            let ni = tx_on tid (\<lambda>_. tap) ni in
            if txa_flags tap AND TXA_RUNNING \<noteq> 0 then Some (True, ni)
            else if txa_flags tap AND (TXA_RUNNING OR TXA_XCHGPEND OR TXA_NAK) = 0 \<and>
                    ieee80211_ampdu_enable cfg ticks tap
            then Some (False, snd (ieee80211_ampdu_request cfg ticks setup_ok t tid ni))
            else Some (False, ni)
      else Some (False, ni))"

section \<open>Ending a session, block ack requests\<close>

definition ieee80211_ampdu_stop :: "tx_try \<Rightarrow> u16 \<Rightarrow> nat \<Rightarrow> ht_node \<Rightarrow> ht_node" where
  "ieee80211_ampdu_stop t reason i ni = (
     let ni = tx_on i (\<lambda>tap. tap\<lparr>txa_flags := txa_flags tap AND NOT TXA_BARPEND\<rparr>) ni in
     if txa_flags (ni_tx_ampdu ni ! i) AND TXA_RUNNING \<noteq> 0 then
       snd (send_action_ba t 2 [ucast (txa_tid (ni_tx_ampdu ni ! i)), 0x0800, reason]
         (tx_on i ieee80211_addba_stop (ba_count (\<lambda>s. s\<lparr>is_ampdu_stop := is_ampdu_stop s + 1\<rparr>) ni)))
     else ba_count (\<lambda>s. s\<lparr>is_ampdu_stop_failed := is_ampdu_stop_failed s + 1\<rparr>) ni)"

text \<open>The block ack request; the duration field is not written.\<close>

definition bar_bytes :: "ht_cfg \<Rightarrow> u8 list \<Rightarrow> tx_ampdu \<Rightarrow> u16 \<Rightarrow> u8 list" where
  "bar_bytes cfg dur tap seq =
     [0x84, 0] @ take 2 dur @ take 6 (ni_macaddr cfg) @ take 6 (iv_myaddr cfg) @
     ADDSHORT ((if txa_flags tap AND TXA_IMMEDIATE \<noteq> 0 then 0 else 0x0001) OR 0x0004 OR
       (push_bit 12 (ucast (txa_tid tap)) AND 0xf000)) @
     ADDSHORT (push_bit 4 seq AND 0xfff0)"

definition ieee80211_send_bar ::
  "ht_cfg \<Rightarrow> tx_try \<Rightarrow> nat \<Rightarrow> u16 \<Rightarrow> ht_node \<Rightarrow> status \<times> ht_node" where
  "ieee80211_send_bar cfg t i seq ni =
     (if txa_flags (ni_tx_ampdu ni ! i) AND TXA_RUNNING = 0 then (Some EINVAL, ni)
      else
        let ni = tx_on i bar_stop_timer ni in
        if \<not> tt_mbuf t \<or> \<not> tt_callback t then
          (Some ENOMEM, ba_count (\<lambda>s. s\<lparr>is_tx_nobuf := is_tx_nobuf s + 1,
             is_ampdu_bar_tx_fail := is_ampdu_bar_tx_fail s + 1\<rparr>) ni)
        else
          let bar = bar_bytes cfg (tt_dur t) (ni_tx_ampdu ni ! i) seq;
              ni = ba_count (\<lambda>s. s\<lparr>ns_tx_mgmt := ns_tx_mgmt s + 1\<rparr>) ni;
              ni = tx_on i (\<lambda>tap. tap\<lparr>
                txa_attempts := (if txa_flags tap AND TXA_BARPEND = 0 then 1 else txa_attempts tap + 1),
                txa_seqpending := seq, txa_flags := txa_flags tap OR TXA_BARPEND\<rparr>) ni
          in case ht_output t (BarFrame bar) ni of
               (None, ni) \<Rightarrow>
                 (OK, tx_on i (\<lambda>tap. if txa_flags tap AND TXA_BARPEND \<noteq> 0 then bar_start_timer tap else tap) ni)
             | (Some e, ni) \<Rightarrow>
                 (Some e, ba_count (\<lambda>s. s\<lparr>is_ampdu_bar_tx_fail := is_ampdu_bar_tx_fail s + 1\<rparr>)
                   (tx_on i (\<lambda>tap. tap\<lparr>txa_flags := txa_flags tap AND NOT TXA_BARPEND\<rparr>) ni)))"

text \<open>
  The handler of the BAR timer. \<open>ieee80211_bar_maxtries\<close> is 50; the driver's
  \<open>ic_bar_response\<close> with a failure does nothing by default.
\<close>

definition bar_timeout :: "ht_cfg \<Rightarrow> tx_try \<Rightarrow> nat \<Rightarrow> ht_node \<Rightarrow> ht_node" where
  "bar_timeout cfg t i ni = (
     let tap = ni_tx_ampdu ni ! i in
     if txa_flags tap AND TXA_BARPEND = 0 then ni
     else if txa_attempts tap \<ge> 50 then
       ieee80211_ampdu_stop t 39 i (tx_on i (ieee80211_bar_response False)
         (ba_count (\<lambda>s. s\<lparr>is_ampdu_bar_tx_fail := is_ampdu_bar_tx_fail s + 1\<rparr>) ni))
     else
       case ieee80211_send_bar cfg t i (txa_seqpending tap)
           (ba_count (\<lambda>s. s\<lparr>is_ampdu_bar_tx_retry := is_ampdu_bar_tx_retry s + 1\<rparr>) ni) of
         (None, ni) \<Rightarrow> ni
       | (Some e, ni) \<Rightarrow>
           tx_on i (\<lambda>tap. bar_start_timer (tap\<lparr>txa_flags := txa_flags tap OR TXA_BARPEND\<rparr>)) ni)"

definition bar_tx_complete :: "bool \<Rightarrow> nat \<Rightarrow> ht_node \<Rightarrow> ht_node" where
  "bar_tx_complete acked i ni = (
     let ni = ba_count (\<lambda>s. s\<lparr>is_ampdu_bar_tx := is_ampdu_bar_tx s + 1\<rparr>) ni in
     tx_on i (\<lambda>tap.
       if txa_flags tap AND TXA_BARPEND \<noteq> 0 \<and> txa_timer tap \<noteq> None
       then ieee80211_bar_response acked (if acked then bar_stop_timer tap else tap)
       else tap) ni)"

text \<open>A callout that fires is not pending any more when its handler is called.\<close>

definition callout_fire :: "ht_cfg \<Rightarrow> tx_try \<Rightarrow> nat \<Rightarrow> ht_node \<Rightarrow> ht_node" where
  "callout_fire cfg t i ni =
     (case txa_timer (ni_tx_ampdu ni ! i) of
        None \<Rightarrow> ni
      | Some ADDBA_TIMEOUT \<Rightarrow> tx_on i (\<lambda>tap. addba_timeout_handler (tap\<lparr>txa_timer := None\<rparr>)) ni
      | Some BAR_TIMEOUT \<Rightarrow> bar_timeout cfg t i (tx_on i (\<lambda>tap. tap\<lparr>txa_timer := None\<rparr>) ni))"

section \<open>Receiving action frames\<close>

text \<open>\<open>f\<close> runs on the receive session \<open>i\<close> of a node.\<close>

definition rx_on :: "nat \<Rightarrow> (rx_st \<Rightarrow> rx_st) \<Rightarrow> ht_node \<Rightarrow> ht_node" where
  "rx_on i f ni = (case f (ni_rx_ampdu ni ! i, ni_rx_env ni) of (rap, env) \<Rightarrow>
     ni\<lparr>ni_rx_ampdu := (ni_rx_ampdu ni)[i := rap], ni_rx_env := env\<rparr>)"

text \<open>The argument \<open>frm\<close> of the handlers starts with category and action.\<close>

definition ht_recv_action_ba_addba_request :: "ht_cfg \<Rightarrow> tx_try \<Rightarrow> u8 list \<Rightarrow> ht_node \<Rightarrow> ht_node" where
  "ht_recv_action_ba_addba_request cfg t frm ni = (
     let dialogtoken = frm ! 2;
         baparamset = le16 (frm ! 3) (frm ! 4);
         baseqctl = le16 (frm ! 7) (frm ! 8);
         tid = baps_tid baparamset;
         (code, ni) =
           (if ni_flags ni AND NODE_AMPDU_RX \<noteq> 0 \<and> iv_flags_ht cfg AND FHT_AMPDU_RX \<noteq> 0
            then (0, rx_on tid (ampdu_rx_start (iv_htcaps cfg AND HTC_RX_AMSDU_AMPDU \<noteq> 0)
                                baparamset baseqctl) ni)
            else (1, ba_count (\<lambda>s. s\<lparr>is_addba_reject := is_addba_reject s + 1\<rparr>) ni));
         reply = 0x0002 OR (push_bit 2 (word_of_nat tid) AND 0x003c) OR
                 (push_bit 6 (word_of_nat (rxa_wnd (ni_rx_ampdu ni ! tid))) AND 0xffc0);
         reply = (if baparamset AND 0x0001 \<noteq> 0 \<and> ni_flags ni AND NODE_AMSDU_RX \<noteq> 0 \<and>
                     iv_htcaps cfg AND HTC_RX_AMSDU_AMPDU \<noteq> 0
                  then reply OR 0x0001 else reply)
     in snd (send_action_ba t 1 [ucast dialogtoken, code, reply, 0, 0] ni))"

definition ht_recv_action_ba_addba_response :: "ht_cfg \<Rightarrow> u8 list \<Rightarrow> ht_node \<Rightarrow> ht_node" where
  "ht_recv_action_ba_addba_response cfg frm ni = (
     let dialogtoken = frm ! 2;
         code = le16 (frm ! 3) (frm ! 4);
         baparamset = le16 (frm ! 5) (frm ! 6);
         tid = baps_tid baparamset;
         tap = ni_tx_ampdu ni ! tid
     in if txa_flags tap AND TXA_XCHGPEND = 0 then
          ba_count (\<lambda>s. s\<lparr>is_addba_norequest := is_addba_norequest s + 1\<rparr>) ni
        else if dialogtoken \<noteq> txa_token tap then
          ba_count (\<lambda>s. s\<lparr>is_addba_badtoken := is_addba_badtoken s + 1\<rparr>) ni
        else if ucast (baps_policy baparamset) \<noteq> txa_flags tap AND TXA_IMMEDIATE then
          ba_count (\<lambda>s. s\<lparr>is_addba_badpolicy := is_addba_badpolicy s + 1\<rparr>) ni
        else tx_on tid (ieee80211_addba_response cfg (ni_flags ni) code baparamset) ni)"

definition delba_tid :: "u16 \<Rightarrow> nat" where "delba_tid v = unat (drop_bit 12 (v AND 0xf000))"

definition ht_recv_action_ba_delba :: "u8 list \<Rightarrow> ht_node \<Rightarrow> ht_node" where
  "ht_recv_action_ba_delba frm ni = (
     let baparamset = le16 (frm ! 2) (frm ! 3); tid = delba_tid baparamset
     in if baparamset AND 0x0800 = 0 then tx_on tid ieee80211_addba_stop ni
        else rx_on tid ampdu_rx_stop ni)"

definition ht_recv_action_ht_txchwidth :: "u8 list \<Rightarrow> ht_node \<Rightarrow> ht_node" where
  "ht_recv_action_ht_txchwidth frm ni = (
     let chw = (if frm ! 2 = 1 then 40 else 20)
     in if chw \<noteq> ni_chw ni then ni\<lparr>ni_chw := chw\<rparr> else ni)"

definition ht_recv_action_ht_mimopwrsave :: "u8 list \<Rightarrow> ht_node \<Rightarrow> ht_node" where
  "ht_recv_action_ht_mimopwrsave frm ni = (
     let flags = (if frm ! 2 AND 0x01 \<noteq> 0 then ni_flags ni OR NODE_MIMO_PS else ni_flags ni AND NOT NODE_MIMO_PS);
         flags = (if frm ! 2 AND 0x02 \<noteq> 0 then flags OR NODE_MIMO_RTS else flags AND NOT NODE_MIMO_RTS)
     in ni\<lparr>ni_flags := flags\<rparr>)"

text \<open>The lengths that \<open>ieee80211_parse_action\<close> demands of what follows the header.\<close>

definition action_minlen :: "u8 \<Rightarrow> u8 \<Rightarrow> nat" where
  "action_minlen cat act =
     (if cat = 3 then (if act = 0 \<or> act = 1 then 9 else if act = 2 then 6 else 2)
      else if cat = 7 then (if act = 0 \<or> act = 1 then 3 else 2)
      else 2)"

definition ieee80211_parse_action :: "u8 list \<Rightarrow> ht_node \<Rightarrow> bool \<times> ht_node" where
  "ieee80211_parse_action frm ni = (
     let toosmall = ba_count (\<lambda>s. s\<lparr>is_rx_elem_toosmall := is_rx_elem_toosmall s + 1\<rparr>) in
     if length frm < 2 then (False, toosmall ni)
     else
       let ni = ba_count (\<lambda>s. s\<lparr>is_rx_action := is_rx_action s + 1, ns_rx_action := ns_rx_action s + 1\<rparr>) ni
       in if length frm < action_minlen (frm ! 0) (frm ! 1) then (False, toosmall ni) else (True, ni))"

text \<open>
  \<open>ieee80211_recv_action\<close> with what \<open>ieee80211_ht_init\<close> registers, and the placeholder that
  \<open>ieee80211_vht_init\<close> registers three times; all else is refused.
\<close>

definition ieee80211_recv_action :: "ht_cfg \<Rightarrow> tx_try \<Rightarrow> u8 list \<Rightarrow> ht_node \<Rightarrow> status \<times> ht_node" where
  "ieee80211_recv_action cfg t frm ni = (
     let cat = frm ! 0; act = frm ! 1 in
     if cat = 3 \<and> act = 0 then (OK, ht_recv_action_ba_addba_request cfg t frm ni)
     else if cat = 3 \<and> act = 1 then (OK, ht_recv_action_ba_addba_response cfg frm ni)
     else if cat = 3 \<and> act = 2 then (OK, ht_recv_action_ba_delba frm ni)
     else if cat = 7 \<and> act = 0 then (OK, ht_recv_action_ht_txchwidth frm ni)
     else if cat = 7 \<and> act = 1 then (OK, ht_recv_action_ht_mimopwrsave frm ni)
     else if cat = 21 \<and> act < 3 then (OK, ni)
     else (Some EINVAL, ni))"

text \<open>
  What a mode's \<open>recv_mgmt\<close> does with an action frame that is for this station, of a known
  node and in the run state; and what its input does with a block ack request, whose length
  nobody checks.
\<close>

definition recv_frame :: "ht_cfg \<Rightarrow> tx_try \<Rightarrow> ba_frame \<Rightarrow> ht_node \<Rightarrow> ht_node option" where
  "recv_frame cfg t f ni =
     (case f of
        ActionFrame frm \<Rightarrow>
          (case ieee80211_parse_action frm ni of (ok, ni) \<Rightarrow>
             Some (if ok then snd (ieee80211_recv_action cfg t frm ni) else ni))
      | BarFrame bar \<Rightarrow>
          if length bar < 20 then None
          else case ieee80211_recv_bar (recv_bar_ena cfg) \<lparr>m_segs = [bar], m_rxs = None, m_flags = 0\<rparr>
              (ni_rx_ampdu ni, ni_rx_env ni) of
             (raps, env) \<Rightarrow> Some (ni\<lparr>ni_rx_ampdu := raps, ni_rx_env := env\<rparr>))"

section \<open>Set-up and cleanup of the node\<close>

definition ieee80211_ht_node_cleanup :: "u32 \<Rightarrow> ht_node \<Rightarrow> ht_node" where
  "ieee80211_ht_node_cleanup ticks ni = (
     let ni = fold (\<lambda>i ni. if txa_flags (ni_tx_ampdu ni ! i) AND TXA_SETUP \<noteq> 0
                           then tx_on i (ampdu_tx_stop ticks) ni else ni) [0..<16] ni;
         ni = fold (\<lambda>i. rx_on i ampdu_rx_stop) [0..<16] ni
     in ni\<lparr>ni_htcap := 0, ni_flags := ni_flags ni AND NOT NODE_HT_ALL\<rparr>)"

definition ieee80211_ht_node_init :: "u32 \<Rightarrow> ht_node \<Rightarrow> ht_node" where
  "ieee80211_ht_node_init ticks ni = (
     let ni = (if ni_flags ni AND NODE_HT \<noteq> 0 then ieee80211_ht_node_cleanup ticks ni else ni);
         ni = fold (\<lambda>i ni. rx_on i (\<lambda>(rap, env). (ieee80211_ampdu_rx_init_rap rap, env))
                (tx_on i (\<lambda>tap. ieee80211_txampdu_init_pps ticks (tap\<lparr>txa_tid := word_of_nat i\<rparr>)) ni)) [0..<16] ni
     in ni\<lparr>ni_flags := ni_flags ni OR (NODE_HT OR NODE_AMPDU_RX OR NODE_AMPDU_TX OR NODE_AMSDU_RX OR NODE_AMSDU_TX)\<rparr>)"

end
