(* ===== verification/BlockAckProps.thy ===== *)
theory BlockAckProps
  imports BlockAck RxReorderProps
begin

text \<open>
  What the operations of one node do to its sessions and to the frames in flight, in the terms
  in which the two ends of a block ack agreement are compared.
\<close>

section \<open>A transmit session\<close>

lemma txa_bits:
  "(f AND 1 = 0) = (\<not> bit f 0)" "(f AND 2 = 0) = (\<not> bit f 1)" "(f AND 4 = 0) = (\<not> bit f 2)"
  "(f AND 8 = 0) = (\<not> bit f 3)" "(f AND 0x10 = 0) = (\<not> bit f 4)" "(f AND 0x20 = 0) = (\<not> bit f 5)"
  "(f AND 0x80 = 0) = (\<not> bit f 7)" for f :: u16
  using and_exp_eq_0_iff_not_bit [of f 0] and_exp_eq_0_iff_not_bit [of f 1] and_exp_eq_0_iff_not_bit [of f 2]
    and_exp_eq_0_iff_not_bit [of f 3] and_exp_eq_0_iff_not_bit [of f 4] and_exp_eq_0_iff_not_bit [of f 5]
    and_exp_eq_0_iff_not_bit [of f 7] by simp_all

definition tx_run :: "tx_ampdu \<Rightarrow> bool" where "tx_run tap \<longleftrightarrow> txa_flags tap AND TXA_RUNNING \<noteq> 0"
definition tx_pend :: "tx_ampdu \<Rightarrow> bool" where "tx_pend tap \<longleftrightarrow> txa_flags tap AND TXA_XCHGPEND \<noteq> 0"
definition tx_set :: "tx_ampdu \<Rightarrow> bool" where "tx_set tap \<longleftrightarrow> txa_flags tap AND TXA_SETUP \<noteq> 0"
definition tx_amsdu :: "tx_ampdu \<Rightarrow> bool" where "tx_amsdu tap \<longleftrightarrow> txa_flags tap AND TXA_AMSDU \<noteq> 0"

lemmas tx_bits = tx_run_def tx_pend_def tx_set_def tx_amsdu_def txa_bits bit_or_iff bit_and_iff bit_not_iff

text \<open>A session that claims no more than another: what everything but a request and an answer does.\<close>

definition tx_less :: "tx_ampdu \<Rightarrow> tx_ampdu \<Rightarrow> bool" where
  "tx_less a b \<longleftrightarrow> (tx_run a \<longrightarrow> tx_run b) \<and> (tx_pend a \<longrightarrow> tx_pend b) \<and>
     ((tx_run a \<or> tx_pend a) \<and> tx_set b \<longrightarrow> tx_set a) \<and> txa_token a = txa_token b \<and> txa_wnd a = txa_wnd b \<and>
     (tx_run a \<longrightarrow> tx_amsdu a \<longrightarrow> tx_amsdu b) \<and> txa_tid a = txa_tid b"

lemma tx_less_refl [simp]: "tx_less a a" by (simp add: tx_less_def)

lemma tx_less_trans: "tx_less a b \<Longrightarrow> tx_less b c \<Longrightarrow> tx_less a c"
  unfolding tx_less_def by auto

text \<open>The fields that say nothing of the agreement.\<close>

lemma tx_field_simps [simp]:
  "tx_run (tap\<lparr>txa_timer := x\<rparr>) = tx_run tap" "tx_pend (tap\<lparr>txa_timer := x\<rparr>) = tx_pend tap"
  "tx_run (tap\<lparr>txa_attempts := n\<rparr>) = tx_run tap" "tx_pend (tap\<lparr>txa_attempts := n\<rparr>) = tx_pend tap"
  by (simp_all add: tx_run_def tx_pend_def)

lemma sint_diff_less:
  fixes d :: u32
  assumes "0 <s hz" "hz \<le>s d"
  shows "0 \<le> sint (d - hz) \<and> sint (d - hz) < sint d"
proof -
  have a: "0 < sint hz" "sint hz \<le> sint d" using assms by (simp_all add: word_sless_alt word_sle_eq)
  have b: "sint d < 2 ^ 31" using sint_lt [of d] by simp
  have "sint (d - hz) = signed_take_bit 31 (sint d - sint hz)" by (simp add: sint_word_ariths)
  also have "\<dots> = sint d - sint hz" using a b by (intro signed_take_bit_int_eq_self) auto
  finally show ?thesis using a by simp
qed

text \<open>The loop ends, if there are ticks in a second, and leaves the state of the session alone.\<close>

lemma pps_loop_ends:
  assumes "0 <s hz"
  shows "\<exists>tap'. pps_loop hz ticks tap = Some tap' \<and> tx_less tap' tap \<and> txa_flags tap' = txa_flags tap"
proof (induction "nat (sint (ticks - txa_lastsample tap))" arbitrary: tap rule: less_induct)
  case less
  define t where "t = (ieee80211_txampdu_update_pps tap)\<lparr>txa_pkts := 0\<rparr>"
  have t: "txa_flags t = txa_flags tap" "txa_lastsample t = txa_lastsample tap"
    by (simp_all add: t_def ieee80211_txampdu_update_pps_def)
  have u: "tx_less (t\<lparr>txa_lastsample := x\<rparr>) tap" for x
    by (simp add: t_def ieee80211_txampdu_update_pps_def tx_less_def tx_bits)
  show ?case
  proof (cases "hz \<le>s ticks - txa_lastsample tap \<and> txa_avgpps t \<noteq> 0")
    case True
    let ?t = "t\<lparr>txa_lastsample := txa_lastsample t + hz\<rparr>"
    have "nat (sint (ticks - txa_lastsample ?t)) < nat (sint (ticks - txa_lastsample tap))"
      using sint_diff_less [OF assms, of "ticks - txa_lastsample tap"] True by (simp add: t algebra_simps)
    from less [OF this] obtain t' where r: "pps_loop hz ticks ?t = Some t'" "tx_less t' ?t" "txa_flags t' = txa_flags t"
      by auto
    moreover have "pps_loop hz ticks tap = pps_loop hz ticks ?t"
      using True by (subst pps_loop.simps) (simp add: t_def [symmetric])
    ultimately show ?thesis using tx_less_trans [OF r(2) u] t by simp
  next
    case False
    then have "pps_loop hz ticks tap = Some (t\<lparr>txa_lastsample := ticks\<rparr>) \<or> pps_loop hz ticks tap = Some tap"
      by (subst (1 2) pps_loop.simps) (auto simp: t_def [symmetric])
    then show ?thesis using u t by auto
  qed
qed

lemma count_packet_ends:
  assumes "0 <s hz"
  obtains tap' where "ieee80211_txampdu_count_packet hz ticks tap = Some tap'" "tx_less tap' tap"
    "txa_flags tap' = txa_flags tap"
proof -
  obtain t where t: "pps_loop hz ticks tap = Some t" "tx_less t tap" "txa_flags t = txa_flags tap"
    using pps_loop_ends [OF assms] by blast
  have "tx_less (t\<lparr>txa_pkts := txa_pkts t + 1\<rparr>) t" by (simp add: tx_less_def tx_bits)
  then show ?thesis using that t tx_less_trans by (simp add: ieee80211_txampdu_count_packet_def)
qed

lemma addba_stop_less: "tx_less (ieee80211_addba_stop tap) tap"
    "\<not> tx_run (ieee80211_addba_stop tap)" "\<not> tx_pend (ieee80211_addba_stop tap)"
  by (simp_all add: ieee80211_addba_stop_def addba_stop_timeout_def Let_def tx_less_def tx_bits)

lemma tx_stop_less: "tx_less (ampdu_tx_stop ticks tap) tap"
    "\<not> tx_run (ampdu_tx_stop ticks tap)" "\<not> tx_pend (ampdu_tx_stop ticks tap)"
  using addba_stop_less [of tap]
  by (simp_all add: ampdu_tx_stop_def bar_stop_timer_def ieee80211_txampdu_init_pps_def Let_def tx_less_def tx_bits)

lemma tx_updates_less:
  "tx_less (tap\<lparr>txa_flags := txa_flags tap AND NOT TXA_BARPEND\<rparr>) tap"
  "tx_less (tap\<lparr>txa_flags := txa_flags tap OR TXA_BARPEND\<rparr>) tap"
  "tx_less (tap\<lparr>txa_timer := x\<rparr>) tap" "tx_less (addba_timeout_handler tap) tap"
  "tx_less (ieee80211_bar_response b tap) tap" "tx_less (bar_start_timer tap) tap" "tx_less (bar_stop_timer tap) tap"
  by (simp_all add: tx_less_def tx_bits addba_timeout_handler_def ieee80211_bar_response_def bar_start_timer_def
      bar_stop_timer_def)

section \<open>What of a node the operations leave alone\<close>

text \<open>
  \<open>ht_quiet ni ni' fs\<close>: no session claims more than before, the receive sessions are as they
  were, and the frames \<open>fs\<close> have been sent.
\<close>

definition ht_quiet :: "ht_node \<Rightarrow> ht_node \<Rightarrow> ba_frame list \<Rightarrow> bool" where
  "ht_quiet ni ni' fs \<longleftrightarrow> length (ni_tx_ampdu ni') = length (ni_tx_ampdu ni) \<and>
     (\<forall>t < length (ni_tx_ampdu ni). tx_less (ni_tx_ampdu ni' ! t) (ni_tx_ampdu ni ! t)) \<and>
     ni_rx_ampdu ni' = ni_rx_ampdu ni \<and> ni_txseqs ni' = ni_txseqs ni \<and> ba_tokens ni' = ba_tokens ni \<and>
     ni_flags ni' = ni_flags ni \<and> ht_air ni' = ht_air ni @ fs"

lemma ht_quiet_refl [simp]: "ht_quiet ni ni []"
  by (simp add: ht_quiet_def)

lemma ht_quiet_trans: "ht_quiet a b fs \<Longrightarrow> ht_quiet b c gs \<Longrightarrow> ht_quiet a c (fs @ gs)"
  unfolding ht_quiet_def by (auto intro: tx_less_trans)

lemma ht_quiet_then: "ht_quiet b c gs \<Longrightarrow> ht_quiet a b [] \<Longrightarrow> ht_quiet a c gs"
  using ht_quiet_trans by fastforce

lemma ht_quiet_on: "(\<And>tap. tx_less (f tap) tap) \<Longrightarrow> ht_quiet ni (tx_on i f ni) []"
  by (cases "i < length (ni_tx_ampdu ni)") (simp_all add: ht_quiet_def tx_on_def nth_list_update)

lemma ht_quiet_count: "ht_quiet ni (ba_count f ni) []"
  by (simp add: ht_quiet_def ba_count_def)

lemma ht_quiet_output: "\<exists>gs. ht_quiet ni (snd (ht_output t f ni)) gs \<and> set gs \<subseteq> {f}"
  by (rule exI [of _ "if tt_error t = OK then [f] else []"]) (auto simp: ht_output_def ht_quiet_def)

lemma tx_on_simps [simp]:
  "ni_rx_ampdu (tx_on i f ni) = ni_rx_ampdu ni" "ni_flags (tx_on i f ni) = ni_flags ni"
  "ht_air (tx_on i f ni) = ht_air ni" "ba_tokens (tx_on i f ni) = ba_tokens ni"
  "ni_txseqs (tx_on i f ni) = ni_txseqs ni" "length (ni_tx_ampdu (tx_on i f ni)) = length (ni_tx_ampdu ni)"
  "i < length (ni_tx_ampdu ni) \<Longrightarrow> ni_tx_ampdu (tx_on i f ni) ! j = (if i = j then f (ni_tx_ampdu ni ! i) else ni_tx_ampdu ni ! j)"
  "ni_rx_env (tx_on i f ni) = ni_rx_env ni"
  by (simp_all add: tx_on_def)

lemma ba_count_simps [simp]:
  "ni_rx_ampdu (ba_count f ni) = ni_rx_ampdu ni" "ni_flags (ba_count f ni) = ni_flags ni"
  "ht_air (ba_count f ni) = ht_air ni" "ba_tokens (ba_count f ni) = ba_tokens ni"
  "ni_txseqs (ba_count f ni) = ni_txseqs ni" "ni_tx_ampdu (ba_count f ni) = ni_tx_ampdu ni"
  "ni_rx_env (ba_count f ni) = ni_rx_env ni"
  by (simp_all add: ba_count_def)

section \<open>Frames in flight\<close>

abbreviation is_action :: "nat \<Rightarrow> u8 \<Rightarrow> u8 list \<Rightarrow> bool" where
  "is_action n act b \<equiv> n \<le> length b \<and> b ! 0 = 3 \<and> b ! 1 = act"

fun is_request :: "nat \<Rightarrow> ba_frame \<Rightarrow> bool" where
  "is_request t (ActionFrame b) \<longleftrightarrow> is_action 9 0 b \<and> baps_tid (le16 (b ! 3) (b ! 4)) = t"
| "is_request t (BarFrame b) \<longleftrightarrow> False"

fun is_delba :: "nat \<Rightarrow> ba_frame \<Rightarrow> bool" where
  "is_delba t (ActionFrame b) \<longleftrightarrow> is_action 6 2 b \<and> delba_tid (le16 (b ! 2) (b ! 3)) = t \<and>
     le16 (b ! 2) (b ! 3) AND 0x0800 \<noteq> 0"
| "is_delba t (BarFrame b) \<longleftrightarrow> False"

fun is_answer :: "nat \<Rightarrow> ba_frame \<Rightarrow> bool" where
  "is_answer t (ActionFrame b) \<longleftrightarrow> is_action 9 1 b \<and> baps_tid (le16 (b ! 5) (b ! 6)) = t"
| "is_answer t (BarFrame b) \<longleftrightarrow> False"

fun frame_token :: "ba_frame \<Rightarrow> u8" where
  "frame_token (ActionFrame b) = b ! 2" | "frame_token (BarFrame b) = 0"

fun answer_params :: "ba_frame \<Rightarrow> u16" where
  "answer_params (ActionFrame b) = le16 (b ! 5) (b ! 6)" | "answer_params (BarFrame b) = 0"

fun answer_ok :: "ba_frame \<Rightarrow> bool" where
  "answer_ok (ActionFrame b) \<longleftrightarrow> le16 (b ! 3) (b ! 4) = 0" | "answer_ok (BarFrame b) \<longleftrightarrow> False"

text \<open>The frames that set up or end the receive session of a tid.\<close>

definition touches :: "nat \<Rightarrow> ba_frame \<Rightarrow> bool" where "touches t f \<longleftrightarrow> is_request t f \<or> is_delba t f"

definition untouched :: "nat \<Rightarrow> ba_frame list \<Rightarrow> bool" where
  "untouched t q \<longleftrightarrow> (\<forall>f \<in> set q. \<not> touches t f)"

text \<open>Behind a request with the token \<open>k\<close> nothing else for the session is in flight.\<close>

fun settled :: "nat \<Rightarrow> u8 \<Rightarrow> ba_frame list \<Rightarrow> bool" where
  "settled t k [] \<longleftrightarrow> True"
| "settled t k (f # q) \<longleftrightarrow> (is_request t f \<and> frame_token f = k \<longrightarrow> untouched t q) \<and> settled t k q"

lemma untouched_simps [simp]: "untouched t []" "untouched t (f # q) \<longleftrightarrow> \<not> touches t f \<and> untouched t q"
  "untouched t (p @ q) \<longleftrightarrow> untouched t p \<and> untouched t q"
  by (auto simp: untouched_def)

lemma settled_append: "untouched t fs \<Longrightarrow> settled t k q \<Longrightarrow> settled t k (q @ fs)"
proof (induction q)
  case Nil
  then show ?case by (induction fs) (auto simp: touches_def)
qed auto

lemma settled_fresh: "\<forall>f \<in> set q. \<not> (is_request t f \<and> frame_token f = k) \<Longrightarrow> settled t k (q @ [f])"
  by (induction q) auto

lemma settled_remove: "settled t k (p @ f # q) \<Longrightarrow> settled t k (p @ q)"
  by (induction p) auto

section \<open>Agreement of the two ends of a session\<close>

definition rx_agreed :: "rx_ampdu \<Rightarrow> nat \<Rightarrow> bool \<Rightarrow> bool" where
  "rx_agreed rap w amsdu \<longleftrightarrow> rap_ok rap \<and> running rap \<and> rxa_flags rap AND AGGR_RUNNING \<noteq> 0 \<and> rxa_wnd rap = w \<and>
     (amsdu \<longrightarrow> rxa_flags rap AND AGGR_AMSDU \<noteq> 0)"

definition rx_keeps :: "rx_ampdu \<Rightarrow> rx_ampdu \<Rightarrow> bool" where
  "rx_keeps rap rap' \<longleftrightarrow> (\<forall>w a. rx_agreed rap w a \<longrightarrow> rx_agreed rap' w a)"

text \<open>
  The transmit session \<open>tap\<close> of a node and the receive session \<open>rap\<close> of its peer, with what is
  in flight to the peer (\<open>q\<close>) and from it (\<open>r\<close>).
\<close>

definition agreed :: "nat \<Rightarrow> tx_ampdu \<Rightarrow> rx_ampdu \<Rightarrow> ba_frame list \<Rightarrow> ba_frame list \<Rightarrow> bool" where
  "agreed t tap rap q r \<longleftrightarrow>
     (tx_run tap \<longrightarrow> rx_agreed rap (unat (txa_wnd tap)) (tx_amsdu tap) \<and> untouched t q) \<and>
     (tx_pend tap \<longrightarrow> \<not> tx_run tap \<and> settled t (txa_token tap) q \<and>
        (\<forall>f \<in> set r. is_answer t f \<and> frame_token f = txa_token tap \<and> answer_ok f \<longrightarrow>
           rx_agreed rap (ba_window (answer_params f)) (answer_params f AND 0x0001 \<noteq> 0) \<and> untouched t q))"

lemma agreed_less: "agreed t tap rap q r \<Longrightarrow> tx_less tap' tap \<Longrightarrow> agreed t tap' rap q r"
  unfolding agreed_def tx_less_def rx_agreed_def by auto

lemma agreed_keeps: "agreed t tap rap q r \<Longrightarrow> rx_keeps rap rap' \<Longrightarrow> agreed t tap rap' q r"
  unfolding agreed_def rx_keeps_def by auto

lemma agreed_idle: "\<not> tx_run tap \<Longrightarrow> \<not> tx_pend tap \<Longrightarrow> agreed t tap rap q r"
  by (simp add: agreed_def)

lemma agreed_send: "agreed t tap rap q r \<Longrightarrow> untouched t fs \<Longrightarrow> agreed t tap rap (q @ fs) r"
  unfolding agreed_def using settled_append by auto

lemma agreed_reply: "agreed t tap rap q r \<Longrightarrow> \<forall>f \<in> set fs. \<not> is_answer t f \<Longrightarrow> agreed t tap rap q (r @ fs)"
  unfolding agreed_def by auto

lemma agreed_lost:
  "agreed t tap rap (p @ f # q) r \<Longrightarrow> agreed t tap rap (p @ q) r"
  "agreed t tap rap q (p @ f # r) \<Longrightarrow> agreed t tap rap q (p @ r)"
  unfolding agreed_def using settled_remove by auto

text \<open>A request with a token that nothing in flight carries.\<close>

lemma agreed_request:
  assumes "\<not> tx_run tap" "\<forall>f \<in> set q. is_request t f \<longrightarrow> frame_token f \<noteq> txa_token tap"
    "\<forall>f \<in> set r. is_answer t f \<longrightarrow> frame_token f \<noteq> txa_token tap" "fs = [] \<or> fs = [f]"
  shows "agreed t tap rap (q @ fs) r"
proof -
  have "settled t (txa_token tap) (q @ [f])" using assms(2) by (intro settled_fresh) auto
  moreover from settled_remove [of t _ q f "[]"] this have "settled t (txa_token tap) q" by auto
  ultimately show ?thesis using assms unfolding agreed_def by auto
qed

text \<open>The peer takes a request in and answers it.\<close>

lemma agreed_requested:
  assumes "agreed t tap rap (f # q) r" "is_request t f"
    "g = [] \<or> (\<exists>a. g = [a] \<and> frame_token a = frame_token f \<and> (answer_ok a \<longrightarrow>
       rx_agreed rap' (ba_window (answer_params a)) (answer_params a AND 0x0001 \<noteq> 0)))"
  shows "agreed t tap rap' q (r @ g)"
  using assms unfolding agreed_def by (auto simp: touches_def)

text \<open>The peer takes a frame in that ends its session.\<close>

lemma agreed_ended: "agreed t tap rap (f # q) r \<Longrightarrow> touches t f \<Longrightarrow> agreed t tap rap' q r"
  unfolding agreed_def by auto

text \<open>The sender takes a frame in that concerns the receive session of another direction.\<close>

lemma agreed_answered:
  assumes "agreed t tap rap q (f # r)" "is_answer t f" "tx_pend tap" "frame_token f = txa_token tap"
    "\<not> tx_pend tap'" "tx_run tap' \<longrightarrow> answer_ok f \<and> unat (txa_wnd tap') = ba_window (answer_params f) \<and>
       (tx_amsdu tap' \<longrightarrow> answer_params f AND 0x0001 \<noteq> 0)"
  shows "agreed t tap' rap q r"
  using assms unfolding agreed_def rx_agreed_def by auto

end
