(* ===== verification/BlockAckNet.thy ===== *)
theory BlockAckNet
  imports BlockAckProps
begin

text \<open>
  Two stations that set up block ack agreements with each other. Frames arrive in the order in
  which they were sent or not at all; the timers fire when they like. \<open>net i\<close> is the node with
  which station \<open>i\<close> represents its peer \<open>\<not> i\<close>, and \<open>ht_air (net i)\<close> is what is in flight from
  \<open>i\<close> to \<open>\<not> i\<close>.
\<close>

section \<open>The system\<close>

type_synonym ba_net = "bool \<Rightarrow> ht_node"

datatype ba_op =
    PktSend u32 bool tx_try nat bool bool   \<comment> \<open>a frame to send (ticks, driver agrees, tid, EAPOL, group)\<close>
  | TimerFires tx_try nat
  | AmpduStop tx_try u16 nat
  | SendBar tx_try nat u16
  | BarDone bool nat
  | RecvFrame tx_try
  | FrameLost nat
  | DataIn u32 mbuf "u32 option"
  | HtNodeAge u32
  | OtherRequest   \<comment> \<open>a request to another station takes a token\<close>
  | Negotiated u32   \<comment> \<open>what else association sets in \<open>ni_flags\<close>\<close>
  | Associate u32   \<comment> \<open>both ends set the other's node up again\<close>

definition at :: "bool \<Rightarrow> (ht_node \<Rightarrow> ht_node) \<Rightarrow> ba_net \<Rightarrow> ba_net" where
  "at i f net = net(i := f (net i))"

definition ba_exec :: "(bool \<Rightarrow> ht_cfg) \<Rightarrow> bool \<Rightarrow> ba_op \<Rightarrow> ba_net \<Rightarrow> ba_net option" where
  "ba_exec cfg i op net =
     (case op of
        PktSend ticks setup_ok t tid eapol mcast \<Rightarrow>
          map_option (\<lambda>(_, ni). net(i := ni)) (pkt_send_ampdu (cfg i) ticks setup_ok t tid eapol mcast (net i))
      | TimerFires t tid \<Rightarrow> Some (at i (callout_fire (cfg i) t tid) net)
      | AmpduStop t reason tid \<Rightarrow> Some (at i (ieee80211_ampdu_stop t reason tid) net)
      | SendBar t tid seq \<Rightarrow> Some (at i (\<lambda>ni. snd (ieee80211_send_bar (cfg i) t tid seq ni)) net)
      | BarDone acked tid \<Rightarrow> Some (at i (bar_tx_complete acked tid) net)
      | RecvFrame t \<Rightarrow>
          (case ht_air (net (\<not> i)) of
             [] \<Rightarrow> Some net
           | f # fs \<Rightarrow>
               map_option (\<lambda>ni. (net(\<not> i := (net (\<not> i))\<lparr>ht_air := fs\<rparr>))(i := ni)) (recv_frame (cfg i) t f (net i)))
      | FrameLost k \<Rightarrow> Some (at i (\<lambda>ni. ni\<lparr>ht_air := take k (ht_air ni) @ drop (Suc k) (ht_air ni)\<rparr>) net)
      | DataIn ticks m rxs \<Rightarrow>
          (case ieee80211_ampdu_reorder ticks (ampdu_age (cfg i)) m rxs (ni_rx_ampdu (net i), ni_rx_env (net i)) of
             None \<Rightarrow> None
           | Some (v, raps, env) \<Rightarrow> Some (at i (\<lambda>ni. ni\<lparr>ni_rx_ampdu := raps, ni_rx_env := env\<rparr>) net))
      | HtNodeAge ticks \<Rightarrow>
          (case ieee80211_ht_node_age ticks (ampdu_age (cfg i)) (ni_rx_ampdu (net i), ni_rx_env (net i)) of
             (raps, env) \<Rightarrow> Some (at i (\<lambda>ni. ni\<lparr>ni_rx_ampdu := raps, ni_rx_env := env\<rparr>) net))
      | OtherRequest \<Rightarrow> Some (at i (\<lambda>ni. ni\<lparr>ba_tokens := (ba_tokens ni + 1) mod 63\<rparr>) net)
      | Negotiated flags \<Rightarrow> Some (at i (\<lambda>ni. ni\<lparr>ni_flags := flags OR NODE_HT\<rparr>) net)
      | Associate ticks \<Rightarrow>
          Some (\<lambda>i. ieee80211_ht_node_init ticks (net i)))"

text \<open>A mode's address fields are complete and there are ticks in a second.\<close>

definition ht_cfg_ok :: "ht_cfg \<Rightarrow> bool" where
  "ht_cfg_ok cfg \<longleftrightarrow> 0 <s ht_hz cfg \<and> length (iv_myaddr cfg) = 6 \<and> length (ni_macaddr cfg) = 6"

text \<open>
  Tokens are numbers below 63 and come round again: no frame stays in flight while 62 further
  requests are made.
\<close>

definition token_free :: "bool \<Rightarrow> nat \<Rightarrow> ba_net \<Rightarrow> bool" where
  "token_free i tid net \<longleftrightarrow> (let k = word_of_nat ((ba_tokens (net i) + 1) mod 63) in
     (\<forall>f \<in> set (ht_air (net i)). is_request tid f \<longrightarrow> frame_token f \<noteq> k) \<and>
     (\<forall>f \<in> set (ht_air (net (\<not> i))). is_answer tid f \<longrightarrow> frame_token f \<noteq> k))"

fun ba_op_ok :: "bool \<Rightarrow> ba_op \<Rightarrow> ba_net \<Rightarrow> bool" where
  "ba_op_ok i (PktSend ticks setup_ok t tid eapol mcast) net \<longleftrightarrow> tid < 16 \<and> token_free i tid net"
| "ba_op_ok i (TimerFires t tid) net \<longleftrightarrow> tid < 16 \<and> length (tt_dur t) = 2"
| "ba_op_ok i (AmpduStop t reason tid) net \<longleftrightarrow> tid < 16"
| "ba_op_ok i (SendBar t tid seq) net \<longleftrightarrow> tid < 16 \<and> length (tt_dur t) = 2"
| "ba_op_ok i (BarDone acked tid) net \<longleftrightarrow> tid < 16"
| "ba_op_ok i op net \<longleftrightarrow> True"

text \<open>A node as \<open>ieee80211_node\<close>s are allocated, with zeros.\<close>

definition ht_node0 :: "u32 \<Rightarrow> u16 list \<Rightarrow> rx_env \<Rightarrow> nat \<Rightarrow> ba_stats \<Rightarrow> ht_node" where
  "ht_node0 flags txseqs env tokens st =
     \<lparr>ni_flags = flags AND NOT NODE_HT_ALL, ni_htcap = 0, ni_chw = 20, ni_txseqs = txseqs,
      ni_tx_ampdu = replicate 16 \<lparr>txa_flags = 0, txa_tid = 0, txa_token = 0, txa_lastsample = 0, txa_pkts = 0,
        txa_avgpps = 0, txa_start = 0, txa_seqpending = 0, txa_wnd = 0, txa_attempts = 0, txa_nextrequest = 0,
        txa_timer = None\<rparr>,
      ni_rx_ampdu = replicate 16 \<lparr>rxa_flags = 0, rxa_qbytes = 0, rxa_qframes = 0, rxa_start = 0, rxa_wnd = 0,
        rxa_age = 0, rxa_nframes = 0, rxa_mq = replicate 64 []\<rparr>,
      ni_rx_env = env, ba_tokens = tokens, ba_stat = st, ht_air = []\<rparr>"

inductive ba_reach :: "(bool \<Rightarrow> ht_cfg) \<Rightarrow> ba_net \<Rightarrow> bool" for cfg where
  start: "\<forall>i. length (sq i) \<ge> 16 \<Longrightarrow>
    ba_reach cfg (\<lambda>i. ieee80211_ht_node_init ticks (ht_node0 (fl i) (sq i) (env i) (tok i) (st i)))"
| step: "ba_reach cfg net \<Longrightarrow> ba_op_ok i op net \<Longrightarrow> ba_exec cfg i op net = Some net' \<Longrightarrow> ba_reach cfg net'"

section \<open>Invariant\<close>

definition rap_live :: "rx_ampdu \<Rightarrow> bool" where
  "rap_live rap \<longleftrightarrow> rap_ok rap \<and> running rap \<or> rxa_flags rap AND AGGR_XCHGPEND = 0"

fun bar_long :: "ba_frame \<Rightarrow> bool" where
  "bar_long (BarFrame b) \<longleftrightarrow> 20 \<le> length b" | "bar_long (ActionFrame b) \<longleftrightarrow> True"

definition tap_ok :: "nat \<Rightarrow> tx_ampdu \<Rightarrow> bool" where
  "tap_ok t tap \<longleftrightarrow> txa_tid tap = word_of_nat t \<and> (tx_run tap \<or> tx_pend tap \<longrightarrow> tx_set tap)"

definition ht_ok :: "ht_node \<Rightarrow> bool" where
  "ht_ok ni \<longleftrightarrow> length (ni_tx_ampdu ni) = 16 \<and> length (ni_rx_ampdu ni) = 16 \<and> 16 \<le> length (ni_txseqs ni) \<and>
     ni_flags ni AND NODE_HT \<noteq> 0 \<and> (\<forall>f \<in> set (ht_air ni). bar_long f) \<and>
     (\<forall>t < 16. tap_ok t (ni_tx_ampdu ni ! t) \<and> rap_live (ni_rx_ampdu ni ! t))"

definition sessions_agree :: "ba_net \<Rightarrow> bool \<Rightarrow> nat \<Rightarrow> bool" where
  "sessions_agree net i t \<longleftrightarrow>
     agreed t (ni_tx_ampdu (net i) ! t) (ni_rx_ampdu (net (\<not> i)) ! t) (ht_air (net i)) (ht_air (net (\<not> i)))"

definition ba_ok :: "ba_net \<Rightarrow> bool" where
  "ba_ok net \<longleftrightarrow> (\<forall>i. ht_ok (net i)) \<and> (\<forall>i. \<forall>t < 16. sessions_agree net i t)"

section \<open>Bytes of the frames\<close>

definition request_params :: "u8 \<Rightarrow> u16" where
  "request_params tid = 0x0002 OR (push_bit 2 (ucast tid) AND 0x003c) OR (push_bit 6 64 AND 0xffc0)"

definition delba_params :: "u8 \<Rightarrow> u16" where
  "delba_params tid = (push_bit 12 (ucast tid) AND 0xf000) OR 0x0800"

definition reply_params :: "nat \<Rightarrow> nat \<Rightarrow> u16" where
  "reply_params tid w = 0x0002 OR (push_bit 2 (word_of_nat tid) AND 0x003c) OR (push_bit 6 (word_of_nat w) AND 0xffc0)"

lemma delba_fields:
  assumes "t < 16"
  shows "delba_tid (delba_params (word_of_nat t)) = t" "delba_params (word_of_nat t) AND 0x0800 \<noteq> 0"
proof -
  have "\<forall>t \<in> set [0..<16]. delba_tid (delba_params (word_of_nat t)) = t \<and> delba_params (word_of_nat t) AND 0x0800 \<noteq> 0"
    by code_simp
  then show "delba_tid (delba_params (word_of_nat t)) = t" "delba_params (word_of_nat t) AND 0x0800 \<noteq> 0"
    using assms by simp_all
qed

lemma request_fields:
  assumes "t < 16"
  shows "baps_tid (request_params (word_of_nat t)) = t" "baps_tid (request_params (word_of_nat t) OR 0x0001) = t"
proof -
  have "\<forall>t \<in> set [0..<16]. baps_tid (request_params (word_of_nat t)) = t \<and>
      baps_tid (request_params (word_of_nat t) OR 0x0001) = t"
    by code_simp
  then show "baps_tid (request_params (word_of_nat t)) = t" "baps_tid (request_params (word_of_nat t) OR 0x0001) = t"
    using assms by simp_all
qed

lemma reply_fields:
  assumes "t < 16"
  shows "baps_tid (reply_params t w) = t" "baps_tid (reply_params t w OR 0x0001) = t"
    "1 \<le> w \<Longrightarrow> w \<le> 64 \<Longrightarrow> ba_window (reply_params t w) = w"
    "1 \<le> w \<Longrightarrow> w \<le> 64 \<Longrightarrow> ba_window (reply_params t w OR 0x0001) = w"
    "reply_params t w AND 0x0001 = 0"
proof -
  let ?a = "push_bit 2 (word_of_nat t) AND (0x003c :: u16)" and ?b = "push_bit 6 (word_of_nat w) AND (0xffc0 :: u16)"
  have a: "\<forall>t \<in> set [0..<16]. unat (drop_bit 2 (push_bit 2 (word_of_nat t) AND (0x003c :: u16))) = t"
    by code_simp
  have b: "\<forall>w \<in> set [0..<65]. unat (drop_bit 6 (push_bit 6 (word_of_nat w) AND (0xffc0 :: u16))) = w"
    by code_simp
  have m: "?a AND 0xffc0 = 0" "?b AND 0x3c = 0" "?a AND 1 = 0" "?b AND 1 = 0" "?a AND 0x3c = ?a" "?b AND 0xffc0 = ?b"
    by (simp_all add: and.assoc)
  have "reply_params t w AND 0xffc0 = ?b" "(reply_params t w OR 1) AND 0xffc0 = ?b"
    "reply_params t w AND 0x3c = ?a" "(reply_params t w OR 1) AND 0x3c = ?a" "reply_params t w AND 1 = 0"
    unfolding reply_params_def by (simp_all add: bit.conj_disj_distrib2 m)
  then show "baps_tid (reply_params t w) = t" "baps_tid (reply_params t w OR 0x0001) = t"
    "1 \<le> w \<Longrightarrow> w \<le> 64 \<Longrightarrow> ba_window (reply_params t w) = w"
    "1 \<le> w \<Longrightarrow> w \<le> 64 \<Longrightarrow> ba_window (reply_params t w OR 0x0001) = w"
    "reply_params t w AND 0x0001 = 0"
    using assms a b by (simp_all add: baps_tid_def ba_window_def baps_bufsiz_def)
qed

section \<open>Operations that claim nothing new\<close>

definition sent_ok :: "ht_node \<Rightarrow> ba_frame list \<Rightarrow> bool" where
  "sent_ok ni fs \<longleftrightarrow> (\<forall>f \<in> set fs. bar_long f \<and> (\<forall>t. \<not> is_answer t f) \<and>
     (\<forall>t < 16. touches t f \<longrightarrow> \<not> tx_run (ni_tx_ampdu ni ! t) \<and> \<not> tx_pend (ni_tx_ampdu ni ! t)))"

definition quiet_step :: "ht_node \<Rightarrow> ht_node \<Rightarrow> bool" where
  "quiet_step ni ni' \<longleftrightarrow> length (ni_tx_ampdu ni) = 16 \<longrightarrow> (\<exists>fs. ht_quiet ni ni' fs \<and> sent_ok ni' fs)"

lemma quiet_step_on: "(\<And>tap. tx_less (f tap) tap) \<Longrightarrow> quiet_step ni (tx_on i f ni)"
  unfolding quiet_step_def using ht_quiet_on by (intro impI exI [of _ "[]"]) (auto simp: sent_ok_def)

lemma quiet_step_count: "quiet_step ni (ba_count f ni)"
  unfolding quiet_step_def using ht_quiet_count by (intro impI exI [of _ "[]"]) (auto simp: sent_ok_def)

lemma quiet_step_refl: "quiet_step ni ni"
  unfolding quiet_step_def by (intro impI exI [of _ "[]"]) (simp add: sent_ok_def)

lemma quiet_step_trans [trans]:
  assumes "quiet_step a b" "quiet_step b c"
  shows "quiet_step a c"
  unfolding quiet_step_def
proof
  assume l: "length (ni_tx_ampdu a) = 16"
  then obtain fs where q: "ht_quiet a b fs" "sent_ok b fs" using assms unfolding quiet_step_def by blast
  then have lb: "length (ni_tx_ampdu b) = 16" using l by (simp add: ht_quiet_def)
  then obtain gs where g: "ht_quiet b c gs" "sent_ok c gs" using assms unfolding quiet_step_def by blast
  have "\<forall>t < 16. tx_less (ni_tx_ampdu c ! t) (ni_tx_ampdu b ! t)" using g lb unfolding ht_quiet_def by simp
  then have "sent_ok c (fs @ gs)" using q g unfolding sent_ok_def tx_less_def by auto
  then show "\<exists>fs. ht_quiet a c fs \<and> sent_ok c fs" using ht_quiet_trans [OF q(1) g(1)] by blast
qed

lemma quiet_step_output:
  assumes "bar_long f" "\<forall>t. \<not> is_answer t f"
    "\<forall>t < 16. touches t f \<longrightarrow> \<not> tx_run (ni_tx_ampdu ni ! t) \<and> \<not> tx_pend (ni_tx_ampdu ni ! t)"
  shows "quiet_step ni (snd (ht_output tr f ni))"
  unfolding quiet_step_def using assms
  by (intro impI exI [of _ "if tt_error tr = OK then [f] else []"]) (auto simp: ht_output_def ht_quiet_def sent_ok_def)

lemma ht_okD:
  assumes "ht_ok ni"
  shows "length (ni_tx_ampdu ni) = 16" "length (ni_rx_ampdu ni) = 16" "16 \<le> length (ni_txseqs ni)"
    "ni_flags ni AND NODE_HT \<noteq> 0" "\<And>t. t < 16 \<Longrightarrow> tap_ok t (ni_tx_ampdu ni ! t)"
    "\<And>t. t < 16 \<Longrightarrow> rap_live (ni_rx_ampdu ni ! t)"
  using assms unfolding ht_ok_def by blast+

lemma quiet_stop:
  assumes ok: "ht_ok ni" and t: "t < 16"
  shows "quiet_step ni (ieee80211_ampdu_stop tr reason t ni)"
proof -
  let ?n1 = "tx_on t (\<lambda>tap. tap\<lparr>txa_flags := txa_flags tap AND NOT TXA_BARPEND\<rparr>) ni"
  let ?n2 = "tx_on t ieee80211_addba_stop (ba_count (\<lambda>s. s\<lparr>is_ampdu_stop := is_ampdu_stop s + 1\<rparr>) ?n1)"
  let ?f = "ActionFrame ([3, 2] @ ADDSHORT (delba_params (word_of_nat t)) @ ADDSHORT reason)"
  have l: "length (ni_tx_ampdu ?n1) = 16" using ht_okD(1) [OF ok] by simp
  have tid: "txa_tid (ni_tx_ampdu ni ! t) = word_of_nat t" using ht_okD(5) [OF ok t] by (simp add: tap_ok_def)
  have q1: "quiet_step ni ?n1" by (rule quiet_step_on) (rule tx_updates_less)
  have q2: "quiet_step (ba_count f ?n1) (tx_on t ieee80211_addba_stop (ba_count f ?n1))" for f
    by (rule quiet_step_on) (rule addba_stop_less)
  note q = quiet_step_trans [OF q1 quiet_step_trans [OF quiet_step_count q2]]
  have "quiet_step ?n2 (snd (ht_output tr ?f ?n2))"
    using l t delba_fields [OF t] addba_stop_less
    by (intro quiet_step_output) (auto simp: touches_def ADDSHORT_def le16_lo8_hi8)
  note r = quiet_step_trans [OF q this] quiet_step_trans [OF q quiet_step_count] quiet_step_trans [OF q1 quiet_step_count]
  show ?thesis
  proof (cases "txa_flags (ni_tx_ampdu ?n1 ! t) AND TXA_RUNNING = 0")
    case True
    then show ?thesis using r(3) by (simp add: ieee80211_ampdu_stop_def Let_def)
  next
    case False
    have "ieee80211_ampdu_stop tr reason t ni =
        snd (ht_send_action_ba_delba tr 3 2 [ucast (word_of_nat t :: u8), 0x0800, reason] ?n2)"
      unfolding ieee80211_ampdu_stop_def Let_def send_action_ba_def
      using False tid l t by simp
    then show ?thesis using r(1,2) by (simp add: ht_send_action_ba_delba_def Let_def delba_params_def)
  qed
qed

lemma quiet_send_bar:
  assumes cfg: "ht_cfg_ok cfg" and tr: "length (tt_dur tr) = 2"
  shows "quiet_step ni (snd (ieee80211_send_bar cfg tr t seq ni))"
proof -
  let ?n1 = "tx_on t bar_stop_timer ni"
  let ?n2 = "tx_on t (\<lambda>tap. tap\<lparr>txa_attempts := (if txa_flags tap AND TXA_BARPEND = 0 then 1 else txa_attempts tap + 1),
      txa_seqpending := seq, txa_flags := txa_flags tap OR TXA_BARPEND\<rparr>) (ba_count (\<lambda>s. s\<lparr>ns_tx_mgmt := ns_tx_mgmt s + 1\<rparr>) ?n1)"
  let ?f = "BarFrame (bar_bytes cfg (tt_dur tr) (ni_tx_ampdu ?n1 ! t) seq)"
  obtain n3 where e: "ht_output tr ?f ?n2 = (tt_error tr, n3)" by (simp add: ht_output_def)
  have q1: "quiet_step ni ?n1" by (rule quiet_step_on) (rule tx_updates_less)
  also have "quiet_step ?n1 (ba_count (\<lambda>s. s\<lparr>ns_tx_mgmt := ns_tx_mgmt s + 1\<rparr>) ?n1)" by (rule quiet_step_count)
  also have "quiet_step (ba_count (\<lambda>s. s\<lparr>ns_tx_mgmt := ns_tx_mgmt s + 1\<rparr>) ?n1) ?n2"
    by (rule quiet_step_on) (simp add: tx_less_def tx_bits)
  also have "quiet_step ?n2 (snd (ht_output tr ?f ?n2))"
    using cfg tr by (intro quiet_step_output) (auto simp: touches_def bar_bytes_def ADDSHORT_def ht_cfg_ok_def)
  finally have q: "quiet_step ni n3" unfolding e by simp
  have q4: "quiet_step n3 (tx_on t (\<lambda>tap. if txa_flags tap AND TXA_BARPEND \<noteq> 0 then bar_start_timer tap else tap) n3)"
    by (rule quiet_step_on) (simp add: tx_updates_less)
  have q5: "quiet_step n3 (tx_on t (\<lambda>tap. tap\<lparr>txa_flags := txa_flags tap AND NOT TXA_BARPEND\<rparr>) n3)"
    by (rule quiet_step_on) (rule tx_updates_less)
  show ?thesis
  proof (cases "txa_flags (ni_tx_ampdu ni ! t) AND TXA_RUNNING = 0 \<or> \<not> tt_mbuf tr \<or> \<not> tt_callback tr")
    case True
    then show ?thesis
      using quiet_step_refl quiet_step_trans [OF q1 quiet_step_count] by (auto simp: ieee80211_send_bar_def Let_def)
  next
    case False
    then have "(txa_flags (ni_tx_ampdu ni ! t) AND TXA_RUNNING = 0) = False" "(\<not> tt_mbuf tr \<or> \<not> tt_callback tr) = False"
      by simp_all
    note s = ieee80211_send_bar_def Let_def this e if_False
    show ?thesis
    proof (cases "tt_error tr")
      case None
      show ?thesis unfolding s using quiet_step_trans [OF q q4] by (simp only: None prod.case option.case snd_conv)
    next
      case (Some x)
      show ?thesis unfolding s using quiet_step_trans [OF q quiet_step_trans [OF q5 quiet_step_count]]
        by (simp only: Some prod.case option.case snd_conv)
    qed
  qed
qed

lemma ht_ok_quiet:
  assumes ok: "ht_ok ni" and q: "quiet_step ni ni'"
  shows "ht_ok ni'"
proof -
  obtain fs where f: "ht_quiet ni ni' fs" "sent_ok ni' fs" using q ht_okD(1) [OF ok] unfolding quiet_step_def by blast
  have "tap_ok t (ni_tx_ampdu ni' ! t)" if "t < 16" for t
    using f(1) ht_okD(1,5) [OF ok] that by (auto simp: ht_quiet_def tx_less_def tap_ok_def)
  then show ?thesis using ok f unfolding ht_ok_def ht_quiet_def sent_ok_def by auto
qed

lemma quiet_bar_timeout:
  assumes ok: "ht_ok ni" and cfg: "ht_cfg_ok cfg" and tr: "length (tt_dur tr) = 2" and t: "t < 16"
  shows "quiet_step ni (bar_timeout cfg tr t ni)"
proof -
  let ?c = "ba_count (\<lambda>s. s\<lparr>is_ampdu_bar_tx_fail := is_ampdu_bar_tx_fail s + 1\<rparr>) ni"
  have q: "quiet_step ?c (tx_on t (ieee80211_bar_response False) ?c)" by (rule quiet_step_on) (rule tx_updates_less)
  have q1: "quiet_step ni (tx_on t (ieee80211_bar_response False) ?c)" by (rule quiet_step_trans [OF quiet_step_count q])
  note q2 = quiet_step_trans [OF q1 quiet_stop [OF ht_ok_quiet [OF ok q1] t]]
  have q3: "quiet_step n (tx_on t (\<lambda>tap. bar_start_timer (tap\<lparr>txa_flags := txa_flags tap OR TXA_BARPEND\<rparr>)) n)" for n
    by (rule quiet_step_on) (rule tx_less_trans [OF tx_updates_less(6) tx_updates_less(2)])
  let ?s = "ieee80211_send_bar cfg tr t (txa_seqpending (ni_tx_ampdu ni ! t))
      (ba_count (\<lambda>s. s\<lparr>is_ampdu_bar_tx_retry := is_ampdu_bar_tx_retry s + 1\<rparr>) ni)"
  have q4: "quiet_step ni (snd ?s)" by (rule quiet_step_trans [OF quiet_step_count quiet_send_bar [OF cfg tr]])
  have q5: "quiet_step ni (case ?s of (None, ni) \<Rightarrow> ni
       | (Some e, ni) \<Rightarrow> tx_on t (\<lambda>tap. bar_start_timer (tap\<lparr>txa_flags := txa_flags tap OR TXA_BARPEND\<rparr>)) ni)"
    using q4 quiet_step_trans [OF q4 q3] by (cases ?s; cases "fst ?s") (simp_all del: One_nat_def)
  show ?thesis
  proof (cases "txa_flags (ni_tx_ampdu ni ! t) AND TXA_BARPEND = 0")
    case True
    then show ?thesis by (simp add: bar_timeout_def Let_def quiet_step_refl)
  next
    case False
    then show ?thesis unfolding bar_timeout_def Let_def using q2 q5 by (simp only: if_False simp_thms split: if_split)
  qed
qed

lemma quiet_fire:
  assumes ok: "ht_ok ni" and cfg: "ht_cfg_ok cfg" and tr: "length (tt_dur tr) = 2" and t: "t < 16"
  shows "quiet_step ni (callout_fire cfg tr t ni)"
proof -
  have q: "quiet_step ni (tx_on t (\<lambda>tap. tap\<lparr>txa_timer := None\<rparr>) ni)" by (rule quiet_step_on) (rule tx_updates_less)
  have "quiet_step ni (tx_on t (\<lambda>tap. addba_timeout_handler (tap\<lparr>txa_timer := None\<rparr>)) ni)"
    by (rule quiet_step_on) (rule tx_less_trans [OF tx_updates_less(4,3)])
  moreover have "quiet_step ni (bar_timeout cfg tr t (tx_on t (\<lambda>tap. tap\<lparr>txa_timer := None\<rparr>) ni))"
    by (rule quiet_step_trans [OF q quiet_bar_timeout [OF ht_ok_quiet [OF ok q] cfg tr t]])
  ultimately show ?thesis by (simp add: callout_fire_def quiet_step_refl split: option.split ba_timer.split)
qed

lemma quiet_bar_done: "quiet_step ni (bar_tx_complete acked t ni)"
proof -
  have "tx_less (ieee80211_bar_response b (bar_stop_timer tap)) tap" for b tap
    by (rule tx_less_trans [OF tx_updates_less(5,7)])
  then show ?thesis unfolding bar_tx_complete_def Let_def
    by (intro quiet_step_trans [OF quiet_step_count quiet_step_on]) (simp add: tx_updates_less(5))
qed

text \<open>A quiet step keeps the agreement: the frames it sends end sessions that are not used any more.\<close>

lemma ba_ok_quiet:
  assumes ok: "ba_ok net" and q: "quiet_step (net i) ni'"
  shows "ba_ok (net(i := ni'))"
proof -
  have h: "\<And>j. ht_ok (net j)" and a: "\<And>j t. t < 16 \<Longrightarrow> sessions_agree net j t" using ok by (auto simp: ba_ok_def)
  obtain fs where f: "ht_quiet (net i) ni' fs" "sent_ok ni' fs"
    using q ht_okD(1) [OF h [of i]] unfolding quiet_step_def by blast
  have "sessions_agree (net(i := ni')) j t" if t: "t < 16" for j t
  proof (cases "j = i")
    case True
    have l: "tx_less (ni_tx_ampdu ni' ! t) (ni_tx_ampdu (net i) ! t)"
      using f(1) ht_okD(1) [OF h [of i]] t by (simp add: ht_quiet_def)
    show ?thesis
    proof (cases "\<exists>g \<in> set fs. touches t g")
      case True
      then show ?thesis using f(2) t \<open>j = i\<close> unfolding sessions_agree_def sent_ok_def by (auto intro: agreed_idle)
    next
      case False
      then show ?thesis
        using agreed_send [OF agreed_less [OF a [OF t, of i, unfolded sessions_agree_def] l], of fs] f(1) \<open>j = i\<close>
        by (auto simp: sessions_agree_def untouched_def ht_quiet_def)
    qed
  next
    case False
    then have "i = (\<not> j)" by auto
    then show ?thesis
      using agreed_reply [OF a [OF t, of j, unfolded sessions_agree_def], of fs] f
      by (auto simp: sessions_agree_def ht_quiet_def sent_ok_def)
  qed
  then show ?thesis using ht_ok_quiet [OF h q] h by (auto simp: ba_ok_def)
qed

end
