(* ===== verification/BlockAckAgree.thy ===== *)
theory BlockAckAgree
  imports BlockAckNet
begin

text \<open>Every step of the two stations keeps their agreement.\<close>

section \<open>Receive sessions\<close>

lemma live_step:
  assumes "rap_ok rap'" "rxa_wnd rap' = rxa_wnd rap" "rxa_flags rap' = rxa_flags rap"
  shows "rx_keeps rap rap' \<and> (rap_live rap \<longrightarrow> rap_live rap')"
  using assms by (auto simp: rx_keeps_def rx_agreed_def rap_live_def running_def)

lemma live_idle: "rxa_flags rap AND AGGR_XCHGPEND = 0 \<Longrightarrow> rx_keeps rap rap'"
  by (simp add: rx_keeps_def rx_agreed_def running_def)

lemma reorder_live:
  assumes "rap_live rap"
  shows "\<exists>v rap' env'. reorder_session ticks age m rxs (rap, env) = Some (v, rap', env') \<and>
    rap_live rap' \<and> rx_keeps rap rap'"
proof (cases "rxa_flags rap AND AGGR_XCHGPEND = 0")
  case True
  then show ?thesis using assms live_idle by (simp add: reorder_session_def)
next
  case False
  then have a: "rap_ok rap" "running rap" using assms by (auto simp: rap_live_def)
  obtain v s' where s: "reorder_session ticks age m rxs (rap, env) = Some (v, s')" "step_ok False False m (rap, env) v s'"
    using reorder_session_step [OF a, of False rxs False ticks age m env] by auto
  then have "rap_ok (fst s')" "rxa_wnd (fst s') = rxa_wnd rap" "rxa_flags (fst s') = rxa_flags rap"
    by (auto simp: step_ok_def)
  then show ?thesis using s(1) live_step assms by (metis surjective_pairing)
qed

lemma bar_live:
  assumes "rap_live rap" "recv_bar_session wh (rap, env) = (rap', env')"
  shows "rap_live rap' \<and> rx_keeps rap rap'"
proof (cases "rxa_flags rap AND AGGR_XCHGPEND = 0")
  case True
  then show ?thesis using assms live_idle by (simp add: recv_bar_session_def)
next
  case False
  then have a: "rap_ok rap" "running rap" using assms by (auto simp: rap_live_def)
  have "bar_ok False (bar_seq wh) (rap, env) (rap', env')"
    using recv_bar_session_step [OF a, of False wh env] assms(2) by simp
  then show ?thesis using live_step assms(1) by (auto simp: bar_ok_def)
qed

lemma age_live:
  assumes "rap_live rap" "age_session ticks age (rap, env) = (rap', env')"
  shows "rap_live rap' \<and> rx_keeps rap rap'"
proof (cases "rxa_flags rap AND AGGR_XCHGPEND = 0")
  case True
  then show ?thesis using assms live_idle by (simp add: age_session_def)
next
  case False
  then have a: "rap_ok rap" "running rap" using assms by (auto simp: rap_live_def)
  have c: "counted rap" "qb_ok rap" using a(1) by (auto simp: rap_ok_def)
  have fl: "fst (ampdu_rx_flush (rap, e)) = emptied rap" for e using ampdu_rx_flush_eq [OF c, of e] by auto
  have "rap' = fst (age_session ticks age (rap, env))" using assms(2) by simp
  then have "rap' = rap \<or> rap' = emptied rap" by (auto simp: age_session_def fl)
  then have "rxa_wnd rap' = rxa_wnd rap" by (auto simp: emptied_def)
  then show ?thesis using live_step [of rap' rap] age_session_ok [OF a(1) assms(2)] assms(1) by auto
qed

definition rx_step :: "rx_ampdu list \<Rightarrow> rx_ampdu list \<Rightarrow> bool" where
  "rx_step raps raps' \<longleftrightarrow> length raps' = length raps \<and>
     (\<forall>t < length raps. rap_live (raps ! t) \<longrightarrow> rap_live (raps' ! t) \<and> rx_keeps (raps ! t) (raps' ! t))"

lemma rx_keeps_refl [simp]: "rx_keeps rap rap" by (simp add: rx_keeps_def)

lemma rx_step_set:
  "(rap_live (raps ! t) \<Longrightarrow> rap_live rap' \<and> rx_keeps (raps ! t) rap') \<Longrightarrow> rx_step raps (raps[t := rap'])"
  by (cases "t < length raps") (auto simp: rx_step_def nth_list_update)

lemma rx_step_trans: "rx_step a b \<Longrightarrow> rx_step b c \<Longrightarrow> rx_step a c"
  unfolding rx_step_def rx_keeps_def by simp

lemma rx_step_age: "age_tids ticks age tids (raps, env) = (raps', env') \<Longrightarrow> rx_step raps raps'"
proof (induction tids arbitrary: raps env)
  case Nil
  then show ?case by (simp add: rx_step_def)
next
  case (Cons t tids)
  obtain rap env1 where a: "age_session ticks age (raps ! t, env) = (rap, env1)" by fastforce
  then have "age_tids ticks age tids (raps[t := rap], env1) = (raps', env')" using Cons.prems by simp
  from Cons.IH [OF this] show ?case
    using rx_step_trans rx_step_set age_live [OF _ a] by blast
qed

lemma rx_step_reorder:
  assumes "length raps = 16" "\<And>t. t < 16 \<Longrightarrow> rap_live (raps ! t)"
  shows "\<exists>v raps' env'. ieee80211_ampdu_reorder ticks age m rxs (raps, env) = Some (v, raps', env') \<and> rx_step raps raps'"
proof -
  have "unat (ieee80211_getqos (mtod m) AND 0x0f) < 16" using and_mask_less_nat [of "ieee80211_getqos (mtod m)"] by simp
  from reorder_live [OF assms(2) [OF this], of ticks age m rxs env] show ?thesis
    using rx_step_set [of raps "unat (ieee80211_getqos (mtod m) AND 0x0f)"]
    by (auto simp: ieee80211_ampdu_reorder_def Let_def rx_step_def)
qed

lemma rx_step_bar:
  "ieee80211_recv_bar ena m (raps, env) = (raps', env') \<Longrightarrow> rx_step raps raps'"
proof -
  let ?t = "unat (drop_bit 12 (le16 (mtod m ! 16) (mtod m ! 17) AND 0xf000))"
  assume a: "ieee80211_recv_bar ena m (raps, env) = (raps', env')"
  obtain rap env1 where b: "recv_bar_session (mtod m) (raps ! ?t, env) = (rap, env1)" by fastforce
  show ?thesis using a b rx_step_set [OF bar_live [OF _ b]]
    by (auto simp: ieee80211_recv_bar_def Let_def rx_step_def split: if_splits)
qed

section \<open>Steps of the system\<close>

lemma ba_okD:
  assumes "ba_ok net"
  shows "ht_ok (net j)" "t < 16 \<Longrightarrow> sessions_agree net j t"
  using assms by (auto simp: ba_ok_def)

lemma ba_okI:
  assumes "\<And>j. ht_ok (net j)" "\<And>t. t < 16 \<Longrightarrow> sessions_agree net i t" "\<And>t. t < 16 \<Longrightarrow> sessions_agree net (\<not> i) t"
  shows "ba_ok net"
proof -
  have "sessions_agree net j t" if "t < 16" for j t
    using assms(2,3) [OF that] by (cases i; cases j) simp_all
  then show ?thesis using assms(1) by (simp add: ba_ok_def)
qed

lemma ba_ok_rx:
  assumes ok: "ba_ok net" and r: "rx_step (ni_rx_ampdu (net i)) raps"
  shows "ba_ok (net(i := (net i)\<lparr>ni_rx_ampdu := raps, ni_rx_env := env\<rparr>))"
proof (rule ba_okI [where i = i])
  fix j and t :: nat
  have h: "ht_ok (net j)" for j using ba_okD(1) [OF ok] .
  have k: "rap_live (raps ! t) \<and> rx_keeps (ni_rx_ampdu (net i) ! t) (raps ! t)" if "t < 16" for t
    using r ht_okD(2,6) [OF h [of i]] that by (simp add: rx_step_def)
  show "ht_ok ((net(i := (net i)\<lparr>ni_rx_ampdu := raps, ni_rx_env := env\<rparr>)) j)"
    using h [of j] h [of i] r k by (auto simp: ht_ok_def rx_step_def)
  assume t: "t < 16"
  show "sessions_agree (net(i := (net i)\<lparr>ni_rx_ampdu := raps, ni_rx_env := env\<rparr>)) i t"
    using ba_okD(2) [OF ok t, of i] by (simp add: sessions_agree_def)
  show "sessions_agree (net(i := (net i)\<lparr>ni_rx_ampdu := raps, ni_rx_env := env\<rparr>)) (\<not> i) t"
    using agreed_keeps [OF ba_okD(2) [OF ok t, of "\<not> i", unfolded sessions_agree_def]] k [OF t]
    by (simp add: sessions_agree_def)
qed

lemma ba_ok_lost:
  assumes ok: "ba_ok net" and air: "ht_air (net i) = p @ f # q"
  shows "ba_ok (net(i := (net i)\<lparr>ht_air := p @ q\<rparr>))"
proof (rule ba_okI [where i = i])
  fix j and t :: nat
  show "ht_ok ((net(i := (net i)\<lparr>ht_air := p @ q\<rparr>)) j)"
    using ba_okD(1) [OF ok, of j] ba_okD(1) [OF ok, of i] air by (auto simp: ht_ok_def)
  assume t: "t < 16"
  show "sessions_agree (net(i := (net i)\<lparr>ht_air := p @ q\<rparr>)) i t"
    "sessions_agree (net(i := (net i)\<lparr>ht_air := p @ q\<rparr>)) (\<not> i) t"
    using ba_okD(2) [OF ok t, of i] ba_okD(2) [OF ok t, of "\<not> i"] agreed_lost air
    by (auto simp: sessions_agree_def)
qed

text \<open>Fields that the agreement does not mention.\<close>

lemma ba_ok_fields:
  assumes ok: "ba_ok net" and "ni_flags (net i) AND NODE_HT \<noteq> 0 \<Longrightarrow> ni_flags ni' AND NODE_HT \<noteq> 0"
    "ni_tx_ampdu ni' = ni_tx_ampdu (net i)" "ni_rx_ampdu ni' = ni_rx_ampdu (net i)" "ni_txseqs ni' = ni_txseqs (net i)"
    "ht_air ni' = ht_air (net i)"
  shows "ba_ok (net(i := ni'))"
proof (rule ba_okI [where i = i])
  fix j and t :: nat
  show "ht_ok ((net(i := ni')) j)" using assms ba_okD(1) [OF ok, of j] ba_okD(1) [OF ok, of i] by (auto simp: ht_ok_def)
  assume t: "t < 16"
  show "sessions_agree (net(i := ni')) i t" "sessions_agree (net(i := ni')) (\<not> i) t"
    using assms ba_okD(2) [OF ok t, of i] ba_okD(2) [OF ok t, of "\<not> i"] by (auto simp: sessions_agree_def)
qed

section \<open>A request\<close>

lemma quiet_step_set: "tx_less tap (ni_tx_ampdu ni ! i) \<Longrightarrow> quiet_step ni (tx_on i (\<lambda>_. tap) ni)"
  unfolding quiet_step_def
  by (cases "i < length (ni_tx_ampdu ni)")
    (auto intro!: exI [of _ "[]"] simp: sent_ok_def ht_quiet_def tx_on_def nth_list_update)

definition requested :: "ht_node \<Rightarrow> nat \<Rightarrow> ht_node \<Rightarrow> ba_frame list \<Rightarrow> bool" where
  "requested ni tid ni' fs \<longleftrightarrow> length (ni_tx_ampdu ni') = length (ni_tx_ampdu ni) \<and>
     (\<forall>t. t \<noteq> tid \<longrightarrow> ni_tx_ampdu ni' ! t = ni_tx_ampdu ni ! t) \<and> ni_rx_ampdu ni' = ni_rx_ampdu ni \<and>
     ni_flags ni' = ni_flags ni \<and> ni_txseqs ni' = ni_txseqs ni \<and> ht_air ni' = ht_air ni @ fs \<and>
     \<not> tx_run (ni_tx_ampdu ni' ! tid) \<and> tap_ok tid (ni_tx_ampdu ni' ! tid) \<and>
     (fs = [] \<or> (\<exists>b. fs = [ActionFrame b] \<and> is_request tid (ActionFrame b))) \<and>
     (txa_token (ni_tx_ampdu ni' ! tid) = word_of_nat ((ba_tokens ni + 1) mod 63) \<or>
      \<not> tx_pend (ni_tx_ampdu ni' ! tid) \<and> fs = [])"

lemma request_effect:
  assumes ok: "ht_ok ni" and t: "tid < 16" and idle: "\<not> tx_run (ni_tx_ampdu ni ! tid)" "\<not> tx_pend (ni_tx_ampdu ni ! tid)"
  shows "\<exists>fs. requested ni tid (snd (ieee80211_ampdu_request cfg ticks setup_ok tr tid ni)) fs"
proof -
  let ?k = "(ba_tokens ni + 1) mod 63"
  let ?g = "\<lambda>tap. let tap = (if txa_flags tap AND TXA_SETUP = 0 then ampdu_tx_setup ticks tap else tap)
           in tap\<lparr>txa_flags := txa_flags tap AND NOT TXA_NAK, txa_start := ni_txseqs ni ! unat (txa_tid (ni_tx_ampdu ni ! tid))\<rparr>"
  let ?n1 = "tx_on tid ?g ni"
  have l: "length (ni_tx_ampdu ni) = 16" and tid: "txa_tid (ni_tx_ampdu ni ! tid) = word_of_nat tid"
    using ht_okD(1,5) [OF ok] t by (simp_all add: tap_ok_def)
  have g: "\<not> tx_run (?g (ni_tx_ampdu ni ! tid))" "\<not> tx_pend (?g (ni_tx_ampdu ni ! tid))" "tx_set (?g (ni_tx_ampdu ni ! tid))"
    "txa_tid (?g (ni_tx_ampdu ni ! tid)) = word_of_nat tid"
    using idle tid by (simp_all add: Let_def ampdu_tx_setup_def tx_bits)
  define p where "p = (let v = request_params (word_of_nat tid) in
    if ni_flags ni AND NODE_AMSDU_TX \<noteq> 0 \<and> iv_htcaps cfg AND HTC_TX_AMSDU_AMPDU \<noteq> 0 then v OR 0x0001 else v)"
  have p: "baps_tid p = tid" using request_fields [OF t] by (simp add: p_def Let_def)
  show ?thesis
  proof (cases setup_ok)
    case False
    then show ?thesis using l t g
      by (intro exI [of _ "[]"]) (simp add: requested_def ieee80211_ampdu_request_def Let_def tap_ok_def tx_run_def
          tx_pend_def tx_set_def)
  next
    case True
    define n2 where "n2 = (tx_on tid (ieee80211_addba_request cfg ticks (word_of_nat ?k) p) ?n1)\<lparr>ba_tokens := ?k\<rparr>"
    have e: "snd (ieee80211_ampdu_request cfg ticks setup_ok tr tid ni) =
        snd (ht_send_action_ba_addba tr 3 0 [word_of_nat ?k, 0, p, 0, push_bit 4 (txa_start (ni_tx_ampdu n2 ! tid)) AND 0xfff0] n2)"
      unfolding ieee80211_ampdu_request_def Let_def send_action_ba_def n2_def p_def request_params_def
      using True tid by simp
    let ?b = "[3, 0, lo8 (word_of_nat ?k)] @ ADDSHORT p @ ADDSHORT 0 @
        ADDSHORT (push_bit 4 (txa_start (ni_tx_ampdu n2 ! tid)) AND 0xfff0)"
    have b: "is_request tid (ActionFrame ?b)" using p by (simp add: ADDSHORT_def le16_lo8_hi8)
    have q: "requested ni tid n2 []" using l t g
      by (simp add: requested_def n2_def ieee80211_addba_request_def addba_start_timeout_def tap_ok_def tx_bits)
    have k: "txa_token (ni_tx_ampdu n2 ! tid) = word_of_nat ?k" using l t
      by (simp add: n2_def ieee80211_addba_request_def addba_start_timeout_def)
    have "requested ni tid (n2\<lparr>ht_air := ht_air n2 @ [ActionFrame ?b]\<rparr>) [ActionFrame ?b]"
      using q b k unfolding requested_def by simp
    moreover have "requested ni tid (ba_count f n2) []" for f using q by (simp add: requested_def)
    ultimately show ?thesis
      using q unfolding e by (auto simp: ht_send_action_ba_addba_def ht_output_def simp del: append_Cons)
  qed
qed

lemma ba_ok_requested:
  assumes ok: "ba_ok net" and t: "tid < 16" and r: "requested (net i) tid ni' fs" and free: "token_free i tid net"
  shows "ba_ok (net(i := ni'))"
proof (rule ba_okI [where i = i])
  fix j and t :: nat
  note h = ht_okD [OF ba_okD(1) [OF ok, of i]]
  have fs: "\<forall>f \<in> set fs. bar_long f \<and> is_request tid f" using r by (auto simp: requested_def)
  have "tap_ok t (ni_tx_ampdu ni' ! t)" if "t < 16" for t
    using h(5) [OF that] r by (cases "t = tid") (simp_all add: requested_def)
  then show "ht_ok ((net(i := ni')) j)"
    using ba_okD(1) [OF ok, of j] ba_okD(1) [OF ok, of i] r fs by (auto simp: ht_ok_def requested_def)
  assume t: "t < 16"
  have other: "\<not> touches t f \<and> \<not> is_answer s f" if "f \<in> set fs" "t \<noteq> tid" for f s
    using fs that by (cases f) (auto simp: touches_def)
  have ans: "\<not> is_answer s f" if "f \<in> set fs" for f s using fs that by (cases f) auto
  show "sessions_agree (net(i := ni')) i t"
  proof (cases "t = tid")
    case False
    then show ?thesis
      using agreed_send [OF ba_okD(2) [OF ok t, of i, unfolded sessions_agree_def], of fs] other r
      by (auto simp: sessions_agree_def requested_def untouched_def)
  next
    case True
    then show ?thesis
    proof (cases "tx_pend (ni_tx_ampdu ni' ! tid)")
      case False
      then show ?thesis using r \<open>t = tid\<close> by (auto simp: sessions_agree_def requested_def intro: agreed_idle)
    next
      case True
      then have k: "txa_token (ni_tx_ampdu ni' ! tid) = word_of_nat ((ba_tokens (net i) + 1) mod 63)"
        using r by (auto simp: requested_def)
      have "fs = [] \<or> fs = [hd fs]" using r by (auto simp: requested_def)
      then show ?thesis
        using agreed_request [of "ni_tx_ampdu ni' ! tid" "ht_air (net i)" t "ht_air (net (\<not> i))" fs "hd fs"]
          free r k \<open>t = tid\<close> by (auto simp: sessions_agree_def requested_def token_free_def Let_def)
    qed
  qed
  show "sessions_agree (net(i := ni')) (\<not> i) t"
    using agreed_reply [OF ba_okD(2) [OF ok t, of "\<not> i", unfolded sessions_agree_def], of fs] ans r
    by (auto simp: sessions_agree_def requested_def)
qed

lemma ba_ok_pkt_send:
  assumes ok: "ba_ok net" and cfg: "ht_cfg_ok cfg" and t: "tid < 16" and free: "token_free i tid net"
  shows "\<exists>v ni'. pkt_send_ampdu cfg ticks setup_ok tr tid eapol mcast (net i) = Some (v, ni') \<and> ba_ok (net(i := ni'))"
proof -
  obtain tap where tap: "ieee80211_txampdu_count_packet (ht_hz cfg) ticks (ni_tx_ampdu (net i) ! tid) = Some tap"
    "tx_less tap (ni_tx_ampdu (net i) ! tid)" "txa_flags tap = txa_flags (ni_tx_ampdu (net i) ! tid)"
    using count_packet_ends cfg unfolding ht_cfg_ok_def by metis
  let ?n = "tx_on tid (\<lambda>_. tap) (net i)"
  have l: "length (ni_tx_ampdu (net i)) = 16" using ht_okD(1) [OF ba_okD(1) [OF ok]] .
  have ok1: "ba_ok (net(i := ?n))" by (rule ba_ok_quiet [OF ok quiet_step_set [OF tap(2)]])
  have free1: "token_free i tid (net(i := ?n))" using free by (simp add: token_free_def)
  have req: "ba_ok (net(i := snd (ieee80211_ampdu_request cfg ticks setup_ok tr tid ?n)))"
    if "txa_flags tap AND (TXA_RUNNING OR TXA_XCHGPEND OR TXA_NAK) = 0"
  proof -
    have "txa_flags tap AND (TXA_RUNNING OR TXA_XCHGPEND OR TXA_NAK) = 0 \<longrightarrow> \<not> bit (txa_flags tap) 2 \<and> \<not> bit (txa_flags tap) 1"
      by (metis (no_types, opaque_lifting) and.assoc and_zero_eq bit.conj_disj_distrib or_eq_0_iff txa_bits(2,3))
    then have "\<not> tx_run tap" "\<not> tx_pend tap" using that by (simp_all add: tx_bits)
    then obtain fs where "requested ?n tid (snd (ieee80211_ampdu_request cfg ticks setup_ok tr tid ?n)) fs"
      using request_effect [OF ba_okD(1) [OF ok1, of i], of tid cfg ticks setup_ok tr] l t by auto
    then show ?thesis using ba_ok_requested [OF ok1 t, of i] free1 by simp
  qed
  show ?thesis
    using ok ok1 req tap(1) unfolding pkt_send_ampdu_def Let_def
    by (auto split: if_split)
qed

section \<open>A received frame\<close>

lemma tid_less: "baps_tid v < 16" "delba_tid v < 16"
proof -
  have "unat (v AND 0x003c) \<le> unat (0x003c :: u16)" using word_and_le1 word_le_nat_alt by blast
  then show "baps_tid v < 16"
    unfolding baps_tid_def unsigned_drop_bit_eq by (simp add: drop_bit_eq_div take_bit_nat_eq_self)
  show "delba_tid v < 16"
    unfolding delba_tid_def unsigned_drop_bit_eq
    using unsigned_less [of "v AND 0xf000", where 'a = nat] by (simp add: drop_bit_eq_div take_bit_nat_eq_self)
qed

text \<open>The request of the peer is answered with the window that the session now has.\<close>

lemma rx_start_agreed:
  assumes "ampdu_rx_start htc v baseqctl s = (rap, env)"
  shows "rx_agreed rap (ba_window v) (htc \<and> v AND 0x0001 \<noteq> 0)" "rxa_wnd rap = ba_window v" "rap_live rap"
    "1 \<le> rxa_wnd rap" "rxa_wnd rap \<le> 64"
    "rxa_start rap = uint (drop_bit 4 (baseqctl AND 0xfff0))"
proof -
  show w: "rxa_wnd rap = ba_window v" "rxa_start rap = uint (drop_bit 4 (baseqctl AND 0xfff0))"
    using assms by (auto simp: ampdu_rx_start_def Let_def ba_window_def baps_bufsiz_def ieee80211_ampdu_rx_init_rap_def
        split: prod.splits if_splits)
  have f: "rxa_flags rap = (if htc \<and> v AND 0x0001 \<noteq> 0 then 0x86 else 0x06)"
    using assms by (auto simp: ampdu_rx_start_def Let_def ieee80211_ampdu_rx_init_rap_def split: prod.splits if_splits)
  have ok: "rap_ok rap" "running rap" using ampdu_rx_start_ok [OF assms] by simp_all
  then show "rap_live rap" by (simp add: rap_live_def)
  show "rx_agreed rap (ba_window v) (htc \<and> v AND 0x0001 \<noteq> 0)"
    using ok f w by (simp add: rx_agreed_def)
  show "1 \<le> rxa_wnd rap" "rxa_wnd rap \<le> 64" using w by (auto simp: ba_window_def)
qed

definition answered :: "ht_node \<Rightarrow> nat \<Rightarrow> u8 \<Rightarrow> ht_node \<Rightarrow> ba_frame list \<Rightarrow> bool" where
  "answered ni tid k ni' fs \<longleftrightarrow> ni_tx_ampdu ni' = ni_tx_ampdu ni \<and> ni_flags ni' = ni_flags ni \<and>
     ni_txseqs ni' = ni_txseqs ni \<and> length (ni_rx_ampdu ni') = length (ni_rx_ampdu ni) \<and>
     (\<forall>t. t \<noteq> tid \<longrightarrow> ni_rx_ampdu ni' ! t = ni_rx_ampdu ni ! t) \<and>
     (rap_live (ni_rx_ampdu ni ! tid) \<longrightarrow> rap_live (ni_rx_ampdu ni' ! tid)) \<and> ht_air ni' = ht_air ni @ fs \<and>
     (fs = [] \<or> (\<exists>b. fs = [ActionFrame b] \<and> is_answer tid (ActionFrame b) \<and> frame_token (ActionFrame b) = k \<and>
       (answer_ok (ActionFrame b) \<longrightarrow> rx_agreed (ni_rx_ampdu ni' ! tid) (ba_window (answer_params (ActionFrame b)))
          (answer_params (ActionFrame b) AND 0x0001 \<noteq> 0))))"

lemma request_answered:
  assumes l: "length (ni_rx_ampdu ni) = 16"
  shows "\<exists>fs. answered ni (baps_tid (le16 (frm ! 3) (frm ! 4))) (frm ! 2) (ht_recv_action_ba_addba_request cfg tr frm ni) fs"
proof -
  define v where "v = le16 (frm ! 3) (frm ! 4)"
  define tid where "tid = baps_tid v"
  define acc where "acc \<longleftrightarrow> ni_flags ni AND NODE_AMPDU_RX \<noteq> 0 \<and> iv_flags_ht cfg AND FHT_AMPDU_RX \<noteq> 0"
  define htc where "htc \<longleftrightarrow> iv_htcaps cfg AND HTC_RX_AMSDU_AMPDU \<noteq> 0"
  define n1 where "n1 = (if acc then rx_on tid (ampdu_rx_start htc v (le16 (frm ! 7) (frm ! 8))) ni
    else ba_count (\<lambda>s. s\<lparr>is_addba_reject := is_addba_reject s + 1\<rparr>) ni)"
  define w where "w = rxa_wnd (ni_rx_ampdu n1 ! tid)"
  define p where "p = (if v AND 0x0001 \<noteq> 0 \<and> ni_flags n1 AND NODE_AMSDU_RX \<noteq> 0 \<and> htc then reply_params tid w OR 0x0001
    else reply_params tid w)"
  have t: "tid < 16" by (simp add: tid_def tid_less)
  obtain rap env where s: "ampdu_rx_start htc v (le16 (frm ! 7) (frm ! 8)) (ni_rx_ampdu ni ! tid, ni_rx_env ni) = (rap, env)"
    by fastforce
  note st = rx_start_agreed [OF s]
  have n1: "answered ni tid k n1 []" for k
    using l t s st(3) by (simp add: answered_def n1_def rx_on_def)
  let ?b = "[3, 1, frm ! 2] @ ADDSHORT (if acc then 0 else 1) @ ADDSHORT p @ ADDSHORT 0"
  have u: "lo8 (ucast x) = x" for x :: u8
    unfolding lo8_def by (rule bit_word_eqI) (auto simp: bit_simps dest: bit_bounds)
  have cn: "(if acc then (0, rx_on tid (ampdu_rx_start htc v (le16 (frm ! 7) (frm ! 8))) ni)
      else (1, ba_count (\<lambda>s. s\<lparr>is_addba_reject := is_addba_reject s + 1\<rparr>) ni)) = (if acc then 0 else 1, n1)"
    by (simp add: n1_def)
  have sa: "send_action_ba tr 1 args n = ht_send_action_ba_addba tr 3 1 args n" for args n
    by (simp add: send_action_ba_def)
  have e: "ht_recv_action_ba_addba_request cfg tr frm ni =
      snd (ht_send_action_ba_addba tr 3 1 [ucast (frm ! 2), if acc then 0 else 1, p, 0, 0] n1)"
    unfolding ht_recv_action_ba_addba_request_def Let_def v_def [symmetric] tid_def [symmetric]
      acc_def [symmetric] htc_def [symmetric]
    by (simp only: cn sa prod.case p_def w_def reply_params_def)
  have p: "baps_tid p = tid" using reply_fields(1,2) [OF t] by (simp add: p_def)
  have a: "is_answer tid (ActionFrame ?b)" using p by (simp add: ADDSHORT_def le16_lo8_hi8)
  have g: "rx_agreed (ni_rx_ampdu n1 ! tid) (ba_window p) (p AND 0x0001 \<noteq> 0)" if acc
  proof -
    have r: "ni_rx_ampdu n1 ! tid = rap" using that l t s by (simp add: n1_def rx_on_def)
    then have "ba_window p = ba_window v" using reply_fields(3,4) [OF t, of w] st(2,4,5) by (simp add: p_def w_def)
    moreover have "p AND 0x0001 \<noteq> 0 \<longrightarrow> htc \<and> v AND 0x0001 \<noteq> 0" using reply_fields(5) [OF t, of w] by (auto simp: p_def)
    ultimately show ?thesis using st(1) r by (auto simp: rx_agreed_def)
  qed
  have "answered ni tid (frm ! 2) (n1\<lparr>ht_air := ht_air n1 @ [ActionFrame ?b]\<rparr>) [ActionFrame ?b]"
    using n1 a g unfolding answered_def by (simp add: ADDSHORT_def le16_lo8_hi8)
  moreover have "answered ni tid k (ba_count f n1) []" for f k using n1 [of k] by (simp add: answered_def)
  ultimately show ?thesis
    using n1 unfolding e tid_def [symmetric] v_def [symmetric]
    by (auto simp: ht_send_action_ba_addba_def ht_output_def u simp del: append_Cons)
qed

text \<open>Station \<open>i\<close> has taken the first frame in flight to it and is now in state \<open>ni'\<close>.\<close>

abbreviation taken :: "ba_net \<Rightarrow> bool \<Rightarrow> ba_frame list \<Rightarrow> ht_node \<Rightarrow> ba_net" where
  "taken net i fs ni' \<equiv> (net(\<not> i := (net (\<not> i))\<lparr>ht_air := fs\<rparr>))(i := ni')"

lemma ba_ok_taken:
  assumes ok: "ba_ok net" and air: "ht_air (net (\<not> i)) = f # fs"
  shows "ba_ok (taken net i fs (net i))"
  using ba_ok_lost [OF ok, of "\<not> i" "[]" f fs] air by (simp add: fun_upd_idem_iff fun_upd_twist)

lemma ba_ok_taken_quiet:
  assumes ok: "ba_ok net" and air: "ht_air (net (\<not> i)) = f # fs" and q: "quiet_step (net i) ni'"
  shows "ba_ok (taken net i fs ni')"
  using ba_ok_quiet [OF ba_ok_taken [OF ok air], of i ni'] q by simp

lemma ba_ok_taken_request:
  assumes ok: "ba_ok net" and air: "ht_air (net (\<not> i)) = ActionFrame b # fs"
    and f: "is_request tid (ActionFrame b)" and a: "answered (net i) tid (b ! 2) ni' gs" and t: "tid < 16"
  shows "ba_ok (taken net i fs ni')"
proof (rule ba_okI [where i = i])
  fix j and t :: nat
  note h = ba_okD(1) [OF ok, of i] ba_okD(1) [OF ok, of "\<not> i"] ba_okD(1) [OF ok, of j]
  have g: "\<forall>g \<in> set gs. bar_long g \<and> \<not> touches t g \<and> (is_answer t g \<longrightarrow> t = tid)" for t
    using a by (auto simp: answered_def touches_def)
  have live: "rap_live (ni_rx_ampdu ni' ! t)" if "t < 16" for t
    using ht_okD(6) [OF h(1) that] a by (cases "t = tid") (auto simp: answered_def)
  show "ht_ok (taken net i fs ni' j)"
    using h a g live air by (auto simp: ht_ok_def answered_def)
  assume t: "t < 16"
  note ag = ba_okD(2) [OF ok t, unfolded sessions_agree_def]
  show "sessions_agree (taken net i fs ni') i t"
    using agreed_send [OF agreed_lost(2) [of t _ _ _ "[]" "ActionFrame b" fs], of "ni_tx_ampdu (net i) ! t"
        "ni_rx_ampdu (net (\<not> i)) ! t" "ht_air (net i)" gs] ag [of i] air a g
    by (auto simp: sessions_agree_def answered_def untouched_def)
  show "sessions_agree (taken net i fs ni') (\<not> i) t"
  proof (cases "t = tid")
    case False
    have "agreed t (ni_tx_ampdu (net (\<not> i)) ! t) (ni_rx_ampdu (net i) ! t) ([] @ fs) (ht_air (net i))"
      by (rule agreed_lost(1)) (use ag [of "\<not> i"] air in simp)
    from agreed_reply [OF this, of gs] show ?thesis
      using a g [of t] False by (auto simp: sessions_agree_def answered_def)
  next
    case True
    show ?thesis
      using agreed_requested [of t "ni_tx_ampdu (net (\<not> i)) ! t" "ni_rx_ampdu (net i) ! t" "ActionFrame b" fs
          "ht_air (net i)" gs "ni_rx_ampdu ni' ! t"] ag [of "\<not> i"] air a f True
      by (auto simp: sessions_agree_def answered_def)
  qed
qed

lemma ba_ok_taken_delba:
  assumes ok: "ba_ok net" and air: "ht_air (net (\<not> i)) = f # fs" and f: "is_delba tid f" and t: "tid < 16"
  shows "ba_ok (taken net i fs (rx_on tid ampdu_rx_stop (net i)))"
proof (rule ba_okI [where i = i])
  fix j and t :: nat
  let ?n = "rx_on tid ampdu_rx_stop (net i)"
  note h = ba_okD(1) [OF ok, of i] ba_okD(1) [OF ok, of "\<not> i"] ba_okD(1) [OF ok, of j]
  obtain rap env where r: "ampdu_rx_stop (ni_rx_ampdu (net i) ! tid, ni_rx_env (net i)) = (rap, env)" by fastforce
  obtain rap1 where "rap = rap1\<lparr>rxa_flags := rxa_flags rap1 AND NOT (AGGR_RUNNING OR AGGR_XCHGPEND OR AGGR_WAITRX)\<rparr>"
    using r by (auto simp: ampdu_rx_stop_def split: prod.splits)
  then have "rxa_flags rap AND AGGR_XCHGPEND = 0" by (simp add: and.assoc)
  then have live: "rap_live rap" by (simp add: rap_live_def)
  have n: "ni_tx_ampdu ?n = ni_tx_ampdu (net i)" "ni_rx_ampdu ?n = (ni_rx_ampdu (net i))[tid := rap]"
    "ni_flags ?n = ni_flags (net i)" "ni_txseqs ?n = ni_txseqs (net i)" "ht_air ?n = ht_air (net i)"
    using r by (simp_all add: rx_on_def)
  have "rap_live ((ni_rx_ampdu (net i))[tid := rap] ! t)" if "t < 16" for t
    using ht_okD(2,6) [OF h(1)] live that by (cases "t = tid") simp_all
  then show "ht_ok (taken net i fs ?n j)"
    using h air n by (auto simp: ht_ok_def)
  assume t: "t < 16"
  note ag = ba_okD(2) [OF ok t, unfolded sessions_agree_def]
  have lost: "agreed t (ni_tx_ampdu (net i) ! t) (ni_rx_ampdu (net (\<not> i)) ! t) (ht_air (net i)) ([] @ fs)"
    "agreed t (ni_tx_ampdu (net (\<not> i)) ! t) (ni_rx_ampdu (net i) ! t) ([] @ fs) (ht_air (net i))"
    by (rule agreed_lost; use ag [of i] ag [of "\<not> i"] air in simp)+
  show "sessions_agree (taken net i fs ?n) i t" using lost(1) n by (simp add: sessions_agree_def)
  show "sessions_agree (taken net i fs ?n) (\<not> i) t"
  proof (cases "t = tid")
    case False
    then show ?thesis using lost(2) n by (simp add: sessions_agree_def)
  next
    case True
    then show ?thesis
      using agreed_ended [of t "ni_tx_ampdu (net (\<not> i)) ! t" "ni_rx_ampdu (net i) ! t" f fs "ht_air (net i)"
          "ni_rx_ampdu ?n ! t"] ag [of "\<not> i"] air f n by (simp add: sessions_agree_def touches_def)
  qed
qed

lemma addba_response_facts:
  assumes "\<not> tx_run tap" "tap' = ieee80211_addba_response cfg flags code v tap"
  shows "\<not> tx_pend tap'" "tx_run tap' \<longrightarrow> code = 0 \<and> unat (txa_wnd tap') = ba_window v \<and> (tx_amsdu tap' \<longrightarrow> v AND 0x0001 \<noteq> 0)"
    "tx_set tap' = tx_set tap" "txa_tid tap' = txa_tid tap"
proof -
  have "unat (word_of_nat (ba_window v) :: u16) = ba_window v"
    by (simp add: unsigned_of_nat take_bit_nat_eq_self ba_window_def)
  then show "\<not> tx_pend tap'" "tx_run tap' \<longrightarrow> code = 0 \<and> unat (txa_wnd tap') = ba_window v \<and> (tx_amsdu tap' \<longrightarrow> v AND 0x0001 \<noteq> 0)"
    "tx_set tap' = tx_set tap" "txa_tid tap' = txa_tid tap"
    using assms(1) unfolding assms(2)
    by (simp_all add: ieee80211_addba_response_def addba_stop_timeout_def Let_def tx_bits)
qed

lemma ba_ok_taken_answer:
  assumes ok: "ba_ok net" and air: "ht_air (net (\<not> i)) = ActionFrame b # fs"
    and f: "is_answer tid (ActionFrame b)" and t: "tid < 16"
    and p: "tx_pend (ni_tx_ampdu (net i) ! tid)" "b ! 2 = txa_token (ni_tx_ampdu (net i) ! tid)"
  shows "ba_ok (taken net i fs (tx_on tid (ieee80211_addba_response cfg flags (le16 (b ! 3) (b ! 4)) (le16 (b ! 5) (b ! 6))) (net i)))"
proof (rule ba_okI [where i = i])
  fix j and t :: nat
  let ?r = "ieee80211_addba_response cfg flags (le16 (b ! 3) (b ! 4)) (le16 (b ! 5) (b ! 6))"
  let ?n = "tx_on tid ?r (net i)"
  note h = ba_okD(1) [OF ok, of i] ba_okD(1) [OF ok, of "\<not> i"] ba_okD(1) [OF ok, of j]
  have idle: "\<not> tx_run (ni_tx_ampdu (net i) ! tid)"
    using ba_okD(2) [OF ok \<open>tid < 16\<close>, of i] p(1) by (simp add: sessions_agree_def agreed_def)
  note resp = addba_response_facts [OF idle refl, of cfg flags "le16 (b ! 3) (b ! 4)" "le16 (b ! 5) (b ! 6)"]
  have l: "length (ni_tx_ampdu (net i)) = 16" using ht_okD(1) [OF h(1)] .
  have "tap_ok t (ni_tx_ampdu ?n ! t)" if "t < 16" for t
    using ht_okD(5) [OF h(1) that] resp l \<open>tid < 16\<close> p(1) by (cases "t = tid") (auto simp: tap_ok_def)
  then show "ht_ok (taken net i fs ?n j)" using h air by (auto simp: ht_ok_def)
  assume t: "t < 16"
  note ag = ba_okD(2) [OF ok t, unfolded sessions_agree_def]
  have lost: "agreed t (ni_tx_ampdu (net i) ! t) (ni_rx_ampdu (net (\<not> i)) ! t) (ht_air (net i)) ([] @ fs)"
    "agreed t (ni_tx_ampdu (net (\<not> i)) ! t) (ni_rx_ampdu (net i) ! t) ([] @ fs) (ht_air (net i))"
    by (rule agreed_lost; use ag [of i] ag [of "\<not> i"] air in simp)+
  show "sessions_agree (taken net i fs ?n) (\<not> i) t" using lost(2) by (simp add: sessions_agree_def)
  show "sessions_agree (taken net i fs ?n) i t"
  proof (cases "t = tid")
    case False
    then show ?thesis using lost(1) l \<open>tid < 16\<close> by (simp add: sessions_agree_def)
  next
    case True
    have "agreed tid (?r (ni_tx_ampdu (net i) ! tid)) (ni_rx_ampdu (net (\<not> i)) ! tid) (ht_air (net i)) fs"
      by (rule agreed_answered [of _ "ni_tx_ampdu (net i) ! tid" _ _ "ActionFrame b"])
        (use ag [of i] air f p resp True in simp_all)
    then show ?thesis using True l \<open>tid < 16\<close> by (simp add: sessions_agree_def)
  qed
qed

lemma ba_ok_response:
  assumes ok: "ba_ok net" and air: "ht_air (net (\<not> i)) = ActionFrame b # fs" and b: "is_action 9 1 b"
  shows "ba_ok (taken net i fs (ht_recv_action_ba_addba_response cfg b (net i)))"
proof -
  let ?t = "baps_tid (le16 (b ! 5) (b ! 6))" and ?n = "ht_recv_action_ba_addba_response cfg b (net i)"
  let ?tap = "ni_tx_ampdu (net i) ! ?t"
  show ?thesis
  proof (cases "txa_flags ?tap AND TXA_XCHGPEND = 0 \<or> b ! 2 \<noteq> txa_token ?tap \<or>
      ucast (baps_policy (le16 (b ! 5) (b ! 6))) \<noteq> txa_flags ?tap AND TXA_IMMEDIATE")
    case True
    then have "\<exists>g. ?n = ba_count g (net i)"
      unfolding ht_recv_action_ba_addba_response_def Let_def by (auto split: if_split)
    then show ?thesis using ba_ok_taken_quiet [OF ok air] quiet_step_count by metis
  next
    case False
    then have "?n = tx_on ?t (ieee80211_addba_response cfg (ni_flags (net i)) (le16 (b ! 3) (b ! 4)) (le16 (b ! 5) (b ! 6))) (net i)"
      unfolding ht_recv_action_ba_addba_response_def Let_def by simp
    then show ?thesis
      using ba_ok_taken_answer [OF ok air, of ?t cfg "ni_flags (net i)"] b tid_less False by (simp add: tx_pend_def)
  qed
qed

lemma ba_ok_delba:
  assumes ok: "ba_ok net" and air: "ht_air (net (\<not> i)) = ActionFrame b # fs" and b: "is_action 6 2 b"
  shows "ba_ok (taken net i fs (ht_recv_action_ba_delba b (net i)))"
  using ba_ok_taken_quiet [OF ok air quiet_step_on [OF addba_stop_less(1)]] tid_less
    ba_ok_taken_delba [OF ok air, of "delba_tid (le16 (b ! 2) (b ! 3))"] b
  by (simp add: ht_recv_action_ba_delba_def Let_def)

text \<open>The actions of HT nodes change other fields of the node.\<close>

lemma ba_ok_ht_action:
  assumes ok: "ba_ok net" and air: "ht_air (net (\<not> i)) = f # fs"
    and n: "n \<in> {net i, ht_recv_action_ht_txchwidth b (net i), ht_recv_action_ht_mimopwrsave b (net i)}"
  shows "ba_ok (taken net i fs n)"
proof -
  have "ni_flags (ht_recv_action_ht_mimopwrsave b m) AND NODE_HT = ni_flags m AND NODE_HT" for m
    by (simp add: ht_recv_action_ht_mimopwrsave_def Let_def bit.conj_disj_distrib2 and.assoc)
  then have "ni_flags n AND NODE_HT = ni_flags (net i) AND NODE_HT"
    using n by (auto simp: ht_recv_action_ht_txchwidth_def Let_def)
  then show ?thesis
    using ba_ok_fields [OF ba_ok_taken [OF ok air], of i n] n
    by (auto simp: ht_recv_action_ht_txchwidth_def ht_recv_action_ht_mimopwrsave_def Let_def)
qed

lemma ba_ok_action:
  assumes ok: "ba_ok net" and air: "ht_air (net (\<not> i)) = ActionFrame b # fs"
    and len: "action_minlen (b ! 0) (b ! 1) \<le> length b"
  shows "ba_ok (taken net i fs (snd (ieee80211_recv_action cfg tr b (net i))))"
proof (cases "b ! 0 = 3 \<and> b ! 1 = 0")
  case True
  let ?t = "baps_tid (le16 (b ! 3) (b ! 4))" and ?n = "ht_recv_action_ba_addba_request cfg tr b (net i)"
  obtain gs where "answered (net i) ?t (b ! 2) ?n gs"
    using request_answered [OF ht_okD(2) [OF ba_okD(1) [OF ok]]] by blast
  then show ?thesis
    using ba_ok_taken_request [OF ok air, of ?t ?n gs] True len tid_less
    by (simp add: action_minlen_def ieee80211_recv_action_def Let_def)
next
  case False
  note s = ieee80211_recv_action_def Let_def action_minlen_def
  consider "b ! 0 = 3" "b ! 1 = 1" | "b ! 0 = 3" "b ! 1 = 2" | "\<not> (b ! 0 = 3 \<and> (b ! 1 = 0 \<or> b ! 1 = 1 \<or> b ! 1 = 2))"
    using False by blast
  then show ?thesis
  proof cases
    case 1
    then show ?thesis using ba_ok_response [OF ok air, of cfg] len by (simp add: s)
  next
    case 2
    then show ?thesis using ba_ok_delba [OF ok air] len by (simp add: s)
  next
    case 3
    then have "snd (ieee80211_recv_action cfg tr b (net i)) \<in>
        {net i, ht_recv_action_ht_txchwidth b (net i), ht_recv_action_ht_mimopwrsave b (net i)}"
      by (auto simp: s)
    then show ?thesis by (rule ba_ok_ht_action [OF ok air])
  qed
qed

lemma taken_upd: "taken (net(i := ni)) i fs ni' = taken net i fs ni'"
  by (auto simp: fun_eq_iff)

lemma ba_ok_recv:
  assumes ok: "ba_ok net" and air: "ht_air (net (\<not> i)) = f # fs"
  shows "\<exists>ni'. recv_frame cfg tr f (net i) = Some ni' \<and> ba_ok (taken net i fs ni')"
proof (cases f)
  case (BarFrame bar)
  obtain raps env where r: "ieee80211_recv_bar (recv_bar_ena cfg) \<lparr>m_segs = [bar], m_rxs = None, m_flags = 0\<rparr>
      (ni_rx_ampdu (net i), ni_rx_env (net i)) = (raps, env)" by fastforce
  have "20 \<le> length bar" using ba_okD(1) [OF ok, of "\<not> i"] air BarFrame by (auto simp: ht_ok_def)
  moreover have "ba_ok (taken net i fs ((net i)\<lparr>ni_rx_ampdu := raps, ni_rx_env := env\<rparr>))"
    using ba_ok_rx [OF ba_ok_taken [OF ok air], of i raps env] rx_step_bar [OF r] by simp
  ultimately show ?thesis using r BarFrame by (simp add: recv_frame_def)
next
  case (ActionFrame b)
  obtain c ni1 where p: "ieee80211_parse_action b (net i) = (c, ni1)" by fastforce
  have q: "quiet_step (net i) ni1"
    using p quiet_step_count quiet_step_trans [OF quiet_step_count quiet_step_count]
    by (auto simp: ieee80211_parse_action_def Let_def split: if_splits)
  have ok1: "ba_ok (net(i := ni1))" by (rule ba_ok_quiet [OF ok q])
  have air1: "ht_air ((net(i := ni1)) (\<not> i)) = ActionFrame b # fs" using air ActionFrame by simp
  show ?thesis
  proof (cases c)
    case False
    then show ?thesis
      using p ba_ok_taken_quiet [OF ok1 air1 quiet_step_refl, unfolded taken_upd] ActionFrame
      by (simp add: recv_frame_def)
  next
    case True
    then have "action_minlen (b ! 0) (b ! 1) \<le> length b"
      using p by (auto simp: ieee80211_parse_action_def Let_def split: if_splits)
    from ba_ok_action [OF ok1 air1 this, of cfg tr, unfolded taken_upd] show ?thesis
      using p ActionFrame True by (simp add: recv_frame_def)
  qed
qed

end
