(* ===== verification/BlockAckRun.thy ===== *)
theory BlockAckRun
  imports BlockAckAgree
begin

text \<open>Runs of the two stations: what they can rely on in every reachable state.\<close>

section \<open>Association\<close>

lemma rx_on_simps [simp]:
  "ni_tx_ampdu (rx_on i f ni) = ni_tx_ampdu ni" "ni_flags (rx_on i f ni) = ni_flags ni"
  "ht_air (rx_on i f ni) = ht_air ni" "ni_txseqs (rx_on i f ni) = ni_txseqs ni" "ba_tokens (rx_on i f ni) = ba_tokens ni"
  "length (ni_rx_ampdu (rx_on i f ni)) = length (ni_rx_ampdu ni)"
  by (auto simp: rx_on_def split: prod.splits)

lemma stop_sessions:
  assumes "length (ni_tx_ampdu ni) = 16" "n \<le> 16"
    "ni' = fold (\<lambda>i ni. if txa_flags (ni_tx_ampdu ni ! i) AND TXA_SETUP \<noteq> 0
                           then tx_on i (ampdu_tx_stop ticks) ni else ni) [0..<n] ni"
  shows "length (ni_tx_ampdu ni') = 16 \<and> ni_rx_ampdu ni' = ni_rx_ampdu ni \<and> ni_flags ni' = ni_flags ni \<and>
    ni_txseqs ni' = ni_txseqs ni \<and> ht_air ni' = ht_air ni \<and>
    (\<forall>t < 16. ni_tx_ampdu ni' ! t = (if t < n \<and> tx_set (ni_tx_ampdu ni ! t)
       then ampdu_tx_stop ticks (ni_tx_ampdu ni ! t) else ni_tx_ampdu ni ! t))"
  unfolding assms(3) using assms(1,2)
proof (induction n)
  case (Suc n)
  then show ?case by (auto simp: tx_set_def less_Suc_eq)
qed simp

lemma stop_rx_sessions:
  "ni_tx_ampdu (fold (\<lambda>i. rx_on i f) is ni) = ni_tx_ampdu ni \<and> ni_flags (fold (\<lambda>i. rx_on i f) is ni) = ni_flags ni \<and>
   ni_txseqs (fold (\<lambda>i. rx_on i f) is ni) = ni_txseqs ni \<and> ht_air (fold (\<lambda>i. rx_on i f) is ni) = ht_air ni \<and>
   length (ni_rx_ampdu (fold (\<lambda>i. rx_on i f) is ni)) = length (ni_rx_ampdu ni)"
  by (induction "is" arbitrary: ni) simp_all

lemma init_sessions:
  assumes "length (ni_tx_ampdu ni) = 16" "length (ni_rx_ampdu ni) = 16" "n \<le> 16"
    "ni' = fold (\<lambda>i ni. rx_on i (\<lambda>(rap, env). (ieee80211_ampdu_rx_init_rap rap, env))
                (tx_on i (\<lambda>tap. ieee80211_txampdu_init_pps ticks (tap\<lparr>txa_tid := word_of_nat i\<rparr>)) ni)) [0..<n] ni"
  shows "length (ni_tx_ampdu ni') = 16 \<and> length (ni_rx_ampdu ni') = 16 \<and> ni_flags ni' = ni_flags ni \<and>
    ni_txseqs ni' = ni_txseqs ni \<and> ht_air ni' = ht_air ni \<and>
    (\<forall>t < n. ni_tx_ampdu ni' ! t = ieee80211_txampdu_init_pps ticks ((ni_tx_ampdu ni ! t)\<lparr>txa_tid := word_of_nat t\<rparr>) \<and>
       rxa_flags (ni_rx_ampdu ni' ! t) = 0) \<and>
    (\<forall>t. n \<le> t \<longrightarrow> t < 16 \<longrightarrow> ni_tx_ampdu ni' ! t = ni_tx_ampdu ni ! t)"
  unfolding assms(4) using assms(1,2,3)
proof (induction n)
  case (Suc n)
  then show ?case by (auto simp: rx_on_def ieee80211_ampdu_rx_init_rap_def less_Suc_eq)
qed simp

text \<open>After association no session of the node is set up.\<close>

lemma node_init_ok:
  assumes l: "length (ni_tx_ampdu ni) = 16" "length (ni_rx_ampdu ni) = 16" "16 \<le> length (ni_txseqs ni)"
    "\<forall>f \<in> set (ht_air ni). bar_long f"
    and t: "\<forall>t < 16. tx_run (ni_tx_ampdu ni ! t) \<or> tx_pend (ni_tx_ampdu ni ! t) \<longrightarrow>
      tx_set (ni_tx_ampdu ni ! t) \<and> ni_flags ni AND NODE_HT \<noteq> 0"
    and n: "ni' = ieee80211_ht_node_init ticks ni"
  shows "ht_ok ni'" "t < 16 \<Longrightarrow> \<not> tx_run (ni_tx_ampdu ni' ! t) \<and> \<not> tx_pend (ni_tx_ampdu ni' ! t)"
proof -
  define n1 where "n1 = (if ni_flags ni AND NODE_HT \<noteq> 0 then ieee80211_ht_node_cleanup ticks ni else ni)"
  have n1: "length (ni_tx_ampdu n1) = 16" "length (ni_rx_ampdu n1) = 16" "ni_txseqs n1 = ni_txseqs ni" "ht_air n1 = ht_air ni"
    "\<forall>t < 16. \<not> tx_run (ni_tx_ampdu n1 ! t) \<and> \<not> tx_pend (ni_tx_ampdu n1 ! t)"
    using l(1,2) t stop_sessions [OF l(1) _ refl, of 16 ticks] tx_stop_less
    by (auto simp: n1_def ieee80211_ht_node_cleanup_def Let_def stop_rx_sessions)
  define n2 where "n2 = fold (\<lambda>i ni. rx_on i (\<lambda>(rap, env). (ieee80211_ampdu_rx_init_rap rap, env))
                (tx_on i (\<lambda>tap. ieee80211_txampdu_init_pps ticks (tap\<lparr>txa_tid := word_of_nat i\<rparr>)) ni)) [0..<16] n1"
  note n2 = init_sessions [OF n1(1,2) order_refl n2_def]
  have e: "ni' = n2\<lparr>ni_flags := ni_flags n2 OR (NODE_HT OR NODE_AMPDU_RX OR NODE_AMPDU_TX OR NODE_AMSDU_RX OR NODE_AMSDU_TX)\<rparr>"
    by (simp add: n ieee80211_ht_node_init_def Let_def n1_def n2_def)
  have i: "\<not> tx_run (ni_tx_ampdu ni' ! t) \<and> \<not> tx_pend (ni_tx_ampdu ni' ! t) \<and> txa_tid (ni_tx_ampdu ni' ! t) = word_of_nat t \<and>
      rxa_flags (ni_rx_ampdu ni' ! t) = 0" if "t < 16" for t
    using n1(5) n2 that by (simp add: e ieee80211_txampdu_init_pps_def tx_run_def tx_pend_def)
  then show "t < 16 \<Longrightarrow> \<not> tx_run (ni_tx_ampdu ni' ! t) \<and> \<not> tx_pend (ni_tx_ampdu ni' ! t)" by blast
  have "ni_flags ni' AND NODE_HT \<noteq> 0" by (simp add: e bit.conj_disj_distrib2)
  then show "ht_ok ni'" using i n1 n2 l by (simp add: ht_ok_def tap_ok_def rap_live_def e)
qed

lemma ba_ok_associate: "ba_ok net \<Longrightarrow> ba_ok (\<lambda>i. ieee80211_ht_node_init ticks (net i))"
proof -
  assume ok: "ba_ok net"
  have "ht_ok (ieee80211_ht_node_init ticks (net i)) \<and>
      (\<forall>t < 16. \<not> tx_run (ni_tx_ampdu (ieee80211_ht_node_init ticks (net i)) ! t) \<and>
         \<not> tx_pend (ni_tx_ampdu (ieee80211_ht_node_init ticks (net i)) ! t))" for i
  proof -
    have o: "ht_ok (net i)" by (rule ba_okD(1) [OF ok])
    note h = ht_okD [OF o]
    have "\<forall>f \<in> set (ht_air (net i)). bar_long f" using o by (simp add: ht_ok_def)
    moreover have "\<forall>t < 16. tx_run (ni_tx_ampdu (net i) ! t) \<or> tx_pend (ni_tx_ampdu (net i) ! t) \<longrightarrow>
        tx_set (ni_tx_ampdu (net i) ! t) \<and> ni_flags (net i) AND NODE_HT \<noteq> 0"
      using h(4,5) by (simp add: tap_ok_def)
    ultimately show ?thesis using node_init_ok [OF h(1-3) _ _ refl] by blast
  qed
  then show ?thesis by (simp add: ba_ok_def sessions_agree_def agreed_idle)
qed

lemma ba_ok_start:
  assumes "\<forall>i. length (sq i) \<ge> 16"
  shows "ba_ok (\<lambda>i. ieee80211_ht_node_init ticks (ht_node0 (fl i) (sq i) (env i) (tok i) (st i)))"
proof -
  let ?n = "\<lambda>i. ht_node0 (fl i) (sq i) (env i) (tok i) (st i)"
  have "\<forall>t < 16. \<not> tx_run (ni_tx_ampdu (?n i) ! t) \<and> \<not> tx_pend (ni_tx_ampdu (?n i) ! t)" for i
    by (simp add: ht_node0_def tx_run_def tx_pend_def)
  then have "ht_ok (ieee80211_ht_node_init ticks (?n i)) \<and>
      (\<forall>t < 16. \<not> tx_run (ni_tx_ampdu (ieee80211_ht_node_init ticks (?n i)) ! t) \<and>
         \<not> tx_pend (ni_tx_ampdu (ieee80211_ht_node_init ticks (?n i)) ! t))" for i
    using node_init_ok [OF _ _ _ _ _ refl [of "ieee80211_ht_node_init ticks (?n i)"]] assms by (simp add: ht_node0_def)
  then show ?thesis by (simp add: ba_ok_def sessions_agree_def agreed_idle)
qed

section \<open>Every step\<close>

lemma ba_exec_ok:
  assumes ok: "ba_ok net" and cfg: "ht_cfg_ok (cfg i)" and op: "ba_op_ok i op net"
  shows "\<exists>net'. ba_exec cfg i op net = Some net' \<and> ba_ok net'"
proof (cases op)
  case (PktSend ticks setup_ok t tid eapol mcast)
  then show ?thesis using ba_ok_pkt_send [OF ok cfg, of tid i ticks setup_ok t eapol mcast] op by (auto simp: ba_exec_def)
next
  case (TimerFires t tid)
  then show ?thesis
    using ba_ok_quiet [OF ok quiet_fire [OF ba_okD(1) [OF ok] cfg]] op by (simp add: ba_exec_def at_def)
next
  case (AmpduStop t reason tid)
  then show ?thesis
    using ba_ok_quiet [OF ok quiet_stop [OF ba_okD(1) [OF ok]]] op by (simp add: ba_exec_def at_def)
next
  case (SendBar t tid seq)
  then show ?thesis using ba_ok_quiet [OF ok quiet_send_bar [OF cfg]] op by (simp add: ba_exec_def at_def)
next
  case (BarDone acked tid)
  then show ?thesis using ba_ok_quiet [OF ok quiet_bar_done] by (simp add: ba_exec_def at_def)
next
  case (RecvFrame t)
  then show ?thesis
    using ok ba_ok_recv [OF ok, of i _ _ "cfg i" t] by (cases "ht_air (net (\<not> i))") (auto simp: ba_exec_def)
next
  case (FrameLost k)
  let ?a = "ht_air (net i)"
  have "ba_ok (net(i := (net i)\<lparr>ht_air := take k ?a @ drop (Suc k) ?a\<rparr>))"
  proof (cases "k < length ?a")
    case True
    then show ?thesis by (intro ba_ok_lost [OF ok, where f = "?a ! k"]) (simp add: id_take_nth_drop)
  next
    case False
    then show ?thesis using ok by simp
  qed
  then show ?thesis using FrameLost by (simp add: ba_exec_def at_def)
next
  case (DataIn ticks m rxs)
  note h = ht_okD [OF ba_okD(1) [OF ok, of i]]
  obtain v raps env where "ieee80211_ampdu_reorder ticks (ampdu_age (cfg i)) m rxs (ni_rx_ampdu (net i), ni_rx_env (net i)) =
      Some (v, raps, env)" "rx_step (ni_rx_ampdu (net i)) raps"
    using rx_step_reorder [OF h(2,6)] by blast
  then show ?thesis using DataIn ba_ok_rx [OF ok] by (simp add: ba_exec_def at_def)
next
  case (HtNodeAge ticks)
  obtain raps env where a: "ieee80211_ht_node_age ticks (ampdu_age (cfg i)) (ni_rx_ampdu (net i), ni_rx_env (net i)) = (raps, env)"
    by fastforce
  then have "rx_step (ni_rx_ampdu (net i)) raps" using rx_step_age by (simp add: ieee80211_ht_node_age_def)
  then show ?thesis using HtNodeAge ba_ok_rx [OF ok] a by (simp add: ba_exec_def at_def)
next
  case OtherRequest
  then show ?thesis using ba_ok_fields [OF ok, of i] by (simp add: ba_exec_def at_def)
next
  case (Negotiated flags)
  then show ?thesis using ba_ok_fields [OF ok, of i] by (simp add: ba_exec_def at_def bit.conj_disj_distrib2)
next
  case (Associate ticks)
  then show ?thesis using ba_ok_associate [OF ok] by (simp add: ba_exec_def)
qed

lemma ba_reach_ok: "ba_reach cfg net \<Longrightarrow> \<forall>i. ht_cfg_ok (cfg i) \<Longrightarrow> ba_ok net"
proof (induction rule: ba_reach.induct)
  case (start sq ticks fl env tok st)
  then show ?case by (intro ba_ok_start) simp
next
  case (step net i op net')
  then show ?case using ba_exec_ok [of net cfg i op] by auto
qed

lemma rx_agreed_facts:
  "rx_agreed rap w a \<Longrightarrow> rxa_flags rap AND AGGR_RUNNING \<noteq> 0 \<and> rxa_flags rap AND AGGR_XCHGPEND \<noteq> 0 \<and> rap_ok rap \<and>
     rxa_wnd rap = w \<and> 1 \<le> rxa_wnd rap \<and> rxa_wnd rap \<le> 64 \<and> (a \<longrightarrow> rxa_flags rap AND AGGR_AMSDU \<noteq> 0)"
  unfolding rx_agreed_def running_def rap_ok_def counted_def by simp

section \<open>Agreement\<close>

text \<open>
  C40. Two stations that run this code with its default methods and set up block ack sessions
  with each other, over a link that keeps the order of the frames and may lose any of them,
  with timers that fire at any time: every operation returns, and a station never takes a
  session for running unless its peer has the receive session of that tid running with the
  same window of 1 to 64 frames, and lets A-MSDUs into the session only if the peer does. This
  is as long as the two ends set each other's node up anew together (\<open>Associate\<close>), and no frame
  is still in flight when its dialog token is used again, 63 requests later.
\<close>

theorem ba_agreement:
  assumes "\<forall>i. ht_cfg_ok (cfg i)" "ba_reach cfg net"
  shows "(\<forall>i op. ba_op_ok i op net \<longrightarrow> ba_exec cfg i op net \<noteq> None) \<and>
    (\<forall>i. \<forall>t < 16. let tap = ni_tx_ampdu (net i) ! t; rap = ni_rx_ampdu (net (\<not> i)) ! t in
       txa_flags tap AND TXA_RUNNING \<noteq> 0 \<longrightarrow>
         rxa_flags rap AND AGGR_RUNNING \<noteq> 0 \<and> rxa_flags rap AND AGGR_XCHGPEND \<noteq> 0 \<and> rap_ok rap \<and>
         rxa_wnd rap = unat (txa_wnd tap) \<and> 1 \<le> rxa_wnd rap \<and> rxa_wnd rap \<le> 64 \<and>
         (txa_flags tap AND TXA_AMSDU \<noteq> 0 \<longrightarrow> rxa_flags rap AND AGGR_AMSDU \<noteq> 0))"
proof -
  have ok: "ba_ok net" using ba_reach_ok [OF assms(2,1)] .
  have "ba_exec cfg i op net \<noteq> None" if "ba_op_ok i op net" for i op
    using ba_exec_ok [of net cfg i op] ok assms(1) that by auto
  moreover have "rx_agreed (ni_rx_ampdu (net (\<not> i)) ! t) (unat (txa_wnd (ni_tx_ampdu (net i) ! t))) (tx_amsdu (ni_tx_ampdu (net i) ! t))"
    if "t < 16" "txa_flags (ni_tx_ampdu (net i) ! t) AND TXA_RUNNING \<noteq> 0" for i t
    using ba_okD(2) [OF ok that(1), of i] that(2) by (simp add: sessions_agree_def agreed_def tx_run_def)
  note rx_agreed_facts [OF this]
  ultimately show ?thesis unfolding Let_def tx_amsdu_def by blast
qed

section \<open>Setting a session up\<close>

definition ba_all_ok :: tx_try where
  "ba_all_ok = \<lparr>tt_mbuf = True, tt_callback = True, tt_error = OK, tt_dur = [0, 0]\<rparr>"

fun ba_run :: "(bool \<Rightarrow> ht_cfg) \<Rightarrow> (bool \<times> ba_op) list \<Rightarrow> ba_net \<Rightarrow> ba_net option" where
  "ba_run cfg [] net = Some net"
| "ba_run cfg ((i, op) # ops) net =
     (if ba_op_ok i op net then case ba_exec cfg i op net of None \<Rightarrow> None | Some net \<Rightarrow> ba_run cfg ops net else None)"

lemma ba_run_reach: "ba_reach cfg net \<Longrightarrow> ba_run cfg ops net = Some net' \<Longrightarrow> ba_reach cfg net'"
proof (induction ops arbitrary: net)
  case (Cons x ops)
  then show ?case by (cases x) (auto split: if_splits option.splits intro: ba_reach.step)
qed simp

definition ex_ht_cfg :: ht_cfg where
  "ex_ht_cfg = \<lparr>iv_flags_ht = 0x00300000, iv_htcaps = 0x0c000000, iv_ampdu_mintraffic = [0, 0, 0, 0],
     iv_myaddr = [2, 0, 0, 0, 0, 1], ni_macaddr = [2, 0, 0, 0, 0, 2], ht_hz = 1000, addba_timeout = 250,
     addba_backoff = 10000, addba_maxtries = 3, ampdu_age = 500, recv_bar_ena = True\<rparr>"

definition ex_rx_env :: rx_env where
  "ex_rx_env = \<lparr>up = [], freed = [], ni_stats = \<lparr>is_ampdu_rx_reorder = 0, is_rx_dup = 0, is_ampdu_rx_oor = 0,
     is_ampdu_rx_copy = 0, is_ampdu_rx_age = 0, is_ampdu_rx_move = 0, is_ampdu_rx_drop = 0, is_ampdu_bar_bad = 0,
     is_ampdu_bar_rx = 0, is_ampdu_bar_move = 0, is_ampdu_bar_oow = 0, ns_rx_dup = 0, ns_rx_drop = 0,
     ns_rx_amsdu_more = 0, ns_rx_amsdu_more_end = 0\<rparr>\<rparr>"

definition ex_ba_stats :: ba_stats where
  "ex_ba_stats = \<lparr>is_addba_reject = 0, is_addba_norequest = 0, is_addba_badtoken = 0, is_addba_badpolicy = 0,
     is_ampdu_stop = 0, is_ampdu_stop_failed = 0, is_ampdu_bar_tx = 0, is_ampdu_bar_tx_fail = 0,
     is_ampdu_bar_tx_retry = 0, is_tx_nobuf = 0, is_rx_action = 0, is_rx_elem_toosmall = 0, ns_tx_mgmt = 0, ns_rx_action = 0\<rparr>"

definition ex_ba_start :: ba_net where
  "ex_ba_start = (\<lambda>i. ieee80211_ht_node_init 5 (ht_node0 0 (replicate 17 (if i then 0 else 0x123)) ex_rx_env 7 ex_ba_stats))"

definition ex_ba_ops :: "(bool \<times> ba_op) list" where
  "ex_ba_ops = [(False, PktSend 10 True ba_all_ok 6 False False), (True, RecvFrame ba_all_ok), (False, RecvFrame ba_all_ok)]"

definition ex_ba_net :: ba_net where
  "ex_ba_net = (case ba_run (\<lambda>_. ex_ht_cfg) ex_ba_ops ex_ba_start of Some net \<Rightarrow> net | None \<Rightarrow> ex_ba_start)"

lemma ex_ba_facts:
  "ba_run (\<lambda>_. ex_ht_cfg) ex_ba_ops ex_ba_start \<noteq> None"
  "ht_cfg_ok ex_ht_cfg"
  "txa_flags (ni_tx_ampdu (ex_ba_net False) ! 6) = 0x8d"
  "rxa_start (ni_rx_ampdu (ex_ba_net True) ! 6) = 0x123"
  by code_simp+

theorem ba_agreement_witness:
  "txa_flags (ni_tx_ampdu (ex_ba_net False) ! 6) AND TXA_RUNNING \<noteq> 0 \<and>
   rxa_flags (ni_rx_ampdu (ex_ba_net True) ! 6) AND AGGR_RUNNING \<noteq> 0 \<and>
   rxa_wnd (ni_rx_ampdu (ex_ba_net True) ! 6) = unat (txa_wnd (ni_tx_ampdu (ex_ba_net False) ! 6))"
proof -
  have "ba_reach (\<lambda>_. ex_ht_cfg) ex_ba_start"
    unfolding ex_ba_start_def by (rule ba_reach.start) simp
  moreover have "ba_run (\<lambda>_. ex_ht_cfg) ex_ba_ops ex_ba_start = Some ex_ba_net"
    using ex_ba_facts(1) by (auto simp: ex_ba_net_def)
  ultimately have r: "ba_reach (\<lambda>_. ex_ht_cfg) ex_ba_net" by (rule ba_run_reach)
  have f: "txa_flags (ni_tx_ampdu (ex_ba_net False) ! 6) AND TXA_RUNNING \<noteq> 0" by (simp add: ex_ba_facts(3))
  have "\<forall>i. ht_cfg_ok ((\<lambda>_. ex_ht_cfg) i)" using ex_ba_facts(2) by simp
  from ba_agreement [OF this r, unfolded Let_def, THEN conjunct2, THEN spec [of _ False], THEN spec [of _ 6]]
  show ?thesis using f by simp
qed

lemma reply_policy: "t < 16 \<Longrightarrow> baps_policy (reply_params t w) = 1 \<and> baps_policy (reply_params t w OR 0x0001) = 1"
proof -
  have "(push_bit 2 x AND 0x3c) AND 2 = 0" "(push_bit 6 x AND 0xffc0) AND 2 = 0" for x :: u16
    by (simp_all add: and.assoc)
  then have "reply_params t w AND 2 = 2" "(reply_params t w OR 1) AND 2 = 2"
    unfolding reply_params_def by (simp_all add: bit.conj_disj_distrib2)
  then show ?thesis by (simp add: baps_policy_def)
qed

lemma request_window: "t < 16 \<Longrightarrow> ba_window (request_params (word_of_nat t)) = 64 \<and>
    ba_window (request_params (word_of_nat t) OR 0x0001) = 64"
proof -
  have "\<forall>t \<in> set [0..<16]. ba_window (request_params (word_of_nat t)) = 64 \<and>
      ba_window (request_params (word_of_nat t) OR 0x0001) = 64"
    by code_simp
  then show "t < 16 \<Longrightarrow> ba_window (request_params (word_of_nat t)) = 64 \<and>
      ba_window (request_params (word_of_nat t) OR 0x0001) = 64" by simp
qed

end
