(* ===== verification/BlockAckLife.thy ===== *)
theory BlockAckLife
  imports BlockAckRun
begin

text \<open>
  How a block ack session comes up when nothing is lost, and two places where the code does not
  do what it means to.
\<close>

section \<open>The exchange\<close>

definition sends :: "tx_try \<Rightarrow> bool" where "sends tr \<longleftrightarrow> tt_mbuf tr \<and> tt_callback tr \<and> tt_error tr = OK"

text \<open>A request goes out.\<close>

lemma request_sent:
  assumes ok: "ht_ok ni" and t: "tid < 16" and tr: "sends tr"
  obtains p b where "ba_window p = 64" "baps_tid p = tid"
    "b = [3, 0, lo8 (word_of_nat ((ba_tokens ni + 1) mod 63))] @ ADDSHORT p @ ADDSHORT 0 @
       ADDSHORT (push_bit 4 (ni_txseqs ni ! tid) AND 0xfff0)"
    "ht_air (snd (ieee80211_ampdu_request cfg ticks True tr tid ni)) = ht_air ni @ [ActionFrame b]"
    "tx_pend (ni_tx_ampdu (snd (ieee80211_ampdu_request cfg ticks True tr tid ni)) ! tid)"
    "txa_flags (ni_tx_ampdu (snd (ieee80211_ampdu_request cfg ticks True tr tid ni)) ! tid) AND TXA_IMMEDIATE = 1"
    "txa_token (ni_tx_ampdu (snd (ieee80211_ampdu_request cfg ticks True tr tid ni)) ! tid) =
       word_of_nat ((ba_tokens ni + 1) mod 63)"
    "txa_start (ni_tx_ampdu (snd (ieee80211_ampdu_request cfg ticks True tr tid ni)) ! tid) = ni_txseqs ni ! tid"
proof -
  have l: "length (ni_tx_ampdu ni) = 16" and tid: "txa_tid (ni_tx_ampdu ni ! tid) = word_of_nat tid"
    using ht_okD(1,5) [OF ok] t by (simp_all add: tap_ok_def)
  have u: "unat (word_of_nat tid :: u8) = tid" using t by (simp add: unsigned_of_nat take_bit_nat_eq_self)
  have m: "(x OR 1) AND 1 = 1" for x :: u16 by (simp add: bit.conj_disj_distrib2)
  let ?k = "(ba_tokens ni + 1) mod 63"
  let ?g = "\<lambda>tap. let tap = (if txa_flags tap AND TXA_SETUP = 0 then ampdu_tx_setup ticks tap else tap)
           in tap\<lparr>txa_flags := txa_flags tap AND NOT TXA_NAK, txa_start := ni_txseqs ni ! unat (txa_tid (ni_tx_ampdu ni ! tid))\<rparr>"
  define p where "p = (let v = request_params (word_of_nat tid) in
    if ni_flags ni AND NODE_AMSDU_TX \<noteq> 0 \<and> iv_htcaps cfg AND HTC_TX_AMSDU_AMPDU \<noteq> 0 then v OR 0x0001 else v)"
  define n2 where "n2 = (tx_on tid (ieee80211_addba_request cfg ticks (word_of_nat ?k) p) (tx_on tid ?g ni))\<lparr>ba_tokens := ?k\<rparr>"
  have n2: "tx_pend (ni_tx_ampdu n2 ! tid)" "txa_flags (ni_tx_ampdu n2 ! tid) AND 1 = 1"
    "txa_token (ni_tx_ampdu n2 ! tid) = word_of_nat ?k" "txa_start (ni_tx_ampdu n2 ! tid) = ni_txseqs ni ! tid"
    "ht_air n2 = ht_air ni"
    using l t u tid by (simp_all add: n2_def ieee80211_addba_request_def addba_start_timeout_def m Let_def
        tx_pend_def bit.conj_disj_distrib2)
  have "snd (ieee80211_ampdu_request cfg ticks True tr tid ni) =
      snd (ht_send_action_ba_addba tr 3 0 [word_of_nat ?k, 0, p, 0, push_bit 4 (txa_start (ni_tx_ampdu n2 ! tid)) AND 0xfff0] n2)"
    unfolding ieee80211_ampdu_request_def Let_def send_action_ba_def n2_def p_def request_params_def
    using tid by simp
  then have e: "snd (ieee80211_ampdu_request cfg ticks True tr tid ni) = n2\<lparr>ht_air := ht_air n2 @
      [ActionFrame ([3, 0, lo8 (word_of_nat ?k)] @ ADDSHORT p @ ADDSHORT 0 @ ADDSHORT (push_bit 4 (ni_txseqs ni ! tid) AND 0xfff0))]\<rparr>"
    using tr n2(4) by (simp add: ht_send_action_ba_addba_def ht_output_def sends_def)
  show ?thesis
    by (rule that [of p, OF _ _ refl]) (use n2 request_fields [OF t] request_window [OF t] in \<open>simp_all add: e p_def Let_def\<close>)
qed

text \<open>The peer sets the receive session up and accepts.\<close>

lemma request_accepted:
  assumes l: "length (ni_rx_ampdu ni) = 16" and tr: "sends tr"
    and on: "ni_flags ni AND NODE_AMPDU_RX \<noteq> 0" "iv_flags_ht cfg AND FHT_AMPDU_RX \<noteq> 0"
    and b: "b = [3, 0, k] @ ADDSHORT v @ ADDSHORT 0 @ ADDSHORT s" "baps_tid v = tid" "tid < 16"
  obtains p ni' where "recv_frame cfg tr (ActionFrame b) ni = Some ni'"
    "ht_air ni' = ht_air ni @ [ActionFrame ([3, 1, k] @ ADDSHORT 0 @ ADDSHORT p @ ADDSHORT 0)]"
    "baps_tid p = tid" "baps_policy p = 1" "ba_window p = ba_window v" "rxa_wnd (ni_rx_ampdu ni' ! tid) = ba_window v"
    "rxa_start (ni_rx_ampdu ni' ! tid) = uint (drop_bit 4 (s AND 0xfff0))" "rxa_qframes (ni_rx_ampdu ni' ! tid) = 0"
    "rxa_flags (ni_rx_ampdu ni' ! tid) AND AGGR_XCHGPEND \<noteq> 0"
proof -
  have b4: "b ! 3 = lo8 v" "b ! 4 = hi8 v" "b ! 2 = k" "b ! 7 = lo8 s" "b ! 8 = hi8 s" "b ! 0 = 3" "b ! 1 = 0" "length b = 9"
    using b by (simp_all add: ADDSHORT_def)
  define htc where "htc \<longleftrightarrow> iv_htcaps cfg AND HTC_RX_AMSDU_AMPDU \<noteq> 0"
  define n0 where "n0 = ba_count (\<lambda>s. s\<lparr>is_rx_action := is_rx_action s + 1, ns_rx_action := ns_rx_action s + 1\<rparr>) ni"
  obtain rap env where s: "ampdu_rx_start htc v s (ni_rx_ampdu ni ! tid, ni_rx_env ni) = (rap, env)" by fastforce
  note st = rx_start_agreed [OF s]
  define n1 where "n1 = rx_on tid (ampdu_rx_start htc v s) n0"
  have n1: "ni_rx_ampdu n1 ! tid = rap" "ht_air n1 = ht_air ni" using s l b(3) by (simp_all add: n1_def n0_def rx_on_def)
  define p where "p = (if v AND 0x0001 \<noteq> 0 \<and> ni_flags n1 AND NODE_AMSDU_RX \<noteq> 0 \<and> htc
    then reply_params tid (rxa_wnd (ni_rx_ampdu n1 ! tid)) OR 0x0001 else reply_params tid (rxa_wnd (ni_rx_ampdu n1 ! tid)))"
  have sa: "send_action_ba tr 1 args n = ht_send_action_ba_addba tr 3 1 args n" for args n
    by (simp add: send_action_ba_def)
  have u: "lo8 (ucast x) = x" for x :: u8
    unfolding lo8_def by (rule bit_word_eqI) (auto simp: bit_simps dest: bit_bounds)
  have on1: "(ni_flags n0 AND NODE_AMPDU_RX \<noteq> 0 \<and> iv_flags_ht cfg AND FHT_AMPDU_RX \<noteq> 0) = True"
    using on by (simp add: n0_def)
  have "ht_recv_action_ba_addba_request cfg tr b n0 = snd (ht_send_action_ba_addba tr 3 1 [ucast k, 0, p, 0, 0] n1)"
    unfolding ht_recv_action_ba_addba_request_def Let_def b4 le16_lo8_hi8 b(2) on1 if_True prod.case sa
      htc_def [symmetric] n1_def [symmetric] p_def reply_params_def ..
  moreover have "recv_frame cfg tr (ActionFrame b) ni = Some (ht_recv_action_ba_addba_request cfg tr b n0)"
    using b4 by (simp add: recv_frame_def ieee80211_parse_action_def action_minlen_def ieee80211_recv_action_def n0_def Let_def)
  ultimately have r: "recv_frame cfg tr (ActionFrame b) ni = Some (n1\<lparr>ht_air := ht_air n1 @
      [ActionFrame ([3, 1, k] @ ADDSHORT 0 @ ADDSHORT p @ ADDSHORT 0)]\<rparr>)"
    using tr by (simp add: ht_send_action_ba_addba_def ht_output_def sends_def u)
  have q: "rxa_qframes rap = 0"
    using s by (auto simp: ampdu_rx_start_def Let_def ieee80211_ampdu_rx_init_rap_def split: prod.splits if_splits)
  show ?thesis
    by (rule that [OF r, of p])
      (use n1 st rx_agreed_facts [OF st(1)] q reply_fields [OF b(3), of "rxa_wnd rap"] reply_policy [OF b(3)] in
        \<open>simp_all add: p_def\<close>)
qed

text \<open>The answer opens the transmit session.\<close>

lemma answer_accepted:
  assumes l: "length (ni_tx_ampdu ni) = 16" and t: "tid < 16" and p: "baps_tid p = tid" "baps_policy p = 1"
    and tap: "tx_pend (ni_tx_ampdu ni ! tid)" "txa_flags (ni_tx_ampdu ni ! tid) AND TXA_IMMEDIATE = 1"
      "txa_token (ni_tx_ampdu ni ! tid) = k"
  obtains ni' where "recv_frame cfg tr (ActionFrame ([3, 1, k] @ ADDSHORT 0 @ ADDSHORT p @ ADDSHORT 0)) ni = Some ni'"
    "tx_run (ni_tx_ampdu ni' ! tid)" "txa_wnd (ni_tx_ampdu ni' ! tid) = word_of_nat (ba_window p)"
    "txa_timer (ni_tx_ampdu ni' ! tid) = None" "txa_start (ni_tx_ampdu ni' ! tid) = txa_start (ni_tx_ampdu ni ! tid)"
    "ht_air ni' = ht_air ni" "ni_rx_ampdu ni' = ni_rx_ampdu ni"
proof -
  let ?b = "[3, 1, k] @ ADDSHORT 0 @ ADDSHORT p @ ADDSHORT 0"
  have b4: "?b ! 3 = lo8 0" "?b ! 4 = hi8 0" "?b ! 2 = k" "?b ! 5 = lo8 p" "?b ! 6 = hi8 p" "?b ! 0 = 3" "?b ! 1 = 1" "length ?b = 9"
    by (simp_all add: ADDSHORT_def)
  define n0 where "n0 = ba_count (\<lambda>s. s\<lparr>is_rx_action := is_rx_action s + 1, ns_rx_action := ns_rx_action s + 1\<rparr>) ni"
  have c: "(txa_flags (ni_tx_ampdu n0 ! tid) AND TXA_XCHGPEND = 0) = False" "(k \<noteq> txa_token (ni_tx_ampdu n0 ! tid)) = False"
    "(ucast (baps_policy p) \<noteq> txa_flags (ni_tx_ampdu n0 ! tid) AND TXA_IMMEDIATE) = False"
    using tap p by (simp_all add: n0_def tx_pend_def)
  have "ht_recv_action_ba_addba_response cfg ?b n0 = tx_on tid (ieee80211_addba_response cfg (ni_flags n0) 0 p) n0"
    unfolding ht_recv_action_ba_addba_response_def Let_def b4 le16_lo8_hi8 p(1) c if_False ..
  moreover have "recv_frame cfg tr (ActionFrame ?b) ni = Some (ht_recv_action_ba_addba_response cfg ?b n0)"
    using b4 by (simp add: recv_frame_def ieee80211_parse_action_def action_minlen_def ieee80211_recv_action_def n0_def Let_def)
  ultimately have "recv_frame cfg tr (ActionFrame ?b) ni = Some (tx_on tid (ieee80211_addba_response cfg (ni_flags n0) 0 p) n0)"
    by simp
  then show ?thesis
    by (rule that) (use l t tap(1) in \<open>simp_all add: n0_def ieee80211_addba_response_def addba_stop_timeout_def Let_def tx_bits\<close>)
qed

text \<open>
  If nothing is lost, a block ack session comes up: from any reachable state with nothing in
  flight, when a data frame makes a station ask for aggregation and the peer allows it, then
  once the request and its answer have arrived the session runs with a window of 64 frames, its
  timer is off, and the peer expects exactly the sequence number the next frame of that tid
  will carry, with an empty reorder buffer.
\<close>

theorem ba_handshake:
  assumes cfg: "\<forall>i. ht_cfg_ok (cfg i)" and r: "ba_reach cfg net" and t: "tid < 16" and tr: "sends tr"
    and air: "ht_air (net i) = []" "ht_air (net (\<not> i)) = []"
    and tx: "ni_flags (net i) AND NODE_AMPDU_TX \<noteq> 0" "iv_flags_ht (cfg i) AND FHT_AMPDU_TX \<noteq> 0"
    and rx: "ni_flags (net (\<not> i)) AND NODE_AMPDU_RX \<noteq> 0" "iv_flags_ht (cfg (\<not> i)) AND FHT_AMPDU_RX \<noteq> 0"
    and idle: "txa_flags (ni_tx_ampdu (net i) ! tid) AND (TXA_RUNNING OR TXA_XCHGPEND OR TXA_NAK) = 0"
    and tap: "ieee80211_txampdu_count_packet (ht_hz (cfg i)) ticks (ni_tx_ampdu (net i) ! tid) = Some tap"
      "ieee80211_ampdu_enable (cfg i) ticks tap"
  shows "\<exists>net'. ba_run cfg [(i, PktSend ticks True tr tid False False), (\<not> i, RecvFrame tr), (i, RecvFrame tr)] net = Some net' \<and>
    txa_flags (ni_tx_ampdu (net' i) ! tid) AND TXA_RUNNING \<noteq> 0 \<and> txa_wnd (ni_tx_ampdu (net' i) ! tid) = 64 \<and>
    txa_timer (ni_tx_ampdu (net' i) ! tid) = None \<and> txa_start (ni_tx_ampdu (net' i) ! tid) = ni_txseqs (net i) ! tid \<and>
    rxa_flags (ni_rx_ampdu (net' (\<not> i)) ! tid) AND AGGR_XCHGPEND \<noteq> 0 \<and> rxa_wnd (ni_rx_ampdu (net' (\<not> i)) ! tid) = 64 \<and>
    rxa_start (ni_rx_ampdu (net' (\<not> i)) ! tid) = uint (ni_txseqs (net i) ! tid AND 0x0fff) \<and>
    rxa_qframes (ni_rx_ampdu (net' (\<not> i)) ! tid) = 0 \<and> ht_air (net' i) = [] \<and> ht_air (net' (\<not> i)) = []"
proof -
  have ok: "ba_ok net" using ba_reach_ok [OF r cfg] .
  have less: "tx_less tap (ni_tx_ampdu (net i) ! tid)" "txa_flags tap = txa_flags (ni_tx_ampdu (net i) ! tid)"
    using count_packet_ends [of "ht_hz (cfg i)" ticks "ni_tx_ampdu (net i) ! tid"] cfg tap(1) by (auto simp: ht_cfg_ok_def)
  let ?n0 = "tx_on tid (\<lambda>_. tap) (net i)"
  have ok0: "ht_ok ?n0" by (rule ht_ok_quiet [OF ba_okD(1) [OF ok] quiet_step_set [OF less(1)]])
  define n1 where "n1 = snd (ieee80211_ampdu_request (cfg i) ticks True tr tid ?n0)"
  obtain p b where req: "ba_window p = 64" "baps_tid p = tid"
    "b = [3, 0, lo8 (word_of_nat ((ba_tokens ?n0 + 1) mod 63))] @ ADDSHORT p @ ADDSHORT 0 @
       ADDSHORT (push_bit 4 (ni_txseqs ?n0 ! tid) AND 0xfff0)"
    "ht_air n1 = ht_air ?n0 @ [ActionFrame b]" "tx_pend (ni_tx_ampdu n1 ! tid)"
    "txa_flags (ni_tx_ampdu n1 ! tid) AND TXA_IMMEDIATE = 1"
    "txa_token (ni_tx_ampdu n1 ! tid) = word_of_nat ((ba_tokens ?n0 + 1) mod 63)"
    "txa_start (ni_tx_ampdu n1 ! tid) = ni_txseqs ?n0 ! tid"
    using request_sent [OF ok0 t tr, where cfg = "cfg i" and ticks = ticks] unfolding n1_def by metis
  have l1: "length (ni_tx_ampdu n1) = 16" using ht_okD(1) [OF ok0]
    by (simp add: n1_def ieee80211_ampdu_request_def send_action_ba_def ht_send_action_ba_addba_def ht_output_def Let_def)
  have send: "pkt_send_ampdu (cfg i) ticks True tr tid False False (net i) = Some (False, n1)"
  proof -
    have "txa_flags tap AND TXA_RUNNING = 0"
      using idle by (metis and.assoc and_zero_eq bit.conj_disj_distrib less(2) or_eq_0_iff)
    then show ?thesis using tx tap idle less(2) by (simp add: pkt_send_ampdu_def Let_def n1_def)
  qed
  let ?m = "net (\<not> i)"
  obtain q m where acc: "recv_frame (cfg (\<not> i)) tr (ActionFrame b) ?m = Some m"
    "ht_air m = ht_air ?m @ [ActionFrame ([3, 1, lo8 (word_of_nat ((ba_tokens ?n0 + 1) mod 63))] @ ADDSHORT 0 @ ADDSHORT q @ ADDSHORT 0)]"
    "baps_tid q = tid" "baps_policy q = 1" "ba_window q = ba_window p" "rxa_wnd (ni_rx_ampdu m ! tid) = ba_window p"
    "rxa_start (ni_rx_ampdu m ! tid) = uint (drop_bit 4 ((push_bit 4 (ni_txseqs ?n0 ! tid) AND 0xfff0) AND 0xfff0))"
    "rxa_qframes (ni_rx_ampdu m ! tid) = 0" "rxa_flags (ni_rx_ampdu m ! tid) AND AGGR_XCHGPEND \<noteq> 0"
    using request_accepted [OF ht_okD(2) [OF ba_okD(1) [OF ok, of "\<not> i"]] tr rx req(3,2) t] by metis
  let ?n2 = "n1\<lparr>ht_air := []\<rparr>"
  have k: "lo8 (word_of_nat ((ba_tokens ?n0 + 1) mod 63)) = word_of_nat ((ba_tokens ?n0 + 1) mod 63)"
    by (simp add: lo8_def unsigned_of_nat take_bit_nat_eq_self)
  obtain n3 where ans: "recv_frame (cfg i) tr (ActionFrame ([3, 1, lo8 (word_of_nat ((ba_tokens ?n0 + 1) mod 63))] @
      ADDSHORT 0 @ ADDSHORT q @ ADDSHORT 0)) ?n2 = Some n3"
    "tx_run (ni_tx_ampdu n3 ! tid)" "txa_wnd (ni_tx_ampdu n3 ! tid) = word_of_nat (ba_window q)"
    "txa_timer (ni_tx_ampdu n3 ! tid) = None" "txa_start (ni_tx_ampdu n3 ! tid) = txa_start (ni_tx_ampdu ?n2 ! tid)"
    "ht_air n3 = ht_air ?n2"
  proof (rule answer_accepted [of ?n2 tid q "lo8 (word_of_nat ((ba_tokens ?n0 + 1) mod 63))" "cfg i" tr])
    show "length (ni_tx_ampdu ?n2) = 16" "tx_pend (ni_tx_ampdu ?n2 ! tid)" "txa_flags (ni_tx_ampdu ?n2 ! tid) AND TXA_IMMEDIATE = 1"
      "txa_token (ni_tx_ampdu ?n2 ! tid) = lo8 (word_of_nat ((ba_tokens ?n0 + 1) mod 63))"
      using l1 req(5-7) k by simp_all
  qed (use t acc(3,4) in blast)+
  have run: "ba_run cfg [(i, PktSend ticks True tr tid False False), (\<not> i, RecvFrame tr), (i, RecvFrame tr)] net =
      Some (((net(i := ?n2))(\<not> i := m\<lparr>ht_air := []\<rparr>))(i := n3))"
    using send acc(1,2) ans(1) req(4) air t by (simp add: ba_exec_def token_free_def fun_upd_twist fun_upd_def) (rule ext, simp)
  have "drop_bit 4 ((push_bit 4 s AND 0xfff0) AND 0xfff0) = s AND 0x0fff" for s :: u16
  proof -
    have m: "(0x0fff :: u16) = mask 12" "(0xfff0 :: u16) = push_bit 4 (mask 12)"
      by (simp_all add: mask_eq_exp_minus_1 push_bit_eq_mult)
    show ?thesis unfolding m by (rule bit_word_eqI) (auto simp: bit_simps)
  qed
  then show ?thesis using run ans req acc by (simp add: tx_run_def)
qed

section \<open>Where the code does not do what it means to\<close>

text \<open>
  \<open>txa_nextrequest\<close> is to be the time before which a station that was refused too often does
  not ask again. The comparison is the other way round: it may ask while that time has not
  come, and not once it has passed.
\<close>

lemma ampdu_enable_backoff_inverted:
  assumes "iv_ampdu_mintraffic cfg ! TID_TO_WME_AC (unat (txa_tid tap)) \<le> txa_avgpps tap"
    and "addba_maxtries cfg \<le>s ucast (txa_attempts tap)"
  shows "txa_nextrequest tap = ticks + 1 \<Longrightarrow> ieee80211_ampdu_enable cfg ticks tap"
    and "ticks = txa_nextrequest tap + 1 \<Longrightarrow> \<not> ieee80211_ampdu_enable cfg ticks tap"
  using assms by (auto simp: ieee80211_ampdu_enable_def ieee80211_time_after_def not_less)

text \<open>
  A peer's DELBA stops a session but not the block ack request that is pending: its timer
  finds the session not running, cannot send, and is started again, with the attempts at zero
  every time.
\<close>

lemma delba_leaves_bar_timer:
  assumes l: "i < length (ni_tx_ampdu ni)"
    and b: "txa_flags (ni_tx_ampdu ni ! i) AND TXA_XCHGPEND = 0" "txa_flags (ni_tx_ampdu ni ! i) AND TXA_BARPEND \<noteq> 0"
      "txa_timer (ni_tx_ampdu ni ! i) = Some BAR_TIMEOUT"
  defines "stuck \<equiv> \<lambda>ni. txa_flags (ni_tx_ampdu ni ! i) AND TXA_RUNNING = 0 \<and> txa_flags (ni_tx_ampdu ni ! i) AND TXA_BARPEND \<noteq> 0 \<and>
      txa_timer (ni_tx_ampdu ni ! i) = Some BAR_TIMEOUT \<and> txa_attempts (ni_tx_ampdu ni ! i) = 0"
  shows "stuck ((callout_fire cfg t i ^^ n) (tx_on i ieee80211_addba_stop ni))"
proof -
  have "stuck ((callout_fire cfg t i ^^ n) (tx_on i ieee80211_addba_stop ni)) \<and>
      i < length (ni_tx_ampdu ((callout_fire cfg t i ^^ n) (tx_on i ieee80211_addba_stop ni)))"
  proof (induction n)
    case 0
    show ?case using l b
      by (simp add: stuck_def ieee80211_addba_stop_def addba_stop_timeout_def Let_def txa_bits bit_and_iff bit_not_iff bit_or_iff)
  next
    case (Suc n)
    have "stuck (callout_fire cfg t i m) \<and> i < length (ni_tx_ampdu (callout_fire cfg t i m))"
      if "stuck m" "i < length (ni_tx_ampdu m)" for m
      using that by (simp add: stuck_def callout_fire_def bar_timeout_def ieee80211_send_bar_def bar_start_timer_def Let_def
          ba_count_def txa_bits bit_or_iff)
    then show ?case using Suc by simp
  qed
  then show ?thesis ..
qed

end
