(* ===== verification/Spec2Isabelle.thy ===== *)
theory Spec2Isabelle
  imports TkipReplay WepProps CryptoPath RxReorderProps AclProps AgeqProps ChdbgProps FragProps ClassifyProps ApToSta PowerTim BlockAckLife
begin

text \<open>
  A verification library for the wireless code of this repository: the data path of FreeBSD's
  net80211 (src/freebsd/sys/net80211), from the access point that encapsulates, fragments and
  encrypts a frame to the station that takes it in, with the power save of the access point;
  and the repository's own debug log (src/chdbg, src/wifi_dbg.c).

  \<^bold>\<open>The program.\<close> A driver hands a received frame, an mbuf chain, to the input function of
  the operating mode. For a station that is \<open>sta_input\<close>: it checks the header, drops
  duplicates, passes subframes of an A-MPDU through the reorder buffer of their block ack
  session (which calls the input function again for every frame it hands back), lets the
  crypto core decrypt with the cipher module of the key the frame names, joins fragments,
  checks the MIC, strips the 802.11 header, splits A-MSDUs and delivers Ethernet frames to the
  network stack. On the sending side \<open>ieee80211_classify\<close> chooses the access category of a
  frame from its tags, a station with enough traffic asks its peer for a block ack session,
  \<open>ieee80211_encap\<close> turns the Ethernet frame into an 802.11 frame and cuts
  it into fragments, and the crypto core chooses a key, whose module encrypts in place. Keys
  are created, filled and deleted through the core, which counts the references to the
  modules. For a station that sleeps the access point keeps the frames on two queues of its
  node and sets the bit of its association id in the traffic indication map of the beacon,
  until the station wakes up or polls. Access lists and age queues are data structures of the
  access point and of the scan and reassembly code. The debug log is a character device with
  a ring of lines that a small program prints.

  \<^bold>\<open>Theories and code.\<close> Each component has a theory of definitions, named by the functions
  of the code, and one or more theories of properties.
    \<^item> Prelude, Net80211, FrameHdr, Errno: machine words and bytes, the header accessors and
      the bit tests of ieee80211.h, the frame as a list of the data of its mbufs (\<open>mbuf\<close>), the
      key record, the statistics of a vap and its user space events.
    \<^item> Crc32, Rc4, WepData, Wep, WepProps: ieee80211_crypto_wep.c. The state of a key is the
      record \<open>ieee80211_key\<close> and a \<open>wep_ctx\<close>.
    \<^item> Tkip, TkipModule, TkipProps, TkipRoundtrip, TkipReplay: ieee80211_crypto_tkip.c, with key
      mixing, the Michael MIC over a chain, and the phase 1 caches in \<open>tkip_ctx\<close>.
    \<^item> Ccmp, CcmpLoops, CcmpProps: ieee80211_crypto_ccmp.c. CcmpLoops has the CCM reference on
      flat byte lists and relates the loops over mbufs to it.
    \<^item> Crypto, CryptoKeys, CryptoProps, CryptoPath: ieee80211_crypto.c and ieee80211_crypto_none.c:
      the module table, the life of a key as step relation \<open>key_step\<close>, and the dispatch on a
      \<open>crypto_node\<close> (the four group keys of the vap and the unicast key of the node).
    \<^item> RxReorder, RxReorderLoops, RxReorderStep, RxReorderProps: the reorder buffer of
      ieee80211_ht.c with its sessions (\<open>rx_ampdu\<close>), block ack requests and ageing; \<open>rx_reach\<close>
      is the set of reachable session states.
    \<^item> BlockAck, BlockAckProps, BlockAckNet, BlockAckAgree, BlockAckRun, BlockAckLife: the
      transmit side of ieee80211_ht.c, from the decision to ask for aggregation over the ADDBA
      exchange, its timers and block ack requests to DELBA, on the record \<open>ht_node\<close>; and two
      stations with the frames in flight between them (\<open>ba_exec\<close>, \<open>ba_reach\<close>).
    \<^item> RxSeq, RxDefrag, RxDecap and their Props: \<open>ieee80211_check_rxseq\<close> of ieee80211_input.h,
      \<open>ieee80211_defrag\<close>, \<open>ieee80211_decap\<close>, \<open>ieee80211_decap1\<close> and \<open>ieee80211_deliver_data\<close> of
      ieee80211_input.c and \<open>ieee80211_decap_amsdu\<close> of ieee80211_ht.c, on the part \<open>ni_rx\<close> of a
      node.
    \<^item> StaInput, StaProps, StaGroup: \<open>sta_input\<close> of ieee80211_sta.c on the record \<open>sta\<close>, which
      joins \<open>ni_rx\<close> and \<open>crypto_node\<close>; StaGroup follows a group frame from the sender's cipher to
      the receiver's network stack.
    \<^item> Output, OutputProps, FragProps, ClassifyProps: \<open>ieee80211_classify\<close>,
      \<open>ieee80211_mbuf_adjust\<close>, \<open>ieee80211_encap\<close> and \<open>ieee80211_fragment\<close> of ieee80211_output.c, on
      the configuration \<open>tx_sys\<close>, the state \<open>tx\<close> of the sender and its counters \<open>tx_stats\<close>.
    \<^item> ApToSta: the composition of \<open>ieee80211_encap\<close> at the access point, the protection of the
      frame and \<open>sta_input\<close> at the station.
    \<^item> PowerSave, PowerSaveProps, PowerTim: ieee80211_power.c, with the association ids of
      ieee80211_node.c, \<open>ieee80211_recv_pspoll\<close> of ieee80211_hostap.c, the TIM element of
      \<open>ieee80211_beacon_update\<close> and the test a station makes of it. The state of the access point
      is the record \<open>ap_vap\<close>; \<open>ap_reach\<close> is the set of its reachable states.
    \<^item> Acl, AclProps and Ageq, AgeqProps: ieee80211_acl.c and ieee80211_ageq.c, the latter on an
      explicit store of \<open>m_nextpkt\<close> pointers; both refine an abstract data type (locale
      \<open>data_refinement\<close> of Refine).
    \<^item> Chdbg, ChdbgProps: chdbg/chdev_drv.c and wifi_dbg.c, whose stream (\<open>FILE\<close>) refills its
      buffer by a read of the device for each block.
  Interfaces between components are locales: \<open>chain_stream\<close> (Rc4; a byte loop over mbufs),
  \<open>replay_receiver\<close> (Replay; interpreted by TKIP and CCMP) and \<open>data_refinement\<close> (interpreted by
  the access list and the age queue).

  \<^bold>\<open>What the properties show.\<close> Every cipher round-trips byte for byte for any cut into mbufs
  that the code supports (for CCMP whole cipher blocks in the sender's mbufs and the data in the
  receiver's first), accepts exactly what has the right check value, and accepts no packet
  number twice; initial vectors and counter blocks do not repeat. The crypto core keeps its
  reference counts and finds the key that the sender used. The reorder buffer returns on every
  frame, loses none and passes up in increasing order unless a frame grows too old; duplicates
  are dropped, fragments are
  joined only if they belong together, and decapsulation yields the Ethernet frame that the
  header describes. For the station as a whole: what is delivered was let through by address,
  direction, encryption and authorization, and a protected group frame arrives as what was
  sent. Encapsulation is undone by decapsulation, fragments are joined to the frame they were
  cut from, nothing that must be protected leaves without the protected bit, and the access
  category is the one that tags and admission control give; a data frame that an access point
  encapsulates and encrypts reaches the network stack of the station as the Ethernet frame it
  was. In every reachable state of the access point association ids are distinct, the queues
  of a sleeping station are bounded, and a station has a bit in the TIM exactly if frames
  wait for it, which the station reads from the beacon. In every reachable state of two
  stations a running transmit session faces its peer's receive session with the same window.
  The data structures refine lists.
  Behaviour that the code does not mean is proved too, on concrete inputs, beside the
  properties it concerns (for example \<open>rxseq_wrap_loss\<close>, \<open>amsdu_attack_leaks\<close>,
  \<open>tim_stale_offset\<close>).

  \<^bold>\<open>Conventions.\<close> A field of the C state is a field of a record, integers keep their width where
  they can wrap. \<open>None\<close> as a result is an access outside the buffers of a chain or through a
  pointer to something else, which the code does not guard against; all errors the code
  handles are values. Loops that the code does not bound are \<open>partial_function (option)\<close> and the
  properties prove that they return; no fuel is used. Callbacks (notifications, management
  handlers, radiotap) are lists of events. Assertions (KASSERT) are compiled out, as are
  \<open>IEEE80211_SUPPORT_SUPERG\<close> and \<open>IEEE80211_DEBUG\<close>, and loads need no alignment.
  Code outside the repository is a parameter: AES (\<open>block_cipher\<close>), the driver's key methods,
  random numbers, copying out to a user process, and the mbuf functions that may fail, with their contracts \<open>appends\<close>,
  \<open>prepends\<close>, \<open>m_prepends\<close>, \<open>unshares\<close>, \<open>pullups\<close>, \<open>splits\<close> and \<open>catpkts\<close>.

  \<^bold>\<open>Not modelled.\<close> Locks and preemption: a function runs to its end. The handlers of
  management frames and the state machines of the modes, most of the node table, scanning,
  channels and regulatory code, the construction of management frames and of the elements of a
  beacon other than the TIM, the queues between \<open>ieee80211_transmit\<close> and the driver, the
  information elements and protection modes of ieee80211_ht.c, mesh and fast frames, ioctls, module registration and
  tracing. The iwlwifi drivers and the Linux stack
  (mac80211, cfg80211) that the repository holds for comparison.
\<close>

end
